(* ===== verification/Prelude.thy ===== *)
theory Prelude
  imports Main "HOL-Library.Word"
begin

text \<open>
  Shared vocabulary of the development: the machine integers of the source as words, the
  checked and saturating operations of the Rust standard library, little-endian byte
  encodings, and the generic list and word lemmas that the component theories use.
\<close>

unbundle bit_operations_syntax

type_synonym u8 = "8 word"
type_synonym u16 = "16 word"
type_synonym u32 = "32 word"
type_synonym u64 = "64 word"

text \<open>Offsets are written as sums with numerals; keep them so.\<close>

declare add_2_eq_Suc [simp del] add_2_eq_Suc' [simp del]

named_theorems layout_defs \<open>constants and address functions of the fixed memory layouts\<close>
named_theorems mem_simps \<open>rewrite rules for loads, stores and the fault flag\<close>

section \<open>Integer operations of the standard library\<close>

text \<open>\<open>checked_add\<close>: None on overflow past the width.\<close>

definition checked_add :: "'a::len word \<Rightarrow> 'a word \<Rightarrow> 'a word option" where
  "checked_add a b = (if unat a + unat b < 2 ^ LENGTH('a) then Some (a + b) else None)"

definition checked_mul :: "'a::len word \<Rightarrow> 'a word \<Rightarrow> 'a word option" where
  "checked_mul a b = (if unat a * unat b < 2 ^ LENGTH('a) then Some (a * b) else None)"

definition saturating_add :: "'a::len word \<Rightarrow> 'a word \<Rightarrow> 'a word" where
  "saturating_add a b = (if unat a + unat b < 2 ^ LENGTH('a) then a + b else - 1)"

lemma checked_add_Some:
  "checked_add a b = Some c \<longleftrightarrow> unat c = unat a + unat b"
proof
  assume "checked_add a b = Some c"
  then show "unat c = unat a + unat b"
    by (auto simp: checked_add_def unat_word_ariths split: if_splits)
next
  assume c: "unat c = unat a + unat b"
  then have lt: "unat a + unat b < 2 ^ LENGTH('a)"
    using unsigned_less [of c, where ?'a = nat] by simp
  then have "unat (a + b) = unat c" by (simp add: c unat_word_ariths)
  then have "a + b = c" by (rule unsigned_word_eqI)
  with lt show "checked_add a b = Some c" by (simp add: checked_add_def)
qed

lemma checked_add_None:
  fixes a b :: "'a::len word"
  shows "checked_add a b = None \<longleftrightarrow> 2 ^ LENGTH('a) \<le> unat a + unat b"
  by (auto simp: checked_add_def)

lemma checked_mul_Some:
  "checked_mul a b = Some c \<Longrightarrow> unat c = unat a * unat b"
  by (auto simp: checked_mul_def unat_word_ariths split: if_splits)

lemma unat_saturating_add:
  fixes a b :: "'a::len word"
  shows "unat (saturating_add a b) = min (unat a + unat b) (2 ^ LENGTH('a) - 1)"
  by (auto simp: saturating_add_def unat_word_ariths unsigned_minus_1_eq_mask
      mask_eq_exp_minus_1 min_def)

lemma unat_sub_le:
  fixes a b :: "'a::len word"
  assumes "b \<le> a"
  shows "unat (a - b) = unat a - unat b"
  using assms by (simp add: unat_sub_if' word_le_nat_alt)

lemma unat_plus_one: "(n :: 'a::len word) \<noteq> - 1 \<Longrightarrow> unat (n + 1) = Suc (unat n)"
  by (metis add.commute eq_neg_iff_add_eq_0 unatSuc)

lemma less_plus_one:
  fixes n x :: "'a::len word"
  assumes "n \<noteq> - 1"
  shows "x < n + 1 \<longleftrightarrow> x \<le> n"
  using unat_plus_one [OF assms] by (simp add: word_less_nat_alt word_le_nat_alt less_Suc_eq_le)

lemma unat_ucast_up:
  fixes w :: "'a::len word"
  assumes "LENGTH('a) \<le> LENGTH('b::len)"
  shows "unat (ucast w :: 'b word) = unat w"
proof -
  have "unat w < 2 ^ LENGTH('b)"
    by (rule less_le_trans [OF unsigned_less]) (simp add: assms)
  then show ?thesis by (simp add: unsigned_ucast_eq take_bit_nat_eq_self)
qed

lemma of_nat_unat_ucast: "word_of_nat (unat w) = ucast w"
  by (simp add: unsigned_of_nat word_unat_eq_iff unsigned_ucast_eq)

lemma ucast_u32_u64 [simp]: "unat (ucast (w :: u32) :: u64) = unat w"
  by (rule unat_ucast_up) simp

section \<open>Little-endian encodings\<close>

text \<open>
  \<open>to_le_bytes\<close> of an integer of \<open>n\<close> bytes, and \<open>from_le_bytes\<close>.
\<close>

definition le_bytes :: "nat \<Rightarrow> 'a::len word \<Rightarrow> u8 list" where
  "le_bytes n w = map (\<lambda>i. ucast (drop_bit (8 * i) w)) [0..<n]"

fun of_le_bytes :: "u8 list \<Rightarrow> 'a::len word" where
  "of_le_bytes [] = 0"
| "of_le_bytes (b # bs) = ucast b OR push_bit 8 (of_le_bytes bs)"

lemma length_le_bytes [simp]: "length (le_bytes n w) = n"
  by (simp add: le_bytes_def)

lemma le_bytes_0 [simp]: "le_bytes 0 w = []"
  by (simp add: le_bytes_def)

lemma le_bytes_Suc: "le_bytes (Suc n) w = ucast w # le_bytes n (drop_bit 8 w)"
proof -
  have "[0..<Suc n] = 0 # map Suc [0..<n]"
    by (simp add: map_Suc_upt upt_conv_Cons)
  then show ?thesis by (simp add: le_bytes_def comp_def drop_bit_drop_bit add.commute)
qed

lemma of_le_bytes_le_bytes: "of_le_bytes (le_bytes n w) = take_bit (8 * n) w"
proof (induction n arbitrary: w)
  case 0
  then show ?case by simp
next
  case (Suc n)
  have "ucast (ucast w :: u8) OR push_bit 8 (take_bit (8 * n) (drop_bit 8 w)) = take_bit (8 * Suc n) w"
    by (rule bit_word_eqI)
      (auto simp: bit_simps bit_push_bit_iff dest: bit_imp_le_length)
  then show ?case by (simp add: le_bytes_Suc Suc)
qed

lemma of_le_bytes_le_bytes_full:
  fixes w :: "'a::len word"
  assumes "LENGTH('a) \<le> 8 * n"
  shows "of_le_bytes (le_bytes n w) = w"
proof -
  have "take_bit (8 * n) w = w"
    using assms by (intro bit_word_eqI) (auto simp: bit_simps)
  then show ?thesis by (simp add: of_le_bytes_le_bytes)
qed

lemma le_bytes_of_le_bytes:
  assumes "length bs = n" and "8 * n \<le> LENGTH('a)"
  shows "le_bytes n (of_le_bytes bs :: 'a::len word) = bs"
  using assms
proof (induction bs arbitrary: n)
  case Nil
  then show ?case by simp
next
  case (Cons b bs)
  then obtain m where n: "n = Suc m" by (cases n) auto
  let ?v = "of_le_bytes bs :: 'a word"
  have small: "take_bit (8 * m) ?v = ?v"
  proof -
    have "le_bytes m ?v = bs" using Cons n by simp
    then have "of_le_bytes (le_bytes m ?v) = ?v" by simp
    then show ?thesis by (simp add: of_le_bytes_le_bytes)
  qed
  have hd: "ucast (ucast b OR push_bit 8 ?v :: 'a word) = b"
    using Cons.prems n by (intro bit_word_eqI) (auto simp: bit_simps)
  have "drop_bit 8 (ucast b OR push_bit 8 ?v :: 'a word) = take_bit (LENGTH('a) - 8) ?v"
    by (rule bit_word_eqI) (auto simp: bit_simps dest: bit_imp_le_length)
  also have "\<dots> = take_bit (LENGTH('a) - 8) (take_bit (8 * m) ?v)" by (simp add: small)
  also have "\<dots> = take_bit (min (LENGTH('a) - 8) (8 * m)) ?v"
    by (simp only: take_bit_take_bit)
  also have "min (LENGTH('a) - 8) (8 * m) = 8 * m" using Cons.prems n by simp
  also have "take_bit (8 * m) ?v = ?v" by (rule small)
  finally have tl: "drop_bit 8 (ucast b OR push_bit 8 ?v :: 'a word) = ?v" .
  show ?case unfolding of_le_bytes.simps n le_bytes_Suc hd tl using Cons n by simp
qed

section \<open>Strings as bytes, and the end of a list\<close>

definition str :: "string \<Rightarrow> u8 list" where
  "str s = map of_char s"

lemma length_str [simp]: "length (str s) = length s"
  by (simp add: str_def)

text \<open>Decimal rendering of an integer, as \<open>format!\<close> does, and the width-2 form \<open>{:02}\<close>.\<close>

fun dec :: "nat \<Rightarrow> string" where
  "dec n = (if n < 10 then [char_of (48 + n)] else dec (n div 10) @ [char_of (48 + n mod 10)])"

declare dec.simps [simp del]

definition dec02 :: "nat \<Rightarrow> string" where
  "dec02 n = (if n < 10 then ''0'' @ dec n else dec n)"

text \<open>The last \<open>n\<close> elements.\<close>

definition lastn :: "nat \<Rightarrow> 'a list \<Rightarrow> 'a list" where
  "lastn n xs = drop (length xs - n) xs"

lemma length_lastn [simp]: "length (lastn n xs) = min n (length xs)"
  by (simp add: lastn_def)

lemma lastn_all [simp]: "length xs \<le> n \<Longrightarrow> lastn n xs = xs"
  by (simp add: lastn_def)

lemma lastn_append: "length ys \<le> n \<Longrightarrow> lastn n (xs @ ys) = lastn (n - length ys) xs @ ys"
  by (simp add: lastn_def)

lemma lastn_append_short: "n \<le> length ys \<Longrightarrow> lastn n (xs @ ys) = lastn n ys"
  by (simp add: lastn_def)

lemma lastn_lastn: "lastn n (lastn m xs) = lastn (min n m) xs"
proof -
  have "length xs - (length xs - m) - n + (length xs - m) = length xs - min n m" by arith
  then show ?thesis unfolding lastn_def length_drop drop_drop by simp
qed

lemma lastn_lastn_append: "lastn n (lastn n xs @ ys) = lastn n (xs @ ys)"
  by (cases "length ys \<le> n") (simp_all add: lastn_append lastn_append_short lastn_lastn)

lemma lastn_suffix: "\<exists>zs. xs = zs @ lastn n xs"
  by (rule exI [of _ "take (length xs - n) xs"]) (simp add: lastn_def)

end
