(* ===== verification/Guest_Memory.thy ===== *)
theory Guest_Memory
  imports Prelude
begin

text \<open>
  The DRAM of one L2CPU as the daemon sees it: a mapping of \<open>gm_size\<close> bytes
  (\<open>L2Cpu::get_memory_ptr\<close>), addressed by the offset from its base. The source
  reads and writes it through raw pointers, where an access outside the mapping is undefined
  behaviour. The model records such an access in \<open>gm_fault\<close>, so that memory safety of
  an operation is the statement that it leaves the flag as it was.
\<close>

record guest_mem =
  gm_bytes :: "nat \<Rightarrow> u8"
  gm_size :: nat
  gm_fault :: bool

text \<open>An access of \<open>n\<close> bytes at offset \<open>off\<close>; no access is made when \<open>n = 0\<close>.\<close>

definition gm_ok :: "nat \<Rightarrow> nat \<Rightarrow> guest_mem \<Rightarrow> bool" where
  "gm_ok off n m \<longleftrightarrow> n = 0 \<or> off + n \<le> gm_size m"

definition gm_touch :: "nat \<Rightarrow> nat \<Rightarrow> guest_mem \<Rightarrow> guest_mem" where
  "gm_touch off n m = m\<lparr>gm_fault := gm_fault m \<or> \<not> gm_ok off n m\<rparr>"

definition gm_load :: "guest_mem \<Rightarrow> nat \<Rightarrow> nat \<Rightarrow> u8 list" where
  "gm_load m off n = map (gm_bytes m) [off..<off + n]"

text \<open>Storing a list of bytes: \<open>copy_nonoverlapping\<close> and \<open>write_volatile\<close>.\<close>

definition gm_store :: "nat \<Rightarrow> u8 list \<Rightarrow> guest_mem \<Rightarrow> guest_mem" where
  "gm_store off bs m =
     (gm_touch off (length bs) m)
       \<lparr>gm_bytes := (\<lambda>a. if off \<le> a \<and> a < off + length bs then bs ! (a - off) else gm_bytes m a)\<rparr>"

abbreviation gm_u16 :: "guest_mem \<Rightarrow> nat \<Rightarrow> u16" where
  "gm_u16 m off \<equiv> of_le_bytes (gm_load m off 2)"

abbreviation gm_u32 :: "guest_mem \<Rightarrow> nat \<Rightarrow> u32" where
  "gm_u32 m off \<equiv> of_le_bytes (gm_load m off 4)"

abbreviation gm_u64 :: "guest_mem \<Rightarrow> nat \<Rightarrow> u64" where
  "gm_u64 m off \<equiv> of_le_bytes (gm_load m off 8)"

section \<open>Loads and stores\<close>

lemma gm_touch_simps [simp]:
  "gm_bytes (gm_touch off n m) = gm_bytes m"
  "gm_size (gm_touch off n m) = gm_size m"
  "gm_fault (gm_touch off n m) \<longleftrightarrow> gm_fault m \<or> \<not> gm_ok off n m"
  by (simp_all add: gm_touch_def)

lemma gm_touch_ok [mem_simps]: "gm_ok off n m \<Longrightarrow> gm_touch off n m = m"
  by (simp add: gm_touch_def)

lemma gm_store_simps [simp]:
  "gm_size (gm_store off bs m) = gm_size m"
  "gm_fault (gm_store off bs m) \<longleftrightarrow> gm_fault m \<or> \<not> gm_ok off (length bs) m"
  by (simp_all add: gm_store_def)

lemma gm_bytes_store:
  "gm_bytes (gm_store off bs m) a =
     (if off \<le> a \<and> a < off + length bs then bs ! (a - off) else gm_bytes m a)"
  by (simp add: gm_store_def)

lemma gm_ok_touch [simp]: "gm_ok off n (gm_touch off' n' m) = gm_ok off n m"
  by (simp add: gm_ok_def)

lemma gm_ok_store [simp]: "gm_ok off n (gm_store off' bs m) = gm_ok off n m"
  by (simp add: gm_ok_def)

lemma gm_load_touch [simp]: "gm_load (gm_touch off n m) a k = gm_load m a k"
  by (simp add: gm_load_def)

lemma length_gm_load [simp]: "length (gm_load m off n) = n"
  by (simp add: gm_load_def)

lemma nth_gm_load [simp]: "i < n \<Longrightarrow> gm_load m off n ! i = gm_bytes m (off + i)"
  by (simp add: gm_load_def)

lemma gm_load_cong:
  assumes "\<And>a. off \<le> a \<Longrightarrow> a < off + n \<Longrightarrow> gm_bytes m a = gm_bytes m' a"
  shows "gm_load m off n = gm_load m' off n"
  using assms by (auto simp: gm_load_def)

lemma gm_load_store_same [mem_simps]: "gm_load (gm_store off bs m) off (length bs) = bs"
  by (rule nth_equalityI) (auto simp: gm_bytes_store)

lemma gm_load_store_disjoint [mem_simps]:
  "off + n \<le> off' \<or> off' + length bs \<le> off \<Longrightarrow> gm_load (gm_store off' bs m) off n = gm_load m off n"
  by (rule gm_load_cong) (auto simp: gm_bytes_store)

text \<open>
  The bytes an operation may change: \<open>gm_frame lo hi m m'\<close> says that \<open>m'\<close> agrees
  with \<open>m\<close> outside of the offsets from \<open>lo\<close> up to but not including \<open>hi\<close>.
\<close>

definition gm_frame :: "nat \<Rightarrow> nat \<Rightarrow> guest_mem \<Rightarrow> guest_mem \<Rightarrow> bool" where
  "gm_frame lo hi m m' \<longleftrightarrow>
     gm_size m' = gm_size m \<and> (\<forall>a. a < lo \<or> hi \<le> a \<longrightarrow> gm_bytes m' a = gm_bytes m a)"

lemma gm_frame_refl [simp]: "gm_frame lo hi m m"
  by (simp add: gm_frame_def)

lemma gm_frame_trans [trans]:
  "gm_frame lo hi m m' \<Longrightarrow> gm_frame lo hi m' m'' \<Longrightarrow> gm_frame lo hi m m''"
  by (auto simp: gm_frame_def)

lemma gm_frame_mono:
  "gm_frame lo hi m m' \<Longrightarrow> lo' \<le> lo \<Longrightarrow> hi \<le> hi' \<Longrightarrow> gm_frame lo' hi' m m'"
  unfolding gm_frame_def by (meson le_less_trans less_le_trans linorder_not_le order_trans)

lemma gm_frame_store: "lo \<le> off \<Longrightarrow> off + length bs \<le> hi \<Longrightarrow> gm_frame lo hi m (gm_store off bs m)"
  by (auto simp: gm_frame_def gm_bytes_store)

lemma gm_frame_touch [simp]: "gm_frame lo hi m (gm_touch off n m)"
  by (simp add: gm_frame_def)

lemma gm_frame_size: "gm_frame lo hi m m' \<Longrightarrow> gm_size m' = gm_size m"
  by (simp add: gm_frame_def)

lemma gm_frame_load:
  "gm_frame lo hi m m' \<Longrightarrow> off + n \<le> lo \<or> hi \<le> off \<Longrightarrow> gm_load m' off n = gm_load m off n"
  by (rule gm_load_cong) (auto simp: gm_frame_def)

lemma gm_frame_ok: "gm_frame lo hi m m' \<Longrightarrow> gm_ok off n m' = gm_ok off n m"
  by (simp add: gm_frame_def gm_ok_def)

section \<open>Regions\<close>

text \<open>A region is an offset and a length. Regions that are apart do not overlap.\<close>

definition disj2 :: "nat \<times> nat \<Rightarrow> nat \<times> nat \<Rightarrow> bool" where
  "disj2 a b \<longleftrightarrow> fst a + snd a \<le> fst b \<or> fst b + snd b \<le> fst a"

definition apart :: "(nat \<times> nat) list \<Rightarrow> bool" where
  "apart rs = sorted_wrt disj2 rs"

lemma disj2_sym: "disj2 a b \<Longrightarrow> disj2 b a"
  by (auto simp: disj2_def)

lemma apart_Nil [simp]: "apart []"
  by (simp add: apart_def)

lemma apart_Cons [simp]: "apart (r # rs) \<longleftrightarrow> (\<forall>x \<in> set rs. disj2 r x) \<and> apart rs"
  by (simp add: apart_def)

lemma apart_append [simp]:
  "apart (rs @ rs') \<longleftrightarrow> apart rs \<and> apart rs' \<and> (\<forall>x \<in> set rs. \<forall>y \<in> set rs'. disj2 x y)"
  by (induction rs) auto

lemma gm_frame_load_disj:
  "gm_frame lo (lo + k) m m' \<Longrightarrow> disj2 (a, n) (lo, k) \<Longrightarrow> gm_load m' a n = gm_load m a n"
  by (rule gm_frame_load) (auto simp: disj2_def)

lemma gm_load_part:
  assumes "gm_load m' a n = gm_load m a n" and "a \<le> b" and "b + k \<le> a + n"
  shows "gm_load m' b k = gm_load m b k"
proof (rule gm_load_cong)
  fix x assume "b \<le> x" "x < b + k"
  then have "gm_load m' a n ! (x - a) = gm_bytes m' x" "gm_load m a n ! (x - a) = gm_bytes m x"
    using assms(2,3) by simp_all
  with assms(1) show "gm_bytes m' x = gm_bytes m x" by simp
qed

end
