(* ===== verification/Virtio_Queue.thy ===== *)
theory Virtio_Queue
  imports Guest_Memory
begin

text \<open>
  The virtqueue framework of \<open>src/src/virtio/mod.rs\<close>: descriptors, the avail and used
  rings in guest memory, the device interface (trait \<open>VirtioDeviceImpl\<close>) as a record of
  operations, and \<open>process_one_chain_for_queue\<close>. The trait's contract is the locale
  \<open>virtio_device\<close>; what the framework guarantees for every device that meets it is proved
  there once.
\<close>

section \<open>Model\<close>

definition VRING_DESC_F_NEXT :: u16 where "VRING_DESC_F_NEXT = 1"

definition QUEUE_SIZE :: u16 where "QUEUE_SIZE = 16384"

record vring_desc =
  d_addr :: u64
  d_len :: u32
  d_flags :: u16
  d_next :: u16

text \<open>The \<open>repr(C)\<close> layout of \<open>VringDesc\<close>: 16 bytes, little-endian.\<close>

definition read_desc :: "guest_mem \<Rightarrow> nat \<Rightarrow> vring_desc" where
  "read_desc m off =
     \<lparr>d_addr = gm_u64 m off, d_len = gm_u32 m (off + 8),
      d_flags = gm_u16 m (off + 12), d_next = gm_u16 m (off + 14)\<rparr>"

text \<open>
  What a device operation reaches: the device itself, the guest's memory, and the host-side
  objects it shares with the rest of the daemon (hub, metrics, kernel).
\<close>

record ('d, 'w) ctx =
  dev :: 'd
  mem :: guest_mem
  wld :: 'w

datatype interrupt_kind = Block | Net | Console | Rng

record ('d, 'w) device_ops =
  num_queues :: "'d \<Rightarrow> u32"
  queue_header_size :: "'d \<Rightarrow> u64"
  device_id :: "'d \<Rightarrow> u32"
  device_features :: "'d \<Rightarrow> u32 \<times> u32"
  process_queue_start :: "u32 \<Rightarrow> nat \<Rightarrow> u64 \<Rightarrow> ('d, 'w) ctx \<Rightarrow> ('d, 'w) ctx"
  process_queue_data :: "u32 \<Rightarrow> nat \<Rightarrow> u64 \<Rightarrow> ('d, 'w) ctx \<Rightarrow> ('d, 'w) ctx"
  process_queue_complete :: "u32 \<Rightarrow> nat \<Rightarrow> u64 \<Rightarrow> ('d, 'w) ctx \<Rightarrow> u64 \<times> ('d, 'w) ctx"
  queue_has_data :: "u32 \<Rightarrow> ('d, 'w) ctx \<Rightarrow> bool"

text \<open>
  The arguments of \<open>process_one_chain_for_queue\<close> that do not change during a chain. The ring
  pointers are offsets from the base of the mapping.
\<close>

record vqueue =
  desc_q :: nat
  avail_q :: nat
  used_q :: nat
  queue_idx :: u32
  header_size :: u64
  queue_num :: u16
  starting_address :: u64
  mem_end :: u64

text \<open>The range check on one descriptor, with the overflow-checked end address.\<close>

definition desc_out_of_range :: "vqueue \<Rightarrow> vring_desc \<Rightarrow> bool" where
  "desc_out_of_range vq d \<longleftrightarrow>
     d_addr d < starting_address vq \<or> mem_end vq \<le> d_addr d \<or>
     (case checked_add (d_addr d) (ucast (d_len d)) of
        None \<Rightarrow> True
      | Some addr_end \<Rightarrow> mem_end vq < addr_end)"

definition desc_offset :: "vqueue \<Rightarrow> vring_desc \<Rightarrow> nat" where
  "desc_offset vq d = unat (d_addr d - starting_address vq)"

definition has_next :: "vring_desc \<Rightarrow> bool" where
  "has_next d \<longleftrightarrow> d_flags d AND VRING_DESC_F_NEXT \<noteq> 0"

definition desc_slot :: "vqueue \<Rightarrow> u16 \<Rightarrow> nat" where
  "desc_slot vq i = desc_q vq + 16 * (unat i mod unat (queue_num vq))"

text \<open>
  The descriptor walk. The result is \<open>chain_valid\<close>, \<open>num_bytes_written\<close> and the state.
\<close>

function chain_loop ::
  "('d, 'w) device_ops \<Rightarrow> vqueue \<Rightarrow> nat \<Rightarrow> u16 \<Rightarrow> u64 \<Rightarrow> ('d, 'w) ctx \<Rightarrow> bool \<times> u64 \<times> ('d, 'w) ctx"
where
  "chain_loop ops vq steps desc_idx written c =
     (if unat (queue_num vq) \<le> steps then (False, written, c)
      else
        let c1 = c\<lparr>mem := gm_touch (desc_slot vq desc_idx) 16 (mem c)\<rparr>;
            d = read_desc (mem c1) (desc_slot vq desc_idx);
            len = ucast (d_len d)
        in if desc_out_of_range vq d then (False, written, c1)
           else if has_next d then
             chain_loop ops vq (Suc steps) (d_next d) (written + len)
               (if written < header_size vq
                then process_queue_start ops (queue_idx vq) (desc_offset vq d) len c1
                else process_queue_data ops (queue_idx vq) (desc_offset vq d) len c1)
           else
             (case process_queue_complete ops (queue_idx vq) (desc_offset vq d) len c1 of
                (actual, c2) \<Rightarrow> (True, written + actual, c2)))"
  by pat_completeness auto
termination
  by (relation "measure (\<lambda>(ops, vq, steps, i, w, c). unat (queue_num vq) - steps)") auto

declare chain_loop.simps [simp del]

text \<open>Posting a completion: the used element first, then the index.\<close>

definition post_used :: "vqueue \<Rightarrow> u16 \<Rightarrow> u64 \<Rightarrow> guest_mem \<Rightarrow> guest_mem" where
  "post_used vq head written m =
     (let m1 = gm_touch (used_q vq + 2) 2 m;
          used_idx = gm_u16 m1 (used_q vq + 2);
          elem = used_q vq + 4 + 8 * (unat used_idx mod unat (queue_num vq));
          m2 = gm_store elem (le_bytes 4 (ucast head :: u32)) m1;
          m3 = gm_store (elem + 4) (le_bytes 4 (ucast written :: u32)) m2
      in gm_store (used_q vq + 2) (le_bytes 2 (used_idx + 1)) m3)"

text \<open>
  \<open>process_one_chain_for_queue\<close>: the result is whether a completion was posted, the new
  value of \<open>processed\<close>, and the state. None is the panic of \<open>% qn\<close> with \<open>qn = 0\<close>.
\<close>

definition process_one_chain_for_queue ::
  "('d, 'w) device_ops \<Rightarrow> vqueue \<Rightarrow> u16 \<Rightarrow> ('d, 'w) ctx \<Rightarrow> (bool \<times> u16 \<times> ('d, 'w) ctx) option"
where
  "process_one_chain_for_queue ops vq processed c =
     (let c1 = c\<lparr>mem := gm_touch (avail_q vq + 2) 2 (mem c)\<rparr>;
          avail_idx = gm_u16 (mem c1) (avail_q vq + 2)
      in if processed = avail_idx \<or> \<not> queue_has_data ops (queue_idx vq) c1
         then Some (False, processed, c1)
         else if queue_num vq = 0 then None
         else
           let slot = avail_q vq + 4 + 2 * (unat processed mod unat (queue_num vq));
               c2 = c1\<lparr>mem := gm_touch slot 2 (mem c1)\<rparr>;
               head = gm_u16 (mem c2) slot
           in case chain_loop ops vq 0 head 0 c2 of
                (chain_valid, written, c3) \<Rightarrow>
                  Some (chain_valid, processed + 1,
                    (if chain_valid then c3\<lparr>mem := post_used vq head written (mem c3)\<rparr> else c3)))"

section \<open>The descriptor checks\<close>

lemma desc_in_range:
  assumes "\<not> desc_out_of_range vq d"
  shows "starting_address vq \<le> d_addr d"
    and "desc_offset vq d < unat (mem_end vq) - unat (starting_address vq)"
    and "desc_offset vq d + unat (d_len d) \<le> unat (mem_end vq) - unat (starting_address vq)"
proof -
  from assms have lo: "starting_address vq \<le> d_addr d" and hi: "d_addr d < mem_end vq"
    by (auto simp: desc_out_of_range_def not_le not_less)
  from assms obtain e where "checked_add (d_addr d) (ucast (d_len d)) = Some e" and e: "e \<le> mem_end vq"
    by (auto simp: desc_out_of_range_def not_less split: option.splits)
  then have "unat e = unat (d_addr d) + unat (ucast (d_len d) :: u64)"
    by (simp only: checked_add_Some)
  then have e2: "unat (d_addr d) + unat (d_len d) \<le> unat (mem_end vq)"
    using e by (simp add: word_le_nat_alt)
  have off: "desc_offset vq d = unat (d_addr d) - unat (starting_address vq)"
    using lo by (simp add: desc_offset_def unat_sub_le)
  show "starting_address vq \<le> d_addr d" by (rule lo)
  show "desc_offset vq d < unat (mem_end vq) - unat (starting_address vq)"
    using lo hi by (simp add: off word_le_nat_alt word_less_nat_alt)
  show "desc_offset vq d + unat (d_len d) \<le> unat (mem_end vq) - unat (starting_address vq)"
    using e2 lo by (simp add: off word_le_nat_alt)
qed

lemma chain_loop_steps_induct:
  assumes "\<And>steps i written c.
      (\<And>i' written' c'. steps < unat (queue_num vq) \<Longrightarrow> P (Suc steps) i' written' c') \<Longrightarrow>
      P steps i written c"
  shows "P steps i written c"
proof (induction "unat (queue_num vq) - steps" arbitrary: steps i written c rule: less_induct)
  case less
  show ?case by (rule assms, rule less) simp
qed

text \<open>The context and the descriptor of one step of the walk, and the ways the step can go.\<close>

abbreviation touched :: "vqueue \<Rightarrow> u16 \<Rightarrow> ('d, 'w) ctx \<Rightarrow> ('d, 'w) ctx" where
  "touched vq i c \<equiv> c\<lparr>mem := gm_touch (desc_slot vq i) 16 (mem c)\<rparr>"

abbreviation desc_at :: "vqueue \<Rightarrow> u16 \<Rightarrow> ('d, 'w) ctx \<Rightarrow> vring_desc" where
  "desc_at vq i c \<equiv> read_desc (mem (touched vq i c)) (desc_slot vq i)"

abbreviation walk_step ::
  "('d, 'w) device_ops \<Rightarrow> vqueue \<Rightarrow> vring_desc \<Rightarrow> u64 \<Rightarrow> ('d, 'w) ctx \<Rightarrow> ('d, 'w) ctx"
where
  "walk_step ops vq d written c \<equiv>
     (if written < header_size vq
      then process_queue_start ops (queue_idx vq) (desc_offset vq d) (ucast (d_len d)) c
      else process_queue_data ops (queue_idx vq) (desc_offset vq d) (ucast (d_len d)) c)"

lemma chain_loop_step:
  assumes "chain_loop ops vq steps i written c = (valid, n, c')"
  obtains (stop) "\<not> valid" "n = written" "c' = c \<or> c' = touched vq i c"
  | (more) "steps < unat (queue_num vq)" "\<not> desc_out_of_range vq (desc_at vq i c)"
      "has_next (desc_at vq i c)"
      "chain_loop ops vq (Suc steps) (d_next (desc_at vq i c))
         (written + ucast (d_len (desc_at vq i c)))
         (walk_step ops vq (desc_at vq i c) written (touched vq i c)) = (valid, n, c')"
  | (last) "\<not> desc_out_of_range vq (desc_at vq i c)" "\<not> has_next (desc_at vq i c)" "valid"
      "process_queue_complete ops (queue_idx vq) (desc_offset vq (desc_at vq i c))
         (ucast (d_len (desc_at vq i c))) (touched vq i c) = (n - written, c')"
proof (cases "unat (queue_num vq) \<le> steps \<or> desc_out_of_range vq (desc_at vq i c)")
  case True
  with assms show thesis
    by (intro stop) (auto simp: chain_loop.simps [of ops vq steps i written c] Let_def split: if_splits)
next
  case False
  show thesis
  proof (cases "has_next (desc_at vq i c)")
    case True
    with False assms show thesis
      by (intro more) (simp_all add: chain_loop.simps [of ops vq steps i written c] Let_def)
  next
    case no_next: False
    with False assms show thesis
      by (intro last)
        (auto simp: chain_loop.simps [of ops vq steps i written c] Let_def split: prod.splits)
  qed
qed

lemma desc_offset_fits:
  assumes "\<not> desc_out_of_range vq d"
    and "unat (mem_end vq) - unat (starting_address vq) + slack \<le> n"
  shows "desc_offset vq d + unat (ucast (d_len d) :: u64) + slack \<le> n"
  using desc_in_range(3) [OF assms(1)] assms(2) by simp

section \<open>Memory safety and confinement, for every device\<close>

text \<open>The rings lie in the mapping. This is what the caller has to ensure.\<close>

definition vq_fits :: "vqueue \<Rightarrow> nat \<Rightarrow> bool" where
  "vq_fits vq n \<longleftrightarrow>
     queue_num vq \<noteq> 0 \<and>
     desc_q vq + 16 * unat (queue_num vq) \<le> n \<and>
     avail_q vq + 4 + 2 * unat (queue_num vq) \<le> n \<and>
     used_q vq + 4 + 8 * unat (queue_num vq) \<le> n"

definition dram_span :: "vqueue \<Rightarrow> nat" where
  "dram_span vq = unat (mem_end vq) - unat (starting_address vq)"

lemma mod_scaled_bound:
  fixes i n k :: nat
  assumes "0 < n"
  shows "k * (i mod n) + k \<le> k * n"
proof -
  have "Suc (i mod n) \<le> n" using assms by (simp add: Suc_leI)
  then have "k * Suc (i mod n) \<le> k * n" by (rule mult_le_mono2)
  then show ?thesis by simp
qed

lemma desc_slot_ok: "vq_fits vq (gm_size m) \<Longrightarrow> gm_ok (desc_slot vq i) 16 m"
  using mod_scaled_bound [of "unat (queue_num vq)" 16 "unat i"]
  by (auto simp: vq_fits_def gm_ok_def desc_slot_def unat_gt_0)

lemma avail_slot_ok:
  "vq_fits vq (gm_size m) \<Longrightarrow> gm_ok (avail_q vq + 4 + 2 * (unat i mod unat (queue_num vq))) 2 m"
  using mod_scaled_bound [of "unat (queue_num vq)" 2 "unat i"]
  by (auto simp: vq_fits_def gm_ok_def unat_gt_0)

lemma avail_ok:
  assumes "vq_fits vq (gm_size m)"
  shows "gm_ok (avail_q vq + 2) 2 m"
    and "gm_ok (avail_q vq + 4 + 2 * (unat (i :: u16) mod unat (queue_num vq))) 2 m"
proof -
  show "gm_ok (avail_q vq + 2) 2 m" using assms by (simp add: vq_fits_def gm_ok_def)
  show "gm_ok (avail_q vq + 4 + 2 * (unat i mod unat (queue_num vq))) 2 m"
    using assms by (rule avail_slot_ok)
qed

lemma used_elem_ok:
  "vq_fits vq (gm_size m) \<Longrightarrow> gm_ok (used_q vq + 4 + 8 * (unat i mod unat (queue_num vq))) 8 m"
  using mod_scaled_bound [of "unat (queue_num vq)" 8 "unat i"]
  by (auto simp: vq_fits_def gm_ok_def unat_gt_0)

lemma post_used_safe:
  assumes "vq_fits vq (gm_size m)"
  shows "gm_fault (post_used vq head written m) = gm_fault m"
    and "gm_size (post_used vq head written m) = gm_size m"
proof -
  have "gm_ok (used_q vq + 2) 2 m" using assms by (simp add: vq_fits_def gm_ok_def)
  moreover have "gm_ok (used_q vq + 4 + 8 * (unat i mod unat (queue_num vq))) 4 m"
    and "gm_ok (used_q vq + 4 + 8 * (unat i mod unat (queue_num vq)) + 4) 4 m" for i :: u16
    using used_elem_ok [OF assms, of i] by (auto simp: gm_ok_def)
  ultimately show "gm_fault (post_used vq head written m) = gm_fault m"
    by (simp add: post_used_def Let_def)
  show "gm_size (post_used vq head written m) = gm_size m"
    by (simp add: post_used_def Let_def)
qed

lemma post_used_result:
  fixes m :: guest_mem
  assumes "queue_num vq \<noteq> 0"
  defines "u \<equiv> gm_u16 m (used_q vq + 2)"
  defines "elem \<equiv> used_q vq + 4 + 8 * (unat u mod unat (queue_num vq))"
  shows "gm_u16 (post_used vq head written m) (used_q vq + 2) = u + 1"
    and "gm_u32 (post_used vq head written m) elem = ucast head"
    and "gm_u32 (post_used vq head written m) (elem + 4) = ucast written"
    and "gm_frame (used_q vq + 2) (used_q vq + 4 + 8 * unat (queue_num vq)) m (post_used vq head written m)"
proof -
  let ?m2 = "gm_store elem (le_bytes 4 (ucast head :: u32)) (gm_touch (used_q vq + 2) 2 m)"
  let ?m3 = "gm_store (elem + 4) (le_bytes 4 (ucast written :: u32)) ?m2"
  have p: "post_used vq head written m = gm_store (used_q vq + 2) (le_bytes 2 (u + 1)) ?m3"
    by (simp add: post_used_def Let_def u_def elem_def)
  show "gm_u16 (post_used vq head written m) (used_q vq + 2) = u + 1"
    using gm_load_store_same [of "used_q vq + 2" "le_bytes 2 (u + 1)" ?m3]
    by (simp add: p of_le_bytes_le_bytes_full)
  show "gm_u32 (post_used vq head written m) elem = ucast head"
    using gm_load_store_same [of elem "le_bytes 4 (ucast head :: u32)"]
    by (simp add: p gm_load_store_disjoint elem_def of_le_bytes_le_bytes_full)
  show "gm_u32 (post_used vq head written m) (elem + 4) = ucast written"
    using gm_load_store_same [of "elem + 4" "le_bytes 4 (ucast written :: u32)"]
    by (simp add: p gm_load_store_disjoint elem_def of_le_bytes_le_bytes_full)
  let ?lo = "used_q vq + 2" and ?hi = "used_q vq + 4 + 8 * unat (queue_num vq)"
  have "elem + 8 \<le> ?hi"
    using mod_scaled_bound [of "unat (queue_num vq)" 8 "unat u"] assms(1)
    by (simp add: elem_def unat_gt_0)
  then have 12: "gm_frame ?lo ?hi (gm_touch (used_q vq + 2) 2 m) ?m2" and 23: "gm_frame ?lo ?hi ?m2 ?m3"
      and 34: "gm_frame ?lo ?hi ?m3 (post_used vq head written m)"
    unfolding p by (auto simp: elem_def intro!: gm_frame_store)
  have "gm_frame ?lo ?hi m ?m2" by (rule gm_frame_trans [OF gm_frame_touch 12])
  also note 23
  also note 34
  finally show "gm_frame ?lo ?hi m (post_used vq head written m)" .
qed

text \<open>With the rings in the mapping, the volatile reads of the rings change nothing.\<close>

lemma one_chain_unfold:
  assumes "vq_fits vq (gm_size (mem c))"
  shows "process_one_chain_for_queue ops vq processed c =
    (if processed = gm_u16 (mem c) (avail_q vq + 2) \<or> \<not> queue_has_data ops (queue_idx vq) c
     then Some (False, processed, c)
     else let head = gm_u16 (mem c) (avail_q vq + 4 + 2 * (unat processed mod unat (queue_num vq)))
       in case chain_loop ops vq 0 head 0 c of
         (valid, n, c3) \<Rightarrow>
           Some (valid, processed + 1,
             if valid then c3\<lparr>mem := post_used vq head n (mem c3)\<rparr> else c3))"
proof -
  have t1: "c\<lparr>mem := gm_touch (avail_q vq + 2) 2 (mem c)\<rparr> = c"
    using avail_ok(1) [OF assms] by (simp add: gm_touch_ok)
  have t2: "c\<lparr>mem := gm_touch (avail_q vq + 4 + 2 * (unat processed mod unat (queue_num vq))) 2 (mem c)\<rparr> = c"
    using avail_ok(2) [OF assms, of processed] by (simp add: gm_touch_ok)
  have "queue_num vq \<noteq> 0" using assms by (simp add: vq_fits_def)
  then show ?thesis unfolding process_one_chain_for_queue_def Let_def t1 t2 by simp
qed

lemma one_chain_returns:
  assumes "vq_fits vq (gm_size (mem c))"
  obtains posted processed' c' where
    "process_one_chain_for_queue ops vq processed c = Some (posted, processed', c')"
proof -
  have "process_one_chain_for_queue ops vq processed c \<noteq> None"
    unfolding one_chain_unfold [OF assms] by (auto simp: Let_def case_prod_beta)
  then show thesis using that by (cases "process_one_chain_for_queue ops vq processed c") auto
qed

text \<open>
  The contract of \<open>VirtioDeviceImpl\<close>. Each operation is given one buffer of the guest. It writes
  only there, except that it may run past the end by \<open>slack\<close> bytes, a fixed header that the
  device accesses whatever the descriptor's length says; what the operations before the last one
  write runs past the end by at most \<open>wslack\<close> bytes. \<open>wf\<close> holds of the device at any time,
  \<open>ready\<close> once a request has been started.
\<close>

locale virtio_device =
  fixes ops :: "('d, 'w) device_ops"
    and slack :: nat
    and wslack :: nat
    and wf :: "'d \<Rightarrow> bool"
    and ready :: "nat \<Rightarrow> 'd \<Rightarrow> bool"
  assumes ready_wf: "ready n d \<Longrightarrow> wf d"
    and wslack_le: "wslack \<le> slack"
    and start_frame:
      "gm_frame off (off + unat len + wslack) (mem c) (mem (process_queue_start ops q off len c))"
    and data_frame:
      "gm_frame off (off + unat len + wslack) (mem c) (mem (process_queue_data ops q off len c))"
    and complete_frame:
      "gm_frame off (off + unat len + slack) (mem c) (mem (snd (process_queue_complete ops q off len c)))"
    and start_safe:
      "wf (dev c) \<Longrightarrow> off + unat len + slack \<le> gm_size (mem c) \<Longrightarrow>
       gm_fault (mem (process_queue_start ops q off len c)) = gm_fault (mem c) \<and>
       ready (gm_size (mem c)) (dev (process_queue_start ops q off len c))"
    and data_safe:
      "ready (gm_size (mem c)) (dev c) \<Longrightarrow> off + unat len + slack \<le> gm_size (mem c) \<Longrightarrow>
       gm_fault (mem (process_queue_data ops q off len c)) = gm_fault (mem c) \<and>
       ready (gm_size (mem c)) (dev (process_queue_data ops q off len c))"
    and complete_safe:
      "ready (gm_size (mem c)) (dev c) \<Longrightarrow> off + unat len + slack \<le> gm_size (mem c) \<Longrightarrow>
       gm_fault (mem (snd (process_queue_complete ops q off len c))) = gm_fault (mem c) \<and>
       ready (gm_size (mem c)) (dev (snd (process_queue_complete ops q off len c)))"
begin

text \<open>One descriptor that is not the last: either operation, under one name.\<close>

lemma step_frame:
  "gm_frame off (off + unat len + wslack) (mem c)
     (mem (if b then process_queue_start ops q off len c else process_queue_data ops q off len c))"
  by (simp add: start_frame data_frame)

lemma step_frame_slack:
  "gm_frame off (off + unat len + slack) (mem c)
     (mem (if b then process_queue_start ops q off len c else process_queue_data ops q off len c))"
  using wslack_le by (intro gm_frame_mono [OF step_frame]) simp_all

lemma step_safe:
  assumes "ready (gm_size (mem c)) (dev c)" and "off + unat len + slack \<le> gm_size (mem c)"
  shows "gm_fault (mem (if b then process_queue_start ops q off len c
                        else process_queue_data ops q off len c)) = gm_fault (mem c)"
    and "ready (gm_size (mem c)) (dev (if b then process_queue_start ops q off len c
                        else process_queue_data ops q off len c))"
  using assms start_safe [OF ready_wf] data_safe by auto

lemma chain_loop_frame:
  "chain_loop ops vq steps i written c = (valid, n, c') \<Longrightarrow>
   gm_frame 0 (dram_span vq + slack) (mem c) (mem c')"
proof (induction steps i written c rule: chain_loop_steps_induct [where vq = vq])
  case (1 steps i written c)
  let ?d = "desc_at vq i c"
  have wide: "gm_frame 0 (dram_span vq + slack) (mem c) m"
    if "\<not> desc_out_of_range vq ?d"
      and m: "gm_frame (desc_offset vq ?d) (desc_offset vq ?d + unat (ucast (d_len ?d) :: u64) + slack)
            (mem (touched vq i c)) m" for m
  proof -
    have "desc_offset vq ?d + unat (ucast (d_len ?d) :: u64) + slack \<le> dram_span vq + slack"
      by (rule desc_offset_fits [OF that(1)]) (simp add: dram_span_def)
    with m have "gm_frame 0 (dram_span vq + slack) (mem (touched vq i c)) m"
      by (auto intro: gm_frame_mono)
    then show ?thesis by (simp add: gm_frame_def)
  qed
  from "1.prems" show ?case
  proof (cases rule: chain_loop_step)
    case stop
    then show ?thesis by auto
  next
    case more
    from more(4) have "gm_frame 0 (dram_span vq + slack)
        (mem (walk_step ops vq ?d written (touched vq i c))) (mem c')"
      by (rule "1.IH" [OF more(1)])
    with wide [OF more(2) step_frame_slack] show ?thesis by (rule gm_frame_trans)
  next
    case last
    from wide [OF last(1) complete_frame] last(4) show ?thesis by (metis snd_conv)
  qed
qed

lemma chain_loop_safe:
  "chain_loop ops vq steps i written c = (valid, n, c') \<Longrightarrow>
   vq_fits vq (gm_size (mem c)) \<Longrightarrow> dram_span vq + slack \<le> gm_size (mem c) \<Longrightarrow>
   ready (gm_size (mem c)) (dev c) \<Longrightarrow>
   gm_fault (mem c') = gm_fault (mem c) \<and> ready (gm_size (mem c)) (dev c')"
proof (induction steps i written c rule: chain_loop_steps_induct [where vq = vq])
  case (1 steps i written c)
  let ?c1 = "touched vq i c" and ?d = "desc_at vq i c"
  have c1: "mem ?c1 = mem c" "dev ?c1 = dev c"
    using "1.prems"(2) by (simp_all add: gm_touch_ok desc_slot_ok)
  have fits: "desc_offset vq ?d + unat (ucast (d_len ?d) :: u64) + slack \<le> gm_size (mem ?c1)"
    if "\<not> desc_out_of_range vq ?d"
    using desc_offset_fits [OF that, of slack] "1.prems"(3) by (simp add: dram_span_def)
  have rdy: "ready (gm_size (mem ?c1)) (dev ?c1)" using "1.prems"(4) by simp
  from "1.prems"(1) show ?case
  proof (cases rule: chain_loop_step)
    case stop
    with c1 "1.prems"(4) show ?thesis by auto
  next
    case more
    let ?c2 = "walk_step ops vq ?d written ?c1"
    have sz: "gm_size (mem ?c2) = gm_size (mem c)"
      using gm_frame_size [OF step_frame] by simp
    have "gm_fault (mem ?c2) = gm_fault (mem c)" and r2: "ready (gm_size (mem c)) (dev ?c2)"
      using step_safe [OF rdy fits [OF more(2)]] c1 by auto
    then show ?thesis
      using "1.IH" [OF more(1) more(4)] "1.prems"(2,3) sz by auto
  next
    case last
    with complete_safe [OF rdy fits [OF last(1)], of "queue_idx vq"] c1 show ?thesis by simp
  qed
qed

lemma chain_loop_safe_first:
  assumes run: "chain_loop ops vq 0 i 0 c = (valid, n, c')"
    and fits: "vq_fits vq (gm_size (mem c))" "dram_span vq + slack \<le> gm_size (mem c)"
    and wf: "wf (dev c)" and hdr: "0 < header_size vq" and nxt: "has_next (desc_at vq i c)"
  shows "gm_fault (mem c') = gm_fault (mem c)"
proof -
  let ?c1 = "touched vq i c" and ?d = "desc_at vq i c"
  have c1: "mem ?c1 = mem c" "dev ?c1 = dev c"
    using fits(1) by (simp_all add: gm_touch_ok desc_slot_ok)
  from run show ?thesis
  proof (cases rule: chain_loop_step)
    case stop
    with c1 show ?thesis by auto
  next
    case more
    let ?c2 = "process_queue_start ops (queue_idx vq) (desc_offset vq ?d) (ucast (d_len ?d)) ?c1"
    have "desc_offset vq ?d + unat (ucast (d_len ?d) :: u64) + slack \<le> gm_size (mem ?c1)"
      using desc_offset_fits [OF more(2), of slack] fits(2) by (simp add: dram_span_def)
    then have c2: "gm_fault (mem ?c2) = gm_fault (mem c)" "ready (gm_size (mem c)) (dev ?c2)"
      using start_safe [of ?c1] wf c1 by auto
    have sz: "gm_size (mem ?c2) = gm_size (mem c)" using gm_frame_size [OF start_frame] c1 by simp
    have "chain_loop ops vq (Suc 0) (d_next ?d) (0 + ucast (d_len ?d)) ?c2 = (valid, n, c')"
      using more(4) hdr by simp
    from chain_loop_safe [OF this] show ?thesis using c2 fits sz by simp
  next
    case last
    with nxt show ?thesis by simp
  qed
qed

text \<open>\<open>process_one_chain_for_queue\<close> as a whole.\<close>

lemma one_chain_safe:
  assumes run: "process_one_chain_for_queue ops vq processed c = Some (posted, processed', c')"
    and fits: "vq_fits vq (gm_size (mem c))" "dram_span vq + slack \<le> gm_size (mem c)"
    and rdy: "ready (gm_size (mem c)) (dev c)"
  shows "gm_fault (mem c') = gm_fault (mem c)"
    and "gm_size (mem c') = gm_size (mem c)"
    and "ready (gm_size (mem c)) (dev c')"
proof -
  let ?head = "gm_u16 (mem c) (avail_q vq + 4 + 2 * (unat processed mod unat (queue_num vq)))"
  have "gm_fault (mem c') = gm_fault (mem c) \<and> gm_size (mem c') = gm_size (mem c) \<and>
      ready (gm_size (mem c)) (dev c')"
  proof (cases "processed = gm_u16 (mem c) (avail_q vq + 2) \<or> \<not> queue_has_data ops (queue_idx vq) c")
    case True
    then have "c' = c" using run unfolding one_chain_unfold [OF fits(1)] by simp
    then show ?thesis using rdy by simp
  next
    case False
    obtain valid n c3 where chain: "chain_loop ops vq 0 ?head 0 c = (valid, n, c3)"
      by (cases "chain_loop ops vq 0 ?head 0 c")
    with False have c': "c' = (if valid then c3\<lparr>mem := post_used vq ?head n (mem c3)\<rparr> else c3)"
      using run unfolding one_chain_unfold [OF fits(1)] Let_def by auto
    have "gm_size (mem c3) = gm_size (mem c)"
      using chain_loop_frame [OF chain] by (rule gm_frame_size)
    moreover have "gm_fault (mem c3) = gm_fault (mem c) \<and> ready (gm_size (mem c)) (dev c3)"
      using chain_loop_safe [OF chain fits rdy] .
    ultimately show ?thesis using c' fits(1) by (simp add: post_used_safe)
  qed
  then show "gm_fault (mem c') = gm_fault (mem c)" "gm_size (mem c') = gm_size (mem c)"
    "ready (gm_size (mem c)) (dev c')" by auto
qed

end

section \<open>The chain a walk serves\<close>

text \<open>
  Reference definitions: the descriptors of a chain, read from one fixed memory, with the flag that
  the chain ended within \<open>k\<close> descriptors, all of them in range; and the device operations a
  list of descriptors stands for.
\<close>

fun chain_descs :: "guest_mem \<Rightarrow> vqueue \<Rightarrow> nat \<Rightarrow> u16 \<Rightarrow> bool \<times> vring_desc list" where
  "chain_descs m vq 0 i = (False, [])"
| "chain_descs m vq (Suc k) i =
     (let d = read_desc m (desc_slot vq i)
      in if desc_out_of_range vq d then (False, [])
         else if has_next d then map_prod id ((#) d) (chain_descs m vq k (d_next d))
         else (True, [d]))"

fun serve_descs ::
  "('d, 'w) device_ops \<Rightarrow> vqueue \<Rightarrow> bool \<Rightarrow> u64 \<Rightarrow> vring_desc list \<Rightarrow> ('d, 'w) ctx \<Rightarrow> u64 \<times> ('d, 'w) ctx"
where
  "serve_descs ops vq valid written [] c = (written, c)"
| "serve_descs ops vq valid written (d # ds) c =
     (if ds = [] \<and> valid
      then map_prod ((+) written) id
        (process_queue_complete ops (queue_idx vq) (desc_offset vq d) (ucast (d_len d)) c)
      else serve_descs ops vq valid (written + ucast (d_len d)) ds (walk_step ops vq d written c))"

text \<open>A buffer of the chain does not overlap the descriptor table.\<close>

definition clear_of_table :: "nat \<Rightarrow> vqueue \<Rightarrow> vring_desc \<Rightarrow> bool" where
  "clear_of_table slack vq d \<longleftrightarrow>
     desc_offset vq d + unat (d_len d) + slack \<le> desc_q vq \<or>
     desc_q vq + 16 * unat (queue_num vq) \<le> desc_offset vq d"

lemma read_desc_frame:
  assumes "gm_frame lo hi m m'" and "off + 16 \<le> lo \<or> hi \<le> off"
  shows "read_desc m' off = read_desc m off"
  using assms by (auto simp: read_desc_def gm_frame_load)

lemma desc_slot_bounds:
  assumes "queue_num vq \<noteq> 0"
  shows "desc_q vq \<le> desc_slot vq i" "desc_slot vq i + 16 \<le> desc_q vq + 16 * unat (queue_num vq)"
  using mod_scaled_bound [of "unat (queue_num vq)" 16 "unat i"] assms
  by (auto simp: desc_slot_def unat_gt_0)

lemma chain_descs_frame:
  assumes "gm_frame lo hi m m'" and "queue_num vq \<noteq> 0"
    and "hi \<le> desc_q vq \<or> desc_q vq + 16 * unat (queue_num vq) \<le> lo"
  shows "chain_descs m' vq k i = chain_descs m vq k i"
proof (induction k arbitrary: i)
  case 0
  then show ?case by simp
next
  case (Suc k)
  have "read_desc m' (desc_slot vq i) = read_desc m (desc_slot vq i)"
    by (rule read_desc_frame [OF assms(1)]) (use desc_slot_bounds [OF assms(2), of i] assms(3) in auto)
  with Suc show ?case by (simp add: Let_def)
qed

lemma chain_descs_length: "length (snd (chain_descs m vq k i)) \<le> k"
  by (induction k arbitrary: i) (auto simp: Let_def)

lemma chain_descs_nonempty: "chain_descs m vq k i = (True, ds) \<Longrightarrow> ds \<noteq> []"
  by (cases k) (auto simp: Let_def map_prod_def split: if_splits prod.splits)

lemma chain_descs_in_range:
  "d \<in> set (snd (chain_descs m vq k i)) \<Longrightarrow> \<not> desc_out_of_range vq d"
  by (induction k arbitrary: i) (auto simp: Let_def split: if_splits)

context virtio_device
begin

lemma chain_loop_serves:
  assumes "chain_descs (mem c) vq k i = (valid, ds)"
    and "k = unat (queue_num vq) - steps"
    and "vq_fits vq (gm_size (mem c))"
    and "\<And>d. d \<in> set ds \<Longrightarrow> clear_of_table wslack vq d"
  shows "chain_loop ops vq steps i written c = (valid, serve_descs ops vq valid written ds c)"
  using assms
proof (induction k arbitrary: i ds steps written c)
  case 0
  then show ?case by (subst chain_loop.simps) simp
next
  case (Suc k)
  let ?d = "read_desc (mem c) (desc_slot vq i)"
  have c1: "touched vq i c = c" using Suc.prems(3) by (simp add: gm_touch_ok desc_slot_ok)
  have lt: "\<not> unat (queue_num vq) \<le> steps" and k: "k = unat (queue_num vq) - Suc steps"
    using Suc.prems(2) by auto
  note unf = chain_loop.simps [of ops vq steps i written c, unfolded Let_def c1]
  show ?case
  proof (cases "desc_out_of_range vq ?d \<or> \<not> has_next ?d")
    case True
    with Suc.prems(1) lt show ?thesis
      by (auto simp: unf Let_def split: if_splits prod.splits)
  next
    case False
    then obtain ds' where ds: "ds = ?d # ds'" and rest: "chain_descs (mem c) vq k (d_next ?d) = (valid, ds')"
      using Suc.prems(1) by (auto simp: Let_def map_prod_def split: prod.splits)
    let ?c2 = "walk_step ops vq ?d written c"
    have nz: "queue_num vq \<noteq> 0" using Suc.prems(3) by (simp add: vq_fits_def)
    have fr: "gm_frame (desc_offset vq ?d) (desc_offset vq ?d + unat (ucast (d_len ?d) :: u64) + wslack)
        (mem c) (mem ?c2)" by (rule step_frame)
    have "clear_of_table wslack vq ?d" using Suc.prems(4) ds by simp
    then have "chain_descs (mem ?c2) vq k (d_next ?d) = (valid, ds')"
      using chain_descs_frame [OF fr nz] rest by (auto simp: clear_of_table_def)
    moreover have "vq_fits vq (gm_size (mem ?c2))" using Suc.prems(3) gm_frame_size [OF fr] by simp
    ultimately have "chain_loop ops vq (Suc steps) (d_next ?d) (written + ucast (d_len ?d)) ?c2 =
        (valid, serve_descs ops vq valid (written + ucast (d_len ?d)) ds' ?c2)"
      using Suc.IH k Suc.prems(4) ds by auto
    moreover have "ds' \<noteq> [] \<or> \<not> valid"
      using rest chain_descs_nonempty by (cases valid) auto
    ultimately show ?thesis using False lt ds by (auto simp: unf)
  qed
qed

lemma one_chain_serves:
  assumes fits: "vq_fits vq (gm_size (mem c))"
    and pending: "processed \<noteq> gm_u16 (mem c) (avail_q vq + 2)" "queue_has_data ops (queue_idx vq) c"
    and head: "head = gm_u16 (mem c) (avail_q vq + 4 + 2 * (unat processed mod unat (queue_num vq)))"
    and ds: "chain_descs (mem c) vq (unat (queue_num vq)) head = (valid, ds)"
    and clear: "\<And>d. d \<in> set ds \<Longrightarrow> clear_of_table wslack vq d"
    and run: "serve_descs ops vq valid 0 ds c = (written, c')"
  shows "process_one_chain_for_queue ops vq processed c =
    Some (valid, processed + 1,
      if valid then c'\<lparr>mem := post_used vq head written (mem c')\<rparr> else c')"
proof -
  have "chain_loop ops vq 0 head 0 c = (valid, written, c')"
    using chain_loop_serves [OF ds _ fits clear, of 0 0] run by simp
  then show ?thesis
    using pending unfolding one_chain_unfold [OF fits] Let_def head [symmetric] by simp
qed

end

end
