(* ===== verification/Metrics.thy ===== *)
theory Metrics
  imports Prelude
begin

text \<open>
  The counters and gauges of \<open>src/src/daemon/metrics.rs\<close> that the modelled components update.
  A metric family is a constructor; the label is the L2CPU index, or the position of the method for the
  counters of the control socket (families without a label use index 0). A counter is an \<open>AtomicU64\<close>: \<open>fetch_add\<close> wraps. The arrays of the code have an entry for each of the
  four L2CPUs and panic for a greater label; here a label is any byte, and the devices and hubs carry the
  index of the L2CPU they were made for. A gauge is an \<open>AtomicI64\<close> that is set to small values only, here an integer.
\<close>

datatype counter_name =
    BLK_REQUESTS_READ | BLK_REQUESTS_WRITE | BLK_BYTES_READ | BLK_BYTES_WRITE
  | BLK_ERRORS_IOERR | BLK_ERRORS_UNSUPP
  | NET_PACKETS_RX | NET_PACKETS_TX | NET_BYTES_RX | NET_BYTES_TX
  | BLK_INTERRUPTS_TOTAL | NET_INTERRUPTS_TOTAL | CONSOLE_INTERRUPTS_TOTAL | RNG_INTERRUPTS_TOTAL
  | DISPATCH_PASSES_TOTAL | DISPATCH_QUEUES_DRAINED | NOTIFY_EVENTS_TOTAL
  | SEL_READY_RACES_TOTAL | BRISC_OLD_SEL_RESCUE_TOTAL | UART_FEED_DROPS_TOTAL
  | DAEMON_CLIENTS_TOTAL | DAEMON_RPC_TOTAL | DAEMON_RPC_ERRORS_TOTAL
  | L2CPU_BOOT_COLD_TOTAL | L2CPU_BOOT_WARM_TOTAL | CONSOLE_BYTES_G2H | CONSOLE_BYTES_H2G

datatype gauge_name = L2CPU_CONSOLE_CLIENTS | DAEMON_CLIENTS_ACTIVE

record metrics =
  counters :: "counter_name \<Rightarrow> u8 \<Rightarrow> u64"
  gauges :: "gauge_name \<Rightarrow> u8 \<Rightarrow> int"

definition counter_add :: "counter_name \<Rightarrow> u8 \<Rightarrow> u64 \<Rightarrow> metrics \<Rightarrow> metrics" where
  "counter_add k idx n m =
     m\<lparr>counters := (counters m)(k := (counters m k)(idx := counters m k idx + n))\<rparr>"

definition counter_inc :: "counter_name \<Rightarrow> u8 \<Rightarrow> metrics \<Rightarrow> metrics" where
  "counter_inc k idx m = counter_add k idx 1 m"

definition gauge_set :: "gauge_name \<Rightarrow> u8 \<Rightarrow> int \<Rightarrow> metrics \<Rightarrow> metrics" where
  "gauge_set g idx v m = m\<lparr>gauges := (gauges m)(g := (gauges m g)(idx := v))\<rparr>"

lemma counters_add:
  "counters (counter_add k idx n m) k' idx' =
     (if k' = k \<and> idx' = idx then counters m k idx + n else counters m k' idx')"
  by (simp add: counter_add_def)

lemma counters_inc:
  "counters (counter_inc k idx m) k' idx' =
     (if k' = k \<and> idx' = idx then counters m k idx + 1 else counters m k' idx')"
  by (simp add: counter_inc_def counters_add)

lemma gauges_counter [simp]:
  "gauges (counter_add k idx n m) = gauges m"
  "gauges (counter_inc k idx m) = gauges m"
  by (simp_all add: counter_add_def counter_inc_def)

lemma gauge_set_simps [simp]:
  "counters (gauge_set g idx v m) = counters m"
  "gauges (gauge_set g idx v m) g idx = v"
  by (simp_all add: gauge_set_def)

end
