(* ===== verification/Console_Hub.thy ===== *)
theory Console_Hub
  imports Metrics
begin

text \<open>
  The console fan-out of \<open>src/src/daemon/console_hub.rs\<close>: one hub per L2CPU with a bounded
  scrollback and the attached clients, at most one of which is the writer. Every operation runs
  under the hub's mutex, so it is one step. The socket is the kernel's: what its \<open>send\<close> calls
  will answer is a list that the theorems leave arbitrary.
\<close>

section \<open>Model\<close>

definition SCROLLBACK_BYTES :: nat where "SCROLLBACK_BYTES = 1024 * 1024"

definition SHUTDOWN_TAIL_BYTES :: nat where "SHUTDOWN_TAIL_BYTES = 16 * 1024"

datatype console_mode = Ro | Rw | Takeover

text \<open>
  One \<open>send(.., MSG_DONTWAIT | MSG_NOSIGNAL)\<close>: bytes taken, EINTR, or another error
  (EAGAIN among them). The kernel takes at most what it is offered; once the list of answers is
  used up it takes everything.
\<close>

datatype send_ret = Sent nat | Eintr | Errno

record sock =
  delivered :: "u8 list"
  answers :: "send_ret list"
  shut :: bool

record client =
  cl_id :: u64
  cl_sock :: sock
  is_writer :: bool

record hub =
  hub_idx :: u8
  scrollback :: "u8 list"
  clients :: "client list"
  next_id :: u64

record attach_result =
  ar_id :: u64
  ar_is_writer :: bool
  ar_scrollback_bytes :: u32
  ar_demoted :: "u64 list"

definition hub_new :: "u8 \<Rightarrow> hub" where
  "hub_new idx = \<lparr>hub_idx = idx, scrollback = [], clients = [], next_id = 1\<rparr>"

function send_all_dontwait :: "sock \<Rightarrow> u8 list \<Rightarrow> bool \<times> sock" where
  "send_all_dontwait s bytes =
     (if bytes = [] then (True, s)
      else case answers s of
        [] \<Rightarrow> (True, s\<lparr>delivered := delivered s @ bytes\<rparr>)
      | Eintr # as \<Rightarrow> send_all_dontwait (s\<lparr>answers := as\<rparr>) bytes
      | Errno # as \<Rightarrow> (False, s\<lparr>answers := as\<rparr>)
      | Sent n # as \<Rightarrow>
          (if n = 0 then (False, s\<lparr>answers := as\<rparr>)
           else send_all_dontwait
             (s\<lparr>delivered := delivered s @ take n bytes, answers := as\<rparr>) (drop n bytes)))"
  by pat_completeness auto
termination
  by (relation "measure (\<lambda>(s, bytes). length (answers s))") auto

declare send_all_dontwait.simps [simp del]

definition set_clients_gauge :: "hub \<Rightarrow> metrics \<Rightarrow> metrics" where
  "set_clients_gauge h m = gauge_set L2CPU_CONSOLE_CLIENTS (hub_idx h) (int (length (clients h))) m"

definition find_writer :: "client list \<Rightarrow> u64 option" where
  "find_writer cs = map_option cl_id (find is_writer cs)"

definition current_writer_id :: "hub \<Rightarrow> u64 option" where
  "current_writer_id h = find_writer (clients h)"

text \<open>
  The role of a new client, from \<open>match mode\<close>: whether it becomes the writer, the ids demoted,
  and the existing clients after the demotion.
\<close>

definition attach_role :: "console_mode \<Rightarrow> client list \<Rightarrow> bool \<times> u64 list \<times> client list" where
  "attach_role mode cs =
     (let current_writer = find_writer cs
      in case mode of
        Ro \<Rightarrow> (False, [], cs)
      | Rw \<Rightarrow> (current_writer = None, [], cs)
      | Takeover \<Rightarrow>
          (case current_writer of
             None \<Rightarrow> (True, [], cs)
           | Some prev \<Rightarrow>
               (True, map (\<lambda>_. prev) (filter (\<lambda>c. cl_id c = prev) cs),
                map (\<lambda>c. if cl_id c = prev then c\<lparr>is_writer := False\<rparr> else c) cs)))"

definition attach ::
  "sock \<Rightarrow> console_mode \<Rightarrow> hub \<times> metrics \<Rightarrow> (attach_result \<times> u8 list) \<times> hub \<times> metrics"
where
  "attach sk mode = (\<lambda>(h, mx).
     let new_id = next_id h;
         h1 = h\<lparr>next_id := next_id h + 1\<rparr>
     in case attach_role mode (clients h1) of
          (writer, demoted, cs) \<Rightarrow>
            let replay = scrollback h1;
                h2 = h1\<lparr>clients := cs @ [\<lparr>cl_id = new_id, cl_sock = sk, is_writer = writer\<rparr>]\<rparr>
            in ((\<lparr>ar_id = new_id, ar_is_writer = writer,
                  ar_scrollback_bytes = word_of_nat (length replay), ar_demoted = demoted\<rparr>, replay),
                h2, set_clients_gauge h2 mx))"

definition detach :: "u64 \<Rightarrow> hub \<times> metrics \<Rightarrow> hub \<times> metrics" where
  "detach cid = (\<lambda>(h, mx).
     let h1 = h\<lparr>clients := filter (\<lambda>c. cl_id c \<noteq> cid) (clients h)\<rparr>
     in (h1, set_clients_gauge h1 mx))"

text \<open>The bounded append that \<open>push_chip_output\<close> and the goodbye share.\<close>

definition append_scrollback :: "u8 list \<Rightarrow> u8 list \<Rightarrow> u8 list" where
  "append_scrollback sb bytes =
     drop (length sb + length bytes - SCROLLBACK_BYTES) sb @ bytes"

text \<open>The \<open>retain_mut\<close> of the fan-out: the clients kept and the ids dropped.\<close>

fun fan_out :: "u8 list \<Rightarrow> client list \<Rightarrow> client list \<times> u64 list" where
  "fan_out bytes [] = ([], [])"
| "fan_out bytes (c # cs) =
     (case send_all_dontwait (cl_sock c) bytes of
        (ok, sk) \<Rightarrow>
          (case fan_out bytes cs of
             (kept, dropped) \<Rightarrow>
               (if ok then (c\<lparr>cl_sock := sk\<rparr> # kept, dropped) else (kept, cl_id c # dropped))))"

definition push_chip_output :: "u8 list \<Rightarrow> hub \<times> metrics \<Rightarrow> u64 list \<times> hub \<times> metrics" where
  "push_chip_output bytes = (\<lambda>(h, mx).
     if bytes = [] then ([], h, mx)
     else
       let h1 = h\<lparr>scrollback := append_scrollback (scrollback h) bytes\<rparr>;
           (kept, dropped) = fan_out bytes (clients h1);
           h2 = h1\<lparr>clients := kept\<rparr>
       in (dropped, h2, if dropped \<noteq> [] then set_clients_gauge h2 mx else mx))"

definition client_count :: "hub \<Rightarrow> nat" where
  "client_count h = length (clients h)"

definition goodbye :: "string \<Rightarrow> u8 list" where
  "goodbye reason = [13, 10] @ str ''[bhx: '' @ str reason @ str '']'' @ [13, 10]"

text \<open>
  The sockets are written to and shut down, then their clients are cleared; they are returned
  because the other ends still read them.
\<close>

definition disconnect_all_with_reason :: "string \<Rightarrow> hub \<times> metrics \<Rightarrow> sock list \<times> hub \<times> metrics" where
  "disconnect_all_with_reason reason = (\<lambda>(h, mx).
     let bye = goodbye reason;
         h1 = h\<lparr>scrollback := append_scrollback (scrollback h) bye\<rparr>;
         socks = map (\<lambda>c. (snd (send_all_dontwait (cl_sock c) bye))\<lparr>shut := True\<rparr>) (clients h1);
         h2 = h1\<lparr>clients := []\<rparr>
     in (socks, h2, gauge_set L2CPU_CONSOLE_CLIENTS (hub_idx h) 0 mx))"

definition tail :: "nat \<Rightarrow> hub \<Rightarrow> u8 list" where
  "tail n h =
     (let len = length (scrollback h); tk = min n len; start = len - tk
      in drop start (scrollback h))"

definition clear_scrollback :: "hub \<Rightarrow> hub" where
  "clear_scrollback h = h\<lparr>scrollback := []\<rparr>"

section \<open>Sending\<close>

lemma send_all_Nil [simp]: "send_all_dontwait s [] = (True, s)"
  by (simp add: send_all_dontwait.simps)

lemma send_all_delivers:
  "send_all_dontwait s bytes = (ok, s') \<Longrightarrow>
   \<exists>k. delivered s' = delivered s @ take k bytes \<and> (ok \<longrightarrow> length bytes \<le> k) \<and> shut s' = shut s"
proof (induction s bytes arbitrary: ok s' rule: send_all_dontwait.induct)
  case (1 s bytes)
  show ?case
  proof (cases "bytes = []")
    case True
    with "1.prems" show ?thesis by (auto intro: exI [of _ 0])
  next
    case False
    note unf = send_all_dontwait.simps [of s bytes]
    show ?thesis
    proof (cases "answers s")
      case Nil
      with False "1.prems" show ?thesis by (auto simp: unf intro: exI [of _ "length bytes"])
    next
      case (Cons a as)
      show ?thesis
      proof (cases a)
        case (Sent n)
        show ?thesis
        proof (cases "n = 0")
          case True
          with False Cons Sent "1.prems" show ?thesis by (auto simp: unf intro: exI [of _ 0])
        next
          case n0: False
          let ?s1 = "s\<lparr>delivered := delivered s @ take n bytes, answers := as\<rparr>"
          from False Cons Sent n0 "1.prems" have "send_all_dontwait ?s1 (drop n bytes) = (ok, s')"
            by (simp add: unf)
          from "1.IH"(1) [OF False Cons Sent n0 this] obtain k where
            "delivered s' = delivered s @ take n bytes @ take k (drop n bytes)"
            "ok \<longrightarrow> length bytes - n \<le> k" "shut s' = shut s" by auto
          then show ?thesis by (auto simp: take_add [symmetric] intro!: exI [of _ "n + k"])
        qed
      next
        case Eintr
        with False Cons "1.prems" have "send_all_dontwait (s\<lparr>answers := as\<rparr>) bytes = (ok, s')"
          by (simp add: unf)
        from "1.IH"(2) [OF False Cons Eintr this] show ?thesis by simp
      next
        case Errno
        with False Cons "1.prems" show ?thesis by (auto simp: unf intro: exI [of _ 0])
      qed
    qed
  qed
qed

lemma send_all_ok: "send_all_dontwait s bytes = (True, s') \<Longrightarrow> delivered s' = delivered s @ bytes"
  using send_all_delivers by fastforce

lemma fan_out_eq:
  "fan_out bytes cs =
     (map (\<lambda>c. c\<lparr>cl_sock := snd (send_all_dontwait (cl_sock c) bytes)\<rparr>)
        (filter (\<lambda>c. fst (send_all_dontwait (cl_sock c) bytes)) cs),
      map cl_id (filter (\<lambda>c. \<not> fst (send_all_dontwait (cl_sock c) bytes)) cs))"
  by (induction cs) (auto split: prod.splits)

section \<open>The scrollback is the end of the output\<close>

lemma append_scrollback_lastn:
  assumes "length bytes \<le> SCROLLBACK_BYTES"
  shows "append_scrollback sb bytes = lastn SCROLLBACK_BYTES (sb @ bytes)"
  using assms by (simp add: append_scrollback_def lastn_def)

lemma append_scrollback_length: "length (append_scrollback sb bytes) \<le> max SCROLLBACK_BYTES (length bytes)"
  by (simp add: append_scrollback_def)

text \<open>
  What a producer of console output relies on: a log that keeps the last \<open>cap\<close> bytes. The
  UART drain and the virtio console are the clients.
\<close>

locale bounded_log =
  fixes push :: "'b list \<Rightarrow> 's \<Rightarrow> 's"
    and log :: "'s \<Rightarrow> 'b list"
    and cap :: nat
  assumes push_log: "length bs \<le> cap \<Longrightarrow> length (log s) \<le> cap \<Longrightarrow> log (push bs s) = lastn cap (log s @ bs)"
begin

lemma fold_push:
  assumes "\<And>bs. bs \<in> set chunks \<Longrightarrow> length bs \<le> cap" and "length (log s) \<le> cap"
  shows "log (fold push chunks s) = lastn cap (log s @ concat chunks)"
  using assms
proof (induction chunks arbitrary: s)
  case Nil
  then show ?case by simp
next
  case (Cons bs chunks)
  have "log (push bs s) = lastn cap (log s @ bs)" using Cons.prems by (simp add: push_log)
  moreover from this have "log (fold push chunks (push bs s)) = lastn cap (log (push bs s) @ concat chunks)"
    using Cons by simp
  ultimately show ?case by (simp add: lastn_lastn_append)
qed

lemma fold_push_bounded:
  assumes "\<And>bs. bs \<in> set chunks \<Longrightarrow> length bs \<le> cap" and "length (log s) \<le> cap"
  shows "length (log (fold push chunks s)) \<le> cap"
  using fold_push [OF assms] by simp

end

lemma scrollback_push:
  "scrollback (fst (snd (push_chip_output bytes st))) =
     (if bytes = [] then scrollback (fst st) else append_scrollback (scrollback (fst st)) bytes)"
  by (cases st) (auto simp: push_chip_output_def Let_def split: prod.splits)

interpretation hub_log: bounded_log
  "\<lambda>bs st. snd (push_chip_output bs st)" "\<lambda>st. scrollback (fst st)" SCROLLBACK_BYTES
  by unfold_locales (simp add: scrollback_push append_scrollback_lastn)

section \<open>One writer, distinct clients, a truthful gauge\<close>

definition writers :: "client list \<Rightarrow> nat" where
  "writers cs = length (filter is_writer cs)"

definition hub_inv :: "hub \<times> metrics \<Rightarrow> bool" where
  "hub_inv = (\<lambda>(h, mx).
     distinct (map cl_id (clients h)) \<and>
     (\<forall>c \<in> set (clients h). cl_id c < next_id h) \<and>
     writers (clients h) \<le> 1 \<and>
     gauges mx L2CPU_CONSOLE_CLIENTS (hub_idx h) = int (length (clients h)))"

lemma find_writer_None: "find_writer cs = None \<longleftrightarrow> writers cs = 0"
  by (induction cs) (auto simp: find_writer_def writers_def)

lemma find_writer_Some:
  "find_writer cs = Some w \<Longrightarrow> \<exists>c \<in> set cs. is_writer c \<and> cl_id c = w"
  by (auto simp: find_writer_def find_Some_iff)

lemma find_writer_unique:
  assumes "writers cs \<le> 1" and "find_writer cs = Some w" and "c \<in> set cs" and "is_writer c"
  shows "cl_id c = w"
proof -
  have "length (filter is_writer cs) = Suc 0"
    using assms by (cases "filter is_writer cs") (auto simp: writers_def filter_empty_conv)
  then obtain x where x: "filter is_writer cs = [x]" by (auto simp: length_Suc_conv)
  have in_x: "d = x" if "d \<in> set cs" "is_writer d" for d
  proof -
    have "d \<in> set (filter is_writer cs)" using that by simp
    then show ?thesis by (simp add: x)
  qed
  obtain d where "d \<in> set cs" "is_writer d" "cl_id d = w" using find_writer_Some [OF assms(2)] by blast
  with in_x assms(3,4) show ?thesis by blast
qed

lemma writers_demoted:
  assumes "writers cs \<le> 1" and "find_writer cs = Some w"
  shows "writers (map (\<lambda>c. if cl_id c = w then c\<lparr>is_writer := False\<rparr> else c) cs) = 0"
  using find_writer_unique [OF assms] by (auto simp: writers_def filter_empty_conv)

lemma demoted_ids:
  "distinct (map cl_id cs) \<Longrightarrow> find_writer cs = Some w \<Longrightarrow>
   map (\<lambda>_. w) (filter (\<lambda>c. cl_id c = w) cs) = [w]"
proof (induction cs)
  case Nil
  then show ?case by (simp add: find_writer_def)
next
  case (Cons c cs)
  show ?case
  proof (cases "cl_id c = w")
    case True
    with Cons.prems(1) have "\<forall>x \<in> set cs. cl_id x \<noteq> w" by (auto simp: image_iff)
    then have "filter (\<lambda>c. cl_id c = w) cs = []" by (simp add: filter_empty_conv)
    with True show ?thesis by simp
  next
    case False
    then have "find_writer cs = Some w" using Cons.prems(2) by (auto simp: find_writer_def split: if_splits)
    with Cons False show ?thesis by simp
  qed
qed

lemma writers_append [simp]: "writers (xs @ ys) = writers xs + writers ys"
  by (simp add: writers_def)

lemma writers_Cons [simp]: "writers (c # cs) = (if is_writer c then 1 else 0) + writers cs"
  by (simp add: writers_def)

lemma writers_Nil [simp]: "writers [] = 0"
  by (simp add: writers_def)

lemma writers_filter: "writers (filter P cs) \<le> writers cs"
  by (induction cs) auto

lemma writers_map_sock: "writers (map (\<lambda>c. c\<lparr>cl_sock := f c\<rparr>) cs) = writers cs"
  by (induction cs) auto

text \<open>The demotion changes neither ids nor their order.\<close>

lemma cl_id_demote [simp]:
  "map cl_id (map (\<lambda>c. if cl_id c = w then c\<lparr>is_writer := False\<rparr> else c) cs) = map cl_id cs"
  by (induction cs) auto

lemma attach_role_inv:
  assumes "attach_role mode cs = (writer, demoted, cs')" and "writers cs \<le> 1"
  shows "map cl_id cs' = map cl_id cs" and "writers cs' + (if writer then 1 else 0) \<le> 1"
  using assms writers_demoted [of cs] find_writer_None [of cs]
  by (auto simp: attach_role_def Let_def simp del: map_map
      split: console_mode.splits option.splits if_splits)

lemma attach_inv:
  assumes "hub_inv st" and "next_id (fst st) \<noteq> - 1"
  shows "hub_inv (snd (attach sk mode st))"
proof -
  obtain h mx where st: "st = (h, mx)" by (cases st)
  obtain wr dem cs where role: "attach_role mode (clients h) = (wr, dem, cs)"
    by (cases "attach_role mode (clients h)")
  have inv: "distinct (map cl_id (clients h))" "\<forall>x \<in> set (map cl_id (clients h)). x < next_id h"
    "writers (clients h) \<le> 1"
    using assms(1) by (auto simp: hub_inv_def st)
  note ids = attach_role_inv(1) [OF role inv(3)] and wrs = attach_role_inv(2) [OF role inv(3)]
  have lt: "cl_id c < next_id h" if "c \<in> set cs" for c
    using inv(2) that unfolding ids [symmetric] by simp
  have "distinct (map cl_id cs)" using inv(1) by (simp only: ids)
  moreover have "next_id h \<notin> cl_id ` set cs" using lt by (metis imageE order_less_irrefl)
  moreover have "cl_id c < next_id h + 1" if "c \<in> set cs" for c
    using lt [OF that] assms(2) by (simp add: st less_plus_one)
  moreover have "next_id h < next_id h + 1" using assms(2) by (simp add: st less_plus_one)
  ultimately show ?thesis
    using wrs by (simp add: st attach_def role hub_inv_def Let_def set_clients_gauge_def)
qed

lemma detach_inv: "hub_inv st \<Longrightarrow> hub_inv (detach cid st)"
  using writers_filter [of "\<lambda>c. cl_id c \<noteq> cid" "clients (fst st)"]
  by (cases st) (auto simp: hub_inv_def detach_def Let_def set_clients_gauge_def distinct_map_filter)

text \<open>The clients that a fan-out keeps are a subsequence with updated sockets.\<close>

lemma fan_out_kept:
  assumes "fan_out bytes cs = (kept, dropped)"
  shows "writers kept \<le> writers cs" and "cl_id ` set kept \<subseteq> cl_id ` set cs"
    and "distinct (map cl_id cs) \<Longrightarrow> distinct (map cl_id kept)"
    and "dropped = [] \<Longrightarrow> length kept = length cs"
proof -
  let ?ok = "\<lambda>c. fst (send_all_dontwait (cl_sock c) bytes)"
  have k: "kept = map (\<lambda>c. c\<lparr>cl_sock := snd (send_all_dontwait (cl_sock c) bytes)\<rparr>) (filter ?ok cs)"
    and d: "dropped = map cl_id (filter (\<lambda>c. \<not> ?ok c) cs)"
    using assms by (simp_all add: fan_out_eq)
  have ids: "map cl_id kept = map cl_id (filter ?ok cs)" by (simp add: k)
  show "writers kept \<le> writers cs" unfolding k writers_map_sock by (rule writers_filter)
  show "cl_id ` set kept \<subseteq> cl_id ` set cs" using k by auto
  show "distinct (map cl_id cs) \<Longrightarrow> distinct (map cl_id kept)"
    unfolding ids by (rule distinct_map_filter)
  show "dropped = [] \<Longrightarrow> length kept = length cs"
    using sum_length_filter_compl [of ?ok cs] by (simp add: k d)
qed

lemma push_inv:
  assumes "hub_inv st"
  shows "hub_inv (snd (push_chip_output bytes st))"
proof (cases "bytes = []")
  case True
  then show ?thesis using assms by (cases st) (simp add: push_chip_output_def)
next
  case False
  obtain h mx where st: "st = (h, mx)" by (cases st)
  obtain kept dropped where fo: "fan_out bytes (clients h) = (kept, dropped)"
    by (cases "fan_out bytes (clients h)")
  note kept = fan_out_kept [OF fo]
  have "\<forall>c \<in> set kept. cl_id c < next_id h"
    using assms(1) kept(2) by (force simp: hub_inv_def st)
  moreover have "writers kept \<le> 1" using assms(1) kept(1) by (auto simp: hub_inv_def st)
  ultimately show ?thesis
    using False assms(1) kept(3,4)
    by (auto simp: st push_chip_output_def Let_def fo hub_inv_def set_clients_gauge_def)
qed

lemma disconnect_inv: "hub_inv st \<Longrightarrow> hub_inv (snd (disconnect_all_with_reason reason st))"
  by (cases st) (simp add: hub_inv_def disconnect_all_with_reason_def Let_def)

text \<open>
  The operations the daemon performs on a hub, in any order, with the length of the longest chunk of
  output so far. The virtio console pushes buffers of the guest's choice, so a chunk may be longer than the
  scrollback. The only guard is that fewer than \<open>2\<^sup>6\<^sup>4\<close> clients have attached.
\<close>

inductive hub_reachable :: "u8 \<Rightarrow> nat \<Rightarrow> hub \<times> metrics \<Rightarrow> bool" for idx where
  new: "gauges mx L2CPU_CONSOLE_CLIENTS idx = 0 \<Longrightarrow> hub_reachable idx 0 (hub_new idx, mx)"
| attach: "hub_reachable idx n st \<Longrightarrow> next_id (fst st) \<noteq> - 1 \<Longrightarrow> hub_reachable idx n (snd (attach sk mode st))"
| detach: "hub_reachable idx n st \<Longrightarrow> hub_reachable idx n (detach cid st)"
| push: "hub_reachable idx n st \<Longrightarrow> hub_reachable idx (max n (length bytes)) (snd (push_chip_output bytes st))"
| disconnect: "hub_reachable idx n st \<Longrightarrow> hub_reachable idx (max n (length (goodbye reason))) (snd (disconnect_all_with_reason reason st))"
| clear: "hub_reachable idx n st \<Longrightarrow> hub_reachable idx n (clear_scrollback (fst st), snd st)"

lemma scrollback_others:
  "scrollback (fst (snd (attach sk mode st))) = scrollback (fst st)" "scrollback (fst (detach cid st)) = scrollback (fst st)"
  "scrollback (fst (snd (disconnect_all_with_reason reason st))) = append_scrollback (scrollback (fst st)) (goodbye reason)"
  by (cases st; auto simp: attach_def detach_def disconnect_all_with_reason_def Let_def split: prod.split)+

lemma reachable_scrollback: "hub_reachable idx n st \<Longrightarrow> length (scrollback (fst st)) \<le> max SCROLLBACK_BYTES n"
proof (induction rule: hub_reachable.induct)
  case (push n st bytes)
  then show ?case using append_scrollback_length [of "scrollback (fst st)" bytes] by (auto simp: scrollback_push)
next
  case (disconnect n st reason)
  then show ?case using append_scrollback_length [of "scrollback (fst st)" "goodbye reason"] by (auto simp: scrollback_others)
qed (simp_all add: hub_new_def clear_scrollback_def scrollback_others)

lemma reachable_clients: "hub_reachable idx n st \<Longrightarrow> hub_inv st"
proof (induction rule: hub_reachable.induct)
  case (new mx)
  then show ?case by (simp add: hub_inv_def hub_new_def)
next
  case (clear n st)
  then show ?case by (cases st) (simp add: hub_inv_def clear_scrollback_def)
qed (simp_all add: attach_inv detach_inv push_inv disconnect_inv)

definition no_metrics :: metrics where
  "no_metrics = \<lparr>counters = (\<lambda>_ _. 0), gauges = (\<lambda>_ _. 0)\<rparr>"

definition quiet_sock :: sock where
  "quiet_sock = \<lparr>delivered = [], answers = [], shut = False\<rparr>"

text \<open>
  C9. In every state a hub can reach, at most one client is the writer, client ids are distinct and below
  the next one, the exported gauge is the number of clients, and the scrollback holds no more than
  SCROLLBACK_BYTES, or the longest single chunk of output when that is longer.
\<close>

theorem hub_reachable_inv:
  assumes "hub_reachable idx longest (h, mx)"
  shows "distinct (map cl_id (clients h)) \<and> (\<forall>c \<in> set (clients h). cl_id c < next_id h) \<and> length (filter is_writer (clients h)) \<le> 1 \<and>
    gauges mx L2CPU_CONSOLE_CLIENTS (hub_idx h) = int (length (clients h)) \<and>
    length (scrollback h) \<le> max SCROLLBACK_BYTES longest"
  using reachable_clients [OF assms] reachable_scrollback [OF assms] by (simp add: hub_inv_def writers_def)

theorem hub_reachable_inv_witness:
  "case snd (push_chip_output [1, 2] (snd (attach quiet_sock Takeover (snd (attach quiet_sock Rw (hub_new 2, no_metrics)))))) of
     (h, mx) \<Rightarrow> length (filter is_writer (clients h)) \<le> 1 \<and> length (scrollback h) \<le> max SCROLLBACK_BYTES 2"
proof -
  have "hub_reachable 2 (max 0 (length [1, 2 :: u8]))
      (snd (push_chip_output [1, 2] (snd (attach quiet_sock Takeover (snd (attach quiet_sock Rw (hub_new 2, no_metrics)))))))"
  proof (rule hub_reachable.push, rule hub_reachable.attach, rule hub_reachable.attach, rule hub_reachable.new)
    show "gauges no_metrics L2CPU_CONSOLE_CLIENTS 2 = 0" by (simp add: no_metrics_def)
    show "next_id (fst (hub_new 2, no_metrics)) \<noteq> - 1" by (simp add: hub_new_def)
    show "next_id (fst (snd (attach quiet_sock Rw (hub_new 2, no_metrics)))) \<noteq> - 1"
      by (simp add: hub_new_def attach_def attach_role_def find_writer_def Let_def)
  qed
  then show ?thesis using hub_reachable_inv [of 2 2] by (auto simp: numeral_2_eq_2 split: prod.split)
qed

text \<open>
  Whatever is pushed in chunks of at most the scrollback's size, the scrollback afterwards is exactly
  the last \<open>SCROLLBACK_BYTES\<close> bytes of what it held followed by everything pushed.
\<close>

theorem scrollback_is_output_tail:
  assumes "\<And>bs. bs \<in> set chunks \<Longrightarrow> length bs \<le> SCROLLBACK_BYTES"
    and "length (scrollback (fst st)) \<le> SCROLLBACK_BYTES"
  shows "scrollback (fst (fold (\<lambda>bs st. snd (push_chip_output bs st)) chunks st)) =
    lastn SCROLLBACK_BYTES (scrollback (fst st) @ concat chunks)"
  using assms by (rule hub_log.fold_push)

theorem scrollback_is_output_tail_witness:
  "scrollback (fst (fold (\<lambda>bs st. snd (push_chip_output bs st)) [[1, 2], [3]] (hub_new 0, no_metrics))) =
    lastn SCROLLBACK_BYTES [1, 2, 3]"
proof -
  have "length bs \<le> SCROLLBACK_BYTES" if "bs \<in> set [[1, 2], [3 :: u8]]" for bs
    using that by (auto simp: SCROLLBACK_BYTES_def)
  from scrollback_is_output_tail [of "[[1, 2], [3]]" "(hub_new 0, no_metrics)", OF this]
  show ?thesis by (simp add: hub_new_def)
qed

lemma find_writer_append:
  "find_writer (xs @ ys) = (case find_writer xs of None \<Rightarrow> find_writer ys | Some w \<Rightarrow> Some w)"
  by (induction xs) (auto simp: find_writer_def)

lemma find_writer_single: "find_writer [c] = (if is_writer c then Some (cl_id c) else None)"
  by (simp add: find_writer_def)

lemma current_writer_old:
  "hub_inv (h, mx) \<Longrightarrow> current_writer_id h \<noteq> Some (next_id h)"
  by (auto simp: hub_inv_def current_writer_id_def dest!: find_writer_Some)

text \<open>
  C38. An attach replays the scrollback and settles the writer: a read-only client never is, a
  read-write client is only when there was none, a takeover always is and demotes exactly the
  previous writer.
\<close>

theorem attach_settles_writer:
  assumes "hub_inv (h, mx)"
    and "attach sk mode (h, mx) = ((r, replay), h', mx')"
  shows "replay = scrollback h \<and> ar_id r = next_id h \<and>
    current_writer_id h' =
      (case mode of
         Ro \<Rightarrow> current_writer_id h
       | Rw \<Rightarrow> (if current_writer_id h = None then Some (next_id h) else current_writer_id h)
       | Takeover \<Rightarrow> Some (next_id h)) \<and>
    ar_is_writer r = (current_writer_id h' = Some (next_id h)) \<and>
    ar_demoted r = (if mode = Takeover then (case current_writer_id h of None \<Rightarrow> [] | Some w \<Rightarrow> [w]) else [])"
proof -
  let ?cs = "clients h"
  have w1: "writers ?cs \<le> 1" and ids: "distinct (map cl_id ?cs)" using assms(1) by (simp_all add: hub_inv_def)
  note old = current_writer_old [OF assms(1)]
  have gone: "find_writer (map (\<lambda>c. if cl_id c = w then c\<lparr>is_writer := False\<rparr> else c) ?cs) = None"
    if "find_writer ?cs = Some w" for w
    using writers_demoted [OF w1 that] by (simp add: find_writer_None)
  obtain wr dem cs where role: "attach_role mode ?cs = (wr, dem, cs)" by (cases "attach_role mode ?cs")
  then have r: "replay = scrollback h" "ar_id r = next_id h" "ar_is_writer r = wr" "ar_demoted r = dem"
    and h': "current_writer_id h' = (case find_writer cs of None \<Rightarrow> if wr then Some (next_id h) else None | Some w \<Rightarrow> Some w)"
    using assms(2) by (auto simp: attach_def Let_def current_writer_id_def find_writer_append find_writer_single
        split: option.splits)
  show ?thesis
  proof (cases mode)
    case Ro
    with role r h' old show ?thesis
      by (auto simp: attach_role_def current_writer_id_def split: option.splits)
  next
    case Rw
    with role r h' old show ?thesis
      by (auto simp: attach_role_def current_writer_id_def split: option.splits)
  next
    case Takeover
    show ?thesis
    proof (cases "find_writer ?cs")
      case None
      with Takeover role r h' show ?thesis by (simp add: attach_role_def current_writer_id_def)
    next
      case (Some w)
      with Takeover role have "wr" "dem = [w]" "find_writer cs = None"
        using demoted_ids [OF ids Some] gone [OF Some] by (auto simp: attach_role_def)
      with Takeover Some r h' show ?thesis by (simp add: current_writer_id_def)
    qed
  qed
qed

theorem attach_settles_writer_witness:
  "current_writer_id (fst (snd (attach quiet_sock Takeover
     (snd (attach quiet_sock Rw (hub_new 0, no_metrics)))))) = Some 2"
proof -
  let ?st = "snd (attach quiet_sock Rw (hub_new 0, no_metrics))"
  have st: "?st = (fst ?st, snd ?st)" by simp
  have inv: "hub_inv (fst ?st, snd ?st)"
    by (simp add: attach_def attach_role_def hub_new_def find_writer_def Let_def hub_inv_def
        set_clients_gauge_def)
  let ?o = "attach quiet_sock Takeover (fst ?st, snd ?st)"
  have run: "?o = ((fst (fst ?o), snd (fst ?o)), fst (snd ?o), snd (snd ?o))" by simp
  have "next_id (fst ?st) = 2" by (simp add: attach_def attach_role_def hub_new_def Let_def)
  with attach_settles_writer [OF inv run] show ?thesis by simp
qed

text \<open>
  A push reaches every client that stays attached with exactly the bytes pushed, in order and after
  what it already had; a client is dropped only when its socket refused, and then what it got is
  a prefix. No client is lost otherwise, and the others are not affected.
\<close>

theorem push_reaches_clients:
  assumes "bytes \<noteq> []" and "push_chip_output bytes (h, mx) = (dropped, h', mx')"
  shows "map cl_id (clients h') = map cl_id (filter (\<lambda>c. fst (send_all_dontwait (cl_sock c) bytes)) (clients h)) \<and>
    dropped = map cl_id (filter (\<lambda>c. \<not> fst (send_all_dontwait (cl_sock c) bytes)) (clients h)) \<and>
    (\<forall>c' \<in> set (clients h'). \<exists>c \<in> set (clients h). cl_id c' = cl_id c \<and> is_writer c' = is_writer c \<and>
       delivered (cl_sock c') = delivered (cl_sock c) @ bytes)"
proof -
  let ?ok = "\<lambda>c. fst (send_all_dontwait (cl_sock c) bytes)"
  have h': "clients h' = map (\<lambda>c. c\<lparr>cl_sock := snd (send_all_dontwait (cl_sock c) bytes)\<rparr>) (filter ?ok (clients h))"
    and d: "dropped = map cl_id (filter (\<lambda>c. \<not> ?ok c) (clients h))"
    using assms by (auto simp: push_chip_output_def Let_def fan_out_eq)
  have full: "delivered (snd (send_all_dontwait (cl_sock c) bytes)) = delivered (cl_sock c) @ bytes" if "?ok c" for c
    using that send_all_ok [of "cl_sock c" bytes] by (cases "send_all_dontwait (cl_sock c) bytes") simp
  have "\<exists>c \<in> set (clients h). cl_id c' = cl_id c \<and> is_writer c' = is_writer c \<and>
       delivered (cl_sock c') = delivered (cl_sock c) @ bytes" if "c' \<in> set (clients h')" for c'
    using that full by (force simp: h')
  then show ?thesis by (simp add: h' d)
qed

theorem push_reaches_clients_witness:
  "map cl_id (clients (fst (snd (push_chip_output [7] (snd (attach quiet_sock Ro (hub_new 0, no_metrics))))))) = [1]"
proof -
  let ?st = "snd (attach quiet_sock Ro (hub_new 0, no_metrics))"
  let ?o = "push_chip_output [7] (fst ?st, snd ?st)"
  have run: "?o = (fst ?o, fst (snd ?o), snd (snd ?o))" by simp
  have "map cl_id (filter (\<lambda>c. fst (send_all_dontwait (cl_sock c) [7])) (clients (fst ?st))) = [1]"
    by (simp add: attach_def attach_role_def hub_new_def Let_def quiet_sock_def send_all_dontwait.simps)
  with push_reaches_clients [OF _ run] show ?thesis by simp
qed

text \<open>
  Disconnecting leaves no client, shuts every socket down, and the tail kept for a post-mortem
  (\<open>SHUTDOWN_TAIL_BYTES\<close>) ends with the goodbye line.
\<close>

theorem disconnect_tail_ends_with_goodbye:
  assumes "length (goodbye reason) \<le> SHUTDOWN_TAIL_BYTES"
    and "disconnect_all_with_reason reason (h, mx) = (socks, h', mx')"
  shows "clients h' = [] \<and> length socks = length (clients h) \<and> (\<forall>s \<in> set socks. shut s) \<and>
    (\<exists>before. tail SHUTDOWN_TAIL_BYTES h' = before @ goodbye reason)"
proof -
  let ?bye = "goodbye reason" and ?n = "length (scrollback h')"
  have sb: "scrollback h' = lastn SCROLLBACK_BYTES (scrollback h @ ?bye)"
    using assms by (auto simp: disconnect_all_with_reason_def Let_def append_scrollback_lastn
        SHUTDOWN_TAIL_BYTES_def SCROLLBACK_BYTES_def)
  then obtain ys where ys: "scrollback h' = ys @ ?bye"
    using assms(1) by (auto simp: lastn_append SHUTDOWN_TAIL_BYTES_def SCROLLBACK_BYTES_def)
  have "tail SHUTDOWN_TAIL_BYTES h' = lastn SHUTDOWN_TAIL_BYTES (scrollback h')"
    by (simp add: tail_def lastn_def Let_def min_def)
  also have "\<dots> = lastn (SHUTDOWN_TAIL_BYTES - length ?bye) ys @ ?bye"
    using assms(1) by (simp add: ys lastn_append)
  finally show ?thesis
    using assms(2) by (auto simp: disconnect_all_with_reason_def Let_def)
qed

theorem disconnect_tail_ends_with_goodbye_witness:
  "\<exists>before. tail SHUTDOWN_TAIL_BYTES
     (fst (snd (disconnect_all_with_reason ''stopped'' (hub_new 1, no_metrics)))) = before @ goodbye ''stopped''"
proof -
  let ?o = "disconnect_all_with_reason ''stopped'' (hub_new 1, no_metrics)"
  have run: "?o = (fst ?o, fst (snd ?o), snd (snd ?o))" by simp
  have "length (goodbye ''stopped'') \<le> SHUTDOWN_TAIL_BYTES"
    by (simp add: goodbye_def SHUTDOWN_TAIL_BYTES_def)
  from disconnect_tail_ends_with_goodbye [OF this run] show ?thesis by blast
qed

text \<open>
  The bound of the scrollback depends on the callers: a single push longer than
  \<open>SCROLLBACK_BYTES\<close> is kept whole, so that the ring then exceeds its size.
\<close>

theorem oversized_push_exceeds_bound:
  assumes "SCROLLBACK_BYTES < length bytes"
  shows "scrollback (fst (snd (push_chip_output bytes (h, mx)))) = bytes"
proof -
  from assms have "bytes \<noteq> []" by auto
  then show ?thesis using assms by (simp add: scrollback_push append_scrollback_def)
qed

theorem oversized_push_exceeds_bound_witness:
  "SCROLLBACK_BYTES < length (scrollback (fst (snd (push_chip_output
     (replicate (Suc SCROLLBACK_BYTES) 0) (hub_new 0, no_metrics)))))"
  using oversized_push_exceeds_bound [of "replicate (Suc SCROLLBACK_BYTES) 0" "hub_new 0" no_metrics]
  by (simp del: replicate_Suc)

text \<open>
  A partial \<open>send\<close> is not reported as an error: when the kernel takes part of the frame and
  then the rest, the send succeeds.
\<close>

theorem partial_send_continues:
  assumes "0 < n" and "n < length bytes" and "answers s = [Sent n]"
  shows "send_all_dontwait s bytes =
    (True, s\<lparr>delivered := delivered s @ bytes, answers := []\<rparr>)"
proof -
  have "bytes \<noteq> []" using assms by auto
  then show ?thesis
    using assms by (simp add: send_all_dontwait.simps [of s bytes] send_all_dontwait.simps [of _ "drop n bytes"])
qed

theorem partial_send_continues_witness:
  "send_all_dontwait \<lparr>delivered = [], answers = [Sent 1], shut = False\<rparr> [5, 6] =
    (True, \<lparr>delivered = [5, 6], answers = [], shut = False\<rparr>)"
  using partial_send_continues [of 1 "[5, 6]" "\<lparr>delivered = [], answers = [Sent 1], shut = False\<rparr>"]
  by simp

end
