(* ===== verification/Virtio_Blk.thy ===== *)
theory Virtio_Blk
  imports Virtio_Queue Console_Hub
begin

text \<open>
  The virtio block device of \<open>src/src/virtio/block.rs\<close>. The mapping of the disk image is a list
  of bytes; the request header stays in guest memory and is read through the pointer that
  \<open>process_queue_start\<close> saves, None being the null pointer of a new device. Also the
  host-side objects that device operations share (\<open>host\<close>).
\<close>

section \<open>Model\<close>

text \<open>
  What devices reach on the host: the metrics, and per L2CPU its console hub and the keystroke
  buffer of its virtio console.
\<close>

record host =
  h_metrics :: metrics
  h_hub :: "u8 \<Rightarrow> hub"
  h_input :: "u8 \<Rightarrow> u8 list"

definition VIRTIO_BLK_T_IN :: u32 where "VIRTIO_BLK_T_IN = 0"
definition VIRTIO_BLK_T_OUT :: u32 where "VIRTIO_BLK_T_OUT = 1"
definition VIRTIO_BLK_T_GET_ID :: u32 where "VIRTIO_BLK_T_GET_ID = 8"
definition VIRTIO_BLK_ID_BYTES :: nat where "VIRTIO_BLK_ID_BYTES = 20"
definition VIRTIO_BLK_S_OK :: u8 where "VIRTIO_BLK_S_OK = 0"
definition VIRTIO_BLK_S_IOERR :: u8 where "VIRTIO_BLK_S_IOERR = 1"
definition VIRTIO_BLK_S_UNSUPP :: u8 where "VIRTIO_BLK_S_UNSUPP = 2"

lemmas blk_consts =
  VIRTIO_BLK_T_IN_def VIRTIO_BLK_T_OUT_def VIRTIO_BLK_T_GET_ID_def VIRTIO_BLK_ID_BYTES_def
  VIRTIO_BLK_S_OK_def VIRTIO_BLK_S_IOERR_def VIRTIO_BLK_S_UNSUPP_def

record virtio_blk =
  sector_size :: u64
  mapped_data :: "u8 list"
  req :: "nat option"
  data_offset :: u64
  req_status :: u8
  blk_l2cpu_idx :: u8
  serial :: "u8 list option"

text \<open>
  The device that \<open>from_file_with_serial\<close> returns once \<open>fstat\<close> and \<open>mmap\<close> have succeeded. Their errors are answers
  of the operating system, which the two callers in the daemon handle.
\<close>

definition from_file_with_serial :: "u8 list \<Rightarrow> u8 \<Rightarrow> u8 list option \<Rightarrow> virtio_blk" where
  "from_file_with_serial contents idx ser =
     \<lparr>sector_size = 512, mapped_data = contents, req = None, data_offset = 0,
      req_status = VIRTIO_BLK_S_OK, blk_l2cpu_idx = idx, serial = ser\<rparr>"

text \<open>\<open>file_size.div_ceil(sector_size)\<close>, the capacity that \<open>init_config\<close> publishes.\<close>

definition num_sectors :: "virtio_blk \<Rightarrow> u64" where
  "num_sectors b =
     word_of_nat ((length (mapped_data b) + unat (sector_size b) - 1) div unat (sector_size b))"

type_synonym blk_ctx = "(virtio_blk, host) ctx"

definition blk_start :: "u32 \<Rightarrow> nat \<Rightarrow> u64 \<Rightarrow> blk_ctx \<Rightarrow> blk_ctx" where
  "blk_start q addr len c =
     c\<lparr>dev := (dev c)\<lparr>req := Some addr, data_offset := 0, req_status := VIRTIO_BLK_S_OK\<rparr>\<rparr>"

text \<open>The fields of the header at \<open>p\<close>: \<open>type_\<close>, \<open>ioprio\<close>, \<open>sector\<close>.\<close>

definition hdr_type :: "guest_mem \<Rightarrow> nat \<Rightarrow> u32" where
  "hdr_type m p = gm_u32 m p"

definition hdr_sector :: "guest_mem \<Rightarrow> nat \<Rightarrow> u64" where
  "hdr_sector m p = gm_u64 m (p + 8)"

definition serial_bytes :: "virtio_blk \<Rightarrow> u8 list" where
  "serial_bytes b =
     (case serial b of
        Some s \<Rightarrow> s
      | None \<Rightarrow> str (''bhx-l2cpu-'' @ dec02 (unat (blk_l2cpu_idx b))))"

definition segv :: "('d, 'w) ctx \<Rightarrow> ('d, 'w) ctx" where
  "segv c = c\<lparr>mem := (mem c)\<lparr>gm_fault := True\<rparr>\<rparr>"

definition disk_offset :: "virtio_blk \<Rightarrow> u64 \<Rightarrow> u64" where
  "disk_offset b sector = sector_size b * sector + data_offset b"

text \<open>The branch on the request type, for a range inside the disk.\<close>

definition blk_transfer :: "u32 \<Rightarrow> nat \<Rightarrow> nat \<Rightarrow> nat \<Rightarrow> blk_ctx \<Rightarrow> blk_ctx" where
  "blk_transfer ty off addr len c =
     (if ty = VIRTIO_BLK_T_IN then
        c\<lparr>mem := gm_store addr (take len (drop off (mapped_data (dev c)))) (mem c)\<rparr>
      else if ty = VIRTIO_BLK_T_OUT then
        c\<lparr>mem := gm_touch addr len (mem c),
          dev := (dev c)\<lparr>mapped_data :=
            take off (mapped_data (dev c)) @ gm_load (mem c) addr len @
            drop (off + len) (mapped_data (dev c))\<rparr>\<rparr>
      else if ty = VIRTIO_BLK_T_GET_ID then
        (let bytes = serial_bytes (dev c);
             n = min len VIRTIO_BLK_ID_BYTES;
             m1 = gm_store addr (replicate n 0) (mem c)
         in c\<lparr>mem := gm_store addr (take (min (length bytes) n) bytes) m1\<rparr>)
      else c\<lparr>dev := (dev c)\<lparr>req_status := VIRTIO_BLK_S_UNSUPP\<rparr>\<rparr>)"

definition advance_data :: "u64 \<Rightarrow> blk_ctx \<Rightarrow> blk_ctx" where
  "advance_data len c = c\<lparr>dev := (dev c)\<lparr>data_offset := data_offset (dev c) + len\<rparr>\<rparr>"

definition blk_data :: "u32 \<Rightarrow> nat \<Rightarrow> u64 \<Rightarrow> blk_ctx \<Rightarrow> blk_ctx" where
  "blk_data q addr len c =
     (case req (dev c) of
        None \<Rightarrow> segv c
      | Some p \<Rightarrow>
          let c1 = c\<lparr>mem := gm_touch p 16 (mem c)\<rparr>;
              off = disk_offset (dev c1) (hdr_sector (mem c1) p);
              end_off = saturating_add off len
          in if unat end_off > length (mapped_data (dev c1)) then
               advance_data len (c1\<lparr>dev := (dev c1)\<lparr>req_status := VIRTIO_BLK_S_IOERR\<rparr>\<rparr>)
             else
               advance_data len
                 (blk_transfer (hdr_type (mem c1) p) (unat off) addr (unat len) c1))"

definition blk_count :: "u32 \<Rightarrow> virtio_blk \<Rightarrow> metrics \<Rightarrow> metrics" where
  "blk_count ty b mx =
     (let idx = blk_l2cpu_idx b;
          mx1 =
            (if ty = VIRTIO_BLK_T_IN then
               counter_add BLK_BYTES_READ idx (data_offset b) (counter_inc BLK_REQUESTS_READ idx mx)
             else if ty = VIRTIO_BLK_T_OUT then
               counter_add BLK_BYTES_WRITE idx (data_offset b) (counter_inc BLK_REQUESTS_WRITE idx mx)
             else mx)
      in if req_status b = VIRTIO_BLK_S_IOERR then counter_inc BLK_ERRORS_IOERR idx mx1
         else if req_status b = VIRTIO_BLK_S_UNSUPP then counter_inc BLK_ERRORS_UNSUPP idx mx1
         else mx1)"

definition blk_complete :: "u32 \<Rightarrow> nat \<Rightarrow> u64 \<Rightarrow> blk_ctx \<Rightarrow> u64 \<times> blk_ctx" where
  "blk_complete q addr len c =
     (let c1 = c\<lparr>mem := gm_store addr [req_status (dev c)] (mem c)\<rparr>
      in case req (dev c1) of
           None \<Rightarrow> (len, segv c1)
         | Some p \<Rightarrow>
             let c2 = c1\<lparr>mem := gm_touch p 16 (mem c1)\<rparr>;
                 mx = blk_count (hdr_type (mem c2) p) (dev c2) (h_metrics (wld c2))
             in (len, c2\<lparr>wld := (wld c2)\<lparr>h_metrics := mx\<rparr>,
                         dev := (dev c2)\<lparr>req_status := VIRTIO_BLK_S_OK\<rparr>\<rparr>))"

definition blk_ops :: "(virtio_blk, host) device_ops" where
  "blk_ops =
     \<lparr>num_queues = (\<lambda>_. 1), queue_header_size = (\<lambda>_. 16), device_id = (\<lambda>_. 2),
      device_features = (\<lambda>_. (0, 1)),
      process_queue_start = blk_start, process_queue_data = blk_data,
      process_queue_complete = blk_complete, queue_has_data = (\<lambda>_ _. True)\<rparr>"

section \<open>The device meets the contract\<close>

text \<open>Once a request has been started, its header lies in the mapping.\<close>

definition blk_ready :: "nat \<Rightarrow> virtio_blk \<Rightarrow> bool" where
  "blk_ready n b \<longleftrightarrow> (\<exists>p. req b = Some p \<and> p + 16 \<le> n)"

lemma blk_transfer_frame:
  "gm_frame addr (addr + len) (mem c) (mem (blk_transfer ty off addr len c))"
proof -
  let ?n = "min len VIRTIO_BLK_ID_BYTES" and ?b = "serial_bytes (dev c)"
  let ?m1 = "gm_store addr (replicate ?n 0) (mem c)"
  have "gm_frame addr (addr + len) (mem c) (gm_store addr (take len (drop off (mapped_data (dev c)))) (mem c))"
    and m1: "gm_frame addr (addr + len) (mem c) ?m1"
    and m2: "gm_frame addr (addr + len) ?m1 (gm_store addr (take (min (length ?b) ?n) ?b) ?m1)"
    by (rule gm_frame_store; simp)+
  with gm_frame_trans [OF m1 m2] show ?thesis by (simp add: blk_transfer_def Let_def)
qed

lemma blk_transfer_safe:
  "addr + len \<le> gm_size (mem c) \<Longrightarrow> gm_fault (mem (blk_transfer ty off addr len c)) = gm_fault (mem c)"
  by (auto simp: blk_transfer_def Let_def gm_ok_def)

lemma blk_transfer_req [simp]: "req (dev (blk_transfer ty off addr len c)) = req (dev c)"
  by (simp add: blk_transfer_def Let_def)

lemma advance_data_simps [simp]:
  "mem (advance_data len c) = mem c" "req (dev (advance_data len c)) = req (dev c)"
  by (simp_all add: advance_data_def)

lemma blk_data_frame: "gm_frame addr (addr + unat len) (mem c) (mem (blk_data q addr len c))"
proof (cases "req (dev c)")
  case None
  then show ?thesis by (simp add: blk_data_def segv_def gm_frame_def)
next
  case (Some p)
  have "gm_frame addr (addr + unat len) (mem c)
      (mem (blk_transfer ty off addr (unat len) (c\<lparr>mem := gm_touch p 16 (mem c)\<rparr>)))" for ty off
    using blk_transfer_frame [of addr "unat len" "c\<lparr>mem := gm_touch p 16 (mem c)\<rparr>" ty off]
    by (simp add: gm_frame_def)
  with Some show ?thesis by (simp add: blk_data_def Let_def)
qed

lemma blk_data_size [simp]: "gm_size (mem (blk_data q addr len c)) = gm_size (mem c)"
  by (rule gm_frame_size [OF blk_data_frame])

lemma blk_data_unfold:
  assumes "req (dev c) = Some p" and "p + 16 \<le> gm_size (mem c)"
  shows "blk_data q addr len c =
    (let off = disk_offset (dev c) (hdr_sector (mem c) p)
     in if length (mapped_data (dev c)) < unat (saturating_add off len)
        then advance_data len (c\<lparr>dev := (dev c)\<lparr>req_status := VIRTIO_BLK_S_IOERR\<rparr>\<rparr>)
        else advance_data len (blk_transfer (hdr_type (mem c) p) (unat off) addr (unat len) c))"
proof -
  have "gm_touch p 16 (mem c) = mem c" using assms(2) by (simp add: gm_touch_ok gm_ok_def)
  then have "c\<lparr>mem := gm_touch p 16 (mem c)\<rparr> = c" by simp
  then show ?thesis by (simp add: blk_data_def assms(1) Let_def)
qed

lemma blk_data_safe:
  assumes "blk_ready (gm_size (mem c)) (dev c)" and "addr + unat len \<le> gm_size (mem c)"
  shows "gm_fault (mem (blk_data q addr len c)) = gm_fault (mem c)"
    and "req (dev (blk_data q addr len c)) = req (dev c)"
proof -
  from assms(1) obtain p where p: "req (dev c) = Some p" "p + 16 \<le> gm_size (mem c)"
    by (auto simp: blk_ready_def)
  show "gm_fault (mem (blk_data q addr len c)) = gm_fault (mem c)"
    and "req (dev (blk_data q addr len c)) = req (dev c)"
    unfolding blk_data_unfold [OF p] Let_def
    using blk_transfer_safe [OF assms(2)] by (simp_all add: p(1))
qed

interpretation blk_dev: virtio_device blk_ops 16 0 "\<lambda>_. True" blk_ready
proof unfold_locales
  fix off q and len :: u64 and c :: blk_ctx
  let ?hi = "off + unat len + 16"
  show "gm_frame off (off + unat len + 0) (mem c) (mem (process_queue_start blk_ops q off len c))"
    by (simp add: blk_ops_def blk_start_def)
  show "gm_frame off (off + unat len + 0) (mem c) (mem (process_queue_data blk_ops q off len c))"
    using blk_data_frame [of off len c q] by (simp add: blk_ops_def)
  show "gm_frame off ?hi (mem c) (mem (snd (process_queue_complete blk_ops q off len c)))"
    using gm_frame_store [of off off "[req_status (dev c)]" ?hi "mem c"]
    by (auto simp: blk_ops_def blk_complete_def Let_def segv_def gm_frame_def split: option.splits)
  assume fits: "?hi \<le> gm_size (mem c)"
  show "gm_fault (mem (process_queue_start blk_ops q off len c)) = gm_fault (mem c) \<and>
      blk_ready (gm_size (mem c)) (dev (process_queue_start blk_ops q off len c))"
    using fits by (simp add: blk_ops_def blk_start_def blk_ready_def)
  assume rdy: "blk_ready (gm_size (mem c)) (dev c)"
  show "gm_fault (mem (process_queue_data blk_ops q off len c)) = gm_fault (mem c) \<and>
      blk_ready (gm_size (mem c)) (dev (process_queue_data blk_ops q off len c))"
    using blk_data_safe [OF rdy] rdy fits by (simp add: blk_ops_def blk_ready_def)
  show "gm_fault (mem (snd (process_queue_complete blk_ops q off len c))) = gm_fault (mem c) \<and>
      blk_ready (gm_size (mem c)) (dev (snd (process_queue_complete blk_ops q off len c)))"
    using rdy fits by (auto simp: blk_ops_def blk_complete_def Let_def blk_ready_def gm_ok_def)
qed simp_all

section \<open>Transfers\<close>

text \<open>Replacing the bytes from \<open>off\<close> on by \<open>bs\<close>.\<close>

definition overwrite :: "nat \<Rightarrow> 'a list \<Rightarrow> 'a list \<Rightarrow> 'a list" where
  "overwrite off bs xs = take off xs @ bs @ drop (off + length bs) xs"

lemma length_overwrite: "off + length bs \<le> length xs \<Longrightarrow> length (overwrite off bs xs) = length xs"
  by (simp add: overwrite_def)

lemma overwrite_overwrite:
  assumes "off + length bs + length bs' \<le> length xs"
  shows "overwrite (off + length bs) bs' (overwrite off bs xs) = overwrite off (bs @ bs') xs"
  using assms by (simp add: overwrite_def ac_simps)

lemma take_drop_overwrite:
  "off + length bs \<le> length xs \<Longrightarrow> take (length bs) (drop off (overwrite off bs xs)) = bs"
  by (simp add: overwrite_def)

definition blk_pos :: "virtio_blk \<Rightarrow> u64 \<Rightarrow> nat" where
  "blk_pos b sector = unat (sector_size b) * unat sector + unat (data_offset b)"

lemma unat_disk_offset:
  "blk_pos b sector < 2 ^ 64 \<Longrightarrow> unat (disk_offset b sector) = blk_pos b sector"
  by (simp add: disk_offset_def blk_pos_def unat_word_ariths mod_add_left_eq)

lemma blk_data_in_range:
  assumes p: "req (dev c) = Some p" "p + 16 \<le> gm_size (mem c)"
    and fits: "blk_pos (dev c) (hdr_sector (mem c) p) + unat len \<le> length (mapped_data (dev c))"
    and small: "length (mapped_data (dev c)) < 2 ^ 64"
  shows "blk_data q addr len c =
    advance_data len (blk_transfer (hdr_type (mem c) p) (blk_pos (dev c) (hdr_sector (mem c) p)) addr (unat len) c)"
proof -
  have off: "unat (disk_offset (dev c) (hdr_sector (mem c) p)) = blk_pos (dev c) (hdr_sector (mem c) p)"
    using fits small by (intro unat_disk_offset) linarith
  then have "unat (saturating_add (disk_offset (dev c) (hdr_sector (mem c) p)) len) =
      blk_pos (dev c) (hdr_sector (mem c) p) + unat len"
    using fits small by (simp add: unat_saturating_add)
  then show ?thesis using fits by (simp add: blk_data_unfold [OF p] Let_def off)
qed

text \<open>The data descriptors of a request, one after the other.\<close>

definition blk_datas :: "vqueue \<Rightarrow> vring_desc list \<Rightarrow> blk_ctx \<Rightarrow> blk_ctx" where
  "blk_datas vq ds c = fold (\<lambda>d. blk_data (queue_idx vq) (desc_offset vq d) (ucast (d_len d))) ds c"

abbreviation dbuf :: "vqueue \<Rightarrow> vring_desc \<Rightarrow> nat \<times> nat" where
  "dbuf vq d \<equiv> (desc_offset vq d, unat (d_len d))"

abbreviation dlens :: "vring_desc list \<Rightarrow> nat" where
  "dlens ds \<equiv> sum_list (map (\<lambda>d. unat (d_len d)) ds)"

abbreviation dloads :: "guest_mem \<Rightarrow> vqueue \<Rightarrow> vring_desc list \<Rightarrow> u8 list" where
  "dloads m vq ds \<equiv> concat (map (\<lambda>d. gm_load m (desc_offset vq d) (unat (d_len d))) ds)"

lemma blk_datas_simps [simp]:
  "blk_datas vq [] c = c"
  "blk_datas vq (d # ds) c =
     blk_datas vq ds (blk_data (queue_idx vq) (desc_offset vq d) (ucast (d_len d)) c)"
  by (simp_all add: blk_datas_def)

lemma length_dloads [simp]: "length (dloads m vq ds) = dlens ds"
  by (induction ds) auto

text \<open>The state in which a request of type \<open>ty\<close> is served.\<close>

definition serving :: "u32 \<Rightarrow> u64 \<Rightarrow> nat \<Rightarrow> blk_ctx \<Rightarrow> bool" where
  "serving ty sector p c \<longleftrightarrow>
     req (dev c) = Some p \<and> p + 16 \<le> gm_size (mem c) \<and>
     hdr_type (mem c) p = ty \<and> hdr_sector (mem c) p = sector \<and>
     length (mapped_data (dev c)) < 2 ^ 64"

lemma hdr_load:
  assumes "gm_load m' p 16 = gm_load m p 16"
  shows "hdr_type m' p = hdr_type m p" and "hdr_sector m' p = hdr_sector m p"
  using gm_load_part [OF assms, of p 4] gm_load_part [OF assms, of "p + 8" 8]
  by (simp_all add: hdr_type_def hdr_sector_def)

lemma advance_pos:
  assumes "blk_pos (dev c) sector + unat len < 2 ^ 64"
  shows "blk_pos (dev (advance_data len c)) sector = blk_pos (dev c) sector + unat len"
proof -
  have "unat (data_offset (dev c)) + unat len < 2 ^ 64" using assms by (simp add: blk_pos_def)
  then show ?thesis by (simp add: blk_pos_def advance_data_def unat_word_ariths)
qed

lemma blk_write_step:
  assumes "serving VIRTIO_BLK_T_OUT sector p c"
    and "blk_pos (dev c) sector + unat len \<le> length (mapped_data (dev c))"
    and "addr + unat len \<le> gm_size (mem c)"
  shows "blk_data q addr len c =
    c\<lparr>dev := (dev c)\<lparr>mapped_data := overwrite (blk_pos (dev c) sector) (gm_load (mem c) addr (unat len)) (mapped_data (dev c)),
                     data_offset := data_offset (dev c) + len\<rparr>\<rparr>"
proof -
  have "gm_touch addr (unat len) (mem c) = mem c" using assms(3) by (simp add: gm_touch_ok gm_ok_def)
  then show ?thesis
    using assms(1,2) blk_data_in_range [of c p len q addr]
    by (auto simp: serving_def blk_transfer_def blk_consts advance_data_def overwrite_def)
qed

lemma blk_write_datas:
  assumes "serving VIRTIO_BLK_T_OUT sector p c"
    and "blk_pos (dev c) sector + dlens ds \<le> length (mapped_data (dev c))"
    and "\<And>d. d \<in> set ds \<Longrightarrow> desc_offset vq d + unat (d_len d) \<le> gm_size (mem c)"
  shows "blk_datas vq ds c =
    c\<lparr>dev := (dev c)\<lparr>mapped_data := overwrite (blk_pos (dev c) sector) (dloads (mem c) vq ds) (mapped_data (dev c)),
                     data_offset := data_offset (dev c) + word_of_nat (dlens ds)\<rparr>\<rparr>"
  using assms
proof (induction ds arbitrary: c)
  case Nil
  then show ?case by (simp add: overwrite_def)
next
  case (Cons d ds)
  let ?pos = "blk_pos (dev c) sector" and ?l = "gm_load (mem c) (desc_offset vq d) (unat (d_len d))"
  let ?c1 = "c\<lparr>dev := (dev c)\<lparr>mapped_data := overwrite ?pos ?l (mapped_data (dev c)),
                     data_offset := data_offset (dev c) + ucast (d_len d)\<rparr>\<rparr>"
  have step: "blk_data (queue_idx vq) (desc_offset vq d) (ucast (d_len d)) c = ?c1"
    using blk_write_step [OF Cons.prems(1), of "ucast (d_len d)"] Cons.prems(2,3) by simp
  have small: "length (mapped_data (dev c)) < 2 ^ 64" using Cons.prems(1) by (simp add: serving_def)
  have len: "length (overwrite ?pos ?l (mapped_data (dev c))) = length (mapped_data (dev c))"
    using Cons.prems(2) by (simp add: length_overwrite)
  have pos: "blk_pos (dev ?c1) sector = ?pos + unat (d_len d)"
    using advance_pos [of c sector "ucast (d_len d)"] Cons.prems(2) small
    by (simp add: advance_data_def blk_pos_def)
  have "serving VIRTIO_BLK_T_OUT sector p ?c1" using Cons.prems(1) len by (simp add: serving_def)
  moreover have "blk_pos (dev ?c1) sector + dlens ds \<le> length (mapped_data (dev ?c1))"
    unfolding pos using Cons.prems(2) len by simp
  ultimately have "blk_datas vq ds ?c1 =
      ?c1\<lparr>dev := (dev ?c1)\<lparr>mapped_data := overwrite (?pos + unat (d_len d)) (dloads (mem c) vq ds) (mapped_data (dev ?c1)),
        data_offset := data_offset (dev ?c1) + word_of_nat (dlens ds)\<rparr>\<rparr>"
    using Cons.IH [of ?c1] Cons.prems(3) pos by simp
  moreover have "overwrite (?pos + unat (d_len d)) (dloads (mem c) vq ds) (overwrite ?pos ?l (mapped_data (dev c))) =
      overwrite ?pos (?l @ dloads (mem c) vq ds) (mapped_data (dev c))"
    using overwrite_overwrite [of ?pos ?l "dloads (mem c) vq ds"] Cons.prems(2) by simp
  ultimately show ?case using step by (simp add: of_nat_unat_ucast add.assoc)
qed

lemma blk_datas_load:
  assumes "\<And>d. d \<in> set ds \<Longrightarrow> disj2 (a, n) (dbuf vq d)"
  shows "gm_load (mem (blk_datas vq ds c)) a n = gm_load (mem c) a n"
  using assms
proof (induction ds arbitrary: c)
  case Nil
  then show ?case by simp
next
  case (Cons d ds)
  have "gm_load (mem (blk_data (queue_idx vq) (desc_offset vq d) (ucast (d_len d)) c)) a n = gm_load (mem c) a n"
    by (rule gm_frame_load_disj [OF blk_data_frame]) (use Cons.prems in simp)
  with Cons show ?case by simp
qed

lemma blk_read_step:
  assumes "serving VIRTIO_BLK_T_IN sector p c"
    and "blk_pos (dev c) sector + unat len \<le> length (mapped_data (dev c))"
  shows "blk_data q addr len c =
    advance_data len (c\<lparr>mem := gm_store addr (take (unat len) (drop (blk_pos (dev c) sector) (mapped_data (dev c)))) (mem c)\<rparr>)"
  using assms blk_data_in_range [of c p len q addr]
  by (auto simp: serving_def blk_transfer_def blk_consts)

lemma blk_read_datas:
  assumes "serving VIRTIO_BLK_T_IN sector p c"
    and "blk_pos (dev c) sector + dlens ds \<le> length (mapped_data (dev c))"
    and "apart ((p, 16) # map (dbuf vq) ds)"
  shows "dloads (mem (blk_datas vq ds c)) vq ds = take (dlens ds) (drop (blk_pos (dev c) sector) (mapped_data (dev c))) \<and>
    dev (blk_datas vq ds c) = (dev c)\<lparr>data_offset := data_offset (dev c) + word_of_nat (dlens ds)\<rparr> \<and>
    wld (blk_datas vq ds c) = wld c"
  using assms
proof (induction ds arbitrary: c)
  case Nil
  then show ?case by simp
next
  case (Cons d ds)
  let ?pos = "blk_pos (dev c) sector" and ?disk = "mapped_data (dev c)" and ?l = "unat (d_len d)"
  let ?part = "take ?l (drop ?pos ?disk)"
  let ?c1 = "advance_data (ucast (d_len d)) (c\<lparr>mem := gm_store (desc_offset vq d) ?part (mem c)\<rparr>)"
  have step: "blk_data (queue_idx vq) (desc_offset vq d) (ucast (d_len d)) c = ?c1"
    using blk_read_step [OF Cons.prems(1), of "ucast (d_len d)"] Cons.prems(2) by simp
  have small: "length ?disk < 2 ^ 64" using Cons.prems(1) by (simp add: serving_def)
  have pl: "length ?part = ?l" using Cons.prems(2) by simp
  have pos: "blk_pos (dev ?c1) sector = ?pos + ?l"
    using advance_pos [of c sector "ucast (d_len d)"] Cons.prems(2) small
    by (simp add: advance_data_def blk_pos_def)
  have hdr: "gm_load (mem ?c1) p 16 = gm_load (mem c) p 16"
    using Cons.prems(3) pl by (simp add: gm_load_store_disjoint disj2_def)
  have "serving VIRTIO_BLK_T_IN sector p ?c1"
    using Cons.prems(1) hdr_load [OF hdr] by (simp add: serving_def advance_data_def)
  then have IH: "dloads (mem (blk_datas vq ds ?c1)) vq ds = take (dlens ds) (drop (?pos + ?l) ?disk) \<and>
      dev (blk_datas vq ds ?c1) = (dev ?c1)\<lparr>data_offset := data_offset (dev ?c1) + word_of_nat (dlens ds)\<rparr> \<and>
      wld (blk_datas vq ds ?c1) = wld ?c1"
    using Cons.IH [of ?c1] Cons.prems(2,3) pos by (simp add: advance_data_def)
  have "gm_load (mem (blk_datas vq ds ?c1)) (desc_offset vq d) ?l = gm_load (mem ?c1) (desc_offset vq d) ?l"
    using Cons.prems(3) by (intro blk_datas_load) simp
  also have "\<dots> = ?part" using gm_load_store_same [of "desc_offset vq d" ?part "mem c"] pl by simp
  finally have "dloads (mem (blk_datas vq ds ?c1)) vq (d # ds) = ?part @ take (dlens ds) (drop (?pos + ?l) ?disk)"
    using IH by simp
  also have "\<dots> = take (dlens (d # ds)) (drop ?pos ?disk)"
    by (simp add: take_add add.commute)
  finally show ?case using IH step by (simp add: advance_data_def of_nat_unat_ucast add.assoc)
qed

lemma blk_data_shape:
  assumes "serving ty sector p c" and "ty = VIRTIO_BLK_T_IN \<or> ty = VIRTIO_BLK_T_OUT"
    and "blk_pos (dev c) sector + unat len < 2 ^ 64"
  shows "req_status (dev (blk_data q addr len c)) =
      (if length (mapped_data (dev c)) < blk_pos (dev c) sector + unat len then VIRTIO_BLK_S_IOERR
       else req_status (dev c))"
    and "data_offset (dev (blk_data q addr len c)) = data_offset (dev c) + len"
    and "sector_size (dev (blk_data q addr len c)) = sector_size (dev c)"
    and "req (dev (blk_data q addr len c)) = Some p"
    and "length (mapped_data (dev (blk_data q addr len c))) = length (mapped_data (dev c))"
proof -
  have p: "req (dev c) = Some p" "p + 16 \<le> gm_size (mem c)" and hdr: "hdr_sector (mem c) p = sector"
    "hdr_type (mem c) p = ty" using assms(1) by (simp_all add: serving_def)
  have off: "unat (disk_offset (dev c) sector) = blk_pos (dev c) sector"
    using assms(3) by (intro unat_disk_offset) simp
  have e: "unat (saturating_add (disk_offset (dev c) sector) len) = blk_pos (dev c) sector + unat len"
    using assms(3) by (simp add: unat_saturating_add off)
  note unf = blk_data_unfold [OF p, of q addr len, unfolded hdr Let_def e off]
  show "req_status (dev (blk_data q addr len c)) =
      (if length (mapped_data (dev c)) < blk_pos (dev c) sector + unat len then VIRTIO_BLK_S_IOERR
       else req_status (dev c))"
    and "data_offset (dev (blk_data q addr len c)) = data_offset (dev c) + len"
    and "sector_size (dev (blk_data q addr len c)) = sector_size (dev c)"
    and "req (dev (blk_data q addr len c)) = Some p"
    and "length (mapped_data (dev (blk_data q addr len c))) = length (mapped_data (dev c))"
    using assms(2) p(1) by (auto simp: unf advance_data_def blk_transfer_def blk_consts)
qed

lemma serving_data:
  assumes "serving ty sector p c" and "ty = VIRTIO_BLK_T_IN \<or> ty = VIRTIO_BLK_T_OUT"
    and "blk_pos (dev c) sector + unat len < 2 ^ 64" and "disj2 (p, 16) (addr, unat len)"
  shows "serving ty sector p (blk_data q addr len c)"
    and "blk_pos (dev (blk_data q addr len c)) sector = blk_pos (dev c) sector + unat len"
proof -
  note shape = blk_data_shape [OF assms(1-3), of q addr]
  have "gm_load (mem (blk_data q addr len c)) p 16 = gm_load (mem c) p 16"
    using assms(4) by (rule gm_frame_load_disj [OF blk_data_frame])
  from hdr_load [OF this] show "serving ty sector p (blk_data q addr len c)"
    using assms(1) shape(4,5) by (simp add: serving_def)
  have "unat (data_offset (dev c)) + unat len < 2 ^ 64" using assms(3) by (simp add: blk_pos_def)
  then show "blk_pos (dev (blk_data q addr len c)) sector = blk_pos (dev c) sector + unat len"
    by (simp add: blk_pos_def shape(2,3) unat_word_ariths)
qed

lemma blk_datas_status:
  assumes "serving ty sector p c" and "ty = VIRTIO_BLK_T_IN \<or> ty = VIRTIO_BLK_T_OUT"
    and "blk_pos (dev c) sector + dlens ds < 2 ^ 64" and "apart ((p, 16) # map (dbuf vq) ds)"
  shows "req_status (dev (blk_datas vq ds c)) =
    (if ds \<noteq> [] \<and> length (mapped_data (dev c)) < blk_pos (dev c) sector + dlens ds
     then VIRTIO_BLK_S_IOERR else req_status (dev c)) \<and>
    serving ty sector p (blk_datas vq ds c)"
  using assms
proof (induction ds arbitrary: c)
  case Nil
  then show ?case by simp
next
  case (Cons d ds)
  let ?c1 = "blk_data (queue_idx vq) (desc_offset vq d) (ucast (d_len d)) c"
  have lt: "blk_pos (dev c) sector + unat (ucast (d_len d) :: u64) < 2 ^ 64" using Cons.prems(3) by simp
  note shape = blk_data_shape [OF Cons.prems(1,2) lt, of "queue_idx vq" "desc_offset vq d"]
  have dj: "disj2 (p, 16) (desc_offset vq d, unat (ucast (d_len d) :: u64))" using Cons.prems(4) by simp
  note nx = serving_data [OF Cons.prems(1,2) lt dj, of "queue_idx vq"]
  have "blk_pos (dev ?c1) sector + dlens ds < 2 ^ 64" using nx(2) Cons.prems(3) by simp
  from Cons.IH [OF nx(1) Cons.prems(2) this] Cons.prems(4)
  show ?case by (auto simp: shape(1,5) nx(2))
qed

text \<open>The disk keeps its size and everything in front of the request; a read leaves it alone.\<close>

lemma blk_datas_disk:
  assumes "serving ty sector p c" and "ty = VIRTIO_BLK_T_IN \<or> ty = VIRTIO_BLK_T_OUT"
    and "blk_pos (dev c) sector + dlens ds < 2 ^ 64" and "apart ((p, 16) # map (dbuf vq) ds)"
  defines "disk \<equiv> mapped_data (dev c)" and "disk' \<equiv> mapped_data (dev (blk_datas vq ds c))"
  shows "length disk' = length disk \<and> take (blk_pos (dev c) sector) disk' = take (blk_pos (dev c) sector) disk \<and>
    (ty = VIRTIO_BLK_T_IN \<longrightarrow> disk' = disk)"
  using assms(1-4) unfolding disk_def disk'_def
proof (induction ds arbitrary: c)
  case (Cons d ds)
  let ?c1 = "blk_data (queue_idx vq) (desc_offset vq d) (ucast (d_len d)) c" and ?p = "blk_pos (dev c) sector"
  have lt: "?p + unat (ucast (d_len d) :: u64) < 2 ^ 64" using Cons.prems(3) by simp
  have dj: "disj2 (p, 16) (desc_offset vq d, unat (ucast (d_len d) :: u64))" using Cons.prems(4) by simp
  note shape = blk_data_shape [OF Cons.prems(1,2) lt, of "queue_idx vq" "desc_offset vq d"]
  note nx = serving_data [OF Cons.prems(1,2) lt dj, of "queue_idx vq"]
  have hdr: "req (dev c) = Some p" "p + 16 \<le> gm_size (mem c)" "hdr_sector (mem c) p = sector" "hdr_type (mem c) p = ty"
    using Cons.prems(1) by (simp_all add: serving_def)
  have off: "unat (disk_offset (dev c) sector) = ?p" using lt by (intro unat_disk_offset) simp
  have e: "unat (saturating_add (disk_offset (dev c) sector) (ucast (d_len d))) = ?p + unat (d_len d)"
    using lt by (simp add: unat_saturating_add off)
  have one: "take ?p (mapped_data (dev ?c1)) = take ?p (mapped_data (dev c))" "ty = VIRTIO_BLK_T_IN \<Longrightarrow> mapped_data (dev ?c1) = mapped_data (dev c)"
    using Cons.prems(2) unfolding blk_data_unfold [OF hdr(1,2)] Let_def hdr(3,4) off e
    by (auto simp: advance_data_def blk_transfer_def blk_consts)
  have "blk_pos (dev ?c1) sector + dlens ds < 2 ^ 64" using nx(2) Cons.prems(3) by simp
  moreover have "apart ((p, 16) # map (dbuf vq) ds)" using Cons.prems(4) by simp
  ultimately have IH: "length (mapped_data (dev (blk_datas vq ds ?c1))) = length (mapped_data (dev ?c1))"
      "take (?p + unat (d_len d)) (mapped_data (dev (blk_datas vq ds ?c1))) = take (?p + unat (d_len d)) (mapped_data (dev ?c1))"
      "ty = VIRTIO_BLK_T_IN \<longrightarrow> mapped_data (dev (blk_datas vq ds ?c1)) = mapped_data (dev ?c1)"
    using Cons.IH [OF nx(1) Cons.prems(2)] nx(2) by auto
  have rest: "blk_datas vq (d # ds) c = blk_datas vq ds ?c1" by simp
  have "take ?p (mapped_data (dev (blk_datas vq ds ?c1))) = take ?p (mapped_data (dev ?c1))"
    using arg_cong [OF IH(2), of "take ?p"] by simp
  then show ?case unfolding rest using IH one shape(5) by simp
qed simp

section \<open>Whole requests\<close>

lemma serve_blk_datas:
  assumes "header_size vq = 16" and "16 \<le> unat written" and "unat written + dlens ds < 2 ^ 64"
  shows "serve_descs blk_ops vq True written (ds @ [st]) c =
    map_prod ((+) (written + word_of_nat (dlens ds))) id
      (blk_complete (queue_idx vq) (desc_offset vq st) (ucast (d_len st)) (blk_datas vq ds c))"
  using assms
proof (induction ds arbitrary: written c)
  case Nil
  then show ?case by (simp add: blk_ops_def id_def)
next
  case (Cons d ds)
  let ?w = "written + ucast (d_len d)"
  have w: "unat ?w = unat written + unat (d_len d)"
    using Cons.prems(3) by (simp add: unat_word_ariths)
  have "\<not> written < 16" using Cons.prems(2) by (simp add: word_less_nat_alt)
  then have "serve_descs blk_ops vq True written ((d # ds) @ [st]) c =
      serve_descs blk_ops vq True ?w (ds @ [st])
        (blk_data (queue_idx vq) (desc_offset vq d) (ucast (d_len d)) c)"
    using Cons.prems(1) by (simp add: blk_ops_def)
  moreover have "16 \<le> unat ?w" "unat ?w + dlens ds < 2 ^ 64"
    using w Cons.prems(2,3) by simp_all
  ultimately show ?case
    using Cons.IH [OF Cons.prems(1)] by (simp add: of_nat_unat_ucast add.assoc)
qed

text \<open>
  A well-formed block request at the head of the queue: a header descriptor of at least 16 bytes, any
  number of data descriptors, a status descriptor; none of them overlapping another, the descriptor
  table or the used ring.
\<close>

definition blk_request ::
  "vqueue \<Rightarrow> u16 \<Rightarrow> blk_ctx \<Rightarrow> vring_desc \<Rightarrow> vring_desc list \<Rightarrow> vring_desc \<Rightarrow> bool"
where
  "blk_request vq processed c hdr ds st \<longleftrightarrow>
     vq_fits vq (gm_size (mem c)) \<and> dram_span vq \<le> gm_size (mem c) \<and> header_size vq = 16 \<and>
     processed \<noteq> gm_u16 (mem c) (avail_q vq + 2) \<and>
     chain_descs (mem c) vq (unat (queue_num vq))
       (gm_u16 (mem c) (avail_q vq + 4 + 2 * (unat processed mod unat (queue_num vq)))) =
       (True, hdr # ds @ [st]) \<and>
     16 \<le> unat (d_len hdr) \<and> 1 \<le> unat (d_len st) \<and>
     apart ((used_q vq, 4 + 8 * unat (queue_num vq)) # (desc_q vq, 16 * unat (queue_num vq)) #
            map (dbuf vq) (hdr # ds @ [st]))"

abbreviation started :: "vqueue \<Rightarrow> vring_desc \<Rightarrow> blk_ctx \<Rightarrow> blk_ctx" where
  "started vq hdr c \<equiv> blk_start (queue_idx vq) (desc_offset vq hdr) (ucast (d_len hdr)) c"

text \<open>What serving such a request comes to.\<close>

lemma blk_requestD:
  assumes "blk_request vq processed c hdr ds st"
  shows "vq_fits vq (gm_size (mem c))" "dram_span vq \<le> gm_size (mem c)" "header_size vq = 16"
    "processed \<noteq> gm_u16 (mem c) (avail_q vq + 2)"
    "chain_descs (mem c) vq (unat (queue_num vq))
       (gm_u16 (mem c) (avail_q vq + 4 + 2 * (unat processed mod unat (queue_num vq)))) =
       (True, hdr # ds @ [st])"
    "16 \<le> unat (d_len hdr)" "1 \<le> unat (d_len st)"
    "apart ((used_q vq, 4 + 8 * unat (queue_num vq)) # (desc_q vq, 16 * unat (queue_num vq)) #
            map (dbuf vq) (hdr # ds @ [st]))"
  using assms unfolding blk_request_def by blast+

lemma dlens_bound: "dlens ds \<le> length ds * 2 ^ 32"
proof (induction ds)
  case (Cons d ds)
  have "unat (d_len d) < 2 ^ 32" using unsigned_less [of "d_len d", where ?'a = nat] by simp
  with Cons show ?case by simp
qed simp

lemma blk_request_small:
  assumes "blk_request vq processed c hdr ds st"
  shows "unat (d_len hdr) + dlens ds < 2 ^ 64"
proof -
  have "length (hdr # ds @ [st]) \<le> unat (queue_num vq)"
    using chain_descs_length [of "mem c" vq "unat (queue_num vq)"
        "gm_u16 (mem c) (avail_q vq + 4 + 2 * (unat processed mod unat (queue_num vq)))"]
    unfolding blk_requestD(5) [OF assms] snd_conv .
  then have "length ds \<le> 65535"
    using unsigned_less [of "queue_num vq", where ?'a = nat] by simp
  moreover have "unat (d_len hdr) < 2 ^ 32" using unsigned_less [of "d_len hdr", where ?'a = nat] by simp
  ultimately show ?thesis using dlens_bound [of ds] by simp
qed

lemma blk_request_runs:
  assumes "blk_request vq processed c hdr ds st"
  shows "process_one_chain_for_queue blk_ops vq processed c =
    (let c2 = snd (blk_complete (queue_idx vq) (desc_offset vq st) (ucast (d_len st))
                (blk_datas vq ds (started vq hdr c)))
     in Some (True, processed + 1,
       c2\<lparr>mem := post_used vq
         (gm_u16 (mem c) (avail_q vq + 4 + 2 * (unat processed mod unat (queue_num vq))))
         (ucast (d_len hdr) + word_of_nat (dlens ds) + ucast (d_len st)) (mem c2)\<rparr>))"
proof -
  let ?c1 = "blk_datas vq ds (started vq hdr c)"
  let ?r = "blk_complete (queue_idx vq) (desc_offset vq st) (ucast (d_len st)) ?c1"
  have r: "?r = (ucast (d_len st), snd ?r)"
    by (simp add: blk_complete_def Let_def split: option.splits)
  have h: "16 \<le> unat (ucast (d_len hdr) :: u64)" "header_size vq = 16"
    using blk_requestD [OF assms] by simp_all
  have "serve_descs blk_ops vq True 0 (hdr # ds @ [st]) c =
      serve_descs blk_ops vq True (ucast (d_len hdr)) (ds @ [st]) (started vq hdr c)"
    using h(2) by (simp add: blk_ops_def)
  also have "\<dots> = map_prod ((+) (ucast (d_len hdr) + word_of_nat (dlens ds))) id ?r"
    using blk_request_small [OF assms] h by (intro serve_blk_datas) simp_all
  also have "\<dots> = (ucast (d_len hdr) + word_of_nat (dlens ds) + ucast (d_len st), snd ?r)"
    by (subst r) simp
  finally have run: "serve_descs blk_ops vq True 0 (hdr # ds @ [st]) c = \<dots>" .
  have table: "\<forall>x \<in> set (map (dbuf vq) (hdr # ds @ [st])). disj2 (desc_q vq, 16 * unat (queue_num vq)) x"
    using blk_requestD(8) [OF assms] unfolding apart_Cons by blast
  have clear: "clear_of_table 0 vq d" if "d \<in> set (hdr # ds @ [st])" for d
  proof -
    have "disj2 (desc_q vq, 16 * unat (queue_num vq)) (dbuf vq d)"
      using table that by (simp only: set_map ball_simps)
    then show ?thesis by (auto simp: clear_of_table_def disj2_def)
  qed
  note req = blk_requestD [OF assms]
  have "queue_has_data blk_ops (queue_idx vq) c" by (simp add: blk_ops_def)
  then have "process_one_chain_for_queue blk_ops vq processed c =
      Some (True, processed + 1, if True then (snd ?r)\<lparr>mem := post_used vq
         (gm_u16 (mem c) (avail_q vq + 4 + 2 * (unat processed mod unat (queue_num vq))))
         (ucast (d_len hdr) + word_of_nat (dlens ds) + ucast (d_len st)) (mem (snd ?r))\<rparr> else snd ?r)"
    by (rule blk_dev.one_chain_serves [OF req(1,4) _ refl req(5) clear run])
  then show ?thesis by (simp add: Let_def)
qed

lemma blk_request_apart:
  assumes "blk_request vq processed c hdr ds st"
  defines "used \<equiv> (used_q vq, 4 + 8 * unat (queue_num vq))"
  shows "apart ((desc_offset vq hdr, 16) # map (dbuf vq) ds)"
    and "disj2 used (dbuf vq st)"
    and "\<And>d. d \<in> set ds \<Longrightarrow> disj2 used (dbuf vq d)"
    and "\<And>d. d \<in> set ds \<Longrightarrow> disj2 (dbuf vq st) (dbuf vq d)"
proof -
  note ap = blk_requestD(8) [OF assms(1)] and len = blk_requestD(6) [OF assms(1)]
  show "apart ((desc_offset vq hdr, 16) # map (dbuf vq) ds)"
    using ap len by (auto simp: disj2_def)
  show "disj2 used (dbuf vq st)" using ap by (simp add: used_def)
  show "disj2 used (dbuf vq d)" if "d \<in> set ds" for d using ap that by (simp add: used_def)
  show "disj2 (dbuf vq st) (dbuf vq d)" if "d \<in> set ds" for d
    using ap that by (auto intro: disj2_sym)
qed

lemma blk_request_serving:
  assumes "blk_request vq processed c hdr ds st" and "length (mapped_data (dev c)) < 2 ^ 64"
  shows "serving (hdr_type (mem c) (desc_offset vq hdr)) (hdr_sector (mem c) (desc_offset vq hdr))
      (desc_offset vq hdr) (started vq hdr c)"
    and "\<And>d. d \<in> set ds \<Longrightarrow> desc_offset vq d + unat (d_len d) \<le> gm_size (mem c)"
proof -
  note r = blk_requestD [OF assms(1)]
  have ok: "\<not> desc_out_of_range vq d" if "d \<in> set (hdr # ds @ [st])" for d
    using chain_descs_in_range [of d "mem c" vq "unat (queue_num vq)"] that by (metis r(5) snd_conv)
  have lim: "desc_offset vq d + unat (d_len d) \<le> gm_size (mem c)" if "d \<in> set (hdr # ds @ [st])" for d
    using desc_in_range(3) [OF ok [OF that]] r(2) by (simp add: dram_span_def)
  have "desc_offset vq hdr + 16 \<le> gm_size (mem c)" using lim [of hdr] r(6) by simp
  then show "serving (hdr_type (mem c) (desc_offset vq hdr)) (hdr_sector (mem c) (desc_offset vq hdr))
      (desc_offset vq hdr) (started vq hdr c)"
    using assms(2) by (simp add: serving_def blk_start_def)
  show "desc_offset vq d + unat (d_len d) \<le> gm_size (mem c)" if "d \<in> set ds" for d
    using lim [of d] that by simp
qed

lemma blk_request_result:
  assumes rq: "blk_request vq processed c hdr ds st"
    and run: "process_one_chain_for_queue blk_ops vq processed c = Some (posted, processed', c')"
    and c1: "c1 = blk_datas vq ds (started vq hdr c)" "req (dev c1) \<noteq> None"
  shows "posted" and "processed' = processed + 1"
    and "gm_load (mem c') (desc_offset vq st) 1 = [req_status (dev c1)]"
    and "mapped_data (dev c') = mapped_data (dev c1)"
    and "dloads (mem c') vq ds = dloads (mem c1) vq ds"
proof -
  let ?head = "gm_u16 (mem c) (avail_q vq + 4 + 2 * (unat processed mod unat (queue_num vq)))"
  let ?n = "ucast (d_len hdr) + word_of_nat (dlens ds) + ucast (d_len st) :: u64"
  let ?c2 = "snd (blk_complete (queue_idx vq) (desc_offset vq st) (ucast (d_len st)) c1)"
  note ap = blk_request_apart [OF rq] and r = blk_requestD [OF rq]
  have eq: "posted" "processed' = processed + 1" "c' = ?c2\<lparr>mem := post_used vq ?head ?n (mem ?c2)\<rparr>"
    using run unfolding blk_request_runs [OF rq] Let_def c1(1) by auto
  then show "posted" "processed' = processed + 1" by simp_all
  have nz: "queue_num vq \<noteq> 0" using r(1) by (simp add: vq_fits_def)
  have m2: "gm_bytes (mem ?c2) = gm_bytes (gm_store (desc_offset vq st) [req_status (dev c1)] (mem c1))"
    and d2: "mapped_data (dev ?c2) = mapped_data (dev c1)"
    using c1(2) by (auto simp: blk_complete_def Let_def)
  have l2: "gm_load (mem ?c2) a n = gm_load (gm_store (desc_offset vq st) [req_status (dev c1)] (mem c1)) a n" for a n
    by (simp add: gm_load_def m2)
  have fin: "gm_load (mem c') a n = gm_load (mem ?c2) a n"
    if "disj2 (used_q vq, 4 + 8 * unat (queue_num vq)) (a, n)" for a n
    using gm_frame_load [OF post_used_result(4) [OF nz], of a n] that by (auto simp: eq(3) disj2_def)
  have "disj2 (used_q vq, 4 + 8 * unat (queue_num vq)) (desc_offset vq st, 1)"
    using ap(2) r(7) by (auto simp: disj2_def)
  then show "gm_load (mem c') (desc_offset vq st) 1 = [req_status (dev c1)]"
    using fin l2 gm_load_store_same [of "desc_offset vq st" "[req_status (dev c1)]" "mem c1"] by simp
  show "mapped_data (dev c') = mapped_data (dev c1)" by (simp add: eq(3) d2)
  have "gm_load (mem c') (desc_offset vq d) (unat (d_len d)) = gm_load (mem c1) (desc_offset vq d) (unat (d_len d))"
    if "d \<in> set ds" for d
    using fin [OF ap(3) [OF that]] ap(4) [OF that] r(7)
    by (auto simp: l2 disj2_def intro!: gm_load_store_disjoint)
  then show "dloads (mem c') vq ds = dloads (mem c1) vq ds"
    by (intro arg_cong [where f = concat] map_cong) simp_all
qed

lemma started_simps [simp]:
  "mem (started vq hdr c) = mem c"
  "mapped_data (dev (started vq hdr c)) = mapped_data (dev c)"
  "req_status (dev (started vq hdr c)) = VIRTIO_BLK_S_OK"
  by (simp_all add: blk_start_def)

lemma started_pos: "sector_size (dev c) = 512 \<Longrightarrow> blk_pos (dev (started vq hdr c)) sector = 512 * unat sector"
  by (simp add: blk_start_def blk_pos_def)

text \<open>A concrete queue of four entries with one request in it, used by the witnesses below.\<close>

definition demo_queue :: vqueue where
  "demo_queue = \<lparr>desc_q = 0, avail_q = 64, used_q = 80, queue_idx = 0, header_size = 16,
     queue_num = 4, starting_address = 4096, mem_end = 4256\<rparr>"

definition demo_mem :: "(nat \<times> u8) list \<Rightarrow> guest_mem" where
  "demo_mem extra = \<lparr>gm_bytes = (\<lambda>a. case map_of (extra @
       [(0, 128), (1, 16), (8, 16), (12, 1), (14, 1), (16, 144), (17, 16), (24, 4), (28, 3), (30, 2),
        (32, 148), (33, 16), (40, 1), (44, 2), (66, 1)]) a of None \<Rightarrow> 0 | Some b \<Rightarrow> b),
     gm_size = 176, gm_fault = False\<rparr>"

definition demo_hdr :: vring_desc where
  "demo_hdr = \<lparr>d_addr = 4224, d_len = 16, d_flags = 1, d_next = 1\<rparr>"

definition demo_data :: vring_desc where
  "demo_data = \<lparr>d_addr = 4240, d_len = 4, d_flags = 3, d_next = 2\<rparr>"

definition demo_status :: vring_desc where
  "demo_status = \<lparr>d_addr = 4244, d_len = 1, d_flags = 2, d_next = 0\<rparr>"

definition demo_host :: host where
  "demo_host = \<lparr>h_metrics = no_metrics, h_hub = hub_new, h_input = (\<lambda>_. [])\<rparr>"

definition demo_ctx :: "(nat \<times> u8) list \<Rightarrow> u8 list \<Rightarrow> blk_ctx" where
  "demo_ctx extra disk = \<lparr>dev = from_file_with_serial disk 0 None, mem = demo_mem extra, wld = demo_host\<rparr>"

definition demo_disk :: "u8 list" where
  "demo_disk = [10, 20, 30, 40, 50, 60, 70, 80]"

lemmas demo_defs = demo_queue_def demo_mem_def demo_hdr_def demo_data_def demo_status_def demo_ctx_def
  demo_host_def

lemma chain_descs_numeral [simp]:
  "chain_descs m vq (numeral k) i =
     (let d = read_desc m (desc_slot vq i)
      in if desc_out_of_range vq d then (False, [])
         else if has_next d then map_prod id ((#) d) (chain_descs m vq (pred_numeral k) (d_next d))
         else (True, [d]))"
  by (simp add: numeral_eq_Suc)

lemma upt_0_8: "[0..<8] = [0, 1, 2, 3, 4, 5, 6, 7 :: nat]"
  by (simp add: upt_rec)

lemma demo_descs:
  assumes "\<forall>a < 128. map_of extra a = None"
  shows "read_desc (demo_mem extra) 0 = demo_hdr"
    "read_desc (demo_mem extra) 16 = demo_data"
    "read_desc (demo_mem extra) 32 = demo_status"
    "gm_u16 (demo_mem extra) 66 = 1" "gm_u16 (demo_mem extra) 68 = 0"
  using assms
  by (simp_all add: demo_mem_def demo_hdr_def demo_data_def demo_status_def read_desc_def gm_load_def
      upt_rec_numeral upt_0_8 map_add_def)

lemma demo_request:
  assumes "\<forall>a < 128. map_of extra a = None"
  shows "blk_request demo_queue 0 (demo_ctx extra disk) demo_hdr [demo_data] demo_status"
proof -
  have "gm_size (demo_mem extra) = 176" by (simp add: demo_mem_def)
  moreover have "desc_slot demo_queue 0 = 0" "desc_slot demo_queue 1 = 16" "desc_slot demo_queue 2 = 32"
    by (simp_all add: desc_slot_def demo_queue_def)
  moreover have "\<not> desc_out_of_range demo_queue demo_hdr" "\<not> desc_out_of_range demo_queue demo_data"
    "\<not> desc_out_of_range demo_queue demo_status"
    by (simp_all add: desc_out_of_range_def demo_queue_def demo_hdr_def demo_data_def demo_status_def
        checked_add_def)
  moreover have "has_next demo_hdr" "has_next demo_data" "\<not> has_next demo_status"
    by (simp_all add: has_next_def VRING_DESC_F_NEXT_def demo_hdr_def demo_data_def demo_status_def)
  moreover have "d_next demo_hdr = 1" "d_next demo_data = 2"
    "d_len demo_hdr = 16" "d_len demo_data = 4" "d_len demo_status = 1"
    "desc_offset demo_queue demo_hdr = 128" "desc_offset demo_queue demo_data = 144"
    "desc_offset demo_queue demo_status = 148"
    by (simp_all add: desc_offset_def demo_queue_def demo_hdr_def demo_data_def demo_status_def)
  moreover have "desc_q demo_queue = 0" "avail_q demo_queue = 64" "used_q demo_queue = 80"
    "queue_num demo_queue = 4" "starting_address demo_queue = 4096" "mem_end demo_queue = 4256"
    "header_size demo_queue = 16"
    by (simp_all add: demo_queue_def)
  ultimately show ?thesis
    using demo_descs [OF assms]
    by (simp add: blk_request_def demo_ctx_def vq_fits_def dram_span_def disj2_def)
qed

lemma demo_ctx_simps [simp]:
  "mem (demo_ctx extra disk) = demo_mem extra"
  "mapped_data (dev (demo_ctx extra disk)) = disk"
  "sector_size (dev (demo_ctx extra disk)) = 512"
  "desc_offset demo_queue demo_hdr = 128"
  "desc_offset demo_queue demo_data = 144"
  "d_len demo_data = 4"
  by (simp_all add: demo_defs from_file_with_serial_def desc_offset_def)

lemmas demo_eval = hdr_type_def hdr_sector_def demo_mem_def demo_disk_def gm_load_def upt_rec_numeral
  blk_consts

section \<open>Properties\<close>

lemma blk_requestE:
  assumes rq: "blk_request vq processed c hdr ds st" and small: "length (mapped_data (dev c)) < 2 ^ 64"
    and sz: "sector_size (dev c) = 512"
  obtains c' where
    "process_one_chain_for_queue blk_ops vq processed c = Some (True, processed + 1, c')"
    "req (dev (blk_datas vq ds (started vq hdr c))) \<noteq> None \<Longrightarrow>
       gm_load (mem c') (desc_offset vq st) 1 = [req_status (dev (blk_datas vq ds (started vq hdr c)))] \<and>
       mapped_data (dev c') = mapped_data (dev (blk_datas vq ds (started vq hdr c))) \<and>
       dloads (mem c') vq ds = dloads (mem (blk_datas vq ds (started vq hdr c))) vq ds"
proof -
  obtain c' where run: "process_one_chain_for_queue blk_ops vq processed c = Some (True, processed + 1, c')"
    using blk_request_runs [OF rq] unfolding Let_def by blast
  show thesis by (rule that [OF run]) (use blk_request_result(3-5) [OF rq run refl] in blast)
qed

lemma blk_datas_sector_size: "sector_size (dev (blk_datas vq ds c)) = sector_size (dev c)"
  by (induction ds arbitrary: c)
    (simp_all add: blk_data_def blk_transfer_def advance_data_def segv_def Let_def split: option.splits)

lemma blk_request_sector_size:
  assumes "blk_request vq processed c hdr ds st" "process_one_chain_for_queue blk_ops vq processed c = Some (b, p, c')"
  shows "sector_size (dev c') = sector_size (dev c)"
  using assms(2) blk_datas_sector_size [of vq ds "started vq hdr c"] unfolding blk_request_runs [OF assms(1)]
  by (auto simp: Let_def blk_complete_def blk_start_def segv_def split: option.splits)

text \<open>
  A read request (header, data buffers, status byte) over a range inside the disk is completed:
  the used ring gets its entry, the data buffers together hold exactly the bytes of the disk image
  from byte 512 * sector on, the status byte is OK and the disk is unchanged.
\<close>

theorem blk_read_request:
  assumes rq: "blk_request vq processed c hdr ds st"
    and ty: "hdr_type (mem c) (desc_offset vq hdr) = VIRTIO_BLK_T_IN"
    and pos: "pos = 512 * unat (hdr_sector (mem c) (desc_offset vq hdr))"
    and disk: "sector_size (dev c) = 512" "length (mapped_data (dev c)) < 2 ^ 64"
    and range: "pos + dlens ds \<le> length (mapped_data (dev c))"
  shows "\<exists>c'. process_one_chain_for_queue blk_ops vq processed c = Some (True, processed + 1, c') \<and>
    dloads (mem c') vq ds = take (dlens ds) (drop pos (mapped_data (dev c))) \<and>
    gm_load (mem c') (desc_offset vq st) 1 = [VIRTIO_BLK_S_OK] \<and>
    mapped_data (dev c') = mapped_data (dev c)"
proof -
  note sv = blk_request_serving(1) [OF rq disk(2), unfolded ty]
  have p: "blk_pos (dev (started vq hdr c)) (hdr_sector (mem c) (desc_offset vq hdr)) = pos"
    using started_pos [OF disk(1)] pos by simp
  have rd: "dloads (mem (blk_datas vq ds (started vq hdr c))) vq ds = take (dlens ds) (drop pos (mapped_data (dev c)))"
    "dev (blk_datas vq ds (started vq hdr c)) =
      (dev (started vq hdr c))\<lparr>data_offset := data_offset (dev (started vq hdr c)) + word_of_nat (dlens ds)\<rparr>"
    using blk_read_datas [OF sv _ blk_request_apart(1) [OF rq]] range unfolding p by simp_all
  have res: "req (dev (blk_datas vq ds (started vq hdr c))) \<noteq> None"
    "req_status (dev (blk_datas vq ds (started vq hdr c))) = VIRTIO_BLK_S_OK"
    "mapped_data (dev (blk_datas vq ds (started vq hdr c))) = mapped_data (dev c)"
    using rd(2) sv by (simp_all add: serving_def)
  show ?thesis by (rule blk_requestE [OF rq disk(2,1)]) (use res rd(1) in auto)
qed
theorem blk_read_request_witness:
  "\<exists>c'. process_one_chain_for_queue blk_ops demo_queue 0 (demo_ctx [] demo_disk) = Some (True, 0 + 1, c') \<and>
    dloads (mem c') demo_queue [demo_data] = [10, 20, 30, 40] \<and>
    gm_load (mem c') (desc_offset demo_queue demo_status) 1 = [VIRTIO_BLK_S_OK] \<and>
    mapped_data (dev c') = demo_disk"
  using blk_read_request [OF demo_request [of "[]" demo_disk], of 0]
  by (simp add: demo_eval)

text \<open>
  A write request over a range inside the disk is completed with status OK, and the disk image
  afterwards is the old one with the bytes from 512 * sector on replaced by the contents of the data
  buffers, in order.
\<close>

theorem blk_write_request:
  assumes rq: "blk_request vq processed c hdr ds st"
    and ty: "hdr_type (mem c) (desc_offset vq hdr) = VIRTIO_BLK_T_OUT"
    and pos: "pos = 512 * unat (hdr_sector (mem c) (desc_offset vq hdr))"
    and disk: "sector_size (dev c) = 512" "length (mapped_data (dev c)) < 2 ^ 64"
    and range: "pos + dlens ds \<le> length (mapped_data (dev c))"
  shows "\<exists>c'. process_one_chain_for_queue blk_ops vq processed c = Some (True, processed + 1, c') \<and>
    mapped_data (dev c') = overwrite pos (dloads (mem c) vq ds) (mapped_data (dev c)) \<and>
    gm_load (mem c') (desc_offset vq st) 1 = [VIRTIO_BLK_S_OK]"
proof -
  let ?s = "started vq hdr c"
  note sv = blk_request_serving(1) [OF rq disk(2), unfolded ty]
  have p: "blk_pos (dev ?s) (hdr_sector (mem c) (desc_offset vq hdr)) = pos"
    using started_pos [OF disk(1)] pos by simp
  have wr: "blk_datas vq ds ?s = ?s\<lparr>dev := (dev ?s)\<lparr>mapped_data := overwrite pos (dloads (mem c) vq ds) (mapped_data (dev c)),
      data_offset := data_offset (dev ?s) + word_of_nat (dlens ds)\<rparr>\<rparr>"
    using blk_write_datas [OF sv, of ds vq] blk_request_serving(2) [OF rq disk(2)] range by (simp add: p)
  have rn: "req (dev (blk_datas vq ds ?s)) \<noteq> None" unfolding wr using sv by (simp add: serving_def)
  have res: "req_status (dev (blk_datas vq ds ?s)) = VIRTIO_BLK_S_OK"
    "mapped_data (dev (blk_datas vq ds ?s)) = overwrite pos (dloads (mem c) vq ds) (mapped_data (dev c))"
    unfolding wr by simp_all
  show ?thesis by (rule blk_requestE [OF rq disk(2,1)]) (use rn res in auto)
qed
theorem blk_write_request_witness:
  "\<exists>c'. process_one_chain_for_queue blk_ops demo_queue 0
      (demo_ctx [(128, 1), (144, 5), (145, 6), (146, 7), (147, 8)] demo_disk) = Some (True, 0 + 1, c') \<and>
    mapped_data (dev c') = [5, 6, 7, 8, 50, 60, 70, 80] \<and>
    gm_load (mem c') (desc_offset demo_queue demo_status) 1 = [VIRTIO_BLK_S_OK]"
  using blk_write_request [OF demo_request [of "[(128, 1), (144, 5), (145, 6), (146, 7), (147, 8)]" demo_disk], of 0]
  by (simp add: demo_eval overwrite_def)

text \<open>
  C37. A read or write request that runs past the end of the disk is completed with status IOERR, as long
  as the position and the length of the request do not exceed 64 bits. The disk keeps its size and all
  bytes in front of the request, and a read changes nothing of it. The position is 512 times the sector
  as a 64-bit product, so this leaves out the sectors from 2 ^ 55 on.
\<close>

theorem blk_out_of_range_request:
  assumes rq: "blk_request vq processed c hdr ds st"
    and ty: "ty = hdr_type (mem c) (desc_offset vq hdr)" "ty \<in> {VIRTIO_BLK_T_IN, VIRTIO_BLK_T_OUT}"
    and pos: "pos = 512 * unat (hdr_sector (mem c) (desc_offset vq hdr))"
    and disk: "sector_size (dev c) = 512" "length (mapped_data (dev c)) < 2 ^ 64"
    and range: "length (mapped_data (dev c)) < pos + dlens ds" "pos + dlens ds < 2 ^ 64" "ds \<noteq> []"
  shows "\<exists>c'. process_one_chain_for_queue blk_ops vq processed c = Some (True, processed + 1, c') \<and>
    gm_load (mem c') (desc_offset vq st) 1 = [VIRTIO_BLK_S_IOERR] \<and>
    length (mapped_data (dev c')) = length (mapped_data (dev c)) \<and>
    take pos (mapped_data (dev c')) = take pos (mapped_data (dev c)) \<and>
    (ty = VIRTIO_BLK_T_IN \<longrightarrow> mapped_data (dev c') = mapped_data (dev c))"
proof -
  let ?s = "started vq hdr c"
  note sv = blk_request_serving(1) [OF rq disk(2)]
  have p: "blk_pos (dev ?s) (hdr_sector (mem c) (desc_offset vq hdr)) = pos"
    using started_pos [OF disk(1)] pos by simp
  have st: "req_status (dev (blk_datas vq ds ?s)) = VIRTIO_BLK_S_IOERR \<and> req (dev (blk_datas vq ds ?s)) \<noteq> None"
    using blk_datas_status [OF sv _ _ blk_request_apart(1) [OF rq]] ty range p by (auto simp: serving_def)
  have same: "mapped_data (dev ?s) = mapped_data (dev c)" by (simp add: blk_start_def)
  note d = blk_datas_disk [OF sv _ _ blk_request_apart(1) [OF rq], unfolded p same]
  have kept: "length (mapped_data (dev (blk_datas vq ds ?s))) = length (mapped_data (dev c)) \<and>
      take pos (mapped_data (dev (blk_datas vq ds ?s))) = take pos (mapped_data (dev c)) \<and>
      (ty = VIRTIO_BLK_T_IN \<longrightarrow> mapped_data (dev (blk_datas vq ds ?s)) = mapped_data (dev c))"
    using d ty range(2) by auto
  show ?thesis by (rule blk_requestE [OF rq disk(2,1)]) (use st kept in auto)
qed

theorem blk_out_of_range_request_witness:
  "\<exists>c'. process_one_chain_for_queue blk_ops demo_queue 0 (demo_ctx [(136, 1)] demo_disk) = Some (True, 0 + 1, c') \<and>
    gm_load (mem c') (desc_offset demo_queue demo_status) 1 = [VIRTIO_BLK_S_IOERR] \<and> mapped_data (dev c') = demo_disk"
  using blk_out_of_range_request [OF demo_request [of "[(136, 1)]" demo_disk] refl, of 512]
  by (simp add: demo_eval) blast

text \<open>
  A chain of a single descriptor served by a new device dereferences the null request pointer.
  The guest decides the length of the chain, so it can crash the daemon with its first request.
\<close>

theorem blk_fresh_single_descriptor_faults:
  assumes fits: "vq_fits vq (gm_size (mem c))" and fresh: "req (dev c) = None"
    and pending: "processed \<noteq> gm_u16 (mem c) (avail_q vq + 2)"
    and chain: "chain_descs (mem c) vq (unat (queue_num vq))
       (gm_u16 (mem c) (avail_q vq + 4 + 2 * (unat processed mod unat (queue_num vq)))) = (True, [d])"
    and clear: "clear_of_table 0 vq d"
  shows "\<exists>c'. process_one_chain_for_queue blk_ops vq processed c = Some (True, processed + 1, c') \<and>
    gm_fault (mem c')"
proof -
  let ?r = "blk_complete (queue_idx vq) (desc_offset vq d) (ucast (d_len d)) c"
  have run: "serve_descs blk_ops vq True 0 [d] c = (fst ?r, snd ?r)"
    by (simp add: blk_ops_def map_prod_def split: prod.splits)
  have flt: "gm_fault (mem (snd ?r))" "gm_size (mem (snd ?r)) = gm_size (mem c)"
    using fresh by (simp_all add: blk_complete_def Let_def segv_def)
  have hd: "queue_has_data blk_ops (queue_idx vq) c" by (simp add: blk_ops_def)
  show ?thesis
    using blk_dev.one_chain_serves [OF fits pending hd refl chain _ run] clear flt fits
    by (simp add: post_used_safe)
qed

theorem blk_fresh_single_descriptor_faults_witness:
  "\<exists>c'. process_one_chain_for_queue blk_ops demo_queue 0 (demo_ctx [(12, 0)] demo_disk) = Some (True, 0 + 1, c') \<and>
    gm_fault (mem c')"
proof (rule blk_fresh_single_descriptor_faults)
  let ?d = "demo_hdr\<lparr>d_flags := 0\<rparr>"
  have d: "read_desc (demo_mem [(12, 0)]) 0 = ?d" "gm_u16 (demo_mem [(12, 0)]) 66 = 1" "gm_u16 (demo_mem [(12, 0)]) 68 = 0"
    by (simp_all add: demo_mem_def demo_hdr_def read_desc_def gm_load_def upt_rec_numeral upt_0_8)
  show "vq_fits demo_queue (gm_size (mem (demo_ctx [(12, 0)] demo_disk)))"
    "req (dev (demo_ctx [(12, 0)] demo_disk)) = None"
    "clear_of_table 0 demo_queue ?d"
    by (simp_all add: demo_defs vq_fits_def from_file_with_serial_def clear_of_table_def desc_offset_def)
  show "0 \<noteq> gm_u16 (mem (demo_ctx [(12, 0)] demo_disk)) (avail_q demo_queue + 2)"
    using d by (simp add: demo_queue_def)
  show "chain_descs (mem (demo_ctx [(12, 0)] demo_disk)) demo_queue (unat (queue_num demo_queue))
     (gm_u16 (mem (demo_ctx [(12, 0)] demo_disk))
       (avail_q demo_queue + 4 + 2 * (unat (0 :: u16) mod unat (queue_num demo_queue)))) = (True, [?d])"
    using d by (simp add: demo_queue_def desc_slot_def desc_out_of_range_def has_next_def demo_hdr_def
        checked_add_def VRING_DESC_F_NEXT_def)
qed

text \<open>
  The byte position of a request is computed modulo 2^64, so sector 2^55 + s is served as
  sector s: the read succeeds and delivers the bytes of sector s instead of failing with IOERR.
\<close>

theorem blk_sector_wraps:
  assumes hdr: "req (dev c) = Some p" "p + 16 \<le> gm_size (mem c)"
      "hdr_type (mem c) p = VIRTIO_BLK_T_IN" "hdr_sector (mem c) p = 2 ^ 55 + s"
    and disk: "sector_size (dev c) = 512" "data_offset (dev c) = 0" "length (mapped_data (dev c)) < 2 ^ 64"
    and range: "512 * unat s + unat len \<le> length (mapped_data (dev c))"
  shows "blk_data q addr len c =
    advance_data len (c\<lparr>mem := gm_store addr (take (unat len) (drop (512 * unat s) (mapped_data (dev c)))) (mem c)\<rparr>)"
proof -
  have "(512 :: u64) * 2 ^ 55 = 0" by simp
  then have off: "disk_offset (dev c) (2 ^ 55 + s) = 512 * s"
    by (simp add: disk_offset_def disk distrib_left)
  have "unat (512 * s) = 512 * unat s" using range disk(3) by (simp add: unat_word_ariths)
  then show ?thesis
    unfolding blk_data_unfold [OF hdr(1,2)] hdr(3,4) off Let_def
    using range disk(3) by (simp add: unat_saturating_add blk_transfer_def)
qed

theorem blk_sector_wraps_witness:
  "let c = demo_ctx [(142, 128)] demo_disk; c1 = c\<lparr>dev := (dev c)\<lparr>req := Some 128\<rparr>\<rparr>
   in hdr_sector (mem c1) 128 = 2 ^ 55 \<and>
      blk_data 0 144 4 c1 = advance_data 4 (c1\<lparr>mem := gm_store 144 [10, 20, 30, 40] (mem c1)\<rparr>)"
proof -
  define c where "c = demo_ctx [(142, 128)] demo_disk"
  define c1 where "c1 = c\<lparr>dev := (dev c)\<lparr>req := Some 128\<rparr>\<rparr>"
  have s: "hdr_sector (mem c1) 128 = 2 ^ 55" "hdr_type (mem c1) 128 = VIRTIO_BLK_T_IN"
    by (simp_all add: c1_def c_def demo_eval)
  have "req (dev c1) = Some 128" "128 + 16 \<le> gm_size (mem c1)" "sector_size (dev c1) = 512"
      "data_offset (dev c1) = 0" "mapped_data (dev c1) = demo_disk"
    by (simp_all add: c1_def c_def demo_defs from_file_with_serial_def)
  then have "blk_data 0 144 4 c1 = advance_data 4 (c1\<lparr>mem := gm_store 144 [10, 20, 30, 40] (mem c1)\<rparr>)"
    using blk_sector_wraps [of c1 128 0 4 0 144] s by (simp add: demo_disk_def)
  with s show ?thesis unfolding Let_def c_def [symmetric] c1_def [symmetric] by simp
qed

end
