(* ===== verification/Layout.thy ===== *)
theory Layout
  imports Guest_Memory
begin

text \<open>
  The memory layout of the Tensix tile that runs the virtio engine, as the two sides declare it: the
  C headers \<open>virtio_layout.h\<close>, \<open>uart_layout.h\<close>, \<open>tensix_proto.h\<close> and the constants at the
  head of \<open>virtio.c\<close> for the firmware; \<open>virtio_engine.rs\<close>, \<open>uart_engine.rs\<close> and
  \<open>tensix_proto.rs\<close> for the daemon. A group of register offsets is a datatype with one
  constructor per register and a function to its offset. All words of the layout are collected in
  the datatype \<open>cell\<close>; that no two of them overlap is what lets the other theories reason about
  registers instead of addresses.
\<close>

section \<open>Firmware side\<close>

definition BRISC_VIRTIO_CODE_BASE :: nat where [layout_defs]: "BRISC_VIRTIO_CODE_BASE = 0"
definition BRISC_VIRTIO_CODE_SIZE :: nat where [layout_defs]: "BRISC_VIRTIO_CODE_SIZE = 0x4000"
definition BRISC_VIRTIO_STATS_BASE :: nat where [layout_defs]: "BRISC_VIRTIO_STATS_BASE = 0x4000"
definition BRISC_VIRTIO_STATS_SIZE :: nat where [layout_defs]: "BRISC_VIRTIO_STATS_SIZE = 0x1000"
definition BRISC_VIRTIO_REGS_BASE :: nat where [layout_defs]: "BRISC_VIRTIO_REGS_BASE = 0x10000"
definition BRISC_VIRTIO_REGS_PER_DEV :: nat where [layout_defs]: "BRISC_VIRTIO_REGS_PER_DEV = 0x1000"
definition BRISC_VIRTIO_NUM_L2CPUS :: nat where [layout_defs]: "BRISC_VIRTIO_NUM_L2CPUS = 4"
definition BRISC_VIRTIO_DEVS_PER_L2CPU :: nat where [layout_defs]: "BRISC_VIRTIO_DEVS_PER_L2CPU = 8"
definition BRISC_VIRTIO_NUM_SLOTS :: nat where
  [layout_defs]: "BRISC_VIRTIO_NUM_SLOTS = BRISC_VIRTIO_NUM_L2CPUS * BRISC_VIRTIO_DEVS_PER_L2CPU"
definition BRISC_VIRTIO_PER_L2CPU_SIZE :: nat where
  [layout_defs]: "BRISC_VIRTIO_PER_L2CPU_SIZE = BRISC_VIRTIO_DEVS_PER_L2CPU * BRISC_VIRTIO_REGS_PER_DEV"
definition BRISC_VIRTIO_MAX_QUEUES :: nat where [layout_defs]: "BRISC_VIRTIO_MAX_QUEUES = 8"
definition BRISC_VIRTIO_QUEUE_NUM_MAX :: u32 where "BRISC_VIRTIO_QUEUE_NUM_MAX = 256"

definition VIRTIO_MMIO_MAGIC :: u32 where "VIRTIO_MMIO_MAGIC = 0x74726976"
definition VIRTIO_MMIO_VERSION_2 :: u32 where "VIRTIO_MMIO_VERSION_2 = 2"
definition BRISC_VENDOR_ID :: u32 where "BRISC_VENDOR_ID = 0x55544254"

definition brisc_virtio_slot :: "nat \<Rightarrow> nat \<Rightarrow> nat" where
  "brisc_virtio_slot l2cpu_idx device_idx = l2cpu_idx * BRISC_VIRTIO_DEVS_PER_L2CPU + device_idx"

definition brisc_virtio_l2cpu_window_base :: "nat \<Rightarrow> nat" where
  "brisc_virtio_l2cpu_window_base l2cpu_idx = BRISC_VIRTIO_REGS_BASE + l2cpu_idx * BRISC_VIRTIO_PER_L2CPU_SIZE"

text \<open>The registers of a virtio-mmio register file.\<close>

datatype mmio_reg =
    VIRTIO_MMIO_MAGIC_VALUE | VIRTIO_MMIO_VERSION | VIRTIO_MMIO_DEVICE_ID | VIRTIO_MMIO_VENDOR_ID
  | VIRTIO_MMIO_DEVICE_FEATURES | VIRTIO_MMIO_DEVICE_FEATURES_SEL
  | VIRTIO_MMIO_SW_IMPL | VIRTIO_MMIO_SEL_GENERATION
  | VIRTIO_MMIO_DRIVER_FEATURES | VIRTIO_MMIO_DRIVER_FEATURES_SEL
  | VIRTIO_MMIO_QUEUE_SEL | VIRTIO_MMIO_QUEUE_NUM_MAX | VIRTIO_MMIO_QUEUE_NUM
  | VIRTIO_MMIO_QUEUE_READY | VIRTIO_MMIO_QUEUE_NOTIFY
  | VIRTIO_MMIO_INTERRUPT_STATUS | VIRTIO_MMIO_INTERRUPT_ACK | VIRTIO_MMIO_STATUS
  | VIRTIO_MMIO_QUEUE_DESC_LOW | VIRTIO_MMIO_QUEUE_DESC_HIGH
  | VIRTIO_MMIO_QUEUE_DRIVER_LOW | VIRTIO_MMIO_QUEUE_DRIVER_HIGH
  | VIRTIO_MMIO_QUEUE_DEVICE_LOW | VIRTIO_MMIO_QUEUE_DEVICE_HIGH
  | VIRTIO_MMIO_CONFIG_GENERATION | VIRTIO_MMIO_CONFIG

fun mmio_off :: "mmio_reg \<Rightarrow> nat" where
  "mmio_off VIRTIO_MMIO_MAGIC_VALUE = 0x000"
| "mmio_off VIRTIO_MMIO_VERSION = 0x004"
| "mmio_off VIRTIO_MMIO_DEVICE_ID = 0x008"
| "mmio_off VIRTIO_MMIO_VENDOR_ID = 0x00c"
| "mmio_off VIRTIO_MMIO_DEVICE_FEATURES = 0x010"
| "mmio_off VIRTIO_MMIO_DEVICE_FEATURES_SEL = 0x014"
| "mmio_off VIRTIO_MMIO_SW_IMPL = 0x018"
| "mmio_off VIRTIO_MMIO_SEL_GENERATION = 0x01c"
| "mmio_off VIRTIO_MMIO_DRIVER_FEATURES = 0x020"
| "mmio_off VIRTIO_MMIO_DRIVER_FEATURES_SEL = 0x024"
| "mmio_off VIRTIO_MMIO_QUEUE_SEL = 0x030"
| "mmio_off VIRTIO_MMIO_QUEUE_NUM_MAX = 0x034"
| "mmio_off VIRTIO_MMIO_QUEUE_NUM = 0x038"
| "mmio_off VIRTIO_MMIO_QUEUE_READY = 0x044"
| "mmio_off VIRTIO_MMIO_QUEUE_NOTIFY = 0x050"
| "mmio_off VIRTIO_MMIO_INTERRUPT_STATUS = 0x060"
| "mmio_off VIRTIO_MMIO_INTERRUPT_ACK = 0x064"
| "mmio_off VIRTIO_MMIO_STATUS = 0x070"
| "mmio_off VIRTIO_MMIO_QUEUE_DESC_LOW = 0x080"
| "mmio_off VIRTIO_MMIO_QUEUE_DESC_HIGH = 0x084"
| "mmio_off VIRTIO_MMIO_QUEUE_DRIVER_LOW = 0x090"
| "mmio_off VIRTIO_MMIO_QUEUE_DRIVER_HIGH = 0x094"
| "mmio_off VIRTIO_MMIO_QUEUE_DEVICE_LOW = 0x0a0"
| "mmio_off VIRTIO_MMIO_QUEUE_DEVICE_HIGH = 0x0a4"
| "mmio_off VIRTIO_MMIO_CONFIG_GENERATION = 0x0fc"
| "mmio_off VIRTIO_MMIO_CONFIG = 0x100"

text \<open>The stats page.\<close>

datatype stat =
    STATS_OFF_VERSION | STATS_OFF_MAGIC | STATS_OFF_HEARTBEAT
  | STATS_OFF_STATUS_CHANGES | STATS_OFF_SEL_CHANGES | STATS_OFF_NOTIFY_EVENTS
  | STATS_OFF_READY_EVENTS | STATS_OFF_LAST_NOTIFY
  | STATS_OFF_SEL_READY_RACES | STATS_OFF_READY_CAPTURE_SEL_RACES
  | STATS_OFF_QUEUE_SETUPS | STATS_OFF_QUEUE_TEARDOWNS | STATS_OFF_BRISC_OLD_SEL_RESCUE
  | STATS_OFF_DEV_FEAT_SEL_CHANGES | STATS_OFF_TRISC1_SEL_RACES
  | STATS_OFF_MAX_SWEEP_CYCLES | STATS_OFF_MAX_STEADY_SWEEP_CYCLES
  | STATS_OFF_MAX_SEL_PATH_CYCLES | STATS_OFF_LAST_SWEEP_CYCLES
  | STATS_OFF_MAX_TRISC1_REACTION_CYCLES | STATS_OFF_MAX_TRISC1_OUTER_CYCLES

fun stats_off :: "stat \<Rightarrow> nat" where
  "stats_off STATS_OFF_VERSION = 0x000"
| "stats_off STATS_OFF_MAGIC = 0x004"
| "stats_off STATS_OFF_HEARTBEAT = 0x008"
| "stats_off STATS_OFF_STATUS_CHANGES = 0x010"
| "stats_off STATS_OFF_SEL_CHANGES = 0x014"
| "stats_off STATS_OFF_NOTIFY_EVENTS = 0x018"
| "stats_off STATS_OFF_READY_EVENTS = 0x01c"
| "stats_off STATS_OFF_LAST_NOTIFY = 0x020"
| "stats_off STATS_OFF_SEL_READY_RACES = 0x024"
| "stats_off STATS_OFF_READY_CAPTURE_SEL_RACES = 0x028"
| "stats_off STATS_OFF_QUEUE_SETUPS = 0x02c"
| "stats_off STATS_OFF_QUEUE_TEARDOWNS = 0x030"
| "stats_off STATS_OFF_BRISC_OLD_SEL_RESCUE = 0x034"
| "stats_off STATS_OFF_DEV_FEAT_SEL_CHANGES = 0x038"
| "stats_off STATS_OFF_TRISC1_SEL_RACES = 0x03c"
| "stats_off STATS_OFF_MAX_SWEEP_CYCLES = 0x040"
| "stats_off STATS_OFF_MAX_STEADY_SWEEP_CYCLES = 0x044"
| "stats_off STATS_OFF_MAX_SEL_PATH_CYCLES = 0x048"
| "stats_off STATS_OFF_LAST_SWEEP_CYCLES = 0x04c"
| "stats_off STATS_OFF_MAX_TRISC1_REACTION_CYCLES = 0x050"
| "stats_off STATS_OFF_MAX_TRISC1_OUTER_CYCLES = 0x054"

definition STATS_MAGIC_LOADED :: u32 where "STATS_MAGIC_LOADED = 0xB155"

text \<open>The per-device shadow block: queue-indexed setup fields, then the snapshots of the poll loop.\<close>

definition SHADOW_BASE :: nat where [layout_defs]: "SHADOW_BASE = 0x30000"
definition SHADOW_PER_DEVICE :: nat where [layout_defs]: "SHADOW_PER_DEVICE = 0x400"
definition SHADOW_PER_QUEUE :: nat where [layout_defs]: "SHADOW_PER_QUEUE = 0x40"
definition SNAP_BASE_OFF :: nat where [layout_defs]: "SNAP_BASE_OFF = 0x200"

datatype shadow_field =
    SHADOW_Q_OFF_NUM | SHADOW_Q_OFF_READY | SHADOW_Q_OFF_DESC_LO | SHADOW_Q_OFF_DESC_HI
  | SHADOW_Q_OFF_DRIVER_LO | SHADOW_Q_OFF_DRIVER_HI | SHADOW_Q_OFF_DEVICE_LO | SHADOW_Q_OFF_DEVICE_HI

fun shadow_q_off :: "shadow_field \<Rightarrow> nat" where
  "shadow_q_off SHADOW_Q_OFF_NUM = 0x00"
| "shadow_q_off SHADOW_Q_OFF_READY = 0x04"
| "shadow_q_off SHADOW_Q_OFF_DESC_LO = 0x08"
| "shadow_q_off SHADOW_Q_OFF_DESC_HI = 0x0c"
| "shadow_q_off SHADOW_Q_OFF_DRIVER_LO = 0x10"
| "shadow_q_off SHADOW_Q_OFF_DRIVER_HI = 0x14"
| "shadow_q_off SHADOW_Q_OFF_DEVICE_LO = 0x18"
| "shadow_q_off SHADOW_Q_OFF_DEVICE_HI = 0x1c"

datatype snap_field =
    SNAP_OFF_STATUS | SNAP_OFF_QUEUE_SEL | SNAP_OFF_QUEUE_NOTIFY | SNAP_OFF_QUEUE_READY
  | SNAP_OFF_QUEUE_NUM | SNAP_OFF_DESC_LO | SNAP_OFF_DESC_HI | SNAP_OFF_DRIVER_LO
  | SNAP_OFF_DRIVER_HI | SNAP_OFF_DEVICE_LO | SNAP_OFF_DEVICE_HI
  | SNAP_OFF_DEV_FEAT_SEL | SNAP_OFF_DRV_FEAT_SEL | SNAP_OFF_DRV_FEAT | SNAP_OFF_SEL_GEN_ECHO

fun snap_off :: "snap_field \<Rightarrow> nat" where
  "snap_off SNAP_OFF_STATUS = 0x00"
| "snap_off SNAP_OFF_QUEUE_SEL = 0x04"
| "snap_off SNAP_OFF_QUEUE_NOTIFY = 0x08"
| "snap_off SNAP_OFF_QUEUE_READY = 0x0c"
| "snap_off SNAP_OFF_QUEUE_NUM = 0x10"
| "snap_off SNAP_OFF_DESC_LO = 0x14"
| "snap_off SNAP_OFF_DESC_HI = 0x18"
| "snap_off SNAP_OFF_DRIVER_LO = 0x1c"
| "snap_off SNAP_OFF_DRIVER_HI = 0x20"
| "snap_off SNAP_OFF_DEVICE_LO = 0x24"
| "snap_off SNAP_OFF_DEVICE_HI = 0x28"
| "snap_off SNAP_OFF_DEV_FEAT_SEL = 0x2c"
| "snap_off SNAP_OFF_DRV_FEAT_SEL = 0x30"
| "snap_off SNAP_OFF_DRV_FEAT = 0x34"
| "snap_off SNAP_OFF_SEL_GEN_ECHO = 0x38"

text \<open>The control plane between the daemon and the firmware.\<close>

definition TENSIX_PROTOCOL_VERSION :: u32 where "TENSIX_PROTOCOL_VERSION = 5"
definition CTRL_BASE :: nat where [layout_defs]: "CTRL_BASE = 0x5000"
definition CTRL_SIZE :: nat where [layout_defs]: "CTRL_SIZE = 0x1000"
definition CTRL_OFF_HELLO :: nat where [layout_defs]: "CTRL_OFF_HELLO = 0x0000"
definition CTRL_OFF_HELLO_ACK :: nat where [layout_defs]: "CTRL_OFF_HELLO_ACK = 0x0040"
definition CTRL_OFF_DIRTY :: nat where [layout_defs]: "CTRL_OFF_DIRTY = 0x0100"
definition CTRL_OFF_PROCESSED :: nat where [layout_defs]: "CTRL_OFF_PROCESSED = 0x0200"
definition MAX_QUEUES_PER_SLOT :: nat where [layout_defs]: "MAX_QUEUES_PER_SLOT = BRISC_VIRTIO_MAX_QUEUES"
definition HELLO_MAGIC :: u32 where "HELLO_MAGIC = 0x4F4C4548"
definition HELLO_ACK_MAGIC :: u32 where "HELLO_ACK_MAGIC = 0x214B4341"

datatype ctrl_word =
    HELLO_OFF_PROTOCOL_VERSION | HELLO_OFF_MAGIC
  | HELLO_ACK_OFF_PROTOCOL_VERSION | HELLO_ACK_OFF_FIRMWARE_VERSION | HELLO_ACK_OFF_MAGIC
  | CTRL_OFF_ACTIVE_SLOTS | CTRL_OFF_ACTIVE_VIRTIO_SLOTS

fun ctrl_off :: "ctrl_word \<Rightarrow> nat" where
  "ctrl_off HELLO_OFF_PROTOCOL_VERSION = CTRL_OFF_HELLO + 0x00"
| "ctrl_off HELLO_OFF_MAGIC = CTRL_OFF_HELLO + 0x04"
| "ctrl_off HELLO_ACK_OFF_PROTOCOL_VERSION = CTRL_OFF_HELLO_ACK + 0x00"
| "ctrl_off HELLO_ACK_OFF_FIRMWARE_VERSION = CTRL_OFF_HELLO_ACK + 0x04"
| "ctrl_off HELLO_ACK_OFF_MAGIC = CTRL_OFF_HELLO_ACK + 0x08"
| "ctrl_off CTRL_OFF_ACTIVE_SLOTS = 0x00C0"
| "ctrl_off CTRL_OFF_ACTIVE_VIRTIO_SLOTS = 0x00C4"

text \<open>The emulated UARTs and their private blocks.\<close>

definition BRISC_UART_BASE :: nat where [layout_defs]: "BRISC_UART_BASE = 0x40000"
definition BRISC_UART_PER_L2CPU_STRIDE :: nat where [layout_defs]: "BRISC_UART_PER_L2CPU_STRIDE = 0x4000"
definition BRISC_UART_REG_FILE_SIZE :: nat where [layout_defs]: "BRISC_UART_REG_FILE_SIZE = 0x1000"
definition BRISC_UART_PRIVATE_BASE :: nat where [layout_defs]: "BRISC_UART_PRIVATE_BASE = 0x50000"
definition BRISC_UART_PRIVATE_PER_L2CPU :: nat where [layout_defs]: "BRISC_UART_PRIVATE_PER_L2CPU = 0x2000"
definition BRISC_UART_FEED_RING_ENTRIES :: u32 where "BRISC_UART_FEED_RING_ENTRIES = 1024"
definition BRISC_UART_FEED_RING_MASK :: u32 where
  "BRISC_UART_FEED_RING_MASK = BRISC_UART_FEED_RING_ENTRIES - 1"
definition UART_PRIV_OFF_FEED_RING :: nat where [layout_defs]: "UART_PRIV_OFF_FEED_RING = 0x40"
definition BRISC_TRISC0_GLOBAL_BASE :: nat where [layout_defs]: "BRISC_TRISC0_GLOBAL_BASE = 0x58000"
definition BRISC_UART_SLOT_OFFSET_IN_L2CPU :: nat where
  [layout_defs]: "BRISC_UART_SLOT_OFFSET_IN_L2CPU = 6"

datatype uart_reg =
    UART_REG_RBR_THR | UART_REG_IER_DLM | UART_REG_IIR_FCR | UART_REG_LCR
  | UART_REG_MCR | UART_REG_LSR | UART_REG_MSR | UART_REG_SCR

fun uart_off :: "uart_reg \<Rightarrow> nat" where
  "uart_off UART_REG_RBR_THR = 0x00"
| "uart_off UART_REG_IER_DLM = 0x04"
| "uart_off UART_REG_IIR_FCR = 0x08"
| "uart_off UART_REG_LCR = 0x0c"
| "uart_off UART_REG_MCR = 0x10"
| "uart_off UART_REG_LSR = 0x14"
| "uart_off UART_REG_MSR = 0x18"
| "uart_off UART_REG_SCR = 0x1c"

datatype uart_priv =
    UART_PRIV_OFF_HOLD | UART_PRIV_OFF_FEED_PRODUCER_SEQ | UART_PRIV_OFF_FEED_CONSUMER_SEQ
  | UART_PRIV_OFF_FEED_DROP_COUNT

fun uart_priv_off :: "uart_priv \<Rightarrow> nat" where
  "uart_priv_off UART_PRIV_OFF_HOLD = 0x00"
| "uart_priv_off UART_PRIV_OFF_FEED_PRODUCER_SEQ = 0x04"
| "uart_priv_off UART_PRIV_OFF_FEED_CONSUMER_SEQ = 0x08"
| "uart_priv_off UART_PRIV_OFF_FEED_DROP_COUNT = 0x0C"

definition brisc_uart_regs_base :: "nat \<Rightarrow> nat" where
  "brisc_uart_regs_base l2cpu_idx = BRISC_UART_BASE + l2cpu_idx * BRISC_UART_PER_L2CPU_STRIDE"

definition brisc_uart_private_base :: "nat \<Rightarrow> nat" where
  "brisc_uart_private_base l2cpu_idx = BRISC_UART_PRIVATE_BASE + l2cpu_idx * BRISC_UART_PRIVATE_PER_L2CPU"

definition brisc_uart_slot_for_l2cpu :: "nat \<Rightarrow> nat" where
  "brisc_uart_slot_for_l2cpu l2cpu_idx =
     l2cpu_idx * BRISC_VIRTIO_DEVS_PER_L2CPU + BRISC_UART_SLOT_OFFSET_IN_L2CPU"

definition BRISC_UART_SLOT_MASK :: u32 where
  "BRISC_UART_SLOT_MASK =
     push_bit (brisc_uart_slot_for_l2cpu 0) 1 OR push_bit (brisc_uart_slot_for_l2cpu 1) 1 OR
     push_bit (brisc_uart_slot_for_l2cpu 2) 1 OR push_bit (brisc_uart_slot_for_l2cpu 3) 1"

text \<open>The address functions of \<open>virtio.c\<close>.\<close>

definition reg_addr :: "nat \<Rightarrow> mmio_reg \<Rightarrow> nat" where
  "reg_addr slot r = BRISC_VIRTIO_REGS_BASE + slot * BRISC_VIRTIO_REGS_PER_DEV + mmio_off r"

definition shadow_addr :: "nat \<Rightarrow> nat \<Rightarrow> nat" where
  "shadow_addr slot off = SHADOW_BASE + slot * SHADOW_PER_DEVICE + off"

definition shadow_queue_addr :: "nat \<Rightarrow> nat \<Rightarrow> shadow_field \<Rightarrow> nat" where
  "shadow_queue_addr slot q f = shadow_addr slot (q * SHADOW_PER_QUEUE + shadow_q_off f)"

definition snap_addr :: "nat \<Rightarrow> snap_field \<Rightarrow> nat" where
  "snap_addr slot f = shadow_addr slot (SNAP_BASE_OFF + snap_off f)"

definition stat_addr :: "stat \<Rightarrow> nat" where
  "stat_addr f = BRISC_VIRTIO_STATS_BASE + stats_off f"

definition ctrl_addr :: "nat \<Rightarrow> nat" where
  "ctrl_addr off = CTRL_BASE + off"

definition uart_reg_addr :: "nat \<Rightarrow> uart_reg \<Rightarrow> nat" where
  "uart_reg_addr l2cpu_idx r = brisc_uart_regs_base l2cpu_idx + uart_off r"

definition uart_priv_addr :: "nat \<Rightarrow> uart_priv \<Rightarrow> nat" where
  "uart_priv_addr l2cpu_idx f = brisc_uart_private_base l2cpu_idx + uart_priv_off f"

definition feed_ring_addr :: "nat \<Rightarrow> nat \<Rightarrow> nat" where
  "feed_ring_addr l2cpu_idx i = brisc_uart_private_base l2cpu_idx + UART_PRIV_OFF_FEED_RING + i * 4"

lemmas addr_defs = layout_defs reg_addr_def shadow_addr_def shadow_queue_addr_def snap_addr_def
  stat_addr_def ctrl_addr_def brisc_uart_regs_base_def brisc_uart_private_base_def
  uart_reg_addr_def uart_priv_addr_def feed_ring_addr_def

section \<open>The words of the layout\<close>

text \<open>\<open>TENSIX_L1_SIZE\<close> of \<open>tensix.rs\<close>.\<close>

definition TENSIX_L1_SIZE :: nat where "TENSIX_L1_SIZE = 1536 * 1024"

datatype cell =
    Reg nat mmio_reg
  | Shadow nat nat shadow_field
  | Snap nat snap_field
  | Stat stat
  | Ctrl ctrl_word
  | Dirty nat nat
  | Processed nat nat
  | Uart nat uart_reg
  | Upriv nat uart_priv
  | Feed nat nat
  | Trisc0_Heartbeat

fun cell_addr :: "cell \<Rightarrow> nat" where
  "cell_addr (Reg slot r) = reg_addr slot r"
| "cell_addr (Shadow slot q f) = shadow_queue_addr slot q f"
| "cell_addr (Snap slot f) = snap_addr slot f"
| "cell_addr (Stat f) = stat_addr f"
| "cell_addr (Ctrl w) = ctrl_addr (ctrl_off w)"
| "cell_addr (Dirty slot q) = ctrl_addr (CTRL_OFF_DIRTY + slot * MAX_QUEUES_PER_SLOT + q)"
| "cell_addr (Processed slot q) =
     ctrl_addr (CTRL_OFF_PROCESSED + slot * MAX_QUEUES_PER_SLOT * 2 + q * 2)"
| "cell_addr (Uart i r) = uart_reg_addr i r"
| "cell_addr (Upriv i f) = uart_priv_addr i f"
| "cell_addr (Feed i k) = feed_ring_addr i k"
| "cell_addr Trisc0_Heartbeat = BRISC_TRISC0_GLOBAL_BASE"

fun cell_size :: "cell \<Rightarrow> nat" where
  "cell_size (Dirty _ _) = 1"
| "cell_size (Processed _ _) = 2"
| "cell_size _ = 4"

fun cell_ok :: "cell \<Rightarrow> bool" where
  "cell_ok (Reg slot r) \<longleftrightarrow> slot < 32"
| "cell_ok (Shadow slot q f) \<longleftrightarrow> slot < 32 \<and> q < 8"
| "cell_ok (Snap slot f) \<longleftrightarrow> slot < 32"
| "cell_ok (Dirty slot q) \<longleftrightarrow> slot < 32 \<and> q < 8"
| "cell_ok (Processed slot q) \<longleftrightarrow> slot < 32 \<and> q < 8"
| "cell_ok (Uart i r) \<longleftrightarrow> i < 4"
| "cell_ok (Upriv i f) \<longleftrightarrow> i < 4"
| "cell_ok (Feed i k) \<longleftrightarrow> i < 4 \<and> k < 1024"
| "cell_ok _ \<longleftrightarrow> True"

abbreviation cell_span :: "cell \<Rightarrow> nat \<times> nat" where
  "cell_span c \<equiv> (cell_addr c, cell_size c)"

lemma offs_disj:
  "r \<noteq> r' \<Longrightarrow> disj2 (mmio_off r, 4) (mmio_off r', 4)"
  "f \<noteq> f' \<Longrightarrow> disj2 (shadow_q_off f, 4) (shadow_q_off f', 4)"
  "n \<noteq> n' \<Longrightarrow> disj2 (snap_off n, 4) (snap_off n', 4)"
  "t \<noteq> t' \<Longrightarrow> disj2 (stats_off t, 4) (stats_off t', 4)"
  "w \<noteq> w' \<Longrightarrow> disj2 (ctrl_off w, 4) (ctrl_off w', 4)"
  "u \<noteq> u' \<Longrightarrow> disj2 (uart_off u, 4) (uart_off u', 4)"
  "p \<noteq> p' \<Longrightarrow> disj2 (uart_priv_off p, 4) (uart_priv_off p', 4)"
  subgoal by (cases r; cases r'; simp add: disj2_def)
  subgoal by (cases f; cases f'; simp add: disj2_def)
  subgoal by (cases n; cases n'; simp add: disj2_def)
  subgoal by (cases t; cases t'; simp add: disj2_def)
  subgoal by (cases w; cases w'; simp add: disj2_def layout_defs)
  subgoal by (cases u; cases u'; simp add: disj2_def)
  subgoal by (cases p; cases p'; simp add: disj2_def)
  done

lemma offs_bound:
  "mmio_off r \<le> 0x100" "shadow_q_off f \<le> 0x1c" "snap_off n \<le> 0x38" "stats_off t \<le> 0x54"
  "ctrl_off w \<le> 0xC4" "uart_off u \<le> 0x1c" "uart_priv_off p \<le> 0x0C"
  subgoal by (cases r) simp_all
  subgoal by (cases f) simp_all
  subgoal by (cases n) simp_all
  subgoal by (cases t) simp_all
  subgoal by (cases w) (simp_all add: layout_defs)
  subgoal by (cases u) simp_all
  subgoal by (cases p) simp_all
  done

text \<open>Entries of a table with a fixed stride.\<close>

lemma stride_disj:
  fixes k :: nat
  assumes "o1 + n1 \<le> k" "o2 + n2 \<le> k" and "s1 \<noteq> s2 \<or> disj2 (o1, n1) (o2, n2)"
  shows "disj2 (b + s1 * k + o1, n1) (b + s2 * k + o2, n2)"
proof (cases "s1 = s2")
  case True
  with assms(3) show ?thesis by (auto simp: disj2_def)
next
  case False
  then consider "Suc s1 \<le> s2" | "Suc s2 \<le> s1" by linarith
  then show ?thesis
  proof cases
    case 1
    then have "Suc s1 * k \<le> s2 * k" by (rule mult_le_mono1)
    then show ?thesis using assms(1) by (simp add: disj2_def)
  next
    case 2
    then have "Suc s2 * k \<le> s1 * k" by (rule mult_le_mono1)
    then show ?thesis using assms(2) by (simp add: disj2_def)
  qed
qed

text \<open>The region each kind of word lies in.\<close>

fun cell_region :: "cell \<Rightarrow> nat \<times> nat" where
  "cell_region (Reg _ _) = (0x10000, 0x20000)"
| "cell_region (Shadow _ _ _) = (0x30000, 0x8000)"
| "cell_region (Snap _ _) = (0x30000, 0x8000)"
| "cell_region (Stat _) = (0x4000, 0x1000)"
| "cell_region (Ctrl _) = (0x5000, 0x100)"
| "cell_region (Dirty _ _) = (0x5100, 0x100)"
| "cell_region (Processed _ _) = (0x5200, 0x200)"
| "cell_region (Uart _ _) = (0x40000, 0x10000)"
| "cell_region (Upriv _ _) = (0x50000, 0x8000)"
| "cell_region (Feed _ _) = (0x50000, 0x8000)"
| "cell_region Trisc0_Heartbeat = (0x58000, 4)"

lemma regions_disj:
  "cell_region a = cell_region b \<or> disj2 (cell_region a) (cell_region b)"
  by (cases a; cases b; simp add: disj2_def)

text \<open>Within a region every word is an entry of a table: stride, index and offset.\<close>

fun cell_entry :: "cell \<Rightarrow> nat \<times> nat \<times> nat" where
  "cell_entry (Reg s r) = (0x1000, s, mmio_off r)"
| "cell_entry (Shadow s q f) = (0x400, s, q * 0x40 + shadow_q_off f)"
| "cell_entry (Snap s n) = (0x400, s, 0x200 + snap_off n)"
| "cell_entry (Stat t) = (0x1000, 0, stats_off t)"
| "cell_entry (Ctrl w) = (0x1000, 0, ctrl_off w)"
| "cell_entry (Dirty s q) = (8, s, q)"
| "cell_entry (Processed s q) = (16, s, q * 2)"
| "cell_entry (Uart i r) = (0x4000, i, uart_off r)"
| "cell_entry (Upriv i f) = (0x2000, i, uart_priv_off f)"
| "cell_entry (Feed i k) = (0x2000, i, 0x40 + k * 4)"
| "cell_entry Trisc0_Heartbeat = (4, 0, 0)"

lemma cell_facts:
  assumes "cell_ok c"
  shows "cell_addr c = fst (cell_region c) + fst (snd (cell_entry c)) * fst (cell_entry c) + snd (snd (cell_entry c)) \<and>
    snd (snd (cell_entry c)) + cell_size c \<le> fst (cell_entry c) \<and>
    fst (cell_region c) \<le> cell_addr c \<and>
    cell_addr c + cell_size c \<le> fst (cell_region c) + snd (cell_region c)"
proof (cases c)
  case (Reg s r) with assms offs_bound(1) [of r] show ?thesis by (simp add: addr_defs)
next
  case (Shadow s q f) with assms offs_bound(2) [of f] show ?thesis by (simp add: addr_defs)
next
  case (Snap s n) with assms offs_bound(3) [of n] show ?thesis by (simp add: addr_defs)
next
  case (Stat t) with offs_bound(4) [of t] show ?thesis by (simp add: addr_defs)
next
  case (Ctrl w) with offs_bound(5) [of w] show ?thesis by (simp add: addr_defs)
next
  case (Dirty s q) with assms show ?thesis by (simp add: addr_defs)
next
  case (Processed s q) with assms show ?thesis by (simp add: addr_defs)
next
  case (Uart i r) with assms offs_bound(6) [of r] show ?thesis by (simp add: addr_defs)
next
  case (Upriv i f) with assms offs_bound(7) [of f] show ?thesis by (simp add: addr_defs)
next
  case (Feed i k) with assms show ?thesis by (simp add: addr_defs)
next
  case Trisc0_Heartbeat then show ?thesis by (simp add: addr_defs)
qed

lemma same_region_entries:
  assumes "cell_region a = cell_region b" and "a \<noteq> b" and "cell_ok a" "cell_ok b"
  shows "fst (cell_entry a) = fst (cell_entry b)"
    and "fst (snd (cell_entry a)) \<noteq> fst (snd (cell_entry b)) \<or>
      disj2 (snd (snd (cell_entry a)), cell_size a) (snd (snd (cell_entry b)), cell_size b)"
proof -
  show "fst (cell_entry a) = fst (cell_entry b)" using assms(1) by (cases a; cases b) simp_all
  have sh: "disj2 (q * 0x40 + shadow_q_off f, 4) (q' * 0x40 + shadow_q_off f', 4)"
    if "q \<noteq> q' \<or> f \<noteq> f'" for q q' :: nat and f f'
    using stride_disj [of "shadow_q_off f" 4 "0x40" "shadow_q_off f'" 4 q q' 0] offs_bound(2) [of f]
      offs_bound(2) [of f'] offs_disj(2) [of f f'] that by auto
  show "fst (snd (cell_entry a)) \<noteq> fst (snd (cell_entry b)) \<or>
      disj2 (snd (snd (cell_entry a)), cell_size a) (snd (snd (cell_entry b)), cell_size b)"
  proof (cases a)
    case (Reg s r) with assms offs_disj(1) show ?thesis by (cases b) auto
  next
    case a: (Shadow s q f)
    show ?thesis
    proof (cases b)
      case (Shadow s' q' f') with a assms sh [of q q' f f'] show ?thesis by auto
    next
      case (Snap s' n) with a assms offs_bound(2) [of f] show ?thesis by (simp add: disj2_def)
    qed (use a assms in simp_all)
  next
    case a: (Snap s n)
    show ?thesis
    proof (cases b)
      case (Shadow s' q f) with a assms offs_bound(2) [of f] show ?thesis by (simp add: disj2_def)
    next
      case (Snap s' n') with a assms offs_disj(3) [of n n'] show ?thesis by (auto simp: disj2_def)
    qed (use a assms in simp_all)
  next
    case (Stat t) with assms offs_disj(4) show ?thesis by (cases b) auto
  next
    case (Ctrl w) with assms offs_disj(5) show ?thesis by (cases b) auto
  next
    case (Dirty s q) with assms show ?thesis by (cases b) (auto simp: disj2_def)
  next
    case (Processed s q) with assms show ?thesis by (cases b) (auto simp: disj2_def)
  next
    case (Uart i r) with assms offs_disj(6) show ?thesis by (cases b) auto
  next
    case a: (Upriv i f)
    show ?thesis
    proof (cases b)
      case (Upriv i' f') with a assms offs_disj(7) show ?thesis by auto
    next
      case (Feed i' k) with a offs_bound(7) [of f] show ?thesis by (simp add: disj2_def)
    qed (use a assms in simp_all)
  next
    case a: (Feed i k)
    show ?thesis
    proof (cases b)
      case (Upriv i' f) with a offs_bound(7) [of f] show ?thesis by (simp add: disj2_def)
    next
      case (Feed i' k') with a assms show ?thesis by (auto simp: disj2_def)
    qed (use a assms in simp_all)
  next
    case Trisc0_Heartbeat with assms show ?thesis by (cases b) auto
  qed
qed

lemma cell_disj:
  assumes "cell_ok a" "cell_ok b" "a \<noteq> b"
  shows "disj2 (cell_span a) (cell_span b)"
proof (cases "cell_region a = cell_region b")
  case True
  note e = same_region_entries [OF True assms(3,1,2)]
  show ?thesis
    using stride_disj [OF _ _ e(2), of "fst (cell_entry b)" "fst (cell_region b)"]
      cell_facts [OF assms(1)] cell_facts [OF assms(2)] e(1) True by simp
next
  case False
  then have "disj2 (cell_region a) (cell_region b)" using regions_disj by blast
  with cell_facts [OF assms(1)] cell_facts [OF assms(2)] show ?thesis
    by (cases "cell_region a"; cases "cell_region b") (auto simp: disj2_def)
qed

text \<open>
  C21. No two words of the layout overlap: registers of the 32 slots, shadow and snapshot words,
  statistics, control words, dirty bytes, processed cursors, UART registers, private words and feed
  rings. All of them lie in the tile's L1, above the firmware's code.
\<close>

theorem l1_words_disjoint:
  assumes "cell_ok a" "cell_ok b"
  shows "(a \<noteq> b \<longrightarrow> disj2 (cell_addr a, cell_size a) (cell_addr b, cell_size b)) \<and>
    BRISC_VIRTIO_CODE_BASE + BRISC_VIRTIO_CODE_SIZE \<le> cell_addr a \<and>
    cell_addr a + cell_size a \<le> TENSIX_L1_SIZE"
proof -
  have "0x4000 \<le> fst (cell_region a) \<and> fst (cell_region a) + snd (cell_region a) \<le> TENSIX_L1_SIZE"
    by (cases a) (simp_all add: TENSIX_L1_SIZE_def)
  then show ?thesis
    using cell_disj [OF assms] cell_facts [OF assms(1)] by (auto simp: layout_defs)
qed

theorem l1_words_disjoint_witness:
  "disj2 (cell_addr (Reg 31 VIRTIO_MMIO_CONFIG), 4) (cell_addr (Shadow 0 0 SHADOW_Q_OFF_NUM), 4) \<and>
   disj2 (cell_addr (Dirty 31 7), 1) (cell_addr (Processed 0 0), 2)"
  using l1_words_disjoint [of "Reg 31 VIRTIO_MMIO_CONFIG" "Shadow 0 0 SHADOW_Q_OFF_NUM"]
    l1_words_disjoint [of "Dirty 31 7" "Processed 0 0"] by simp

section \<open>Words in memory\<close>

definition word :: "guest_mem \<Rightarrow> cell \<Rightarrow> u32" where
  "word m c = gm_u32 m (cell_addr c)"

definition put :: "cell \<Rightarrow> u32 \<Rightarrow> guest_mem \<Rightarrow> guest_mem" where
  "put c v m = gm_store (cell_addr c) (le_bytes 4 v) m"

definition dirty_byte :: "guest_mem \<Rightarrow> nat \<Rightarrow> nat \<Rightarrow> u8" where
  "dirty_byte m slot q = gm_bytes m (cell_addr (Dirty slot q))"

definition put_dirty :: "nat \<Rightarrow> nat \<Rightarrow> u8 \<Rightarrow> guest_mem \<Rightarrow> guest_mem" where
  "put_dirty slot q b m = gm_store (cell_addr (Dirty slot q)) [b] m"

definition processed_word :: "guest_mem \<Rightarrow> nat \<Rightarrow> nat \<Rightarrow> u16" where
  "processed_word m slot q = gm_u16 m (cell_addr (Processed slot q))"

declare cell_addr.simps [simp del]

lemma cell_load_store:
  assumes "cell_ok a" "cell_ok b" "length bs = cell_size a" "n = cell_size b"
  shows "gm_load (gm_store (cell_addr a) bs m) (cell_addr b) n =
    (if a = b then bs else gm_load m (cell_addr b) n)"
proof (cases "a = b")
  case True
  with assms(3,4) gm_load_store_same [of "cell_addr b" bs m] show ?thesis by simp
next
  case False
  with cell_disj [OF assms(1,2)] assms(3,4) show ?thesis
    by (auto simp: disj2_def intro!: gm_load_store_disjoint)
qed

lemma word_put:
  assumes "cell_ok a" "cell_ok b" "cell_size a = 4" "cell_size b = 4"
  shows "word (put a v m) b = (if a = b then v else word m b)"
  unfolding word_def put_def
  by (subst cell_load_store [OF assms(1,2)]) (simp_all add: assms of_le_bytes_le_bytes_full)

lemma word_put_dirty:
  assumes "slot < 32" "q < 8" "cell_ok b" "cell_size b = 4"
  shows "word (put_dirty slot q v m) b = word m b"
proof -
  have "Dirty slot q \<noteq> b" using assms(4) by auto
  then show ?thesis unfolding word_def put_dirty_def
    by (subst cell_load_store) (simp_all add: assms)
qed

lemma dirty_byte_load: "gm_load m (cell_addr (Dirty slot q)) 1 = [dirty_byte m slot q]"
  by (simp add: dirty_byte_def gm_load_def)

lemma dirty_put:
  assumes "cell_ok a" "cell_size a = 4" "slot < 32" "q < 8"
  shows "dirty_byte (put a v m) slot q = dirty_byte m slot q"
proof -
  have "a \<noteq> Dirty slot q" using assms(2) by auto
  then have "gm_load (put a v m) (cell_addr (Dirty slot q)) 1 = gm_load m (cell_addr (Dirty slot q)) 1"
    unfolding put_def by (subst cell_load_store) (simp_all add: assms)
  then show ?thesis by (simp only: dirty_byte_load list.inject)
qed

lemma dirty_put_dirty:
  assumes "slot < 32" "q < 8" "slot' < 32" "q' < 8"
  shows "dirty_byte (put_dirty slot q v m) slot' q' = (if slot' = slot \<and> q' = q then v else dirty_byte m slot' q')"
proof -
  have "gm_load (put_dirty slot q v m) (cell_addr (Dirty slot' q')) 1 =
      (if Dirty slot q = Dirty slot' q' then [v] else gm_load m (cell_addr (Dirty slot' q')) 1)"
    unfolding put_dirty_def by (subst cell_load_store) (simp_all add: assms)
  then show ?thesis unfolding dirty_byte_load by (auto split: if_splits)
qed

lemma put_size [simp]: "gm_size (put c v m) = gm_size m" "gm_size (put_dirty slot q b m) = gm_size m"
  by (simp_all add: put_def put_dirty_def)

text \<open>From addresses to words.\<close>

lemma word_fold:
  "gm_u32 m (reg_addr slot r) = word m (Reg slot r)"
  "gm_u32 m (shadow_queue_addr slot q f) = word m (Shadow slot q f)"
  "gm_u32 m (snap_addr slot n) = word m (Snap slot n)"
  "gm_u32 m (stat_addr t) = word m (Stat t)"
  "gm_u32 m (ctrl_addr (ctrl_off w)) = word m (Ctrl w)"
  "gm_u32 m (uart_reg_addr i u) = word m (Uart i u)"
  "gm_u32 m (uart_priv_addr i p) = word m (Upriv i p)"
  "gm_u32 m (feed_ring_addr i k) = word m (Feed i k)"
  by (simp_all add: word_def cell_addr.simps)

lemma put_fold:
  "gm_store (reg_addr slot r) (le_bytes 4 v) m = put (Reg slot r) v m"
  "gm_store (shadow_queue_addr slot q f) (le_bytes 4 v) m = put (Shadow slot q f) v m"
  "gm_store (snap_addr slot n) (le_bytes 4 v) m = put (Snap slot n) v m"
  "gm_store (stat_addr t) (le_bytes 4 v) m = put (Stat t) v m"
  "gm_store (ctrl_addr (ctrl_off w)) (le_bytes 4 v) m = put (Ctrl w) v m"
  "gm_store (uart_reg_addr i u) (le_bytes 4 v) m = put (Uart i u) v m"
  "gm_store (uart_priv_addr i p) (le_bytes 4 v) m = put (Upriv i p) v m"
  "gm_store (feed_ring_addr i k) (le_bytes 4 v) m = put (Feed i k) v m"
  by (simp_all add: put_def cell_addr.simps)

end
