(* ===== verification/Layout_Host.thy ===== *)
theory Layout_Host
  imports Layout
begin

text \<open>
  The daemon's copy of the layout (\<open>virtio_engine.rs\<close>, \<open>uart_engine.rs\<close>,
  \<open>tensix_proto.rs\<close>), its agreement with the firmware's, the slot numbering, and the TLB window
  through which an L2CPU reaches the register files (\<open>x280_tlb.rs\<close>, \<open>program_l2cpu_tlb\<close>).
\<close>

section \<open>Model\<close>

definition REGS_BASE :: nat where [layout_defs]: "REGS_BASE = 0x10000"
definition REGS_PER_DEV :: nat where [layout_defs]: "REGS_PER_DEV = 0x1000"
definition NUM_L2CPUS :: nat where [layout_defs]: "NUM_L2CPUS = 4"
definition DEVS_PER_L2CPU :: nat where [layout_defs]: "DEVS_PER_L2CPU = 8"
definition NUM_SLOTS :: nat where [layout_defs]: "NUM_SLOTS = NUM_L2CPUS * DEVS_PER_L2CPU"
definition PER_L2CPU_WINDOW_SIZE :: nat where
  [layout_defs]: "PER_L2CPU_WINDOW_SIZE = DEVS_PER_L2CPU * REGS_PER_DEV"

definition engine_slot :: "nat \<Rightarrow> nat \<Rightarrow> nat" where
  "engine_slot l2cpu_idx device_idx = l2cpu_idx * DEVS_PER_L2CPU + device_idx"

definition slot_regs_base :: "nat \<Rightarrow> nat" where
  "slot_regs_base slot = REGS_BASE + slot * REGS_PER_DEV"

definition l2cpu_window_base :: "nat \<Rightarrow> nat" where
  "l2cpu_window_base l2cpu_idx = REGS_BASE + l2cpu_idx * PER_L2CPU_WINDOW_SIZE"

text \<open>The offsets that the daemon declares, for the registers it shares with the firmware.\<close>

fun host_mmio_off :: "mmio_reg \<Rightarrow> nat" where
  "host_mmio_off VIRTIO_MMIO_MAGIC_VALUE = 0x000"
| "host_mmio_off VIRTIO_MMIO_VERSION = 0x004"
| "host_mmio_off VIRTIO_MMIO_DEVICE_ID = 0x008"
| "host_mmio_off VIRTIO_MMIO_VENDOR_ID = 0x00c"
| "host_mmio_off VIRTIO_MMIO_DEVICE_FEATURES = 0x010"
| "host_mmio_off VIRTIO_MMIO_DEVICE_FEATURES_SEL = 0x014"
| "host_mmio_off VIRTIO_MMIO_SW_IMPL = 0x018"
| "host_mmio_off VIRTIO_MMIO_SEL_GENERATION = 0x01c"
| "host_mmio_off VIRTIO_MMIO_DRIVER_FEATURES = 0x020"
| "host_mmio_off VIRTIO_MMIO_DRIVER_FEATURES_SEL = 0x024"
| "host_mmio_off VIRTIO_MMIO_QUEUE_SEL = 0x030"
| "host_mmio_off VIRTIO_MMIO_QUEUE_NUM_MAX = 0x034"
| "host_mmio_off VIRTIO_MMIO_QUEUE_NUM = 0x038"
| "host_mmio_off VIRTIO_MMIO_QUEUE_READY = 0x044"
| "host_mmio_off VIRTIO_MMIO_QUEUE_NOTIFY = 0x050"
| "host_mmio_off VIRTIO_MMIO_INTERRUPT_STATUS = 0x060"
| "host_mmio_off VIRTIO_MMIO_INTERRUPT_ACK = 0x064"
| "host_mmio_off VIRTIO_MMIO_STATUS = 0x070"
| "host_mmio_off VIRTIO_MMIO_QUEUE_DESC_LOW = 0x080"
| "host_mmio_off VIRTIO_MMIO_QUEUE_DESC_HIGH = 0x084"
| "host_mmio_off VIRTIO_MMIO_QUEUE_DRIVER_LOW = 0x090"
| "host_mmio_off VIRTIO_MMIO_QUEUE_DRIVER_HIGH = 0x094"
| "host_mmio_off VIRTIO_MMIO_QUEUE_DEVICE_LOW = 0x0a0"
| "host_mmio_off VIRTIO_MMIO_QUEUE_DEVICE_HIGH = 0x0a4"
| "host_mmio_off VIRTIO_MMIO_CONFIG_GENERATION = 0x0fc"
| "host_mmio_off VIRTIO_MMIO_CONFIG = 0x100"

fun host_stats_off :: "stat \<Rightarrow> nat" where
  "host_stats_off STATS_OFF_VERSION = 0x000"
| "host_stats_off STATS_OFF_MAGIC = 0x004"
| "host_stats_off STATS_OFF_HEARTBEAT = 0x008"
| "host_stats_off STATS_OFF_STATUS_CHANGES = 0x010"
| "host_stats_off STATS_OFF_SEL_CHANGES = 0x014"
| "host_stats_off STATS_OFF_NOTIFY_EVENTS = 0x018"
| "host_stats_off STATS_OFF_READY_EVENTS = 0x01c"
| "host_stats_off STATS_OFF_LAST_NOTIFY = 0x020"
| "host_stats_off STATS_OFF_SEL_READY_RACES = 0x024"
| "host_stats_off STATS_OFF_READY_CAPTURE_SEL_RACES = 0x028"
| "host_stats_off STATS_OFF_QUEUE_SETUPS = 0x02c"
| "host_stats_off STATS_OFF_QUEUE_TEARDOWNS = 0x030"
| "host_stats_off STATS_OFF_BRISC_OLD_SEL_RESCUE = 0x034"
| "host_stats_off STATS_OFF_DEV_FEAT_SEL_CHANGES = 0x038"
| "host_stats_off STATS_OFF_TRISC1_SEL_RACES = 0x03c"
| "host_stats_off STATS_OFF_MAX_SWEEP_CYCLES = 0x040"
| "host_stats_off STATS_OFF_MAX_STEADY_SWEEP_CYCLES = 0x044"
| "host_stats_off STATS_OFF_MAX_SEL_PATH_CYCLES = 0x048"
| "host_stats_off STATS_OFF_LAST_SWEEP_CYCLES = 0x04c"
| "host_stats_off STATS_OFF_MAX_TRISC1_REACTION_CYCLES = 0x050"
| "host_stats_off STATS_OFF_MAX_TRISC1_OUTER_CYCLES = 0x054"

fun host_shadow_q_off :: "shadow_field \<Rightarrow> nat" where
  "host_shadow_q_off SHADOW_Q_OFF_NUM = 0x00"
| "host_shadow_q_off SHADOW_Q_OFF_READY = 0x04"
| "host_shadow_q_off SHADOW_Q_OFF_DESC_LO = 0x08"
| "host_shadow_q_off SHADOW_Q_OFF_DESC_HI = 0x0c"
| "host_shadow_q_off SHADOW_Q_OFF_DRIVER_LO = 0x10"
| "host_shadow_q_off SHADOW_Q_OFF_DRIVER_HI = 0x14"
| "host_shadow_q_off SHADOW_Q_OFF_DEVICE_LO = 0x18"
| "host_shadow_q_off SHADOW_Q_OFF_DEVICE_HI = 0x1c"

definition host_shadow_queue_addr :: "nat \<Rightarrow> nat \<Rightarrow> shadow_field \<Rightarrow> nat" where
  "host_shadow_queue_addr slot queue_idx f = 0x30000 + slot * 0x400 + queue_idx * 0x40 + host_shadow_q_off f"

definition dirty_byte_addr :: "nat \<Rightarrow> nat \<Rightarrow> nat" where
  "dirty_byte_addr slot queue = 0x5000 + 0x0100 + slot * 8 + queue"

definition processed_cursor_addr :: "nat \<Rightarrow> nat \<Rightarrow> nat" where
  "processed_cursor_addr slot queue = 0x5000 + 0x0200 + slot * 8 * 2 + queue * 2"

fun host_ctrl_off :: "ctrl_word \<Rightarrow> nat" where
  "host_ctrl_off HELLO_OFF_PROTOCOL_VERSION = 0x0000 + 0x00"
| "host_ctrl_off HELLO_OFF_MAGIC = 0x0000 + 0x04"
| "host_ctrl_off HELLO_ACK_OFF_PROTOCOL_VERSION = 0x0040 + 0x00"
| "host_ctrl_off HELLO_ACK_OFF_FIRMWARE_VERSION = 0x0040 + 0x04"
| "host_ctrl_off HELLO_ACK_OFF_MAGIC = 0x0040 + 0x08"
| "host_ctrl_off CTRL_OFF_ACTIVE_SLOTS = 0x00C0"
| "host_ctrl_off CTRL_OFF_ACTIVE_VIRTIO_SLOTS = 0x00C4"

text \<open>Of the snapshots the daemon reads the one of the status register only.\<close>

definition host_snap_addr :: "nat \<Rightarrow> nat \<Rightarrow> nat" where
  "host_snap_addr slot off = 0x30000 + slot * 0x400 + 0x200 + off"

definition HOST_SNAP_OFF_STATUS :: nat where "HOST_SNAP_OFF_STATUS = 0x00"

text \<open>The UART side: slot numbers, the private block, and the physical address for the guest.\<close>

definition UART_SLOT_OFFSET_IN_L2CPU :: nat where [layout_defs]: "UART_SLOT_OFFSET_IN_L2CPU = 6"
definition UART_OFFSET_FROM_ENGINE_BASE :: nat where [layout_defs]: "UART_OFFSET_FROM_ENGINE_BASE = 0x30000"

definition slot_for_l2cpu :: "nat \<Rightarrow> nat" where
  "slot_for_l2cpu l2cpu_idx = l2cpu_idx * DEVS_PER_L2CPU + UART_SLOT_OFFSET_IN_L2CPU"

definition l2cpu_for_slot :: "nat \<Rightarrow> nat option" where
  "l2cpu_for_slot s =
     (if s mod DEVS_PER_L2CPU = UART_SLOT_OFFSET_IN_L2CPU \<and> s div DEVS_PER_L2CPU < NUM_L2CPUS
      then Some (s div DEVS_PER_L2CPU) else None)"

definition uart_private_base :: "nat \<Rightarrow> nat" where
  "uart_private_base l2cpu_idx = 0x50000 + l2cpu_idx * 0x2000"

fun host_uart_priv_off :: "uart_priv \<Rightarrow> nat" where
  "host_uart_priv_off UART_PRIV_OFF_HOLD = 0x00"
| "host_uart_priv_off UART_PRIV_OFF_FEED_PRODUCER_SEQ = 0x04"
| "host_uart_priv_off UART_PRIV_OFF_FEED_CONSUMER_SEQ = 0x08"
| "host_uart_priv_off UART_PRIV_OFF_FEED_DROP_COUNT = 0x0C"

definition feed_drop_count_addr :: "nat \<Rightarrow> nat" where
  "feed_drop_count_addr l2cpu_idx = uart_private_base l2cpu_idx + host_uart_priv_off UART_PRIV_OFF_FEED_DROP_COUNT"

definition trisc0_heartbeat_addr :: nat where
  "trisc0_heartbeat_addr = 0x58000 + 0x00"

definition uart_pa_from_engine_base :: "nat \<Rightarrow> nat" where
  "uart_pa_from_engine_base engine_base = engine_base + UART_OFFSET_FROM_ENGINE_BASE"

text \<open>
  \<open>program_small_tlb_unicast\<close>: the four configuration words that are written, as pairs of address
  and value, and the physical address that is returned.
\<close>

definition SMALL_TLB_CFG_BASE :: u64 where "SMALL_TLB_CFG_BASE = 0x20000000"
definition SMALL_TLB_CFG_STRIDE :: u64 where "SMALL_TLB_CFG_STRIDE = 16"
definition SMALL_TLB_COUNT :: nat where "SMALL_TLB_COUNT = 224"
definition SMALL_TLB_WINDOW_BASE_UC :: u64 where "SMALL_TLB_WINDOW_BASE_UC = 0x430000000"
definition SMALL_TLB_WINDOW_SHIFT :: nat where "SMALL_TLB_WINDOW_SHIFT = 21"
definition SMALL_TLB_WINDOW_SIZE :: u64 where "SMALL_TLB_WINDOW_SIZE = push_bit SMALL_TLB_WINDOW_SHIFT 1"

definition program_small_tlb_unicast ::
  "nat \<Rightarrow> u32 \<Rightarrow> u32 \<Rightarrow> u64 \<Rightarrow> ((u64 \<times> u32) list \<times> u64) option"
where
  "program_small_tlb_unicast idx target_x target_y noc_addr =
     (if \<not> idx < SMALL_TLB_COUNT then None
      else
        let cfg_base = SMALL_TLB_CFG_BASE + word_of_nat idx * SMALL_TLB_CFG_STRIDE;
            window_size_mask = SMALL_TLB_WINDOW_SIZE - 1;
            aligned_noc = noc_addr AND NOT window_size_mask;
            in_window_offset = noc_addr - aligned_noc;
            local_offset = drop_bit SMALL_TLB_WINDOW_SHIFT aligned_noc;
            props_lo = (target_x AND 0x3F) OR push_bit 6 (target_y AND 0x3F);
            props_hi = 0
        in Some ([(cfg_base, ucast local_offset), (cfg_base + 4, ucast (drop_bit 32 local_offset)),
                  (cfg_base + 8, props_lo), (cfg_base + 12, props_hi)],
                 SMALL_TLB_WINDOW_BASE_UC + word_of_nat idx * SMALL_TLB_WINDOW_SIZE + in_window_offset))"

definition SHARED_TLB_SLOT :: nat where "SHARED_TLB_SLOT = 0"

definition program_l2cpu_tlb :: "u32 \<Rightarrow> u32 \<Rightarrow> nat \<Rightarrow> ((u64 \<times> u32) list \<times> u64) option" where
  "program_l2cpu_tlb translated_x translated_y l2cpu_idx =
     program_small_tlb_unicast SHARED_TLB_SLOT translated_x translated_y
       (word_of_nat (l2cpu_window_base l2cpu_idx))"

section \<open>The two sides agree\<close>

text \<open>
  The address that the daemon's constants and address functions give for a word of the layout. For the
  snapshots other than the status, and for the registers of a UART, the daemon has none.
\<close>

fun host_cell_addr :: "cell \<Rightarrow> nat option" where
  "host_cell_addr (Reg slot r) = Some (slot_regs_base slot + host_mmio_off r)"
| "host_cell_addr (Shadow slot q f) = Some (host_shadow_queue_addr slot q f)"
| "host_cell_addr (Snap slot f) = (if f = SNAP_OFF_STATUS then Some (host_snap_addr slot HOST_SNAP_OFF_STATUS) else None)"
| "host_cell_addr (Stat f) = Some (0x4000 + host_stats_off f)"
| "host_cell_addr (Ctrl w) = Some (0x5000 + host_ctrl_off w)"
| "host_cell_addr (Dirty slot q) = Some (dirty_byte_addr slot q)"
| "host_cell_addr (Processed slot q) = Some (processed_cursor_addr slot q)"
| "host_cell_addr (Uart i r) = None"
| "host_cell_addr (Upriv i f) = Some (uart_private_base i + host_uart_priv_off f)"
| "host_cell_addr (Feed i k) = Some (uart_private_base i + 0x40 + k * 4)"
| "host_cell_addr Trisc0_Heartbeat = Some trisc0_heartbeat_addr"

lemma host_offsets:
  "host_mmio_off r = mmio_off r" "host_shadow_q_off f = shadow_q_off f" "host_stats_off t = stats_off t"
  "host_ctrl_off w = ctrl_off w" "host_uart_priv_off p = uart_priv_off p"
  by (cases r; simp; fail) (cases f; simp; fail | cases t; simp; fail | cases w; simp add: layout_defs; fail | cases p; simp; fail)+

text \<open>
  C31. The daemon and the firmware agree on the words they share. For every word of the layout for which the
  daemon's source has an address, that address is the firmware's: the registers of each slot, the shadow
  fields of each queue, the snapshot of each status register, the statistics, the control words, the
  dirty byte and the processed cursor of each queue, the private words and the feed ring of each UART and
  the heartbeat of TRISC0. The words without one are the other snapshots, which only the firmware uses,
  and the registers of the UARTs, which the daemon names to the guests by a physical address. The two
  sides also number the slots alike and place an L2CPU's window alike.
\<close>

theorem layouts_agree:
  "(case host_cell_addr c of
      Some a \<Rightarrow> a = cell_addr c
    | None \<Rightarrow> (\<exists>i r. c = Uart i r) \<or> (\<exists>slot f. c = Snap slot f \<and> f \<noteq> SNAP_OFF_STATUS)) \<and>
   feed_drop_count_addr i = cell_addr (Upriv i UART_PRIV_OFF_FEED_DROP_COUNT) \<and>
   engine_slot i d = brisc_virtio_slot i d \<and>
   l2cpu_window_base i = brisc_virtio_l2cpu_window_base i \<and>
   slot_for_l2cpu i = brisc_uart_slot_for_l2cpu i"
proof -
  note fs = addr_defs layout_defs slot_regs_base_def host_shadow_queue_addr_def dirty_byte_addr_def host_snap_addr_def
    HOST_SNAP_OFF_STATUS_def trisc0_heartbeat_addr_def feed_drop_count_addr_def processed_cursor_addr_def uart_private_base_def
    engine_slot_def brisc_virtio_slot_def l2cpu_window_base_def brisc_virtio_l2cpu_window_base_def slot_for_l2cpu_def
    brisc_uart_slot_for_l2cpu_def
  have "case host_cell_addr c of Some a \<Rightarrow> a = cell_addr c
      | None \<Rightarrow> (\<exists>i r. c = Uart i r) \<or> (\<exists>slot f. c = Snap slot f \<and> f \<noteq> SNAP_OFF_STATUS)"
    by (cases c) (simp_all add: host_offsets fs cell_addr.simps)
  then show ?thesis by (simp add: fs cell_addr.simps)
qed

section \<open>Slots\<close>

text \<open>
  The slot numbering. Device slots of different (L2CPU, device) pairs are different, a UART's
  slot is never a device's slot, and \<open>l2cpu_for_slot\<close> recognises exactly the UART slots and
  gives back their L2CPU.
\<close>

theorem slots_separate:
  "(i < 4 \<and> d < 8 \<and> i' < 4 \<and> d' < 8 \<longrightarrow> engine_slot i d = engine_slot i' d' \<longrightarrow> i = i' \<and> d = d') \<and>
   (i < 4 \<and> d < 6 \<longrightarrow> slot_for_l2cpu i' \<noteq> engine_slot i d) \<and>
   (l2cpu_for_slot s = Some i \<longleftrightarrow> i < 4 \<and> s = slot_for_l2cpu i)"
proof (intro conjI impI)
  assume "i < 4 \<and> d < 8 \<and> i' < 4 \<and> d' < 8" "engine_slot i d = engine_slot i' d'"
  then have "i * 8 + d = i' * 8 + d'" "d < 8" "d' < 8" by (simp_all add: engine_slot_def layout_defs)
  then show "i = i'" "d = d'" by presburger+
next
  assume "i < 4 \<and> d < 6"
  then show "slot_for_l2cpu i' \<noteq> engine_slot i d"
    unfolding slot_for_l2cpu_def engine_slot_def layout_defs by presburger
next
  show "l2cpu_for_slot s = Some i \<longleftrightarrow> i < 4 \<and> s = slot_for_l2cpu i"
    unfolding l2cpu_for_slot_def slot_for_l2cpu_def layout_defs
    by (auto split: if_splits) presburger+
qed

theorem slots_separate_witness:
  "engine_slot 1 0 = 8 \<and> slot_for_l2cpu 2 \<noteq> engine_slot 2 5 \<and> l2cpu_for_slot 22 = Some 2"
  using slots_separate [of 2 5 2 5 22] by (simp add: engine_slot_def slot_for_l2cpu_def layout_defs)

section \<open>The window of an L2CPU\<close>

text \<open>
  What the comment in \<open>program_small_tlb_unicast\<close> and the documentation it names say of the windows of an
  L2CPU: the configuration of window \<open>idx\<close> is four words; when the bits above the two coordinates are clear
  (unicast on NoC 0), an access to the window goes to the tile that the low bits of the third word name,
  at the programmed NoC address plus the offset in the window. \<open>xlate\<close> stands for that hardware: for the
  words of the configuration space and a physical address, the coordinates and the NoC address.
\<close>

definition tlb_cfg :: "nat \<Rightarrow> u64" where
  "tlb_cfg idx = 0x20000000 + 16 * word_of_nat idx"

definition small_tlb_hw :: "((u64 \<Rightarrow> u32) \<Rightarrow> u64 \<Rightarrow> u32 \<times> u32 \<times> u64) \<Rightarrow> bool" where
  "small_tlb_hw xlate \<longleftrightarrow>
     (\<forall>cfg idx off. idx < 224 \<longrightarrow> off < 2 ^ 21 \<longrightarrow> drop_bit 12 (cfg (tlb_cfg idx + 8)) = 0 \<longrightarrow> cfg (tlb_cfg idx + 12) = 0 \<longrightarrow>
        xlate cfg (0x430000000 + push_bit 21 (word_of_nat idx) + off) =
          (take_bit 6 (cfg (tlb_cfg idx + 8)), take_bit 6 (drop_bit 6 (cfg (tlb_cfg idx + 8))),
           push_bit 21 (ucast (cfg (tlb_cfg idx)) OR push_bit 32 (ucast (cfg (tlb_cfg idx + 4)))) + off))"

text \<open>The words after the daemon's writes.\<close>

definition write_regs :: "(u64 \<times> u32) list \<Rightarrow> (u64 \<Rightarrow> u32) \<Rightarrow> u64 \<Rightarrow> u32" where
  "write_regs ws regs = fold (\<lambda>(a, v) r. r(a := v)) ws regs"

lemma lt4: "(i :: nat) < 4 \<longleftrightarrow> i \<in> {0, 1, 2, 3}"
  by auto

lemma program_l2cpu_tlb_eq:
  assumes "i < 4"
  shows "program_l2cpu_tlb x y i =
    Some ([(0x20000000, 0), (0x20000004, 0), (0x20000008, (x AND 0x3F) OR push_bit 6 (y AND 0x3F)), (0x2000000C, 0)],
      SMALL_TLB_WINDOW_BASE_UC + word_of_nat (l2cpu_window_base i))"
  using assms unfolding lt4
  by (auto simp: program_l2cpu_tlb_def program_small_tlb_unicast_def SHARED_TLB_SLOT_def SMALL_TLB_COUNT_def
      SMALL_TLB_CFG_BASE_def SMALL_TLB_CFG_STRIDE_def SMALL_TLB_WINDOW_SIZE_def SMALL_TLB_WINDOW_SHIFT_def
      SMALL_TLB_WINDOW_BASE_UC_def l2cpu_window_base_def layout_defs)

lemma small_take_bit:
  fixes x :: "'a::len word"
  assumes "unat x < 2 ^ n"
  shows "take_bit n x = x"
  using assms by (metis take_bit_nat_eq_self unsigned_take_bit_eq word_unat_eq_iff)

lemma coordinate_bits:
  fixes x y :: u32
  assumes "x < 64" "y < 64"
  defines "v \<equiv> (x AND 0x3F) OR push_bit 6 (y AND 0x3F)"
  shows "take_bit 6 v = x" "take_bit 6 (drop_bit 6 v) = y" "drop_bit 12 v = 0"
proof -
  have m: "(0x3F :: u32) = mask 6" by (simp add: mask_eq_exp_minus_1)
  have t: "take_bit 6 x = x" "take_bit 6 y = y" using assms(1,2) by (simp_all add: small_take_bit word_less_nat_alt)
  have v: "v = take_bit 6 x OR push_bit 6 (take_bit 6 y)" by (simp add: v_def m take_bit_eq_mask)
  have "take_bit 6 v = take_bit 6 x" "take_bit 6 (drop_bit 6 v) = take_bit 6 y" "drop_bit 12 v = 0"
    unfolding v by (rule bit_word_eqI; auto simp: bit_simps)+
  then show "take_bit 6 v = x" "take_bit 6 (drop_bit 6 v) = y" "drop_bit 12 v = 0" by (simp_all add: t)
qed

lemma window_xlate:
  assumes "small_tlb_hw xlate" and "i < 4" and "program_l2cpu_tlb x y i = Some (cfg, pa)" and "x < 64" "y < 64" and "off < 2 ^ 21"
  shows "xlate (write_regs cfg regs) (SMALL_TLB_WINDOW_BASE_UC + off) = (x, y, off)"
proof -
  have cfg: "cfg = [(0x20000000, 0), (0x20000004, 0), (0x20000008, (x AND 0x3F) OR push_bit 6 (y AND 0x3F)), (0x2000000C, 0)]"
    using program_l2cpu_tlb_eq [OF assms(2), of x y] assms(3) by auto
  have "write_regs cfg regs (tlb_cfg 0) = 0" "write_regs cfg regs (tlb_cfg 0 + 4) = 0" "write_regs cfg regs (tlb_cfg 0 + 12) = 0"
    "write_regs cfg regs (tlb_cfg 0 + 8) = (x AND 0x3F) OR push_bit 6 (y AND 0x3F)"
    by (simp_all add: cfg write_regs_def tlb_cfg_def)
  then show ?thesis
    using assms(1) [unfolded small_tlb_hw_def, rule_format, of 0 off "write_regs cfg regs"] assms(6) coordinate_bits [OF assms(4,5)]
    by (simp add: SMALL_TLB_WINDOW_BASE_UC_def)
qed

lemma window_xlate_at:
  assumes "small_tlb_hw xlate" and "i < 4" and "program_l2cpu_tlb x y i = Some (cfg, pa)" and "x < 64" "y < 64"
    and "l2cpu_window_base i + off < 2 ^ 21"
  shows "xlate (write_regs cfg regs) (pa + word_of_nat off) = (x, y, word_of_nat (l2cpu_window_base i + off))"
proof -
  have pa: "pa = SMALL_TLB_WINDOW_BASE_UC + word_of_nat (l2cpu_window_base i)"
    using program_l2cpu_tlb_eq [OF assms(2), of x y] assms(3) by auto
  have "unat (word_of_nat (l2cpu_window_base i + off) :: u64) < 2 ^ 21"
    using assms(6) by (simp only: unsigned_of_nat take_bit_nat_def) simp
  then have lt: "(word_of_nat (l2cpu_window_base i + off) :: u64) < 2 ^ 21"
    by (simp add: word_less_nat_alt)
  have "pa + word_of_nat off = SMALL_TLB_WINDOW_BASE_UC + word_of_nat (l2cpu_window_base i + off)"
    by (simp add: pa)
  then show ?thesis using window_xlate [OF assms(1-5) lt] by metis
qed

text \<open>
  C32. After program_l2cpu_tlb the guest reaches register file d of its own L2CPU, on the tile whose
  coordinates were programmed, at offset 4096 * d of the returned address, whatever the configuration
  space held before.
\<close>

theorem l2cpu_window_maps_registers:
  assumes "small_tlb_hw xlate" and "i < 4" and "program_l2cpu_tlb x y i = Some (cfg, pa)" and "x < 64" "y < 64"
    and "d < 8" and "off < REGS_PER_DEV"
  shows "xlate (write_regs cfg regs) (pa + word_of_nat (d * REGS_PER_DEV + off)) =
    (x, y, word_of_nat (slot_regs_base (engine_slot i d) + off))"
proof -
  have "l2cpu_window_base i + (d * REGS_PER_DEV + off) < 2 ^ 21"
    using assms(2,6,7) by (simp add: l2cpu_window_base_def layout_defs)
  moreover have "l2cpu_window_base i + (d * REGS_PER_DEV + off) = slot_regs_base (engine_slot i d) + off"
    by (simp add: l2cpu_window_base_def slot_regs_base_def engine_slot_def layout_defs)
  ultimately show ?thesis using window_xlate_at [OF assms(1-5)] by metis
qed

text \<open>A hardware that behaves as documented.\<close>

definition demo_xlate :: "(u64 \<Rightarrow> u32) \<Rightarrow> u64 \<Rightarrow> u32 \<times> u32 \<times> u64" where
  "demo_xlate cfg pa =
     (let w = pa - 0x430000000; c = 0x20000000 + 16 * drop_bit 21 w
      in (take_bit 6 (cfg (c + 8)), take_bit 6 (drop_bit 6 (cfg (c + 8))),
          push_bit 21 (ucast (cfg c) OR push_bit 32 (ucast (cfg (c + 4)))) + take_bit 21 w))"

lemma demo_xlate_hw: "small_tlb_hw demo_xlate"
  unfolding small_tlb_hw_def
proof (intro allI impI)
  fix cfg :: "u64 \<Rightarrow> u32" and idx :: nat and off :: u64
  assume "idx < 224" and o: "off < 2 ^ 21"
  then have i: "(word_of_nat idx :: u64) < 2 ^ 43" by (simp add: word_less_nat_alt unsigned_of_nat take_bit_nat_def)
  have t: "take_bit 21 off = off" "take_bit 43 (word_of_nat idx :: u64) = word_of_nat idx"
    using o i by (simp_all add: small_take_bit word_less_nat_alt)
  have "push_bit 21 (word_of_nat idx) + off = push_bit 21 (word_of_nat idx) OR off"
    by (rule disjunctive_add) (metis bit_push_bit_iff bit_take_bit_iff not_le t(1))
  then have w: "push_bit 21 (word_of_nat idx) + off = push_bit 21 (take_bit 43 (word_of_nat idx)) OR take_bit 21 off" by (simp add: t)
  have "drop_bit 21 (push_bit 21 (word_of_nat idx) + off) = (word_of_nat idx :: u64)"
    "take_bit 21 (push_bit 21 (word_of_nat idx) + off) = off"
    unfolding w by (subst t [symmetric], rule bit_word_eqI, auto simp: bit_simps)+
  then show "demo_xlate cfg (0x430000000 + push_bit 21 (word_of_nat idx) + off) =
      (take_bit 6 (cfg (tlb_cfg idx + 8)), take_bit 6 (drop_bit 6 (cfg (tlb_cfg idx + 8))),
       push_bit 21 (ucast (cfg (tlb_cfg idx)) OR push_bit 32 (ucast (cfg (tlb_cfg idx + 4)))) + off)"
    by (simp add: demo_xlate_def Let_def tlb_cfg_def add.assoc)
qed

theorem l2cpu_window_maps_registers_witness:
  "\<exists>cfg pa. program_l2cpu_tlb 5 9 2 = Some (cfg, pa) \<and>
     demo_xlate (write_regs cfg (\<lambda>_. 7)) (pa + word_of_nat (1 * REGS_PER_DEV + 0x70)) = (5, 9, 0x21070)"
proof -
  obtain cfg pa where run: "program_l2cpu_tlb 5 9 2 = Some (cfg, pa)"
    using program_l2cpu_tlb_eq [of 2 5 9] by auto
  from l2cpu_window_maps_registers [OF demo_xlate_hw _ this, of 1 "0x70"] run
  show ?thesis by (auto simp: slot_regs_base_def engine_slot_def layout_defs)
qed

text \<open>
  The window is wider than the L2CPU's registers: through it a guest reaches every byte of the
  tile's L1, the firmware's code and the register files of the other L2CPUs included.
\<close>

theorem l2cpu_window_reaches_all_of_l1:
  assumes "small_tlb_hw xlate" and "i < 4" and "program_l2cpu_tlb x y i = Some (cfg, pa)" and "x < 64" "y < 64"
    and "a < TENSIX_L1_SIZE"
  shows "xlate (write_regs cfg regs) (SMALL_TLB_WINDOW_BASE_UC + word_of_nat a) = (x, y, word_of_nat a)"
proof -
  have "unat (word_of_nat a :: u64) < 2 ^ 21"
    using assms(6) by (simp add: TENSIX_L1_SIZE_def unsigned_of_nat take_bit_nat_def)
  then show ?thesis using window_xlate [OF assms(1-5)] by (simp add: word_less_nat_alt)
qed

theorem l2cpu_window_reaches_all_of_l1_witness:
  "\<exists>cfg pa. program_l2cpu_tlb 5 9 2 = Some (cfg, pa) \<and>
     demo_xlate (write_regs cfg (\<lambda>_. 7)) (SMALL_TLB_WINDOW_BASE_UC + word_of_nat (reg_addr 0 VIRTIO_MMIO_STATUS)) = (5, 9, 0x10070)"
proof -
  obtain cfg pa where run: "program_l2cpu_tlb 5 9 2 = Some (cfg, pa)"
    using program_l2cpu_tlb_eq [of 2 5 9] by auto
  from l2cpu_window_reaches_all_of_l1 [OF demo_xlate_hw _ this, of "reg_addr 0 VIRTIO_MMIO_STATUS"] run
  show ?thesis by (auto simp: TENSIX_L1_SIZE_def addr_defs)
qed

text \<open>
  The physical address that the daemon computes for the UART of L2CPU \<open>i\<close> reaches L1 address
  0x40000 + 0x8000 * i. The firmware polls the UART of L2CPU \<open>i\<close> at 0x40000 + 0x4000 * i. The two
  meet for L2CPU 0 only: the address of L2CPU 1 is the UART of L2CPU 2, and the address of L2CPU 2 is
  the hold counter of the UART of L2CPU 0.
\<close>

theorem uart_address_mismatch:
  assumes "small_tlb_hw xlate" and "i < 4" and "program_l2cpu_tlb x y i = Some (cfg, pa)" and "x < 64" "y < 64"
  shows "xlate (write_regs cfg regs) (pa + word_of_nat UART_OFFSET_FROM_ENGINE_BASE) = (x, y, word_of_nat (0x40000 + i * 0x8000)) \<and>
    (0x40000 + i * 0x8000 = brisc_uart_regs_base i \<longleftrightarrow> i = 0) \<and>
    (i = 1 \<longrightarrow> 0x40000 + i * 0x8000 = uart_reg_addr 2 UART_REG_RBR_THR) \<and>
    (i = 2 \<longrightarrow> 0x40000 + i * 0x8000 = uart_priv_addr 0 UART_PRIV_OFF_HOLD)"
proof -
  have "l2cpu_window_base i + UART_OFFSET_FROM_ENGINE_BASE < 2 ^ 21"
    "l2cpu_window_base i + UART_OFFSET_FROM_ENGINE_BASE = 0x40000 + i * 0x8000"
    using assms(2) by (simp_all add: l2cpu_window_base_def layout_defs)
  with window_xlate_at [OF assms]
  have "xlate (write_regs cfg regs) (pa + word_of_nat UART_OFFSET_FROM_ENGINE_BASE) = (x, y, word_of_nat (0x40000 + i * 0x8000))"
    by metis
  then show ?thesis by (simp add: addr_defs)
qed

theorem uart_address_mismatch_witness:
  "\<exists>cfg pa. program_l2cpu_tlb 5 9 1 = Some (cfg, pa) \<and>
     demo_xlate (write_regs cfg (\<lambda>_. 7)) (pa + word_of_nat UART_OFFSET_FROM_ENGINE_BASE) =
       (5, 9, word_of_nat (uart_reg_addr 2 UART_REG_RBR_THR))"
proof -
  obtain cfg pa where run: "program_l2cpu_tlb 5 9 1 = Some (cfg, pa)"
    using program_l2cpu_tlb_eq [of 1 5 9] by auto
  from uart_address_mismatch [OF demo_xlate_hw _ this] run show ?thesis by auto
qed

end
