(* ===== verification/Firmware.thy ===== *)
theory Firmware
  imports Layout "HOL-Library.State_Monad"
begin

text \<open>
  The firmware of the engine tile, \<open>src/brisc-firmware/virtio.c\<close>: the poll loop of BRISC with its
  trigger handlers, and the watch loops of TRISC1 and TRISC2 (TRISC0's UART loop is in
  \<open>Uart_Feed\<close>). The functions are written in the state monad, one definition per C function.

  L1 is shared with the guests, so every access of the firmware is a point where stores of a guest
  may land: \<open>arrivals\<close> lists, for each of the next accesses, the stores that arrive just before it.
  No more arrivals means that the guests are quiet. L1 itself is sequentially consistent in the
  model: \<open>fence w, w\<close> and the load-backs that force a bank to commit have no effect here. The cycle
  counter is a list of readings.
\<close>

section \<open>Model\<close>

record fw =
  l1 :: guest_mem
  arrivals :: "(nat \<times> u32) list list"
  mcycle :: "u32 list"
  soft_reset :: u32
  init_device_fired_this_iter :: bool
  trisc_running :: "nat \<Rightarrow> bool"

type_synonym 'a fwm = "(fw, 'a) state"

definition arrive :: "fw \<Rightarrow> fw" where
  "arrive s =
     (case arrivals s of
        [] \<Rightarrow> s
      | ws # rest \<Rightarrow>
          s\<lparr>l1 := fold (\<lambda>(a, v) m. gm_store a (le_bytes 4 v) m) ws (l1 s), arrivals := rest\<rparr>)"

definition read_u32 :: "nat \<Rightarrow> u32 fwm" where
  "read_u32 a = State (\<lambda>s. let s1 = arrive s in (gm_u32 (l1 s1) a, s1))"

definition write_u32 :: "nat \<Rightarrow> u32 \<Rightarrow> unit fwm" where
  "write_u32 a v = State (\<lambda>s. let s1 = arrive s in ((), s1\<lparr>l1 := gm_store a (le_bytes 4 v) (l1 s1)\<rparr>))"

definition write_u8 :: "nat \<Rightarrow> u8 \<Rightarrow> unit fwm" where
  "write_u8 a v = State (\<lambda>s. let s1 = arrive s in ((), s1\<lparr>l1 := gm_store a [v] (l1 s1)\<rparr>))"

definition mcycle_low :: "u32 fwm" where
  "mcycle_low =
     State (\<lambda>s. case mcycle s of [] \<Rightarrow> (0, s) | t # ts \<Rightarrow> (t, s\<lparr>mcycle := ts\<rparr>))"

definition skip :: "unit fwm" where
  "skip = State_Monad.return ()"

definition when_m :: "bool \<Rightarrow> unit fwm \<Rightarrow> unit fwm" where
  "when_m b f = (if b then f else skip)"

fun for_each :: "('x \<Rightarrow> unit fwm) \<Rightarrow> 'x list \<Rightarrow> unit fwm" where
  "for_each f [] = skip"
| "for_each f (x # xs) = do { f x; for_each f xs }"

definition update_max_u32 :: "nat \<Rightarrow> u32 \<Rightarrow> unit fwm" where
  "update_max_u32 a v = do { cur \<leftarrow> read_u32 a; when_m (cur < v) (write_u32 a v) }"

definition inc_stat :: "stat \<Rightarrow> unit fwm" where
  "inc_stat t = do { n \<leftarrow> read_u32 (stat_addr t); write_u32 (stat_addr t) (n + 1) }"

text \<open>The device templates; slots 6 and 7 of an L2CPU are the zeroed padding.\<close>

record device_init =
  device_id_init :: u32
  num_queues_init :: u32
  dev_feat_low :: u32
  dev_feat_high :: u32

definition VIRTIO_F_VERSION_1_HIGH_BIT :: u32 where "VIRTIO_F_VERSION_1_HIGH_BIT = 1"
definition VIRTIO_NET_F_MAC_BIT :: u32 where "VIRTIO_NET_F_MAC_BIT = push_bit 5 1"

definition DEVICE_TEMPLATE :: "nat \<Rightarrow> device_init" where
  "DEVICE_TEMPLATE d =
     (if d = 0 \<or> d = 4 \<or> d = 5 then
        \<lparr>device_id_init = 2, num_queues_init = 1, dev_feat_low = 0, dev_feat_high = VIRTIO_F_VERSION_1_HIGH_BIT\<rparr>
      else if d = 1 then
        \<lparr>device_id_init = 1, num_queues_init = 2, dev_feat_low = VIRTIO_NET_F_MAC_BIT,
         dev_feat_high = VIRTIO_F_VERSION_1_HIGH_BIT\<rparr>
      else if d = 2 then
        \<lparr>device_id_init = 3, num_queues_init = 2, dev_feat_low = 0, dev_feat_high = VIRTIO_F_VERSION_1_HIGH_BIT\<rparr>
      else if d = 3 then
        \<lparr>device_id_init = 4, num_queues_init = 1, dev_feat_low = 0, dev_feat_high = VIRTIO_F_VERSION_1_HIGH_BIT\<rparr>
      else \<lparr>device_id_init = 0, num_queues_init = 0, dev_feat_low = 0, dev_feat_high = 0\<rparr>)"

definition device_for_slot :: "nat \<Rightarrow> device_init" where
  "device_for_slot slot = DEVICE_TEMPLATE (slot mod BRISC_VIRTIO_DEVS_PER_L2CPU)"

text \<open>A loop over the word offsets below \<open>size_bytes\<close>.\<close>

definition zero_region :: "nat \<Rightarrow> nat \<Rightarrow> unit fwm" where
  "zero_region base size_bytes = for_each (\<lambda>k. write_u32 (base + 4 * k) 0) [0..<(size_bytes + 3) div 4]"

definition init_device :: "nat \<Rightarrow> unit fwm" where
  "init_device slot = do {
     let d = device_for_slot slot;
     zero_region (reg_addr slot VIRTIO_MMIO_MAGIC_VALUE) (mmio_off VIRTIO_MMIO_STATUS);
     zero_region (reg_addr slot VIRTIO_MMIO_STATUS + 4)
       (mmio_off VIRTIO_MMIO_CONFIG - (mmio_off VIRTIO_MMIO_STATUS + 4));
     zero_region (shadow_addr slot 0) SHADOW_PER_DEVICE;
     write_u32 (reg_addr slot VIRTIO_MMIO_MAGIC_VALUE) VIRTIO_MMIO_MAGIC;
     write_u32 (reg_addr slot VIRTIO_MMIO_VERSION) VIRTIO_MMIO_VERSION_2;
     write_u32 (reg_addr slot VIRTIO_MMIO_DEVICE_ID) (device_id_init d);
     write_u32 (reg_addr slot VIRTIO_MMIO_VENDOR_ID) BRISC_VENDOR_ID;
     write_u32 (reg_addr slot VIRTIO_MMIO_QUEUE_NUM_MAX) BRISC_VIRTIO_QUEUE_NUM_MAX;
     write_u32 (reg_addr slot VIRTIO_MMIO_DEVICE_FEATURES) (dev_feat_low d OR dev_feat_high d);
     write_u32 (reg_addr slot VIRTIO_MMIO_QUEUE_NOTIFY) 0xFFFFFFFF;
     write_u32 (reg_addr slot VIRTIO_MMIO_SW_IMPL) 1;
     for_each (\<lambda>q. do {
         write_u32 (shadow_queue_addr slot q SHADOW_Q_OFF_NUM) 0;
         write_u32 (shadow_queue_addr slot q SHADOW_Q_OFF_READY) 0 })
       [0..<unat (num_queues_init d)]
   }"

definition BRISC_VIRTIO_FW_VERSION :: "u32 \<Rightarrow> u32" where
  "BRISC_VIRTIO_FW_VERSION build_id = push_bit 8 build_id OR (TENSIX_PROTOCOL_VERSION AND 0xFF)"

definition init_stats :: "u32 \<Rightarrow> unit fwm" where
  "init_stats build_id = do {
     zero_region BRISC_VIRTIO_STATS_BASE BRISC_VIRTIO_STATS_SIZE;
     write_u32 (stat_addr STATS_OFF_VERSION) (BRISC_VIRTIO_FW_VERSION build_id);
     write_u32 (stat_addr STATS_OFF_MAGIC) STATS_MAGIC_LOADED
   }"

text \<open>The seven setup registers of a queue and their places in the shadow.\<close>

definition FIELDS :: "(mmio_reg \<times> shadow_field) list" where
  "FIELDS =
     [(VIRTIO_MMIO_QUEUE_NUM, SHADOW_Q_OFF_NUM),
      (VIRTIO_MMIO_QUEUE_DESC_LOW, SHADOW_Q_OFF_DESC_LO),
      (VIRTIO_MMIO_QUEUE_DESC_HIGH, SHADOW_Q_OFF_DESC_HI),
      (VIRTIO_MMIO_QUEUE_DRIVER_LOW, SHADOW_Q_OFF_DRIVER_LO),
      (VIRTIO_MMIO_QUEUE_DRIVER_HIGH, SHADOW_Q_OFF_DRIVER_HI),
      (VIRTIO_MMIO_QUEUE_DEVICE_LOW, SHADOW_Q_OFF_DEVICE_LO),
      (VIRTIO_MMIO_QUEUE_DEVICE_HIGH, SHADOW_Q_OFF_DEVICE_HI)]"

fun read_fields :: "nat \<Rightarrow> (mmio_reg \<times> shadow_field) list \<Rightarrow> u32 list fwm" where
  "read_fields slot [] = State_Monad.return []"
| "read_fields slot ((r, f) # fs) = do {
     v \<leftarrow> read_u32 (reg_addr slot r);
     vs \<leftarrow> read_fields slot fs;
     State_Monad.return (v # vs) }"

definition write_fields :: "nat \<Rightarrow> nat \<Rightarrow> u32 list \<Rightarrow> unit fwm" where
  "write_fields slot q vs =
     for_each (\<lambda>((r, f), v). write_u32 (shadow_queue_addr slot q f) v) (zip FIELDS vs)"

text \<open>\<open>handle_queue_sel_change\<close>: the timed clear of QUEUE_READY, the rescue of the old queue, the swap.\<close>

definition clear_queue_ready :: "nat \<Rightarrow> u32 fwm" where
  "clear_queue_ready slot = do {
     t0 \<leftarrow> mcycle_low;
     prev_ready \<leftarrow> read_u32 (reg_addr slot VIRTIO_MMIO_QUEUE_READY);
     write_u32 (reg_addr slot VIRTIO_MMIO_QUEUE_READY) 0;
     t1 \<leftarrow> mcycle_low;
     update_max_u32 (stat_addr STATS_OFF_MAX_SEL_PATH_CYCLES) (t1 - t0);
     State_Monad.return prev_ready
   }"

definition rescue_old_sel :: "nat \<Rightarrow> u32 \<Rightarrow> u32 \<Rightarrow> unit fwm" where
  "rescue_old_sel slot old_sel sel =
     when_m (unat old_sel < BRISC_VIRTIO_MAX_QUEUES) (do {
       shadow_ready \<leftarrow> read_u32 (shadow_queue_addr slot (unat old_sel) SHADOW_Q_OFF_READY);
       when_m (shadow_ready = 0) (do {
         cap \<leftarrow> read_fields slot FIELDS;
         sel_post \<leftarrow> read_u32 (reg_addr slot VIRTIO_MMIO_QUEUE_SEL);
         when_m (sel_post = sel \<and> cap ! 0 \<noteq> 0) (do {
           write_fields slot (unat old_sel) cap;
           write_u32 (shadow_queue_addr slot (unat old_sel) SHADOW_Q_OFF_READY) 1;
           inc_stat STATS_OFF_BRISC_OLD_SEL_RESCUE }) }) })"

definition swap_queue_regs :: "nat \<Rightarrow> u32 \<Rightarrow> unit fwm" where
  "swap_queue_regs slot sel = do {
     num \<leftarrow> read_u32 (shadow_queue_addr slot (unat sel) SHADOW_Q_OFF_NUM);
     let num_max = (if sel < num_queues_init (device_for_slot slot) then BRISC_VIRTIO_QUEUE_NUM_MAX else 0);
     write_u32 (reg_addr slot VIRTIO_MMIO_QUEUE_NUM_MAX) num_max;
     write_u32 (reg_addr slot VIRTIO_MMIO_QUEUE_NUM) num
   }"

definition handle_queue_sel_change :: "nat \<Rightarrow> u32 \<Rightarrow> u32 \<Rightarrow> unit fwm" where
  "handle_queue_sel_change slot old_sel sel =
     (if BRISC_VIRTIO_MAX_QUEUES \<le> unat sel then skip
      else do {
        prev_ready \<leftarrow> clear_queue_ready slot;
        rescue_old_sel slot old_sel sel;
        swap_queue_regs slot sel;
        when_m (prev_ready \<noteq> 0) (inc_stat STATS_OFF_SEL_READY_RACES);
        inc_stat STATS_OFF_SEL_CHANGES
      })"

definition handle_queue_ready_change :: "nat \<Rightarrow> u32 \<Rightarrow> u32 \<Rightarrow> unit fwm" where
  "handle_queue_ready_change slot sel ready =
     (if BRISC_VIRTIO_MAX_QUEUES \<le> unat sel then skip
      else do {
        when_m (ready \<noteq> 0) (do {
          cap \<leftarrow> read_fields slot FIELDS;
          sel_post \<leftarrow> read_u32 (reg_addr slot VIRTIO_MMIO_QUEUE_SEL);
          (if sel_post = sel
           then do { write_fields slot (unat sel) cap; inc_stat STATS_OFF_QUEUE_SETUPS }
           else inc_stat STATS_OFF_READY_CAPTURE_SEL_RACES) });
        write_u32 (shadow_queue_addr slot (unat sel) SHADOW_Q_OFF_READY) ready;
        when_m (ready = 0) (do {
          write_fields slot (unat sel) (replicate 7 0);
          inc_stat STATS_OFF_QUEUE_TEARDOWNS });
        inc_stat STATS_OFF_READY_EVENTS
      })"

definition handle_queue_notify :: "nat \<Rightarrow> u32 \<Rightarrow> unit fwm" where
  "handle_queue_notify slot q = do {
     write_u32 (stat_addr STATS_OFF_LAST_NOTIFY) (push_bit 16 (word_of_nat slot) OR (q AND 0xFFFF));
     when_m (unat q < MAX_QUEUES_PER_SLOT)
       (write_u8 (ctrl_addr (CTRL_OFF_DIRTY + slot * MAX_QUEUES_PER_SLOT + unat q)) 1);
     inc_stat STATS_OFF_NOTIFY_EVENTS
   }"

definition set_init_fired :: "bool \<Rightarrow> unit fwm" where
  "set_init_fired b = State (\<lambda>s. ((), s\<lparr>init_device_fired_this_iter := b\<rparr>))"

definition handle_status_change :: "nat \<Rightarrow> u32 \<Rightarrow> unit fwm" where
  "handle_status_change slot status = do {
     when_m (status = 0) (do { init_device slot; set_init_fired True });
     inc_stat STATS_OFF_STATUS_CHANGES
   }"

text \<open>\<open>poll_one_device\<close>, one definition per trigger register.\<close>

definition poll_status :: "nat \<Rightarrow> unit fwm" where
  "poll_status slot = do {
     status \<leftarrow> read_u32 (reg_addr slot VIRTIO_MMIO_STATUS);
     status_prev \<leftarrow> read_u32 (snap_addr slot SNAP_OFF_STATUS);
     when_m (status \<noteq> status_prev) (do {
       handle_status_change slot status;
       write_u32 (snap_addr slot SNAP_OFF_STATUS) status })
   }"

definition poll_queue_sel :: "nat \<Rightarrow> u32 fwm" where
  "poll_queue_sel slot = do {
     sel \<leftarrow> read_u32 (reg_addr slot VIRTIO_MMIO_QUEUE_SEL);
     sel_prev \<leftarrow> read_u32 (snap_addr slot SNAP_OFF_QUEUE_SEL);
     when_m (sel \<noteq> sel_prev) (do {
       handle_queue_sel_change slot sel_prev sel;
       write_u32 (snap_addr slot SNAP_OFF_QUEUE_SEL) sel });
     State_Monad.return sel
   }"

definition poll_queue_ready :: "nat \<Rightarrow> u32 \<Rightarrow> unit fwm" where
  "poll_queue_ready slot sel = do {
     ready \<leftarrow> read_u32 (reg_addr slot VIRTIO_MMIO_QUEUE_READY);
     when_m (ready \<noteq> 0) (do {
       handle_queue_ready_change slot sel ready;
       write_u32 (reg_addr slot VIRTIO_MMIO_QUEUE_READY) 0 })
   }"

definition poll_queue_notify :: "nat \<Rightarrow> unit fwm" where
  "poll_queue_notify slot = do {
     notify \<leftarrow> read_u32 (reg_addr slot VIRTIO_MMIO_QUEUE_NOTIFY);
     when_m (notify \<noteq> 0xFFFFFFFF) (do {
       handle_queue_notify slot notify;
       write_u32 (reg_addr slot VIRTIO_MMIO_QUEUE_NOTIFY) 0xFFFFFFFF })
   }"

definition poll_driver_features :: "nat \<Rightarrow> unit fwm" where
  "poll_driver_features slot = do {
     dfd_sel \<leftarrow> read_u32 (reg_addr slot VIRTIO_MMIO_DRIVER_FEATURES_SEL);
     dfd_sel_prev \<leftarrow> read_u32 (snap_addr slot SNAP_OFF_DRV_FEAT_SEL);
     when_m (dfd_sel \<noteq> dfd_sel_prev) (write_u32 (snap_addr slot SNAP_OFF_DRV_FEAT_SEL) dfd_sel);
     dfd \<leftarrow> read_u32 (reg_addr slot VIRTIO_MMIO_DRIVER_FEATURES);
     dfd_prev \<leftarrow> read_u32 (snap_addr slot SNAP_OFF_DRV_FEAT);
     when_m (dfd \<noteq> dfd_prev) (write_u32 (snap_addr slot SNAP_OFF_DRV_FEAT) dfd)
   }"

definition poll_sel_generation :: "nat \<Rightarrow> unit fwm" where
  "poll_sel_generation slot = do {
     curr_gen \<leftarrow> read_u32 (reg_addr slot VIRTIO_MMIO_SEL_GENERATION);
     last_echoed \<leftarrow> read_u32 (snap_addr slot SNAP_OFF_SEL_GEN_ECHO);
     when_m (curr_gen \<noteq> last_echoed) (do {
       write_u32 (reg_addr slot VIRTIO_MMIO_SEL_GENERATION) (curr_gen + 1);
       write_u32 (snap_addr slot SNAP_OFF_SEL_GEN_ECHO) (curr_gen + 1) })
   }"

definition poll_one_device :: "nat \<Rightarrow> unit fwm" where
  "poll_one_device slot = do {
     poll_status slot;
     sel \<leftarrow> poll_queue_sel slot;
     poll_queue_ready slot sel;
     poll_queue_notify slot;
     poll_driver_features slot;
     poll_sel_generation slot
   }"

text \<open>The reset line of TRISC \<open>n\<close> is bit 12 + n of the tile's soft-reset register.\<close>

definition brisc_set_trisc_reset :: "nat \<Rightarrow> bool \<Rightarrow> unit fwm" where
  "brisc_set_trisc_reset n asserted =
     State (\<lambda>s. ((), s\<lparr>soft_reset :=
       (if asserted then soft_reset s OR push_bit (12 + n) 1
        else soft_reset s AND NOT (push_bit (12 + n) 1))\<rparr>))"

definition drive_trisc_lifecycle :: "nat \<Rightarrow> bool \<Rightarrow> unit fwm" where
  "drive_trisc_lifecycle n want_running = do {
     s \<leftarrow> State_Monad.get;
     (if want_running \<and> \<not> trisc_running s n then do {
        brisc_set_trisc_reset n False;
        State_Monad.update (\<lambda>s. s\<lparr>trisc_running := (trisc_running s)(n := True)\<rparr>) }
      else if \<not> want_running \<and> trisc_running s n then do {
        brisc_set_trisc_reset n True;
        State_Monad.update (\<lambda>s. s\<lparr>trisc_running := (trisc_running s)(n := False)\<rparr>) }
      else skip)
   }"

definition brisc_drive_trisc0_lifecycle :: "u32 \<Rightarrow> unit fwm" where
  "brisc_drive_trisc0_lifecycle active_slots = drive_trisc_lifecycle 0 (active_slots AND BRISC_UART_SLOT_MASK \<noteq> 0)"

definition brisc_drive_trisc1_lifecycle :: "u32 \<Rightarrow> unit fwm" where
  "brisc_drive_trisc1_lifecycle virtio_active = drive_trisc_lifecycle 1 (virtio_active \<noteq> 0)"

definition brisc_drive_trisc2_lifecycle :: "u32 \<Rightarrow> unit fwm" where
  "brisc_drive_trisc2_lifecycle virtio_active = drive_trisc_lifecycle 2 (virtio_active \<noteq> 0)"

text \<open>Start-up: the control region is zeroed, then the firmware waits for the daemon's hello.\<close>

definition init_proto :: "unit fwm" where
  "init_proto = zero_region (ctrl_addr 0) CTRL_SIZE"

text \<open>The polling loop may run forever; \<open>fuel\<close> bounds the number of polls, and False is "still polling".\<close>

fun poll_hello :: "nat \<Rightarrow> bool fwm" where
  "poll_hello 0 = State_Monad.return False"
| "poll_hello (Suc fuel) = do {
     magic \<leftarrow> read_u32 (ctrl_addr (ctrl_off HELLO_OFF_MAGIC));
     (if magic = HELLO_MAGIC then State_Monad.return True else poll_hello fuel) }"

definition wait_for_hello_and_ack :: "u32 \<Rightarrow> nat \<Rightarrow> bool fwm" where
  "wait_for_hello_and_ack build_id fuel = do {
     seen \<leftarrow> poll_hello fuel;
     when_m seen (do {
       _ \<leftarrow> read_u32 (ctrl_addr (ctrl_off HELLO_OFF_PROTOCOL_VERSION));
       write_u32 (ctrl_addr (ctrl_off HELLO_ACK_OFF_PROTOCOL_VERSION)) TENSIX_PROTOCOL_VERSION;
       write_u32 (ctrl_addr (ctrl_off HELLO_ACK_OFF_FIRMWARE_VERSION)) (BRISC_VIRTIO_FW_VERSION build_id);
       write_u32 (ctrl_addr (ctrl_off HELLO_ACK_OFF_MAGIC)) HELLO_ACK_MAGIC });
     State_Monad.return seen
   }"

text \<open>Bit \<open>i\<close> of a bitmap, \<open>(w >> i) & 1\<close>.\<close>

definition bit_set :: "u32 \<Rightarrow> nat \<Rightarrow> bool" where
  "bit_set w i \<longleftrightarrow> drop_bit i w AND 1 \<noteq> 0"

definition reinit_newly_active :: "u32 \<Rightarrow> unit fwm" where
  "reinit_newly_active newly_active =
     for_each (\<lambda>slot.
       if \<not> bit_set newly_active slot then skip
       else if slot mod BRISC_VIRTIO_DEVS_PER_L2CPU = BRISC_UART_SLOT_OFFSET_IN_L2CPU then skip
       else do { init_device slot; set_init_fired True })
     [0..<BRISC_VIRTIO_NUM_SLOTS]"

text \<open>The sweep over the slots of a bitmap, by groups of eight.\<close>

definition for_active :: "u32 \<Rightarrow> (nat \<Rightarrow> unit fwm) \<Rightarrow> unit fwm" where
  "for_active active f =
     for_each (\<lambda>base.
       let grp = drop_bit base active AND 0xFF
       in if grp = 0 then skip
          else for_each (\<lambda>i. when_m (bit_set grp i) (f (base + i))) [0..<8])
     [0, 8, 16, 24]"

record main_locals =
  heartbeat :: u32
  prev_active :: u32
  prev_sweep_t :: u32
  sweep_t_valid :: bool

definition sweep_timing :: "u32 \<Rightarrow> main_locals \<Rightarrow> unit fwm" where
  "sweep_timing now_t v =
     when_m (sweep_t_valid v) (do {
       let sweep_cycles = now_t - prev_sweep_t v;
       write_u32 (stat_addr STATS_OFF_LAST_SWEEP_CYCLES) sweep_cycles;
       update_max_u32 (stat_addr STATS_OFF_MAX_SWEEP_CYCLES) sweep_cycles;
       s \<leftarrow> State_Monad.get;
       when_m (\<not> init_device_fired_this_iter s)
         (update_max_u32 (stat_addr STATS_OFF_MAX_STEADY_SWEEP_CYCLES) sweep_cycles);
       set_init_fired False })"

text \<open>One iteration of the loop of \<open>main\<close>.\<close>

definition main_iter :: "main_locals \<Rightarrow> main_locals fwm" where
  "main_iter v = do {
     now_t \<leftarrow> mcycle_low;
     sweep_timing now_t v;
     active \<leftarrow> read_u32 (ctrl_addr (ctrl_off CTRL_OFF_ACTIVE_SLOTS));
     virtio_active \<leftarrow> read_u32 (ctrl_addr (ctrl_off CTRL_OFF_ACTIVE_VIRTIO_SLOTS));
     let newly_active = active AND NOT (prev_active v);
     when_m (newly_active \<noteq> 0) (reinit_newly_active newly_active);
     for_active active poll_one_device;
     brisc_drive_trisc0_lifecycle active;
     brisc_drive_trisc1_lifecycle virtio_active;
     brisc_drive_trisc2_lifecycle virtio_active;
     when_m ((heartbeat v + 1) AND 0x3FF = 0)
       (write_u32 (stat_addr STATS_OFF_HEARTBEAT) (heartbeat v + 1));
     State_Monad.return \<lparr>heartbeat = heartbeat v + 1, prev_active = active, prev_sweep_t = now_t, sweep_t_valid = True\<rparr>
   }"

text \<open>
  One pass of TRISC1 over the register files: on a change of QUEUE_SEL it clears QUEUE_READY. The
  static array \<open>last_qsel\<close> is passed along.
\<close>

fun fold_m :: "('x \<Rightarrow> 'a \<Rightarrow> 'a fwm) \<Rightarrow> 'x list \<Rightarrow> 'a \<Rightarrow> 'a fwm" where
  "fold_m f [] a = State_Monad.return a"
| "fold_m f (x # xs) a = do { b \<leftarrow> f x a; fold_m f xs b }"

definition active_list :: "u32 \<Rightarrow> nat list" where
  "active_list active =
     concat (map (\<lambda>base.
       let grp = drop_bit base active AND 0xFF
       in if grp = 0 then [] else map ((+) base) (filter (bit_set grp) [0..<8])) [0, 8, 16, 24])"

definition trisc1_watch :: "nat \<Rightarrow> (nat \<Rightarrow> u32) \<Rightarrow> (nat \<Rightarrow> u32) fwm" where
  "trisc1_watch slot last_qsel = do {
     qsel \<leftarrow> read_u32 (reg_addr slot VIRTIO_MMIO_QUEUE_SEL);
     (if qsel \<noteq> last_qsel slot then do {
        write_u32 (reg_addr slot VIRTIO_MMIO_QUEUE_READY) 0;
        State_Monad.return (last_qsel(slot := qsel)) }
      else State_Monad.return last_qsel)
   }"

definition trisc1_pass :: "(nat \<Rightarrow> u32) \<Rightarrow> (nat \<Rightarrow> u32) fwm" where
  "trisc1_pass last_qsel = do {
     virtio_active \<leftarrow> read_u32 (ctrl_addr (ctrl_off CTRL_OFF_ACTIVE_VIRTIO_SLOTS));
     fold_m trisc1_watch (active_list virtio_active) last_qsel }"

definition trisc2_watch :: "nat \<Rightarrow> (nat \<Rightarrow> u32) \<Rightarrow> (nat \<Rightarrow> u32) fwm" where
  "trisc2_watch slot last_dfsel = do {
     dfsel \<leftarrow> read_u32 (reg_addr slot VIRTIO_MMIO_DEVICE_FEATURES_SEL);
     (if dfsel \<noteq> last_dfsel slot then do {
        let d = device_for_slot slot;
        let value = (if dfsel = 0 then dev_feat_low d else if dfsel = 1 then dev_feat_high d else 0);
        write_u32 (reg_addr slot VIRTIO_MMIO_DEVICE_FEATURES) value;
        inc_stat STATS_OFF_DEV_FEAT_SEL_CHANGES;
        State_Monad.return (last_dfsel(slot := dfsel)) }
      else State_Monad.return last_dfsel)
   }"

definition trisc2_pass :: "(nat \<Rightarrow> u32) \<Rightarrow> (nat \<Rightarrow> u32) fwm" where
  "trisc2_pass last_dfsel = do {
     virtio_active \<leftarrow> read_u32 (ctrl_addr (ctrl_off CTRL_OFF_ACTIVE_VIRTIO_SLOTS));
     fold_m trisc2_watch (active_list virtio_active) last_dfsel }"

definition trisc2_initial :: "nat \<Rightarrow> u32" where
  "trisc2_initial = (\<lambda>_. 0xFFFFFFFF)"

section \<open>Running the firmware with quiet guests\<close>

definition quiet :: "fw \<Rightarrow> bool" where
  "quiet s \<longleftrightarrow> arrivals s = []"

lemma arrive_quiet [simp]: "arrivals s = [] \<Longrightarrow> arrive s = s"
  by (simp add: arrive_def)

lemma run_read [simp]: "arrivals s = [] \<Longrightarrow> run_state (read_u32 a) s = (gm_u32 (l1 s) a, s)"
  by (simp add: read_u32_def)

lemma run_write [simp]:
  "arrivals s = [] \<Longrightarrow> run_state (write_u32 a v) s = ((), s\<lparr>l1 := gm_store a (le_bytes 4 v) (l1 s)\<rparr>)"
  by (simp add: write_u32_def)

lemma run_write8 [simp]:
  "arrivals s = [] \<Longrightarrow> run_state (write_u8 a v) s = ((), s\<lparr>l1 := gm_store a [v] (l1 s)\<rparr>)"
  by (simp add: write_u8_def)

lemma run_skip [simp]: "run_state skip s = ((), s)"
  by (simp add: skip_def)

lemma run_when [simp]: "run_state (when_m b f) s = (if b then run_state f s else ((), s))"
  by (simp add: when_m_def)

lemma run_update_max [simp]:
  "arrivals s = [] \<Longrightarrow> run_state (update_max_u32 (stat_addr t) v) s =
     ((), if word (l1 s) (Stat t) < v then s\<lparr>l1 := put (Stat t) v (l1 s)\<rparr> else s)"
  by (simp add: update_max_u32_def word_fold put_fold)

lemma run_inc_stat [simp]:
  "arrivals s = [] \<Longrightarrow> run_state (inc_stat t) s =
     ((), s\<lparr>l1 := put (Stat t) (word (l1 s) (Stat t) + 1) (l1 s)\<rparr>)"
  by (simp add: inc_stat_def word_fold put_fold)

lemma run_for_each:
  assumes "\<And>x s. x \<in> set xs \<Longrightarrow> arrivals s = [] \<Longrightarrow> run_state (f x) s = ((), s\<lparr>l1 := g x (l1 s)\<rparr>)"
    and "arrivals s = []"
  shows "run_state (for_each f xs) s = ((), s\<lparr>l1 := fold g xs (l1 s)\<rparr>)"
  using assms
proof (induction xs arbitrary: s)
  case Nil
  then show ?case by simp
next
  case (Cons x xs)
  have "run_state (f x) s = ((), s\<lparr>l1 := g x (l1 s)\<rparr>)" using Cons.prems by simp
  moreover have "run_state (for_each f xs) (s\<lparr>l1 := g x (l1 s)\<rparr>) =
      ((), s\<lparr>l1 := g x (l1 s)\<rparr>\<lparr>l1 := fold g xs (l1 (s\<lparr>l1 := g x (l1 s)\<rparr>))\<rparr>)"
    using Cons.prems by (intro Cons.IH) simp_all
  ultimately show ?case by simp
qed

text \<open>Zeroing a region.\<close>

definition zeroed :: "nat \<Rightarrow> nat \<Rightarrow> guest_mem \<Rightarrow> guest_mem" where
  "zeroed base n m = fold (\<lambda>k. gm_store (base + 4 * k) (le_bytes 4 (0 :: u32))) [0..<(n + 3) div 4] m"

lemma run_zero_region [simp]:
  "arrivals s = [] \<Longrightarrow> run_state (zero_region base n) s = ((), s\<lparr>l1 := zeroed base n (l1 s)\<rparr>)"
  unfolding zero_region_def zeroed_def by (rule run_for_each) simp_all

lemma le_bytes_zero: "le_bytes n (0 :: u32) = replicate n 0"
  by (simp add: le_bytes_def map_replicate_const)

lemma zero_fold_bytes:
  "gm_bytes (fold (\<lambda>k. gm_store (base + 4 * k) (le_bytes 4 (0 :: u32))) [0..<n] m) a =
     (if base \<le> a \<and> a < base + 4 * n then 0 else gm_bytes m a)"
  by (induction n) (auto simp: gm_bytes_store le_bytes_zero)

lemma zero_fold_size:
  "gm_size (fold (\<lambda>k. gm_store (base + 4 * k) (le_bytes 4 (0 :: u32))) ks m) = gm_size m"
  by (induction ks arbitrary: m) simp_all

lemma zeroed_bytes:
  "gm_bytes (zeroed base n m) a = (if base \<le> a \<and> a < base + 4 * ((n + 3) div 4) then 0 else gm_bytes m a)"
  by (simp add: zeroed_def zero_fold_bytes)

lemma zeroed_size [simp]: "gm_size (zeroed base n m) = gm_size m"
  by (simp add: zeroed_def zero_fold_size)

lemma word_zeroed:
  assumes "cell_size c = 4"
  shows "base \<le> cell_addr c \<Longrightarrow> cell_addr c + 4 \<le> base + 4 * ((n + 3) div 4) \<Longrightarrow> word (zeroed base n m) c = 0"
    and "cell_addr c + 4 \<le> base \<or> base + 4 * ((n + 3) div 4) \<le> cell_addr c \<Longrightarrow> word (zeroed base n m) c = word m c"
proof -
  assume "base \<le> cell_addr c" "cell_addr c + 4 \<le> base + 4 * ((n + 3) div 4)"
  then have "gm_load (zeroed base n m) (cell_addr c) 4 = le_bytes 4 (0 :: u32)"
    by (intro nth_equalityI) (auto simp: zeroed_bytes le_bytes_zero)
  then show "word (zeroed base n m) c = 0" by (simp add: word_def of_le_bytes_le_bytes_full)
next
  assume "cell_addr c + 4 \<le> base \<or> base + 4 * ((n + 3) div 4) \<le> cell_addr c"
  then show "word (zeroed base n m) c = word m c"
    unfolding word_def by (intro arg_cong [where f = of_le_bytes] gm_load_cong) (auto simp: zeroed_bytes)
qed

end
