(* ===== verification/Firmware_Props.thy ===== *)
theory Firmware_Props
  imports Firmware
begin

text \<open>
  What the firmware guarantees: device initialisation, the capture of a queue's setup, notifications,
  the handshake on the selector generation, that a poll settles, and that polling one slot leaves the
  others alone.
\<close>

section \<open>Initialisation\<close>

fun init_reg :: "nat \<Rightarrow> mmio_reg \<Rightarrow> u32 \<Rightarrow> u32" where
  "init_reg slot VIRTIO_MMIO_MAGIC_VALUE old = VIRTIO_MMIO_MAGIC"
| "init_reg slot VIRTIO_MMIO_VERSION old = VIRTIO_MMIO_VERSION_2"
| "init_reg slot VIRTIO_MMIO_DEVICE_ID old = device_id_init (device_for_slot slot)"
| "init_reg slot VIRTIO_MMIO_VENDOR_ID old = BRISC_VENDOR_ID"
| "init_reg slot VIRTIO_MMIO_QUEUE_NUM_MAX old = BRISC_VIRTIO_QUEUE_NUM_MAX"
| "init_reg slot VIRTIO_MMIO_DEVICE_FEATURES old =
     dev_feat_low (device_for_slot slot) OR dev_feat_high (device_for_slot slot)"
| "init_reg slot VIRTIO_MMIO_QUEUE_NOTIFY old = 0xFFFFFFFF"
| "init_reg slot VIRTIO_MMIO_SW_IMPL old = 1"
| "init_reg slot VIRTIO_MMIO_STATUS old = old"
| "init_reg slot VIRTIO_MMIO_CONFIG old = old"
| "init_reg slot _ old = 0"

text \<open>The words after \<open>init_device\<close>, as a function of the words before.\<close>

fun init_word :: "nat \<Rightarrow> cell \<Rightarrow> u32 \<Rightarrow> u32" where
  "init_word slot (Reg sl r) old = (if sl = slot then init_reg slot r old else old)"
| "init_word slot (Shadow sl q f) old = (if sl = slot then 0 else old)"
| "init_word slot (Snap sl f) old = (if sl = slot then 0 else old)"
| "init_word slot _ old = old"

definition wiped :: "nat \<Rightarrow> guest_mem \<Rightarrow> guest_mem" where
  "wiped slot m =
     zeroed (shadow_addr slot 0) SHADOW_PER_DEVICE
       (zeroed (reg_addr slot VIRTIO_MMIO_STATUS + 4) (0x100 - 0x74)
         (zeroed (reg_addr slot VIRTIO_MMIO_MAGIC_VALUE) 0x70 m))"

fun wiped_word :: "nat \<Rightarrow> cell \<Rightarrow> u32 \<Rightarrow> u32" where
  "wiped_word slot (Reg sl r) old =
     (if sl = slot \<and> r \<noteq> VIRTIO_MMIO_STATUS \<and> r \<noteq> VIRTIO_MMIO_CONFIG then 0 else old)"
| "wiped_word slot (Shadow sl q f) old = (if sl = slot then 0 else old)"
| "wiped_word slot (Snap sl f) old = (if sl = slot then 0 else old)"
| "wiped_word slot _ old = old"

lemma wiped_bytes:
  "gm_bytes (wiped slot m) a =
     (if 0x10000 + slot * 0x1000 \<le> a \<and> a < 0x10070 + slot * 0x1000 \<or>
         0x10074 + slot * 0x1000 \<le> a \<and> a < 0x10100 + slot * 0x1000 \<or>
         0x30000 + slot * 0x400 \<le> a \<and> a < 0x30400 + slot * 0x400
      then 0 else gm_bytes m a)"
  by (simp add: wiped_def zeroed_bytes addr_defs)

lemma word_bytes_cong:
  "(\<And>i. i < 4 \<Longrightarrow> gm_bytes m' (cell_addr c + i) = gm_bytes m (cell_addr c + i)) \<Longrightarrow> word m' c = word m c"
  unfolding word_def
  by (intro arg_cong [where f = of_le_bytes] nth_equalityI) simp_all

lemma word_bytes_zero:
  assumes "\<And>i. i < 4 \<Longrightarrow> gm_bytes m' (cell_addr c + i) = 0"
  shows "word m' c = 0"
proof -
  have "gm_load m' (cell_addr c) 4 = le_bytes 4 (0 :: u32)"
    using assms by (intro nth_equalityI) (simp_all add: le_bytes_zero)
  then show ?thesis by (simp add: word_def of_le_bytes_le_bytes_full)
qed

lemma mmio_off_gap:
  "r \<noteq> VIRTIO_MMIO_STATUS \<Longrightarrow> r \<noteq> VIRTIO_MMIO_CONFIG \<Longrightarrow>
     mmio_off r + 4 \<le> 0x70 \<or> 0x74 \<le> mmio_off r \<and> mmio_off r + 4 \<le> 0x100"
  by (cases r) simp_all

lemma word_wiped:
  assumes "slot < 32" "cell_ok c" "cell_size c = 4"
  shows "word (wiped slot m) c = wiped_word slot c (word m c)"
proof (cases c)
  case (Reg sl r)
  show ?thesis
  proof (cases "sl = slot \<and> r \<noteq> VIRTIO_MMIO_STATUS \<and> r \<noteq> VIRTIO_MMIO_CONFIG")
    case True
    with Reg mmio_off_gap [of r] show ?thesis
      by (auto intro!: word_bytes_zero simp: wiped_bytes addr_defs cell_addr.simps)
  next
    case False
    have "word (wiped slot m) c = word m c"
    proof (rule word_bytes_cong)
      fix i :: nat assume "i < 4"
      consider "sl < slot" | "slot < sl" | "sl = slot" "mmio_off r = 0x70 \<or> mmio_off r = 0x100"
        using False by fastforce
      then show "gm_bytes (wiped slot m) (cell_addr c + i) = gm_bytes m (cell_addr c + i)"
        using \<open>i < 4\<close> Reg assms(1,2) offs_bound(1) [of r]
        by cases (auto simp: wiped_bytes addr_defs cell_addr.simps)
    qed
    with Reg False show ?thesis by auto
  qed
next
  case (Shadow sl q f)
  show ?thesis
  proof (cases "sl = slot")
    case True
    with Shadow assms(2) offs_bound(2) [of f] show ?thesis
      by (auto intro!: word_bytes_zero simp: wiped_bytes addr_defs cell_addr.simps)
  next
    case False
    then have "sl < slot \<or> slot < sl" by linarith
    with Shadow assms offs_bound(2) [of f] False show ?thesis
      by (auto intro!: word_bytes_cong simp: wiped_bytes addr_defs cell_addr.simps)
  qed
next
  case (Snap sl f)
  show ?thesis
  proof (cases "sl = slot")
    case True
    with Snap assms(2) offs_bound(3) [of f] show ?thesis
      by (auto intro!: word_bytes_zero simp: wiped_bytes addr_defs cell_addr.simps)
  next
    case False
    then have "sl < slot \<or> slot < sl" by linarith
    with Snap assms offs_bound(3) [of f] False show ?thesis
      by (auto intro!: word_bytes_cong simp: wiped_bytes addr_defs cell_addr.simps)
  qed
qed (use assms cell_facts [OF assms(2)] in \<open>auto intro!: word_bytes_cong simp: wiped_bytes\<close>)

definition init_l1 :: "nat \<Rightarrow> guest_mem \<Rightarrow> guest_mem" where
  "init_l1 slot m =
     fold (\<lambda>q m. put (Shadow slot q SHADOW_Q_OFF_READY) 0 (put (Shadow slot q SHADOW_Q_OFF_NUM) 0 m))
       [0..<unat (num_queues_init (device_for_slot slot))]
     (put (Reg slot VIRTIO_MMIO_SW_IMPL) 1
     (put (Reg slot VIRTIO_MMIO_QUEUE_NOTIFY) 0xFFFFFFFF
     (put (Reg slot VIRTIO_MMIO_DEVICE_FEATURES)
        (dev_feat_low (device_for_slot slot) OR dev_feat_high (device_for_slot slot))
     (put (Reg slot VIRTIO_MMIO_QUEUE_NUM_MAX) BRISC_VIRTIO_QUEUE_NUM_MAX
     (put (Reg slot VIRTIO_MMIO_VENDOR_ID) BRISC_VENDOR_ID
     (put (Reg slot VIRTIO_MMIO_DEVICE_ID) (device_id_init (device_for_slot slot))
     (put (Reg slot VIRTIO_MMIO_VERSION) VIRTIO_MMIO_VERSION_2
     (put (Reg slot VIRTIO_MMIO_MAGIC_VALUE) VIRTIO_MMIO_MAGIC (wiped slot m)))))))))"

lemma run_init_device [simp]:
  assumes "arrivals s = []"
  shows "run_state (init_device slot) s = ((), s\<lparr>l1 := init_l1 slot (l1 s)\<rparr>)"
proof -
  have q: "run_state (for_each (\<lambda>q. do {
         write_u32 (shadow_queue_addr slot q SHADOW_Q_OFF_NUM) 0;
         write_u32 (shadow_queue_addr slot q SHADOW_Q_OFF_READY) 0 }) qs) t =
      ((), t\<lparr>l1 := fold (\<lambda>q m. put (Shadow slot q SHADOW_Q_OFF_READY) 0 (put (Shadow slot q SHADOW_Q_OFF_NUM) 0 m)) qs (l1 t)\<rparr>)"
    if "arrivals t = []" for qs and t :: fw
    using that by (intro run_for_each) (simp_all add: put_fold)
  show ?thesis using assms by (simp add: init_device_def Let_def q put_fold init_l1_def wiped_def)
qed

lemma num_queues_small: "unat (num_queues_init (device_for_slot slot)) \<le> 2"
  by (simp add: device_for_slot_def DEVICE_TEMPLATE_def)

lemma word_init_queues:
  assumes "slot < 32" "cell_ok c" "cell_size c = 4" "n \<le> 8"
    and "\<And>q f. c = Shadow slot q f \<Longrightarrow> word m c = 0"
  shows "word (fold (\<lambda>q m. put (Shadow slot q SHADOW_Q_OFF_READY) 0 (put (Shadow slot q SHADOW_Q_OFF_NUM) 0 m)) [0..<n] m) c = word m c"
  using assms(4)
proof (induction n)
  case 0
  then show ?case by simp
next
  case (Suc n)
  then show ?case using assms by (auto simp: word_put)
qed

lemma word_init_l1:
  assumes "slot < 32" "cell_ok c" "cell_size c = 4"
  shows "word (init_l1 slot m) c = init_word slot c (word m c)"
proof -
  have n: "unat (num_queues_init (device_for_slot slot)) \<le> 8" using num_queues_small [of slot] by simp
  have "word (init_l1 slot m) c =
     (if c = Reg slot VIRTIO_MMIO_SW_IMPL then 1 else if c = Reg slot VIRTIO_MMIO_QUEUE_NOTIFY then 0xFFFFFFFF
      else if c = Reg slot VIRTIO_MMIO_DEVICE_FEATURES
        then dev_feat_low (device_for_slot slot) OR dev_feat_high (device_for_slot slot)
      else if c = Reg slot VIRTIO_MMIO_QUEUE_NUM_MAX then BRISC_VIRTIO_QUEUE_NUM_MAX
      else if c = Reg slot VIRTIO_MMIO_VENDOR_ID then BRISC_VENDOR_ID
      else if c = Reg slot VIRTIO_MMIO_DEVICE_ID then device_id_init (device_for_slot slot)
      else if c = Reg slot VIRTIO_MMIO_VERSION then VIRTIO_MMIO_VERSION_2
      else if c = Reg slot VIRTIO_MMIO_MAGIC_VALUE then VIRTIO_MMIO_MAGIC
      else wiped_word slot c (word m c))"
    unfolding init_l1_def
    by (subst word_init_queues [OF assms n]) (use assms in \<open>auto simp: word_put word_wiped\<close>)
  also have "\<dots> = init_word slot c (word m c)"
  proof (cases c)
    case (Reg sl r)
    then show ?thesis by (cases r) auto
  qed simp_all
  finally show ?thesis .
qed

text \<open>
  \<open>init_device\<close>. The register file of the slot shows a virtio-mmio device: magic, version,
  device and vendor id, both feature halves, the queue size limit, no pending notification; its other
  registers are zero, except that STATUS and the configuration space keep what they hold. Shadow and
  snapshots of the slot are zero. No word of another slot, and no control, statistics or UART word,
  changes.
\<close>

theorem init_device_words:
  assumes "slot < 32" "arrivals s = []" "cell_ok c" "cell_size c = 4"
  shows "word (l1 (snd (run_state (init_device slot) s))) c = init_word slot c (word (l1 s) c)"
  using assms by (simp add: word_init_l1)

text \<open>A tile with zeroed L1 and quiet guests.\<close>

definition zero_l1 :: guest_mem where
  "zero_l1 = \<lparr>gm_bytes = (\<lambda>_. 0), gm_size = TENSIX_L1_SIZE, gm_fault = False\<rparr>"

definition demo_fw :: fw where
  "demo_fw = \<lparr>l1 = zero_l1, arrivals = [], mcycle = [], soft_reset = 0x47800,
     init_device_fired_this_iter = False, trisc_running = (\<lambda>_. False)\<rparr>"

lemma word_zero_l1 [simp]: "word zero_l1 c = 0"
  by (rule word_bytes_zero) (simp add: zero_l1_def)

lemma demo_fw_simps [simp]:
  "l1 demo_fw = zero_l1" "arrivals demo_fw = []" "mcycle demo_fw = []" "soft_reset demo_fw = 0x47800"
  "trisc_running demo_fw n = False"
  by (simp_all add: demo_fw_def)

theorem init_device_words_witness:
  "word (l1 (snd (run_state (init_device 9) demo_fw))) (Reg 9 VIRTIO_MMIO_DEVICE_ID) = 1 \<and>
   word (l1 (snd (run_state (init_device 9) demo_fw))) (Reg 9 VIRTIO_MMIO_DEVICE_FEATURES) = 0x21 \<and>
   word (l1 (snd (run_state (init_device 9) demo_fw))) (Reg 8 VIRTIO_MMIO_DEVICE_ID) = 0"
  using init_device_words [of 9 demo_fw "Reg 9 VIRTIO_MMIO_DEVICE_ID"]
    init_device_words [of 9 demo_fw "Reg 9 VIRTIO_MMIO_DEVICE_FEATURES"]
    init_device_words [of 9 demo_fw "Reg 8 VIRTIO_MMIO_DEVICE_ID"]
  by (simp add: device_for_slot_def DEVICE_TEMPLATE_def layout_defs VIRTIO_NET_F_MAC_BIT_def
      VIRTIO_F_VERSION_1_HIGH_BIT_def)

section \<open>Frames\<close>

text \<open>
  A relation between the states before and after that every access of the firmware respects: what
  arrives from the guests, the readings of the cycle counter, and stores at the addresses that
  \<open>okw\<close> (words) and \<open>okb\<close> (bytes) allow. Whatever the firmware computes from such accesses then
  respects it too.
\<close>

locale fw_frame =
  fixes R :: "fw \<Rightarrow> fw \<Rightarrow> bool"
    and okw :: "nat \<Rightarrow> bool"
    and okb :: "nat \<Rightarrow> bool"
  assumes R_refl: "R s s"
    and R_trans: "R s t \<Longrightarrow> R t u \<Longrightarrow> R s u"
    and R_arrive: "R s (arrive s)"
    and R_mcycle: "R s (s\<lparr>mcycle := ts\<rparr>)"
    and R_fired: "R s (s\<lparr>init_device_fired_this_iter := b\<rparr>)"
    and R_store: "okw a \<Longrightarrow> R s (s\<lparr>l1 := gm_store a (le_bytes 4 (v :: u32)) (l1 s)\<rparr>)"
    and R_store8: "okb a \<Longrightarrow> R s (s\<lparr>l1 := gm_store a [x] (l1 s)\<rparr>)"
begin

lemma bind_frame:
  assumes "state_io_rel R f" and "\<And>a. state_io_rel R (g a)"
  shows "state_io_rel R (State_Monad.bind f g)"
  unfolding state_io_rel_def
proof
  fix s
  obtain a t where f: "run_state f s = (a, t)" by force
  have "R s t" using assms(1) f unfolding state_io_rel_def by (metis snd_conv)
  moreover have "R t (snd (run_state (g a) t))" using assms(2) unfolding state_io_rel_def by blast
  ultimately show "R s (snd (run_state (State_Monad.bind f g) s))" using f by (simp add: R_trans)
qed

lemma return_frame: "state_io_rel R (State_Monad.return a)"
  by (simp add: state_io_rel_def R_refl)

lemma skip_frame: "state_io_rel R skip"
  by (simp add: state_io_rel_def R_refl)

lemma when_frame: "(b \<Longrightarrow> state_io_rel R f) \<Longrightarrow> state_io_rel R (when_m b f)"
  by (simp add: when_m_def skip_frame)

lemma if_frame:
  "(b \<Longrightarrow> state_io_rel R f) \<Longrightarrow> (\<not> b \<Longrightarrow> state_io_rel R g) \<Longrightarrow> state_io_rel R (if b then f else g)"
  by simp

lemma for_each_frame: "(\<And>x. x \<in> set xs \<Longrightarrow> state_io_rel R (f x)) \<Longrightarrow> state_io_rel R (for_each f xs)"
  by (induction xs) (auto intro: bind_frame skip_frame)

lemma read_frame: "state_io_rel R (read_u32 a)"
  by (simp add: state_io_rel_def read_u32_def Let_def R_arrive)

lemma write_frame: "okw a \<Longrightarrow> state_io_rel R (write_u32 a v)"
  unfolding state_io_rel_def write_u32_def Let_def
  by (auto intro: R_trans [OF R_arrive R_store])

lemma write8_frame: "okb a \<Longrightarrow> state_io_rel R (write_u8 a v)"
  unfolding state_io_rel_def write_u8_def Let_def
  by (auto intro: R_trans [OF R_arrive R_store8])

lemma mcycle_frame: "state_io_rel R mcycle_low"
  by (auto simp: state_io_rel_def mcycle_low_def R_refl R_mcycle split: list.splits)

lemma fired_frame: "state_io_rel R (set_init_fired b)"
  by (simp add: state_io_rel_def set_init_fired_def R_fired)

lemma update_max_frame: "okw a \<Longrightarrow> state_io_rel R (update_max_u32 a v)"
  unfolding update_max_u32_def by (intro bind_frame read_frame when_frame write_frame)

lemma inc_stat_frame: "okw (stat_addr t) \<Longrightarrow> state_io_rel R (inc_stat t)"
  unfolding inc_stat_def by (intro bind_frame read_frame write_frame)

lemma read_fields_frame: "state_io_rel R (read_fields slot fs)"
  by (induction slot fs rule: read_fields.induct) (auto intro: bind_frame read_frame return_frame)

lemma write_fields_frame:
  "(\<And>f. okw (shadow_queue_addr slot q f)) \<Longrightarrow> state_io_rel R (write_fields slot q vs)"
  unfolding write_fields_def by (intro for_each_frame) (auto intro: write_frame)

lemmas frame_rules = bind_frame return_frame skip_frame when_frame if_frame read_frame mcycle_frame
  fired_frame update_max_frame inc_stat_frame read_fields_frame write_fields_frame write_frame write8_frame

lemma sel_change_frame:
  assumes "\<And>r. r \<in> {VIRTIO_MMIO_QUEUE_READY, VIRTIO_MMIO_QUEUE_NUM_MAX, VIRTIO_MMIO_QUEUE_NUM} \<Longrightarrow> okw (reg_addr slot r)"
    and "\<And>q f. q < 8 \<Longrightarrow> okw (shadow_queue_addr slot q f)" and "\<And>t. okw (stat_addr t)"
  shows "state_io_rel R (handle_queue_sel_change slot old_sel sel)"
  unfolding handle_queue_sel_change_def clear_queue_ready_def rescue_old_sel_def swap_queue_regs_def Let_def
  by (intro frame_rules assms) (simp_all add: layout_defs)

lemma ready_change_frame:
  assumes "\<And>q f. q < 8 \<Longrightarrow> okw (shadow_queue_addr slot q f)" and "\<And>t. okw (stat_addr t)"
  shows "state_io_rel R (handle_queue_ready_change slot sel ready)"
  unfolding handle_queue_ready_change_def
  by (intro frame_rules assms) (simp_all add: layout_defs)

lemma notify_frame:
  assumes "\<And>q. q < 8 \<Longrightarrow> okb (ctrl_addr (CTRL_OFF_DIRTY + slot * MAX_QUEUES_PER_SLOT + q))"
    and "\<And>t. okw (stat_addr t)"
  shows "state_io_rel R (handle_queue_notify slot q)"
  unfolding handle_queue_notify_def
  by (intro frame_rules assms) (simp_all add: layout_defs)

lemma queue_sel_frame:
  assumes "\<And>r. r \<in> {VIRTIO_MMIO_QUEUE_READY, VIRTIO_MMIO_QUEUE_NUM_MAX, VIRTIO_MMIO_QUEUE_NUM} \<Longrightarrow> okw (reg_addr slot r)"
    and "\<And>q f. q < 8 \<Longrightarrow> okw (shadow_queue_addr slot q f)" and "\<And>t. okw (stat_addr t)"
    and "okw (snap_addr slot SNAP_OFF_QUEUE_SEL)"
  shows "state_io_rel R (poll_queue_sel slot)"
  unfolding poll_queue_sel_def by (intro frame_rules sel_change_frame assms)

lemma queue_ready_frame:
  assumes "okw (reg_addr slot VIRTIO_MMIO_QUEUE_READY)"
    and "\<And>q f. q < 8 \<Longrightarrow> okw (shadow_queue_addr slot q f)" and "\<And>t. okw (stat_addr t)"
  shows "state_io_rel R (poll_queue_ready slot sel)"
  unfolding poll_queue_ready_def by (intro frame_rules ready_change_frame assms)

lemma queue_notify_frame:
  assumes "okw (reg_addr slot VIRTIO_MMIO_QUEUE_NOTIFY)"
    and "\<And>q. q < 8 \<Longrightarrow> okb (ctrl_addr (CTRL_OFF_DIRTY + slot * MAX_QUEUES_PER_SLOT + q))"
    and "\<And>t. okw (stat_addr t)"
  shows "state_io_rel R (poll_queue_notify slot)"
  unfolding poll_queue_notify_def by (intro frame_rules notify_frame assms)

lemma driver_features_frame:
  assumes "\<And>f. f \<in> {SNAP_OFF_DRV_FEAT_SEL, SNAP_OFF_DRV_FEAT} \<Longrightarrow> okw (snap_addr slot f)"
  shows "state_io_rel R (poll_driver_features slot)"
  unfolding poll_driver_features_def by (intro frame_rules assms) simp_all

lemma sel_generation_frame:
  assumes "okw (reg_addr slot VIRTIO_MMIO_SEL_GENERATION)" and "okw (snap_addr slot SNAP_OFF_SEL_GEN_ECHO)"
  shows "state_io_rel R (poll_sel_generation slot)"
  unfolding poll_sel_generation_def by (intro frame_rules assms)

end

context fw_frame
begin

lemma zero_region_frame:
  assumes "\<And>k. k < (n + 3) div 4 \<Longrightarrow> okw (base + 4 * k)"
  shows "state_io_rel R (zero_region base n)"
  unfolding zero_region_def by (intro for_each_frame write_frame) (use assms in auto)

lemma poll_frame:
  assumes slot: "slot < 32"
    and regs: "\<And>a. 0x10000 + slot * 0x1000 \<le> a \<Longrightarrow> a + 4 \<le> 0x11000 + slot * 0x1000 \<Longrightarrow> okw a"
    and shadow: "\<And>a. 0x30000 + slot * 0x400 \<le> a \<Longrightarrow> a + 4 \<le> 0x30400 + slot * 0x400 \<Longrightarrow> okw a"
    and stats: "\<And>t. okw (stat_addr t)"
    and dirty: "\<And>q. q < 8 \<Longrightarrow> okb (ctrl_addr (CTRL_OFF_DIRTY + slot * MAX_QUEUES_PER_SLOT + q))"
  shows "state_io_rel R (init_device slot)" and "state_io_rel R (poll_one_device slot)"
proof -
  have reg: "okw (reg_addr slot r)" for r
    using offs_bound(1) [of r] by (intro regs) (simp_all add: addr_defs)
  have sq: "okw (shadow_queue_addr slot q f)" if "q < 8" for q f
    using that offs_bound(2) [of f] by (intro shadow) (simp_all add: addr_defs)
  have snap: "okw (snap_addr slot f)" for f
    using offs_bound(3) [of f] by (intro shadow) (simp_all add: addr_defs)
  have z: "state_io_rel R (zero_region (reg_addr slot VIRTIO_MMIO_MAGIC_VALUE) (mmio_off VIRTIO_MMIO_STATUS))"
    "state_io_rel R (zero_region (reg_addr slot VIRTIO_MMIO_STATUS + 4)
       (mmio_off VIRTIO_MMIO_CONFIG - (mmio_off VIRTIO_MMIO_STATUS + 4)))"
    "state_io_rel R (zero_region (shadow_addr slot 0) SHADOW_PER_DEVICE)"
    by (intro zero_region_frame, (rule regs shadow; simp add: addr_defs))+
  show init: "state_io_rel R (init_device slot)"
    unfolding init_device_def Let_def
    by (intro frame_rules for_each_frame z reg sq) (use num_queues_small [of slot] in auto)
  show "state_io_rel R (poll_one_device slot)"
    unfolding poll_one_device_def poll_status_def handle_status_change_def
    by (intro frame_rules init queue_sel_frame queue_ready_frame queue_notify_frame
        driver_features_frame sel_generation_frame reg sq snap stats dirty)
qed

end

text \<open>The words and dirty bytes that an operation may change, for quiet guests.\<close>

definition keeps :: "cell set \<Rightarrow> (nat \<times> nat) set \<Rightarrow> fw \<Rightarrow> fw \<Rightarrow> bool" where
  "keeps A D s s' \<longleftrightarrow>
     (arrivals s = [] \<longrightarrow> arrivals s' = [] \<and>
       (\<forall>c. cell_ok c \<longrightarrow> cell_size c = 4 \<longrightarrow> c \<notin> A \<longrightarrow> word (l1 s') c = word (l1 s) c) \<and>
       (\<forall>sl < 32. \<forall>q < 8. (sl, q) \<notin> D \<longrightarrow> dirty_byte (l1 s') sl q = dirty_byte (l1 s) sl q))"

interpretation words: fw_frame "keeps A D"
  "\<lambda>a. \<exists>c \<in> A. cell_ok c \<and> cell_size c = 4 \<and> a = cell_addr c"
  "\<lambda>a. \<exists>(slot, q) \<in> D. slot < 32 \<and> q < 8 \<and> a = cell_addr (Dirty slot q)" for A D
proof unfold_locales
  show "keeps A D s u" if "keeps A D s t" "keeps A D t u" for s t u
    using that unfolding keeps_def by metis
  show "keeps A D s (s\<lparr>l1 := gm_store a (le_bytes 4 v) (l1 s)\<rparr>)"
    if "\<exists>c \<in> A. cell_ok c \<and> cell_size c = 4 \<and> a = cell_addr c" for a s and v :: u32
    using that by (auto simp: keeps_def word_put dirty_put simp flip: put_def)
  show "keeps A D s (s\<lparr>l1 := gm_store a [x] (l1 s)\<rparr>)"
    if "\<exists>(slot, q) \<in> D. slot < 32 \<and> q < 8 \<and> a = cell_addr (Dirty slot q)" for a s x
    using that by (auto simp: keeps_def word_put_dirty dirty_put_dirty simp flip: put_dirty_def)
qed (auto simp: keeps_def arrive_def)

text \<open>
  What belongs to a slot: its register file, its shadow block and its dirty bytes. The statistics
  page is the firmware's own.
\<close>

definition slot_owns :: "nat \<Rightarrow> nat \<Rightarrow> bool" where
  "slot_owns slot a \<longleftrightarrow>
     0x10000 + slot * 0x1000 \<le> a \<and> a < 0x11000 + slot * 0x1000 \<or>
     0x30000 + slot * 0x400 \<le> a \<and> a < 0x30400 + slot * 0x400 \<or>
     0x5100 + slot * 8 \<le> a \<and> a < 0x5108 + slot * 8"

definition stats_page :: "nat \<Rightarrow> bool" where
  "stats_page a \<longleftrightarrow> BRISC_VIRTIO_STATS_BASE \<le> a \<and> a < BRISC_VIRTIO_STATS_BASE + BRISC_VIRTIO_STATS_SIZE"

definition own_arrivals :: "nat \<Rightarrow> fw \<Rightarrow> bool" where
  "own_arrivals slot s \<longleftrightarrow>
     (\<forall>ws \<in> set (arrivals s). \<forall>(a, v) \<in> set ws. \<forall>i < 4. slot_owns slot (a + i))"

definition confined :: "nat \<Rightarrow> fw \<Rightarrow> fw \<Rightarrow> bool" where
  "confined slot s s' \<longleftrightarrow>
     (own_arrivals slot s \<longrightarrow> own_arrivals slot s' \<and>
       (\<forall>a. \<not> slot_owns slot a \<longrightarrow> \<not> stats_page a \<longrightarrow> gm_bytes (l1 s') a = gm_bytes (l1 s) a))"

lemma fold_store_outside:
  assumes "\<forall>(a, v) \<in> set ws. \<forall>i < 4. P (a + i)" and "\<not> P b"
  shows "gm_bytes (fold (\<lambda>(a, v) m. gm_store a (le_bytes 4 (v :: u32)) m) ws m) b = gm_bytes m b"
  using assms(1)
proof (induction ws arbitrary: m)
  case Nil
  then show ?case by simp
next
  case (Cons w ws)
  obtain a v where w: "w = (a, v)" by force
  have "\<not> (a \<le> b \<and> b < a + 4)"
  proof
    assume "a \<le> b \<and> b < a + 4"
    then obtain i where "i < 4" "b = a + i" by (metis le_Suc_ex nat_add_left_cancel_less)
    then show False using Cons.prems assms(2) by (auto simp: w)
  qed
  then have "gm_bytes (gm_store a (le_bytes 4 v) m) b = gm_bytes m b" by (auto simp: gm_bytes_store)
  with Cons w show ?case by simp
qed

lemma store_outside:
  assumes "\<forall>i < length bs. P (a + i)" and "\<not> P b"
  shows "gm_bytes (gm_store a bs m) b = gm_bytes m b"
proof -
  have "\<not> (a \<le> b \<and> b < a + length bs)"
    using assms by (metis le_Suc_ex nat_add_left_cancel_less)
  then show ?thesis by (auto simp: gm_bytes_store)
qed

interpretation owned: fw_frame "confined slot"
  "\<lambda>a. \<forall>i < 4. slot_owns slot (a + i) \<or> stats_page (a + i)"
  "\<lambda>a. slot_owns slot a \<or> stats_page a" for slot
proof unfold_locales
  show "confined slot s (arrive s)" for s
  proof (cases "arrivals s")
    case Nil
    then show ?thesis by (simp add: confined_def)
  next
    case (Cons ws rest)
    show ?thesis unfolding confined_def
    proof (intro impI conjI allI)
      assume own: "own_arrivals slot s"
      then show "own_arrivals slot (arrive s)" using Cons by (simp add: own_arrivals_def arrive_def)
      fix a assume "\<not> slot_owns slot a" "\<not> stats_page a"
      moreover have "\<forall>(a, v) \<in> set ws. \<forall>i < 4. slot_owns slot (a + i)"
        using own Cons by (simp add: own_arrivals_def)
      ultimately show "gm_bytes (l1 (arrive s)) a = gm_bytes (l1 s) a"
        using fold_store_outside [of ws "slot_owns slot" a] Cons by (simp add: arrive_def)
    qed
  qed
  show "confined slot s (s\<lparr>l1 := gm_store a (le_bytes 4 v) (l1 s)\<rparr>)"
    if "\<forall>i < 4. slot_owns slot (a + i) \<or> stats_page (a + i)" for a s and v :: u32
    using store_outside [of "le_bytes 4 v" "\<lambda>a. slot_owns slot a \<or> stats_page a" a] that
    by (simp add: confined_def own_arrivals_def)
  show "confined slot s (s\<lparr>l1 := gm_store a [x] (l1 s)\<rparr>)"
    if "slot_owns slot a \<or> stats_page a" for a s x
    using store_outside [of "[x]" "\<lambda>a. slot_owns slot a \<or> stats_page a" a] that
    by (simp add: confined_def own_arrivals_def)
qed (auto simp: confined_def own_arrivals_def)

text \<open>
  C7. Isolation. Whatever the guest of a slot stores into its own registers, at any moment during the
  poll of that slot, the poll changes no byte of L1 outside of that slot's register file, shadow block
  and dirty bytes and the statistics page: other guests' devices, their rings' dirty bytes, the UARTs
  and the firmware's code stay as they are.
\<close>

theorem poll_isolated:
  assumes "slot < 32" "own_arrivals slot s" "\<not> slot_owns slot a" "\<not> stats_page a"
  shows "gm_bytes (l1 (snd (run_state (poll_one_device slot) s))) a = gm_bytes (l1 s) a"
proof -
  have "state_io_rel (confined slot) (poll_one_device slot)"
  proof (rule owned.poll_frame(2) [OF assms(1)])
    show "\<forall>i<4. slot_owns slot (stat_addr t + i) \<or> stats_page (stat_addr t + i)" for t
      using offs_bound(4) [of t] by (simp add: stats_page_def addr_defs)
  qed (simp_all add: slot_owns_def addr_defs)
  then have "confined slot s (snd (run_state (poll_one_device slot) s))" by (simp add: state_io_rel_def)
  with assms(2-4) show ?thesis by (simp add: confined_def)
qed

theorem poll_isolated_witness:
  "let s = demo_fw\<lparr>arrivals := [[], [], [(reg_addr 3 VIRTIO_MMIO_QUEUE_SEL, 1)], [(reg_addr 3 VIRTIO_MMIO_QUEUE_NOTIFY, 0)]]\<rparr>
   in gm_bytes (l1 (snd (run_state (poll_one_device 3) s))) (reg_addr 4 VIRTIO_MMIO_QUEUE_SEL) = 0"
  unfolding Let_def
  by (subst poll_isolated)
    (auto simp: own_arrivals_def slot_owns_def stats_page_def addr_defs zero_l1_def)

section \<open>A poll settles\<close>

text \<open>Nothing for the poll to react to.\<close>

definition settled :: "nat \<Rightarrow> guest_mem \<Rightarrow> bool" where
  "settled slot m \<longleftrightarrow>
     word m (Reg slot VIRTIO_MMIO_STATUS) = word m (Snap slot SNAP_OFF_STATUS) \<and>
     word m (Reg slot VIRTIO_MMIO_QUEUE_SEL) = word m (Snap slot SNAP_OFF_QUEUE_SEL) \<and>
     word m (Reg slot VIRTIO_MMIO_QUEUE_READY) = 0 \<and>
     word m (Reg slot VIRTIO_MMIO_QUEUE_NOTIFY) = 0xFFFFFFFF \<and>
     word m (Reg slot VIRTIO_MMIO_DRIVER_FEATURES_SEL) = word m (Snap slot SNAP_OFF_DRV_FEAT_SEL) \<and>
     word m (Reg slot VIRTIO_MMIO_DRIVER_FEATURES) = word m (Snap slot SNAP_OFF_DRV_FEAT) \<and>
     word m (Reg slot VIRTIO_MMIO_SEL_GENERATION) = word m (Snap slot SNAP_OFF_SEL_GEN_ECHO)"

lemma poll_settled:
  assumes "settled slot (l1 s)" "arrivals s = []"
  shows "run_state (poll_one_device slot) s = ((), s)"
  using assms
  by (simp add: settled_def poll_one_device_def poll_status_def poll_queue_sel_def poll_queue_ready_def
      poll_queue_notify_def poll_driver_features_def poll_sel_generation_def word_fold)

lemma keepsD:
  assumes "state_io_rel (keeps A D) f" "run_state f s = (a, s')" "arrivals s = []"
  shows "arrivals s' = []"
    and "cell_ok c \<Longrightarrow> cell_size c = 4 \<Longrightarrow> c \<notin> A \<Longrightarrow> word (l1 s') c = word (l1 s) c"
    and "sl < 32 \<Longrightarrow> q < 8 \<Longrightarrow> (sl, q) \<notin> D \<Longrightarrow> dirty_byte (l1 s') sl q = dirty_byte (l1 s) sl q"
proof -
  have "keeps A D s s'" using assms(1,2) unfolding state_io_rel_def by (metis snd_conv)
  with assms(3) show "arrivals s' = []"
    and "cell_ok c \<Longrightarrow> cell_size c = 4 \<Longrightarrow> c \<notin> A \<Longrightarrow> word (l1 s') c = word (l1 s) c"
    and "sl < 32 \<Longrightarrow> q < 8 \<Longrightarrow> (sl, q) \<notin> D \<Longrightarrow> dirty_byte (l1 s') sl q = dirty_byte (l1 s) sl q"
    by (auto simp: keeps_def)
qed

abbreviation shadows :: "nat \<Rightarrow> cell set" where
  "shadows slot \<equiv> {Shadow slot q f | q f. q < 8} \<union> range Stat"

lemma okw_cell:
  "Reg slot r \<in> A \<Longrightarrow> slot < 32 \<Longrightarrow> \<exists>c \<in> A. cell_ok c \<and> cell_size c = 4 \<and> reg_addr slot r = cell_addr c"
  "Shadow slot q f \<in> A \<Longrightarrow> slot < 32 \<Longrightarrow> q < 8 \<Longrightarrow>
     \<exists>c \<in> A. cell_ok c \<and> cell_size c = 4 \<and> shadow_queue_addr slot q f = cell_addr c"
  "Snap slot n \<in> A \<Longrightarrow> slot < 32 \<Longrightarrow> \<exists>c \<in> A. cell_ok c \<and> cell_size c = 4 \<and> snap_addr slot n = cell_addr c"
  "Stat t \<in> A \<Longrightarrow> \<exists>c \<in> A. cell_ok c \<and> cell_size c = 4 \<and> stat_addr t = cell_addr c"
  by (auto intro!: bexI simp: cell_addr.simps)

lemma okb_dirty:
  "slot < 32 \<Longrightarrow> q < 8 \<Longrightarrow>
     \<exists>(slot', q') \<in> {slot} \<times> UNIV. slot' < 32 \<and> q' < 8 \<and>
       ctrl_addr (CTRL_OFF_DIRTY + slot * MAX_QUEUES_PER_SLOT + q) = cell_addr (Dirty slot' q')"
  by (auto simp: cell_addr.simps)

lemma poll_segments_keep:
  assumes "slot < 32"
  shows "state_io_rel (keeps ({Reg slot VIRTIO_MMIO_QUEUE_READY, Reg slot VIRTIO_MMIO_QUEUE_NUM_MAX,
      Reg slot VIRTIO_MMIO_QUEUE_NUM, Snap slot SNAP_OFF_QUEUE_SEL} \<union> shadows slot) {}) (poll_queue_sel slot)"
    and "state_io_rel (keeps (insert (Reg slot VIRTIO_MMIO_QUEUE_READY) (shadows slot)) {}) (poll_queue_ready slot sel)"
    and "state_io_rel (keeps (insert (Reg slot VIRTIO_MMIO_QUEUE_NOTIFY) (range Stat)) ({slot} \<times> UNIV)) (poll_queue_notify slot)"
    and "state_io_rel (keeps {Snap slot SNAP_OFF_DRV_FEAT_SEL, Snap slot SNAP_OFF_DRV_FEAT} {}) (poll_driver_features slot)"
    and "state_io_rel (keeps {Reg slot VIRTIO_MMIO_SEL_GENERATION, Snap slot SNAP_OFF_SEL_GEN_ECHO} {}) (poll_sel_generation slot)"
proof -
  show "state_io_rel (keeps ({Reg slot VIRTIO_MMIO_QUEUE_READY, Reg slot VIRTIO_MMIO_QUEUE_NUM_MAX,
      Reg slot VIRTIO_MMIO_QUEUE_NUM, Snap slot SNAP_OFF_QUEUE_SEL} \<union> shadows slot) {}) (poll_queue_sel slot)"
    by (intro words.queue_sel_frame okw_cell) (use assms in auto)
  show "state_io_rel (keeps (insert (Reg slot VIRTIO_MMIO_QUEUE_READY) (shadows slot)) {}) (poll_queue_ready slot sel)"
    by (intro words.queue_ready_frame okw_cell) (use assms in auto)
  show "state_io_rel (keeps (insert (Reg slot VIRTIO_MMIO_QUEUE_NOTIFY) (range Stat)) ({slot} \<times> UNIV)) (poll_queue_notify slot)"
    by (intro words.queue_notify_frame okw_cell okb_dirty) (use assms in auto)
  show "state_io_rel (keeps {Snap slot SNAP_OFF_DRV_FEAT_SEL, Snap slot SNAP_OFF_DRV_FEAT} {}) (poll_driver_features slot)"
    by (intro words.driver_features_frame okw_cell) (use assms in auto)
  show "state_io_rel (keeps {Reg slot VIRTIO_MMIO_SEL_GENERATION, Snap slot SNAP_OFF_SEL_GEN_ECHO} {}) (poll_sel_generation slot)"
    by (intro words.sel_generation_frame okw_cell) (use assms in auto)
qed

lemma run_status:
  assumes "arrivals s = []"
  shows "run_state (poll_status slot) s = ((),
    if word (l1 s) (Reg slot VIRTIO_MMIO_STATUS) = word (l1 s) (Snap slot SNAP_OFF_STATUS) then s
    else
      let st = word (l1 s) (Reg slot VIRTIO_MMIO_STATUS);
          s1 = (if st = 0 then s\<lparr>l1 := init_l1 slot (l1 s), init_device_fired_this_iter := True\<rparr> else s);
          m1 = put (Stat STATS_OFF_STATUS_CHANGES) (word (l1 s1) (Stat STATS_OFF_STATUS_CHANGES) + 1) (l1 s1)
      in s1\<lparr>l1 := put (Snap slot SNAP_OFF_STATUS) st m1\<rparr>)"
  using assms
  by (simp add: poll_status_def handle_status_change_def word_fold put_fold Let_def set_init_fired_def)

lemma status_settles:
  assumes "slot < 32" "arrivals s = []" "run_state (poll_status slot) s = (u, s1)"
  shows "arrivals s1 = []"
    and "word (l1 s1) (Snap slot SNAP_OFF_STATUS) = word (l1 s1) (Reg slot VIRTIO_MMIO_STATUS)"
    and "word (l1 s1) (Reg slot VIRTIO_MMIO_STATUS) = word (l1 s) (Reg slot VIRTIO_MMIO_STATUS)"
  using assms by (auto simp: run_status Let_def word_put word_init_l1 split: if_splits)

lemma queue_sel_settles:
  assumes "slot < 32" "arrivals s = []" "run_state (poll_queue_sel slot) s = (sel, s1)"
  shows "sel = word (l1 s) (Reg slot VIRTIO_MMIO_QUEUE_SEL)"
    and "word (l1 s1) (Snap slot SNAP_OFF_QUEUE_SEL) = sel"
proof -
  let ?sel = "word (l1 s) (Reg slot VIRTIO_MMIO_QUEUE_SEL)" and ?prev = "word (l1 s) (Snap slot SNAP_OFF_QUEUE_SEL)"
  obtain t where t: "run_state (handle_queue_sel_change slot ?prev ?sel) s = ((), t)"
    by (cases "run_state (handle_queue_sel_change slot ?prev ?sel) s") simp
  have "state_io_rel (keeps UNIV UNIV) (handle_queue_sel_change slot ?prev ?sel)"
    by (intro words.sel_change_frame okw_cell) (use assms in auto)
  from keepsD(1) [OF this t assms(2)] have at: "arrivals t = []" .
  show "sel = ?sel" using assms(2,3) by (auto simp: poll_queue_sel_def word_fold split: prod.splits)
  then show "word (l1 s1) (Snap slot SNAP_OFF_QUEUE_SEL) = sel"
    using assms t at by (auto simp: poll_queue_sel_def word_fold put_fold word_put split: if_splits prod.splits)
qed

lemma queue_ready_settles:
  assumes "slot < 32" "arrivals s = []" "run_state (poll_queue_ready slot sel) s = (u, s1)"
  shows "word (l1 s1) (Reg slot VIRTIO_MMIO_QUEUE_READY) = 0"
proof -
  let ?ready = "word (l1 s) (Reg slot VIRTIO_MMIO_QUEUE_READY)"
  obtain t where t: "run_state (handle_queue_ready_change slot sel ?ready) s = ((), t)"
    by (cases "run_state (handle_queue_ready_change slot sel ?ready) s") simp
  have "state_io_rel (keeps UNIV UNIV) (handle_queue_ready_change slot sel ?ready)"
    by (intro words.ready_change_frame okw_cell) (use assms in auto)
  from keepsD(1) [OF this t assms(2)] have at: "arrivals t = []" .
  then show ?thesis
    using assms t by (auto simp: poll_queue_ready_def word_fold put_fold word_put split: if_splits prod.splits)
qed

lemma run_notify:
  assumes "arrivals s = []"
  shows "run_state (handle_queue_notify slot q) s = ((),
    let m1 = put (Stat STATS_OFF_LAST_NOTIFY) (push_bit 16 (word_of_nat slot) OR (q AND 0xFFFF)) (l1 s);
        m2 = (if unat q < 8 then put_dirty slot (unat q) 1 m1 else m1)
    in s\<lparr>l1 := put (Stat STATS_OFF_NOTIFY_EVENTS) (word m2 (Stat STATS_OFF_NOTIFY_EVENTS) + 1) m2\<rparr>)"
proof -
  have d: "gm_store (ctrl_addr (CTRL_OFF_DIRTY + slot * MAX_QUEUES_PER_SLOT + unat q)) [1] m = put_dirty slot (unat q) 1 m" for m
    by (simp add: put_dirty_def cell_addr.simps)
  have "MAX_QUEUES_PER_SLOT = 8" by (simp add: layout_defs)
  then show ?thesis
    using assms by (simp add: handle_queue_notify_def put_fold d Let_def)
qed

lemma queue_notify_settles:
  assumes "slot < 32" "arrivals s = []" "run_state (poll_queue_notify slot) s = (u, s1)"
  shows "word (l1 s1) (Reg slot VIRTIO_MMIO_QUEUE_NOTIFY) = 0xFFFFFFFF"
  using assms
  by (auto simp: poll_queue_notify_def word_fold put_fold run_notify Let_def word_put split: if_splits)

lemma driver_features_settles:
  assumes "slot < 32" "arrivals s = []" "run_state (poll_driver_features slot) s = (u, s1)"
  shows "word (l1 s1) (Snap slot SNAP_OFF_DRV_FEAT_SEL) = word (l1 s) (Reg slot VIRTIO_MMIO_DRIVER_FEATURES_SEL)"
    and "word (l1 s1) (Snap slot SNAP_OFF_DRV_FEAT) = word (l1 s) (Reg slot VIRTIO_MMIO_DRIVER_FEATURES)"
  using assms by (auto simp: poll_driver_features_def word_fold put_fold word_put split: if_splits)

lemma sel_generation_settles:
  assumes "slot < 32" "arrivals s = []" "run_state (poll_sel_generation slot) s = (u, s1)"
  shows "word (l1 s1) (Reg slot VIRTIO_MMIO_SEL_GENERATION) = word (l1 s1) (Snap slot SNAP_OFF_SEL_GEN_ECHO)"
    and "word (l1 s1) (Reg slot VIRTIO_MMIO_SEL_GENERATION) =
      (if word (l1 s) (Reg slot VIRTIO_MMIO_SEL_GENERATION) = word (l1 s) (Snap slot SNAP_OFF_SEL_GEN_ECHO)
       then word (l1 s) (Reg slot VIRTIO_MMIO_SEL_GENERATION)
       else word (l1 s) (Reg slot VIRTIO_MMIO_SEL_GENERATION) + 1)"
  using assms by (auto simp: poll_sel_generation_def word_fold put_fold word_put split: if_splits)

text \<open>The states between the segments of a poll.\<close>

lemma poll_stages:
  assumes "arrivals s = []" "slot < 32"
  obtains s1 s2 s3 s4 s5 s6 sel where
    "run_state (poll_status slot) s = ((), s1)" "arrivals s1 = []"
    "run_state (poll_queue_sel slot) s1 = (sel, s2)" "arrivals s2 = []"
    "run_state (poll_queue_ready slot sel) s2 = ((), s3)" "arrivals s3 = []"
    "run_state (poll_queue_notify slot) s3 = ((), s4)" "arrivals s4 = []"
    "run_state (poll_driver_features slot) s4 = ((), s5)" "arrivals s5 = []"
    "run_state (poll_sel_generation slot) s5 = ((), s6)" "arrivals s6 = []"
    "run_state (poll_one_device slot) s = ((), s6)"
proof -
  note k = poll_segments_keep [OF assms(2)]
  obtain s1 where 1: "run_state (poll_status slot) s = ((), s1)" by (cases "run_state (poll_status slot) s") simp
  note a1 = status_settles(1) [OF assms(2,1) 1]
  obtain sel s2 where 2: "run_state (poll_queue_sel slot) s1 = (sel, s2)" by (cases "run_state (poll_queue_sel slot) s1")
  note a2 = keepsD(1) [OF k(1) 2 a1]
  obtain s3 where 3: "run_state (poll_queue_ready slot sel) s2 = ((), s3)" by (cases "run_state (poll_queue_ready slot sel) s2") simp
  note a3 = keepsD(1) [OF k(2) 3 a2]
  obtain s4 where 4: "run_state (poll_queue_notify slot) s3 = ((), s4)" by (cases "run_state (poll_queue_notify slot) s3") simp
  note a4 = keepsD(1) [OF k(3) 4 a3]
  obtain s5 where 5: "run_state (poll_driver_features slot) s4 = ((), s5)" by (cases "run_state (poll_driver_features slot) s4") simp
  note a5 = keepsD(1) [OF k(4) 5 a4]
  obtain s6 where 6: "run_state (poll_sel_generation slot) s5 = ((), s6)" by (cases "run_state (poll_sel_generation slot) s5") simp
  note a6 = keepsD(1) [OF k(5) 6 a5]
  have run: "run_state (poll_one_device slot) s = ((), s6)"
    by (simp add: poll_one_device_def 1 2 3 4 5 6)
  show thesis by (rule that [OF 1 a1 2 a2 3 a3 4 a4 5 a5 6 a6 run])
qed

lemma poll_settles:
  assumes "arrivals s = []" "slot < 32"
  shows "settled slot (l1 (snd (run_state (poll_one_device slot) s)))"
    and "arrivals (snd (run_state (poll_one_device slot) s)) = []"
proof -
  obtain s1 s2 s3 s4 s5 s6 sel where
    1: "run_state (poll_status slot) s = ((), s1)" "arrivals s1 = []" and
    2: "run_state (poll_queue_sel slot) s1 = (sel, s2)" "arrivals s2 = []" and
    3: "run_state (poll_queue_ready slot sel) s2 = ((), s3)" "arrivals s3 = []" and
    4: "run_state (poll_queue_notify slot) s3 = ((), s4)" "arrivals s4 = []" and
    5: "run_state (poll_driver_features slot) s4 = ((), s5)" "arrivals s5 = []" and
    6: "run_state (poll_sel_generation slot) s5 = ((), s6)" "arrivals s6 = []" and
    run: "run_state (poll_one_device slot) s = ((), s6)"
    by (rule poll_stages [OF assms])
  note k = poll_segments_keep [OF assms(2)]
  note w2 = keepsD(2) [OF k(1) 2(1) 1(2)] and w3 = keepsD(2) [OF k(2) 3(1) 2(2)]
    and w4 = keepsD(2) [OF k(3) 4(1) 3(2)] and w5 = keepsD(2) [OF k(4) 5(1) 4(2)]
    and w6 = keepsD(2) [OF k(5) 6(1) 5(2)]
  show "arrivals (snd (run_state (poll_one_device slot) s)) = []" using run 6(2) by simp
  have "word (l1 s6) (Reg slot VIRTIO_MMIO_STATUS) = word (l1 s6) (Snap slot SNAP_OFF_STATUS)"
    using status_settles(2) [OF assms(2,1) 1(1)] assms(2) by (simp add: w2 w3 w4 w5 w6 image_iff)
  moreover have "word (l1 s6) (Reg slot VIRTIO_MMIO_QUEUE_SEL) = word (l1 s6) (Snap slot SNAP_OFF_QUEUE_SEL)"
    using queue_sel_settles [OF assms(2) 1(2) 2(1)] assms(2) by (simp add: w2 w3 w4 w5 w6 image_iff)
  moreover have "word (l1 s6) (Reg slot VIRTIO_MMIO_QUEUE_READY) = 0"
    using queue_ready_settles [OF assms(2) 2(2) 3(1)] assms(2) by (simp add: w4 w5 w6 image_iff)
  moreover have "word (l1 s6) (Reg slot VIRTIO_MMIO_QUEUE_NOTIFY) = 0xFFFFFFFF"
    using queue_notify_settles [OF assms(2) 3(2) 4(1)] assms(2) by (simp add: w5 w6)
  moreover have "word (l1 s6) (Reg slot VIRTIO_MMIO_DRIVER_FEATURES_SEL) = word (l1 s6) (Snap slot SNAP_OFF_DRV_FEAT_SEL)"
    "word (l1 s6) (Reg slot VIRTIO_MMIO_DRIVER_FEATURES) = word (l1 s6) (Snap slot SNAP_OFF_DRV_FEAT)"
    using driver_features_settles [OF assms(2) 4(2) 5(1)] assms(2) by (simp_all add: w5 w6)
  moreover have "word (l1 s6) (Reg slot VIRTIO_MMIO_SEL_GENERATION) = word (l1 s6) (Snap slot SNAP_OFF_SEL_GEN_ECHO)"
    using sel_generation_settles(1) [OF assms(2) 5(2) 6(1)] .
  ultimately show "settled slot (l1 (snd (run_state (poll_one_device slot) s)))"
    unfolding run snd_conv settled_def by blast
qed

text \<open>
  A poll settles its slot. With quiet guests, after one poll every trigger register agrees with
  its snapshot, QUEUE_READY reads 0 and QUEUE_NOTIFY holds the sentinel; polling again changes
  nothing.
\<close>

theorem poll_settles_once:
  assumes "arrivals s = []" "slot < 32"
  shows "let s1 = snd (run_state (poll_one_device slot) s)
    in settled slot (l1 s1) \<and> run_state (poll_one_device slot) s1 = ((), s1)"
  using poll_settles [OF assms] poll_settled by (simp add: Let_def)

theorem poll_settles_once_witness:
  "let s = demo_fw\<lparr>l1 := put (Reg 3 VIRTIO_MMIO_QUEUE_NOTIFY) 0 zero_l1\<rparr>;
       s1 = snd (run_state (poll_one_device 3) s)
   in word (l1 s1) (Reg 3 VIRTIO_MMIO_QUEUE_NOTIFY) = 0xFFFFFFFF \<and> run_state (poll_one_device 3) s1 = ((), s1)"
  using poll_settles_once [of "demo_fw\<lparr>l1 := put (Reg 3 VIRTIO_MMIO_QUEUE_NOTIFY) 0 zero_l1\<rparr>" 3]
  by (simp add: Let_def settled_def)

section \<open>What a poll does\<close>

lemma run_read_fields [simp]:
  "arrivals s = [] \<Longrightarrow> run_state (read_fields slot fs) s = (map (\<lambda>(r, f). word (l1 s) (Reg slot r)) fs, s)"
  by (induction slot fs rule: read_fields.induct) (simp_all add: word_fold)

lemma run_write_fields [simp]:
  "arrivals s = [] \<Longrightarrow> run_state (write_fields slot q vs) s =
     ((), s\<lparr>l1 := fold (\<lambda>((r, f), v). put (Shadow slot q f) v) (zip FIELDS vs) (l1 s)\<rparr>)"
  unfolding write_fields_def by (rule run_for_each) (auto simp: put_fold)

text \<open>The setup fields of a queue, as one value: the registers that show them and their shadow.\<close>

definition setup_regs :: "guest_mem \<Rightarrow> nat \<Rightarrow> u32 list" where
  "setup_regs m slot = map (\<lambda>(r, f). word m (Reg slot r)) FIELDS"

definition setup_shadow :: "guest_mem \<Rightarrow> nat \<Rightarrow> nat \<Rightarrow> u32 list" where
  "setup_shadow m slot q = map (\<lambda>(r, f). word m (Shadow slot q f)) FIELDS"

lemma word_write_fields:
  assumes "slot < 32" "q < 8" "cell_ok c" "cell_size c = 4" "length vs = 7"
  shows "(\<forall>f. c \<noteq> Shadow slot q f) \<or> c = Shadow slot q SHADOW_Q_OFF_READY \<Longrightarrow>
      word (fold (\<lambda>((r, f), v). put (Shadow slot q f) v) (zip FIELDS vs) m) c = word m c"
    and "setup_shadow (fold (\<lambda>((r, f), v). put (Shadow slot q f) v) (zip FIELDS vs) m) slot q = vs"
proof -
  obtain v0 v1 v2 v3 v4 v5 v6 where vs: "vs = [v0, v1, v2, v3, v4, v5, v6]"
    using assms(5) by (auto simp: numeral_eq_Suc length_Suc_conv)
  show "setup_shadow (fold (\<lambda>((r, f), v). put (Shadow slot q f) v) (zip FIELDS vs) m) slot q = vs"
    using assms(1,2) by (simp add: setup_shadow_def FIELDS_def vs word_put)
  show "(\<forall>f. c \<noteq> Shadow slot q f) \<or> c = Shadow slot q SHADOW_Q_OFF_READY \<Longrightarrow>
      word (fold (\<lambda>((r, f), v). put (Shadow slot q f) v) (zip FIELDS vs) m) c = word m c"
    using assms(1-4) by (auto simp: FIELDS_def vs word_put)
qed

lemma setup_shadow_cong:
  "(\<And>f. f \<noteq> SHADOW_Q_OFF_READY \<Longrightarrow> word m' (Shadow slot q f) = word m (Shadow slot q f)) \<Longrightarrow>
   setup_shadow m' slot q = setup_shadow m slot q"
  by (simp add: setup_shadow_def FIELDS_def)

text \<open>Only QUEUE_READY and QUEUE_NOTIFY may be pending: the first two segments then do nothing.\<close>

lemma run_sel_same:
  assumes "arrivals s = []"
    and "word (l1 s) (Reg slot VIRTIO_MMIO_STATUS) = word (l1 s) (Snap slot SNAP_OFF_STATUS)"
    and "word (l1 s) (Reg slot VIRTIO_MMIO_QUEUE_SEL) = word (l1 s) (Snap slot SNAP_OFF_QUEUE_SEL)"
  shows "run_state (poll_status slot) s = ((), s)"
    and "run_state (poll_queue_sel slot) s = (word (l1 s) (Reg slot VIRTIO_MMIO_QUEUE_SEL), s)"
  using assms by (simp_all add: run_status poll_queue_sel_def word_fold)

lemma run_ready_change:
  assumes "arrivals s = []" "unat sel < 8" "ready \<noteq> 0" "slot < 32"
    and "word (l1 s) (Reg slot VIRTIO_MMIO_QUEUE_SEL) = sel"
    and run: "run_state (handle_queue_ready_change slot sel ready) s = (u, s')"
  shows "setup_shadow (l1 s') slot (unat sel) = setup_regs (l1 s) slot"
    and "word (l1 s') (Shadow slot (unat sel) SHADOW_Q_OFF_READY) = ready"
    and "q < 8 \<Longrightarrow> q \<noteq> unat sel \<Longrightarrow> word (l1 s') (Shadow slot q f) = word (l1 s) (Shadow slot q f)"
    and "arrivals s' = []"
proof -
  let ?m1 = "fold (\<lambda>((r, f), v). put (Shadow slot (unat sel) f) v) (zip FIELDS (setup_regs (l1 s) slot)) (l1 s)"
  let ?m2 = "put (Stat STATS_OFF_QUEUE_SETUPS) (word ?m1 (Stat STATS_OFF_QUEUE_SETUPS) + 1) ?m1"
  let ?m3 = "put (Shadow slot (unat sel) SHADOW_Q_OFF_READY) ready ?m2"
  let ?m4 = "put (Stat STATS_OFF_READY_EVENTS) (word ?m3 (Stat STATS_OFF_READY_EVENTS) + 1) ?m3"
  have s': "s' = s\<lparr>l1 := ?m4\<rparr>"
    using assms by (simp add: handle_queue_ready_change_def word_fold put_fold layout_defs flip: setup_regs_def)
  have len: "length (setup_regs (l1 s) slot) = 7" by (simp add: setup_regs_def FIELDS_def)
  have "setup_shadow ?m4 slot (unat sel) = setup_shadow ?m1 slot (unat sel)"
    using assms(2,4) by (intro setup_shadow_cong) (simp add: word_put)
  then show "setup_shadow (l1 s') slot (unat sel) = setup_regs (l1 s) slot"
    using word_write_fields(2) [OF assms(4,2) _ _ len, of "Stat STATS_OFF_VERSION"] by (simp add: s')
  show "word (l1 s') (Shadow slot (unat sel) SHADOW_Q_OFF_READY) = ready"
    using assms(2,4) by (simp add: s' word_put)
  show "word (l1 s') (Shadow slot q f) = word (l1 s) (Shadow slot q f)" if "q < 8" "q \<noteq> unat sel"
    using that assms(2,4) word_write_fields(1) [OF assms(4,2) _ _ len, of "Shadow slot q f"]
    by (simp add: s' word_put)
  show "arrivals s' = []" using assms(1) by (simp add: s')
qed

text \<open>The last three segments of a poll, which leave the shadow alone.\<close>

lemma tail_keeps:
  assumes "slot < 32"
  shows "state_io_rel (keeps ({Reg slot VIRTIO_MMIO_QUEUE_NOTIFY, Snap slot SNAP_OFF_DRV_FEAT_SEL, Snap slot SNAP_OFF_DRV_FEAT,
      Reg slot VIRTIO_MMIO_SEL_GENERATION, Snap slot SNAP_OFF_SEL_GEN_ECHO} \<union> range Stat) ({slot} \<times> UNIV)) (do {
      poll_queue_notify slot; poll_driver_features slot; poll_sel_generation slot })"
  by (intro words.bind_frame words.queue_notify_frame words.driver_features_frame words.sel_generation_frame okw_cell okb_dirty)
    (use assms in auto)

text \<open>
  Queue setup. When the guest has written the setup registers of the selected queue and then
  QUEUE_READY, one poll copies all seven setup registers into the queue's shadow, records READY, clears
  the visible QUEUE_READY, and leaves the shadows of the slot's other queues alone.
\<close>

theorem queue_setup_captured:
  assumes "slot < 32" "arrivals s = []"
    and "word (l1 s) (Reg slot VIRTIO_MMIO_STATUS) = word (l1 s) (Snap slot SNAP_OFF_STATUS)"
    and sel: "word (l1 s) (Reg slot VIRTIO_MMIO_QUEUE_SEL) = sel" "word (l1 s) (Snap slot SNAP_OFF_QUEUE_SEL) = sel"
      "unat sel < 8"
    and ready: "word (l1 s) (Reg slot VIRTIO_MMIO_QUEUE_READY) = ready" "ready \<noteq> 0"
  shows "let m' = l1 (snd (run_state (poll_one_device slot) s))
    in setup_shadow m' slot (unat sel) = setup_regs (l1 s) slot \<and>
       word m' (Shadow slot (unat sel) SHADOW_Q_OFF_READY) = ready \<and>
       word m' (Reg slot VIRTIO_MMIO_QUEUE_READY) = 0 \<and>
       (\<forall>q < 8. \<forall>f. q \<noteq> unat sel \<longrightarrow> word m' (Shadow slot q f) = word (l1 s) (Shadow slot q f))"
proof -
  have same: "word (l1 s) (Reg slot VIRTIO_MMIO_QUEUE_SEL) = word (l1 s) (Snap slot SNAP_OFF_QUEUE_SEL)"
    using sel by simp
  obtain t where t: "run_state (handle_queue_ready_change slot sel ready) s = ((), t)"
    by (cases "run_state (handle_queue_ready_change slot sel ready) s") simp
  note r = run_ready_change [OF assms(2) sel(3) ready(2) assms(1) sel(1) t]
  let ?s3 = "t\<lparr>l1 := put (Reg slot VIRTIO_MMIO_QUEUE_READY) 0 (l1 t)\<rparr>"
  have 3: "run_state (poll_queue_ready slot sel) s = ((), ?s3)"
    using assms(2) ready t r(4) by (simp add: poll_queue_ready_def word_fold put_fold)
  obtain s6 where 6: "run_state (do { poll_queue_notify slot; poll_driver_features slot; poll_sel_generation slot }) ?s3 = ((), s6)"
    by (cases "run_state (do { poll_queue_notify slot; poll_driver_features slot; poll_sel_generation slot }) ?s3") simp
  have w6: "cell_ok c \<Longrightarrow> cell_size c = 4 \<Longrightarrow> c \<notin> {Reg slot VIRTIO_MMIO_QUEUE_NOTIFY, Snap slot SNAP_OFF_DRV_FEAT_SEL, Snap slot SNAP_OFF_DRV_FEAT,
      Reg slot VIRTIO_MMIO_SEL_GENERATION, Snap slot SNAP_OFF_SEL_GEN_ECHO} \<union> range Stat \<Longrightarrow> word (l1 s6) c = word (l1 ?s3) c" for c
    using keepsD(2) [OF tail_keeps [OF assms(1)] 6] r(4) by simp
  have run: "snd (run_state (poll_one_device slot) s) = s6"
    using run_sel_same [OF assms(2,3) same] sel(1) 6 by (simp add: poll_one_device_def 3)
  have w: "word (l1 s6) (Shadow slot q f) = word (l1 t) (Shadow slot q f)" if "q < 8" for q f
    using that assms(1) by (simp add: w6 image_iff word_put)
  then have "setup_shadow (l1 s6) slot (unat sel) = setup_shadow (l1 t) slot (unat sel)"
    using sel(3) by (intro setup_shadow_cong) simp
  moreover have "word (l1 s6) (Reg slot VIRTIO_MMIO_QUEUE_READY) = 0"
    using assms(1) by (simp add: w6 image_iff word_put)
  ultimately show ?thesis using r(1-3) w sel(3) by (simp add: run Let_def)
qed

text \<open>A guest that has set up queue 1 of slot 1 and written QUEUE_READY.\<close>

definition demo_setup :: fw where
  "demo_setup = demo_fw\<lparr>l1 :=
     put (Reg 1 VIRTIO_MMIO_QUEUE_READY) 1 (put (Reg 1 VIRTIO_MMIO_QUEUE_NUM) 256
     (put (Reg 1 VIRTIO_MMIO_QUEUE_DESC_LOW) 0x1000 (put (Reg 1 VIRTIO_MMIO_QUEUE_DESC_HIGH) 0x4000
     (put (Reg 1 VIRTIO_MMIO_QUEUE_SEL) 1 (put (Snap 1 SNAP_OFF_QUEUE_SEL) 1 zero_l1)))))\<rparr>"

theorem queue_setup_captured_witness:
  "setup_shadow (l1 (snd (run_state (poll_one_device 1) demo_setup))) 1 1 = [256, 0x1000, 0x4000, 0, 0, 0, 0]"
proof -
  have "setup_regs (l1 demo_setup) 1 = [256, 0x1000, 0x4000, 0, 0, 0, 0]"
    by (simp add: setup_regs_def FIELDS_def demo_setup_def word_put)
  moreover have "setup_shadow (l1 (snd (run_state (poll_one_device 1) demo_setup))) 1 (unat (1 :: u32)) = setup_regs (l1 demo_setup) 1"
    using queue_setup_captured [of 1 demo_setup 1 1] by (simp add: demo_setup_def word_put Let_def)
  ultimately show ?thesis by simp
qed

text \<open>
  Notifications. When the guest has written a queue index into QUEUE_NOTIFY, one poll sets the
  dirty byte of exactly that queue (none, if the index is not below 8) and puts the sentinel back.
\<close>

theorem notify_sets_dirty:
  assumes "slot < 32" "arrivals s = []"
    and "word (l1 s) (Reg slot VIRTIO_MMIO_STATUS) = word (l1 s) (Snap slot SNAP_OFF_STATUS)"
    and q: "word (l1 s) (Reg slot VIRTIO_MMIO_QUEUE_NOTIFY) = q" "q \<noteq> 0xFFFFFFFF"
  shows "let m' = l1 (snd (run_state (poll_one_device slot) s))
    in (\<forall>sl < 32. \<forall>p < 8. dirty_byte m' sl p = (if sl = slot \<and> p = unat q then 1 else dirty_byte (l1 s) sl p)) \<and>
       word m' (Reg slot VIRTIO_MMIO_QUEUE_NOTIFY) = 0xFFFFFFFF"
proof -
  obtain s1 s2 s3 s4 s5 s6 sel where
    1: "run_state (poll_status slot) s = ((), s1)" "arrivals s1 = []" and
    2: "run_state (poll_queue_sel slot) s1 = (sel, s2)" "arrivals s2 = []" and
    3: "run_state (poll_queue_ready slot sel) s2 = ((), s3)" "arrivals s3 = []" and
    4: "run_state (poll_queue_notify slot) s3 = ((), s4)" "arrivals s4 = []" and
    5: "run_state (poll_driver_features slot) s4 = ((), s5)" "arrivals s5 = []" and
    6: "run_state (poll_sel_generation slot) s5 = ((), s6)" "arrivals s6 = []" and
    run: "run_state (poll_one_device slot) s = ((), s6)"
    by (rule poll_stages [OF assms(2,1)])
  note k = poll_segments_keep [OF assms(1)]
  have s1: "s1 = s" using 1(1) assms(2,3) by (simp add: run_status)
  have n3: "word (l1 s3) (Reg slot VIRTIO_MMIO_QUEUE_NOTIFY) = q"
    using keepsD(2) [OF k(1) 2(1) 1(2)] keepsD(2) [OF k(2) 3(1) 2(2)] assms(1) q(1)
    by (simp add: s1 image_iff)
  have d3: "dirty_byte (l1 s3) sl p = dirty_byte (l1 s) sl p" if "sl < 32" "p < 8" for sl p
    using keepsD(3) [OF k(1) 2(1) 1(2) that] keepsD(3) [OF k(2) 3(1) 2(2) that] by (simp add: s1)
  have d4: "dirty_byte (l1 s4) sl p = (if sl = slot \<and> p = unat q then 1 else dirty_byte (l1 s3) sl p)"
    if "sl < 32" "p < 8" for sl p
    using 4(1) 3(2) n3 q(2) that assms(1)
    by (auto simp: poll_queue_notify_def word_fold put_fold run_notify Let_def dirty_put dirty_put_dirty)
  have "dirty_byte (l1 s6) sl p = dirty_byte (l1 s4) sl p" if "sl < 32" "p < 8" for sl p
    using keepsD(3) [OF k(4) 5(1) 4(2) that] keepsD(3) [OF k(5) 6(1) 5(2) that] by simp
  moreover have "word (l1 s6) (Reg slot VIRTIO_MMIO_QUEUE_NOTIFY) = 0xFFFFFFFF"
    using poll_settles(1) [OF assms(2,1)] by (simp add: run settled_def)
  ultimately show ?thesis using d4 d3 by (simp add: run Let_def)
qed

theorem notify_sets_dirty_witness:
  "let m' = l1 (snd (run_state (poll_one_device 9) (demo_fw\<lparr>l1 := put (Reg 9 VIRTIO_MMIO_QUEUE_NOTIFY) 1 zero_l1\<rparr>)))
   in dirty_byte m' 9 1 = 1 \<and> dirty_byte m' 9 0 = 0"
proof -
  have "dirty_byte (put (Reg 9 VIRTIO_MMIO_QUEUE_NOTIFY) 1 zero_l1) 9 0 = 0"
    by (simp add: dirty_put) (simp add: dirty_byte_def zero_l1_def)
  then show ?thesis
    using notify_sets_dirty [of 9 "demo_fw\<lparr>l1 := put (Reg 9 VIRTIO_MMIO_QUEUE_NOTIFY) 1 zero_l1\<rparr>" 1]
    by (simp add: Let_def word_put)
qed

lemma run_mcycle [simp]:
  "run_state mcycle_low s = ((case mcycle s of [] \<Rightarrow> 0 | t # _ \<Rightarrow> t), s\<lparr>mcycle := tl (mcycle s)\<rparr>)"
  by (cases "mcycle s") (simp_all add: mcycle_low_def)

lemma sel_change_rescues:
  assumes "slot < 32" "arrivals s = []"
    and sel: "unat old < 8" "word (l1 s) (Reg slot VIRTIO_MMIO_QUEUE_SEL) = sel" "unat sel < 8"
    and missed: "word (l1 s) (Shadow slot (unat old) SHADOW_Q_OFF_READY) = 0"
    and sized: "word (l1 s) (Reg slot VIRTIO_MMIO_QUEUE_NUM) \<noteq> 0"
    and run: "run_state (handle_queue_sel_change slot old sel) s = ((), t)"
  shows "arrivals t = []" "word (l1 t) (Reg slot VIRTIO_MMIO_QUEUE_READY) = 0"
    and "setup_shadow (l1 t) slot (unat old) = setup_regs (l1 s) slot"
    and "word (l1 t) (Shadow slot (unat old) SHADOW_Q_OFF_READY) = 1"
proof -
  let ?rest = "\<lambda>b. do { swap_queue_regs slot sel; when_m (b \<noteq> 0) (inc_stat STATS_OFF_SEL_READY_RACES); inc_stat STATS_OFF_SEL_CHANGES }"
  have k1: "state_io_rel (keeps (insert (Reg slot VIRTIO_MMIO_QUEUE_READY) (range Stat)) {}) (clear_queue_ready slot)"
    unfolding clear_queue_ready_def by (intro words.frame_rules okw_cell) (use assms(1) in auto)
  have k3: "state_io_rel (keeps ({Reg slot VIRTIO_MMIO_QUEUE_NUM_MAX, Reg slot VIRTIO_MMIO_QUEUE_NUM} \<union> range Stat) {}) (?rest b)" for b
    unfolding swap_queue_regs_def Let_def by (intro words.frame_rules okw_cell) (use assms(1) in auto)
  obtain b t1 where r1: "run_state (clear_queue_ready slot) s = (b, t1)"
    by (cases "run_state (clear_queue_ready slot) s")
  note a1 = keepsD(1) [OF k1 r1 assms(2)] and w1 = keepsD(2) [OF k1 r1 assms(2)]
  have z1: "word (l1 t1) (Reg slot VIRTIO_MMIO_QUEUE_READY) = 0"
    using r1 assms(1,2) by (auto simp: clear_queue_ready_def put_fold word_put)
  have regs: "map (\<lambda>(r, f). word (l1 t1) (Reg slot r)) FIELDS = setup_regs (l1 s) slot"
    using assms(1) by (simp add: setup_regs_def FIELDS_def w1 image_iff)
  have c0: "setup_regs (l1 s) slot ! 0 \<noteq> 0" and len: "length (setup_regs (l1 s) slot) = 7"
    using sized by (simp_all add: setup_regs_def FIELDS_def)
  let ?m2 = "fold (\<lambda>((r, f), v). put (Shadow slot (unat old) f) v) (zip FIELDS (setup_regs (l1 s) slot)) (l1 t1)"
  let ?m3 = "put (Shadow slot (unat old) SHADOW_Q_OFF_READY) 1 ?m2"
  let ?m4 = "put (Stat STATS_OFF_BRISC_OLD_SEL_RESCUE) (word ?m3 (Stat STATS_OFF_BRISC_OLD_SEL_RESCUE) + 1) ?m3"
  have "word (l1 t1) (Shadow slot (unat old) SHADOW_Q_OFF_READY) = 0"
    "word (l1 t1) (Reg slot VIRTIO_MMIO_QUEUE_SEL) = sel"
    using missed sel assms(1) by (simp_all add: w1 image_iff)
  then have r2: "run_state (rescue_old_sel slot old sel) t1 = ((), t1\<lparr>l1 := ?m4\<rparr>)"
    using a1 sel(1) c0 by (simp add: rescue_old_sel_def word_fold put_fold layout_defs regs)
  have r3: "run_state (?rest b) (t1\<lparr>l1 := ?m4\<rparr>) = ((), t)"
    using run sel(3) by (simp add: handle_queue_sel_change_def r1 r2 layout_defs)
  have a2: "arrivals (t1\<lparr>l1 := ?m4\<rparr>) = []" using a1 by simp
  note w3 = keepsD(2) [OF k3 r3 a2]
  show "arrivals t = []" by (rule keepsD(1) [OF k3 r3 a2])
  show "word (l1 t) (Reg slot VIRTIO_MMIO_QUEUE_READY) = 0"
    using assms(1) sel(1) z1 word_write_fields(1) [OF assms(1) sel(1) _ _ len, of "Reg slot VIRTIO_MMIO_QUEUE_READY" "l1 t1"]
    by (simp add: w3 word_put image_iff)
  have "setup_shadow (l1 t) slot (unat old) = setup_shadow ?m2 slot (unat old)"
    using assms(1) sel(1) by (intro setup_shadow_cong) (simp add: w3 word_put image_iff)
  then show "setup_shadow (l1 t) slot (unat old) = setup_regs (l1 s) slot"
    using word_write_fields(2) [OF assms(1) sel(1) _ _ len, of "Stat STATS_OFF_VERSION"] by simp
  show "word (l1 t) (Shadow slot (unat old) SHADOW_Q_OFF_READY) = 1"
    using assms(1) sel(1) by (simp add: w3 word_put image_iff)
qed

text \<open>
  The rescue of a queue whose READY the poll missed. When the guest has set up the queue it had
  selected and has already selected another one, the poll stores the setup registers into the shadow
  of the first queue and marks it ready. It does so even if QUEUE_READY was never written.
\<close>

theorem queue_setup_rescued:
  assumes "slot < 32" "arrivals s = []"
    and "word (l1 s) (Reg slot VIRTIO_MMIO_STATUS) = word (l1 s) (Snap slot SNAP_OFF_STATUS)"
    and sel: "word (l1 s) (Snap slot SNAP_OFF_QUEUE_SEL) = old" "unat old < 8"
      "word (l1 s) (Reg slot VIRTIO_MMIO_QUEUE_SEL) = sel" "unat sel < 8" "sel \<noteq> old"
    and missed: "word (l1 s) (Shadow slot (unat old) SHADOW_Q_OFF_READY) = 0"
    and sized: "word (l1 s) (Reg slot VIRTIO_MMIO_QUEUE_NUM) \<noteq> 0"
  shows "let m' = l1 (snd (run_state (poll_one_device slot) s))
    in setup_shadow m' slot (unat old) = setup_regs (l1 s) slot \<and>
       word m' (Shadow slot (unat old) SHADOW_Q_OFF_READY) = 1"
proof -
  obtain t where t: "run_state (handle_queue_sel_change slot old sel) s = ((), t)"
    by (cases "run_state (handle_queue_sel_change slot old sel) s") simp
  note r = sel_change_rescues [OF assms(1,2) sel(2,3,4) missed sized t]
  let ?s2 = "t\<lparr>l1 := put (Snap slot SNAP_OFF_QUEUE_SEL) sel (l1 t)\<rparr>"
  have 2: "run_state (poll_queue_sel slot) s = (sel, ?s2)"
    using sel assms(2) t r(1) by (simp add: poll_queue_sel_def word_fold put_fold)
  have 3: "run_state (poll_queue_ready slot sel) ?s2 = ((), ?s2)"
    using r(1,2) assms(1) by (simp add: poll_queue_ready_def word_fold word_put)
  obtain s6 where 6: "run_state (do { poll_queue_notify slot; poll_driver_features slot; poll_sel_generation slot }) ?s2 = ((), s6)"
    by (cases "run_state (do { poll_queue_notify slot; poll_driver_features slot; poll_sel_generation slot }) ?s2") simp
  have w6: "word (l1 s6) (Shadow slot (unat old) f) = word (l1 t) (Shadow slot (unat old) f)" for f
    using keepsD(2) [OF tail_keeps [OF assms(1)] 6, of "Shadow slot (unat old) f"] r(1) assms(1) sel(2)
    by (simp add: image_iff word_put)
  have run: "snd (run_state (poll_one_device slot) s) = s6"
    using 6 assms(2,3) by (simp add: poll_one_device_def run_status 2 3)
  have "setup_shadow (l1 s6) slot (unat old) = setup_shadow (l1 t) slot (unat old)"
    by (intro setup_shadow_cong) (rule w6)
  with r(3,4) w6 show ?thesis by (simp add: run Let_def)
qed

text \<open>The setup of queue 0, never made ready, with queue 1 selected meanwhile.\<close>

definition demo_moved_on :: fw where
  "demo_moved_on = demo_fw\<lparr>l1 :=
     put (Reg 1 VIRTIO_MMIO_QUEUE_NUM) 64 (put (Reg 1 VIRTIO_MMIO_QUEUE_SEL) 1 zero_l1)\<rparr>"

theorem queue_setup_rescued_witness:
  "word (l1 demo_moved_on) (Reg 1 VIRTIO_MMIO_QUEUE_READY) = 0 \<and>
   word (l1 (snd (run_state (poll_one_device 1) demo_moved_on))) (Shadow 1 0 SHADOW_Q_OFF_READY) = 1"
  using queue_setup_rescued [of 1 demo_moved_on 0 1] by (simp add: demo_moved_on_def word_put Let_def)

end
