(* ===== verification/Firmware_Races.thy ===== *)
theory Firmware_Races
  imports Firmware_Props
begin

text \<open>
  The firmware with guests that store while it polls, and the parts of it that run beside the poll:
  the sweep over the active slots, the reset lines of the TRISC cores, the feature selector watched by
  TRISC2, and the hello of the daemon.
\<close>

section \<open>Stores that arrive during a poll\<close>

lemma run_access_empty:
  assumes "arrivals s = [] # rest"
  shows "run_state (read_u32 a) s = (gm_u32 (l1 s) a, s\<lparr>arrivals := rest\<rparr>)"
    and "run_state (write_u32 a v) s = ((), s\<lparr>l1 := gm_store a (le_bytes 4 v) (l1 s), arrivals := rest\<rparr>)"
    and "run_state (write_u8 a b) s = ((), s\<lparr>l1 := gm_store a [b] (l1 s), arrivals := rest\<rparr>)"
  using assms by (simp_all add: read_u32_def write_u32_def write_u8_def arrive_def)

lemma run_access_store:
  assumes "arrivals s = [(a', v')] # rest"
  shows "run_state (read_u32 a) s = (gm_u32 (gm_store a' (le_bytes 4 v') (l1 s)) a,
      s\<lparr>l1 := gm_store a' (le_bytes 4 v') (l1 s), arrivals := rest\<rparr>)"
    and "run_state (write_u32 a v) s =
      ((), s\<lparr>l1 := gm_store a (le_bytes 4 v) (gm_store a' (le_bytes 4 v') (l1 s)), arrivals := rest\<rparr>)"
  using assms by (simp_all add: read_u32_def write_u32_def arrive_def)

lemma rest_keeps:
  assumes "slot < 32"
  shows "state_io_rel (keeps {Snap slot SNAP_OFF_DRV_FEAT_SEL, Snap slot SNAP_OFF_DRV_FEAT,
      Reg slot VIRTIO_MMIO_SEL_GENERATION, Snap slot SNAP_OFF_SEL_GEN_ECHO} {}) (do {
      poll_driver_features slot; poll_sel_generation slot })"
  by (intro words.bind_frame words.driver_features_frame words.sel_generation_frame okw_cell) (use assms in auto)

text \<open>
  A notification can be lost. The guest has notified queue \<open>q\<close>; its next store to QUEUE_NOTIFY
  lands after the poll has read the register and before the poll puts the sentinel back. The poll then
  overwrites it: the register holds the sentinel again and no dirty byte other than that of \<open>q\<close> has
  changed.
\<close>

theorem notify_lost:
  assumes "slot < 32"
    and "word (l1 s) (Reg slot VIRTIO_MMIO_STATUS) = word (l1 s) (Snap slot SNAP_OFF_STATUS)"
    and "word (l1 s) (Reg slot VIRTIO_MMIO_QUEUE_SEL) = word (l1 s) (Snap slot SNAP_OFF_QUEUE_SEL)"
    and "word (l1 s) (Reg slot VIRTIO_MMIO_QUEUE_READY) = 0"
    and q: "word (l1 s) (Reg slot VIRTIO_MMIO_QUEUE_NOTIFY) = q" "unat q < 8"
    and arr: "arrivals s = [[], [], [], [], [], [], [], [], [], [], [(reg_addr slot VIRTIO_MMIO_QUEUE_NOTIFY, p)]]"
  shows "let m' = l1 (snd (run_state (poll_one_device slot) s))
    in word m' (Reg slot VIRTIO_MMIO_QUEUE_NOTIFY) = 0xFFFFFFFF \<and>
       (\<forall>p' < 8. p' \<noteq> unat q \<longrightarrow> dirty_byte m' slot p' = dirty_byte (l1 s) slot p')"
proof -
  have qs: "q \<noteq> 0xFFFFFFFF" using q(2) by auto
  have mq: "MAX_QUEUES_PER_SLOT = 8" by (simp add: layout_defs)
  have d: "gm_store (ctrl_addr (CTRL_OFF_DIRTY + slot * 8 + unat q)) [1] m = put_dirty slot (unat q) 1 m" for m
    by (simp add: put_dirty_def cell_addr.simps mq)
  let ?m1 = "put_dirty slot (unat q) 1 (put (Stat STATS_OFF_LAST_NOTIFY) (push_bit 16 (word_of_nat slot) OR (q AND 0xFFFF)) (l1 s))"
  let ?m2 = "put (Stat STATS_OFF_NOTIFY_EVENTS) (word ?m1 (Stat STATS_OFF_NOTIFY_EVENTS) + 1) ?m1"
  let ?m3 = "put (Reg slot VIRTIO_MMIO_QUEUE_NOTIFY) 0xFFFFFFFF (put (Reg slot VIRTIO_MMIO_QUEUE_NOTIFY) p ?m2)"
  let ?s4 = "s\<lparr>l1 := ?m3, arrivals := []\<rparr>"
  let ?rest = "do { poll_driver_features slot; poll_sel_generation slot }"
  have "run_state (poll_one_device slot) s = run_state ?rest ?s4"
    using assms(2-4) q(1) qs q(2) arr
    by (simp add: poll_one_device_def poll_status_def poll_queue_sel_def poll_queue_ready_def poll_queue_notify_def
        handle_queue_notify_def inc_stat_def run_access_empty run_access_store word_fold put_fold mq d)
  moreover obtain s6 where s6: "run_state ?rest ?s4 = ((), s6)" by (cases "run_state ?rest ?s4") simp
  ultimately have run: "snd (run_state (poll_one_device slot) s) = s6" by simp
  note k = keepsD(2,3) [OF rest_keeps [OF assms(1)] s6]
  have "word (l1 s6) (Reg slot VIRTIO_MMIO_QUEUE_NOTIFY) = 0xFFFFFFFF"
    using k(1) assms(1) by (simp add: word_put)
  moreover have "dirty_byte (l1 s6) slot p' = dirty_byte (l1 s) slot p'" if "p' < 8" "p' \<noteq> unat q" for p'
    using k(2) [of slot p'] that assms(1) q(2) by (simp add: dirty_put dirty_put_dirty)
  ultimately show ?thesis by (simp add: run Let_def)
qed

theorem notify_lost_witness:
  "let s = demo_fw\<lparr>arrivals := [[], [], [], [], [], [], [], [], [], [], [(reg_addr 1 VIRTIO_MMIO_QUEUE_NOTIFY, 1)]]\<rparr>;
       m' = l1 (snd (run_state (poll_one_device 1) s))
   in word m' (Reg 1 VIRTIO_MMIO_QUEUE_NOTIFY) = 0xFFFFFFFF \<and> dirty_byte m' 1 1 = 0"
proof -
  have "dirty_byte zero_l1 1 1 = 0" by (simp add: dirty_byte_def zero_l1_def)
  then show ?thesis
    using notify_lost [of 1 "demo_fw\<lparr>arrivals := [[], [], [], [], [], [], [], [], [], [], [(reg_addr 1 VIRTIO_MMIO_QUEUE_NOTIFY, 1)]]\<rparr>" 0 1]
    by (simp add: Let_def)
qed

text \<open>
  A capture that is given up still marks the queue ready. When QUEUE_SEL changes while the poll
  reads the setup registers, none of the seven setup fields is stored, but the shadow's READY is set:
  the queue counts as ready with the setup it had before.
\<close>

theorem aborted_capture_marks_ready:
  assumes "slot < 32"
    and "word (l1 s) (Reg slot VIRTIO_MMIO_STATUS) = word (l1 s) (Snap slot SNAP_OFF_STATUS)"
    and sel: "word (l1 s) (Reg slot VIRTIO_MMIO_QUEUE_SEL) = sel" "word (l1 s) (Snap slot SNAP_OFF_QUEUE_SEL) = sel"
      "unat sel < 8" "sel' \<noteq> sel"
    and ready: "word (l1 s) (Reg slot VIRTIO_MMIO_QUEUE_READY) = ready" "ready \<noteq> 0"
    and arr: "arrivals s = [[], [], [], [], [], [], [], [], [], [], [], [], [(reg_addr slot VIRTIO_MMIO_QUEUE_SEL, sel')]]"
  shows "let m' = l1 (snd (run_state (poll_one_device slot) s))
    in word m' (Shadow slot (unat sel) SHADOW_Q_OFF_READY) = ready \<and>
       setup_shadow m' slot (unat sel) = setup_shadow (l1 s) slot (unat sel)"
proof -
  have mq: "BRISC_VIRTIO_MAX_QUEUES = 8" by (simp add: layout_defs)
  let ?m1 = "put (Reg slot VIRTIO_MMIO_QUEUE_SEL) sel' (l1 s)"
  let ?m2 = "put (Stat STATS_OFF_READY_CAPTURE_SEL_RACES) (word ?m1 (Stat STATS_OFF_READY_CAPTURE_SEL_RACES) + 1) ?m1"
  let ?m3 = "put (Shadow slot (unat sel) SHADOW_Q_OFF_READY) ready ?m2"
  let ?m4 = "put (Stat STATS_OFF_READY_EVENTS) (word ?m3 (Stat STATS_OFF_READY_EVENTS) + 1) ?m3"
  let ?s3 = "s\<lparr>arrivals := [], l1 := put (Reg slot VIRTIO_MMIO_QUEUE_READY) 0 ?m4\<rparr>"
  let ?rest = "do { poll_queue_notify slot; poll_driver_features slot; poll_sel_generation slot }"
  have "word ?m1 (Reg slot VIRTIO_MMIO_QUEUE_SEL) \<noteq> sel" using assms(1) sel(4) by (simp add: word_put)
  then have "run_state (poll_one_device slot) s = run_state ?rest ?s3"
    using assms(2) sel ready arr
    by (simp add: poll_one_device_def poll_status_def poll_queue_sel_def poll_queue_ready_def
        handle_queue_ready_change_def FIELDS_def run_access_empty run_access_store word_fold put_fold mq)
  moreover obtain s6 where s6: "run_state ?rest ?s3 = ((), s6)" by (cases "run_state ?rest ?s3") simp
  ultimately have run: "snd (run_state (poll_one_device slot) s) = s6" by simp
  have w: "word (l1 s6) (Shadow slot (unat sel) f) = word ?m3 (Shadow slot (unat sel) f)" for f
    using keepsD(2) [OF tail_keeps [OF assms(1)] s6, of "Shadow slot (unat sel) f"] assms(1) sel(3)
    by (simp add: image_iff word_put)
  have "setup_shadow (l1 s6) slot (unat sel) = setup_shadow (l1 s) slot (unat sel)"
    using assms(1) sel(3) by (intro setup_shadow_cong) (simp add: w word_put)
  then show ?thesis using assms(1) sel(3) by (simp add: run Let_def w word_put)
qed

theorem aborted_capture_marks_ready_witness:
  "let s = demo_setup\<lparr>arrivals := [[], [], [], [], [], [], [], [], [], [], [], [], [(reg_addr 1 VIRTIO_MMIO_QUEUE_SEL, 0)]]\<rparr>;
       m' = l1 (snd (run_state (poll_one_device 1) s))
   in word m' (Shadow 1 1 SHADOW_Q_OFF_READY) = 1 \<and> setup_shadow m' 1 1 = [0, 0, 0, 0, 0, 0, 0]"
proof -
  have "setup_shadow (l1 demo_setup) 1 1 = [0, 0, 0, 0, 0, 0, 0]"
    by (simp add: setup_shadow_def FIELDS_def demo_setup_def word_put)
  then show ?thesis
    using aborted_capture_marks_ready [of 1
      "demo_setup\<lparr>arrivals := [[], [], [], [], [], [], [], [], [], [], [], [], [(reg_addr 1 VIRTIO_MMIO_QUEUE_SEL, 0)]]\<rparr>" 1 0 1]
    by (simp add: Let_def demo_setup_def word_put)
qed

text \<open>
  Writing 0 to QUEUE_READY disables nothing. In a settled slot the poll that follows changes no
  byte of L1; in particular the queue's shadow stays ready, with its ring addresses.
\<close>

theorem queue_disable_ignored:
  assumes "settled slot m" "slot < 32" "arrivals s = []"
    and "l1 s = put (Reg slot VIRTIO_MMIO_QUEUE_READY) 0 m"
  shows "run_state (poll_one_device slot) s = ((), s)"
  using assms by (intro poll_settled) (simp_all add: settled_def word_put)

theorem queue_disable_ignored_witness:
  "let m = put (Reg 1 VIRTIO_MMIO_QUEUE_NOTIFY) 0xFFFFFFFF (put (Shadow 1 0 SHADOW_Q_OFF_READY) 1 zero_l1);
       s = demo_fw\<lparr>l1 := put (Reg 1 VIRTIO_MMIO_QUEUE_READY) 0 m\<rparr>
   in word (l1 (snd (run_state (poll_one_device 1) s))) (Shadow 1 0 SHADOW_Q_OFF_READY) = 1"
proof -
  define m where "m = put (Reg 1 VIRTIO_MMIO_QUEUE_NOTIFY) 0xFFFFFFFF (put (Shadow 1 0 SHADOW_Q_OFF_READY) 1 zero_l1)"
  have "settled 1 m" by (simp add: m_def settled_def word_put)
  from queue_disable_ignored [OF this, of "demo_fw\<lparr>l1 := put (Reg 1 VIRTIO_MMIO_QUEUE_READY) 0 m\<rparr>"]
  show ?thesis unfolding Let_def m_def [symmetric] by (simp add: word_put) (simp add: m_def word_put)
qed

end
