(* ===== verification/Firmware_Sweep.thy ===== *)
theory Firmware_Sweep
  imports Firmware_Props
begin

text \<open>
  What the firmware runs around the polls: the sweep over the active slots, the reset lines of the
  TRISC cores, the registers that TRISC1 and TRISC2 keep, and the hello of the daemon.
\<close>

section \<open>The sweep\<close>

lemma run_state_eqI: "(\<And>s. run_state f s = run_state g s) \<Longrightarrow> f = g"
  by (cases f; cases g) auto

lemma skip_bind [simp]: "State_Monad.bind skip (\<lambda>_. f) = f"
  by (rule run_state_eqI) simp

lemma bind_skip [simp]: "State_Monad.bind f (\<lambda>_. skip) = (f :: unit fwm)"
  by (rule run_state_eqI) (simp add: split_beta)

lemma for_each_append: "for_each f (xs @ ys) = State_Monad.bind (for_each f xs) (\<lambda>_. for_each f ys)"
  by (induction xs) (simp_all add: State_Monad.bind_assoc)

lemma for_each_when: "for_each (\<lambda>x. when_m (P x) (f x)) xs = for_each f (filter P xs)"
  by (induction xs) (simp_all add: when_m_def)

lemma for_each_map: "for_each f (map g xs) = for_each (\<lambda>x. f (g x)) xs"
  by (induction xs) simp_all

lemma for_each_cong: "(\<And>x. x \<in> set xs \<Longrightarrow> f x = g x) \<Longrightarrow> for_each f xs = for_each g xs"
  by (induction xs) simp_all

lemma for_each_concat: "for_each f (concat xss) = for_each (for_each f) xss"
  by (induction xss) (simp_all add: for_each_append)

lemma bit_set_bit: "bit_set w i \<longleftrightarrow> bit w i"
  by (simp add: bit_set_def bit_iff_odd_drop_bit and_one_eq odd_iff_mod_2_eq_one)

text \<open>The eight slots of a group: a group whose byte is zero has no slot in the bitmap.\<close>

lemma group_bit: "i < 8 \<Longrightarrow> bit_set (drop_bit base w AND 0xFF) i \<longleftrightarrow> bit w (base + i)" for w :: u32
proof -
  assume "i < 8"
  then have "bit (0xFF :: u32) i" using mask_eq_exp_minus_1 [of 8] bit_mask_iff [of 8 i, where 'a = "32 word"]
    by (simp add: mask_eq_exp_minus_1)
  then show ?thesis by (simp add: bit_set_bit bit_and_iff bit_drop_bit_eq)
qed

lemma group_slots:
  "(if drop_bit base w AND 0xFF = 0 then [] else map ((+) base) (filter (bit_set (drop_bit base w AND 0xFF)) [0..<8])) =
    filter (bit w) [base..<base + 8]" for w :: u32
proof -
  let ?g = "drop_bit base w AND 0xFF"
  have "map ((+) base) (filter (bit_set ?g) [0..<8]) = map ((+) base) (filter (bit w \<circ> (+) base) [0..<8])"
    by (intro arg_cong [where f = "map ((+) base)"] filter_cong) (auto simp: group_bit)
  also have "\<dots> = filter (bit w) (map ((+) base) [0..<8])" by (simp add: filter_map)
  also have "map ((+) base) [0..<8] = [base..<base + 8]" by (rule nth_equalityI) simp_all
  finally have slots: "map ((+) base) (filter (bit_set ?g) [0..<8]) = filter (bit w) [base..<base + 8]" .
  have "filter (bit_set ?g) [0..<8] = []" if "?g = 0" using that by (simp add: bit_set_def)
  with slots show ?thesis by auto
qed

lemma slots_by_group: "[0..<32] = concat (map (\<lambda>base. [base..<base + 8]) [0, 8, 16, 24 :: nat])"
  using upt_add_eq_append [of 0 8 24] upt_add_eq_append [of 8 16 16] upt_add_eq_append [of 16 24 8] by simp

lemma active_list_filter: "active_list active = filter (bit active) [0..<32]"
  unfolding active_list_def Let_def group_slots slots_by_group by (simp add: filter_concat)

text \<open>
  The sweep by groups of eight, with its skipped groups, polls exactly the slots of the bitmap,
  each once and in ascending order, whatever the poll does.
\<close>

theorem sweep_polls_active_slots: "for_active active f = for_each f (filter (bit active) [0..<32])"
proof -
  have "for_active active f = for_each (for_each f) (map (\<lambda>base.
      if drop_bit base active AND 0xFF = 0 then []
      else map ((+) base) (filter (bit_set (drop_bit base active AND 0xFF)) [0..<8])) [0, 8, 16, 24])"
    unfolding for_active_def for_each_map by (intro for_each_cong) (simp add: Let_def for_each_when for_each_map)
  also have "\<dots> = for_each f (filter (bit active) [0..<32])"
    by (simp only: group_slots slots_by_group for_each_concat [symmetric] filter_concat map_map o_def)
  finally show ?thesis .
qed

section \<open>Reset lines\<close>

definition trisc_line :: "fw \<Rightarrow> nat \<Rightarrow> bool" where
  "trisc_line s n \<longleftrightarrow> bit (soft_reset s) (12 + n)"

text \<open>The firmware's view of which cores run agrees with the reset register.\<close>

definition lines_ok :: "fw \<Rightarrow> bool" where
  "lines_ok s \<longleftrightarrow> (\<forall>n < 3. trisc_running s n \<longleftrightarrow> \<not> trisc_line s n)"

lemma drive_lines:
  assumes "lines_ok s" "n < 3" "run_state (drive_trisc_lifecycle n want) s = ((), s')"
  shows "lines_ok s'" "trisc_line s' n \<longleftrightarrow> \<not> want" "l1 s' = l1 s"
    and "\<And>i. i \<noteq> 12 + n \<Longrightarrow> bit (soft_reset s') i \<longleftrightarrow> bit (soft_reset s) i"
proof -
  have ok: "trisc_running s k \<longleftrightarrow> \<not> bit (soft_reset s) (12 + k)" if "k < 3" for k
    using assms(1) that by (simp add: lines_ok_def trisc_line_def)
  have s': "s' = (if want = trisc_running s n then s
      else s\<lparr>soft_reset := (if want then soft_reset s AND NOT (push_bit (12 + n) 1) else soft_reset s OR push_bit (12 + n) 1),
             trisc_running := (trisc_running s)(n := want)\<rparr>)"
    using assms(3) by (auto simp: drive_trisc_lifecycle_def brisc_set_trisc_reset_def State_Monad.get_def
        State_Monad.update_def split: if_splits)
  show l: "trisc_line s' n \<longleftrightarrow> \<not> want" "l1 s' = l1 s"
    using ok [OF assms(2)] assms(2)
    by (auto simp: s' trisc_line_def bit_and_iff bit_or_iff bit_not_iff bit_push_bit_iff bit_exp_iff)
  show other: "\<And>i. i \<noteq> 12 + n \<Longrightarrow> bit (soft_reset s') i \<longleftrightarrow> bit (soft_reset s) i"
    by (auto simp: s' bit_and_iff bit_or_iff bit_not_iff bit_push_bit_iff bit_exp_iff dest: bit_imp_le_length)
  have "trisc_running s' k \<longleftrightarrow> \<not> trisc_line s' k" if "k < 3" for k
    using ok [OF that] l(1) other [of "12 + k"] by (cases "k = n") (auto simp: s' trisc_line_def)
  then show "lines_ok s'" by (simp add: lines_ok_def)
qed

lemma uart_slot_active: "active AND BRISC_UART_SLOT_MASK \<noteq> 0 \<longleftrightarrow> (\<exists>slot \<in> {6, 14, 22, 30}. bit active slot)"
proof -
  have m: "bit BRISC_UART_SLOT_MASK n \<longleftrightarrow> n \<in> {6, 14, 22, 30}" for n
    unfolding BRISC_UART_SLOT_MASK_def brisc_uart_slot_for_l2cpu_def layout_defs bit_or_iff bit_push_bit_iff bit_1_iff by auto
  have "active AND BRISC_UART_SLOT_MASK \<noteq> 0 \<longleftrightarrow> (\<exists>n. bit (active AND BRISC_UART_SLOT_MASK) n)"
    by (metis bit_0_eq bit_eq_iff bot_apply bot_bool_def)
  then show ?thesis by (auto simp: bit_and_iff m)
qed

text \<open>
  C39. The three lifecycle calls of the main loop leave TRISC0 running exactly when one of the UART slots 6,
  14, 22 and 30 is active and TRISC1 and TRISC2 exactly when a virtio slot is, touch no other bit of the
  soft-reset register and no byte of L1, and keep the firmware's record of the running cores true. These
  are the slots of uart_layout.h and of the daemon; two comments of virtio.c and the self-test of main.rs
  take the UARTs to be slots 16 to 19, and none of those releases TRISC0.
\<close>

theorem trisc_lifecycle:
  assumes "lines_ok s"
  shows "let s' = snd (run_state (do { brisc_drive_trisc0_lifecycle active; brisc_drive_trisc1_lifecycle va;
                                       brisc_drive_trisc2_lifecycle va }) s)
    in lines_ok s' \<and> l1 s' = l1 s \<and>
       (trisc_running s' 0 \<longleftrightarrow> (\<exists>slot \<in> {6, 14, 22, 30}. bit active slot)) \<and>
       (\<forall>n \<in> {1, 2}. trisc_running s' n \<longleftrightarrow> va \<noteq> 0) \<and>
       (\<forall>i. i \<notin> {12, 13, 14} \<longrightarrow> (bit (soft_reset s') i \<longleftrightarrow> bit (soft_reset s) i))"
proof -
  let ?f = "\<lambda>n w. drive_trisc_lifecycle n w"
  obtain s0 where s0: "run_state (?f 0 (active AND BRISC_UART_SLOT_MASK \<noteq> 0)) s = ((), s0)"
    by (cases "run_state (?f 0 (active AND BRISC_UART_SLOT_MASK \<noteq> 0)) s") simp
  obtain s1 where s1: "run_state (?f 1 (va \<noteq> 0)) s0 = ((), s1)" by (cases "run_state (?f 1 (va \<noteq> 0)) s0") simp
  obtain s2 where s2: "run_state (?f 2 (va \<noteq> 0)) s1 = ((), s2)" by (cases "run_state (?f 2 (va \<noteq> 0)) s1") simp
  note d0 = drive_lines [OF assms _ s0, simplified]
  note d1 = drive_lines [OF d0(1) _ s1, simplified]
  note d2 = drive_lines [OF d1(1) _ s2, simplified]
  have run: "trisc_running s2 n \<longleftrightarrow> \<not> trisc_line s2 n" if "n < 3" for n using d2(1) that by (simp add: lines_ok_def)
  have "trisc_line s2 0 = trisc_line s0 0" "trisc_line s2 1 = trisc_line s1 1"
    using d1(4) [of 12] d2(4) [of 12] d2(4) [of 13] by (simp_all add: trisc_line_def)
  then show ?thesis
    unfolding uart_slot_active [symmetric] using run [of 0] run [of 1] run [of 2] d0 d1 d2
    by (simp add: brisc_drive_trisc0_lifecycle_def brisc_drive_trisc1_lifecycle_def
        brisc_drive_trisc2_lifecycle_def s0 s1 [unfolded One_nat_def] s2 Let_def)
qed

theorem trisc_lifecycle_witness:
  "let s = demo_fw\<lparr>soft_reset := 0x47800, trisc_running := (\<lambda>_. False)\<rparr>;
       s' = snd (run_state (do { brisc_drive_trisc0_lifecycle 0x1; brisc_drive_trisc1_lifecycle 0x1;
                                 brisc_drive_trisc2_lifecycle 0x1 }) s)
   in \<not> trisc_running s' 0 \<and> trisc_running s' 1 \<and> bit (soft_reset s') 18"
proof -
  let ?s = "demo_fw\<lparr>soft_reset := 0x47800, trisc_running := (\<lambda>_. False)\<rparr>"
  have bits: "bit (0x47800 :: u32) 12" "bit (0x47800 :: u32) 13" "bit (0x47800 :: u32) 14" "bit (0x47800 :: u32) 18"
    by simp_all
  have "(\<forall>n < 3. P n) \<longleftrightarrow> P 0 \<and> P 1 \<and> P 2" for P :: "nat \<Rightarrow> bool"
    by (auto simp: numeral_3_eq_3 numeral_2_eq_2 less_Suc_eq)
  then have "lines_ok ?s" using bits by (simp add: lines_ok_def trisc_line_def)
  moreover have "1 AND BRISC_UART_SLOT_MASK = 0"
    by (simp add: BRISC_UART_SLOT_MASK_def brisc_uart_slot_for_l2cpu_def layout_defs)
  ultimately show ?thesis using bits(4) trisc_lifecycle [of ?s 1 1] by (simp add: Let_def)
qed

section \<open>The register watchers\<close>

text \<open>
  TRISC1 and TRISC2 run the same kind of loop: when a selector register of a slot differs from the value
  last seen, a target register of that slot gets a value that depends on the selector.
\<close>

locale slot_watcher =
  fixes watch :: "nat \<Rightarrow> (nat \<Rightarrow> u32) \<Rightarrow> (nat \<Rightarrow> u32) fwm"
    and sel target :: mmio_reg
    and val :: "nat \<Rightarrow> u32 \<Rightarrow> u32"
  assumes distinct_regs: "sel \<noteq> target"
    and unchanged: "arrivals s = [] \<Longrightarrow> slot < 32 \<Longrightarrow> word (l1 s) (Reg slot sel) = seen slot \<Longrightarrow>
      run_state (watch slot seen) s = (seen, s)"
    and changed: "arrivals s = [] \<Longrightarrow> slot < 32 \<Longrightarrow> word (l1 s) (Reg slot sel) \<noteq> seen slot \<Longrightarrow>
      \<exists>s'. run_state (watch slot seen) s = (seen(slot := word (l1 s) (Reg slot sel)), s') \<and> arrivals s' = [] \<and>
        (\<forall>sl r. sl < 32 \<longrightarrow> word (l1 s') (Reg sl r) =
          (if sl = slot \<and> r = target then val slot (word (l1 s) (Reg slot sel)) else word (l1 s) (Reg sl r)))"
begin

definition watched :: "nat set \<Rightarrow> (nat \<Rightarrow> u32) \<Rightarrow> fw \<Rightarrow> (nat \<Rightarrow> u32) \<times> fw \<Rightarrow> bool" where
  "watched A seen s r \<longleftrightarrow> arrivals (snd r) = [] \<and>
    (\<forall>sl < 32. fst r sl = (if sl \<in> A then word (l1 s) (Reg sl sel) else seen sl) \<and>
      (\<forall>g. word (l1 (snd r)) (Reg sl g) =
        (if g = target \<and> sl \<in> A \<and> word (l1 s) (Reg sl sel) \<noteq> seen sl then val sl (word (l1 s) (Reg sl sel))
         else word (l1 s) (Reg sl g))))"

lemma watch_one: "arrivals s = [] \<Longrightarrow> slot < 32 \<Longrightarrow> watched {slot} seen s (run_state (watch slot seen) s)"
  using unchanged [of s slot seen] changed [of s slot seen] distinct_regs
  by (cases "word (l1 s) (Reg slot sel) = seen slot") (auto simp: watched_def)

lemma watched_step:
  assumes "watched {slot} seen s (seen1, s1)" "watched A seen1 s1 r" "slot \<notin> A"
  shows "watched (insert slot A) seen s r"
  using assms distinct_regs unfolding watched_def by (simp add: all_conj_distrib)

lemma watch_fold:
  "arrivals s = [] \<Longrightarrow> distinct xs \<Longrightarrow> set xs \<subseteq> {..<32} \<Longrightarrow> watched (set xs) seen s (run_state (fold_m watch xs seen) s)"
proof (induction xs arbitrary: s seen)
  case Nil
  then show ?case by (simp add: watched_def)
next
  case (Cons x xs)
  obtain seen1 s1 where r: "run_state (watch x seen) s = (seen1, s1)" by (cases "run_state (watch x seen) s")
  then have one: "watched {x} seen s (seen1, s1)" using watch_one [of s x seen] Cons.prems by simp
  then have "arrivals s1 = []" by (simp add: watched_def)
  then have "watched (set xs) seen1 s1 (run_state (fold_m watch xs seen1) s1)" using Cons by simp
  from watched_step [OF one this] show ?case using Cons.prems r by simp
qed

lemma watch_active:
  "arrivals s = [] \<Longrightarrow> watched {sl. bit w sl} seen s (run_state (fold_m watch (active_list w) seen) s)"
proof -
  assume "arrivals s = []"
  then have "watched (set (active_list w)) seen s (run_state (fold_m watch (active_list w) seen) s)"
    by (rule watch_fold) (auto simp: active_list_filter)
  moreover have "set (active_list w) = {sl. bit w sl}"
    by (auto simp: active_list_filter dest: bit_imp_le_length)
  ultimately show ?thesis by simp
qed

end

definition feature_half :: "nat \<Rightarrow> u32 \<Rightarrow> u32" where
  "feature_half slot dfsel =
     (if dfsel = 0 then dev_feat_low (device_for_slot slot)
      else if dfsel = 1 then dev_feat_high (device_for_slot slot) else 0)"

interpretation qsel: slot_watcher trisc1_watch VIRTIO_MMIO_QUEUE_SEL VIRTIO_MMIO_QUEUE_READY "\<lambda>_ _. 0"
  by unfold_locales (simp_all add: trisc1_watch_def word_fold put_fold word_put)

interpretation fsel: slot_watcher trisc2_watch VIRTIO_MMIO_DEVICE_FEATURES_SEL VIRTIO_MMIO_DEVICE_FEATURES feature_half
  by unfold_locales (simp_all add: trisc2_watch_def word_fold put_fold word_put Let_def feature_half_def)

text \<open>
  One pass of TRISC1: in every active virtio slot whose QUEUE_SEL has changed since the last pass,
  QUEUE_READY reads 0; every other register of every slot keeps its value, and the values seen are the
  current ones.
\<close>

theorem trisc1_pass_clears_ready:
  assumes "arrivals s = []" and va: "word (l1 s) (Ctrl CTRL_OFF_ACTIVE_VIRTIO_SLOTS) = va"
    and run: "run_state (trisc1_pass seen) s = (seen', s')" and "slot < 32"
  shows "seen' slot = (if bit va slot then word (l1 s) (Reg slot VIRTIO_MMIO_QUEUE_SEL) else seen slot) \<and>
    word (l1 s') (Reg slot r) =
      (if r = VIRTIO_MMIO_QUEUE_READY \<and> bit va slot \<and> word (l1 s) (Reg slot VIRTIO_MMIO_QUEUE_SEL) \<noteq> seen slot
       then 0 else word (l1 s) (Reg slot r))"
  using qsel.watch_active [OF assms(1), of va seen] assms by (simp add: trisc1_pass_def word_fold qsel.watched_def del: ctrl_off.simps)

theorem trisc1_pass_clears_ready_witness:
  "let s = demo_fw\<lparr>l1 := put (Ctrl CTRL_OFF_ACTIVE_VIRTIO_SLOTS) 2 (put (Reg 1 VIRTIO_MMIO_QUEUE_SEL) 1
             (put (Reg 1 VIRTIO_MMIO_QUEUE_READY) 1 zero_l1))\<rparr>
   in word (l1 (snd (run_state (trisc1_pass (\<lambda>_. 0)) s))) (Reg 1 VIRTIO_MMIO_QUEUE_READY) = 0"
  using trisc1_pass_clears_ready [of "demo_fw\<lparr>l1 := put (Ctrl CTRL_OFF_ACTIVE_VIRTIO_SLOTS) 2
      (put (Reg 1 VIRTIO_MMIO_QUEUE_SEL) 1 (put (Reg 1 VIRTIO_MMIO_QUEUE_READY) 1 zero_l1))\<rparr>" 2 "\<lambda>_. 0" _ _ 1
      VIRTIO_MMIO_QUEUE_READY, OF _ _ surjective_pairing]
  by (simp add: word_put bit_simps)

text \<open>
  One pass of TRISC2: in every active virtio slot whose DEVICE_FEATURES_SEL has changed, the feature
  register holds the half of the device's features that the selector asks for (0 for a selector above
  1), and nothing else changes in any register file.
\<close>

theorem trisc2_pass_selects_half:
  assumes "arrivals s = []" and va: "word (l1 s) (Ctrl CTRL_OFF_ACTIVE_VIRTIO_SLOTS) = va"
    and run: "run_state (trisc2_pass seen) s = (seen', s')" and "slot < 32"
  shows "seen' slot = (if bit va slot then word (l1 s) (Reg slot VIRTIO_MMIO_DEVICE_FEATURES_SEL) else seen slot) \<and>
    word (l1 s') (Reg slot r) =
      (if r = VIRTIO_MMIO_DEVICE_FEATURES \<and> bit va slot \<and> word (l1 s) (Reg slot VIRTIO_MMIO_DEVICE_FEATURES_SEL) \<noteq> seen slot
       then feature_half slot (word (l1 s) (Reg slot VIRTIO_MMIO_DEVICE_FEATURES_SEL)) else word (l1 s) (Reg slot r))"
  using fsel.watch_active [OF assms(1), of va seen] assms by (simp add: trisc2_pass_def word_fold fsel.watched_def del: ctrl_off.simps)

theorem trisc2_pass_selects_half_witness:
  "let s = demo_fw\<lparr>l1 := put (Ctrl CTRL_OFF_ACTIVE_VIRTIO_SLOTS) 2 (put (Reg 1 VIRTIO_MMIO_DEVICE_FEATURES_SEL) 1 zero_l1)\<rparr>
   in word (l1 (snd (run_state (trisc2_pass trisc2_initial) s))) (Reg 1 VIRTIO_MMIO_DEVICE_FEATURES) = 1"
proof -
  have "feature_half 1 1 = 1" by code_simp
  then show ?thesis
    using trisc2_pass_selects_half [of "demo_fw\<lparr>l1 := put (Ctrl CTRL_OFF_ACTIVE_VIRTIO_SLOTS) 2
        (put (Reg 1 VIRTIO_MMIO_DEVICE_FEATURES_SEL) 1 zero_l1)\<rparr>" 2 trisc2_initial _ _ 1
        VIRTIO_MMIO_DEVICE_FEATURES, OF _ _ surjective_pairing]
    by (simp add: word_put bit_simps trisc2_initial_def)
qed

text \<open>
  After a device reset the feature register can stay wrong. \<open>init_device\<close> sets DEVICE_FEATURES to
  both halves at once and the selector to 0; if TRISC2 last saw selector 0, which is so after every
  negotiation that ended with the low half, its next pass leaves the register as it is, so a guest that
  reads the low half of the features finds the bits of the high half in it.
\<close>

theorem reset_leaves_both_halves:
  assumes "arrivals s = []" "slot < 32" "seen slot = 0"
  shows "let s1 = snd (run_state (init_device slot) s)
    in run_state (trisc2_watch slot seen) s1 = (seen, s1) \<and>
       word (l1 s1) (Reg slot VIRTIO_MMIO_DEVICE_FEATURES) = feature_half slot 0 OR feature_half slot 1"
  using assms by (simp add: Let_def fsel.unchanged word_init_l1 feature_half_def)

theorem reset_leaves_both_halves_witness:
  "let s1 = snd (run_state (init_device 1) demo_fw)
   in run_state (trisc2_watch 1 (\<lambda>_. 0)) s1 = (\<lambda>_. 0, s1) \<and>
      word (l1 s1) (Reg 1 VIRTIO_MMIO_DEVICE_FEATURES) = 0x21 \<and> feature_half 1 0 = 0x20"
proof -
  have "feature_half 1 0 = 0x20" "feature_half 1 1 = 1" by code_simp+
  then show ?thesis using reset_leaves_both_halves [of demo_fw 1 "\<lambda>_. 0"] by (simp add: Let_def)
qed

section \<open>The hello\<close>

text \<open>
  \<open>run_handshake\<close> of \<open>tensix_engine.rs\<close>: the two stores of the hello, in order, and then the polls for
  the acknowledgement. \<open>l1_at i\<close> is the content of L1 at the \<open>i\<close>-th read of the daemon, and \<open>polls\<close> the
  number of polls that fit into the timeout.
\<close>

datatype handshake_error = Handshake_Timeout | Protocol_Mismatch u32

definition hello_stores :: "(nat \<times> u32) list" where
  "hello_stores =
     [(ctrl_addr (ctrl_off HELLO_OFF_PROTOCOL_VERSION), TENSIX_PROTOCOL_VERSION),
      (ctrl_addr (ctrl_off HELLO_OFF_MAGIC), HELLO_MAGIC)]"

fun await_ack :: "(nat \<Rightarrow> guest_mem) \<Rightarrow> nat \<Rightarrow> nat \<Rightarrow> nat option" where
  "await_ack l1_at i 0 = None"
| "await_ack l1_at i (Suc polls) =
     (if word (l1_at i) (Ctrl HELLO_ACK_OFF_MAGIC) = HELLO_ACK_MAGIC then Some i else await_ack l1_at (Suc i) polls)"

definition run_handshake :: "(nat \<Rightarrow> guest_mem) \<Rightarrow> nat \<Rightarrow> handshake_error + u32 \<times> u32" where
  "run_handshake l1_at polls =
     (case await_ack l1_at 0 polls of
        None \<Rightarrow> Inl Handshake_Timeout
      | Some i \<Rightarrow>
          (let protocol_version = word (l1_at (i + 1)) (Ctrl HELLO_ACK_OFF_PROTOCOL_VERSION);
               firmware_version = word (l1_at (i + 2)) (Ctrl HELLO_ACK_OFF_FIRMWARE_VERSION)
           in if protocol_version \<noteq> TENSIX_PROTOCOL_VERSION then Inl (Protocol_Mismatch protocol_version)
              else Inr (firmware_version, protocol_version)))"

text \<open>L1 while the firmware acknowledges: after none, one, two and three of its stores.\<close>

definition ack_stage :: "u32 \<Rightarrow> guest_mem \<Rightarrow> nat \<Rightarrow> guest_mem" where
  "ack_stage build_id m k =
     fold (\<lambda>(w, v). put (Ctrl w) v)
       (take k [(HELLO_ACK_OFF_PROTOCOL_VERSION, TENSIX_PROTOCOL_VERSION),
                (HELLO_ACK_OFF_FIRMWARE_VERSION, BRISC_VIRTIO_FW_VERSION build_id),
                (HELLO_ACK_OFF_MAGIC, HELLO_ACK_MAGIC)]) m"

lemma ack_stage_words:
  "word (ack_stage b m k) (Ctrl HELLO_ACK_OFF_MAGIC) =
     (if 3 \<le> k then HELLO_ACK_MAGIC else word m (Ctrl HELLO_ACK_OFF_MAGIC))"
  "3 \<le> k \<Longrightarrow> word (ack_stage b m k) (Ctrl HELLO_ACK_OFF_PROTOCOL_VERSION) = TENSIX_PROTOCOL_VERSION"
  "3 \<le> k \<Longrightarrow> word (ack_stage b m k) (Ctrl HELLO_ACK_OFF_FIRMWARE_VERSION) = BRISC_VIRTIO_FW_VERSION b"
  by (auto simp: ack_stage_def take_Cons' word_put)

lemma await_ack_some:
  "await_ack l1_at i polls = Some j \<Longrightarrow> i \<le> j \<and> j < i + polls \<and> word (l1_at j) (Ctrl HELLO_ACK_OFF_MAGIC) = HELLO_ACK_MAGIC"
  by (induction polls arbitrary: i) (force split: if_splits)+

lemma await_ack_none:
  "await_ack l1_at i polls = None \<Longrightarrow> i \<le> j \<Longrightarrow> j < i + polls \<Longrightarrow> word (l1_at j) (Ctrl HELLO_ACK_OFF_MAGIC) \<noteq> HELLO_ACK_MAGIC"
proof (induction polls arbitrary: i)
  case (Suc polls)
  then show ?case by (cases "i = j") (auto split: if_splits)
qed simp

text \<open>
  The handshake reads no half-written acknowledgement. Whatever the daemon's reads see of the three
  stores, as long as they see them in order, it either times out or gets the firmware's version and the
  common protocol version, never a mismatch; and it does get them when the third store is visible
  before its polls run out.
\<close>

theorem handshake_sound:
  assumes "word m (Ctrl HELLO_ACK_OFF_MAGIC) \<noteq> HELLO_ACK_MAGIC" and "mono stage"
  shows "let r = run_handshake (\<lambda>i. ack_stage build_id m (stage i)) polls
    in r \<in> {Inl Handshake_Timeout, Inr (BRISC_VIRTIO_FW_VERSION build_id, TENSIX_PROTOCOL_VERSION)} \<and>
       ((\<exists>i < polls. 3 \<le> stage i) \<longrightarrow> r \<noteq> Inl Handshake_Timeout)"
proof (cases "await_ack (\<lambda>i. ack_stage build_id m (stage i)) 0 polls")
  case None
  have "\<not> 3 \<le> stage i" if "i < polls" for i
    using await_ack_none [OF None, of i] that by (simp add: ack_stage_words split: if_splits)
  then show ?thesis using None by (auto simp: run_handshake_def)
next
  case (Some i)
  then have "3 \<le> stage i" using await_ack_some [OF Some] assms(1) by (simp add: ack_stage_words split: if_splits)
  then have "3 \<le> stage (i + 1)" "3 \<le> stage (i + 2)" using monoD [OF assms(2), of i "i + 1"] monoD [OF assms(2), of i "i + 2"] by simp_all
  then show ?thesis using Some by (simp add: run_handshake_def ack_stage_words)
qed

theorem handshake_sound_witness:
  "run_handshake (\<lambda>i. ack_stage 7 zero_l1 i) 4 = Inr (BRISC_VIRTIO_FW_VERSION 7, TENSIX_PROTOCOL_VERSION)"
proof -
  have "\<exists>i < 4. 3 \<le> (i :: nat)" by (rule exI [of _ 3]) simp
  moreover have "HELLO_ACK_MAGIC \<noteq> 0" by (simp add: HELLO_ACK_MAGIC_def)
  ultimately show ?thesis using handshake_sound [of zero_l1 "\<lambda>i. i" 7 4] by (auto simp: monoI Let_def)
qed

definition hello_l1 :: "guest_mem \<Rightarrow> guest_mem" where
  "hello_l1 m = put (Ctrl HELLO_OFF_MAGIC) HELLO_MAGIC (put (Ctrl HELLO_OFF_PROTOCOL_VERSION) TENSIX_PROTOCOL_VERSION m)"

lemma arrive_hello: "arrivals s = [hello_stores] \<Longrightarrow> arrive s = s\<lparr>l1 := hello_l1 (l1 s), arrivals := []\<rparr>"
  by (simp add: arrive_def hello_stores_def hello_l1_def put_fold del: ctrl_off.simps)

lemma poll_hello_waits:
  assumes "word (l1 s) (Ctrl HELLO_OFF_MAGIC) \<noteq> HELLO_MAGIC" "arrivals s = replicate k [] @ [hello_stores]"
  shows "run_state (poll_hello fuel) s =
    (if k < fuel then (True, s\<lparr>l1 := hello_l1 (l1 s), arrivals := []\<rparr>)
     else (False, s\<lparr>arrivals := replicate (k - fuel) [] @ [hello_stores]\<rparr>))"
  using assms
proof (induction fuel arbitrary: s k)
  case 0
  then show ?case by (cases s) simp
next
  case (Suc fuel)
  show ?case
  proof (cases k)
    case 0
    have "word (hello_l1 m) (Ctrl HELLO_OFF_MAGIC) = HELLO_MAGIC" for m by (simp add: hello_l1_def word_put)
    then show ?thesis using 0 Suc.prems(2) by (simp add: read_u32_def arrive_hello word_fold del: ctrl_off.simps)
  next
    case k: (Suc k')
    let ?s1 = "s\<lparr>arrivals := replicate k' [] @ [hello_stores]\<rparr>"
    have "run_state (read_u32 (ctrl_addr (ctrl_off HELLO_OFF_MAGIC))) s = (word (l1 s) (Ctrl HELLO_OFF_MAGIC), ?s1)"
      using Suc.prems(2) k by (simp add: read_u32_def arrive_def word_fold del: ctrl_off.simps)
    then show ?thesis using Suc.IH [of ?s1 k'] Suc.prems(1) k by (simp del: ctrl_off.simps)
  qed
qed

text \<open>
  The firmware acknowledges the hello and nothing else. While the magic word has not been stored it
  keeps polling and L1 keeps its content; once the daemon's two stores land, at a poll within the fuel,
  it stores the protocol version, the firmware version and the magic of the acknowledgement.
\<close>

theorem hello_acknowledged:
  assumes "word (l1 s) (Ctrl HELLO_OFF_MAGIC) \<noteq> HELLO_MAGIC" "arrivals s = replicate k [] @ [hello_stores]"
  shows "run_state (wait_for_hello_and_ack build_id fuel) s =
    (if k < fuel then (True, s\<lparr>l1 := ack_stage build_id (hello_l1 (l1 s)) 3, arrivals := []\<rparr>)
     else (False, s\<lparr>arrivals := replicate (k - fuel) [] @ [hello_stores]\<rparr>))"
  using poll_hello_waits [OF assms, of fuel]
  by (simp add: wait_for_hello_and_ack_def ack_stage_def put_fold del: ctrl_off.simps)

theorem hello_acknowledged_witness:
  "let s = demo_fw\<lparr>arrivals := [[], [], hello_stores]\<rparr>;
       m' = l1 (snd (run_state (wait_for_hello_and_ack 7 10) s))
   in run_handshake (\<lambda>_. m') 1 = Inr (BRISC_VIRTIO_FW_VERSION 7, TENSIX_PROTOCOL_VERSION)"
proof -
  have "HELLO_MAGIC \<noteq> 0" by (simp add: HELLO_MAGIC_def)
  then show ?thesis
    using hello_acknowledged [of "demo_fw\<lparr>arrivals := [[], [], hello_stores]\<rparr>" 2 7 10]
    by (simp add: Let_def numeral_2_eq_2 run_handshake_def ack_stage_words)
qed

end
