(* ===== verification/Uart_Feed.thy ===== *)
theory Uart_Feed
  imports Firmware_Props Console_Hub
begin

text \<open>
  The emulated UART: the register file and the byte feed that TRISC0 fills
  (\<open>src/brisc-firmware/virtio.c\<close>), and the dispatcher's drain of the feed into the console hub
  (\<open>src/src/tensix_data_plane.rs\<close>). The feed is a ring with one producer and one consumer; the locale
  \<open>byte_fifo\<close> is its contract and the model is an instance of it.
\<close>

section \<open>The firmware side\<close>

definition UART_LSR_THRE :: u32 where "UART_LSR_THRE = 0x20"
definition UART_LSR_TEMT :: u32 where "UART_LSR_TEMT = 0x40"
definition UART_MSR_CTS :: u32 where "UART_MSR_CTS = 0x10"
definition UART_MSR_DSR :: u32 where "UART_MSR_DSR = 0x20"
definition UART_IIR_NO_INT :: u32 where "UART_IIR_NO_INT = 0x01"
definition UART_IIR_NO_FIFO :: u32 where "UART_IIR_NO_FIFO = 0x00"
definition UART_MCR_DTR_RTS_OUT2 :: u32 where "UART_MCR_DTR_RTS_OUT2 = 0x0b"
definition UART_LCR_8N1 :: u32 where "UART_LCR_8N1 = 0x03"
definition UART_LCR_DLAB :: u32 where "UART_LCR_DLAB = 0x80"
definition BRISC_UART_THR_SENTINEL :: u32 where "BRISC_UART_THR_SENTINEL = 0xFFFFFFFF"
definition TRISC0_UART_THRE_HOLD_SWEEPS :: u32 where "TRISC0_UART_THRE_HOLD_SWEEPS = 20"

definition uart_init_one :: "nat \<Rightarrow> unit fwm" where
  "uart_init_one i = do {
     zero_region (brisc_uart_regs_base i) BRISC_UART_REG_FILE_SIZE;
     write_u32 (uart_reg_addr i UART_REG_RBR_THR) BRISC_UART_THR_SENTINEL;
     write_u32 (uart_reg_addr i UART_REG_LCR) UART_LCR_8N1;
     write_u32 (uart_reg_addr i UART_REG_MCR) UART_MCR_DTR_RTS_OUT2;
     write_u32 (uart_reg_addr i UART_REG_LSR) (UART_LSR_THRE OR UART_LSR_TEMT);
     write_u32 (uart_reg_addr i UART_REG_MSR) (UART_MSR_CTS OR UART_MSR_DSR);
     write_u32 (uart_reg_addr i UART_REG_IIR_FCR) (UART_IIR_NO_FIFO OR UART_IIR_NO_INT);
     zero_region (brisc_uart_private_base i) BRISC_UART_PRIVATE_PER_L2CPU
   }"

definition uart_init_devices :: "unit fwm" where
  "uart_init_devices = for_each uart_init_one [0..<BRISC_VIRTIO_NUM_L2CPUS]"

definition ring_slot :: "u32 \<Rightarrow> nat" where
  "ring_slot seq = unat (seq AND BRISC_UART_FEED_RING_MASK)"

definition trisc0_uart_feed_push :: "nat \<Rightarrow> u8 \<Rightarrow> unit fwm" where
  "trisc0_uart_feed_push i byte = do {
     producer \<leftarrow> read_u32 (uart_priv_addr i UART_PRIV_OFF_FEED_PRODUCER_SEQ);
     consumer \<leftarrow> read_u32 (uart_priv_addr i UART_PRIV_OFF_FEED_CONSUMER_SEQ);
     (if producer - consumer \<ge> BRISC_UART_FEED_RING_ENTRIES then do {
        d \<leftarrow> read_u32 (uart_priv_addr i UART_PRIV_OFF_FEED_DROP_COUNT);
        write_u32 (uart_priv_addr i UART_PRIV_OFF_FEED_DROP_COUNT) (d + 1) }
      else do {
        write_u32 (feed_ring_addr i (ring_slot producer)) (ucast byte);
        _ \<leftarrow> read_u32 (feed_ring_addr i (ring_slot producer));
        write_u32 (uart_priv_addr i UART_PRIV_OFF_FEED_PRODUCER_SEQ) (producer + 1) })
   }"

definition trisc0_uart_poll_one :: "nat \<Rightarrow> unit fwm" where
  "trisc0_uart_poll_one i = do {
     hold \<leftarrow> read_u32 (uart_priv_addr i UART_PRIV_OFF_HOLD);
     (if hold > 0 then do {
        write_u32 (uart_priv_addr i UART_PRIV_OFF_HOLD) (hold - 1);
        when_m (hold - 1 = 0) (write_u32 (uart_reg_addr i UART_REG_LSR) (UART_LSR_THRE OR UART_LSR_TEMT)) }
      else do {
        v \<leftarrow> read_u32 (uart_reg_addr i UART_REG_RBR_THR);
        when_m (v \<noteq> BRISC_UART_THR_SENTINEL) (do {
          write_u32 (uart_reg_addr i UART_REG_LSR) 0;
          lcr \<leftarrow> read_u32 (uart_reg_addr i UART_REG_LCR);
          (if lcr AND UART_LCR_DLAB \<noteq> 0 then do {
             write_u32 (uart_reg_addr i UART_REG_RBR_THR) BRISC_UART_THR_SENTINEL;
             write_u32 (uart_reg_addr i UART_REG_LSR) (UART_LSR_THRE OR UART_LSR_TEMT) }
           else do {
             write_u32 (uart_reg_addr i UART_REG_RBR_THR) BRISC_UART_THR_SENTINEL;
             trisc0_uart_feed_push i (ucast (v AND 0xFF));
             write_u32 (uart_priv_addr i UART_PRIV_OFF_HOLD) TRISC0_UART_THRE_HOLD_SWEEPS }) }) })
   }"

text \<open>One iteration of the loop of \<open>trisc0_main\<close>; \<open>c\<close> is its iteration counter.\<close>

definition trisc0_pass :: "u32 \<Rightarrow> u32 fwm" where
  "trisc0_pass c = do {
     active \<leftarrow> read_u32 (ctrl_addr (ctrl_off CTRL_OFF_ACTIVE_SLOTS));
     for_each (\<lambda>i. if \<not> bit_set active (brisc_uart_slot_for_l2cpu i) then skip else trisc0_uart_poll_one i)
       [0..<BRISC_VIRTIO_NUM_L2CPUS];
     when_m ((c + 1) AND 0x3FF = 0) (write_u32 BRISC_TRISC0_GLOBAL_BASE (c + 1));
     State_Monad.return (c + 1)
   }"

section \<open>The daemon side\<close>

definition clamp_consumer_to_ring :: "u32 \<Rightarrow> u32 \<Rightarrow> u32 \<Rightarrow> u32" where
  "clamp_consumer_to_ring producer consumer ring_entries =
     (if producer - consumer > ring_entries then producer - ring_entries else consumer)"

text \<open>The reads of one chunk, and the loop that reads chunks of at most 256 bytes.\<close>

definition read_feed :: "nat \<Rightarrow> guest_mem \<Rightarrow> u32 \<Rightarrow> nat \<Rightarrow> u8 list" where
  "read_feed i m consumer n = map (\<lambda>k. ucast (word m (Feed i (ring_slot (consumer + word_of_nat k))) AND 0xFF)) [0..<n]"

function drain_chunks :: "nat \<Rightarrow> guest_mem \<Rightarrow> u32 \<Rightarrow> u32 \<Rightarrow> u8 list list" where
  "drain_chunks i m producer consumer =
     (if consumer = producer then []
      else let n = min (unat (producer - consumer)) 256
           in read_feed i m consumer n # drain_chunks i m producer (consumer + word_of_nat n))"
  by pat_completeness auto

lemma advance_distance:
  "n \<le> unat (p - c) \<Longrightarrow> unat (p - (c + word_of_nat n)) = unat (p - c) - n" for p c :: u32
proof -
  assume n: "n \<le> unat (p - c)"
  then have "unat (word_of_nat n :: u32) = n" using unsigned_less [of "p - c", where ?'a = nat]
    by (simp add: unsigned_of_nat take_bit_nat_eq_self_iff)
  moreover from this have "word_of_nat n \<le> p - c" using n by (simp add: word_le_nat_alt)
  ultimately show ?thesis using unat_sub_le [of "word_of_nat n" "p - c"] by (simp add: algebra_simps)
qed

termination drain_chunks
proof (relation "measure (\<lambda>(i, m, producer, consumer). unat (producer - consumer))")
  fix i m and producer consumer :: u32 and n
  assume "consumer \<noteq> producer" "n = min (unat (producer - consumer)) 256"
  then have "0 < unat (producer - consumer)" by (simp add: unat_gt_0)
  with \<open>n = _\<close> show "((i, m, producer, consumer + word_of_nat n), (i, m, producer, consumer))
      \<in> measure (\<lambda>(i, m, producer, consumer). unat (producer - consumer))"
    by (simp add: advance_distance)
qed simp

declare drain_chunks.simps [simp del]

text \<open>
  One drain pass over the UART of an L2CPU: the bytes pushed to the hub, L1 and the dispatcher's own
  consumer index afterwards.
\<close>

definition drain_uart :: "nat \<Rightarrow> guest_mem \<times> u32 \<Rightarrow> u8 list list \<times> guest_mem \<times> u32" where
  "drain_uart i = (\<lambda>(m, consumer).
     let producer = word m (Upriv i UART_PRIV_OFF_FEED_PRODUCER_SEQ)
     in if producer = consumer then ([], m, consumer)
        else let start = clamp_consumer_to_ring producer consumer BRISC_UART_FEED_RING_ENTRIES
             in (drain_chunks i m producer start, put (Upriv i UART_PRIV_OFF_FEED_CONSUMER_SEQ) producer m, producer))"

definition drain_uart_to_hub :: "nat \<Rightarrow> guest_mem \<times> u32 \<Rightarrow> hub \<times> metrics \<Rightarrow> (guest_mem \<times> u32) \<times> hub \<times> metrics" where
  "drain_uart_to_hub i s h =
     (case drain_uart i s of (chunks, s') \<Rightarrow> (s', fold (\<lambda>bytes st. snd (push_chip_output bytes st)) chunks h))"

section \<open>The feed as a FIFO\<close>

text \<open>
  Pushes and pulls in any order. A push says whether the byte was accepted; the results are the
  accepted and the delivered bytes.
\<close>

fun fifo_run :: "('b \<Rightarrow> 's \<Rightarrow> bool \<times> 's) \<Rightarrow> ('s \<Rightarrow> 'b list \<times> 's) \<Rightarrow> 'b option list \<Rightarrow> 's \<Rightarrow> 'b list \<times> 'b list \<times> 's" where
  "fifo_run push pull [] s = ([], [], s)"
| "fifo_run push pull (Some b # ops) s =
     (case push b s of (ok, s1) \<Rightarrow>
        (case fifo_run push pull ops s1 of (acc, out, s2) \<Rightarrow> (if ok then b # acc else acc, out, s2)))"
| "fifo_run push pull (None # ops) s =
     (case pull s of (bs, s1) \<Rightarrow>
        (case fifo_run push pull ops s1 of (acc, out, s2) \<Rightarrow> (acc, bs @ out, s2)))"

locale byte_fifo =
  fixes inv :: "'s \<Rightarrow> bool" and queue :: "'s \<Rightarrow> 'b list" and cap :: nat
    and push :: "'b \<Rightarrow> 's \<Rightarrow> bool \<times> 's" and pull :: "'s \<Rightarrow> 'b list \<times> 's"
  assumes bounded: "inv s \<Longrightarrow> length (queue s) \<le> cap"
    and push_law: "inv s \<Longrightarrow> push b s = (ok, s') \<Longrightarrow>
      inv s' \<and> ok = (length (queue s) < cap) \<and> queue s' = (if ok then queue s @ [b] else queue s)"
    and pull_law: "inv s \<Longrightarrow> pull s = (bs, s') \<Longrightarrow> inv s' \<and> bs = queue s \<and> queue s' = []"
begin

lemma run_order:
  "inv s \<Longrightarrow> fifo_run push pull ops s = (acc, out, s') \<Longrightarrow> inv s' \<and> queue s @ acc = out @ queue s'"
proof (induction ops arbitrary: s acc out s')
  case Nil
  then show ?case by simp
next
  case (Cons op ops)
  show ?case
  proof (cases op)
    case (Some b)
    obtain ok s1 where p: "push b s = (ok, s1)" by (cases "push b s")
    obtain a o' s2 where r: "fifo_run push pull ops s1 = (a, o', s2)" by (cases "fifo_run push pull ops s1")
    from push_law [OF Cons.prems(1) p] Cons.IH [OF _ r] Cons.prems(2) Some p r
    show ?thesis by (cases ok) auto
  next
    case None
    obtain bs s1 where p: "pull s = (bs, s1)" by (cases "pull s")
    obtain a o' s2 where r: "fifo_run push pull ops s1 = (a, o', s2)" by (cases "fifo_run push pull ops s1")
    from pull_law [OF Cons.prems(1) p] Cons.IH [OF _ r] Cons.prems(2) None p r
    show ?thesis by auto
  qed
qed

lemma run_no_loss: "inv s \<Longrightarrow> length (queue s) < cap \<Longrightarrow> fst (push b s)"
  using push_law [of s b "fst (push b s)" "snd (push b s)"] by simp

end

lemma ring_slot_mod: "ring_slot seq = unat seq mod 1024"
proof -
  have "BRISC_UART_FEED_RING_MASK = mask 10"
    by (simp add: BRISC_UART_FEED_RING_MASK_def BRISC_UART_FEED_RING_ENTRIES_def mask_eq_exp_minus_1)
  then have "ring_slot seq = unat (take_bit 10 seq)" by (simp add: ring_slot_def take_bit_eq_mask)
  then show ?thesis by (simp only: unsigned_take_bit_eq) (simp add: take_bit_eq_mod)
qed

lemma ring_slot_plus: "ring_slot (c + word_of_nat k) = (unat c + k) mod 1024"
proof -
  have "unat (c + word_of_nat k :: u32) = (unat c + k) mod 2 ^ 32"
    by (simp add: unat_word_ariths unsigned_of_nat take_bit_eq_mod mod_simps)
  moreover have "n mod 2 ^ 32 mod 1024 = n mod (1024 :: nat)" for n by (rule mod_mod_cancel) simp
  ultimately show ?thesis by (simp only: ring_slot_mod)
qed

lemma ring_slot_lt [simp]: "ring_slot c < 1024"
  by (simp add: ring_slot_mod)

lemma ring_slots_distinct:
  assumes "k < n" "n < 1024"
  shows "ring_slot (c + word_of_nat k) \<noteq> ring_slot (c + word_of_nat n)"
  unfolding ring_slot_plus
proof
  assume "(unat c + k) mod 1024 = (unat c + n) mod 1024"
  then have "1024 dvd n - k" using assms mod_eq_dvd_iff_nat [of "unat c + k" "unat c + n" 1024] by simp
  then show False using assms nat_dvd_not_less [of "n - k" 1024] by simp
qed

definition feed_queue :: "nat \<Rightarrow> guest_mem \<times> u32 \<Rightarrow> u8 list" where
  "feed_queue i = (\<lambda>(m, c). read_feed i m c (unat (word m (Upriv i UART_PRIV_OFF_FEED_PRODUCER_SEQ) - c)))"

text \<open>The dispatcher's index is the one in L1, and the ring holds at most 1024 bytes.\<close>

definition feed_inv :: "nat \<Rightarrow> guest_mem \<times> u32 \<Rightarrow> bool" where
  "feed_inv i = (\<lambda>(m, c). i < 4 \<and> word m (Upriv i UART_PRIV_OFF_FEED_CONSUMER_SEQ) = c \<and>
     unat (word m (Upriv i UART_PRIV_OFF_FEED_PRODUCER_SEQ) - c) \<le> 1024)"

definition tile_of :: "guest_mem \<Rightarrow> fw" where
  "tile_of m = \<lparr>l1 = m, arrivals = [], mcycle = [], soft_reset = 0, init_device_fired_this_iter = False,
     trisc_running = (\<lambda>_. False)\<rparr>"

definition feed_push :: "nat \<Rightarrow> u8 \<Rightarrow> guest_mem \<times> u32 \<Rightarrow> bool \<times> guest_mem \<times> u32" where
  "feed_push i b = (\<lambda>(m, c).
     let m' = l1 (snd (run_state (trisc0_uart_feed_push i b) (tile_of m)))
     in (word m' (Upriv i UART_PRIV_OFF_FEED_DROP_COUNT) = word m (Upriv i UART_PRIV_OFF_FEED_DROP_COUNT), m', c))"

definition feed_pull :: "nat \<Rightarrow> guest_mem \<times> u32 \<Rightarrow> u8 list \<times> guest_mem \<times> u32" where
  "feed_pull i s = (case drain_uart i s of (chunks, s') \<Rightarrow> (concat chunks, s'))"

lemma drain_chunks_concat:
  "concat (drain_chunks i m producer consumer) = read_feed i m consumer (unat (producer - consumer))"
proof (induction i m producer consumer rule: drain_chunks.induct)
  case (1 i m producer consumer)
  show ?case
  proof (cases "consumer = producer")
    case True
    then show ?thesis by (simp add: drain_chunks.simps read_feed_def)
  next
    case False
    let ?d = "unat (producer - consumer)" and ?n = "min (unat (producer - consumer)) 256"
    have split: "[0..<?d] = [0..<?n] @ map (\<lambda>k. k + ?n) [0..<?d - ?n]"
      using upt_add_eq_append [of 0 ?n "?d - ?n"] map_add_upt [of ?n "?d - ?n"] by simp
    have "concat (drain_chunks i m producer consumer) =
        read_feed i m consumer ?n @ read_feed i m (consumer + word_of_nat ?n) (?d - ?n)"
      using False 1 [OF False refl] by (simp add: drain_chunks.simps [of i m producer consumer] Let_def advance_distance)
    also have "\<dots> = read_feed i m consumer ?d"
      unfolding read_feed_def split by (simp add: add_ac)
    finally show ?thesis .
  qed
qed

lemma drain_chunk_sizes: "bs \<in> set (drain_chunks i m producer consumer) \<Longrightarrow> length bs \<le> 256"
proof (induction i m producer consumer rule: drain_chunks.induct)
  case (1 i m producer consumer)
  then show ?case
    by (subst (asm) drain_chunks.simps) (auto simp: Let_def read_feed_def split: if_splits)
qed

lemma drain_uart_chunk_sizes:
  assumes "drain_uart i s = (chunks, t)" "bs \<in> set chunks"
  shows "length bs \<le> 256"
proof -
  obtain m c where s: "s = (m, c)" by (cases s)
  show ?thesis using assms unfolding s drain_uart_def Let_def
    by (auto split: if_splits intro: drain_chunk_sizes)
qed

lemma length_read_feed [simp]: "length (read_feed i m c n) = n"
  by (simp add: read_feed_def)

lemma run_feed_push:
  assumes "i < 4" "arrivals s = []"
  defines "p \<equiv> word (l1 s) (Upriv i UART_PRIV_OFF_FEED_PRODUCER_SEQ)"
    and "c \<equiv> word (l1 s) (Upriv i UART_PRIV_OFF_FEED_CONSUMER_SEQ)"
  shows "run_state (trisc0_uart_feed_push i b) s = ((), s\<lparr>l1 :=
    (if unat (p - c) < 1024 then put (Upriv i UART_PRIV_OFF_FEED_PRODUCER_SEQ) (p + 1) (put (Feed i (ring_slot p)) (ucast b) (l1 s))
     else put (Upriv i UART_PRIV_OFF_FEED_DROP_COUNT) (word (l1 s) (Upriv i UART_PRIV_OFF_FEED_DROP_COUNT) + 1) (l1 s))\<rparr>)"
  using assms
  by (simp add: trisc0_uart_feed_push_def word_fold put_fold word_le_nat_alt BRISC_UART_FEED_RING_ENTRIES_def)

lemma read_feed_push:
  assumes "i < 4" "n < 1024"
  shows "read_feed i (put (Upriv i f) v (put (Feed i (ring_slot (c + word_of_nat n))) w m)) c n = read_feed i m c n"
  unfolding read_feed_def using assms ring_slots_distinct [of _ n c]
  by (intro map_cong) (auto simp: word_put dest: sym)

lemma read_feed_Suc:
  "read_feed i m c (Suc n) = read_feed i m c n @ [ucast (word m (Feed i (ring_slot (c + word_of_nat n))) AND 0xFF)]"
  by (simp add: read_feed_def)

lemma byte_round_trip: "ucast (ucast (b :: u8) AND 0xFF :: u32) = b"
proof (rule bit_word_eqI)
  fix n assume "n < LENGTH(8)"
  moreover have "bit (0xFF :: u32) n" if "n < 8"
    using that bit_mask_iff [of 8 n, where 'a = "32 word"] by (simp add: mask_eq_exp_minus_1)
  ultimately show "bit (ucast (ucast b AND 0xFF :: u32) :: u8) n \<longleftrightarrow> bit b n"
    by (simp add: bit_ucast_iff bit_and_iff)
qed

lemma push_accepts:
  assumes "i < 4" "word m (Upriv i UART_PRIV_OFF_FEED_CONSUMER_SEQ) = c"
    and p: "word m (Upriv i UART_PRIV_OFF_FEED_PRODUCER_SEQ) = p" and n: "unat (p - c) < 1024"
  shows "feed_push i b (m, c) = (True, put (Upriv i UART_PRIV_OFF_FEED_PRODUCER_SEQ) (p + 1) (put (Feed i (ring_slot p)) (ucast b) m), c)"
    and "feed_queue i (snd (feed_push i b (m, c))) = feed_queue i (m, c) @ [b]"
    and "feed_inv i (snd (feed_push i b (m, c)))"
proof -
  let ?m = "put (Upriv i UART_PRIV_OFF_FEED_PRODUCER_SEQ) (p + 1) (put (Feed i (ring_slot p)) (ucast b) m)"
  show push: "feed_push i b (m, c) = (True, ?m, c)"
    using assms by (simp add: feed_push_def run_feed_push tile_of_def Let_def word_put)
  have "p - c \<noteq> - 1" using n by (auto simp: unsigned_minus_1_eq_mask mask_eq_exp_minus_1)
  from unat_plus_one [OF this] have d: "unat (p + 1 - c) = Suc (unat (p - c))" by (simp add: algebra_simps)
  have pn: "c + word_of_nat (unat (p - c)) = p" by simp
  have "read_feed i ?m c (unat (p - c)) = read_feed i m c (unat (p - c))"
    using read_feed_push [OF assms(1) n, of UART_PRIV_OFF_FEED_PRODUCER_SEQ "p + 1" c "ucast b" m] by (simp only: pn)
  then show "feed_queue i (snd (feed_push i b (m, c))) = feed_queue i (m, c) @ [b]"
    using assms(1) p by (simp add: push feed_queue_def word_put d read_feed_Suc byte_round_trip)
  show "feed_inv i (snd (feed_push i b (m, c)))"
    using assms by (simp add: push feed_inv_def word_put d)
qed

lemma push_drops:
  assumes "i < 4" "word m (Upriv i UART_PRIV_OFF_FEED_CONSUMER_SEQ) = c"
    and p: "word m (Upriv i UART_PRIV_OFF_FEED_PRODUCER_SEQ) = p" and n: "unat (p - c) = 1024"
  shows "\<not> fst (feed_push i b (m, c))"
    and "feed_queue i (snd (feed_push i b (m, c))) = feed_queue i (m, c)"
    and "feed_inv i (snd (feed_push i b (m, c)))"
  using assms
  by (simp_all add: feed_push_def run_feed_push tile_of_def Let_def word_put feed_queue_def feed_inv_def read_feed_def)

lemma pull_all:
  assumes "i < 4" "word m (Upriv i UART_PRIV_OFF_FEED_CONSUMER_SEQ) = c"
    and p: "word m (Upriv i UART_PRIV_OFF_FEED_PRODUCER_SEQ) = p" and n: "unat (p - c) \<le> 1024"
  shows "feed_pull i (m, c) = (feed_queue i (m, c), put (Upriv i UART_PRIV_OFF_FEED_CONSUMER_SEQ) p m, p) \<or>
      p = c \<and> feed_pull i (m, c) = ([], m, c)"
proof -
  have "clamp_consumer_to_ring p c BRISC_UART_FEED_RING_ENTRIES = c"
    using n by (simp add: clamp_consumer_to_ring_def BRISC_UART_FEED_RING_ENTRIES_def word_less_nat_alt)
  then show ?thesis using p by (simp add: feed_pull_def drain_uart_def Let_def drain_chunks_concat feed_queue_def)
qed

lemma pull_facts:
  assumes "feed_inv i s" "feed_pull i s = (bs, s')"
  shows "feed_inv i s' \<and> bs = feed_queue i s \<and> feed_queue i s' = []"
proof -
  obtain m c where s: "s = (m, c)" by (cases s)
  show ?thesis using assms pull_all [of i m c "word m (Upriv i UART_PRIV_OFF_FEED_PRODUCER_SEQ)"] unfolding s
    by (auto simp: feed_inv_def feed_queue_def word_put read_feed_def)
qed

lemma push_facts:
  assumes "feed_inv i s" "feed_push i b s = (ok, s')"
  shows "feed_inv i s' \<and> ok = (length (feed_queue i s) < 1024) \<and> feed_queue i s' = (if ok then feed_queue i s @ [b] else feed_queue i s)"
proof -
  obtain m c where s: "s = (m, c)" by (cases s)
  define p where "p = word m (Upriv i UART_PRIV_OFF_FEED_PRODUCER_SEQ)"
  have *: "i < 4" "word m (Upriv i UART_PRIV_OFF_FEED_CONSUMER_SEQ) = c" "unat (p - c) \<le> 1024"
    using assms(1) by (simp_all add: s feed_inv_def p_def)
  have len: "length (feed_queue i s) = unat (p - c)" by (simp add: s feed_queue_def p_def)
  show ?thesis
  proof (cases "unat (p - c) < 1024")
    case True
    then show ?thesis using push_accepts [OF *(1,2) p_def [symmetric] True, of b] assms(2) len by (simp add: s)
  next
    case False
    then have "unat (p - c) = 1024" using *(3) by simp
    then show ?thesis using push_drops [OF *(1,2) p_def [symmetric], of b] assms(2) len by (simp add: s)
  qed
qed

interpretation feed: byte_fifo "feed_inv i" "feed_queue i" 1024 "feed_push i" "feed_pull i" for i
proof
  show "length (feed_queue i s) \<le> 1024" if "feed_inv i s" for s
    using that by (cases s) (simp add: feed_inv_def feed_queue_def)
qed (use push_facts pull_facts in blast)+

text \<open>
  C8. The UART feed neither loses nor reorders a byte it has accepted. For every sequence of pushes by
  TRISC0 and drains by the dispatcher, the accepted bytes are the delivered ones followed by those still
  in the ring; a push is accepted exactly when the ring holds fewer than 1024 bytes, also when the 32-bit
  sequence numbers wrap.
\<close>

theorem uart_feed_fifo:
  assumes "feed_inv i s" and "feed_queue i s = []"
    and "fifo_run (feed_push i) (feed_pull i) ops s = (acc, out, s')"
  shows "acc = out @ feed_queue i s' \<and> feed_inv i s' \<and>
    (fst (feed_push i b s') \<longleftrightarrow> length (feed_queue i s') < 1024)"
  using feed.run_order [OF assms(1,3)] feed.push_law [of i s' b] assms(2)
  by (cases "feed_push i b s'") auto

theorem uart_feed_fifo_witness:
  "\<exists>acc out s'. fifo_run (feed_push 0) (feed_pull 0) [Some 65, None, Some 66] (zero_l1, 0) = (acc, out, s') \<and>
     acc = out @ feed_queue 0 s' \<and> feed_inv 0 s'"
proof -
  obtain acc out s' where r: "fifo_run (feed_push 0) (feed_pull 0) [Some 65, None, Some 66] (zero_l1, 0) = (acc, out, s')"
    by (cases "fifo_run (feed_push 0) (feed_pull 0) [Some 65, None, Some 66] (zero_l1, 0)")
  have "feed_inv 0 (zero_l1, 0)" "feed_queue 0 (zero_l1, 0) = []" by (simp_all add: feed_inv_def feed_queue_def read_feed_def)
  from uart_feed_fifo [OF this r] r show ?thesis by blast
qed

text \<open>
  A drain pass delivers the feed to the hub: the hub's scrollback afterwards is the last
  \<open>SCROLLBACK_BYTES\<close> bytes of what it was, followed by the whole feed, and the ring is empty.
\<close>

theorem uart_drain_reaches_hub:
  assumes "feed_inv i s" "length (scrollback (fst h)) \<le> SCROLLBACK_BYTES"
    and "drain_uart_to_hub i s h = (s', h')"
  shows "scrollback (fst h') = lastn SCROLLBACK_BYTES (scrollback (fst h) @ feed_queue i s) \<and> feed_queue i s' = [] \<and> feed_inv i s'"
proof -
  obtain chunks t where d: "drain_uart i s = (chunks, t)" by (cases "drain_uart i s")
  then have pull: "feed_pull i s = (concat chunks, t)" by (simp add: feed_pull_def)
  have small: "length bs \<le> SCROLLBACK_BYTES" if "bs \<in> set chunks" for bs
    using drain_uart_chunk_sizes [OF d that] by (simp add: SCROLLBACK_BYTES_def)
  have "h' = fold (\<lambda>bytes st. snd (push_chip_output bytes st)) chunks h" "s' = t"
    using assms(3) d by (simp_all add: drain_uart_to_hub_def)
  then show ?thesis
    using hub_log.fold_push [OF small assms(2)] pull_facts [OF assms(1) pull] by simp
qed

theorem uart_drain_reaches_hub_witness:
  "let s = snd (feed_push 0 66 (snd (feed_push 0 65 (zero_l1, 0))))
   in scrollback (fst (snd (drain_uart_to_hub 0 s (hub_new 0, no_metrics)))) = [65, 66]"
proof -
  have inv: "feed_inv 0 (zero_l1, 0)" and empty: "feed_queue 0 (zero_l1, 0) = []"
    by (simp_all add: feed_inv_def feed_queue_def read_feed_def)
  let ?s1 = "snd (feed_push 0 65 (zero_l1, 0))" and ?s2 = "snd (feed_push 0 66 (snd (feed_push 0 65 (zero_l1, 0))))"
  have 1: "feed_inv 0 ?s1" "feed_queue 0 ?s1 = [65]"
    using push_facts [OF inv, of 65 "fst (feed_push 0 65 (zero_l1, 0))" ?s1] empty by simp_all
  have 2: "feed_inv 0 ?s2" "feed_queue 0 ?s2 = [65, 66]"
    using push_facts [OF 1(1), of 66 "fst (feed_push 0 66 ?s1)" ?s2] 1(2) by simp_all
  have "scrollback (fst (hub_new 0, no_metrics)) = []" by (simp add: hub_new_def)
  then show ?thesis
    using uart_drain_reaches_hub [OF 2(1), of "(hub_new 0, no_metrics)" "fst (drain_uart_to_hub 0 ?s2 (hub_new 0, no_metrics))"
        "snd (drain_uart_to_hub 0 ?s2 (hub_new 0, no_metrics))"] 2(2)
    by (simp add: SCROLLBACK_BYTES_def)
qed

text \<open>
  A consumer index that is not the one in L1 breaks the feed. After a restart the dispatcher starts
  again from 0 while the ring and its producer index live on in L1; its first drain delivers bytes that
  were delivered before the restart, the last 1024 of them when the producer has gone further.
\<close>

theorem restarted_drain_replays:
  assumes "word m (Upriv i UART_PRIV_OFF_FEED_PRODUCER_SEQ) = p" "p \<noteq> 0"
  shows "concat (fst (drain_uart i (m, 0))) = read_feed i m (if unat p \<le> 1024 then 0 else p - 1024) (min (unat p) 1024)"
proof -
  have "unat (p - (p - 1024)) = 1024" by simp
  moreover have "unat p \<le> 1024 \<longleftrightarrow> \<not> 1024 < p" by (simp add: word_less_nat_alt not_less)
  ultimately show ?thesis
    using assms by (simp add: drain_uart_def Let_def drain_chunks_concat clamp_consumer_to_ring_def
        BRISC_UART_FEED_RING_ENTRIES_def word_less_nat_alt min_def)
qed

theorem restarted_drain_replays_witness:
  "let s = snd (feed_pull 0 (snd (feed_push 0 65 (zero_l1, 0))))
   in feed_queue 0 s = [] \<and> concat (fst (drain_uart 0 (fst s, 0))) = [65]"
proof -
  let ?m = "put (Upriv 0 UART_PRIV_OFF_FEED_PRODUCER_SEQ) 1 (put (Feed 0 0) 65 zero_l1)"
  have push: "feed_push 0 65 (zero_l1, 0) = (True, ?m, 0)"
    using push_accepts(1) [of 0 zero_l1 0 0 65] by (simp add: ring_slot_mod)
  have pull: "feed_pull 0 (?m, 0) = (feed_queue 0 (?m, 0), put (Upriv 0 UART_PRIV_OFF_FEED_CONSUMER_SEQ) 1 ?m, 1)"
    using pull_all [of 0 ?m 0 1] by (simp add: word_put)
  let ?n = "put (Upriv 0 UART_PRIV_OFF_FEED_CONSUMER_SEQ) 1 ?m"
  have "concat (fst (drain_uart 0 (?n, 0))) = [65]"
    using restarted_drain_replays [of ?n 0 1] by (simp add: word_put read_feed_def ring_slot_mod)
  moreover have "feed_queue 0 (?n, 1) = []" by (simp add: feed_queue_def word_put read_feed_def)
  ultimately show ?thesis by (simp add: push pull)
qed

end
