(* ===== verification/Virtio_Drain.thy ===== *)
theory Virtio_Drain
  imports Virtio_Queue
begin

text \<open>
  The loop of \<open>dispatch_chain\<close> (\<open>src/src/tensix_data_plane.rs\<close>) that serves the pending chains of a queue,
  and what holds of it for every device: with rings and buffers that do not overlap it serves every
  pending chain, returns, and posts one used entry per chain.
\<close>

section \<open>Model\<close>

text \<open>
  Serve chains until one call does not post. The result is whether anything was posted, the new
  \<open>processed\<close> and the state; None is the panic of an empty queue, or that the loop has not ended within
  \<open>fuel\<close> calls.
\<close>

fun drain_queue ::
  "nat \<Rightarrow> ('d, 'w) device_ops \<Rightarrow> vqueue \<Rightarrow> u16 \<Rightarrow> ('d, 'w) ctx \<Rightarrow> (bool \<times> u16 \<times> ('d, 'w) ctx) option"
where
  "drain_queue 0 ops vq processed c = None"
| "drain_queue (Suc fuel) ops vq processed c =
     (case process_one_chain_for_queue ops vq processed c of
        None \<Rightarrow> None
      | Some (one, processed1, c1) \<Rightarrow>
          if \<not> one then Some (False, processed1, c1)
          else (case drain_queue fuel ops vq processed1 c1 of
                  None \<Rightarrow> None
                | Some (_, processed2, c2) \<Rightarrow> Some (True, processed2, c2)))"

section \<open>Rings that nothing overlaps\<close>

abbreviation table_span :: "vqueue \<Rightarrow> nat \<times> nat" where
  "table_span vq \<equiv> (desc_q vq, 16 * unat (queue_num vq))"

abbreviation avail_span :: "vqueue \<Rightarrow> nat \<times> nat" where
  "avail_span vq \<equiv> (avail_q vq, 4 + 2 * unat (queue_num vq))"

abbreviation used_span :: "vqueue \<Rightarrow> nat \<times> nat" where
  "used_span vq \<equiv> (used_q vq, 4 + 8 * unat (queue_num vq))"

definition buffer_span :: "nat \<Rightarrow> vqueue \<Rightarrow> vring_desc \<Rightarrow> nat \<times> nat" where
  "buffer_span slack vq d = (desc_offset vq d, unat (d_len d) + slack)"

text \<open>
  The three rings lie in the mapping and do not overlap, and no buffer of the descriptor table
  overlaps one of them.
\<close>

definition rings_apart :: "nat \<Rightarrow> vqueue \<Rightarrow> guest_mem \<Rightarrow> bool" where
  "rings_apart slack vq m \<longleftrightarrow>
     vq_fits vq (gm_size m) \<and> apart [table_span vq, avail_span vq, used_span vq] \<and>
     (\<forall>i :: u16. let d = read_desc m (desc_slot vq i) in
        \<not> desc_out_of_range vq d \<longrightarrow>
        disj2 (table_span vq) (buffer_span slack vq d) \<and> disj2 (avail_span vq) (buffer_span slack vq d) \<and>
        disj2 (used_span vq) (buffer_span slack vq d))"

definition rings_same :: "vqueue \<Rightarrow> guest_mem \<Rightarrow> guest_mem \<Rightarrow> bool" where
  "rings_same vq m m' \<longleftrightarrow> gm_size m' = gm_size m \<and>
     gm_load m' (desc_q vq) (16 * unat (queue_num vq)) = gm_load m (desc_q vq) (16 * unat (queue_num vq)) \<and>
     gm_load m' (avail_q vq) (4 + 2 * unat (queue_num vq)) = gm_load m (avail_q vq) (4 + 2 * unat (queue_num vq))"

lemma rings_same_refl [simp]: "rings_same vq m m"
  by (simp add: rings_same_def)

lemma rings_same_trans [trans]: "rings_same vq m m' \<Longrightarrow> rings_same vq m' m'' \<Longrightarrow> rings_same vq m m''"
  by (simp add: rings_same_def)

lemma same_desc:
  assumes "rings_same vq m m'" "queue_num vq \<noteq> 0"
  shows "read_desc m' (desc_slot vq i) = read_desc m (desc_slot vq i)"
proof -
  note b = desc_slot_bounds [OF assms(2), of i]
  have t: "gm_load m' (desc_q vq) (16 * unat (queue_num vq)) = gm_load m (desc_q vq) (16 * unat (queue_num vq))"
    using assms(1) by (simp add: rings_same_def)
  show ?thesis using b by (simp add: read_desc_def gm_load_part [OF t])
qed

lemma same_avail:
  assumes "rings_same vq m m'"
  shows "gm_u16 m' (avail_q vq + 2) = gm_u16 m (avail_q vq + 2)"
    and "queue_num vq \<noteq> 0 \<Longrightarrow> gm_u16 m' (avail_q vq + 4 + 2 * (unat (p :: u16) mod unat (queue_num vq))) =
      gm_u16 m (avail_q vq + 4 + 2 * (unat p mod unat (queue_num vq)))"
proof -
  have t: "gm_load m' (avail_q vq) (4 + 2 * unat (queue_num vq)) = gm_load m (avail_q vq) (4 + 2 * unat (queue_num vq))"
    using assms by (simp add: rings_same_def)
  then show "gm_u16 m' (avail_q vq + 2) = gm_u16 m (avail_q vq + 2)" by (simp add: gm_load_part [OF t])
  assume "queue_num vq \<noteq> 0"
  then have "2 * (unat p mod unat (queue_num vq)) + 2 \<le> 2 * unat (queue_num vq)"
    by (intro mod_scaled_bound) (simp add: unat_gt_0)
  then show "gm_u16 m' (avail_q vq + 4 + 2 * (unat p mod unat (queue_num vq))) =
      gm_u16 m (avail_q vq + 4 + 2 * (unat p mod unat (queue_num vq)))"
    by (simp add: gm_load_part [OF t])
qed

lemma rings_apart_same:
  assumes "rings_same vq m m'" "rings_apart slack vq m"
  shows "rings_apart slack vq m'"
proof -
  have nz: "queue_num vq \<noteq> 0" using assms(2) by (simp add: rings_apart_def vq_fits_def)
  show ?thesis using assms(2) unfolding rings_apart_def same_desc [OF assms(1) nz]
    using assms(1) by (simp add: rings_same_def)
qed

text \<open>A store into a buffer of the table leaves the rings alone.\<close>

lemma buffer_frame:
  assumes "rings_apart slack vq m" "d = read_desc m (desc_slot vq i)" "\<not> desc_out_of_range vq d"
    and fr: "gm_frame (desc_offset vq d) (desc_offset vq d + unat (d_len d) + slack) m m'"
  shows "rings_same vq m m'" "gm_u16 m' (used_q vq + 2) = gm_u16 m (used_q vq + 2)"
proof -
  have dj: "disj2 (table_span vq) (buffer_span slack vq d)" "disj2 (avail_span vq) (buffer_span slack vq d)"
      "disj2 (used_span vq) (buffer_span slack vq d)"
    using assms(1-3) unfolding rings_apart_def by (auto simp: Let_def)
  have fr': "gm_frame (desc_offset vq d) (desc_offset vq d + (unat (d_len d) + slack)) m m'"
    using fr by (simp add: add.assoc)
  show "rings_same vq m m'"
    using gm_frame_load_disj [OF fr', of "desc_q vq"] gm_frame_load_disj [OF fr', of "avail_q vq"] dj gm_frame_size [OF fr]
    by (simp add: rings_same_def buffer_span_def)
  have "gm_load m' (used_q vq) (4 + 8 * unat (queue_num vq)) = gm_load m (used_q vq) (4 + 8 * unat (queue_num vq))"
    using gm_frame_load_disj [OF fr', of "used_q vq"] dj by (simp add: buffer_span_def)
  from gm_load_part [OF this] show "gm_u16 m' (used_q vq + 2) = gm_u16 m (used_q vq + 2)" by simp
qed

lemma post_used_rings:
  assumes "rings_apart slack vq m"
  shows "rings_same vq m (post_used vq head n m)" "gm_u16 (post_used vq head n m) (used_q vq + 2) = gm_u16 m (used_q vq + 2) + 1"
proof -
  have nz: "queue_num vq \<noteq> 0" using assms by (simp add: rings_apart_def vq_fits_def)
  note fr = post_used_result(4) [OF nz, of m head n]
  have "disj2 (table_span vq) (used_span vq)" "disj2 (avail_span vq) (used_span vq)"
    using assms by (simp_all add: rings_apart_def)
  then show "rings_same vq m (post_used vq head n m)"
    using gm_frame_size [OF fr] gm_frame_load [OF fr]
    by (auto simp: rings_same_def disj2_def)
  show "gm_u16 (post_used vq head n m) (used_q vq + 2) = gm_u16 m (used_q vq + 2) + 1"
    by (rule post_used_result(1) [OF nz])
qed

section \<open>The chains that wait\<close>

text \<open>
  The heads in the avail ring that have not been taken yet, oldest first, and whether the chain behind a
  head ends within the queue's size with every descriptor in the guest's memory. The rings stay as they
  are while chains are served, so both can be read off beforehand.
\<close>

definition avail_head :: "guest_mem \<Rightarrow> vqueue \<Rightarrow> u16 \<Rightarrow> u16" where
  "avail_head m vq p = gm_u16 m (avail_q vq + 4 + 2 * (unat p mod unat (queue_num vq)))"

definition waiting_heads :: "guest_mem \<Rightarrow> vqueue \<Rightarrow> u16 \<Rightarrow> u16 list" where
  "waiting_heads m vq processed =
     map (\<lambda>j. avail_head m vq (processed + word_of_nat j)) [0..<unat (gm_u16 m (avail_q vq + 2) - processed)]"

definition well_formed_chain :: "guest_mem \<Rightarrow> vqueue \<Rightarrow> u16 \<Rightarrow> bool" where
  "well_formed_chain m vq head \<longleftrightarrow> fst (chain_descs m vq (unat (queue_num vq)) head)"

lemma length_waiting_heads [simp]: "length (waiting_heads m vq p) = unat (gm_u16 m (avail_q vq + 2) - p)"
  by (simp add: waiting_heads_def)

lemma same_heads:
  assumes "rings_same vq m m'" "queue_num vq \<noteq> 0"
  shows "waiting_heads m' vq p = waiting_heads m vq p" "well_formed_chain m' vq head = well_formed_chain m vq head"
proof -
  show "waiting_heads m' vq p = waiting_heads m vq p"
    using same_avail [OF assms(1)] assms(2) by (simp add: waiting_heads_def avail_head_def)
  have "chain_descs m' vq k i = chain_descs m vq k i" for k i
    by (induction k arbitrary: i) (simp_all add: same_desc [OF assms] Let_def)
  then show "well_formed_chain m' vq head = well_formed_chain m vq head" by (simp add: well_formed_chain_def)
qed

section \<open>The drain, for every device\<close>

lemma pending_step: "unat (a - (p + 1)) = unat (a - p) - 1" if "p \<noteq> a" for a p :: u16
proof -
  have "1 \<le> a - p" using that by (simp add: word_le_nat_alt Suc_le_eq unat_gt_0)
  then show ?thesis using unat_sub_le [of 1 "a - p"] by (simp add: diff_diff_add)
qed

lemma waiting_heads_step:
  assumes "p \<noteq> gm_u16 m (avail_q vq + 2)"
  shows "waiting_heads m vq p = avail_head m vq p # waiting_heads m vq (p + 1)"
proof -
  obtain n where n: "unat (gm_u16 m (avail_q vq + 2) - p) = Suc n"
    using assms by (metis not0_implies_Suc right_minus_eq unat_eq_0)
  then have "unat (gm_u16 m (avail_q vq + 2) - (p + 1)) = n" using pending_step [OF assms] by simp
  then show ?thesis unfolding waiting_heads_def n by (simp add: map_upt_Suc add.assoc del: upt_Suc)
qed

context virtio_device
begin

lemma chain_loop_rings:
  "chain_loop ops vq steps i written c = (valid, n, c') \<Longrightarrow> rings_apart slack vq (mem c) \<Longrightarrow>
   rings_same vq (mem c) (mem c') \<and> gm_u16 (mem c') (used_q vq + 2) = gm_u16 (mem c) (used_q vq + 2)"
proof (induction steps i written c rule: chain_loop_steps_induct [where vq = vq])
  case (1 steps i written c)
  let ?d = "desc_at vq i c"
  have fits: "vq_fits vq (gm_size (mem c))" using "1.prems"(2) by (simp add: rings_apart_def)
  have c1: "touched vq i c = c" using fits by (simp add: gm_touch_ok desc_slot_ok)
  have same: "rings_same vq (mem c) m" "gm_u16 m (used_q vq + 2) = gm_u16 (mem c) (used_q vq + 2)"
    if "\<not> desc_out_of_range vq ?d"
      and "gm_frame (desc_offset vq ?d) (desc_offset vq ?d + unat (ucast (d_len ?d) :: u64) + slack) (mem c) m" for m
    using buffer_frame [OF "1.prems"(2) refl, of i m] that by (simp_all add: c1)
  from "1.prems"(1) show ?case
  proof (cases rule: chain_loop_step)
    case stop
    then show ?thesis using c1 by auto
  next
    case more
    let ?c2 = "walk_step ops vq ?d written (touched vq i c)"
    have "gm_frame (desc_offset vq ?d) (desc_offset vq ?d + unat (ucast (d_len ?d) :: u64) + slack) (mem c) (mem ?c2)"
      unfolding c1 by (rule step_frame_slack)
    note s = same [OF more(2) this]
    note r = "1.IH" [OF more(1) more(4) rings_apart_same [OF s(1) "1.prems"(2)]]
    show ?thesis using rings_same_trans [OF s(1) conjunct1 [OF r]] s(2) conjunct2 [OF r] by simp
  next
    case last
    have c': "c' = snd (process_queue_complete ops (queue_idx vq) (desc_offset vq ?d) (ucast (d_len ?d)) c)"
      using last(4) unfolding c1 by simp
    have "gm_frame (desc_offset vq ?d) (desc_offset vq ?d + unat (ucast (d_len ?d) :: u64) + slack) (mem c) (mem c')"
      unfolding c' by (rule complete_frame)
    from same [OF last(1) this] show ?thesis by simp
  qed
qed

lemma one_chain_rings:
  assumes "rings_apart slack vq (mem c)"
    and run: "process_one_chain_for_queue ops vq processed c = Some (posted, processed', c')"
  shows "rings_same vq (mem c) (mem c')"
    and "gm_u16 (mem c') (used_q vq + 2) = gm_u16 (mem c) (used_q vq + 2) + (if posted then 1 else 0)"
    and "posted \<Longrightarrow> processed' = processed + 1 \<and> processed \<noteq> gm_u16 (mem c) (avail_q vq + 2)"
    and "\<not> posted \<Longrightarrow> processed' = processed \<and> (processed = gm_u16 (mem c) (avail_q vq + 2) \<or> \<not> queue_has_data ops (queue_idx vq) c) \<or>
      processed' = processed + 1 \<and> processed \<noteq> gm_u16 (mem c) (avail_q vq + 2)"
proof -
  have fits: "vq_fits vq (gm_size (mem c))" using assms(1) by (simp add: rings_apart_def)
  let ?head = "gm_u16 (mem c) (avail_q vq + 4 + 2 * (unat processed mod unat (queue_num vq)))"
  obtain valid n c3 where chain: "chain_loop ops vq 0 ?head 0 c = (valid, n, c3)" by (cases "chain_loop ops vq 0 ?head 0 c")
  note r = chain_loop_rings [OF chain assms(1)]
  note apart3 = rings_apart_same [OF conjunct1 [OF r] assms(1)]
  note p = post_used_rings [OF apart3, of ?head n]
  let ?idle = "processed = gm_u16 (mem c) (avail_q vq + 2) \<or> \<not> queue_has_data ops (queue_idx vq) c"
  have cases: "(?idle \<and> \<not> posted \<and> processed' = processed \<and> c' = c) \<or>
      (\<not> ?idle \<and> posted = valid \<and> processed' = processed + 1 \<and>
       c' = (if valid then c3\<lparr>mem := post_used vq ?head n (mem c3)\<rparr> else c3))"
    using run unfolding one_chain_unfold [OF fits] Let_def chain by (auto split: if_splits)
  then show "rings_same vq (mem c) (mem c')" using r p(1) by (auto intro: rings_same_trans)
  show "gm_u16 (mem c') (used_q vq + 2) = gm_u16 (mem c) (used_q vq + 2) + (if posted then 1 else 0)"
    using cases r p(2) by auto
  show "posted \<Longrightarrow> processed' = processed + 1 \<and> processed \<noteq> gm_u16 (mem c) (avail_q vq + 2)" using cases by auto
  show "\<not> posted \<Longrightarrow> processed' = processed \<and> (processed = gm_u16 (mem c) (avail_q vq + 2) \<or> \<not> queue_has_data ops (queue_idx vq) c) \<or>
      processed' = processed + 1 \<and> processed \<noteq> gm_u16 (mem c) (avail_q vq + 2)" using cases by auto
qed

lemma one_chain_posts:
  assumes "rings_apart slack vq (mem c)" "processed \<noteq> gm_u16 (mem c) (avail_q vq + 2)" "queue_has_data ops (queue_idx vq) c"
  shows "\<exists>c'. process_one_chain_for_queue ops vq processed c =
    Some (well_formed_chain (mem c) vq (avail_head (mem c) vq processed), processed + 1, c')"
proof -
  have fits: "vq_fits vq (gm_size (mem c))" using assms(1) by (simp add: rings_apart_def)
  let ?head = "avail_head (mem c) vq processed"
  obtain valid ds where ds: "chain_descs (mem c) vq (unat (queue_num vq)) ?head = (valid, ds)" by fastforce
  have from_table: "d \<in> set (snd (chain_descs (mem c) vq k i)) \<Longrightarrow> \<exists>j. d = read_desc (mem c) (desc_slot vq j)" for d k i
    by (induction k arbitrary: i) (auto simp: Let_def split: if_splits)
  have "clear_of_table wslack vq d" if "d \<in> set ds" for d
  proof -
    from that ds obtain j where "d = read_desc (mem c) (desc_slot vq j)" "\<not> desc_out_of_range vq d"
      using from_table chain_descs_in_range by (metis snd_conv)
    then have "disj2 (table_span vq) (buffer_span slack vq d)" using assms(1) by (auto simp: rings_apart_def Let_def)
    then show ?thesis using wslack_le by (auto simp: clear_of_table_def disj2_def buffer_span_def)
  qed
  from one_chain_serves [OF fits assms(2,3) avail_head_def ds this] show ?thesis
    by (cases "serve_descs ops vq valid 0 ds c") (simp add: well_formed_chain_def ds)
qed

text \<open>
  With a device that has data, the drain takes the waiting chains up to the first one that is malformed:
  it completes those in front of it, skips that one, and leaves the ones behind it.
\<close>

lemma drain_queue_exact:
  assumes "rings_apart slack vq (mem c)" "\<And>c. queue_has_data ops (queue_idx vq) c"
    and "unat (gm_u16 (mem c) (avail_q vq + 2) - processed) < fuel"
  defines "heads \<equiv> waiting_heads (mem c) vq processed"
  defines "k \<equiv> length (takeWhile (well_formed_chain (mem c) vq) heads)"
  shows "\<exists>c'. drain_queue fuel ops vq processed c =
      Some (0 < k, processed + word_of_nat k + (if k < length heads then 1 else 0), c') \<and>
    rings_same vq (mem c) (mem c') \<and>
    gm_u16 (mem c') (used_q vq + 2) = gm_u16 (mem c) (used_q vq + 2) + word_of_nat k"
  using assms(1,3) unfolding k_def heads_def
proof (induction fuel arbitrary: processed c)
  case (Suc fuel)
  let ?a = "gm_u16 (mem c) (avail_q vq + 2)"
  have fits: "vq_fits vq (gm_size (mem c))" and nz: "queue_num vq \<noteq> 0" using Suc.prems(1) by (simp_all add: rings_apart_def vq_fits_def)
  show ?case
  proof (cases "processed = ?a")
    case True
    then have "process_one_chain_for_queue ops vq processed c = Some (False, processed, c)"
      unfolding one_chain_unfold [OF fits] by simp
    then show ?thesis using True by (simp add: waiting_heads_def)
  next
    case False
    let ?ok = "well_formed_chain (mem c) vq (avail_head (mem c) vq processed)"
    obtain c1 where run: "process_one_chain_for_queue ops vq processed c = Some (?ok, processed + 1, c1)"
      using one_chain_posts [OF Suc.prems(1) False assms(2)] by blast
    note r = one_chain_rings [OF Suc.prems(1) run]
    note heads = waiting_heads_step [OF False]
    show ?thesis
    proof (cases ?ok)
      case bad: False
      then show ?thesis using run r(1,2) heads by simp
    next
      case ok: True
      have "0 < unat (?a - processed)" using False by (simp add: unat_gt_0)
      then have less: "unat (gm_u16 (mem c1) (avail_q vq + 2) - (processed + 1)) < fuel"
        using Suc.prems(2) pending_step [OF False] same_avail(1) [OF r(1)] by simp
      obtain c2 where IH: "drain_queue fuel ops vq (processed + 1) c1 = Some (0 < length (takeWhile (well_formed_chain (mem c) vq) (waiting_heads (mem c) vq (processed + 1))),
            processed + 1 + word_of_nat (length (takeWhile (well_formed_chain (mem c) vq) (waiting_heads (mem c) vq (processed + 1)))) +
            (if length (takeWhile (well_formed_chain (mem c) vq) (waiting_heads (mem c) vq (processed + 1))) < length (waiting_heads (mem c) vq (processed + 1)) then 1 else 0), c2)"
          "rings_same vq (mem c1) (mem c2)"
          "gm_u16 (mem c2) (used_q vq + 2) = gm_u16 (mem c1) (used_q vq + 2) + word_of_nat (length (takeWhile (well_formed_chain (mem c) vq) (waiting_heads (mem c) vq (processed + 1))))"
        using Suc.IH [OF rings_apart_same [OF r(1) Suc.prems(1)] less] unfolding same_heads [OF r(1) nz] by blast
      show ?thesis using run ok IH r(2) rings_same_trans [OF r(1) IH(2)] unfolding heads
        by (auto simp add: add.assoc)
    qed
  qed
qed simp

text \<open>
  The drain returns once the fuel exceeds the number of pending chains. It posts as many used entries
  as \<open>k\<close>, the chains it completed; it stops because everything is served, because the device has no
  data, or right behind a chain that is malformed.
\<close>

lemma drain_queue_serves:
  assumes "rings_apart slack vq (mem c)"
    and "unat (gm_u16 (mem c) (avail_q vq + 2) - processed) < fuel"
  shows "\<exists>k processed' c'. drain_queue fuel ops vq processed c = Some (0 < k, processed', c') \<and>
    rings_same vq (mem c) (mem c') \<and>
    gm_u16 (mem c') (used_q vq + 2) = gm_u16 (mem c) (used_q vq + 2) + word_of_nat k \<and>
    k \<le> unat (gm_u16 (mem c) (avail_q vq + 2) - processed) \<and>
    (processed' = processed + word_of_nat k \<and>
       (processed' = gm_u16 (mem c) (avail_q vq + 2) \<or> \<not> queue_has_data ops (queue_idx vq) c') \<or>
     processed' = processed + word_of_nat k + 1 \<and> processed + word_of_nat k \<noteq> gm_u16 (mem c) (avail_q vq + 2))"
  using assms
proof (induction fuel arbitrary: processed c)
  case (Suc fuel)
  let ?a = "gm_u16 (mem c) (avail_q vq + 2)"
  have fits: "vq_fits vq (gm_size (mem c))" using Suc.prems(1) by (simp add: rings_apart_def)
  obtain one p1 c1 where run: "process_one_chain_for_queue ops vq processed c = Some (one, p1, c1)"
    by (rule one_chain_returns [OF fits])
  note r = one_chain_rings [OF Suc.prems(1) run]
  have a1: "gm_u16 (mem c1) (avail_q vq + 2) = ?a" by (rule same_avail(1) [OF r(1)])
  show ?case
  proof (cases one)
    case False
    then have "drain_queue (Suc fuel) ops vq processed c = Some (0 < (0 :: nat), p1, c1)" using run by simp
    moreover have "c1 = c" if "p1 = processed"
      using run that False unfolding one_chain_unfold [OF fits] by (auto simp: Let_def split: if_splits prod.splits)
    ultimately show ?thesis using r(1,2) r(4) [OF False] False
      by (intro exI [of _ 0] exI [of _ p1] exI [of _ c1]) auto
  next
    case True
    from r(3) [OF True] have p1: "p1 = processed + 1" and ne: "processed \<noteq> ?a" by auto
    have d: "unat (?a - p1) = unat (?a - processed) - 1" unfolding p1 by (rule pending_step [OF ne])
    have pos: "0 < unat (?a - processed)" using ne by (simp add: unat_gt_0)
    have "unat (gm_u16 (mem c1) (avail_q vq + 2) - p1) < fuel" using Suc.prems(2) pos by (simp add: a1 d)
    from Suc.IH [OF rings_apart_same [OF r(1) Suc.prems(1)] this] obtain k p2 c2 where
      IH: "drain_queue fuel ops vq p1 c1 = Some (0 < k, p2, c2)" "rings_same vq (mem c1) (mem c2)"
        "gm_u16 (mem c2) (used_q vq + 2) = gm_u16 (mem c1) (used_q vq + 2) + word_of_nat k"
        "k \<le> unat (?a - p1)"
        "p2 = p1 + word_of_nat k \<and> (p2 = ?a \<or> \<not> queue_has_data ops (queue_idx vq) c2) \<or>
         p2 = p1 + word_of_nat k + 1 \<and> p1 + word_of_nat k \<noteq> ?a"
      unfolding a1 by blast
    have e: "processed + word_of_nat (Suc k) = p1 + word_of_nat k" by (simp add: p1)
    have f1: "drain_queue (Suc fuel) ops vq processed c = Some (0 < Suc k, p2, c2)" using run True IH(1) by simp
    have f2: "rings_same vq (mem c) (mem c2)" by (rule rings_same_trans [OF r(1) IH(2)])
    have f3: "gm_u16 (mem c2) (used_q vq + 2) = gm_u16 (mem c) (used_q vq + 2) + word_of_nat (Suc k)"
      using IH(3) r(2) True by simp
    have f4: "Suc k \<le> unat (?a - processed)" using IH(4) d pos by simp
    show ?thesis
      by (rule exI [of _ "Suc k"], rule exI [of _ p2], rule exI [of _ c2], intro conjI)
        (rule f1 f2 f3 f4 IH(5) [folded e])+
  qed
qed simp

text \<open>A whole drain stays in the mapping, whatever the guest has put into the rings.\<close>

lemma drain_queue_safe:
  assumes "drain_queue fuel ops vq processed c = Some (posted, processed', c')"
    and "vq_fits vq (gm_size (mem c))" "dram_span vq + slack \<le> gm_size (mem c)" "ready (gm_size (mem c)) (dev c)"
  shows "gm_fault (mem c') = gm_fault (mem c) \<and> ready (gm_size (mem c)) (dev c')"
  using assms
proof (induction fuel arbitrary: processed c posted)
  case (Suc fuel)
  obtain one p1 c1 where run: "process_one_chain_for_queue ops vq processed c = Some (one, p1, c1)"
    by (rule one_chain_returns [OF Suc.prems(2)])
  note safe = one_chain_safe [OF run Suc.prems(2-4)]
  show ?case
  proof (cases one)
    case False
    then show ?thesis using Suc.prems(1) run safe by simp
  next
    case True
    then obtain posted2 where "drain_queue fuel ops vq p1 c1 = Some (posted2, processed', c')"
      using Suc.prems(1) run by (auto split: option.splits)
    from Suc.IH [OF this] show ?thesis using Suc.prems(2,3) safe by simp
  qed
qed simp

text \<open>A queue with a single pending chain.\<close>

lemma drain_single:
  assumes "rings_apart slack vq (mem c)" "gm_u16 (mem c) (avail_q vq + 2) = processed + 1"
    and run: "process_one_chain_for_queue ops vq processed c = Some (True, processed + 1, c1)" and "1 < fuel"
  shows "drain_queue fuel ops vq processed c = Some (True, processed + 1, c1)"
    and "gm_u16 (mem c1) (used_q vq + 2) = gm_u16 (mem c) (used_q vq + 2) + 1"
proof -
  obtain f where f: "fuel = Suc (Suc f)" using assms(4) by (cases fuel rule: nat.exhaust) (auto simp: gr0_conv_Suc)
  note r = one_chain_rings [OF assms(1) run]
  have fits: "vq_fits vq (gm_size (mem c1))" using rings_apart_same [OF r(1) assms(1)] by (simp only: rings_apart_def)
  have av: "gm_u16 (mem c1) (avail_q vq + 2) = processed + 1" unfolding same_avail(1) [OF r(1)] by (rule assms(2))
  have "process_one_chain_for_queue ops vq (processed + 1) c1 = Some (False, processed + 1, c1)"
    unfolding one_chain_unfold [OF fits] av by (simp only: simp_thms if_True)
  then show "drain_queue fuel ops vq processed c = Some (True, processed + 1, c1)"
    unfolding f by (simp add: run)
  show "gm_u16 (mem c1) (used_q vq + 2) = gm_u16 (mem c) (used_q vq + 2) + 1" using r(2) by simp
qed

end

end
