(* ===== verification/Data_Plane.thy ===== *)
theory Data_Plane
  imports Virtio_Drain Virtio_Blk Layout_Host Uart_Feed
begin

text \<open>
  The dispatcher of the daemon (\<open>src/src/tensix_data_plane.rs\<close>), with the interrupt controller
  (\<open>src/src/virtio/interrupt.rs\<close>) and the memory map of the L2CPUs (\<open>src/src/l2cpu.rs\<close>): the registry of
  devices, the published bitmaps of active slots, the drain of the dirty bitmap, the dispatch of one
  queue, and the passes of the poll loop. The registry is the list of its entries in the order in which
  the hash map yields them; the theorems hold for every order.
\<close>

section \<open>L2CPUs and interrupts\<close>

definition L2CPU_STARTING_ADDRESS :: "nat \<Rightarrow> u64" where
  "L2CPU_STARTING_ADDRESS idx = (if idx = 3 then 0x4000b0000000 else 0x400030000000)"

definition L2CPU_MEMORY_SIZE :: "nat \<Rightarrow> u64" where
  "L2CPU_MEMORY_SIZE idx = (if idx < 2 then 0x100000000 else 0x80000000)"

text \<open>The bytes of the 8 GB mapping from \<open>get_memory_ptr\<close> on.\<close>

definition L2CPU_MAPPED :: "nat \<Rightarrow> nat" where
  "L2CPU_MAPPED idx = 2 ^ 33 - unat (L2CPU_STARTING_ADDRESS idx - 0x400000000000)"

text \<open>
  \<open>set_interrupt\<close>: the status word of the slot, and the two stores to the source register of the
  PLIC. None is the failed assertion. The latch window between the stores is time only.
\<close>

definition set_interrupt :: "cell \<Rightarrow> u32 \<Rightarrow> guest_mem \<times> u32 list \<Rightarrow> (guest_mem \<times> u32 list) option" where
  "set_interrupt interrupt_status interrupt_number = (\<lambda>(m, reg).
     if interrupt_number < 5 then None
     else Some (put interrupt_status (1 OR word m interrupt_status) m,
                reg @ [push_bit (unat (interrupt_number - 5) mod 32) 1, 0]))"

definition ack_interrupt :: "cell \<Rightarrow> guest_mem \<times> u32 list \<Rightarrow> guest_mem \<times> u32 list" where
  "ack_interrupt interrupt_ack s = s"

fun interrupt_counter :: "interrupt_kind \<Rightarrow> counter_name" where
  "interrupt_counter Block = BLK_INTERRUPTS_TOTAL"
| "interrupt_counter Net = NET_INTERRUPTS_TOTAL"
| "interrupt_counter Console = CONSOLE_INTERRUPTS_TOTAL"
| "interrupt_counter Rng = RNG_INTERRUPTS_TOTAL"

definition bump_interrupt_metric :: "interrupt_kind \<Rightarrow> u8 \<Rightarrow> metrics \<Rightarrow> metrics" where
  "bump_interrupt_metric kind idx = counter_inc (interrupt_counter kind) idx"

section \<open>The dispatcher's state\<close>

record 'd reg_entry =
  re_slot :: nat
  re_l2cpu :: nat
  re_device :: 'd
  re_irq :: u32
  re_kind :: interrupt_kind
  re_processed :: "u16 list"

definition reg_entry_new :: "('d, 'w) device_ops \<Rightarrow> nat \<Rightarrow> nat \<Rightarrow> 'd \<Rightarrow> u32 \<Rightarrow> interrupt_kind \<Rightarrow> 'd reg_entry" where
  "reg_entry_new ops slot l2cpu device irq kind =
     \<lparr>re_slot = slot, re_l2cpu = l2cpu, re_device = device, re_irq = irq, re_kind = kind,
      re_processed = replicate (unat (num_queues ops device)) 0\<rparr>"

text \<open>
  L1, the memory of each L2CPU, the source register of each PLIC (the values stored to it), the host's
  objects, and the dispatcher's own state.
\<close>

record 'd disp =
  tile_l1 :: guest_mem
  dram :: "nat \<Rightarrow> guest_mem"
  plic :: "nat \<Rightarrow> u32 list"
  hst :: host
  registry :: "(nat \<times> 'd reg_entry) list"
  uart_registry :: "nat list"
  dispatches_total :: nat
  last_dispatch_slot_queue :: "nat \<times> nat"
  uart_consumer :: "nat \<Rightarrow> u32"
  last_status :: "(nat \<times> u32) list"

text \<open>Insertion into and removal from a map.\<close>

definition map_insert :: "'k \<Rightarrow> 'v \<Rightarrow> ('k \<times> 'v) list \<Rightarrow> ('k \<times> 'v) list" where
  "map_insert k v kvs = (if k \<in> fst ` set kvs then map (\<lambda>(k', v'). (k', if k' = k then v else v')) kvs else (k, v) # kvs)"

definition map_remove :: "'k \<Rightarrow> ('k \<times> 'v) list \<Rightarrow> ('k \<times> 'v) list" where
  "map_remove k kvs = filter (\<lambda>(k', _). k' \<noteq> k) kvs"

text \<open>\<open>publish_active_mask\<close> and the four operations that end with it.\<close>

definition slot_mask :: "nat list \<Rightarrow> u32" where
  "slot_mask slots = fold (\<lambda>slot mask. if slot < 32 then mask OR push_bit slot 1 else mask) slots 0"

definition publish_active_mask :: "'d disp \<Rightarrow> 'd disp" where
  "publish_active_mask s =
     (let virtio_mask = slot_mask (map fst (registry s));
          mask = fold (\<lambda>slot mask. if slot < 32 then mask OR push_bit slot 1 else mask)
                   (map slot_for_l2cpu (uart_registry s)) virtio_mask
      in s\<lparr>tile_l1 := put (Ctrl CTRL_OFF_ACTIVE_VIRTIO_SLOTS) virtio_mask
                       (put (Ctrl CTRL_OFF_ACTIVE_SLOTS) mask (tile_l1 s))\<rparr>)"

definition register_slot :: "'d reg_entry \<Rightarrow> 'd disp \<Rightarrow> 'd disp" where
  "register_slot e s = publish_active_mask (s\<lparr>registry := map_insert (re_slot e) e (registry s)\<rparr>)"

definition unregister_slot :: "nat \<Rightarrow> 'd disp \<Rightarrow> 'd disp" where
  "unregister_slot slot s = publish_active_mask (s\<lparr>registry := map_remove slot (registry s)\<rparr>)"

definition register_uart :: "nat \<Rightarrow> 'd disp \<Rightarrow> 'd disp" where
  "register_uart i s = publish_active_mask (s\<lparr>uart_registry := List.insert i (uart_registry s)\<rparr>)"

definition unregister_uart :: "nat \<Rightarrow> 'd disp \<Rightarrow> 'd disp" where
  "unregister_uart i s = publish_active_mask (s\<lparr>uart_registry := removeAll i (uart_registry s)\<rparr>)"

section \<open>Dispatching a queue\<close>

definition join32 :: "u32 \<Rightarrow> u32 \<Rightarrow> u64" where
  "join32 hi lo = push_bit 32 (ucast hi) OR ucast lo"

definition in_range :: "u64 \<Rightarrow> u64 \<Rightarrow> u64 \<Rightarrow> u64 \<Rightarrow> bool" where
  "in_range starting end_addr addr n \<longleftrightarrow> starting \<le> addr \<and> saturating_add addr n \<le> end_addr"

text \<open>
  The queue that the shadow describes, or None when \<open>dispatch_chain\<close> drops the request: the queue is
  not configured, its size is unusable, or a ring does not start in the guest's memory.
\<close>

definition shadow_vqueue :: "guest_mem \<Rightarrow> nat \<Rightarrow> nat \<Rightarrow> nat \<Rightarrow> u64 \<Rightarrow> vqueue option" where
  "shadow_vqueue m l2cpu slot q header_sz =
     (let sh = (\<lambda>f. word m (Shadow slot q f));
          desc_addr = join32 (sh SHADOW_Q_OFF_DESC_HI) (sh SHADOW_Q_OFF_DESC_LO);
          avail_addr = join32 (sh SHADOW_Q_OFF_DRIVER_HI) (sh SHADOW_Q_OFF_DRIVER_LO);
          used_addr = join32 (sh SHADOW_Q_OFF_DEVICE_HI) (sh SHADOW_Q_OFF_DEVICE_LO);
          num = sh SHADOW_Q_OFF_NUM;
          starting = L2CPU_STARTING_ADDRESS l2cpu;
          end_addr = starting + L2CPU_MEMORY_SIZE l2cpu
      in if desc_addr = 0 \<or> avail_addr = 0 \<or> used_addr = 0 then None
         else if num = 0 \<or> unat num > 0xFFFF then None
         else if \<not> in_range starting end_addr desc_addr 16 \<or> \<not> in_range starting end_addr avail_addr 4 \<or>
                 \<not> in_range starting end_addr used_addr 4 then None
         else Some \<lparr>desc_q = unat (desc_addr - starting), avail_q = unat (avail_addr - starting),
                    used_q = unat (used_addr - starting), queue_idx = word_of_nat q, header_size = header_sz,
                    queue_num = ucast num, starting_address = starting, mem_end = end_addr\<rparr>)"

text \<open>
  \<open>dispatch_chain\<close>: the result is the used index reported, the entry and the state. The outer None is a
  panic, or that the loop over the chains has not ended within \<open>fuel\<close>.
\<close>

definition dispatch_chain ::
  "nat \<Rightarrow> ('d, host) device_ops \<Rightarrow> 'd reg_entry \<Rightarrow> nat \<Rightarrow> 'd disp \<Rightarrow> (u32 option \<times> 'd reg_entry \<times> 'd disp) option"
where
  "dispatch_chain fuel ops reg q s =
     (if length (re_processed reg) \<le> q then Some (None, reg, s)
      else case shadow_vqueue (tile_l1 s) (re_l2cpu reg) (re_slot reg) q (queue_header_size ops (re_device reg)) of
        None \<Rightarrow> Some (None, reg, s)
      | Some vq \<Rightarrow>
          (case drain_queue fuel ops vq (re_processed reg ! q)
                  \<lparr>dev = re_device reg, mem = dram s (re_l2cpu reg), wld = hst s\<rparr> of
             None \<Rightarrow> None
           | Some (posted, processed', c) \<Rightarrow>
               let reg' = reg\<lparr>re_device := dev c, re_processed := (re_processed reg)[q := processed']\<rparr>;
                   s1 = s\<lparr>dram := (dram s)(re_l2cpu reg := mem c), hst := wld c\<rparr>
               in if \<not> posted then Some (None, reg', s1)
                  else (case set_interrupt (Reg (re_slot reg) VIRTIO_MMIO_INTERRUPT_STATUS) (re_irq reg)
                               (tile_l1 s1, plic s1 (re_l2cpu reg)) of
                          None \<Rightarrow> None
                        | Some (m, p) \<Rightarrow>
                            Some (Some (ucast (gm_u16 (mem c) (used_q vq + 2))), reg',
                              s1\<lparr>tile_l1 := m, plic := (plic s1)(re_l2cpu reg := p),
                                 hst := (hst s1)\<lparr>h_metrics := bump_interrupt_metric (re_kind reg)
                                   (word_of_nat (re_l2cpu reg)) (h_metrics (hst s1))\<rparr>\<rparr>))))"

section \<open>The dirty bitmap\<close>

fun collect_queues :: "nat \<Rightarrow> nat list \<Rightarrow> guest_mem \<Rightarrow> (nat \<times> nat) list \<times> guest_mem" where
  "collect_queues slot [] m = ([], m)"
| "collect_queues slot (q # qs) m =
     (if dirty_byte m slot q \<noteq> 0
      then map_prod ((#) (slot, q)) id (collect_queues slot qs (put_dirty slot q 0 m))
      else collect_queues slot qs m)"

fun collect_dirty_pairs :: "(nat \<times> nat) list \<Rightarrow> guest_mem \<Rightarrow> (nat \<times> nat) list \<times> guest_mem" where
  "collect_dirty_pairs [] m = ([], m)"
| "collect_dirty_pairs ((slot, n_queues) # slots) m =
     (case collect_queues slot [0..<min n_queues MAX_QUEUES_PER_SLOT] m of
        (hits, m1) \<Rightarrow> map_prod ((@) hits) id (collect_dirty_pairs slots m1))"

definition put_processed :: "nat \<Rightarrow> nat \<Rightarrow> u16 \<Rightarrow> guest_mem \<Rightarrow> guest_mem" where
  "put_processed slot q v m = gm_store (processed_cursor_addr slot q) (le_bytes 2 v) m"

text \<open>The dispatch of one collected pair, as the second half of \<open>drain_dirty_bitmap\<close> does it.\<close>

definition dispatch_hit :: "nat \<Rightarrow> ('d, host) device_ops \<Rightarrow> nat \<times> nat \<Rightarrow> 'd disp \<Rightarrow> (nat \<times> 'd disp) option" where
  "dispatch_hit fuel ops hit s =
     (case hit of (slot, q) \<Rightarrow>
        (case map_of (registry s) slot of
           None \<Rightarrow> Some (0, s)
         | Some reg \<Rightarrow>
             (case dispatch_chain fuel ops reg q s of
                None \<Rightarrow> None
              | Some (r, reg', s1) \<Rightarrow>
                  let s2 = s1\<lparr>registry := map_insert slot reg' (registry s1)\<rparr>
                  in case r of
                       None \<Rightarrow> Some (0, s2)
                     | Some _ \<Rightarrow>
                         Some (1, s2\<lparr>tile_l1 := put_processed slot q (re_processed reg' ! q) (tile_l1 s2),
                                     last_dispatch_slot_queue := (slot, q),
                                     dispatches_total := dispatches_total s2 + 1\<rparr>))))"

fun dispatch_hits :: "nat \<Rightarrow> ('d, host) device_ops \<Rightarrow> (nat \<times> nat) list \<Rightarrow> 'd disp \<Rightarrow> (nat \<times> 'd disp) option" where
  "dispatch_hits fuel ops [] s = Some (0, s)"
| "dispatch_hits fuel ops (h # hs) s =
     (case dispatch_hit fuel ops h s of
        None \<Rightarrow> None
      | Some (n, s1) \<Rightarrow> (case dispatch_hits fuel ops hs s1 of None \<Rightarrow> None | Some (k, s2) \<Rightarrow> Some (n + k, s2)))"

definition drain_dirty_bitmap :: "nat \<Rightarrow> ('d, host) device_ops \<Rightarrow> 'd disp \<Rightarrow> (nat \<times> 'd disp) option" where
  "drain_dirty_bitmap fuel ops s =
     (case collect_dirty_pairs (map (\<lambda>(slot, reg). (slot, length (re_processed reg))) (registry s)) (tile_l1 s) of
        (hits, m) \<Rightarrow> dispatch_hits fuel ops hits (s\<lparr>tile_l1 := m\<rparr>))"

section \<open>The passes of the poll loop\<close>

definition count_dispatches :: "nat \<Rightarrow> metrics \<Rightarrow> metrics" where
  "count_dispatches n mx =
     (if n > 0 then counter_add DISPATCH_QUEUES_DRAINED 0 (word_of_nat n) (counter_inc DISPATCH_PASSES_TOTAL 0 mx) else mx)"

text \<open>The receive queues of the devices whose data arrives on the host.\<close>

fun rx_pass :: "nat \<Rightarrow> ('d, host) device_ops \<Rightarrow> nat list \<Rightarrow> 'd disp \<Rightarrow> (bool \<times> 'd disp) option" where
  "rx_pass fuel ops [] s = Some (False, s)"
| "rx_pass fuel ops (slot # slots) s =
     (case map_of (registry s) slot of
        None \<Rightarrow> rx_pass fuel ops slots s
      | Some reg \<Rightarrow>
          if re_kind reg \<noteq> Net \<and> re_kind reg \<noteq> Console then rx_pass fuel ops slots s
          else (case dispatch_chain fuel ops reg 0 s of
                  None \<Rightarrow> None
                | Some (r, reg', s1) \<Rightarrow>
                    map_option (map_prod ((\<or>) (r \<noteq> None)) id)
                      (rx_pass fuel ops slots (s1\<lparr>registry := map_insert slot reg' (registry s1)\<rparr>))))"

text \<open>The UART feeds, each into the hub of its L2CPU; the flag is that a byte was delivered.\<close>

definition uart_drain_one :: "nat \<Rightarrow> 'd disp \<Rightarrow> bool \<times> 'd disp" where
  "uart_drain_one i s =
     (if i \<ge> NUM_L2CPUS then (False, s)
      else case drain_uart_to_hub i (tile_l1 s, uart_consumer s i) (h_hub (hst s) (word_of_nat i), h_metrics (hst s)) of
        ((m, c), (hb, mx)) \<Rightarrow>
          (word (tile_l1 s) (Upriv i UART_PRIV_OFF_FEED_PRODUCER_SEQ) \<noteq> uart_consumer s i,
           s\<lparr>tile_l1 := m, uart_consumer := (uart_consumer s)(i := c),
             hst := (hst s)\<lparr>h_hub := (h_hub (hst s))(word_of_nat i := hb), h_metrics := mx\<rparr>\<rparr>))"

fun uart_pass :: "nat list \<Rightarrow> 'd disp \<Rightarrow> bool \<times> 'd disp" where
  "uart_pass [] s = (False, s)"
| "uart_pass (i # is) s = (case uart_drain_one i s of (b, s1) \<Rightarrow> map_prod ((\<or>) b) id (uart_pass is s1))"

definition take_delta :: "u32 \<Rightarrow> u32 \<Rightarrow> u32 option \<times> u32" where
  "take_delta current seen = (if current = seen then (None, seen) else (Some (current - seen), current))"

text \<open>A counter of the firmware that the daemon adds up in a metric.\<close>

definition ratchet :: "counter_name \<Rightarrow> u8 \<Rightarrow> u32 \<Rightarrow> u32 \<times> metrics \<Rightarrow> u32 \<times> metrics" where
  "ratchet k idx current = (\<lambda>(seen, mx).
     case take_delta current seen of
       (None, seen') \<Rightarrow> (seen', mx)
     | (Some delta, seen') \<Rightarrow> (seen', counter_add k idx (ucast delta) mx))"

text \<open>The status register of a slot: a transition to 0 wipes the entry's cursors.\<close>

definition status_one :: "nat \<Rightarrow> 'd disp \<Rightarrow> 'd disp" where
  "status_one slot s =
     (let status = word (tile_l1 s) (Reg slot VIRTIO_MMIO_STATUS);
          prev = (case map_of (last_status s) slot of None \<Rightarrow> 0 | Some v \<Rightarrow> v)
      in if status = prev then s
         else
           let s1 = (if status = 0 \<and> prev \<noteq> 0
                     then s\<lparr>registry := map (\<lambda>(k, e). (k, if k = slot
                              then e\<lparr>re_processed := map (\<lambda>_. 0) (re_processed e)\<rparr> else e)) (registry s)\<rparr>
                     else s)
           in s1\<lparr>last_status := map_insert slot status (last_status s1)\<rparr>)"

definition status_pass :: "'d disp \<Rightarrow> 'd disp" where
  "status_pass s = fold status_one (map fst (registry s)) s"

text \<open>The sleep at the end of an iteration, in microseconds.\<close>

definition sleep_us :: "nat \<Rightarrow> nat" where
  "sleep_us idle = (if idle < 200 * 1000 then 10 else if idle < 2 * 1000 * 1000 then 1000 else 10 * 1000)"

text \<open>
  One iteration of \<open>run_poll_loop\<close> up to the counters; the flag is whether there was traffic, which
  resets the idle time.
\<close>

definition poll_pass :: "nat \<Rightarrow> ('d, host) device_ops \<Rightarrow> 'd disp \<Rightarrow> (bool \<times> 'd disp) option" where
  "poll_pass fuel ops s =
     (case drain_dirty_bitmap fuel ops s of
        None \<Rightarrow> None
      | Some (n, s1) \<Rightarrow>
          let s2 = s1\<lparr>hst := (hst s1)\<lparr>h_metrics := count_dispatches n (h_metrics (hst s1))\<rparr>\<rparr>
          in case rx_pass fuel ops (map fst (registry s2)) s2 of
               None \<Rightarrow> None
             | Some (rx, s3) \<Rightarrow>
                 (case uart_pass (uart_registry s3) s3 of
                    (ua, s4) \<Rightarrow> Some (n > 0 \<or> rx \<or> ua, status_pass s4)))"

text \<open>
  The counters of the firmware that the loop adds up in metrics, with the values it has seen: three words
  of the statistics page, then the drop counts of the registered UARTs. The loop reads the statistics
  before the status registers; the two have no state in common. Counters that are only logged are left out.
\<close>

record seen_counters =
  seen_notify_events :: u32
  seen_sel_ready_races :: u32
  seen_old_sel_rescue :: u32
  seen_uart_drops :: "nat \<Rightarrow> u32"

definition disp_metrics :: "(metrics \<Rightarrow> metrics) \<Rightarrow> 'd disp \<Rightarrow> 'd disp" where
  "disp_metrics f s = s\<lparr>hst := (hst s)\<lparr>h_metrics := f (h_metrics (hst s))\<rparr>\<rparr>"

definition count_firmware :: "seen_counters \<times> 'd disp \<Rightarrow> seen_counters \<times> 'd disp" where
  "count_firmware = (\<lambda>(sn, s).
     let m = tile_l1 s; mx = h_metrics (hst s);
         (n1, mx) = ratchet NOTIFY_EVENTS_TOTAL 0 (word m (Stat STATS_OFF_NOTIFY_EVENTS)) (seen_notify_events sn, mx);
         (n2, mx) = ratchet SEL_READY_RACES_TOTAL 0 (word m (Stat STATS_OFF_SEL_READY_RACES)) (seen_sel_ready_races sn, mx);
         (n3, mx) = ratchet BRISC_OLD_SEL_RESCUE_TOTAL 0 (word m (Stat STATS_OFF_BRISC_OLD_SEL_RESCUE)) (seen_old_sel_rescue sn, mx)
     in (sn\<lparr>seen_notify_events := n1, seen_sel_ready_races := n2, seen_old_sel_rescue := n3\<rparr>, disp_metrics (\<lambda>_. mx) s))"

definition count_drops :: "nat \<Rightarrow> seen_counters \<times> 'd disp \<Rightarrow> seen_counters \<times> 'd disp" where
  "count_drops i = (\<lambda>(sn, s).
     if i \<ge> NUM_L2CPUS then (sn, s)
     else case ratchet UART_FEED_DROPS_TOTAL (word_of_nat i) (word (tile_l1 s) (Upriv i UART_PRIV_OFF_FEED_DROP_COUNT))
                 (seen_uart_drops sn i, h_metrics (hst s)) of
            (d, mx) \<Rightarrow> (sn\<lparr>seen_uart_drops := (seen_uart_drops sn)(i := d)\<rparr>, disp_metrics (\<lambda>_. mx) s))"

text \<open>One iteration with its counters.\<close>

definition poll_iteration ::
    "nat \<Rightarrow> ('d, host) device_ops \<Rightarrow> seen_counters \<times> 'd disp \<Rightarrow> (bool \<times> seen_counters \<times> 'd disp) option" where
  "poll_iteration fuel ops = (\<lambda>(sn, s).
     map_option (\<lambda>(busy, s1). (busy, fold count_drops (uart_registry s1) (count_firmware (sn, s1)))) (poll_pass fuel ops s))"

text \<open>The counters change nothing but the metrics.\<close>

lemma disp_metrics_twice: "disp_metrics f (disp_metrics g s) = disp_metrics (f \<circ> g) s"
  by (simp add: disp_metrics_def)

lemma poll_iteration_pass:
  "case poll_iteration fuel ops (sn, s) of
     None \<Rightarrow> poll_pass fuel ops s = None
   | Some (busy, sn', s') \<Rightarrow> \<exists>s1 f. poll_pass fuel ops s = Some (busy, s1) \<and> s' = disp_metrics f s1"
proof -
  have one: "\<exists>f. snd (count_drops i q) = disp_metrics f (snd q)" for i and q :: "seen_counters \<times> 'a disp"
  proof (cases "i \<ge> NUM_L2CPUS")
    case True
    then have "snd (count_drops i q) = disp_metrics (\<lambda>m. m) (snd q)" by (simp add: count_drops_def disp_metrics_def split: prod.splits)
    then show ?thesis by blast
  qed (auto simp: count_drops_def split: prod.splits)
  have drops: "\<exists>f. snd (fold count_drops is q) = disp_metrics f (snd q)" for "is" and q :: "seen_counters \<times> 'a disp"
  proof (induction "is" arbitrary: q)
    case Nil
    have "snd q = disp_metrics (\<lambda>m. m) (snd q)" by (simp add: disp_metrics_def)
    then show ?case by auto
  next
    case (Cons i "is")
    obtain f g where "snd (count_drops i q) = disp_metrics f (snd q)"
      "snd (fold count_drops is (count_drops i q)) = disp_metrics g (snd (count_drops i q))"
      using one [of i q] Cons.IH [of "count_drops i q"] by blast
    then have "snd (fold count_drops (i # is) q) = disp_metrics (g \<circ> f) (snd q)" by (simp add: disp_metrics_twice)
    then show ?case by blast
  qed
  have "\<exists>f. snd (count_firmware (sn, s1)) = disp_metrics f s1" for s1 :: "'a disp"
    by (auto simp: count_firmware_def Let_def split: prod.splits)
  then have "\<exists>f. snd (fold count_drops (uart_registry s1) (count_firmware (sn, s1))) = disp_metrics f s1" for s1 :: "'a disp"
    using drops [of "uart_registry s1" "count_firmware (sn, s1)"] by (metis disp_metrics_twice)
  then show ?thesis
    by (auto simp: poll_iteration_def split: option.splits prod.splits) (metis snd_conv)
qed

end
