(* ===== verification/Data_Plane_Props.thy ===== *)
theory Data_Plane_Props
  imports Data_Plane Firmware_Sweep
begin

text \<open>
  Properties of the dispatcher: the published bitmaps, the collection of the dirty bytes, the dispatch
  of one queue for every device, and the counters.
\<close>

section \<open>The published bitmaps\<close>

lemma bit_fold_mask:
  "bit (fold (\<lambda>slot mask. if slot < 32 then mask OR push_bit slot 1 else mask) slots w) i \<longleftrightarrow>
     bit w i \<or> i < 32 \<and> i \<in> set slots" for w :: u32
proof (induction slots arbitrary: w)
  case (Cons slot slots)
  have "bit (w OR push_bit slot 1) i \<longleftrightarrow> bit w i \<or> i < 32 \<and> i = slot"
    by (auto simp: bit_or_iff bit_push_bit_iff bit_exp_iff)
  then show ?case using Cons by auto
qed simp

lemma publish_masks:
  "bit (word (tile_l1 (publish_active_mask s)) (Ctrl CTRL_OFF_ACTIVE_VIRTIO_SLOTS)) i \<longleftrightarrow> i < 32 \<and> i \<in> fst ` set (registry s)"
  "bit (word (tile_l1 (publish_active_mask s)) (Ctrl CTRL_OFF_ACTIVE_SLOTS)) i \<longleftrightarrow>
     i < 32 \<and> (i \<in> fst ` set (registry s) \<or> i \<in> slot_for_l2cpu ` set (uart_registry s))"
  by (auto simp: publish_active_mask_def slot_mask_def Let_def word_put bit_fold_mask)

lemma publish_frame:
  assumes "cell_ok c" "cell_size c = 4" "c \<notin> {Ctrl CTRL_OFF_ACTIVE_SLOTS, Ctrl CTRL_OFF_ACTIVE_VIRTIO_SLOTS}"
  shows "word (tile_l1 (publish_active_mask s)) c = word (tile_l1 s) c"
  using assms by (auto simp: publish_active_mask_def Let_def word_put)

section \<open>Collecting the dirty bytes\<close>

lemma collect_queues_result:
  assumes "slot < 32" "set qs \<subseteq> {..<8}" "distinct qs"
  shows "fst (collect_queues slot qs m) = map (Pair slot) (filter (\<lambda>q. dirty_byte m slot q \<noteq> 0) qs) \<and>
    (\<forall>sl < 32. \<forall>q < 8. dirty_byte (snd (collect_queues slot qs m)) sl q =
      (if sl = slot \<and> q \<in> set qs then 0 else dirty_byte m sl q)) \<and>
    (\<forall>c. cell_ok c \<longrightarrow> cell_size c = 4 \<longrightarrow> word (snd (collect_queues slot qs m)) c = word m c)"
  using assms
proof (induction qs arbitrary: m)
  case (Cons x qs)
  let ?m1 = "put_dirty slot x 0 m"
  have x: "x < 8" "x \<notin> set qs" "set qs \<subseteq> {..<8}" "distinct qs" using Cons.prems by auto
  have same: "filter (\<lambda>q. dirty_byte ?m1 slot q \<noteq> 0) qs = filter (\<lambda>q. dirty_byte m slot q \<noteq> 0) qs"
    using x assms(1) by (intro filter_cong) (auto simp: dirty_put_dirty subset_iff split: if_splits)
  show ?case
    using Cons.IH [OF assms(1) x(3,4), of m] Cons.IH [OF assms(1) x(3,4), of ?m1] same x(1,2) assms(1)
    by (auto simp: dirty_put_dirty word_put_dirty)
qed simp

definition dirty_pairs :: "(nat \<times> nat) list \<Rightarrow> guest_mem \<Rightarrow> (nat \<times> nat) list" where
  "dirty_pairs slots m =
     filter (\<lambda>(slot, q). dirty_byte m slot q \<noteq> 0) (concat (map (\<lambda>(slot, n). map (Pair slot) [0..<min n 8]) slots))"

lemma dirty_pairs_Cons:
  "dirty_pairs ((slot, n) # slots) m = map (Pair slot) (filter (\<lambda>q. dirty_byte m slot q \<noteq> 0) [0..<min n 8]) @ dirty_pairs slots m"
  by (simp add: dirty_pairs_def filter_map o_def)

lemma dirty_pairs_cong:
  "(\<And>sl n q. (sl, n) \<in> set slots \<Longrightarrow> q < 8 \<Longrightarrow> dirty_byte m' sl q = dirty_byte m sl q) \<Longrightarrow> dirty_pairs slots m' = dirty_pairs slots m"
  unfolding dirty_pairs_def by (intro filter_cong) auto

lemma dirty_pairs_comprehension:
  "dirty_pairs (map (\<lambda>(slot, e). (slot, f e)) es) m =
     [(slot, q). (slot, e) \<leftarrow> es, q \<leftarrow> [0..<min (f e) 8], dirty_byte m slot q \<noteq> 0]"
proof (induction es)
  case (Cons x es)
  have "concat (map (\<lambda>q. if P q then [g q] else []) qs) = map g (filter P qs)" for P qs and g :: "nat \<Rightarrow> nat \<times> nat"
    by (induction qs) auto
  then show ?case using Cons by (cases x) (simp add: dirty_pairs_Cons)
qed (simp add: dirty_pairs_def)

lemma collect_dirty_result:
  assumes "distinct (map fst slots)" "\<forall>(slot, n) \<in> set slots. slot < 32"
  shows "fst (collect_dirty_pairs slots m) = dirty_pairs slots m \<and>
    (\<forall>sl < 32. \<forall>q < 8. dirty_byte (snd (collect_dirty_pairs slots m)) sl q =
      (if \<exists>n. (sl, n) \<in> set slots \<and> q < n then 0 else dirty_byte m sl q)) \<and>
    (\<forall>c. cell_ok c \<longrightarrow> cell_size c = 4 \<longrightarrow> word (snd (collect_dirty_pairs slots m)) c = word m c)"
  using assms
proof (induction slots arbitrary: m)
  case Nil
  then show ?case by (simp add: dirty_pairs_def)
next
  case (Cons x slots)
  obtain slot n where x: "x = (slot, n)" by (cases x)
  have slot: "slot < 32" "slot \<notin> fst ` set slots" and rest: "distinct (map fst slots)" "\<forall>(slot, n) \<in> set slots. slot < 32"
    using Cons.prems x by auto
  have mq: "MAX_QUEUES_PER_SLOT = 8" by (simp add: layout_defs)
  obtain hits m1 where c: "collect_queues slot [0..<min n 8] m = (hits, m1)" by (cases "collect_queues slot [0..<min n 8] m")
  have qs: "set [0..<min n 8] \<subseteq> {..<8}" "distinct [0..<min n 8]" by auto
  note r = collect_queues_result [OF slot(1) qs, of m, unfolded c fst_conv snd_conv]
  have other: "dirty_byte m1 sl q = dirty_byte m sl q" if "(sl, k) \<in> set slots" "q < 8" for sl k q
  proof -
    have "sl \<noteq> slot" "sl < 32" using that slot rest(2) by force+
    then show ?thesis using r that(2) by simp
  qed
  have "dirty_pairs slots m1 = dirty_pairs slots m" by (rule dirty_pairs_cong) (rule other)
  then have "dirty_pairs (x # slots) m = hits @ dirty_pairs slots m1" using r by (simp add: x dirty_pairs_Cons)
  then show ?case
    using Cons.IH [OF rest, of m1] r slot by (auto simp: x mq c image_iff)
qed

lemma collect_queues_frame:
  "(\<And>q. q \<in> set qs \<Longrightarrow> a \<noteq> cell_addr (Dirty slot q)) \<Longrightarrow> gm_bytes (snd (collect_queues slot qs m)) a = gm_bytes m a"
proof (induction qs arbitrary: m)
  case (Cons q qs)
  have "gm_bytes (put_dirty slot q 0 m) a = gm_bytes m a" using Cons.prems [of q] by (auto simp: put_dirty_def gm_bytes_store)
  then show ?case using Cons by simp
qed simp

lemma collect_dirty_frame:
  "(\<And>slot n q. (slot, n) \<in> set slots \<Longrightarrow> q < n \<Longrightarrow> a \<noteq> cell_addr (Dirty slot q)) \<Longrightarrow>
     gm_bytes (snd (collect_dirty_pairs slots m)) a = gm_bytes m a"
proof (induction slots arbitrary: m)
  case (Cons sn slots)
  obtain slot n where sn: "sn = (slot, n)" by (cases sn)
  obtain hits m1 where c: "collect_queues slot [0..<min n MAX_QUEUES_PER_SLOT] m = (hits, m1)" by (metis surj_pair)
  have "gm_bytes m1 a = gm_bytes m a"
    using collect_queues_frame [of "[0..<min n MAX_QUEUES_PER_SLOT]" a slot m] Cons.prems [of slot n] by (simp add: c sn)
  moreover have "gm_bytes (snd (collect_dirty_pairs slots m1)) a = gm_bytes m1 a"
    by (rule Cons.IH) (use Cons.prems in auto)
  ultimately show ?case by (simp add: sn c)
qed simp

text \<open>
  C22. One pass over the dirty bitmap finds every notification of a registered queue exactly once, in
  the order of the registry, clears exactly the bytes of the registered queues, and leaves every other
  byte of L1 alone.
\<close>

theorem dirty_bytes_collected:
  assumes "distinct (map fst (registry s))" and "\<forall>(slot, e) \<in> set (registry s). slot < 32"
    and "collect_dirty_pairs (map (\<lambda>(slot, e). (slot, length (re_processed e))) (registry s)) (tile_l1 s) = (hits, m')"
  shows "hits = [(slot, q). (slot, e) \<leftarrow> registry s, q \<leftarrow> [0..<min (length (re_processed e)) 8], dirty_byte (tile_l1 s) slot q \<noteq> 0] \<and>
    (\<forall>slot < 32. \<forall>q < 8. dirty_byte m' slot q =
      (if \<exists>e. (slot, e) \<in> set (registry s) \<and> q < length (re_processed e) then 0 else dirty_byte (tile_l1 s) slot q)) \<and>
    (\<forall>c. cell_ok c \<longrightarrow> cell_size c = 4 \<longrightarrow> word m' c = word (tile_l1 s) c) \<and>
    (\<forall>a. (\<forall>(slot, e) \<in> set (registry s). \<forall>q < length (re_processed e). a \<noteq> cell_addr (Dirty slot q)) \<longrightarrow>
       gm_bytes m' a = gm_bytes (tile_l1 s) a)"
proof -
  let ?slots = "map (\<lambda>(slot, e). (slot, length (re_processed e))) (registry s)"
  have "map fst ?slots = map fst (registry s)" by (simp add: o_def split_beta)
  then have dst: "distinct (map fst ?slots)" using assms(1) by (simp only:)
  have bound: "\<forall>(slot, n) \<in> set ?slots. slot < 32" using assms(2) by auto
  note r = collect_dirty_result [OF dst bound, of "tile_l1 s", unfolded assms(3) fst_conv snd_conv]
  have mem: "(\<exists>n. (slot, n) \<in> set ?slots \<and> q < n) \<longleftrightarrow> (\<exists>e. (slot, e) \<in> set (registry s) \<and> q < length (re_processed e))" for slot q
    by force
  have pairs: "dirty_pairs ?slots m =
      [(slot, q). (slot, e) \<leftarrow> registry s, q \<leftarrow> [0..<min (length (re_processed e)) 8], dirty_byte m slot q \<noteq> 0]" for m
    by (rule dirty_pairs_comprehension)
  have "gm_bytes m' a = gm_bytes (tile_l1 s) a"
    if "\<forall>(slot, e) \<in> set (registry s). \<forall>q < length (re_processed e). a \<noteq> cell_addr (Dirty slot q)" for a
    using collect_dirty_frame [of ?slots a "tile_l1 s"] that unfolding assms(3) by fastforce
  then show ?thesis using r unfolding mem pairs by blast
qed

section \<open>Dispatching one queue\<close>

text \<open>\<open>dispatch_chain\<close> once the drain of the queue has returned.\<close>

lemma dispatch_chain_run:
  assumes "q < length (re_processed reg)" "5 \<le> re_irq reg"
    and "shadow_vqueue (tile_l1 s) (re_l2cpu reg) (re_slot reg) q (queue_header_size ops (re_device reg)) = Some vq"
    and "drain_queue fuel ops vq (re_processed reg ! q) \<lparr>dev = re_device reg, mem = dram s (re_l2cpu reg), wld = hst s\<rparr> =
      Some (posted, processed', c)"
  shows "\<exists>s'. dispatch_chain fuel ops reg q s =
      Some (if posted then Some (ucast (gm_u16 (mem c) (used_q vq + 2))) else None,
        reg\<lparr>re_device := dev c, re_processed := (re_processed reg)[q := processed']\<rparr>, s') \<and>
    dram s' = (dram s)(re_l2cpu reg := mem c) \<and> registry s' = registry s \<and>
    plic s' = (plic s)(re_l2cpu reg := plic s (re_l2cpu reg) @
      (if posted then [push_bit (unat (re_irq reg - 5) mod 32) 1, 0] else [])) \<and>
    tile_l1 s' = (if posted
      then put (Reg (re_slot reg) VIRTIO_MMIO_INTERRUPT_STATUS) (1 OR word (tile_l1 s) (Reg (re_slot reg) VIRTIO_MMIO_INTERRUPT_STATUS)) (tile_l1 s)
      else tile_l1 s)"
proof -
  have "\<not> re_irq reg < 5" "\<not> length (re_processed reg) \<le> q" using assms(1,2) by simp_all
  then show ?thesis using assms(3,4) by (simp add: dispatch_chain_def set_interrupt_def Let_def fun_upd_idem)
qed

text \<open>
  C5. The dispatcher serves a queue of a device that always has data, as a disk and the entropy device do.
  With rings that nothing overlaps the dispatch returns. It completes exactly the waiting chains in front
  of the first malformed one, or all of them, and posts one used entry for each; it skips that malformed
  one and leaves the chains behind it; and it raises the interrupt, as one pulse of the source's bit,
  exactly when it completed a chain.
\<close>

theorem dispatch_serves_queue:
  assumes "virtio_device ops slack wslack dev_ok ready"
    and "q < length (re_processed reg)" "5 \<le> re_irq reg"
    and "shadow_vqueue (tile_l1 s) (re_l2cpu reg) (re_slot reg) q (queue_header_size ops (re_device reg)) = Some vq"
    and "rings_apart slack vq (dram s (re_l2cpu reg))"
    and "\<And>c. queue_has_data ops (queue_idx vq) c"
    and "m = dram s (re_l2cpu reg)" "seen = re_processed reg ! q" "heads = waiting_heads m vq seen"
    and "k = length (takeWhile (well_formed_chain m vq) heads)"
  shows "\<exists>r reg' s'. dispatch_chain (2 ^ 16) ops reg q s = Some (r, reg', s') \<and>
    gm_u16 (dram s' (re_l2cpu reg)) (used_q vq + 2) = gm_u16 m (used_q vq + 2) + word_of_nat k \<and>
    r = (if k = 0 then None else Some (ucast (gm_u16 (dram s' (re_l2cpu reg)) (used_q vq + 2)))) \<and>
    plic s' (re_l2cpu reg) = plic s (re_l2cpu reg) @ (if k = 0 then [] else [push_bit (unat (re_irq reg - 5) mod 32) 1, 0]) \<and>
    re_processed reg' = (re_processed reg)[q := seen + word_of_nat k + (if k < length heads then 1 else 0)]"
proof -
  let ?c = "\<lparr>dev = re_device reg, mem = dram s (re_l2cpu reg), wld = hst s\<rparr>"
  have fuel: "unat (gm_u16 (mem ?c) (avail_q vq + 2) - re_processed reg ! q) < 2 ^ 16"
    using unsigned_less [of "gm_u16 (mem ?c) (avail_q vq + 2) - re_processed reg ! q", where ?'a = nat] by simp
  obtain c' where
    run: "drain_queue (2 ^ 16) ops vq seen ?c = Some (0 < k, seen + word_of_nat k + (if k < length heads then 1 else 0), c')" and
    res: "gm_u16 (mem c') (used_q vq + 2) = gm_u16 m (used_q vq + 2) + word_of_nat k"
    using virtio_device.drain_queue_exact [OF assms(1), of vq ?c, OF _ assms(6) fuel] assms(5,7-10) by (auto simp del: power_numeral)
  from dispatch_chain_run [OF assms(2-4) run [unfolded assms(8)]] obtain s' where
    "dispatch_chain (2 ^ 16) ops reg q s = Some (if 0 < k then Some (ucast (gm_u16 (mem c') (used_q vq + 2))) else None,
        reg\<lparr>re_device := dev c', re_processed := (re_processed reg)[q := seen + word_of_nat k + (if k < length heads then 1 else 0)]\<rparr>, s')"
    "dram s' = (dram s)(re_l2cpu reg := mem c')"
    "plic s' = (plic s)(re_l2cpu reg := plic s (re_l2cpu reg) @ (if 0 < k then [push_bit (unat (re_irq reg - 5) mod 32) 1, 0] else []))"
    unfolding assms(8) by blast
  then show ?thesis using res by auto
qed

text \<open>A guest of L2CPU 0 with one block read pending in queue 0 of slot 0.\<close>

definition demo_rings :: "(nat \<times> u8) list \<Rightarrow> guest_mem" where
  "demo_rings extra = \<lparr>gm_bytes = (\<lambda>a. case map_of (extra @
       [(0, 128), (3, 48), (5, 64), (8, 16), (12, 1), (14, 1), (16, 144), (19, 48), (21, 64), (24, 4), (28, 3), (30, 2),
        (32, 148), (35, 48), (37, 64), (40, 1), (44, 2), (66, 1)]) a of None \<Rightarrow> 0 | Some b \<Rightarrow> b),
     gm_size = 0x1D0000000, gm_fault = False\<rparr>"

definition demo_shadow :: guest_mem where
  "demo_shadow = fold (\<lambda>(f, v). put (Shadow 0 0 f) v)
     [(SHADOW_Q_OFF_NUM, 4), (SHADOW_Q_OFF_DESC_LO, 0x30000000), (SHADOW_Q_OFF_DESC_HI, 0x4000),
      (SHADOW_Q_OFF_DRIVER_LO, 0x30000040), (SHADOW_Q_OFF_DRIVER_HI, 0x4000),
      (SHADOW_Q_OFF_DEVICE_LO, 0x30000050), (SHADOW_Q_OFF_DEVICE_HI, 0x4000)] zero_l1"

definition demo_entry :: "virtio_blk reg_entry" where
  "demo_entry = reg_entry_new blk_ops 0 0 (from_file_with_serial demo_disk 0 None) 33 Block"

definition demo_disp :: "(nat \<times> u8) list \<Rightarrow> virtio_blk disp" where
  "demo_disp extra = \<lparr>tile_l1 = demo_shadow, dram = (\<lambda>_. demo_rings extra), plic = (\<lambda>_. []), hst = demo_host,
     registry = [(0, demo_entry)], uart_registry = [], dispatches_total = 0, last_dispatch_slot_queue = (0, 0),
     uart_consumer = (\<lambda>_. 0), last_status = []\<rparr>"

definition demo_vq :: vqueue where
  "demo_vq = \<lparr>desc_q = 0, avail_q = 64, used_q = 80, queue_idx = 0, header_size = 16,
     queue_num = 4, starting_address = 0x400030000000, mem_end = 0x400130000000\<rparr>"

lemma demo_shadow_vqueue: "shadow_vqueue demo_shadow 0 0 0 16 = Some demo_vq"
  by (simp add: shadow_vqueue_def demo_shadow_def word_put Let_def join32_def in_range_def demo_vq_def
      L2CPU_STARTING_ADDRESS_def L2CPU_MEMORY_SIZE_def saturating_add_def)

lemma demo_slots: "desc_slot demo_vq i \<in> {0, 16, 32, 48}"
proof -
  have "unat i mod 4 < 4" by simp
  then have "unat i mod 4 \<in> {0, 1, 2, 3}" by auto
  then show ?thesis by (auto simp: desc_slot_def demo_vq_def)
qed

lemma demo_rings_descs:
  assumes "\<forall>a < 80. map_of extra a = None"
  shows "read_desc (demo_rings extra) 0 = \<lparr>d_addr = 0x400030000080, d_len = 16, d_flags = 1, d_next = 1\<rparr>"
    "read_desc (demo_rings extra) 16 = \<lparr>d_addr = 0x400030000090, d_len = 4, d_flags = 3, d_next = 2\<rparr>"
    "read_desc (demo_rings extra) 32 = \<lparr>d_addr = 0x400030000094, d_len = 1, d_flags = 2, d_next = 0\<rparr>"
    "read_desc (demo_rings extra) 48 = \<lparr>d_addr = 0, d_len = 0, d_flags = 0, d_next = 0\<rparr>"
    "gm_u16 (demo_rings extra) 66 = 1" "gm_u16 (demo_rings extra) 68 = 0"
  using assms by (simp_all add: demo_rings_def read_desc_def gm_load_def upt_rec_numeral upt_0_8 map_add_def)

lemma demo_rings_apart:
  assumes "\<forall>a < 80. map_of extra a = None"
  shows "rings_apart 16 demo_vq (demo_rings extra)"
proof -
  have sz: "gm_size (demo_rings extra) = 0x1D0000000" by (simp add: demo_rings_def)
  note d = demo_rings_descs [OF assms]
  have "let d = read_desc (demo_rings extra) (desc_slot demo_vq i) in
      \<not> desc_out_of_range demo_vq d \<longrightarrow>
      disj2 (table_span demo_vq) (buffer_span 16 demo_vq d) \<and> disj2 (avail_span demo_vq) (buffer_span 16 demo_vq d) \<and>
      disj2 (used_span demo_vq) (buffer_span 16 demo_vq d)" for i
    using demo_slots [of i] d
    by (auto simp: Let_def demo_vq_def buffer_span_def desc_offset_def disj2_def desc_out_of_range_def)
  then show ?thesis by (simp add: rings_apart_def sz vq_fits_def) (simp add: demo_vq_def disj2_def)
qed

lemma demo_disp_simps [simp]:
  "tile_l1 (demo_disp extra) = demo_shadow" "dram (demo_disp extra) l = demo_rings extra" "plic (demo_disp extra) l = []"
  "registry (demo_disp extra) = [(0, demo_entry)]" "hst (demo_disp extra) = demo_host"
  "re_slot demo_entry = 0" "re_l2cpu demo_entry = 0" "re_irq demo_entry = 33" "re_processed demo_entry = [0]"
  "queue_header_size blk_ops d = 16" "queue_has_data blk_ops q c" "queue_idx demo_vq = 0"
  "avail_q demo_vq = 64" "used_q demo_vq = 80" "desc_q demo_vq = 0" "queue_num demo_vq = 4"
  by (simp_all add: demo_disp_def demo_entry_def reg_entry_new_def blk_ops_def demo_vq_def)

theorem dispatch_serves_queue_witness:
  "\<exists>r reg' s'. dispatch_chain (2 ^ 16) blk_ops demo_entry 0 (demo_disp []) = Some (r, reg', s') \<and>
    r \<noteq> None \<and> re_processed reg' = [1] \<and> plic s' 0 = [0x10000000, 0]"
proof -
  have vq: "shadow_vqueue (tile_l1 (demo_disp [])) (re_l2cpu demo_entry) (re_slot demo_entry) 0
      (queue_header_size blk_ops (re_device demo_entry)) = Some demo_vq"
    by (simp add: demo_shadow_vqueue)
  note d = demo_rings_descs [of "[]", simplified]
  have "chain_descs (demo_rings []) demo_vq 4 0 = (True, [\<lparr>d_addr = 0x400030000080, d_len = 16, d_flags = 1, d_next = 1\<rparr>,
      \<lparr>d_addr = 0x400030000090, d_len = 4, d_flags = 3, d_next = 2\<rparr>, \<lparr>d_addr = 0x400030000094, d_len = 1, d_flags = 2, d_next = 0\<rparr>])"
    by (simp add: d desc_slot_def desc_out_of_range_def has_next_def VRING_DESC_F_NEXT_def checked_add_def demo_vq_def)
  then have heads: "waiting_heads (demo_rings []) demo_vq 0 = [0]" "well_formed_chain (demo_rings []) demo_vq 0"
    by (simp_all add: waiting_heads_def avail_head_def well_formed_chain_def d)
  have bit: "push_bit (unat (re_irq demo_entry - 5) mod 32) (1 :: u32) = 0x10000000" by (simp add: push_bit_eq_mult)
  have "rings_apart 16 demo_vq (dram (demo_disp []) (re_l2cpu demo_entry))" using demo_rings_apart [of "[]"] by simp
  from dispatch_serves_queue [OF blk_dev.virtio_device_axioms _ _ vq this _ refl refl refl refl] show ?thesis
    unfolding bit by (simp add: heads del: power_numeral) blast
qed

theorem dirty_bytes_collected_witness:
  "fst (collect_dirty_pairs [(0, 1)] (put_dirty 0 0 1 demo_shadow)) = [(0, 0)] \<and>
   dirty_byte (snd (collect_dirty_pairs [(0, 1)] (put_dirty 0 0 1 demo_shadow))) 0 0 = 0"
proof -
  obtain hits m' where r: "collect_dirty_pairs [(0, 1)] (put_dirty 0 0 1 demo_shadow) = (hits, m')"
    by (cases "collect_dirty_pairs [(0, 1)] (put_dirty 0 0 1 demo_shadow)")
  have d: "dirty_byte (put_dirty 0 0 1 demo_shadow) 0 0 = 1" by (simp add: dirty_put_dirty)
  show ?thesis
    unfolding r using dirty_bytes_collected [of "(demo_disp [])\<lparr>tile_l1 := put_dirty 0 0 1 demo_shadow\<rparr>" hits m'] r d
    by (simp del: collect_dirty_pairs.simps)
qed

section \<open>What the dispatcher reaches\<close>

text \<open>
  The daemon maps the 8 GiB window of a core from its memory on, which is more than the guest's memory: a
  ring that starts in the guest's memory ends in the mapping.
\<close>

lemma shadow_vqueue_fits:
  assumes "shadow_vqueue m i slot q hs = Some vq" "i < 4"
  shows "vq_fits vq (L2CPU_MAPPED i)" "dram_span vq + 2 ^ 20 \<le> L2CPU_MAPPED i"
proof -
  let ?start = "L2CPU_STARTING_ADDRESS i" and ?stop = "L2CPU_STARTING_ADDRESS i + L2CPU_MEMORY_SIZE i"
  have ends: "unat ?stop = unat ?start + unat (L2CPU_MEMORY_SIZE i)" "unat (L2CPU_MEMORY_SIZE i) + 2 ^ 21 \<le> L2CPU_MAPPED i"
  proof -
    have "i \<in> {0, 1, 2, 3}" using assms(2) by auto
    then show "unat ?stop = unat ?start + unat (L2CPU_MEMORY_SIZE i)" "unat (L2CPU_MEMORY_SIZE i) + 2 ^ 21 \<le> L2CPU_MAPPED i"
      by (elim insertE; simp add: L2CPU_STARTING_ADDRESS_def L2CPU_MEMORY_SIZE_def L2CPU_MAPPED_def)+
  qed
  have off: "unat (a - ?start) \<le> unat (L2CPU_MEMORY_SIZE i)" if "in_range ?start ?stop a n" for a n
  proof -
    have "a \<le> saturating_add a n" using unsigned_less [of a, where ?'a = nat] by (simp add: word_le_nat_alt unat_saturating_add)
    then have "?start \<le> a" "a \<le> ?stop" using that order.trans by (auto simp: in_range_def)
    then show ?thesis using ends(1) by (simp add: unat_sub_le word_le_nat_alt)
  qed
  from assms(1) obtain d a u and num :: u32 where
    r: "in_range ?start ?stop d 16" "in_range ?start ?stop a 4" "in_range ?start ?stop u 4" and num: "num \<noteq> 0" "unat num \<le> 0xFFFF"
    and vq: "desc_q vq = unat (d - ?start)" "avail_q vq = unat (a - ?start)" "used_q vq = unat (u - ?start)" "queue_num vq = ucast num"
      "starting_address vq = ?start" "mem_end vq = ?stop"
    by (auto simp: shadow_vqueue_def Let_def split: if_splits)
  have n: "unat (queue_num vq) = unat num" using num(2) unfolding vq(4) by (simp add: unsigned_ucast_eq take_bit_nat_eq_self)
  then have "queue_num vq \<noteq> 0" using num(1) by (metis unat_eq_zero unat_0)
  then show "vq_fits vq (L2CPU_MAPPED i)"
    using off [OF r(1)] off [OF r(2)] off [OF r(3)] ends(2) num(2) n unfolding vq_fits_def vq(1-3) by simp
  show "dram_span vq + 2 ^ 20 \<le> L2CPU_MAPPED i" using ends by (simp add: dram_span_def vq)
qed



section \<open>Where the dispatcher stops\<close>

text \<open>
  A malformed chain at the head of the ring ends the drain, however many chains are pending behind it:
  nothing is posted, no interrupt is raised, and the dirty byte is already gone, so the chains behind it
  wait for another notification.
\<close>

theorem malformed_chain_ends_drain:
  assumes "vq_fits vq (gm_size (mem c))" "seen \<noteq> gm_u16 (mem c) (avail_q vq + 2)" "queue_has_data ops (queue_idx vq) c"
    and "chain_loop ops vq 0 (gm_u16 (mem c) (avail_q vq + 4 + 2 * (unat seen mod unat (queue_num vq)))) 0 c = (False, n, c')"
  shows "drain_queue (Suc fuel) ops vq seen c = Some (False, seen + 1, c')"
  using assms by (simp add: one_chain_unfold Let_def)

lemma demo_two_rings_descs:
  "gm_u16 (demo_rings [(66, 2), (68, 3)]) 66 = 2" "gm_u16 (demo_rings [(66, 2), (68, 3)]) 68 = 3"
  "read_desc (demo_rings [(66, 2), (68, 3)]) 48 = \<lparr>d_addr = 0, d_len = 0, d_flags = 0, d_next = 0\<rparr>"
  by (simp_all add: demo_rings_def read_desc_def gm_load_def upt_rec_numeral map_add_def)

lemma read_desc_touch: "read_desc (gm_touch a n m) off = read_desc m off"
  by (simp add: read_desc_def)

theorem malformed_chain_ends_drain_witness:
  "\<exists>c'. drain_queue 1 blk_ops demo_vq 0 \<lparr>dev = re_device demo_entry, mem = demo_rings [(66, 2), (68, 3)], wld = demo_host\<rparr> =
     Some (False, 1, c') \<and> gm_u16 (demo_rings [(66, 2), (68, 3)]) 66 = 2"
proof -
  let ?c = "\<lparr>dev = re_device demo_entry, mem = demo_rings [(66, 2), (68, 3)], wld = demo_host\<rparr>"
  have fits: "vq_fits demo_vq (gm_size (mem ?c))" by (simp add: vq_fits_def demo_rings_def)
  have slot: "desc_slot demo_vq 3 = 48" by (simp add: desc_slot_def)
  have out: "desc_out_of_range demo_vq \<lparr>d_addr = 0, d_len = 0, d_flags = 0, d_next = 0\<rparr>"
    by (simp add: desc_out_of_range_def demo_vq_def)
  have "chain_loop blk_ops demo_vq 0 3 0 ?c = (False, 0, touched demo_vq 3 ?c)"
    using demo_two_rings_descs(3) out by (subst chain_loop.simps) (simp add: slot read_desc_touch Let_def)
  then show ?thesis
    using malformed_chain_ends_drain [of demo_vq ?c 0 blk_ops 0 "touched demo_vq 3 ?c" 0] fits demo_two_rings_descs
    by simp
qed

text \<open>
  The range check of \<open>dispatch_chain\<close> covers the first four bytes of the used ring. A ring whose header
  is the last four bytes of the guest's memory passes it, and completions are then stored behind the
  end of that memory.
\<close>

theorem used_ring_past_end:
  assumes "l2cpu < 4"
    and "sh = (\<lambda>f. word m (Shadow slot q f))" "end_addr = L2CPU_STARTING_ADDRESS l2cpu + L2CPU_MEMORY_SIZE l2cpu"
    and "join32 (sh SHADOW_Q_OFF_DEVICE_HI) (sh SHADOW_Q_OFF_DEVICE_LO) = end_addr - 4"
    and "shadow_vqueue m l2cpu slot q hs = Some vq" "queue_num vq \<noteq> 0"
  shows "used_q vq + 4 = unat (L2CPU_MEMORY_SIZE l2cpu) \<and>
    (\<forall>head n dram. \<exists>a \<ge> unat (L2CPU_MEMORY_SIZE l2cpu). gm_u32 (post_used vq head n dram) a = ucast head)"
proof -
  have "l2cpu = 0 \<or> l2cpu = 1 \<or> l2cpu = 2 \<or> l2cpu = 3" using assms(1) by auto
  then have "unat (end_addr - 4 - L2CPU_STARTING_ADDRESS l2cpu) + 4 = unat (L2CPU_MEMORY_SIZE l2cpu)"
    unfolding assms(3) by (auto simp: L2CPU_STARTING_ADDRESS_def L2CPU_MEMORY_SIZE_def)
  moreover have "used_q vq = unat (end_addr - 4 - L2CPU_STARTING_ADDRESS l2cpu)"
    using assms(2,4,5) by (auto simp: shadow_vqueue_def Let_def split: if_splits)
  ultimately have u: "used_q vq + 4 = unat (L2CPU_MEMORY_SIZE l2cpu)" by simp
  show ?thesis using post_used_result(2) [OF assms(6)] u by (metis le_add1)
qed

theorem used_ring_past_end_witness:
  "\<exists>vq. shadow_vqueue (put (Shadow 0 0 SHADOW_Q_OFF_DEVICE_HI) 0x4001 (put (Shadow 0 0 SHADOW_Q_OFF_DEVICE_LO) 0x2ffffffc demo_shadow))
      0 0 0 16 = Some vq \<and> used_q vq + 4 = unat (L2CPU_MEMORY_SIZE 0)"
proof -
  let ?m = "put (Shadow 0 0 SHADOW_Q_OFF_DEVICE_HI) 0x4001 (put (Shadow 0 0 SHADOW_Q_OFF_DEVICE_LO) 0x2ffffffc demo_shadow)"
  have "shadow_vqueue ?m 0 0 0 16 = Some (demo_vq\<lparr>used_q := 0xfffffffc\<rparr>)"
    by (simp add: shadow_vqueue_def demo_shadow_def word_put Let_def join32_def in_range_def demo_vq_def
      L2CPU_STARTING_ADDRESS_def L2CPU_MEMORY_SIZE_def saturating_add_def)
  then show ?thesis
    using used_ring_past_end [OF _ refl refl, of 0 ?m 0 0 16 "demo_vq\<lparr>used_q := 0xfffffffc\<rparr>"]
    by (simp add: word_put join32_def L2CPU_STARTING_ADDRESS_def L2CPU_MEMORY_SIZE_def)
qed

section \<open>The firmware's counters\<close>

text \<open>The difference of two readings modulo \<open>2 ^ 32\<close> is the growth in between.\<close>

lemma delta_growth:
  assumes "v \<le> v'" "v' - v < 2 ^ 32"
  shows "ucast (word_of_nat v' - word_of_nat v :: u32) = (word_of_nat (v' - v) :: u64)"
proof -
  have d: "word_of_nat v' - word_of_nat v = (word_of_nat (v' - v) :: u32)" using assms(1) by (simp add: of_nat_diff)
  have "unat (word_of_nat (v' - v) :: u32) = v' - v" using assms(2) by (simp add: unsigned_of_nat take_bit_nat_eq_self)
  then show ?thesis unfolding d by (metis of_nat_unat)
qed

lemma ratchet_one:
  assumes "v \<le> v'" "v' - v < 2 ^ 32" "ratchet k idx (word_of_nat v') (word_of_nat v, mx) = (seen, mx')"
  shows "seen = word_of_nat v'" "counters mx' k idx = counters mx k idx + word_of_nat (v' - v)"
  using assms delta_growth [OF assms(1,2)]
  by (auto simp: ratchet_def take_delta_def counters_add split: if_splits)

text \<open>
  C23. No event of the firmware is lost to the wrap-around of its 32-bit counters. When a counter goes
  through the values v0, v1, ... in ascending order and grows by less than 2^32 between two readings, the metric grows by
  exactly the total, although the daemon only sees the values modulo 2^32.
\<close>

theorem ratchet_counts_everything:
  assumes "successively (\<lambda>v v'. v \<le> v' \<and> v' - v < 2 ^ 32) (v0 # vs)"
    and "fold (\<lambda>v. ratchet k idx (word_of_nat v)) vs (word_of_nat v0, mx) = (seen, mx')"
  shows "seen = word_of_nat (List.last (v0 # vs)) \<and>
    counters mx' k idx = counters mx k idx + word_of_nat (List.last (v0 # vs) - v0)"
  using assms
proof (induction vs arbitrary: v0 mx)
  case (Cons v vs)
  obtain seen1 mx1 where 1: "ratchet k idx (word_of_nat v) (word_of_nat v0, mx) = (seen1, mx1)"
    by (cases "ratchet k idx (word_of_nat v) (word_of_nat v0, mx)")
  have step: "v0 \<le> v" "v - v0 < 2 ^ 32" and rest: "successively (\<lambda>v v'. v \<le> v' \<and> v' - v < 2 ^ 32) (v # vs)"
    using Cons.prems(1) by auto
  note r = ratchet_one [OF step 1]
  have "fold (\<lambda>v. ratchet k idx (word_of_nat v)) vs (word_of_nat v, mx1) = (seen, mx')"
    using Cons.prems(2) 1 r(1) by simp
  note IH = Cons.IH [OF rest this]
  have "v \<le> List.last (v # vs)"
    using rest
  proof (induction vs arbitrary: v)
    case (Cons w ws)
    then have "w \<le> List.last (w # ws)" "v \<le> w" by auto
    then show ?case by simp
  qed simp
  then have "(List.last (v # vs) - v) + (v - v0) = List.last (v # vs) - v0" using step(1) by simp
  then have sum: "word_of_nat (v - v0) + word_of_nat (List.last (v # vs) - v) = (word_of_nat (List.last (v # vs) - v0) :: u64)"
    by (metis add.commute of_nat_add)
  show ?case using IH r(2) sum by (simp add: add.assoc)
qed simp

theorem ratchet_counts_everything_witness:
  "counters (snd (fold (\<lambda>v. ratchet NOTIFY_EVENTS_TOTAL 0 (word_of_nat v)) [2 ^ 32 - 1, 2 ^ 32 + 5] (0, no_metrics)))
     NOTIFY_EVENTS_TOTAL 0 = 0x100000005"
proof -
  obtain seen mx' where r: "fold (\<lambda>v. ratchet NOTIFY_EVENTS_TOTAL 0 (word_of_nat v)) [2 ^ 32 - 1, 2 ^ 32 + 5]
      (word_of_nat 0, no_metrics) = (seen, mx')"
    by (metis surj_pair)
  have "counters no_metrics NOTIFY_EVENTS_TOTAL 0 = 0" by (simp add: no_metrics_def)
  then show ?thesis
    using ratchet_counts_everything [OF _ r] r by simp
qed

section \<open>Reset and re-attachment\<close>

definition prev_status :: "'d disp \<Rightarrow> nat \<Rightarrow> u32" where
  "prev_status s slot = (case map_of (last_status s) slot of None \<Rightarrow> 0 | Some v \<Rightarrow> v)"

definition was_reset :: "'d disp \<Rightarrow> nat \<Rightarrow> bool" where
  "was_reset s slot \<longleftrightarrow> word (tile_l1 s) (Reg slot VIRTIO_MMIO_STATUS) = 0 \<and> prev_status s slot \<noteq> 0"

abbreviation rewind :: "'d reg_entry \<Rightarrow> 'd reg_entry" where
  "rewind e \<equiv> e\<lparr>re_processed := map (\<lambda>_. 0) (re_processed e)\<rparr>"

lemma map_of_map_insert: "map_of (map_insert k v kvs) k' = (if k' = k then Some v else map_of kvs k')"
proof -
  have "map_of (map (\<lambda>(k', v'). (k', if k' = k then v else v')) kvs) k' =
      (if k' = k then map_option (\<lambda>_. v) (map_of kvs k) else map_of kvs k')"
    by (induction kvs) auto
  moreover have "k \<in> fst ` set kvs \<longleftrightarrow> map_of kvs k \<noteq> None" by (simp add: map_of_eq_None_iff)
  ultimately show ?thesis by (auto simp: map_insert_def)
qed

lemma status_one_result:
  shows "tile_l1 (status_one slot s) = tile_l1 s"
    and "registry (status_one slot s) = map (\<lambda>(k, e). (k, if k = slot \<and> was_reset s k then rewind e else e)) (registry s)"
    and "prev_status (status_one slot s) k = (if k = slot then word (tile_l1 s) (Reg slot VIRTIO_MMIO_STATUS) else prev_status s k)"
proof -
  show "tile_l1 (status_one slot s) = tile_l1 s" by (simp add: status_one_def Let_def)
  show "registry (status_one slot s) = map (\<lambda>(k, e). (k, if k = slot \<and> was_reset s k then rewind e else e)) (registry s)"
  proof (cases "was_reset s slot")
    case True
    then show ?thesis
      by (auto simp: status_one_def Let_def was_reset_def prev_status_def intro!: map_cong)
  next
    case False
    then have "registry (status_one slot s) = registry s" by (auto simp: status_one_def Let_def was_reset_def prev_status_def)
    moreover have "map (\<lambda>(k, e). (k, if k = slot \<and> was_reset s k then rewind e else e)) (registry s) = registry s"
      using False by (intro map_idI) auto
    ultimately show ?thesis by simp
  qed
  show "prev_status (status_one slot s) k = (if k = slot then word (tile_l1 s) (Reg slot VIRTIO_MMIO_STATUS) else prev_status s k)"
    by (auto simp: status_one_def Let_def prev_status_def map_of_map_insert)
qed

lemma status_fold:
  "distinct slots \<Longrightarrow>
   tile_l1 (fold status_one slots s) = tile_l1 s \<and>
   registry (fold status_one slots s) = map (\<lambda>(k, e). (k, if k \<in> set slots \<and> was_reset s k then rewind e else e)) (registry s) \<and>
   (\<forall>k. prev_status (fold status_one slots s) k =
     (if k \<in> set slots then word (tile_l1 s) (Reg k VIRTIO_MMIO_STATUS) else prev_status s k))"
proof (induction slots arbitrary: s)
  case Nil
  have "map (\<lambda>(k, e). (k, if k \<in> {} \<and> was_reset s k then rewind e else e)) (registry s) = registry s"
    by (intro map_idI) auto
  then show ?case by simp
next
  case (Cons slot slots)
  note r = status_one_result [of slot s]
  have w: "was_reset (status_one slot s) k \<longleftrightarrow> was_reset s k" if "k \<in> set slots" for k
    using that Cons.prems by (auto simp: was_reset_def r)
  have "map (\<lambda>(k, e). (k, if k \<in> set slots \<and> was_reset (status_one slot s) k then rewind e else e)) (registry (status_one slot s)) =
      map (\<lambda>(k, e). (k, if k \<in> set (slot # slots) \<and> was_reset s k then rewind e else e)) (registry s)"
    unfolding r(2) using w Cons.prems by (auto intro!: map_cong)
  then show ?case using Cons.IH [of "status_one slot s"] Cons.prems r(1,3) by auto
qed

lemma status_pass_result:
  assumes "distinct (map fst (registry s))"
  shows "registry (status_pass s) = map (\<lambda>(slot, e). (slot, if was_reset s slot then rewind e else e)) (registry s)"
    "\<And>slot e. (slot, e) \<in> set (registry s) \<Longrightarrow> prev_status (status_pass s) slot = word (tile_l1 s) (Reg slot VIRTIO_MMIO_STATUS)"
    "tile_l1 (status_pass s) = tile_l1 s"
proof -
  note r = status_fold [OF assms, of s, folded status_pass_def]
  have "map (\<lambda>(k, e). (k, if k \<in> set (map fst (registry s)) \<and> was_reset s k then rewind e else e)) (registry s) =
      map (\<lambda>(k, e). (k, if was_reset s k then rewind e else e)) (registry s)"
    by (rule map_cong) (force intro: rev_image_eqI)+
  then show "registry (status_pass s) = map (\<lambda>(slot, e). (slot, if was_reset s slot then rewind e else e)) (registry s)" using r by simp
  show "prev_status (status_pass s) slot = word (tile_l1 s) (Reg slot VIRTIO_MMIO_STATUS)" if "(slot, e) \<in> set (registry s)" for slot e
  proof -
    have "slot \<in> set (map fst (registry s))" using that by force
    then show ?thesis using r by presburger
  qed
  show "tile_l1 (status_pass s) = tile_l1 s" using r by simp
qed

text \<open>What the guests write into the status registers between two passes, in the order of the writes.\<close>

definition status_writes :: "(nat \<times> u32) list \<Rightarrow> guest_mem \<Rightarrow> guest_mem" where
  "status_writes ws m = fold (\<lambda>(slot, v). put (Reg slot VIRTIO_MMIO_STATUS) v) ws m"

definition written_to :: "nat \<Rightarrow> (nat \<times> u32) list \<Rightarrow> u32 list" where
  "written_to slot ws = map snd (filter (\<lambda>(k, _). k = slot) ws)"

lemma word_status_writes:
  assumes "\<forall>(k, _) \<in> set ws. k < 32" "slot < 32"
  shows "word (status_writes ws m) (Reg slot VIRTIO_MMIO_STATUS) =
    (if written_to slot ws = [] then word m (Reg slot VIRTIO_MMIO_STATUS) else last (written_to slot ws))"
  using assms
proof (induction ws arbitrary: m)
  case (Cons w ws)
  then show ?case by (cases w) (auto simp: status_writes_def written_to_def word_put)
qed (simp add: status_writes_def written_to_def)

text \<open>
  C24. Two passes over the status registers, with any writes of the guests to them in between. The second
  pass rewinds the cursors of exactly the devices that were in use at the first pass and whose last write
  since then is a reset: a reset that still stands is seen whatever was written before it, and one that the
  guest has already followed by a new status is not.
\<close>

theorem status_pass_rewinds_reset_devices:
  assumes "distinct (map fst (registry s))" "\<forall>slot \<in> fst ` set (registry s). slot < 32" "\<forall>(slot, _) \<in> set ws. slot < 32"
    and "map fst entries = map fst (registry s)"
    and "t = (status_pass s)\<lparr>tile_l1 := status_writes ws (tile_l1 s), registry := entries\<rparr>"
  shows "registry (status_pass t) =
    map (\<lambda>(slot, e). (slot,
      if word (tile_l1 s) (Reg slot VIRTIO_MMIO_STATUS) \<noteq> 0 \<and> written_to slot ws \<noteq> [] \<and> last (written_to slot ws) = 0
      then e\<lparr>re_processed := map (\<lambda>_. 0) (re_processed e)\<rparr> else e)) entries"
proof -
  have dist: "distinct (map fst (registry t))" using assms(1,4,5) by simp
  have "was_reset t slot \<longleftrightarrow> word (tile_l1 s) (Reg slot VIRTIO_MMIO_STATUS) \<noteq> 0 \<and> written_to slot ws \<noteq> [] \<and> last (written_to slot ws) = 0"
    if "(slot, e) \<in> set entries" for slot e
  proof -
    have "slot \<in> fst ` set (registry s)" using that assms(4) by (metis fst_conv image_eqI list.set_map)
    then have "slot < 32" and "prev_status (status_pass s) slot = word (tile_l1 s) (Reg slot VIRTIO_MMIO_STATUS)"
      using assms(2) status_pass_result(2) [OF assms(1)] by auto
    moreover have "prev_status t slot = prev_status (status_pass s) slot" by (simp add: assms(5) prev_status_def)
    ultimately show ?thesis
      using word_status_writes [OF assms(3) \<open>slot < 32\<close>, of "tile_l1 s"] by (auto simp: was_reset_def assms(5))
  qed
  then show ?thesis unfolding status_pass_result(1) [OF dist] by (auto simp: assms(5) intro!: map_cong)
qed

theorem status_pass_rewinds_reset_devices_witness:
  "let s = (demo_disp [])\<lparr>tile_l1 := put (Reg 0 VIRTIO_MMIO_STATUS) 0xF demo_shadow\<rparr>;
       after = (\<lambda>ws. (status_pass s)\<lparr>tile_l1 := status_writes ws (tile_l1 s), registry := [(0, demo_entry\<lparr>re_processed := [7]\<rparr>)]\<rparr>)
   in map (re_processed \<circ> snd) (registry (status_pass (after [(0, 3), (0, 0)]))) = [[0]] \<and>
      map (re_processed \<circ> snd) (registry (status_pass (after [(0, 0), (0, 1)]))) = [[7]]"
proof -
  let ?s = "(demo_disp [])\<lparr>tile_l1 := put (Reg 0 VIRTIO_MMIO_STATUS) 0xF demo_shadow\<rparr>"
  note pass = status_pass_rewinds_reset_devices [of ?s _ "[(0, demo_entry\<lparr>re_processed := [7]\<rparr>)]", OF _ _ _ _ refl]
  show ?thesis using pass [of "[(0, 3), (0, 0)]"] pass [of "[(0, 0), (0, 1)]"] by (simp add: written_to_def word_put)
qed

text \<open>
  A device that is attached again starts from cursor 0, whatever cursor the daemon published for it in
  L1: with the old rings still in place the dispatcher serves every chain up to \<open>avail.idx\<close> a second time,
  or stops behind a malformed one.
\<close>

theorem reattached_device_serves_again:
  assumes "virtio_device ops slack wslack dev_ok ready" "5 \<le> irq" "0 < num_queues ops d" "\<And>c. queue_has_data ops 0 c"
    and "shadow_vqueue (tile_l1 s) l2cpu slot 0 (queue_header_size ops d) = Some vq" "rings_apart slack vq (dram s l2cpu)"
    and "avail = gm_u16 (dram s l2cpu) (avail_q vq + 2)" "gm_u16 (dram s l2cpu) (used_q vq + 2) = avail" "avail \<noteq> 0"
  shows "\<exists>k r reg' s'. dispatch_chain (2 ^ 16) ops (reg_entry_new ops slot l2cpu d irq kind) 0 s = Some (r, reg', s') \<and>
    gm_u16 (dram s' l2cpu) (used_q vq + 2) = avail + word_of_nat k \<and>
    (word_of_nat k = avail \<or> re_processed reg' ! 0 = word_of_nat k + 1)"
proof -
  let ?e = "reg_entry_new ops slot l2cpu d irq kind"
  have e: "0 < length (re_processed ?e)" "re_processed ?e ! 0 = 0" "re_l2cpu ?e = l2cpu" "re_slot ?e = slot" "re_irq ?e = irq"
    "re_device ?e = d"
    using assms(3) by (auto simp: reg_entry_new_def unat_gt_0 word_gt_0)
  have i: "queue_idx vq = 0" using assms(5) by (auto simp: shadow_vqueue_def Let_def split: if_splits)
  let ?c = "\<lparr>dev = d, mem = dram s l2cpu, wld = hst s\<rparr>"
  have "unat (gm_u16 (mem ?c) (avail_q vq + 2) - 0) < 2 ^ 16"
    using unsigned_less [of "gm_u16 (mem ?c) (avail_q vq + 2)", where ?'a = nat] by simp
  from virtio_device.drain_queue_serves [OF assms(1), of vq ?c, OF _ this] obtain k p c' where
    run: "drain_queue (2 ^ 16) ops vq 0 ?c = Some (0 < k, p, c')"
    and k: "gm_u16 (mem c') (used_q vq + 2) = avail + word_of_nat k" "p = word_of_nat k \<and> p = avail \<or> p = word_of_nat k + 1"
    using assms(4,6-8) i by (auto simp del: power_numeral)
  have sh: "shadow_vqueue (tile_l1 s) (re_l2cpu ?e) (re_slot ?e) 0 (queue_header_size ops (re_device ?e)) = Some vq"
    using assms(5) by (simp add: e)
  have irq: "5 \<le> re_irq ?e" using assms(2) by (simp add: e)
  have run': "drain_queue (2 ^ 16) ops vq (re_processed ?e ! 0) \<lparr>dev = re_device ?e, mem = dram s (re_l2cpu ?e), wld = hst s\<rparr> =
      Some (0 < k, p, c')"
    using run by (simp add: e del: power_numeral)
  from dispatch_chain_run [OF e(1) irq sh run'] k e(1,3) show ?thesis
    by (intro exI [of _ k]) fastforce
qed

theorem reattached_device_serves_again_witness:
  "\<exists>k r reg' s'. dispatch_chain (2 ^ 16) blk_ops (reg_entry_new blk_ops 0 0 (re_device demo_entry) 33 Block) 0 (demo_disp [(82, 1)]) =
      Some (r, reg', s') \<and> gm_u16 (dram s' 0) 82 = 1 + word_of_nat k \<and> (word_of_nat k = (1 :: u16) \<or> re_processed reg' ! 0 = word_of_nat k + 1)"
proof -
  have b: "gm_u16 (demo_rings [(82, 1)]) 66 = 1" "gm_u16 (demo_rings [(82, 1)]) 82 = 1"
    by (simp_all add: demo_rings_def gm_load_def upt_rec_numeral map_add_def)
  have "shadow_vqueue (tile_l1 (demo_disp [(82, 1)])) 0 0 0 (queue_header_size blk_ops (re_device demo_entry)) = Some demo_vq"
    by (simp add: demo_shadow_vqueue)
  from reattached_device_serves_again [OF blk_dev.virtio_device_axioms _ _ _ this, of 33 1 Block] show ?thesis
    using demo_rings_apart [of "[(82, 1)]"] b by (simp add: blk_ops_def [unfolded device_ops.defs] del: power_numeral)
qed

end
