(* ===== verification/Data_Plane_Inv.thy ===== *)
theory Data_Plane_Inv
  imports Data_Plane_Props
begin

text \<open>
  The dispatcher as a state machine: attaching and detaching devices and UARTs, and passes of the poll
  loop, in any order. The bitmaps in L1 that tell the firmware which slots to serve always agree with
  the registry.
\<close>

section \<open>Steps\<close>

inductive disp_step :: "nat \<Rightarrow> ('d, host) device_ops \<Rightarrow> 'd disp \<Rightarrow> 'd disp \<Rightarrow> bool" for fuel ops where
  attach: "re_slot e < 32 \<Longrightarrow> disp_step fuel ops s (register_slot e s)"
| detach: "disp_step fuel ops s (unregister_slot slot s)"
| attach_uart: "i < 4 \<Longrightarrow> disp_step fuel ops s (register_uart i s)"
| detach_uart: "disp_step fuel ops s (unregister_uart i s)"
| poll: "poll_pass fuel ops s = Some (traffic, s') \<Longrightarrow> disp_step fuel ops s s'"

definition entries_ok :: "(nat \<times> 'd reg_entry) list \<Rightarrow> bool" where
  "entries_ok es \<longleftrightarrow> distinct (map fst es) \<and> (\<forall>(k, e) \<in> set es. k < 32 \<and> re_slot e = k)"

definition masks_ok :: "'d disp \<Rightarrow> bool" where
  "masks_ok s \<longleftrightarrow>
     (\<forall>i. bit (word (tile_l1 s) (Ctrl CTRL_OFF_ACTIVE_VIRTIO_SLOTS)) i \<longleftrightarrow> i \<in> fst ` set (registry s)) \<and>
     (\<forall>i. bit (word (tile_l1 s) (Ctrl CTRL_OFF_ACTIVE_SLOTS)) i \<longleftrightarrow>
        i \<in> fst ` set (registry s) \<union> slot_for_l2cpu ` set (uart_registry s))"

definition disp_inv :: "'d disp \<Rightarrow> bool" where
  "disp_inv s \<longleftrightarrow> entries_ok (registry s) \<and> set (uart_registry s) \<subseteq> {..<4} \<and> masks_ok s"

section \<open>The registry\<close>

lemma fst_map_insert: "map fst (map_insert k v kvs) = (if k \<in> fst ` set kvs then map fst kvs else k # map fst kvs)"
  by (auto simp: map_insert_def o_def split_beta)

lemma set_map_insert: "(k', v') \<in> set (map_insert k v kvs) \<Longrightarrow> (k', v') = (k, v) \<or> (k', v') \<in> set kvs"
  by (auto simp: map_insert_def split: if_splits)

lemma entries_ok_insert: "entries_ok es \<Longrightarrow> re_slot e = k \<Longrightarrow> k < 32 \<Longrightarrow> entries_ok (map_insert k e es)"
  unfolding entries_ok_def fst_map_insert by (auto dest!: set_map_insert split: if_splits)

lemma entries_ok_remove: "entries_ok es \<Longrightarrow> entries_ok (map_remove k es)"
  by (auto simp: entries_ok_def map_remove_def split_beta distinct_map inj_on_def)

lemma slot_for_l2cpu_bound: "i < 4 \<Longrightarrow> slot_for_l2cpu i < 32"
  by (simp add: slot_for_l2cpu_def layout_defs)

lemma publish_inv:
  assumes "entries_ok (registry s)" "set (uart_registry s) \<subseteq> {..<4}"
  shows "disp_inv (publish_active_mask s)"
proof -
  have "registry (publish_active_mask s) = registry s" "uart_registry (publish_active_mask s) = uart_registry s"
    by (simp_all add: publish_active_mask_def Let_def)
  moreover have "i < 32" if "i \<in> fst ` set (registry s) \<union> slot_for_l2cpu ` set (uart_registry s)" for i
    using that assms slot_for_l2cpu_bound by (auto simp: entries_ok_def)
  ultimately show ?thesis using assms by (auto simp: disp_inv_def masks_ok_def publish_masks)
qed

section \<open>What a pass keeps\<close>

text \<open>The keys and the two bitmaps, the part of the state the invariant is about.\<close>

definition keeps_masks :: "'d disp \<Rightarrow> 'd disp \<Rightarrow> bool" where
  "keeps_masks s s' \<longleftrightarrow> map fst (registry s') = map fst (registry s) \<and> entries_ok (registry s') \<and>
     uart_registry s' = uart_registry s \<and>
     word (tile_l1 s') (Ctrl CTRL_OFF_ACTIVE_SLOTS) = word (tile_l1 s) (Ctrl CTRL_OFF_ACTIVE_SLOTS) \<and>
     word (tile_l1 s') (Ctrl CTRL_OFF_ACTIVE_VIRTIO_SLOTS) = word (tile_l1 s) (Ctrl CTRL_OFF_ACTIVE_VIRTIO_SLOTS)"

lemma keeps_masks_refl: "entries_ok (registry s) \<Longrightarrow> keeps_masks s s"
  by (simp add: keeps_masks_def)

lemma keeps_masks_trans [trans]: "keeps_masks s s' \<Longrightarrow> keeps_masks s' s'' \<Longrightarrow> keeps_masks s s''"
  by (simp add: keeps_masks_def)

lemma keeps_masks_entries: "keeps_masks s s' \<Longrightarrow> entries_ok (registry s')"
  by (simp add: keeps_masks_def)

lemma keeps_masks_inv: "keeps_masks s s' \<Longrightarrow> disp_inv s \<Longrightarrow> disp_inv s'"
  unfolding keeps_masks_def disp_inv_def masks_ok_def by (metis list.set_map)

lemma word_put_processed:
  assumes "slot < 32" "q < 8" "cell_ok c" "cell_size c = 4"
  shows "word (put_processed slot q v m) c = word m c"
proof -
  have a: "processed_cursor_addr slot q = cell_addr (Processed slot q)"
    by (simp add: processed_cursor_addr_def layout_defs cell_addr.simps ctrl_addr_def)
  have "Processed slot q \<noteq> c" using assms(4) by auto
  then show ?thesis unfolding word_def put_processed_def a
    by (subst cell_load_store) (simp_all add: assms)
qed

lemma dispatch_chain_keeps:
  assumes "dispatch_chain fuel ops reg q s = Some (r, reg', s')" "re_slot reg < 32"
  shows "registry s' = registry s" "uart_registry s' = uart_registry s" "re_slot reg' = re_slot reg"
    "length (re_processed reg') = length (re_processed reg)"
    "\<And>c. cell_ok c \<Longrightarrow> cell_size c = 4 \<Longrightarrow> c \<noteq> Reg (re_slot reg) VIRTIO_MMIO_INTERRUPT_STATUS \<Longrightarrow>
      word (tile_l1 s') c = word (tile_l1 s) c"
  using assms
  by (auto simp: dispatch_chain_def set_interrupt_def Let_def word_put split: if_splits option.splits)

text \<open>Storing the entry back under its own key.\<close>

lemma store_back:
  assumes "entries_ok (registry s)" "map_of (registry s) slot = Some reg" "re_slot reg' = re_slot reg"
  shows "map fst (map_insert slot reg' (registry s)) = map fst (registry s)" "entries_ok (map_insert slot reg' (registry s))"
    "re_slot reg = slot" "slot < 32"
proof -
  have mem: "(slot, reg) \<in> set (registry s)" by (rule map_of_SomeD [OF assms(2)])
  then show ok: "re_slot reg = slot" "slot < 32" using assms(1) by (auto simp: entries_ok_def)
  show "map fst (map_insert slot reg' (registry s)) = map fst (registry s)"
    using mem unfolding fst_map_insert by force
  show "entries_ok (map_insert slot reg' (registry s))" using assms(1,3) ok by (simp add: entries_ok_insert)
qed

lemma dispatch_hit_keeps:
  assumes "entries_ok (registry s)" "snd hit < 8" "dispatch_hit fuel ops hit s = Some (n, s')"
  shows "keeps_masks s s'"
proof -
  obtain slot q where hit: "hit = (slot, q)" by (cases hit)
  show ?thesis
  proof (cases "map_of (registry s) slot")
    case None
    then show ?thesis using assms by (simp add: hit dispatch_hit_def keeps_masks_refl)
  next
    case (Some reg)
    obtain r reg' s1 where d: "dispatch_chain fuel ops reg q s = Some (r, reg', s1)"
      using assms(3) Some by (auto simp: hit dispatch_hit_def split: option.splits)
    have "(slot, reg) \<in> set (registry s)" by (rule map_of_SomeD [OF Some])
    then have "re_slot reg < 32" using assms(1) by (auto simp: entries_ok_def)
    note k = dispatch_chain_keeps [OF d this]
    note b = store_back [OF assms(1) Some k(3)]
    show ?thesis using assms(2,3) Some d k b
      by (auto simp: hit dispatch_hit_def Let_def keeps_masks_def word_put_processed split: option.splits)
  qed
qed

lemma dispatch_hits_keeps:
  "entries_ok (registry s) \<Longrightarrow> \<forall>h \<in> set hits. snd h < 8 \<Longrightarrow> dispatch_hits fuel ops hits s = Some (n, s') \<Longrightarrow> keeps_masks s s'"
proof (induction hits arbitrary: s n)
  case (Cons h hs)
  obtain k s1 k' where 1: "dispatch_hit fuel ops h s = Some (k, s1)" and 2: "dispatch_hits fuel ops hs s1 = Some (k', s')"
    using Cons.prems(3) by (auto split: option.splits)
  have "keeps_masks s s1" using dispatch_hit_keeps [OF Cons.prems(1) _ 1] Cons.prems(2) by simp
  moreover have "keeps_masks s1 s'"
    using Cons.IH [OF keeps_masks_entries [OF calculation] _ 2] Cons.prems(2) by simp
  ultimately show ?case by (rule keeps_masks_trans)
qed (simp add: keeps_masks_refl)

lemma drain_dirty_keeps:
  assumes "entries_ok (registry s)" "drain_dirty_bitmap fuel ops s = Some (n, s')"
  shows "keeps_masks s s'"
proof -
  let ?slots = "map (\<lambda>(slot, reg). (slot, length (re_processed reg))) (registry s)"
  obtain hits m where c: "collect_dirty_pairs ?slots (tile_l1 s) = (hits, m)" by (cases "collect_dirty_pairs ?slots (tile_l1 s)")
  have "map fst ?slots = map fst (registry s)" by (simp add: o_def split_beta)
  then have dst: "distinct (map fst ?slots)" using assms(1) by (simp only: entries_ok_def)
  have bound: "\<forall>(slot, n) \<in> set ?slots. slot < 32" using assms(1) by (auto simp: entries_ok_def)
  note r = collect_dirty_result [OF dst bound, of "tile_l1 s", unfolded c fst_conv snd_conv]
  have hits: "hits = dirty_pairs ?slots (tile_l1 s)" using r by simp
  have q: "\<forall>h \<in> set hits. snd h < 8" unfolding hits by (auto simp: dirty_pairs_def)
  have "dispatch_hits fuel ops hits (s\<lparr>tile_l1 := m\<rparr>) = Some (n, s')" using assms(2) c by (simp add: drain_dirty_bitmap_def)
  from dispatch_hits_keeps [OF _ q this] have "keeps_masks (s\<lparr>tile_l1 := m\<rparr>) s'" using assms(1) by simp
  moreover have "keeps_masks s (s\<lparr>tile_l1 := m\<rparr>)" using assms(1) r by (simp add: keeps_masks_def)
  ultimately show ?thesis by (metis keeps_masks_trans)
qed

lemma rx_pass_keeps:
  "entries_ok (registry s) \<Longrightarrow> rx_pass fuel ops slots s = Some (b, s') \<Longrightarrow> keeps_masks s s'"
proof (induction slots arbitrary: s b)
  case (Cons slot slots)
  show ?case
  proof (cases "map_of (registry s) slot")
    case None
    then show ?thesis using Cons by simp
  next
    case (Some reg)
    show ?thesis
    proof (cases "re_kind reg \<noteq> Net \<and> re_kind reg \<noteq> Console")
      case True
      then show ?thesis using Cons Some by simp
    next
      case False
      obtain r reg' s1 b' where d: "dispatch_chain fuel ops reg 0 s = Some (r, reg', s1)"
        and rest: "rx_pass fuel ops slots (s1\<lparr>registry := map_insert slot reg' (registry s1)\<rparr>) = Some (b', s')"
        using Cons.prems(2) Some False by (auto split: option.splits if_splits)
      have "(slot, reg) \<in> set (registry s)" by (rule map_of_SomeD [OF Some])
      then have "re_slot reg < 32" using Cons.prems(1) by (auto simp: entries_ok_def)
      note k = dispatch_chain_keeps [OF d this]
      note b = store_back [OF Cons.prems(1) Some k(3)]
      have 1: "keeps_masks s (s1\<lparr>registry := map_insert slot reg' (registry s1)\<rparr>)" using k b by (simp add: keeps_masks_def)
      show ?thesis by (rule keeps_masks_trans [OF 1 Cons.IH [OF keeps_masks_entries [OF 1] rest]])
    qed
  qed
qed (simp add: keeps_masks_refl)

lemma uart_drain_keeps:
  assumes "entries_ok (registry s)" "uart_drain_one i s = (b, s')"
  shows "keeps_masks s s'"
proof -
  let ?u = "(tile_l1 s, uart_consumer s i)"
  obtain chunks m c where d: "drain_uart i ?u = (chunks, m, c)" by (cases "drain_uart i ?u")
  have w: "word m (Ctrl x) = word (tile_l1 s) (Ctrl x)" if "i < 4" "cell_size (Ctrl x) = 4" for x
    using d that by (auto simp: drain_uart_def Let_def word_put split: if_splits)
  show ?thesis using assms d w [of CTRL_OFF_ACTIVE_SLOTS] w [of CTRL_OFF_ACTIVE_VIRTIO_SLOTS]
    by (auto simp: uart_drain_one_def drain_uart_to_hub_def keeps_masks_def layout_defs NUM_L2CPUS_def
        split: if_splits prod.splits)
qed

lemma uart_pass_keeps: "entries_ok (registry s) \<Longrightarrow> uart_pass is s = (b, s') \<Longrightarrow> keeps_masks s s'"
proof (induction "is" arbitrary: s b)
  case (Cons i "is")
  obtain b1 s1 where 1: "uart_drain_one i s = (b1, s1)" by (cases "uart_drain_one i s")
  obtain b2 where 2: "uart_pass is s1 = (b2, s')" using Cons.prems(2) 1 by (cases "uart_pass is s1") auto
  note k = uart_drain_keeps [OF Cons.prems(1) 1]
  show ?case by (rule keeps_masks_trans [OF k Cons.IH [OF keeps_masks_entries [OF k] 2]])
qed (simp add: keeps_masks_refl)

lemma status_pass_keeps:
  assumes "entries_ok (registry s)"
  shows "keeps_masks s (status_pass s)"
proof -
  have d: "distinct (map fst (registry s))" using assms by (simp add: entries_ok_def)
  have u: "uart_registry (fold status_one slots s) = uart_registry s" for slots
    by (induction slots arbitrary: s) (simp_all add: status_one_def Let_def)
  note r = status_fold [OF d, of s]
  show ?thesis using r u assms unfolding keeps_masks_def status_pass_def entries_ok_def
    by (auto simp: o_def split_beta)
qed

lemma poll_pass_keeps:
  assumes "entries_ok (registry s)" "poll_pass fuel ops s = Some (b, s')"
  shows "keeps_masks s s'"
proof -
  obtain n s1 where 1: "drain_dirty_bitmap fuel ops s = Some (n, s1)"
    using assms(2) by (auto simp: poll_pass_def split: option.splits)
  let ?s2 = "s1\<lparr>hst := (hst s1)\<lparr>h_metrics := count_dispatches n (h_metrics (hst s1))\<rparr>\<rparr>"
  obtain rx s3 where 3: "rx_pass fuel ops (map fst (registry ?s2)) ?s2 = Some (rx, s3)"
    using assms(2) 1 by (auto simp: poll_pass_def Let_def split: option.splits)
  obtain ua s4 where 4: "uart_pass (uart_registry s3) s3 = (ua, s4)" by (cases "uart_pass (uart_registry s3) s3")
  have s': "s' = status_pass s4" using assms(2) 1 3 4 by (simp add: poll_pass_def Let_def)
  note k1 = drain_dirty_keeps [OF assms(1) 1]
  have k2: "keeps_masks s1 ?s2" using keeps_masks_entries [OF k1] by (simp add: keeps_masks_def)
  note k3 = rx_pass_keeps [OF keeps_masks_entries [OF k2] 3]
  note k4 = uart_pass_keeps [OF keeps_masks_entries [OF k3] 4]
  note k5 = status_pass_keeps [OF keeps_masks_entries [OF k4]]
  show ?thesis unfolding s'
    by (rule keeps_masks_trans [OF keeps_masks_trans [OF keeps_masks_trans [OF keeps_masks_trans [OF k1 k2] k3] k4] k5])
qed

lemma disp_step_inv: "disp_step fuel ops s s' \<Longrightarrow> disp_inv s \<Longrightarrow> disp_inv s'"
proof (induction rule: disp_step.induct)
  case (attach e s)
  then show ?case unfolding register_slot_def by (intro publish_inv) (auto simp: disp_inv_def entries_ok_insert)
next
  case (detach s slot)
  then show ?case unfolding unregister_slot_def by (intro publish_inv) (auto simp: disp_inv_def entries_ok_remove)
next
  case (attach_uart i s)
  then show ?case unfolding register_uart_def by (intro publish_inv) (auto simp: disp_inv_def)
next
  case (detach_uart s i)
  then show ?case unfolding unregister_uart_def by (intro publish_inv) (auto simp: disp_inv_def)
next
  case (poll s traffic s')
  then have "entries_ok (registry s)" by (simp add: disp_inv_def)
  from keeps_masks_inv [OF poll_pass_keeps [OF this poll(1)] poll(2)] show ?case .
qed

text \<open>
  C6. The firmware serves exactly the attached devices. However devices and UARTs are attached and
  detached and however many passes of the poll loop run in between, from a dispatcher with no devices and
  cleared bitmaps on, a sweep of the firmware over the published bitmap visits exactly the slots of the
  registered devices and UARTs, each once, in ascending order.
\<close>

theorem sweep_serves_registered_slots:
  assumes "(disp_step fuel ops)\<^sup>*\<^sup>* s s'" "registry s = []" "uart_registry s = []"
    and "word (tile_l1 s) (Ctrl CTRL_OFF_ACTIVE_SLOTS) = 0" "word (tile_l1 s) (Ctrl CTRL_OFF_ACTIVE_VIRTIO_SLOTS) = 0"
  shows "for_active (word (tile_l1 s') (Ctrl CTRL_OFF_ACTIVE_SLOTS)) f =
      for_each f (sorted_list_of_set (fst ` set (registry s') \<union> slot_for_l2cpu ` set (uart_registry s'))) \<and>
    active_list (word (tile_l1 s') (Ctrl CTRL_OFF_ACTIVE_VIRTIO_SLOTS)) = sorted_list_of_set (fst ` set (registry s'))"
proof -
  have "disp_inv s" using assms(2-5) by (simp add: disp_inv_def entries_ok_def masks_ok_def)
  with assms(1) have inv: "disp_inv s'" by induction (auto intro: disp_step_inv)
  have sl: "filter P [0..<32] = sorted_list_of_set A" if "\<And>i. P i \<longleftrightarrow> i \<in> A" "A \<subseteq> {..<32}" for P A
  proof -
    have "set (filter P [0..<32]) = A" using that by auto
    moreover have "sorted (filter P [0..<32])" by (simp add: sorted_wrt_filter)
    moreover have "distinct (filter P [0..<32])" by simp
    ultimately show ?thesis by (metis sorted_list_of_set.idem_if_sorted_distinct)
  qed
  let ?K = "fst ` set (registry s')" and ?U = "slot_for_l2cpu ` set (uart_registry s')"
  have "?K \<subseteq> {..<32}" "?U \<subseteq> {..<32}" using inv slot_for_l2cpu_bound by (auto simp: disp_inv_def entries_ok_def)
  then have "filter (bit (word (tile_l1 s') (Ctrl CTRL_OFF_ACTIVE_SLOTS))) [0..<32] = sorted_list_of_set (?K \<union> ?U)"
    "filter (bit (word (tile_l1 s') (Ctrl CTRL_OFF_ACTIVE_VIRTIO_SLOTS))) [0..<32] = sorted_list_of_set ?K"
    using inv by (auto simp: disp_inv_def masks_ok_def intro!: sl)
  then show ?thesis by (simp add: sweep_polls_active_slots active_list_filter)
qed

theorem sweep_serves_registered_slots_witness:
  "active_list (word (tile_l1 (register_slot demo_entry (register_uart 2 ((demo_disp [])\<lparr>registry := []\<rparr>))))
     (Ctrl CTRL_OFF_ACTIVE_VIRTIO_SLOTS)) = [0]"
proof -
  let ?s = "(demo_disp [])\<lparr>registry := []\<rparr>"
  have "disp_step 1 blk_ops ?s (register_uart 2 ?s)" by (rule disp_step.attach_uart) simp
  moreover have "disp_step 1 blk_ops (register_uart 2 ?s) (register_slot demo_entry (register_uart 2 ?s))"
    by (rule disp_step.attach) simp
  ultimately have "(disp_step 1 blk_ops)\<^sup>*\<^sup>* ?s (register_slot demo_entry (register_uart 2 ?s))"
    by (meson converse_rtranclp_into_rtranclp r_into_rtranclp)
  from sweep_serves_registered_slots [OF this, of "\<lambda>_. skip"] show ?thesis
    by (simp add: demo_disp_def demo_shadow_def word_put register_slot_def register_uart_def publish_active_mask_def Let_def
        map_insert_def)
qed

end
