(* ===== verification/End_To_End.thy ===== *)
theory End_To_End
  imports Data_Plane_Inv
begin

text \<open>
  From the guest's store to QUEUE_NOTIFY to the completion in its memory: the poll of the firmware, the
  dirty byte, the dispatcher and the device, composed for every device.
\<close>

section \<open>The poll leaves the configured queues alone\<close>

lemma shadow_vqueue_cong:
  "(\<And>f. word m (Shadow slot q f) = word m' (Shadow slot q f)) \<Longrightarrow> shadow_vqueue m l slot q h = shadow_vqueue m' l slot q h"
  by (simp add: shadow_vqueue_def)

text \<open>A device between two setups: the selector has settled and no QUEUE_READY is pending.\<close>

definition setup_idle :: "nat \<Rightarrow> guest_mem \<Rightarrow> bool" where
  "setup_idle slot m \<longleftrightarrow>
     word m (Reg slot VIRTIO_MMIO_STATUS) = word m (Snap slot SNAP_OFF_STATUS) \<and>
     word m (Reg slot VIRTIO_MMIO_QUEUE_SEL) = word m (Snap slot SNAP_OFF_QUEUE_SEL) \<and>
     word m (Reg slot VIRTIO_MMIO_QUEUE_READY) = 0"

lemma poll_keeps_shadow:
  assumes "slot < 32" "arrivals s = []" "setup_idle slot (l1 s)" "sl < 32" "q < 8"
  shows "word (l1 (snd (run_state (poll_one_device slot) s))) (Shadow sl q f) = word (l1 s) (Shadow sl q f)"
proof -
  have a: "word (l1 s) (Reg slot VIRTIO_MMIO_STATUS) = word (l1 s) (Snap slot SNAP_OFF_STATUS)"
    "word (l1 s) (Reg slot VIRTIO_MMIO_QUEUE_SEL) = word (l1 s) (Snap slot SNAP_OFF_QUEUE_SEL)"
    "word (l1 s) (Reg slot VIRTIO_MMIO_QUEUE_READY) = 0"
    using assms(3) by (simp_all add: setup_idle_def)
  note r = run_sel_same [OF assms(2) a(1,2)]
  have 3: "run_state (poll_queue_ready slot (word (l1 s) (Reg slot VIRTIO_MMIO_QUEUE_SEL))) s = ((), s)"
    using assms(2) a(3) by (simp add: poll_queue_ready_def word_fold)
  obtain s6 where 6: "run_state (do { poll_queue_notify slot; poll_driver_features slot; poll_sel_generation slot }) s = ((), s6)"
    by (cases "run_state (do { poll_queue_notify slot; poll_driver_features slot; poll_sel_generation slot }) s") simp
  have run: "snd (run_state (poll_one_device slot) s) = s6" using r 6 by (simp add: poll_one_device_def 3)
  show ?thesis unfolding run using keepsD(2) [OF tail_keeps [OF assms(1)] 6 assms(2), of "Shadow sl q f"] assms(4,5)
    by (auto simp: image_iff)
qed

section \<open>One notification, one completion\<close>

lemma collect_single:
  assumes "slot < 32" "dirty_byte m slot 0 \<noteq> 0" "collect_dirty_pairs [(slot, 1)] m = (hits, m')"
  shows "hits = [(slot, 0)]" "dirty_byte m' slot 0 = 0"
    "\<And>c. cell_ok c \<Longrightarrow> cell_size c = 4 \<Longrightarrow> word m' c = word m c"
proof -
  have "distinct (map fst [(slot, 1)])" "\<forall>(sl, n) \<in> set [(slot, 1)]. sl < 32" using assms(1) by simp_all
  note r = collect_dirty_result [OF this, of m, unfolded assms(3) fst_conv snd_conv]
  show "hits = [(slot, 0)]" using r assms(2) by (simp add: dirty_pairs_def)
  show "dirty_byte m' slot 0 = 0" using r assms(1) by simp
  show "\<And>c. cell_ok c \<Longrightarrow> cell_size c = 4 \<Longrightarrow> word m' c = word m c" using r by simp
qed

text \<open>A dispatcher with one device of one queue, whose dirty byte is set and whose ring holds one new chain.\<close>

lemma notified_chain_dispatched:
  fixes s :: "'d disp"
  assumes dev: "virtio_device ops slack wslack dev_ok ready"
    and reg: "registry s = [(slot, reg)]" "re_slot reg = slot" "re_processed reg = [p]" "5 \<le> re_irq reg" "slot < 32"
    and sh: "shadow_vqueue (tile_l1 s) (re_l2cpu reg) slot 0 (queue_header_size ops (re_device reg)) = Some vq"
    and dirty: "dirty_byte (tile_l1 s) slot 0 \<noteq> 0"
    and rings: "rings_apart slack vq (dram s (re_l2cpu reg))" "gm_u16 (dram s (re_l2cpu reg)) (avail_q vq + 2) = p + 1"
    and run: "process_one_chain_for_queue ops vq p \<lparr>dev = re_device reg, mem = dram s (re_l2cpu reg), wld = hst s\<rparr> = Some (True, p + 1, c)"
  shows "\<exists>s'. drain_dirty_bitmap (2 ^ 16) ops s = Some (1, s') \<and>
    dram s' = (dram s)(re_l2cpu reg := mem c) \<and>
    gm_u16 (mem c) (used_q vq + 2) = gm_u16 (dram s (re_l2cpu reg)) (used_q vq + 2) + 1 \<and>
    registry s' = [(slot, reg\<lparr>re_device := dev c, re_processed := [p + 1]\<rparr>)] \<and>
    plic s' (re_l2cpu reg) = plic s (re_l2cpu reg) @ [push_bit (unat (re_irq reg - 5) mod 32) 1, 0]"
proof -
  let ?c = "\<lparr>dev = re_device reg, mem = dram s (re_l2cpu reg), wld = hst s\<rparr>"
  obtain hits m where c: "collect_dirty_pairs [(slot, 1)] (tile_l1 s) = (hits, m)" by (cases "collect_dirty_pairs [(slot, 1)] (tile_l1 s)")
  note col = collect_single [OF reg(5) dirty c]
  let ?s1 = "s\<lparr>tile_l1 := m\<rparr>"
  have sh1: "shadow_vqueue (tile_l1 ?s1) (re_l2cpu reg) (re_slot reg) 0 (queue_header_size ops (re_device reg)) = Some vq"
    using sh shadow_vqueue_cong [of m slot 0 "tile_l1 s"] col(3) reg(2,5) by simp
  note one = virtio_device.drain_single [OF dev, of vq ?c p c "2 ^ 16", OF _ _ run]
  have dr: "drain_queue (2 ^ 16) ops vq (re_processed reg ! 0) \<lparr>dev = re_device reg, mem = dram ?s1 (re_l2cpu reg), wld = hst ?s1\<rparr> =
      Some (True, p + 1, c)"
    using one(1) rings reg(3) by simp
  have used: "gm_u16 (mem c) (used_q vq + 2) = gm_u16 (dram s (re_l2cpu reg)) (used_q vq + 2) + 1"
    using one(2) rings by simp
  have q: "0 < length (re_processed reg)" using reg(3) by simp
  from dispatch_chain_run [OF q reg(4) sh1 dr] obtain s2 where
    d: "dispatch_chain (2 ^ 16) ops reg 0 ?s1 = Some (Some (ucast (gm_u16 (mem c) (used_q vq + 2))),
          reg\<lparr>re_device := dev c, re_processed := (re_processed reg)[0 := p + 1]\<rparr>, s2)"
      "dram s2 = (dram s)(re_l2cpu reg := mem c)" "registry s2 = [(slot, reg)]"
      "plic s2 = (plic s)(re_l2cpu reg := plic s (re_l2cpu reg) @ [push_bit (unat (re_irq reg - 5) mod 32) 1, 0])"
    using reg(1) by auto
  show ?thesis
    using reg c col(1) d used
    by (simp add: drain_dirty_bitmap_def dispatch_hit_def map_insert_def Let_def del: power_numeral collect_dirty_pairs.simps)
qed

section \<open>A concrete request\<close>

definition demo_req_hdr :: vring_desc where
  "demo_req_hdr = \<lparr>d_addr = 0x400030000080, d_len = 16, d_flags = 1, d_next = 1\<rparr>"

definition demo_req_data :: vring_desc where
  "demo_req_data = \<lparr>d_addr = 0x400030000090, d_len = 4, d_flags = 3, d_next = 2\<rparr>"

definition demo_req_status :: vring_desc where
  "demo_req_status = \<lparr>d_addr = 0x400030000094, d_len = 1, d_flags = 2, d_next = 0\<rparr>"

lemmas demo_req_defs = demo_req_hdr_def demo_req_data_def demo_req_status_def

lemma demo_req_simps [simp]:
  "d_next demo_req_hdr = 1" "d_next demo_req_data = 2"
  "d_len demo_req_hdr = 16" "d_len demo_req_data = 4" "d_len demo_req_status = 1"
  "desc_offset demo_vq demo_req_hdr = 128" "desc_offset demo_vq demo_req_data = 144" "desc_offset demo_vq demo_req_status = 148"
  "mapped_data (re_device demo_entry) = demo_disk" "sector_size (re_device demo_entry) = 512"
  by (simp_all add: desc_offset_def demo_vq_def demo_req_defs demo_entry_def reg_entry_new_def from_file_with_serial_def)

lemma demo_ring_request:
  assumes "\<forall>a < 80. map_of extra a = None"
  shows "blk_request demo_vq 0 \<lparr>dev = d, mem = demo_rings extra, wld = h\<rparr> demo_req_hdr [demo_req_data] demo_req_status"
proof -
  have "gm_size (demo_rings extra) = 0x1D0000000" by (simp add: demo_rings_def)
  moreover have "desc_slot demo_vq 0 = 0" "desc_slot demo_vq 1 = 16" "desc_slot demo_vq 2 = 32"
    by (simp_all add: desc_slot_def)
  moreover have "\<not> desc_out_of_range demo_vq demo_req_hdr" "\<not> desc_out_of_range demo_vq demo_req_data"
    "\<not> desc_out_of_range demo_vq demo_req_status"
    by (simp_all add: desc_out_of_range_def demo_vq_def demo_req_defs checked_add_def)
  moreover have "has_next demo_req_hdr" "has_next demo_req_data" "\<not> has_next demo_req_status"
    by (simp_all add: has_next_def VRING_DESC_F_NEXT_def demo_req_defs)
  moreover have "starting_address demo_vq = 0x400030000000" "mem_end demo_vq = 0x400130000000" "header_size demo_vq = 16"
    by (simp_all add: demo_vq_def)
  moreover note d = demo_rings_descs [OF assms, folded demo_req_hdr_def demo_req_data_def demo_req_status_def]
  ultimately show ?thesis
    by (simp add: blk_request_def vq_fits_def dram_span_def disj2_def)
qed

end
