(* ===== verification/Clock.thy ===== *)
theory Clock
  imports Prelude
begin

text \<open>
  The L2CPU PLL (\<open>src/src/clock.rs\<close>): the register layouts, the known solutions, and the stepping of the
  dividers towards a target, as the list of register writes that \<open>set_frequency\<close> performs. The nanosecond
  sleeps between the writes are time only.
\<close>

section \<open>Model\<close>

text \<open>\<open>frequency_solution\<close>: None is the panic of an unsupported frequency.\<close>

definition frequency_solution :: "u32 \<Rightarrow> (u16 \<times> u8 list) option" where
  "frequency_solution mhz =
     (if mhz = 200 then Some (128, [15, 15, 15, 15])
      else if mhz = 1750 then Some (140, [1, 1, 1, 1])
      else if mhz = 15 then Some (120, [99, 99, 99, 99])
      else None)"

record pll_cntl1 =
  refdiv :: u8
  postdiv :: u8
  fbdiv :: u16

definition cntl1_from_u32 :: "u32 \<Rightarrow> pll_cntl1" where
  "cntl1_from_u32 val =
     (let b = le_bytes 4 val
      in \<lparr>refdiv = b ! 0, postdiv = b ! 1, fbdiv = of_le_bytes [b ! 2, b ! 3]\<rparr>)"

definition cntl1_to_u32 :: "pll_cntl1 \<Rightarrow> u32" where
  "cntl1_to_u32 c = (let fb = le_bytes 2 (fbdiv c) in of_le_bytes [refdiv c, postdiv c, fb ! 0, fb ! 1])"

definition cntl5_from_u32 :: "u32 \<Rightarrow> u8 list" where
  "cntl5_from_u32 val = le_bytes 4 val"

definition cntl5_to_u32 :: "u8 list \<Rightarrow> u32" where
  "cntl5_to_u32 p = of_le_bytes p"

text \<open>The two registers, and a write to one of them.\<close>

datatype pll_write = Cntl1 u32 | Cntl5 u32

fun pll_apply :: "pll_write \<Rightarrow> u32 \<times> u32 \<Rightarrow> u32 \<times> u32" where
  "pll_apply (Cntl1 v) (c1, c5) = (v, c5)"
| "pll_apply (Cntl5 v) (c1, c5) = (c1, v)"

text \<open>
  The three loops, each as the successive values of the divider that it writes. A loop over an array
  element has the element's index and a bound.
\<close>

function raise_postdiv :: "nat \<Rightarrow> u8 \<Rightarrow> u8 list \<Rightarrow> u8 list list" where
  "raise_postdiv i t p =
     (if i < length p \<and> p ! i < t then p[i := p ! i + 1] # raise_postdiv i t (p[i := p ! i + 1]) else [])"
  by pat_completeness auto

lemma unat_succ_less: "a < b \<Longrightarrow> unat (a + 1) = unat a + 1" for a b :: "'a :: len word"
  using unat_plus_one [of a] word_n1_ge [of b] by (cases "a = - 1") auto

lemma unat_pred: "b < a \<Longrightarrow> unat (a - 1) = unat a - 1" for a b :: "'a :: len word"
  using unat_sub_le [of 1 a] by (simp add: word_less_nat_alt word_le_nat_alt)

termination raise_postdiv
proof (relation "measure (\<lambda>(i, t, p). unat t - unat (p ! i))")
  fix i t p assume "i < length p \<and> p ! i < (t :: u8)"
  then show "((i, t, p[i := p ! i + 1]), (i, t, p)) \<in> measure (\<lambda>(i, t, p). unat t - unat (p ! i))"
    using unat_succ_less [of "p ! i" t] by (auto simp: word_less_nat_alt)
qed simp

function lower_postdiv :: "nat \<Rightarrow> u8 \<Rightarrow> u8 list \<Rightarrow> u8 list list" where
  "lower_postdiv i t p =
     (if i < length p \<and> t < p ! i then p[i := p ! i - 1] # lower_postdiv i t (p[i := p ! i - 1]) else [])"
  by pat_completeness auto

termination lower_postdiv
proof (relation "measure (\<lambda>(i, t, p). unat (p ! i) - unat t)")
  fix i t p assume "i < length p \<and> (t :: u8) < p ! i"
  then show "((i, t, p[i := p ! i - 1]), (i, t, p)) \<in> measure (\<lambda>(i, t, p). unat (p ! i) - unat t)"
    using unat_pred [of t "p ! i"] by (auto simp: word_less_nat_alt)
qed simp

function step_fbdiv :: "u16 \<Rightarrow> u16 \<Rightarrow> u16 list" where
  "step_fbdiv t f =
     (if f = t then [] else let f' = (if f < t then f + 1 else f - 1) in f' # step_fbdiv t f')"
  by pat_completeness auto

termination step_fbdiv
proof (relation "measure (\<lambda>(t, f). (unat t - unat f) + (unat f - unat t))")
  fix t f f' :: u16 assume "f \<noteq> t" "f' = (if f < t then f + 1 else f - 1)"
  then show "((t, f'), (t, f)) \<in> measure (\<lambda>(t, f). (unat t - unat f) + (unat f - unat t))"
    using unat_succ_less [of f t] unat_pred [of t f] by (auto simp: word_less_nat_alt word_unat_eq_iff [of f t] split: if_splits)
qed simp

declare raise_postdiv.simps [simp del] lower_postdiv.simps [simp del] step_fbdiv.simps [simp del]

text \<open>The loops over the four post-dividers, one after the other.\<close>

fun postdiv_loop :: "(nat \<Rightarrow> u8 \<Rightarrow> u8 list \<Rightarrow> u8 list list) \<Rightarrow> u8 list \<Rightarrow> nat list \<Rightarrow> u8 list \<Rightarrow> u8 list list" where
  "postdiv_loop f ts [] p = []"
| "postdiv_loop f ts (i # is) p = (let ps = f i (ts ! i) p in ps @ postdiv_loop f ts is (List.last (p # ps)))"

text \<open>\<open>set_frequency\<close>: the writes, from the values that the two registers hold.\<close>

definition set_frequency :: "u32 \<Rightarrow> u32 \<times> u32 \<Rightarrow> pll_write list option" where
  "set_frequency mhz regs =
     (case frequency_solution mhz of
        None \<Rightarrow> None
      | Some (target_fbdiv, target_postdiv) \<Rightarrow>
          let p0 = cntl5_from_u32 (snd regs);
              c = cntl1_from_u32 (fst regs);
              up = postdiv_loop raise_postdiv target_postdiv [0..<4] p0;
              p1 = List.last (p0 # up);
              fb = step_fbdiv target_fbdiv (fbdiv c);
              down = postdiv_loop lower_postdiv target_postdiv [0..<4] p1
          in Some (map (Cntl5 \<circ> cntl5_to_u32) up @ map (\<lambda>f. Cntl1 (cntl1_to_u32 (c\<lparr>fbdiv := f\<rparr>))) fb @
                   map (Cntl5 \<circ> cntl5_to_u32) down))"

section \<open>The loops\<close>

lemma raise_facts:
  "i < length p \<Longrightarrow> List.last (p # raise_postdiv i t p) = p[i := max (p ! i) t] \<and>
   (\<forall>q \<in> set (raise_postdiv i t p). length q = length p \<and> (\<forall>j. j \<noteq> i \<longrightarrow> q ! j = p ! j) \<and> p ! i \<le> q ! i \<and> q ! i \<le> t)"
proof (induction i t p rule: raise_postdiv.induct)
  case (1 i t p)
  show ?case
  proof (cases "p ! i < t")
    case True
    let ?p = "p[i := p ! i + 1]"
    have s: "p ! i \<le> p ! i + 1" "p ! i + 1 \<le> t"
      using unat_succ_less [OF True] True by (auto simp: word_le_nat_alt word_less_nat_alt)
    have e: "raise_postdiv i t p = ?p # raise_postdiv i t ?p"
      by (subst raise_postdiv.simps) (use True "1.prems" in simp)
    note IH = "1.IH" [OF conjI [OF "1.prems" True]]
    have l: "i < length ?p" using "1.prems" by simp
    have m: "max (p ! i + 1) t = max (p ! i) t" using s True by (auto simp: max_def)
    show ?thesis unfolding e using IH l s m "1.prems" by (auto intro: order_trans)
  next
    case False
    then have "raise_postdiv i t p = []" "max (p ! i) t = p ! i" by (simp_all add: raise_postdiv.simps [of i t p])
    then show ?thesis by simp
  qed
qed

lemma lower_facts:
  "i < length p \<Longrightarrow> List.last (p # lower_postdiv i t p) = p[i := min (p ! i) t] \<and>
   (\<forall>q \<in> set (lower_postdiv i t p). length q = length p \<and> (\<forall>j. j \<noteq> i \<longrightarrow> q ! j = p ! j) \<and> t \<le> q ! i \<and> q ! i \<le> p ! i)"
proof (induction i t p rule: lower_postdiv.induct)
  case (1 i t p)
  show ?case
  proof (cases "t < p ! i")
    case True
    let ?p = "p[i := p ! i - 1]"
    have s: "p ! i - 1 \<le> p ! i" "t \<le> p ! i - 1"
      using unat_pred [OF True] True by (auto simp: word_le_nat_alt word_less_nat_alt)
    have e: "lower_postdiv i t p = ?p # lower_postdiv i t ?p"
      by (subst lower_postdiv.simps) (use True "1.prems" in simp)
    note IH = "1.IH" [OF conjI [OF "1.prems" True]]
    have l: "i < length ?p" using "1.prems" by simp
    have m: "min (p ! i - 1) t = min (p ! i) t" using s True by (auto simp: min_def)
    show ?thesis unfolding e using IH l s m "1.prems" by (auto intro: order_trans)
  next
    case False
    then have "lower_postdiv i t p = []" "min (p ! i) t = p ! i" by (simp_all add: lower_postdiv.simps [of i t p])
    then show ?thesis by simp
  qed
qed

lemma fbdiv_facts:
  "List.last (f # step_fbdiv t f) = t \<and> (\<forall>g \<in> set (step_fbdiv t f). g \<le> f \<or> g \<le> t)"
proof (induction t f rule: step_fbdiv.induct)
  case (1 t f)
  show ?case
  proof (cases "f = t")
    case True
    then show ?thesis by (subst (1 2) step_fbdiv.simps) simp
  next
    case False
    define f' where "f' = (if f < t then f + 1 else f - 1)"
    have e: "step_fbdiv t f = f' # step_fbdiv t f'"
      by (subst step_fbdiv.simps) (simp add: False f'_def Let_def)
    have s: "f' \<le> f \<or> f' \<le> t"
      using unat_succ_less [of f t] unat_pred [of t f] False linorder_less_linear [of f t]
      by (auto simp: f'_def word_le_nat_alt word_less_nat_alt)
    note IH = "1.IH" [OF False f'_def]
    show ?thesis unfolding e using IH s by (auto intro: order_trans)
  qed
qed

text \<open>The loop over the dividers, for either direction: \<open>lim\<close> is max or min.\<close>

lemma postdiv_loop_facts:
  assumes one: "\<And>i p. i < length p \<Longrightarrow> List.last (p # f i (ts ! i) p) = p[i := lim (p ! i) (ts ! i)] \<and>
      (\<forall>q \<in> set (f i (ts ! i) p). length q = length p \<and> (\<forall>j. j \<noteq> i \<longrightarrow> q ! j = p ! j) \<and> R (ts ! i) (p ! i) (q ! i))"
    and R: "\<And>t a. R t a a" "\<And>t a b. R t (lim a t) b \<Longrightarrow> R t a b"
    and dst: "distinct is" "set is \<subseteq> {..<length p}"
  shows "length (List.last (p # postdiv_loop f ts is p)) = length p \<and>
    (\<forall>j < length p. List.last (p # postdiv_loop f ts is p) ! j = (if j \<in> set is then lim (p ! j) (ts ! j) else p ! j)) \<and>
    (\<forall>q \<in> set (postdiv_loop f ts is p). length q = length p \<and> (\<forall>j < length p. R (ts ! j) (p ! j) (q ! j)))"
  using dst
proof (induction "is" arbitrary: p)
  case Nil
  then show ?case by simp
next
  case (Cons i "is")
  let ?p = "p[i := lim (p ! i) (ts ! i)]"
  have i: "i < length p" using Cons.prems by simp
  note o = one [OF i]
  have last: "List.last (p # f i (ts ! i) p) = ?p" using o by simp
  have loop: "postdiv_loop f ts (i # is) p = f i (ts ! i) p @ postdiv_loop f ts is ?p" using last by (simp add: Let_def)
  have "List.last (p # postdiv_loop f ts (i # is) p) = List.last (?p # postdiv_loop f ts is ?p)"
    unfolding loop using last by (cases "postdiv_loop f ts is ?p") (auto split: if_splits)
  moreover have "distinct is" "set is \<subseteq> {..<length ?p}" using Cons.prems by auto
  note IH = Cons.IH [OF this]
  have first: "length q = length p \<and> (\<forall>j < length p. R (ts ! j) (p ! j) (q ! j))" if "q \<in> set (f i (ts ! i) p)" for q
  proof -
    have q: "length q = length p" "R (ts ! i) (p ! i) (q ! i)" "\<And>j. j \<noteq> i \<Longrightarrow> q ! j = p ! j" using o that by auto
    have "R (ts ! j) (p ! j) (q ! j)" for j by (cases "j = i") (simp_all add: q R)
    then show ?thesis using q(1) by simp
  qed
  have rest: "length q = length p \<and> (\<forall>j < length p. R (ts ! j) (p ! j) (q ! j))" if "q \<in> set (postdiv_loop f ts is ?p)" for q
  proof -
    have r: "R (ts ! j) (?p ! j) (q ! j)" if "j < length p" for j using IH that \<open>q \<in> _\<close> by auto
    have "R (ts ! j) (p ! j) (q ! j)" if "j < length p" for j
    proof (cases "j = i")
      case True
      then show ?thesis using r [OF i] R(2) [of "ts ! i" "p ! i" "q ! i"] i by simp
    next
      case False
      then show ?thesis using r [OF that] by simp
    qed
    then show ?thesis using IH that by simp
  qed
  ultimately show ?case unfolding loop using IH first rest Cons.prems by (auto simp: nth_list_update)
qed

lemma raise_all:
  fixes ts :: "u8 list"
  assumes "length p = 4"
  defines "tr \<equiv> postdiv_loop raise_postdiv ts [0..<4] p"
  shows "length (List.last (p # tr)) = 4 \<and> (\<forall>j < 4. List.last (p # tr) ! j = max (p ! j) (ts ! j)) \<and>
    (\<forall>q \<in> set tr. length q = 4 \<and> (\<forall>j < 4. p ! j \<le> q ! j))"
proof -
  have one: "List.last (r # raise_postdiv i (ts ! i) r) = r[i := max (r ! i) (ts ! i)] \<and>
      (\<forall>q \<in> set (raise_postdiv i (ts ! i) r). length q = length r \<and> (\<forall>j. j \<noteq> i \<longrightarrow> q ! j = r ! j) \<and> r ! i \<le> q ! i)"
    if "i < length r" for i r using raise_facts [OF that, of "ts ! i"] by blast
  have d: "distinct [0..<4]" "set [0..<4] \<subseteq> {..<length p}" using assms(1) by auto
  show ?thesis
    using postdiv_loop_facts [of raise_postdiv ts max "\<lambda>t a b. a \<le> b", OF one _ _ d] assms(1)
    by (simp add: tr_def)
qed

lemma lower_all:
  fixes ts :: "u8 list"
  assumes "length p = 4"
  defines "tr \<equiv> postdiv_loop lower_postdiv ts [0..<4] p"
  shows "length (List.last (p # tr)) = 4 \<and> (\<forall>j < 4. List.last (p # tr) ! j = min (p ! j) (ts ! j)) \<and>
    (\<forall>q \<in> set tr. length q = 4 \<and> (\<forall>j < 4. ts ! j \<le> p ! j \<longrightarrow> ts ! j \<le> q ! j))"
proof -
  have one: "List.last (r # lower_postdiv i (ts ! i) r) = r[i := min (r ! i) (ts ! i)] \<and>
      (\<forall>q \<in> set (lower_postdiv i (ts ! i) r). length q = length r \<and> (\<forall>j. j \<noteq> i \<longrightarrow> q ! j = r ! j) \<and>
        (ts ! i \<le> r ! i \<longrightarrow> ts ! i \<le> q ! i))"
    if "i < length r" for i r using lower_facts [OF that, of "ts ! i"] by blast
  have d: "distinct [0..<4]" "set [0..<4] \<subseteq> {..<length p}" using assms(1) by auto
  show ?thesis
    using postdiv_loop_facts [of lower_postdiv ts min "\<lambda>t a b. t \<le> a \<longrightarrow> t \<le> b", OF one _ _ d] assms(1)
    by (simp add: tr_def)
qed

section \<open>The registers\<close>

lemma cntl5_roundtrip: "length p = 4 \<Longrightarrow> cntl5_from_u32 (cntl5_to_u32 p) = p"
  unfolding cntl5_from_u32_def cntl5_to_u32_def by (rule le_bytes_of_le_bytes) simp_all

lemma length_cntl5 [simp]: "length (cntl5_from_u32 v) = 4"
  by (simp add: cntl5_from_u32_def)

lemma cntl1_roundtrip: "cntl1_from_u32 (cntl1_to_u32 c) = c"
proof -
  define fb where "fb = le_bytes 2 (fbdiv c)"
  have two: "[fb ! 0, fb ! 1] = fb" by (simp add: fb_def numeral_2_eq_2 le_bytes_Suc)
  have "le_bytes 4 (of_le_bytes [refdiv c, postdiv c, fb ! 0, fb ! 1] :: u32) = [refdiv c, postdiv c, fb ! 0, fb ! 1]"
    by (rule le_bytes_of_le_bytes) simp_all
  then have "cntl1_from_u32 (cntl1_to_u32 c) = \<lparr>refdiv = refdiv c, postdiv = postdiv c, fbdiv = of_le_bytes [fb ! 0, fb ! 1]\<rparr>"
    unfolding cntl1_from_u32_def cntl1_to_u32_def Let_def fb_def [symmetric] by (simp only: nth_Cons_0 nth_Cons_Suc numeral_2_eq_2 numeral_3_eq_3 One_nat_def)
  also have "of_le_bytes [fb ! 0, fb ! 1] = fbdiv c" unfolding two by (simp add: fb_def of_le_bytes_le_bytes_full)
  finally show ?thesis by simp
qed

section \<open>Properties\<close>

text \<open>The contents of the two registers after each write.\<close>

fun pll_trace :: "pll_write list \<Rightarrow> u32 \<times> u32 \<Rightarrow> (u32 \<times> u32) list" where
  "pll_trace [] regs = []"
| "pll_trace (w # ws) regs = pll_apply w regs # pll_trace ws (pll_apply w regs)"

lemma pll_trace_append: "pll_trace (ws @ ws') regs = pll_trace ws regs @ pll_trace ws' (fold pll_apply ws regs)"
  by (induction ws arbitrary: regs) simp_all

lemma pll_trace_cntl5: "pll_trace (map (Cntl5 \<circ> f) ps) (c1, c5) = map (\<lambda>p. (c1, f p)) ps"
  by (induction ps arbitrary: c5) simp_all

lemma pll_trace_cntl1: "pll_trace (map (\<lambda>x. Cntl1 (f x)) xs) (c1, c5) = map (\<lambda>x. (f x, c5)) xs"
  by (induction xs arbitrary: c1) simp_all

lemma pll_fold_cntl5: "f p = c5 \<Longrightarrow> fold pll_apply (map (Cntl5 \<circ> f) ps) (c1, c5) = (c1, f (List.last (p # ps)))"
  by (induction ps arbitrary: p c5) auto

lemma pll_fold_cntl1: "f x = c1 \<Longrightarrow> fold pll_apply (map (\<lambda>x. Cntl1 (f x)) xs) (c1, c5) = (f (List.last (x # xs)), c5)"
  by (induction xs arbitrary: x c1) auto

lemma cntl5_surj: "cntl5_to_u32 (cntl5_from_u32 v) = v"
  by (simp add: cntl5_to_u32_def cntl5_from_u32_def of_le_bytes_le_bytes_full)

lemma cntl1_surj: "cntl1_to_u32 (cntl1_from_u32 v) = v"
proof -
  have four: "le_bytes 4 v = [le_bytes 4 v ! 0, le_bytes 4 v ! 1, le_bytes 4 v ! 2, le_bytes 4 v ! 3]"
    by (rule nth_equalityI) (auto simp: less_Suc_eq numeral_eq_Suc)
  have "le_bytes 2 (of_le_bytes [le_bytes 4 v ! 2, le_bytes 4 v ! 3] :: u16) = [le_bytes 4 v ! 2, le_bytes 4 v ! 3]"
    by (rule le_bytes_of_le_bytes) simp_all
  then show ?thesis
    unfolding cntl1_to_u32_def cntl1_from_u32_def Let_def pll_cntl1.simps
    by (simp only: nth_Cons_0 nth_Cons_Suc One_nat_def four [symmetric, unfolded One_nat_def] of_le_bytes_le_bytes_full)
      (simp add: of_le_bytes_le_bytes_full)
qed

lemma solution_postdivs: "frequency_solution mhz = Some (fb, pd) \<Longrightarrow> length pd = 4"
  by (auto simp: frequency_solution_def split: if_splits)

text \<open>
  The three phases: while the post-dividers go up the feedback divider stands still, while it moves they
  are at the larger of the two values, and while they go down it has its target.
\<close>

lemma set_frequency_phases:
  assumes sol: "frequency_solution mhz = Some (fb, pd)" and ws: "set_frequency mhz (c1, c5) = Some ws"
  defines "p0 \<equiv> cntl5_from_u32 c5" and "f0 \<equiv> fbdiv (cntl1_from_u32 c1)"
  shows "(\<forall>(r1, r5) \<in> set (pll_trace ws (c1, c5)). let f = fbdiv (cntl1_from_u32 r1); p = cntl5_from_u32 r5 in
      f = f0 \<and> (\<forall>i < 4. p0 ! i \<le> p ! i) \<or>
      (f \<le> f0 \<or> f \<le> fb) \<and> (\<forall>i < 4. p ! i = max (p0 ! i) (pd ! i)) \<or>
      f = fb \<and> (\<forall>i < 4. pd ! i \<le> p ! i))"
    and "fold pll_apply ws (c1, c5) = (cntl1_to_u32 ((cntl1_from_u32 c1)\<lparr>fbdiv := fb\<rparr>), cntl5_to_u32 pd)"
proof -
  let ?c = "cntl1_from_u32 c1"
  define up where "up = postdiv_loop raise_postdiv pd [0..<4] p0"
  define p1 where "p1 = List.last (p0 # up)"
  define st where "st = step_fbdiv fb f0"
  define down where "down = postdiv_loop lower_postdiv pd [0..<4] p1"
  define enc where "enc = (\<lambda>f. cntl1_to_u32 (?c\<lparr>fbdiv := f\<rparr>))"
  have w: "ws = map (Cntl5 \<circ> cntl5_to_u32) up @ map (\<lambda>f. Cntl1 (enc f)) st @ map (Cntl5 \<circ> cntl5_to_u32) down"
    using ws sol by (simp add: set_frequency_def Let_def up_def p1_def st_def down_def enc_def p0_def f0_def)
  have l0: "length p0 = 4" by (simp add: p0_def)
  note u = raise_all [OF l0, of pd, folded up_def, folded p1_def]
  note d = lower_all [of p1 pd, folded down_def]
  note s = fbdiv_facts [of f0 fb, folded st_def]
  have enc0: "enc f0 = c1" by (simp add: enc_def f0_def cntl1_surj)
  have enc_f: "fbdiv (cntl1_from_u32 (enc f)) = f" for f by (simp add: enc_def cntl1_roundtrip)
  have f1: "fold pll_apply (map (Cntl5 \<circ> cntl5_to_u32) up) (c1, c5) = (c1, cntl5_to_u32 p1)"
    unfolding p1_def by (rule pll_fold_cntl5) (simp add: p0_def cntl5_surj)
  have f2: "fold pll_apply (map (\<lambda>f. Cntl1 (enc f)) st) (c1, cntl5_to_u32 p1) = (enc fb, cntl5_to_u32 p1)"
    using pll_fold_cntl1 [of enc f0 c1 st "cntl5_to_u32 p1"] enc0 s by simp
  have f3: "fold pll_apply (map (Cntl5 \<circ> cntl5_to_u32) down) (enc fb, cntl5_to_u32 p1) =
      (enc fb, cntl5_to_u32 (List.last (p1 # down)))"
    by (rule pll_fold_cntl5) simp
  have "List.last (p1 # down) = pd"
  proof (rule nth_equalityI)
    show len: "length (List.last (p1 # down)) = length pd" using d u solution_postdivs [OF sol] by simp
    fix j assume "j < length (List.last (p1 # down))"
    then have "j < 4" using d u by simp
    then show "List.last (p1 # down) ! j = pd ! j" using d u by simp
  qed
  then show "fold pll_apply ws (c1, c5) = (cntl1_to_u32 (?c\<lparr>fbdiv := fb\<rparr>), cntl5_to_u32 pd)"
    by (simp only: w fold_append comp_apply f1 f2 f3) (simp add: enc_def)
  have tr: "pll_trace ws (c1, c5) = map (\<lambda>p. (c1, cntl5_to_u32 p)) up @ map (\<lambda>f. (enc f, cntl5_to_u32 p1)) st @
      map (\<lambda>p. (enc fb, cntl5_to_u32 p)) down"
    by (simp add: w pll_trace_append f1 f2 pll_trace_cntl5 pll_trace_cntl1)
  show "\<forall>(r1, r5) \<in> set (pll_trace ws (c1, c5)). let f = fbdiv (cntl1_from_u32 r1); p = cntl5_from_u32 r5 in
      f = f0 \<and> (\<forall>i < 4. p0 ! i \<le> p ! i) \<or>
      (f \<le> f0 \<or> f \<le> fb) \<and> (\<forall>i < 4. p ! i = max (p0 ! i) (pd ! i)) \<or>
      f = fb \<and> (\<forall>i < 4. pd ! i \<le> p ! i)"
    unfolding tr using u d s
    by (auto simp: Let_def cntl5_roundtrip enc_f f0_def [symmetric])
qed

text \<open>
  C28. The PLL never overshoots. Whatever the registers hold, at every write on the way to a supported
  frequency each of the four clocks, the feedback divider over the post-divider plus one, is at most as
  fast as before the call or as the target.
\<close>

theorem set_frequency_no_overshoot:
  assumes "frequency_solution mhz = Some (fb, pd)" "set_frequency mhz (c1, c5) = Some ws"
    and "(r1, r5) \<in> set (pll_trace ws (c1, c5))" "i < 4"
    and "rate = (\<lambda>x1 x5. (unat (fbdiv (cntl1_from_u32 x1)), unat (cntl5_from_u32 x5 ! i) + 1))"
    and "slower = (\<lambda>(f, p) (f', p'). f * p' \<le> f' * (p :: nat))"
  shows "slower (rate r1 r5) (rate c1 c5) \<or> slower (rate r1 r5) (unat fb, unat (pd ! i) + 1)"
proof -
  let ?f = "fbdiv (cntl1_from_u32 r1)" and ?p = "cntl5_from_u32 r5 ! i"
  let ?g = "fbdiv (cntl1_from_u32 c1)" and ?q = "cntl5_from_u32 c5 ! i"
  have "?f = ?g \<and> ?q \<le> ?p \<or> (?f \<le> ?g \<or> ?f \<le> fb) \<and> ?p = max ?q (pd ! i) \<or> ?f = fb \<and> pd ! i \<le> ?p"
    using set_frequency_phases(1) [OF assms(1,2)] assms(3,4) by (fastforce simp: Let_def)
  then have "?f \<le> ?g \<and> ?q \<le> ?p \<or> ?f \<le> fb \<and> pd ! i \<le> ?p" by auto
  then have le: "unat ?f * (unat ?q + 1) \<le> unat ?g * (unat ?p + 1) \<or> unat ?f * (unat (pd ! i) + 1) \<le> unat fb * (unat ?p + 1)"
    unfolding word_le_nat_alt by (meson add_le_mono1 mult_le_mono)
  show ?thesis unfolding assms(5,6) prod.case by (rule le)
qed

text \<open>
  For a supported frequency the stepping ends with the dividers of the solution, and the other fields
  of the register are as they were.
\<close>

theorem set_frequency_reaches_target:
  assumes "frequency_solution mhz = Some (fb, pd)"
  shows "\<exists>ws r1 r5. set_frequency mhz (c1, c5) = Some ws \<and> fold pll_apply ws (c1, c5) = (r1, r5) \<and>
    cntl1_from_u32 r1 = (cntl1_from_u32 c1)\<lparr>fbdiv := fb\<rparr> \<and> cntl5_from_u32 r5 = pd"
proof -
  obtain ws where ws: "set_frequency mhz (c1, c5) = Some ws" using assms by (simp add: set_frequency_def Let_def)
  show ?thesis using set_frequency_phases(2) [OF assms ws] ws solution_postdivs [OF assms]
    by (simp add: cntl1_roundtrip cntl5_roundtrip)
qed

theorem set_frequency_reaches_target_witness:
  "\<exists>ws r1 r5. set_frequency 1750 (0x800101, 0xF0F0F0F) = Some ws \<and> fold pll_apply ws (0x800101, 0xF0F0F0F) = (r1, r5) \<and>
    cntl5_from_u32 r5 = [1, 1, 1, 1]"
proof -
  have "frequency_solution 1750 = Some (140, [1, 1, 1, 1])" by (simp add: frequency_solution_def)
  from set_frequency_reaches_target [OF this, of "0x800101" "0xF0F0F0F"] show ?thesis by blast
qed

theorem set_frequency_no_overshoot_witness:
  "\<exists>ws. set_frequency 200 (0x8C0101, 0x01010101) = Some ws \<and>
    (\<forall>(r1, r5) \<in> set (pll_trace ws (0x8C0101, 0x01010101)). \<forall>i < 4.
      unat (fbdiv (cntl1_from_u32 r1)) * 2 \<le> 140 * (unat (cntl5_from_u32 r5 ! i) + 1))"
proof -
  have sol: "frequency_solution 200 = Some (128, [15, 15, 15, 15])" by (simp add: frequency_solution_def)
  then obtain ws where ws: "set_frequency 200 (0x8C0101, 0x01010101) = Some ws" by (simp add: set_frequency_def Let_def)
  have four: "[0..<4] = [0, 1, 2, 3]" by (simp add: upt_rec)
  have c: "fbdiv (cntl1_from_u32 0x8C0101) = 140" "cntl5_from_u32 0x01010101 = [1, 1, 1, 1]"
    by (simp_all add: cntl1_from_u32_def cntl5_from_u32_def le_bytes_def four Let_def)
  have "unat (fbdiv (cntl1_from_u32 r1)) * 2 \<le> 140 * (unat (cntl5_from_u32 r5 ! i) + 1)"
    if "(r1, r5) \<in> set (pll_trace ws (0x8C0101, 0x01010101))" "i < 4" for r1 r5 i
  proof -
    have n: "[1, 1, 1, 1 :: u8] ! i = 1" "[15, 15, 15, 15 :: u8] ! i = 15" using that(2) by (auto simp: less_Suc_eq numeral_eq_Suc)
    show ?thesis
      using set_frequency_no_overshoot [OF sol ws that refl refl] by (auto simp: c n)
  qed
  then show ?thesis using ws by blast
qed

end
