(* ===== verification/Shared_Chip.thy ===== *)
theory Shared_Chip
  imports Clock
begin

text \<open>
  Access to the chip-wide registers (\<open>src/src/shared_chip.rs\<close>) and the board reset (\<open>src/src/chip.rs\<close>): the two
  windows onto the ARC tile, the release of L2CPUs from reset between the two PLL steps, the rotation of
  the windows across a board reset, and the two polling loops of a reset. The kernel driver is a
  parameter: what its calls answered.
\<close>

section \<open>Windows\<close>

definition ARC_RESET_WINDOW_BASE :: u64 where "ARC_RESET_WINDOW_BASE = 0x80000000"
definition ARC_RESET_WINDOW_SIZE :: u64 where "ARC_RESET_WINDOW_SIZE = 0x200000"
definition L2CPU_RESET_ADDR :: u64 where "L2CPU_RESET_ADDR = 0x80030014"
definition CSM_WINDOW_BASE :: u64 where "CSM_WINDOW_BASE = 0x10000000"
definition CSM_WINDOW_SIZE :: u64 where "CSM_WINDOW_SIZE = 0x200000"
definition PLL4_BASE :: u64 where "PLL4_BASE = 0x80020500"
definition PLL_CNTL_1 :: u64 where "PLL_CNTL_1 = 0x4"
definition PLL_CNTL_5 :: u64 where "PLL_CNTL_5 = 0x14"

lemmas chip_consts = ARC_RESET_WINDOW_BASE_def ARC_RESET_WINDOW_SIZE_def L2CPU_RESET_ADDR_def CSM_WINDOW_BASE_def
  CSM_WINDOW_SIZE_def PLL4_BASE_def PLL_CNTL_1_def PLL_CNTL_5_def

text \<open>
  \<open>Inner\<close>: the words behind the two windows, by address. A chip is the inner state, or None while (or
  after) the windows are rotated out. A failed assertion is an error value of its own.
\<close>

record chip_inner =
  reset_words :: "u64 \<Rightarrow> u32"
  csm_words :: "u64 \<Rightarrow> u32"

type_synonym chip = "chip_inner option"

datatype chip_error =
    Rotating | Outside_Window u64 | Window_Out_Of_Bounds u64 | Window_Unaligned u64 | Unsupported_Frequency u32 | Driver string

text \<open>The values that stand for a failed assertion: the daemon panics.\<close>

fun chip_panics :: "chip_error \<Rightarrow> bool" where
  "chip_panics (Outside_Window _) = True"
| "chip_panics (Window_Out_Of_Bounds _) = True"
| "chip_panics (Window_Unaligned _) = True"
| "chip_panics (Unsupported_Frequency _) = True"
| "chip_panics _ = False"

definition reset_window_offset :: "u64 \<Rightarrow> chip_error + u64" where
  "reset_window_offset addr =
     (if ARC_RESET_WINDOW_BASE \<le> addr \<and> addr < ARC_RESET_WINDOW_BASE + ARC_RESET_WINDOW_SIZE
      then Inr (addr - ARC_RESET_WINDOW_BASE) else Inl (Outside_Window addr))"

definition csm_window_offset :: "u64 \<Rightarrow> chip_error + u64" where
  "csm_window_offset addr =
     (if CSM_WINDOW_BASE \<le> addr \<and> addr < CSM_WINDOW_BASE + CSM_WINDOW_SIZE
      then Inr (addr - CSM_WINDOW_BASE) else Inl (Outside_Window addr))"

text \<open>
  The two assertions of \<open>TlbWindow::read32\<close> and \<open>write32\<close>. Both windows start at a multiple of their size, so
  the offset within the mapping is the offset in the window.
\<close>

definition word_offset :: "u64 \<Rightarrow> u64 \<Rightarrow> chip_error + u64" where
  "word_offset n off =
     (if \<not> unat off + 4 \<le> unat n then Inl (Window_Out_Of_Bounds off)
      else if \<not> 4 dvd unat off then Inl (Window_Unaligned off)
      else Inr off)"

definition arc_read32 :: "u64 \<Rightarrow> chip \<Rightarrow> chip_error + u32" where
  "arc_read32 addr c =
     (case reset_window_offset addr of
        Inl e \<Rightarrow> Inl e
      | Inr off \<Rightarrow>
          (case c of
             None \<Rightarrow> Inl Rotating
           | Some i \<Rightarrow>
               (case word_offset ARC_RESET_WINDOW_SIZE off of
                  Inl e \<Rightarrow> Inl e
                | Inr off \<Rightarrow> Inr (reset_words i (ARC_RESET_WINDOW_BASE + off)))))"

definition arc_write32 :: "u64 \<Rightarrow> u32 \<Rightarrow> chip \<Rightarrow> chip_error + chip" where
  "arc_write32 addr v c =
     (case reset_window_offset addr of
        Inl e \<Rightarrow> Inl e
      | Inr off \<Rightarrow>
          (case c of
             None \<Rightarrow> Inl Rotating
           | Some i \<Rightarrow>
               (case word_offset ARC_RESET_WINDOW_SIZE off of
                  Inl e \<Rightarrow> Inl e
                | Inr off \<Rightarrow> Inr (Some (i\<lparr>reset_words := (reset_words i)(ARC_RESET_WINDOW_BASE + off := v)\<rparr>)))))"

definition csm_read32 :: "u64 \<Rightarrow> chip \<Rightarrow> chip_error + u32" where
  "csm_read32 addr c =
     (case csm_window_offset addr of
        Inl e \<Rightarrow> Inl e
      | Inr off \<Rightarrow>
          (case c of
             None \<Rightarrow> Inl Rotating
           | Some i \<Rightarrow>
               (case word_offset CSM_WINDOW_SIZE off of
                  Inl e \<Rightarrow> Inl e
                | Inr off \<Rightarrow> Inr (csm_words i (CSM_WINDOW_BASE + off)))))"

definition l2cpu_is_running :: "nat \<Rightarrow> chip \<Rightarrow> chip_error + bool" where
  "l2cpu_is_running l2cpu_idx c =
     (case arc_read32 L2CPU_RESET_ADDR c of
        Inl e \<Rightarrow> Inl e
      | Inr val \<Rightarrow> Inr (drop_bit (l2cpu_idx + 4) val AND 1 = 1))"

section \<open>Releasing L2CPUs\<close>

definition release_mask :: "nat list \<Rightarrow> u32" where
  "release_mask indices = fold (\<lambda>i m. m OR push_bit (i + 4) 1) indices 0"

definition apply_release_bits :: "nat list \<Rightarrow> chip \<Rightarrow> chip_error + (u32 \<times> u32 \<times> u32) \<times> chip" where
  "apply_release_bits indices c =
     (case arc_read32 L2CPU_RESET_ADDR c of
        Inl e \<Rightarrow> Inl e
      | Inr before \<Rightarrow>
          let msk = release_mask indices; after = before OR msk
          in case arc_write32 L2CPU_RESET_ADDR after c of
               Inl e \<Rightarrow> Inl e
             | Inr c' \<Rightarrow> Inr ((before, msk, after), c'))"

text \<open>\<open>clock::set_frequency\<close> on the chip: the writes of the stepping, one by one.\<close>

fun pll_write_addr :: "pll_write \<Rightarrow> u64 \<times> u32" where
  "pll_write_addr (Cntl1 v) = (PLL4_BASE + PLL_CNTL_1, v)"
| "pll_write_addr (Cntl5 v) = (PLL4_BASE + PLL_CNTL_5, v)"

fun arc_writes :: "(u64 \<times> u32) list \<Rightarrow> chip \<Rightarrow> chip_error + chip" where
  "arc_writes [] c = Inr c"
| "arc_writes ((addr, v) # ws) c = (case arc_write32 addr v c of Inl e \<Rightarrow> Inl e | Inr c' \<Rightarrow> arc_writes ws c')"

definition chip_set_frequency :: "u32 \<Rightarrow> chip \<Rightarrow> chip_error + chip" where
  "chip_set_frequency mhz c =
     (case (arc_read32 (PLL4_BASE + PLL_CNTL_5) c, arc_read32 (PLL4_BASE + PLL_CNTL_1) c) of
        (Inr c5, Inr c1) \<Rightarrow>
          (case set_frequency mhz (c1, c5) of
             None \<Rightarrow> Inl (Unsupported_Frequency mhz)
           | Some ws \<Rightarrow> arc_writes (map pll_write_addr ws) c)
      | (Inl e, _) \<Rightarrow> Inl e
      | (_, Inl e) \<Rightarrow> Inl e)"

definition idle_pll :: "chip \<Rightarrow> chip_error + chip" where
  "idle_pll c = chip_set_frequency 200 c"

definition reset_x280 :: "nat list \<Rightarrow> chip \<Rightarrow> chip_error + chip" where
  "reset_x280 indices c =
     (case chip_set_frequency 200 c of
        Inl e \<Rightarrow> Inl e
      | Inr c1 \<Rightarrow>
          (case apply_release_bits indices c1 of
             Inl e \<Rightarrow> Inl e
           | Inr (_, c2) \<Rightarrow>
               (case arc_read32 L2CPU_RESET_ADDR c2 of
                  Inl e \<Rightarrow> Inl e
                | Inr _ \<Rightarrow> chip_set_frequency 1750 c2)))"

section \<open>Board reset\<close>

definition lds_reset_poll_step :: "u8 \<Rightarrow> bool \<Rightarrow> bool \<times> bool" where
  "lds_reset_poll_step b saw_asserted =
     (let reset_bit = drop_bit 1 b AND 1;
          new_saw = (saw_asserted \<or> reset_bit = 1);
          completed = (reset_bit = 0 \<and> new_saw)
      in (completed, new_saw))"

text \<open>
  The loop of \<open>chip::reset_board\<close> over the bytes that it reads before the deadline; the result is
  whether the reset was seen to complete. Either way the reset goes on.
\<close>

fun lds_reset_poll :: "u8 list \<Rightarrow> bool \<Rightarrow> bool" where
  "lds_reset_poll [] saw = False"
| "lds_reset_poll (b # bs) saw = (case lds_reset_poll_step b saw of (completed, new_saw) \<Rightarrow> completed \<or> lds_reset_poll bs new_saw)"

datatype arc_ready = Arc_Done | Arc_Error | Arc_Timeout

text \<open>\<open>wait_arc_fw_ready_inner\<close>: the reads of \<open>boot_status_0\<close>, the last of them past the deadline.\<close>

fun wait_arc_fw_ready :: "u32 list \<Rightarrow> u32 \<Rightarrow> arc_ready" where
  "wait_arc_fw_ready reads past =
     (case reads of
        bs0 # rest \<Rightarrow>
          (let st = drop_bit 1 bs0 AND 3
           in if st = 2 then Arc_Done else if st = 3 then Arc_Error else wait_arc_fw_ready rest past)
      | [] \<Rightarrow>
          (let st = drop_bit 1 past AND 3
           in if st = 2 then Arc_Done else if st = 3 then Arc_Error else Arc_Timeout))"

text \<open>
  \<open>SharedChip::reset_board\<close>: the windows are dropped, the driver resets the board (Some is its error), and
  the device is opened again (Inl is its error). The result and the chip afterwards.
\<close>

definition shared_reset_board :: "string option \<Rightarrow> string + chip_inner \<Rightarrow> chip \<Rightarrow> (chip_error + unit) \<times> chip" where
  "shared_reset_board reset_answer open_answer c =
     (case reset_answer of
        Some e \<Rightarrow> (Inl (Driver e), None)
      | None \<Rightarrow>
          (case open_answer of
             Inl e \<Rightarrow> (Inl (Driver e), None)
           | Inr i \<Rightarrow> (Inr (), Some i)))"

section \<open>Properties\<close>

abbreviation pll1 :: u64 where "pll1 \<equiv> PLL4_BASE + PLL_CNTL_1"
abbreviation pll5 :: u64 where "pll5 \<equiv> PLL4_BASE + PLL_CNTL_5"

lemma in_window [simp]:
  "reset_window_offset pll1 = Inr 0x20504" "reset_window_offset pll5 = Inr 0x20514"
  "reset_window_offset L2CPU_RESET_ADDR = Inr 0x30014"
  by (simp_all add: reset_window_offset_def chip_consts)

lemma arc_access [simp]:
  "arc_read32 pll1 (Some i) = Inr (reset_words i pll1)" "arc_read32 pll5 (Some i) = Inr (reset_words i pll5)"
  "arc_read32 L2CPU_RESET_ADDR (Some i) = Inr (reset_words i L2CPU_RESET_ADDR)"
  "arc_write32 pll1 v (Some i) = Inr (Some (i\<lparr>reset_words := (reset_words i)(pll1 := v)\<rparr>))"
  "arc_write32 pll5 v (Some i) = Inr (Some (i\<lparr>reset_words := (reset_words i)(pll5 := v)\<rparr>))"
  "arc_write32 L2CPU_RESET_ADDR v (Some i) = Inr (Some (i\<lparr>reset_words := (reset_words i)(L2CPU_RESET_ADDR := v)\<rparr>))"
  by (simp_all add: arc_read32_def arc_write32_def word_offset_def) (simp_all add: chip_consts)

lemma pll_regs_distinct [simp]: "pll1 \<noteq> pll5" "pll5 \<noteq> pll1" "L2CPU_RESET_ADDR \<noteq> pll1" "L2CPU_RESET_ADDR \<noteq> pll5"
  "pll1 \<noteq> L2CPU_RESET_ADDR" "pll5 \<noteq> L2CPU_RESET_ADDR" "PLL_CNTL_1 \<noteq> PLL_CNTL_5" "PLL_CNTL_5 \<noteq> PLL_CNTL_1"
  by (simp_all add: chip_consts)

lemma pll_writes_land:
  "fold pll_apply ws (reset_words i pll1, reset_words i pll5) = (r1, r5) \<Longrightarrow>
   arc_writes (map pll_write_addr ws) (Some i) = Inr (Some (i\<lparr>reset_words := (reset_words i)(pll1 := r1, pll5 := r5)\<rparr>))"
proof (induction ws arbitrary: i)
  case (Cons w ws)
  from Cons show ?case
  proof (cases w)
    case (Cntl1 v)
    then show ?thesis using Cons.prems Cons.IH [of "i\<lparr>reset_words := (reset_words i)(pll1 := v)\<rparr>"] by (simp cong: if_cong)
  next
    case (Cntl5 v)
    then show ?thesis using Cons.prems Cons.IH [of "i\<lparr>reset_words := (reset_words i)(pll5 := v)\<rparr>"] by (simp cong: if_cong)
  qed
next
  case Nil
  then have "(reset_words i)(pll1 := r1, pll5 := r5) = reset_words i" by auto
  then show ?case by (simp only:) simp
qed

lemma chip_set_frequency_result:
  assumes "frequency_solution mhz = Some (fb, pd)"
  shows "\<exists>r1 r5. chip_set_frequency mhz (Some i) = Inr (Some (i\<lparr>reset_words := (reset_words i)(pll1 := r1, pll5 := r5)\<rparr>)) \<and>
    fbdiv (cntl1_from_u32 r1) = fb \<and> cntl5_from_u32 r5 = pd"
proof -
  obtain ws where ws: "set_frequency mhz (reset_words i pll1, reset_words i pll5) = Some ws"
    using assms by (simp add: set_frequency_def Let_def)
  note r = set_frequency_phases(2) [OF assms ws]
  show ?thesis
    by (rule exI [of _ "cntl1_to_u32 ((cntl1_from_u32 (reset_words i pll1))\<lparr>fbdiv := fb\<rparr>)"], rule exI [of _ "cntl5_to_u32 pd"])
      (use ws pll_writes_land [OF r] solution_postdivs [OF assms] in \<open>simp add: chip_set_frequency_def cntl1_roundtrip cntl5_roundtrip\<close>)
qed

lemma bit_release_mask: "bit (release_mask indices) n \<longleftrightarrow> n < 32 \<and> (\<exists>i \<in> set indices. n = i + 4)"
proof -
  have "bit (fold (\<lambda>i m. m OR push_bit (i + 4) 1) indices w) n \<longleftrightarrow> bit w n \<or> n < 32 \<and> (\<exists>i \<in> set indices. n = i + 4)" for w :: u32
    by (induction indices arbitrary: w) (auto simp: bit_or_iff bit_push_bit_iff bit_exp_iff)
  then show ?thesis by (simp add: release_mask_def)
qed

lemma running_bit: "drop_bit n (w :: u32) AND 1 = 1 \<longleftrightarrow> bit w n"
  by (simp add: bit_iff_odd_drop_bit and_one_eq odd_iff_mod_2_eq_one)

lemma running_iff: "l2cpu_is_running k (Some i) = Inr (bit (reset_words i L2CPU_RESET_ADDR) (k + 4))"
  by (simp add: l2cpu_is_running_def running_bit)

text \<open>
  C35. Releasing L2CPUs. With the windows in place the sequence succeeds: exactly the named L2CPUs are
  released in addition to those that already run, the PLL ends at the dividers for 1750 MHz, and no
  register but the two of the PLL and the reset register has changed.
\<close>

theorem reset_x280_releases:
  assumes "\<forall>k \<in> set indices. k < 4"
  shows "\<exists>i'. reset_x280 indices (Some i) = Inr (Some i') \<and>
    (\<forall>k < 4. l2cpu_is_running k (Some i') = Inr (k \<in> set indices \<or> l2cpu_is_running k (Some i) = Inr True)) \<and>
    fbdiv (cntl1_from_u32 (reset_words i' (PLL4_BASE + PLL_CNTL_1))) = 140 \<and>
    cntl5_from_u32 (reset_words i' (PLL4_BASE + PLL_CNTL_5)) = [1, 1, 1, 1] \<and>
    (\<forall>a. a \<notin> {PLL4_BASE + PLL_CNTL_1, PLL4_BASE + PLL_CNTL_5, L2CPU_RESET_ADDR} \<longrightarrow> reset_words i' a = reset_words i a) \<and>
    csm_words i' = csm_words i"
proof -
  have sol: "frequency_solution 200 = Some (128, [15, 15, 15, 15])" "frequency_solution 1750 = Some (140, [1, 1, 1, 1])"
    by (simp_all add: frequency_solution_def)
  obtain r1 r5 where 1: "chip_set_frequency 200 (Some i) = Inr (Some (i\<lparr>reset_words := (reset_words i)(pll1 := r1, pll5 := r5)\<rparr>))"
    using chip_set_frequency_result [OF sol(1), of i] by blast
  let ?before = "reset_words i L2CPU_RESET_ADDR"
  let ?i2 = "i\<lparr>reset_words := (reset_words i)(pll1 := r1, pll5 := r5, L2CPU_RESET_ADDR := ?before OR release_mask indices)\<rparr>"
  obtain q1 q5 where 2: "chip_set_frequency 1750 (Some ?i2) = Inr (Some (?i2\<lparr>reset_words := (reset_words ?i2)(pll1 := q1, pll5 := q5)\<rparr>))"
    and q: "fbdiv (cntl1_from_u32 q1) = 140" "cntl5_from_u32 q5 = [1, 1, 1, 1]"
    using chip_set_frequency_result [OF sol(2), of ?i2] by blast
  let ?i3 = "?i2\<lparr>reset_words := (reset_words ?i2)(pll1 := q1, pll5 := q5)\<rparr>"
  have "reset_x280 indices (Some i) = Inr (Some ?i3)"
    using 1 2 by (simp add: reset_x280_def apply_release_bits_def Let_def)
  moreover have "l2cpu_is_running k (Some ?i3) = Inr (k \<in> set indices \<or> l2cpu_is_running k (Some i) = Inr True)" if "k < 4" for k
    using that by (auto simp: running_iff bit_or_iff bit_release_mask)
  ultimately show ?thesis using q by (intro exI [of _ ?i3]) simp
qed

theorem reset_x280_releases_witness:
  "\<exists>i'. reset_x280 [0, 2] (Some \<lparr>reset_words = (\<lambda>a. if a = L2CPU_RESET_ADDR then 0x20 else 0), csm_words = (\<lambda>_. 0)\<rparr>) = Inr (Some i') \<and>
    l2cpu_is_running 1 (Some i') = Inr True \<and> l2cpu_is_running 2 (Some i') = Inr True \<and> l2cpu_is_running 3 (Some i') = Inr False"
proof -
  let ?i = "\<lparr>reset_words = (\<lambda>a. if a = L2CPU_RESET_ADDR then 0x20 else 0), csm_words = (\<lambda>_. 0)\<rparr>"
  have "bit (0x20 :: u32) 5" "\<not> bit (0x20 :: u32) 7" by (simp_all add: bit_iff_odd)
  then have r: "l2cpu_is_running 1 (Some ?i) = Inr True" "l2cpu_is_running 3 (Some ?i) = Inr False"
    by (simp_all add: running_iff)
  obtain i' where i': "reset_x280 [0, 2] (Some ?i) = Inr (Some i')"
    "\<forall>k < 4. l2cpu_is_running k (Some i') = Inr (k \<in> set [0, 2] \<or> l2cpu_is_running k (Some ?i) = Inr True)"
    using reset_x280_releases [of "[0, 2]" ?i] by auto
  have "l2cpu_is_running 1 (Some i') = Inr True" "l2cpu_is_running 2 (Some i') = Inr True" "l2cpu_is_running 3 (Some i') = Inr False"
    using i'(2) r by auto
  then show ?thesis using i'(1) by blast
qed

text \<open>
  A board reset that fails leaves the chip without its windows for good: every access from then on
  answers that the windows are being rotated.
\<close>

theorem failed_reset_disables_chip:
  assumes "shared_reset_board reset_answer open_answer c = (Inl e, c')"
  shows "c' = None \<and> arc_read32 L2CPU_RESET_ADDR c' = Inl Rotating \<and> l2cpu_is_running k c' = Inl Rotating \<and>
    reset_x280 indices c' = Inl Rotating"
  using assms by (auto simp: shared_reset_board_def arc_read32_def l2cpu_is_running_def reset_x280_def chip_set_frequency_def
      split: option.splits sum.splits)

theorem failed_reset_disables_chip_witness:
  "shared_reset_board None (Inl ''ENODEV'') (Some \<lparr>reset_words = (\<lambda>_. 0), csm_words = (\<lambda>_. 0)\<rparr>) = (Inl (Driver ''ENODEV''), None) \<and>
   reset_x280 [0] None = Inl Rotating"
  using failed_reset_disables_chip [of None "Inl ''ENODEV''" "Some \<lparr>reset_words = (\<lambda>_. 0), csm_words = (\<lambda>_. 0)\<rparr>" "Driver ''ENODEV''" None 0 "[0]"]
  by (simp add: shared_reset_board_def)

lemma poll_step: "lds_reset_poll_step b saw = (\<not> bit b 1 \<and> saw, saw \<or> bit b 1)"
proof -
  have "drop_bit 1 b AND 1 = (if bit b 1 then 1 else 0)"
    by (simp add: and_one_eq bit_iff_odd_drop_bit odd_iff_mod_2_eq_one even_iff_mod_2_eq_zero)
  then show ?thesis by (auto simp: lds_reset_poll_step_def Let_def)
qed

text \<open>
  The poll of the board reset reports completion exactly when it has read the command byte with the bit
  set and, later, with the bit clear.
\<close>

theorem lds_reset_seen_iff:
  "lds_reset_poll bs False \<longleftrightarrow> (\<exists>i j. i < j \<and> j < length bs \<and> bit (bs ! i) 1 \<and> \<not> bit (bs ! j) 1)"
proof -
  have seen: "lds_reset_poll xs True \<longleftrightarrow> (\<exists>j < length xs. \<not> bit (xs ! j) 1)" for xs
    by (induction xs) (auto simp: poll_step less_Suc_eq_0_disj)
  show ?thesis
  proof (induction bs)
    case (Cons b bs)
    have split: "(\<exists>i j. i < j \<and> j < length (b # bs) \<and> bit ((b # bs) ! i) 1 \<and> \<not> bit ((b # bs) ! j) 1) \<longleftrightarrow>
        bit b 1 \<and> (\<exists>j < length bs. \<not> bit (bs ! j) 1) \<or>
        (\<exists>i j. i < j \<and> j < length bs \<and> bit (bs ! i) 1 \<and> \<not> bit (bs ! j) 1)" (is "?L \<longleftrightarrow> ?R")
    proof
      assume ?L
      then obtain i j where ij: "i < j" "j < length (b # bs)" "bit ((b # bs) ! i) 1" "\<not> bit ((b # bs) ! j) 1" by blast
      then obtain j' where "j = Suc j'" by (cases j) auto
      with ij show ?R by (cases i) auto
    next
      assume ?R
      then show ?L
      proof (elim disjE conjE exE)
        fix j assume "bit b 1" "j < length bs" "\<not> bit (bs ! j) 1"
        then show ?L by (intro exI [of _ 0] exI [of _ "Suc j"]) simp
      next
        fix i j assume "i < j" "j < length bs" "bit (bs ! i) 1" "\<not> bit (bs ! j) 1"
        then show ?L by (intro exI [of _ "Suc i"] exI [of _ "Suc j"]) simp
      qed
    qed
    show ?case unfolding split using Cons.IH by (cases "bit b 1") (auto simp: poll_step seen)
  qed simp
qed

end
