(* ===== verification/Telemetry.thy ===== *)
theory Telemetry
  imports Shared_Chip "HOL-Library.Signed_Division"
begin

text \<open>
  The telemetry table of the ARC firmware (\<open>src/src/telemetry.rs\<close>): the walk over the table in the firmware's
  memory, and the decoding of its entries.
\<close>

section \<open>The table\<close>

definition ARC_TELEMETRY_PTR_ADDR :: u64 where "ARC_TELEMETRY_PTR_ADDR = 0x80030434"
definition ARC_CSM_BASE :: u64 where "ARC_CSM_BASE = 0x10000000"
definition ARC_CSM_SIZE :: u64 where "ARC_CSM_SIZE = 0x80000"

lemmas telemetry_consts = ARC_TELEMETRY_PTR_ADDR_def ARC_CSM_BASE_def ARC_CSM_SIZE_def

datatype telemetry_tag =
    BOARD_ID_HIGH | BOARD_ID_LOW | ASIC_ID | HARVESTING_STATE | VCORE | TDP | TDC | VDD_LIMITS
    | ASIC_TEMPERATURE | VREG_TEMPERATURE | BOARD_TEMPERATURE | AICLK | AXICLK | ARCCLK | L2CPUCLK0
    | L2CPUCLK1 | L2CPUCLK2 | L2CPUCLK3 | ETH_LIVE_STATUS | DDR_STATUS | DDR_SPEED | FAN_SPEED
    | TIMER_HEARTBEAT | ENABLED_TENSIX_COL | ENABLED_ETH | ENABLED_GDDR | ENABLED_L2CPU | PCIE_USAGE
    | NOC_TRANSLATION | FAN_RPM | GDDR01_TEMP | GDDR23_TEMP | GDDR45_TEMP | GDDR67_TEMP
    | GDDR01_CORR_ERRS | GDDR23_CORR_ERRS | GDDR45_CORR_ERRS | GDDR67_CORR_ERRS | GDDR_UNCORR_ERRS
    | MAX_GDDR_TEMP | ASIC_LOCATION | BOARD_POWER_LIMIT | INPUT_POWER | TDC_LIMIT_MAX
    | THM_LIMIT_THROTTLE | THERM_TRIP_COUNT | AICLK_LIMIT_MAX | TDP_LIMIT_MAX

text \<open>The module \<open>tag\<close>: the number of each tag.\<close>

definition tag_table :: "(u16 \<times> telemetry_tag) list" where
  "tag_table =
     [(1, BOARD_ID_HIGH), (2, BOARD_ID_LOW), (3, ASIC_ID), (4, HARVESTING_STATE), (6, VCORE),
      (7, TDP), (8, TDC), (9, VDD_LIMITS), (11, ASIC_TEMPERATURE), (12, VREG_TEMPERATURE),
      (13, BOARD_TEMPERATURE), (14, AICLK), (15, AXICLK), (16, ARCCLK), (17, L2CPUCLK0),
      (18, L2CPUCLK1), (19, L2CPUCLK2), (20, L2CPUCLK3), (21, ETH_LIVE_STATUS),
      (22, DDR_STATUS), (23, DDR_SPEED), (31, FAN_SPEED), (32, TIMER_HEARTBEAT),
      (34, ENABLED_TENSIX_COL), (35, ENABLED_ETH), (36, ENABLED_GDDR), (37, ENABLED_L2CPU),
      (38, PCIE_USAGE), (40, NOC_TRANSLATION), (41, FAN_RPM), (42, GDDR01_TEMP),
      (43, GDDR23_TEMP), (44, GDDR45_TEMP), (45, GDDR67_TEMP), (46, GDDR01_CORR_ERRS),
      (47, GDDR23_CORR_ERRS), (48, GDDR45_CORR_ERRS), (49, GDDR67_CORR_ERRS),
      (50, GDDR_UNCORR_ERRS), (51, MAX_GDDR_TEMP), (52, ASIC_LOCATION),
      (53, BOARD_POWER_LIMIT), (54, INPUT_POWER), (55, TDC_LIMIT_MAX),
      (56, THM_LIMIT_THROTTLE), (60, THERM_TRIP_COUNT), (63, AICLK_LIMIT_MAX),
      (64, TDP_LIMIT_MAX)]"

record telemetry_entry =
  te_tag :: u16
  te_offset :: u16
  te_data :: u32

record telemetry =
  version :: u32
  entry_count :: u32
  harvesting_state :: u32
  enabled_tensix_col :: u32
  noc_translation_enabled :: bool
  board_id :: u64
  asic_id :: u32
  asic_location :: u32
  enabled_eth :: u32
  enabled_gddr :: u32
  enabled_l2cpu :: u32
  asic_temperature_mc :: int
  vreg_temperature_mc :: int
  board_temperature_mc :: int
  max_gddr_temperature_c :: u32
  gddr_temperature_c :: "u32 list"
  gddr_corr_errs :: "u32 list"
  gddr_uncorr_errs :: u32
  aiclk_mhz :: u32
  axiclk_mhz :: u32
  arcclk_mhz :: u32
  l2cpuclk_mhz :: "u32 list"
  aiclk_limit_max_mhz :: u32
  vcore_mv :: u32
  tdp_w :: u32
  tdc_a :: u32
  input_power_w :: u32
  vdd_min_mv :: u16
  vdd_max_mv :: u16
  board_power_limit_w :: u32
  tdp_limit_max_w :: u32
  tdc_limit_max_a :: u32
  thm_limit_throttle_c :: u32
  fan_speed_pct :: u32
  fan_rpm :: u32
  ddr_status :: u32
  ddr_speed_mts :: u32
  timer_heartbeat :: u32
  therm_trip_count :: u32
  pcie_usage :: u32
  eth_live_status :: u32
  entries :: "telemetry_entry list"

definition telemetry_default :: telemetry where
  "telemetry_default = \<lparr>version = 0, entry_count = 0, harvesting_state = 0, enabled_tensix_col = 0,
     noc_translation_enabled = False, board_id = 0, asic_id = 0, asic_location = 0,
     enabled_eth = 0, enabled_gddr = 0, enabled_l2cpu = 0, asic_temperature_mc = 0,
     vreg_temperature_mc = 0, board_temperature_mc = 0, max_gddr_temperature_c = 0,
     gddr_temperature_c = [0, 0, 0, 0], gddr_corr_errs = [0, 0, 0, 0], gddr_uncorr_errs = 0,
     aiclk_mhz = 0, axiclk_mhz = 0, arcclk_mhz = 0, l2cpuclk_mhz = [0, 0, 0, 0],
     aiclk_limit_max_mhz = 0, vcore_mv = 0, tdp_w = 0, tdc_a = 0, input_power_w = 0,
     vdd_min_mv = 0, vdd_max_mv = 0, board_power_limit_w = 0, tdp_limit_max_w = 0,
     tdc_limit_max_a = 0, thm_limit_throttle_c = 0, fan_speed_pct = 0, fan_rpm = 0,
     ddr_status = 0, ddr_speed_mts = 0, timer_heartbeat = 0, therm_trip_count = 0,
     pcie_usage = 0, eth_live_status = 0, entries = []\<rparr>"

text \<open>16.16 fixed point to thousandths, rounded to nearest and ties away from zero.\<close>

definition fixed16_to_millicelsius :: "u32 \<Rightarrow> int" where
  "fixed16_to_millicelsius raw =
     (let scaled = sint raw * 1000;
          adjusted = (if scaled \<ge> 0 then scaled + 2 ^ 15 else scaled - 2 ^ 15)
      in adjusted sdiv 2 ^ 16)"

definition vdd_limits :: "u32 \<Rightarrow> u16 \<times> u16" where
  "vdd_limits raw = (ucast (raw AND 0xFFFF), ucast (drop_bit 16 raw AND 0xFFFF))"

definition max_byte_u32 :: "u32 \<Rightarrow> u32" where
  "max_byte_u32 raw = ucast (fold max (le_bytes 4 raw) 0)"

section \<open>Decoding\<close>

text \<open>One entry: the two halves of the board id are local variables of the loop.\<close>

fun decode_tag :: "telemetry_tag \<Rightarrow> u32 \<Rightarrow> u32 \<times> u32 \<times> telemetry \<Rightarrow> u32 \<times> u32 \<times> telemetry" where
  "decode_tag BOARD_ID_HIGH d (hi, lo, t) = (d, lo, t)"
| "decode_tag BOARD_ID_LOW d (hi, lo, t) = (hi, d, t)"
| "decode_tag ASIC_ID d (hi, lo, t) = (hi, lo, t\<lparr>asic_id := d\<rparr>)"
| "decode_tag HARVESTING_STATE d (hi, lo, t) = (hi, lo, t\<lparr>harvesting_state := d\<rparr>)"
| "decode_tag ENABLED_TENSIX_COL d (hi, lo, t) = (hi, lo, t\<lparr>enabled_tensix_col := d\<rparr>)"
| "decode_tag ENABLED_ETH d (hi, lo, t) = (hi, lo, t\<lparr>enabled_eth := d\<rparr>)"
| "decode_tag ENABLED_GDDR d (hi, lo, t) = (hi, lo, t\<lparr>enabled_gddr := d\<rparr>)"
| "decode_tag ENABLED_L2CPU d (hi, lo, t) = (hi, lo, t\<lparr>enabled_l2cpu := d\<rparr>)"
| "decode_tag NOC_TRANSLATION d (hi, lo, t) = (hi, lo, t\<lparr>noc_translation_enabled := (d \<noteq> 0)\<rparr>)"
| "decode_tag ASIC_LOCATION d (hi, lo, t) = (hi, lo, t\<lparr>asic_location := d\<rparr>)"
| "decode_tag VCORE d (hi, lo, t) = (hi, lo, t\<lparr>vcore_mv := d\<rparr>)"
| "decode_tag TDP d (hi, lo, t) = (hi, lo, t\<lparr>tdp_w := d\<rparr>)"
| "decode_tag TDC d (hi, lo, t) = (hi, lo, t\<lparr>tdc_a := d\<rparr>)"
| "decode_tag VDD_LIMITS d (hi, lo, t) = (case vdd_limits d of (mn, mx) \<Rightarrow> (hi, lo, t\<lparr>vdd_min_mv := mn, vdd_max_mv := mx\<rparr>))"
| "decode_tag THM_LIMIT_THROTTLE d (hi, lo, t) = (hi, lo, t\<lparr>thm_limit_throttle_c := d\<rparr>)"
| "decode_tag ASIC_TEMPERATURE d (hi, lo, t) = (hi, lo, t\<lparr>asic_temperature_mc := fixed16_to_millicelsius d\<rparr>)"
| "decode_tag VREG_TEMPERATURE d (hi, lo, t) = (hi, lo, t\<lparr>vreg_temperature_mc := fixed16_to_millicelsius d\<rparr>)"
| "decode_tag BOARD_TEMPERATURE d (hi, lo, t) = (hi, lo, t\<lparr>board_temperature_mc := fixed16_to_millicelsius d\<rparr>)"
| "decode_tag MAX_GDDR_TEMP d (hi, lo, t) = (hi, lo, t\<lparr>max_gddr_temperature_c := d\<rparr>)"
| "decode_tag GDDR01_TEMP d (hi, lo, t) = (hi, lo, t\<lparr>gddr_temperature_c := (gddr_temperature_c t)[0 := max_byte_u32 d]\<rparr>)"
| "decode_tag GDDR23_TEMP d (hi, lo, t) = (hi, lo, t\<lparr>gddr_temperature_c := (gddr_temperature_c t)[1 := max_byte_u32 d]\<rparr>)"
| "decode_tag GDDR45_TEMP d (hi, lo, t) = (hi, lo, t\<lparr>gddr_temperature_c := (gddr_temperature_c t)[2 := max_byte_u32 d]\<rparr>)"
| "decode_tag GDDR67_TEMP d (hi, lo, t) = (hi, lo, t\<lparr>gddr_temperature_c := (gddr_temperature_c t)[3 := max_byte_u32 d]\<rparr>)"
| "decode_tag GDDR01_CORR_ERRS d (hi, lo, t) = (hi, lo, t\<lparr>gddr_corr_errs := (gddr_corr_errs t)[0 := d]\<rparr>)"
| "decode_tag GDDR23_CORR_ERRS d (hi, lo, t) = (hi, lo, t\<lparr>gddr_corr_errs := (gddr_corr_errs t)[1 := d]\<rparr>)"
| "decode_tag GDDR45_CORR_ERRS d (hi, lo, t) = (hi, lo, t\<lparr>gddr_corr_errs := (gddr_corr_errs t)[2 := d]\<rparr>)"
| "decode_tag GDDR67_CORR_ERRS d (hi, lo, t) = (hi, lo, t\<lparr>gddr_corr_errs := (gddr_corr_errs t)[3 := d]\<rparr>)"
| "decode_tag GDDR_UNCORR_ERRS d (hi, lo, t) = (hi, lo, t\<lparr>gddr_uncorr_errs := d\<rparr>)"
| "decode_tag INPUT_POWER d (hi, lo, t) = (hi, lo, t\<lparr>input_power_w := d\<rparr>)"
| "decode_tag BOARD_POWER_LIMIT d (hi, lo, t) = (hi, lo, t\<lparr>board_power_limit_w := d\<rparr>)"
| "decode_tag TDP_LIMIT_MAX d (hi, lo, t) = (hi, lo, t\<lparr>tdp_limit_max_w := d\<rparr>)"
| "decode_tag TDC_LIMIT_MAX d (hi, lo, t) = (hi, lo, t\<lparr>tdc_limit_max_a := d\<rparr>)"
| "decode_tag FAN_SPEED d (hi, lo, t) = (hi, lo, t\<lparr>fan_speed_pct := d\<rparr>)"
| "decode_tag FAN_RPM d (hi, lo, t) = (hi, lo, t\<lparr>fan_rpm := d\<rparr>)"
| "decode_tag AICLK d (hi, lo, t) = (hi, lo, t\<lparr>aiclk_mhz := d\<rparr>)"
| "decode_tag AXICLK d (hi, lo, t) = (hi, lo, t\<lparr>axiclk_mhz := d\<rparr>)"
| "decode_tag ARCCLK d (hi, lo, t) = (hi, lo, t\<lparr>arcclk_mhz := d\<rparr>)"
| "decode_tag L2CPUCLK0 d (hi, lo, t) = (hi, lo, t\<lparr>l2cpuclk_mhz := (l2cpuclk_mhz t)[0 := d]\<rparr>)"
| "decode_tag L2CPUCLK1 d (hi, lo, t) = (hi, lo, t\<lparr>l2cpuclk_mhz := (l2cpuclk_mhz t)[1 := d]\<rparr>)"
| "decode_tag L2CPUCLK2 d (hi, lo, t) = (hi, lo, t\<lparr>l2cpuclk_mhz := (l2cpuclk_mhz t)[2 := d]\<rparr>)"
| "decode_tag L2CPUCLK3 d (hi, lo, t) = (hi, lo, t\<lparr>l2cpuclk_mhz := (l2cpuclk_mhz t)[3 := d]\<rparr>)"
| "decode_tag AICLK_LIMIT_MAX d (hi, lo, t) = (hi, lo, t\<lparr>aiclk_limit_max_mhz := d\<rparr>)"
| "decode_tag DDR_STATUS d (hi, lo, t) = (hi, lo, t\<lparr>ddr_status := d\<rparr>)"
| "decode_tag DDR_SPEED d (hi, lo, t) = (hi, lo, t\<lparr>ddr_speed_mts := d\<rparr>)"
| "decode_tag TIMER_HEARTBEAT d (hi, lo, t) = (hi, lo, t\<lparr>timer_heartbeat := d\<rparr>)"
| "decode_tag THERM_TRIP_COUNT d (hi, lo, t) = (hi, lo, t\<lparr>therm_trip_count := d\<rparr>)"
| "decode_tag PCIE_USAGE d (hi, lo, t) = (hi, lo, t\<lparr>pcie_usage := d\<rparr>)"
| "decode_tag ETH_LIVE_STATUS d (hi, lo, t) = (hi, lo, t\<lparr>eth_live_status := d\<rparr>)"

definition decode_entry :: "telemetry_entry \<Rightarrow> u32 \<times> u32 \<times> telemetry \<Rightarrow> u32 \<times> u32 \<times> telemetry" where
  "decode_entry e s = (case map_of tag_table (te_tag e) of None \<Rightarrow> s | Some tg \<Rightarrow> decode_tag tg (te_data e) s)"

definition decode_entries :: "u32 \<Rightarrow> u32 \<Rightarrow> telemetry_entry list \<Rightarrow> telemetry" where
  "decode_entries ver count es =
     (case fold decode_entry es (0, 0, telemetry_default\<lparr>version := ver, entry_count := count, entries := es\<rparr>) of
        (hi, lo, t) \<Rightarrow> t\<lparr>board_id := push_bit 32 (ucast hi) OR ucast lo\<rparr>)"

section \<open>Reading\<close>

datatype telemetry_error = ArcNotReady | OutOfCsm u32 | EntryCountTooLarge u32 | UnsupportedVersion u32 | Chip_Error chip_error

text \<open>The walk over the tags, from entry \<open>i\<close> on; each entry is read and then the word it points to.\<close>

fun read_entries :: "chip \<Rightarrow> u64 \<Rightarrow> u64 \<Rightarrow> nat list \<Rightarrow> telemetry_error + telemetry_entry list" where
  "read_entries c tags_base data_base [] = Inr []"
| "read_entries c tags_base data_base (i # is) =
     (case csm_read32 (tags_base + word_of_nat i * 4) c of
        Inl e \<Rightarrow> Inl (Chip_Error e)
      | Inr entry \<Rightarrow>
          let tg = ucast (entry AND 0xFFFF); off = ucast (drop_bit 16 entry AND 0xFFFF)
          in case csm_read32 (data_base + ucast (off :: u16) * 4) c of
               Inl e \<Rightarrow> Inl (Chip_Error e)
             | Inr d \<Rightarrow>
                 (case read_entries c tags_base data_base is of
                    Inl e \<Rightarrow> Inl e
                  | Inr es \<Rightarrow> Inr (\<lparr>te_tag = tg, te_offset = off, te_data = d\<rparr> # es)))"

definition read_telemetry :: "chip \<Rightarrow> telemetry_error + telemetry" where
  "read_telemetry c =
     (case arc_read32 ARC_TELEMETRY_PTR_ADDR c of
        Inl e \<Rightarrow> Inl (Chip_Error e)
      | Inr ptr \<Rightarrow>
          if ptr = 0 then Inl ArcNotReady
          else let table_addr = ucast ptr :: u64
          in if \<not> (ARC_CSM_BASE \<le> table_addr \<and> table_addr < ARC_CSM_BASE + ARC_CSM_SIZE) then Inl (OutOfCsm ptr)
          else case csm_read32 table_addr c of
                 Inl e \<Rightarrow> Inl (Chip_Error e)
               | Inr ver \<Rightarrow>
                   if (drop_bit 16 ver AND 0xFF) > 1 then Inl (UnsupportedVersion ver)
                   else case csm_read32 (table_addr + 4) c of
                          Inl e \<Rightarrow> Inl (Chip_Error e)
                        | Inr count \<Rightarrow>
                            if count = 0 \<or> unat count * 8 + 8 > unat (ARC_CSM_BASE + ARC_CSM_SIZE) - unat table_addr
                            then Inl (EntryCountTooLarge count)
                            else case read_entries c (table_addr + 8) (table_addr + 8 + ucast count * 4) [0..<unat count] of
                                   Inl e \<Rightarrow> Inl e
                                 | Inr es \<Rightarrow> Inr (decode_entries ver count es))"

section \<open>Properties of the decoder\<close>

text \<open>
  The temperature conversion is exact to half a unit: the result is the thousandths of a degree
  nearest to the 16.16 fixed-point value, over the whole range of the register, and it fits the 32-bit
  result.
\<close>

theorem millicelsius_nearest:
  "\<bar>fixed16_to_millicelsius raw * 2 ^ 16 - sint raw * 1000\<bar> \<le> 2 ^ 15 \<and>
   - (2 ^ 31) \<le> fixed16_to_millicelsius raw \<and> fixed16_to_millicelsius raw < 2 ^ 31"
proof -
  have r: "- (2 ^ 31) \<le> sint raw" "sint raw < 2 ^ 31"
    using sint_ge [of raw] sint_lt [of raw] by simp_all
  define s where "s = sint raw"
  have dm: "a = 65536 * (a div 65536) + a mod 65536 \<and> 0 \<le> a mod 65536 \<and> a mod 65536 < 65536" for a :: int
    by simp
  have "\<exists>q m. fixed16_to_millicelsius raw = q \<and> 0 \<le> m \<and> m < 65536 \<and>
      (0 \<le> s \<and> s * 1000 + 32768 = 65536 * q + m \<or> s < 0 \<and> 32768 - s * 1000 = 65536 * (- q) + m)"
  proof (cases "0 \<le> s")
    case True
    then have "fixed16_to_millicelsius raw = (s * 1000 + 32768) div 65536"
      by (simp add: fixed16_to_millicelsius_def Let_def signed_divide_int_def s_def)
    then show ?thesis using True dm [of "s * 1000 + 32768"] by blast
  next
    case False
    then have "fixed16_to_millicelsius raw = - ((32768 - s * 1000) div 65536)"
      by (simp add: fixed16_to_millicelsius_def Let_def signed_divide_int_def s_def)
    then have "(32768 - s * 1000) div 65536 = - fixed16_to_millicelsius raw" by simp
    then show ?thesis using False dm [of "32768 - s * 1000"] by (metis not_less)
  qed
  then obtain q m where q: "fixed16_to_millicelsius raw = q" and m: "0 \<le> m" "m < 65536"
    and e: "0 \<le> s \<and> s * 1000 + 32768 = 65536 * q + m \<or> s < 0 \<and> 32768 - s * 1000 = 65536 * (- q) + m"
    by blast
  have "\<bar>q * 65536 - s * 1000\<bar> \<le> 32768 \<and> - 2147483648 \<le> q \<and> q < 2147483648"
    using e m r unfolding s_def [symmetric] by (elim disjE conjE) (simp_all add: abs_le_iff)
  then show ?thesis unfolding q s_def [symmetric] by simp
qed

text \<open>The last entry with a tag.\<close>

definition last_data :: "u16 \<Rightarrow> telemetry_entry list \<Rightarrow> u32 option" where
  "last_data tg es = map_of (rev (map (\<lambda>e. (te_tag e, te_data e)) es)) tg"

lemma last_data_snoc: "last_data tg (es @ [e]) = (if te_tag e = tg then Some (te_data e) else last_data tg es)"
  by (simp add: last_data_def)

lemma tag_id: "map_of tag_table n = Some HARVESTING_STATE \<longleftrightarrow> n = 4"
  "map_of tag_table n = Some ENABLED_TENSIX_COL \<longleftrightarrow> n = 34" "map_of tag_table n = Some NOC_TRANSLATION \<longleftrightarrow> n = 40"
  by (auto simp: tag_table_def split: if_splits)

lemma decode_tag_frame:
  assumes "decode_tag tg d (hi, lo, t) = (hi', lo', t')"
  shows "harvesting_state t' = (if tg = HARVESTING_STATE then d else harvesting_state t)"
    "enabled_tensix_col t' = (if tg = ENABLED_TENSIX_COL then d else enabled_tensix_col t)"
    "noc_translation_enabled t' = (if tg = NOC_TRANSLATION then d \<noteq> 0 else noc_translation_enabled t)"
  using assms by (cases tg; auto split: prod.splits)+

lemma decode_entries_fields:
  "fold decode_entry es (hi, lo, t) = (hi', lo', t') \<Longrightarrow>
   harvesting_state t' = (case last_data 4 es of None \<Rightarrow> harvesting_state t | Some d \<Rightarrow> d) \<and>
   enabled_tensix_col t' = (case last_data 34 es of None \<Rightarrow> enabled_tensix_col t | Some d \<Rightarrow> d) \<and>
   noc_translation_enabled t' = (case last_data 40 es of None \<Rightarrow> noc_translation_enabled t | Some d \<Rightarrow> d \<noteq> 0)"
proof (induction es arbitrary: hi' lo' t' rule: rev_induct)
  case Nil
  then show ?case by (simp add: last_data_def)
next
  case (snoc e es)
  obtain h1 l1 t1 where 1: "fold decode_entry es (hi, lo, t) = (h1, l1, t1)" by (cases "fold decode_entry es (hi, lo, t)")
  note IH = snoc.IH [OF 1]
  have 2: "decode_entry e (h1, l1, t1) = (hi', lo', t')" using snoc.prems 1 by simp
  show ?case
  proof (cases "map_of tag_table (te_tag e)")
    case None
    then have "te_tag e \<noteq> 4" "te_tag e \<noteq> 34" "te_tag e \<noteq> 40" using tag_id [of "te_tag e"] by auto
    moreover have "t' = t1" using 2 None by (simp add: decode_entry_def)
    ultimately show ?thesis using IH by (simp add: last_data_snoc)
  next
    case (Some tg)
    then have "decode_tag tg (te_data e) (h1, l1, t1) = (hi', lo', t')" using 2 by (simp add: decode_entry_def)
    note f = decode_tag_frame [OF this]
    have "tg = HARVESTING_STATE \<longleftrightarrow> te_tag e = 4" "tg = ENABLED_TENSIX_COL \<longleftrightarrow> te_tag e = 34" "tg = NOC_TRANSLATION \<longleftrightarrow> te_tag e = 40"
      using tag_id [of "te_tag e"] Some by auto
    then show ?thesis using IH f by (simp add: last_data_snoc)
  qed
qed

text \<open>
  The three fields that decide about the tile are the words of the last entry with their tag, and zero
  without one, whatever other entries the table has.
\<close>

theorem decode_last_entry_wins:
  "harvesting_state (decode_entries ver n es) = (case last_data 4 es of None \<Rightarrow> 0 | Some d \<Rightarrow> d) \<and>
   enabled_tensix_col (decode_entries ver n es) = (case last_data 34 es of None \<Rightarrow> 0 | Some d \<Rightarrow> d) \<and>
   noc_translation_enabled (decode_entries ver n es) = (case last_data 40 es of None \<Rightarrow> False | Some d \<Rightarrow> d \<noteq> 0) \<and>
   entries (decode_entries ver n es) = es"
proof -
  let ?t = "telemetry_default\<lparr>version := ver, entry_count := n, entries := es\<rparr>"
  obtain hi lo t where r: "fold decode_entry es (0, 0, ?t) = (hi, lo, t)" by (cases "fold decode_entry es (0, 0, ?t)")
  have one: "entries (snd (snd (decode_entry e s))) = entries (snd (snd s))" for e s
    by (cases s; auto simp: decode_entry_def split: option.splits)
      (rename_tac tg; case_tac tg; auto split: prod.splits)
  have "entries (snd (snd (fold decode_entry xs s))) = entries (snd (snd s))" for xs s
    by (induction xs arbitrary: s) (simp_all add: one)
  from this [of es "(0, 0, ?t)"] have "entries t = es" using r by simp
  moreover have "decode_entries ver n es = t\<lparr>board_id := push_bit 32 (ucast hi) OR ucast lo\<rparr>"
    by (simp only: decode_entries_def r prod.case)
  moreover have "harvesting_state ?t = 0" "enabled_tensix_col ?t = 0" "\<not> noc_translation_enabled ?t"
    by (simp_all add: telemetry_default_def)
  ultimately show ?thesis using decode_entries_fields [OF r] by (simp split: option.splits)
qed

section \<open>Properties of the walk\<close>

lemma csm_read_ok:
  assumes "0x10000000 \<le> unat addr" "unat addr + 4 \<le> 0x10200000"
  shows "csm_read32 addr (Some i) =
    (if 4 dvd unat addr then Inr (csm_words i addr) else Inl (Window_Unaligned (addr - CSM_WINDOW_BASE)))"
proof -
  have b: "CSM_WINDOW_BASE \<le> addr" "addr < CSM_WINDOW_BASE + CSM_WINDOW_SIZE"
    using assms by (simp_all add: chip_consts word_le_nat_alt word_less_nat_alt)
  have o: "unat (addr - CSM_WINDOW_BASE) = unat addr - 0x10000000"
    using b(1) by (simp add: unat_sub) (simp add: chip_consts)
  have "4 dvd unat addr - 0x10000000 \<longleftrightarrow> 4 dvd unat addr" using assms(1) by presburger
  then show ?thesis using b assms by (simp add: csm_read32_def csm_window_offset_def word_offset_def o) (simp add: chip_consts)
qed

lemma read_entries_ok:
  assumes tb: "unat tb = base + 8" and db: "unat db = base + 8 + 4 * n" and base: "0x10000000 \<le> base" "base + 8 + 8 * n \<le> 0x10080000" "4 dvd base"
    and sub: "set is \<subseteq> {..<n}"
  shows "\<exists>es. read_entries (Some i) tb db is = Inr es"
  using sub
proof (induction "is")
  case (Cons k ks)
  have small: "unat (word_of_nat k * 4 :: u64) = k * 4"
    using Cons.prems base(2) by (simp add: unat_word_ariths unsigned_of_nat take_bit_nat_eq_self)
  then have "unat (tb + word_of_nat k * 4) = base + 8 + k * 4"
    using Cons.prems base tb by (subst unat_plus_if') simp
  then have 1: "csm_read32 (tb + word_of_nat k * 4) (Some i) = Inr (csm_words i (tb + word_of_nat k * 4))"
    using Cons.prems base by (subst csm_read_ok) simp_all
  have 2: "csm_read32 (db + ucast off * 4) (Some i) = Inr (csm_words i (db + ucast off * 4))" for off :: u16
  proof -
    have o: "unat off < 65536" using unsigned_less [of off, where ?'a = nat] by simp
    then have "unat (ucast off * 4 :: u64) = unat off * 4"
      by (simp add: unat_word_ariths unat_ucast_up)
    then have "unat (db + ucast off * 4) = base + 8 + 4 * n + unat off * 4"
      using base db o by (subst unat_plus_if') simp
    then show ?thesis using base o by (subst csm_read_ok) simp_all
  qed
  show ?case using Cons 1 2 by (auto simp: Let_def)
qed simp

lemma table_entries_ok:
  fixes a :: u64 and n :: u32
  assumes b: "0x10000000 \<le> unat a" "unat a < 0x10080000" and al: "4 dvd unat a"
    and fits: "unat n * 8 + 8 \<le> unat (ARC_CSM_BASE + ARC_CSM_SIZE) - unat a"
  shows "\<exists>es. read_entries (Some i) (a + 8) (a + 8 + ucast n * 4) [0..<unat n] = Inr es"
proof (rule read_entries_ok [of _ "unat a" _ "unat n"])
  have u8: "unat (a + 8) = unat a + 8" using b by (subst unat_plus_if'; simp)
  have f: "unat a + 8 + 8 * unat n \<le> 0x10080000" using fits b by (simp add: telemetry_consts)
  then show "unat a + 8 + 8 * unat n \<le> 0x10080000" .
  have "unat (ucast n * 4 :: u64) = unat n * 4" using f by (simp add: unat_word_ariths)
  then show "unat (a + 8 + ucast n * 4) = unat a + 8 + 4 * unat n"
    using u8 f by (subst unat_plus_if') simp
  show "unat (a + 8) = unat a + 8" by (rule u8)
qed (use b al in auto)

text \<open>
  C40. Reading the telemetry trips an assertion of the window in exactly one case. Whatever the firmware has
  left in its memory, the walk ends with a decoded table or with one of the reader's own errors, except
  when the pointer register holds an address in the accepted range that is not a multiple of four: then
  the first read of the table panics. In particular no read leaves the 2 MiB window.
\<close>

theorem telemetry_walk_in_window:
  "read_telemetry (Some i) = Inl (Chip_Error e) \<longleftrightarrow>
    (let a = ucast (reset_words i ARC_TELEMETRY_PTR_ADDR) :: u64
     in ARC_CSM_BASE \<le> a \<and> a < ARC_CSM_BASE + ARC_CSM_SIZE \<and> \<not> 4 dvd unat a \<and> e = Window_Unaligned (a - CSM_WINDOW_BASE))"
proof -
  let ?ptr = "reset_words i ARC_TELEMETRY_PTR_ADDR"
  let ?a = "ucast ?ptr :: u64"
  have p: "arc_read32 ARC_TELEMETRY_PTR_ADDR (Some i) = Inr ?ptr"
    by (simp add: arc_read32_def reset_window_offset_def word_offset_def chip_consts telemetry_consts)
  show ?thesis
  proof (cases "ARC_CSM_BASE \<le> ?a \<and> ?a < ARC_CSM_BASE + ARC_CSM_SIZE")
    case False
    then show ?thesis by (auto simp: read_telemetry_def p Let_def)
  next
    case True
    then have b: "0x10000000 \<le> unat ?a" "unat ?a < 0x10080000"
      by (simp_all add: telemetry_consts word_le_nat_alt word_less_nat_alt)
    then have nz: "?ptr \<noteq> 0" by auto
    have r1: "csm_read32 ?a (Some i) =
        (if 4 dvd unat ?a then Inr (csm_words i ?a) else Inl (Window_Unaligned (?a - CSM_WINDOW_BASE)))"
      using b by (intro csm_read_ok) simp_all
    show ?thesis
    proof (cases "4 dvd unat ?a")
      case False
      then show ?thesis using True nz r1 by (auto simp: read_telemetry_def p Let_def)
    next
      case al: True
      have u4: "unat (?a + 4) = unat ?a + 4" using b by (subst unat_plus_if'; simp)
      have "4 dvd unat (?a + 4)" using al unfolding u4 by simp
      then have r2: "csm_read32 (?a + 4) (Some i) = Inr (csm_words i (?a + 4))"
        using b u4 by (subst csm_read_ok) simp_all
      show ?thesis
        using table_entries_ok [OF b al, of "csm_words i (?a + 4)" i] True al r1
        by (auto simp: read_telemetry_def p r2 Let_def not_less)
    qed
  qed
qed

text \<open>
  The bound on the entry count does not keep the walk inside the firmware's memory, because the offset
  of an entry is not checked: a table at the end of the memory, with one entry, takes the harvesting state
  from 256 KiB behind the end.
\<close>

definition stray_chip :: "u32 \<Rightarrow> chip_inner" where
  "stray_chip v = \<lparr>reset_words = (\<lambda>a. if a = ARC_TELEMETRY_PTR_ADDR then 0x1007FFF0 else 0),
     csm_words = (\<lambda>a. if a = 0x1007FFF0 then 0x10000 else if a = 0x1007FFF4 then 1
       else if a = 0x1007FFF8 then 0xFFFF0004 else if a = 0x100BFFF8 then v else 0)\<rparr>"

theorem telemetry_reads_past_csm:
  "ARC_CSM_BASE + ARC_CSM_SIZE \<le> 0x100BFFF8 \<and>
   (\<exists>t. read_telemetry (Some (stray_chip v)) = Inr t \<and> harvesting_state t = csm_words (stray_chip v) 0x100BFFF8)"
proof -
  have p: "arc_read32 ARC_TELEMETRY_PTR_ADDR (Some (stray_chip v)) = Inr 0x1007FFF0"
    by (simp add: arc_read32_def reset_window_offset_def word_offset_def chip_consts telemetry_consts stray_chip_def)
  have r: "csm_read32 a (Some (stray_chip v)) = Inr (csm_words (stray_chip v) a)"
    if "a \<in> {0x1007FFF0, 0x1007FFF4, 0x1007FFF8, 0x100BFFF8}" for a
    using that by (subst csm_read_ok) auto
  have w: "csm_words (stray_chip v) 0x1007FFF0 = 0x10000" "csm_words (stray_chip v) 0x1007FFF4 = 1"
    "csm_words (stray_chip v) 0x1007FFF8 = 0xFFFF0004" "csm_words (stray_chip v) 0x100BFFF8 = v"
    by (simp_all add: stray_chip_def)
  have "read_entries (Some (stray_chip v)) 0x1007FFF8 0x1007FFFC [0] = Inr [\<lparr>te_tag = 4, te_offset = 0xFFFF, te_data = v\<rparr>]"
    by (simp add: r w Let_def)
  then have "read_telemetry (Some (stray_chip v)) = Inr (decode_entries 0x10000 1 [\<lparr>te_tag = 4, te_offset = 0xFFFF, te_data = v\<rparr>])"
    by (simp add: read_telemetry_def p r w Let_def ARC_CSM_BASE_def ARC_CSM_SIZE_def)
  moreover have "harvesting_state (decode_entries 0x10000 1 [\<lparr>te_tag = 4, te_offset = 0xFFFF, te_data = v\<rparr>]) = v"
    using decode_last_entry_wins [of "0x10000" 1 "[\<lparr>te_tag = 4, te_offset = 0xFFFF, te_data = v\<rparr>]"] by (simp add: last_data_def)
  ultimately show ?thesis using w(4) by (simp add: telemetry_consts)
qed

end
