(* ===== verification/Tile_Picker.thy ===== *)
theory Tile_Picker
  imports Telemetry
begin

text \<open>
  The choice of the Tensix tile that hosts the virtio engine (\<open>src/src/tensix_tile.rs\<close>): the working rows and
  columns of a chip, the picked tile and its translated coordinates.
\<close>

section \<open>Model\<close>

definition TENSIX_COLS_NOC0 :: "u16 list" where
  "TENSIX_COLS_NOC0 = [1, 2, 3, 4, 5, 6, 7, 10, 11, 12, 13, 14, 15, 16]"

definition TENSIX_ROWS_NOC0 :: "u16 list" where
  "TENSIX_ROWS_NOC0 = [2, 3, 4, 5, 6, 7, 8, 9, 10, 11]"

text \<open>\<open>count_ones\<close>.\<close>

definition count_ones :: "u32 \<Rightarrow> nat" where
  "count_ones w = length (filter (bit w) [0..<32])"

definition working_tensix_cols :: "u32 \<Rightarrow> bool \<Rightarrow> u16 list" where
  "working_tensix_cols enabled_mask noc_translation =
     (if noc_translation then
        (let working = count_ones enabled_mask
         in filter (\<lambda>x. (if x \<le> 7 then unat x - 1 else unat x - 3) < working) TENSIX_COLS_NOC0)
      else
        map snd (filter (\<lambda>(i, x). enabled_mask AND push_bit i 1 \<noteq> 0) (enumerate 0 TENSIX_COLS_NOC0)))"

definition working_tensix_rows :: "u32 \<Rightarrow> u16 list" where
  "working_tensix_rows harvesting =
     map snd (filter (\<lambda>(i, y). harvesting AND push_bit i 1 = 0) (enumerate 0 TENSIX_ROWS_NOC0))"

definition harvested_tensix_rows :: "u32 \<Rightarrow> u16 list" where
  "harvested_tensix_rows harvesting =
     map snd (filter (\<lambda>(i, y). harvesting AND push_bit i 1 \<noteq> 0) (enumerate 0 TENSIX_ROWS_NOC0))"

text \<open>The loop of \<open>noc0_to_translated_tensix\<close> over the positions, with the running \<open>logical_x\<close>.\<close>

fun translate_walk :: "nat \<Rightarrow> nat \<Rightarrow> nat \<Rightarrow> nat list \<Rightarrow> u16 option" where
  "translate_walk pos enabled_count logical_x [] = None"
| "translate_walk pos enabled_count logical_x (i # is) =
     (if i = pos then
        (if logical_x \<ge> enabled_count then None
         else if logical_x < length TENSIX_COLS_NOC0 then Some (TENSIX_COLS_NOC0 ! logical_x) else None)
      else translate_walk pos enabled_count (if i < enabled_count then logical_x + 1 else logical_x) is)"

definition position :: "'a list \<Rightarrow> 'a \<Rightarrow> nat option" where
  "position xs v = (case filter (\<lambda>(i, x). x = v) (enumerate 0 xs) of [] \<Rightarrow> None | (i, _) # _ \<Rightarrow> Some i)"

definition noc0_to_translated_tensix :: "u16 \<Rightarrow> u16 \<Rightarrow> u32 \<Rightarrow> bool \<Rightarrow> (u16 \<times> u16) option" where
  "noc0_to_translated_tensix noc0_x noc0_y enabled_mask noc_translation =
     (if \<not> noc_translation then Some (noc0_x, noc0_y)
      else case position TENSIX_COLS_NOC0 noc0_x of
             None \<Rightarrow> None
           | Some pos \<Rightarrow>
               map_option (\<lambda>x. (x, noc0_y))
                 (translate_walk pos (count_ones enabled_mask) 0 [0..<length TENSIX_COLS_NOC0]))"

datatype pick_error = NoWorkingCols u32 bool | NoWorkingRows u32

datatype pick_reason = HarvestedRowCorner | BottomRightCorner

record picked_tile =
  pt_x :: u16
  pt_y :: u16
  pt_reason :: pick_reason

definition pick_virtio_engine_tile :: "telemetry \<Rightarrow> pick_error + picked_tile" where
  "pick_virtio_engine_tile telem =
     (let cols = working_tensix_cols (enabled_tensix_col telem) (noc_translation_enabled telem)
      in if cols = [] then Inl (NoWorkingCols (enabled_tensix_col telem) (noc_translation_enabled telem))
      else let rows = working_tensix_rows (harvesting_state telem)
      in if rows = [] then Inl (NoWorkingRows (harvesting_state telem))
      else let x = List.last cols; harvested = harvested_tensix_rows (harvesting_state telem)
      in case harvested of
           y # _ \<Rightarrow> Inr \<lparr>pt_x = x, pt_y = y, pt_reason = HarvestedRowCorner\<rparr>
         | [] \<Rightarrow> Inr \<lparr>pt_x = x, pt_y = List.last rows, pt_reason = BottomRightCorner\<rparr>)"

section \<open>Translation\<close>

lemma position_SomeD:
  assumes "position xs v = Some pos"
  shows "pos < length xs" "xs ! pos = v"
proof -
  obtain y rest where f: "filter (\<lambda>(i, x). x = v) (enumerate 0 xs) = (pos, y) # rest"
    using assms by (auto simp: position_def split: list.splits prod.splits)
  then have "(pos, y) \<in> set (filter (\<lambda>(i, x). x = v) (enumerate 0 xs))" by simp
  then show "pos < length xs" "xs ! pos = v" by (auto simp: in_set_enumerate_eq)
qed

lemma position_ex: "v \<in> set xs \<Longrightarrow> \<exists>pos. position xs v = Some pos"
proof -
  assume "v \<in> set xs"
  then obtain i where "i < length xs" "xs ! i = v" by (auto simp: in_set_conv_nth)
  then have "(i, v) \<in> set (filter (\<lambda>(i, x). x = v) (enumerate 0 xs))" by (auto simp: in_set_enumerate_eq)
  then show ?thesis by (cases "filter (\<lambda>(i, x). x = v) (enumerate 0 xs)") (auto simp: position_def)
qed

lemma length_cols [simp]: "length TENSIX_COLS_NOC0 = 14" "distinct TENSIX_COLS_NOC0"
  by (simp_all add: TENSIX_COLS_NOC0_def)

lemma translate_walk_result:
  "start \<le> pos \<Longrightarrow> pos < 14 \<Longrightarrow>
   translate_walk pos n (min start n) [start..<14] = (if pos < n then Some (TENSIX_COLS_NOC0 ! pos) else None)"
proof (induction "14 - start" arbitrary: start)
  case (Suc k)
  have e: "[start..<14] = start # [Suc start..<14]" using Suc.hyps(2) by (intro upt_conv_Cons) simp
  have m: "(if start < n then min start n + 1 else min start n) = min (Suc start) n" by simp
  show ?case
  proof (cases "start = pos")
    case True
    then show ?thesis unfolding e translate_walk.simps using Suc.prems by simp
  next
    case False
    have "k = 14 - Suc start" "Suc start \<le> pos" using Suc.hyps(2) Suc.prems(1) False by simp_all
    from Suc.hyps(1) [OF this Suc.prems(2)] show ?thesis unfolding e translate_walk.simps m using False by simp
  qed
qed simp

text \<open>
  Translation never moves a column: with translation enabled the result is the coordinate itself when
  the column's position is below the number of enabled columns, and nothing otherwise. Which columns are
  harvested does not enter, only how many.
\<close>

theorem translation_is_identity:
  "noc0_to_translated_tensix x y enabled_mask noc_translation =
    (if \<not> noc_translation then Some (x, y)
     else case position TENSIX_COLS_NOC0 x of
            Some pos \<Rightarrow> (if pos < count_ones enabled_mask then Some (x, y) else None)
          | None \<Rightarrow> None)"
proof (cases "position TENSIX_COLS_NOC0 x")
  case (Some pos)
  then have "translate_walk pos (count_ones enabled_mask) 0 [0..<14] = (if pos < count_ones enabled_mask then Some x else None)"
    using translate_walk_result [of 0 pos "count_ones enabled_mask"] position_SomeD [OF Some] by simp
  then show ?thesis using Some by (simp add: noc0_to_translated_tensix_def)
qed (simp add: noc0_to_translated_tensix_def)

section \<open>The picked tile\<close>

lemma working_cols_position:
  assumes "x \<in> set (working_tensix_cols enabled_mask True)"
  shows "\<exists>pos. position TENSIX_COLS_NOC0 x = Some pos \<and> pos < count_ones enabled_mask"
proof -
  have x: "x \<in> set TENSIX_COLS_NOC0" "(if x \<le> 7 then unat x - 1 else unat x - 3) < count_ones enabled_mask"
    using assms by (auto simp: working_tensix_cols_def Let_def)
  obtain pos where pos: "position TENSIX_COLS_NOC0 x = Some pos" using position_ex [OF x(1)] by blast
  let ?idx = "\<lambda>x :: u16. if x \<le> 7 then unat x - 1 else unat x - 3"
  have "map ?idx TENSIX_COLS_NOC0 = [0, 1, 2, 3, 4, 5, 6, 7, 8, 9, 10, 11, 12, 13]" by (simp add: TENSIX_COLS_NOC0_def)
  also have "\<dots> = [0..<14]" by (simp add: upt_rec)
  finally have idx: "map ?idx TENSIX_COLS_NOC0 = [0..<14]" .
  have p: "pos < 14" "TENSIX_COLS_NOC0 ! pos = x" using position_SomeD [OF pos] by simp_all
  then have "?idx x = map ?idx TENSIX_COLS_NOC0 ! pos" by simp
  also have "\<dots> = pos" unfolding idx using p(1) by simp
  finally have "pos < count_ones enabled_mask" using x(2) by simp
  then show ?thesis using pos by simp
qed

lemma working_cols_sub: "set (working_tensix_cols enabled_mask t) \<subseteq> set TENSIX_COLS_NOC0"
  by (auto simp: working_tensix_cols_def Let_def in_set_enumerate_eq)

lemma rows_sub:
  "set (working_tensix_rows h) \<subseteq> set TENSIX_ROWS_NOC0" "set (harvested_tensix_rows h) \<subseteq> set TENSIX_ROWS_NOC0"
  by (auto simp: working_tensix_rows_def harvested_tensix_rows_def in_set_enumerate_eq)

lemma working_col_translates:
  assumes "x \<in> set (working_tensix_cols m tr)"
  shows "noc0_to_translated_tensix x y m tr = Some (x, y)"
proof (cases tr)
  case True
  then show ?thesis using assms working_cols_position [of x m] by (auto simp: translation_is_identity)
next
  case False
  then show ?thesis by (simp add: noc0_to_translated_tensix_def)
qed

lemma picked_translates:
  assumes "pick_virtio_engine_tile telem = Inr t"
  shows "noc0_to_translated_tensix (pt_x t) (pt_y t) (enabled_tensix_col telem) (noc_translation_enabled telem) =
    Some (pt_x t, pt_y t)"
proof (rule working_col_translates)
  let ?cols = "working_tensix_cols (enabled_tensix_col telem) (noc_translation_enabled telem)"
  have "?cols \<noteq> []" and "pt_x t = List.last ?cols"
    using assms by (auto simp: pick_virtio_engine_tile_def Let_def split: if_splits list.splits)
  then show "pt_x t \<in> set ?cols" by simp
qed

text \<open>
  A picked tile can be programmed. Whatever the telemetry says, a tile that the picker returns is in
  the Tensix grid, has translated coordinates, namely its own, and lies in a harvested row exactly when
  the chip has one; the picker fails only when the masks leave no column or no row.
\<close>

theorem picked_tile_is_reachable:
  "case pick_virtio_engine_tile telem of
     Inr t \<Rightarrow>
       pt_x t \<in> set TENSIX_COLS_NOC0 \<and> pt_y t \<in> set TENSIX_ROWS_NOC0 \<and>
       noc0_to_translated_tensix (pt_x t) (pt_y t) (enabled_tensix_col telem) (noc_translation_enabled telem) = Some (pt_x t, pt_y t) \<and>
       (pt_y t \<in> set (harvested_tensix_rows (harvesting_state telem)) \<longleftrightarrow> harvested_tensix_rows (harvesting_state telem) \<noteq> [])
   | Inl (NoWorkingCols m tr) \<Rightarrow> working_tensix_cols m tr = [] \<and> m = enabled_tensix_col telem \<and> tr = noc_translation_enabled telem
   | Inl (NoWorkingRows h) \<Rightarrow> working_tensix_rows h = [] \<and> h = harvesting_state telem"
proof -
  let ?cols = "working_tensix_cols (enabled_tensix_col telem) (noc_translation_enabled telem)"
  let ?rows = "working_tensix_rows (harvesting_state telem)" and ?harv = "harvested_tensix_rows (harvesting_state telem)"
  show ?thesis
  proof (cases "?cols = [] \<or> ?rows = []")
    case True
    then show ?thesis by (auto simp: pick_virtio_engine_tile_def Let_def)
  next
    case False
    then have x: "List.last ?cols \<in> set ?cols" and y: "List.last ?rows \<in> set ?rows" by simp_all
    have "List.last ?cols \<in> set TENSIX_COLS_NOC0" "List.last ?rows \<in> set TENSIX_ROWS_NOC0"
      using x y working_cols_sub rows_sub(1) by blast+
    moreover have "hd ?harv \<in> set TENSIX_ROWS_NOC0" if "?harv \<noteq> []" using that rows_sub(2) hd_in_set by blast
    ultimately show ?thesis using False working_col_translates [OF x]
      by (cases ?harv) (auto simp: pick_virtio_engine_tile_def Let_def)
  qed
qed

section \<open>The documented translation\<close>

text \<open>
  What the comment of \<open>noc0_to_translated_tensix\<close> describes: the enabled columns, bit by bit of the mask, are
  numbered from the left, and a column goes to the place of its number.
\<close>

definition enabled_before :: "u32 \<Rightarrow> nat \<Rightarrow> nat" where
  "enabled_before enabled_mask pos = length (filter (bit enabled_mask) [0..<pos])"

definition reference_translation :: "u16 \<Rightarrow> u16 \<Rightarrow> u32 \<Rightarrow> (u16 \<times> u16) option" where
  "reference_translation x y enabled_mask =
     (case position TENSIX_COLS_NOC0 x of
        None \<Rightarrow> None
      | Some pos \<Rightarrow> if bit enabled_mask pos then Some (TENSIX_COLS_NOC0 ! enabled_before enabled_mask pos, y) else None)"

lemma enabled_before_all: "enabled_before m pos \<le> pos" "enabled_before m pos = pos \<longleftrightarrow> (\<forall>i < pos. bit m i)"
proof -
  show "enabled_before m pos \<le> pos" using length_filter_le [of "bit m" "[0..<pos]"] by (simp add: enabled_before_def)
  have "length (filter (bit m) [0..<pos]) = length [0..<pos] \<longleftrightarrow> (\<forall>i \<in> set [0..<pos]. bit m i)"
    by (metis filter_id_conv length_filter_less nless_le)
  then show "enabled_before m pos = pos \<longleftrightarrow> (\<forall>i < pos. bit m i)" by (auto simp: enabled_before_def)
qed

lemma cols_increase: "i < 14 \<Longrightarrow> j < 14 \<Longrightarrow> TENSIX_COLS_NOC0 ! i \<le> TENSIX_COLS_NOC0 ! j \<longleftrightarrow> i \<le> j"
proof -
  have "sorted_wrt (<) TENSIX_COLS_NOC0" by (simp add: TENSIX_COLS_NOC0_def)
  then have "i < j \<Longrightarrow> j < 14 \<Longrightarrow> TENSIX_COLS_NOC0 ! i < TENSIX_COLS_NOC0 ! j" for i j
    by (simp add: sorted_wrt_iff_nth_less)
  then show "i < 14 \<Longrightarrow> j < 14 \<Longrightarrow> TENSIX_COLS_NOC0 ! i \<le> TENSIX_COLS_NOC0 ! j \<longleftrightarrow> i \<le> j"
    by (metis linorder_not_less nle_le)
qed

text \<open>The documented translation leaves a column alone exactly when it and all columns left of it are enabled.\<close>

lemma reference_keeps_column:
  assumes "x \<in> set TENSIX_COLS_NOC0"
  shows "reference_translation x y m = Some (x, y) \<longleftrightarrow> (\<forall>i < 14. TENSIX_COLS_NOC0 ! i \<le> x \<longrightarrow> bit m i)"
proof -
  obtain pos where p: "position TENSIX_COLS_NOC0 x = Some pos" using position_ex [OF assms] by blast
  note q = position_SomeD [OF p, simplified]
  have "(TENSIX_COLS_NOC0 ! enabled_before m pos = x) = (enabled_before m pos = pos)"
    using q enabled_before_all(1) [of m pos] by (metis length_cols nth_eq_iff_index_eq order_le_less_trans)
  moreover have "(\<forall>i < 14. TENSIX_COLS_NOC0 ! i \<le> x \<longrightarrow> bit m i) \<longleftrightarrow> (\<forall>i \<le> pos. bit m i)"
    using q cols_increase by (metis order_le_less_trans)
  moreover have "(\<forall>i \<le> pos. bit m i) \<longleftrightarrow> bit m pos \<and> (\<forall>i < pos. bit m i)" by (auto simp: le_less)
  ultimately show ?thesis by (auto simp: reference_translation_def p enabled_before_all(2))
qed

text \<open>The example of the comment: with column 1 harvested, (14, 11) should go to (13, 11), and it stays.\<close>

lemma harvested_column_1:
  "reference_translation 14 11 0x1FFE = Some (13, 11)" "noc0_to_translated_tensix 14 11 0x1FFE True = Some (14, 11)"
proof -
  have p: "position TENSIX_COLS_NOC0 14 = Some 11" by (simp add: position_def TENSIX_COLS_NOC0_def)
  have "enabled_before 0x1FFE 11 = 10" by (simp add: enabled_before_def upt_rec)
  then show "reference_translation 14 11 0x1FFE = Some (13, 11)"
    by (simp add: reference_translation_def p) (simp add: TENSIX_COLS_NOC0_def)
  have "count_ones 0x1FFE = 12" by (simp add: count_ones_def upt_rec)
  then show "noc0_to_translated_tensix 14 11 0x1FFE True = Some (14, 11)" by (simp add: translation_is_identity p)
qed

end
