(* ===== verification/Tensix_Engine.thy ===== *)
theory Tensix_Engine
  imports Firmware_Sweep Uart_Feed Layout_Host Tile_Picker
begin

text \<open>
  Bringing up the tile that runs the firmware: the access to its L1 and its reset registers
  (\<open>src/src/tensix.rs\<close>) and \<open>TensixEngine::bring_up\<close> and \<open>adopt_running\<close> of \<open>src/src/tensix_engine.rs\<close>. The
  lemmas show what the tile holds when BRISC leaves reset, that the engine is on the picked tile, that it comes up
  when the tile runs the firmware, which running firmware a restarted daemon adopts, and how a hello can get lost.
\<close>

section \<open>The tile\<close>

definition SOFT_RESET_BRISC :: u32 where "SOFT_RESET_BRISC = push_bit 11 1"
definition SOFT_RESET_TRISC0 :: u32 where "SOFT_RESET_TRISC0 = push_bit 12 1"
definition SOFT_RESET_TRISC1 :: u32 where "SOFT_RESET_TRISC1 = push_bit 13 1"
definition SOFT_RESET_TRISC2 :: u32 where "SOFT_RESET_TRISC2 = push_bit 14 1"
definition SOFT_RESET_NCRISC :: u32 where "SOFT_RESET_NCRISC = push_bit 18 1"

definition SOFT_RESET_ALL :: u32 where
  "SOFT_RESET_ALL =
     SOFT_RESET_BRISC OR SOFT_RESET_TRISC0 OR SOFT_RESET_TRISC1 OR SOFT_RESET_TRISC2 OR SOFT_RESET_NCRISC"

definition SOFT_RESET_ALL_EXCEPT_BRISC :: u32 where
  "SOFT_RESET_ALL_EXCEPT_BRISC = SOFT_RESET_ALL AND NOT SOFT_RESET_BRISC"

lemmas soft_reset_defs = SOFT_RESET_BRISC_def SOFT_RESET_TRISC0_def SOFT_RESET_TRISC1_def
  SOFT_RESET_TRISC2_def SOFT_RESET_NCRISC_def SOFT_RESET_ALL_def SOFT_RESET_ALL_EXCEPT_BRISC_def

text \<open>
  \<open>t_reset_pc n\<close> is the reset PC register of TRISC \<open>n\<close>, \<open>t_override\<close> the register with the three enable
  bits.
\<close>

record tile =
  t_l1 :: guest_mem
  t_soft_reset :: u32
  t_reset_pc :: "nat \<Rightarrow> u32"
  t_override :: u32

text \<open>The accessors assert that the word lies in L1; a failed assertion is \<open>None\<close>.\<close>

definition read_l1_u32 :: "nat \<Rightarrow> tile \<Rightarrow> u32 option" where
  "read_l1_u32 offset t = (if offset + 4 \<le> TENSIX_L1_SIZE then Some (gm_u32 (t_l1 t) offset) else None)"

definition write_l1_u32 :: "nat \<Rightarrow> u32 \<Rightarrow> tile \<Rightarrow> tile option" where
  "write_l1_u32 offset value t =
     (if offset + 4 \<le> TENSIX_L1_SIZE then Some (t\<lparr>t_l1 := gm_store offset (le_bytes 4 value) (t_l1 t)\<rparr>) else None)"

definition assert_all_resets :: "tile \<Rightarrow> tile" where
  "assert_all_resets t = t\<lparr>t_soft_reset := SOFT_RESET_ALL\<rparr>"

definition release_brisc_only :: "tile \<Rightarrow> tile" where
  "release_brisc_only t = t\<lparr>t_soft_reset := SOFT_RESET_ALL_EXCEPT_BRISC\<rparr>"

text \<open>
  The setters and readers of the three TRISCs differ in the register and in the place of the entry
  address in L1: 0x4, 0x8 and 0xC.
\<close>

definition set_trisc_reset_pc :: "nat \<Rightarrow> u32 \<Rightarrow> tile \<Rightarrow> tile" where
  "set_trisc_reset_pc n pc t = t\<lparr>t_reset_pc := (t_reset_pc t)(n := pc)\<rparr>"

definition enable_trisc_reset_pc_override :: "nat \<Rightarrow> tile \<Rightarrow> tile" where
  "enable_trisc_reset_pc_override n t = t\<lparr>t_override := t_override t OR push_bit n 1\<rparr>"

definition read_trisc_reset_entry :: "nat \<Rightarrow> tile \<Rightarrow> u32 option" where
  "read_trisc_reset_entry n t = read_l1_u32 (4 * (n + 1)) t"

text \<open>The image in words of four bytes, the last one padded with zeros.\<close>

fun load_chunks :: "nat \<Rightarrow> u8 list \<Rightarrow> guest_mem \<Rightarrow> guest_mem" where
  "load_chunks i (b0 # b1 # b2 # b3 # rest) m =
     load_chunks (i + 1) rest (gm_store (i * 4) (le_bytes 4 (of_le_bytes [b0, b1, b2, b3] :: u32)) m)"
| "load_chunks i [] m = m"
| "load_chunks i rest m =
     gm_store (i * 4) (le_bytes 4 (of_le_bytes (take 4 (rest @ replicate 4 0)) :: u32)) m"

definition load_brisc_firmware :: "u8 list \<Rightarrow> tile \<Rightarrow> tile option" where
  "load_brisc_firmware firmware t =
     (if length firmware \<le> TENSIX_L1_SIZE then Some (t\<lparr>t_l1 := load_chunks 0 firmware (t_l1 t)\<rparr>) else None)"

section \<open>Bring-up\<close>

fun write_all :: "(nat \<times> u32) list \<Rightarrow> tile \<Rightarrow> tile option" where
  "write_all [] t = Some t"
| "write_all ((a, v) # ws) t = Option.bind (write_l1_u32 a v t) (write_all ws)"

definition reg_file_words :: "nat list" where
  "reg_file_words = concat (map (\<lambda>slot. map (\<lambda>k. slot_regs_base slot + 4 * k) [0..<REGS_PER_DEV div 4]) [0..<NUM_SLOTS])"

definition override_trisc :: "nat \<Rightarrow> tile \<Rightarrow> tile option" where
  "override_trisc n t =
     Option.bind (read_trisc_reset_entry n t) (\<lambda>pc.
       Some (if pc \<noteq> 0 then enable_trisc_reset_pc_override n (set_trisc_reset_pc n pc t) else t))"

text \<open>From the halt of the cores to the release of BRISC.\<close>

definition prepare_tile :: "u8 list \<Rightarrow> tile \<Rightarrow> tile option" where
  "prepare_tile firmware t =
     Option.bind (write_all (map (\<lambda>a. (a, 0)) reg_file_words) (assert_all_resets t)) (\<lambda>t.
     Option.bind (load_brisc_firmware firmware t) (\<lambda>t.
     Option.bind (override_trisc 0 t) (\<lambda>t.
     Option.bind (override_trisc 1 t) (\<lambda>t.
     Option.bind (override_trisc 2 t) (\<lambda>t. Some (release_brisc_only t))))))"

text \<open>\<open>warn_if_tile_appears_busy\<close>: whether the warning is printed.\<close>

definition TT_BH_BRISC_FIRMWARE_FIRST_WORD :: u32 where "TT_BH_BRISC_FIRMWARE_FIRST_WORD = 0x0800006f"

definition tile_appears_busy :: "guest_mem \<Rightarrow> bool" where
  "tile_appears_busy m =
     (let buf = map (\<lambda>i. gm_u32 m (i * 4)) [0, 1, 2, 3]
      in \<not> list_all (\<lambda>w. w = 0) buf \<and> hd buf \<noteq> TT_BH_BRISC_FIRMWARE_FIRST_WORD)"

record engine =
  e_noc0_x :: u16
  e_noc0_y :: u16
  e_translated_x :: u16
  e_translated_y :: u16
  e_firmware_version :: u32
  e_protocol_version :: u32

text \<open>\<open>SharedChip::dup_fd\<close> and \<open>TensixTile::new_with_dup_fd\<close> fail with errors of their own.\<close>

datatype open_error = Dup_Fd string | Open_Tensix_Tile string

datatype engine_error =
    Read_Telemetry telemetry_error
  | Pick_Tile pick_error
  | No_Translated_Form u16 u16
  | Open_Tile open_error
  | Assertion_Failed
  | Stats_Magic_Timeout u32
  | Handshake handshake_error
  | Firmware_Not_Running u32
  | Wrong_Protocol u32
  | Wrong_Build_Id u32

text \<open>
  Choosing the tile, shared by both ways to get an engine. \<open>open_tile\<close> is the answer of the kernel driver
  to the two requests for a mapping of the tile. A failed assertion of the telemetry reader is a panic.
\<close>

fun telemetry_panics :: "telemetry_error \<Rightarrow> bool" where
  "telemetry_panics (Chip_Error e) = chip_panics e"
| "telemetry_panics _ = False"

definition choose_tile ::
    "chip \<Rightarrow> (u16 \<Rightarrow> u16 \<Rightarrow> open_error + tile) \<Rightarrow> engine_error + (u16 \<times> u16) \<times> (u16 \<times> u16) \<times> tile" where
  "choose_tile chip open_tile =
     (case read_telemetry chip of Inl e \<Rightarrow> Inl (if telemetry_panics e then Assertion_Failed else Read_Telemetry e) | Inr telem \<Rightarrow>
     (case pick_virtio_engine_tile telem of Inl e \<Rightarrow> Inl (Pick_Tile e) | Inr picked \<Rightarrow>
     (case noc0_to_translated_tensix (pt_x picked) (pt_y picked) (enabled_tensix_col telem) (noc_translation_enabled telem) of
        None \<Rightarrow> Inl (No_Translated_Form (pt_x picked) (pt_y picked))
      | Some translated \<Rightarrow>
     (case open_tile (pt_x picked) (pt_y picked) of Inl e \<Rightarrow> Inl (Open_Tile e)
      | Inr t \<Rightarrow> Inr ((pt_x picked, pt_y picked), translated, t)))))"

text \<open>
  The wait for the magic word of the statistics page. \<open>l1_at i\<close> is what the \<open>i\<close>-th read sees, \<open>polls\<close> the
  number of reads before the first one after the timeout; a word that is not the magic is the error.
\<close>

fun await_stats_magic :: "(nat \<Rightarrow> guest_mem) \<Rightarrow> nat \<Rightarrow> nat \<Rightarrow> u32 option" where
  "await_stats_magic l1_at i 0 =
     (if word (l1_at i) (Stat STATS_OFF_MAGIC) = STATS_MAGIC_LOADED then None
      else Some (word (l1_at i) (Stat STATS_OFF_MAGIC)))"
| "await_stats_magic l1_at i (Suc polls) =
     (if word (l1_at i) (Stat STATS_OFF_MAGIC) = STATS_MAGIC_LOADED then None
      else await_stats_magic l1_at (Suc i) polls)"

definition stamped_version :: "u32 \<Rightarrow> u32" where
  "stamped_version fw_build_id = push_bit 8 fw_build_id OR TENSIX_PROTOCOL_VERSION"

text \<open>
  What the daemon reads while the firmware runs is a parameter: \<open>boots t i\<close> is L1 at the \<open>i\<close>-th read after
  BRISC has left reset on the tile \<open>t\<close>, and \<open>acks t sts i\<close> is L1 at the \<open>i\<close>-th read after the daemon has then
  stored the words \<open>sts\<close>. The result is the engine with the tile as it was when BRISC left reset and the
  words the daemon has stored since.
\<close>

definition bring_up ::
    "chip \<Rightarrow> (u16 \<Rightarrow> u16 \<Rightarrow> open_error + tile) \<Rightarrow> u8 list \<Rightarrow> u32 \<Rightarrow> (tile \<Rightarrow> nat \<Rightarrow> guest_mem) \<Rightarrow> nat
       \<Rightarrow> (tile \<Rightarrow> (nat \<times> u32) list \<Rightarrow> nat \<Rightarrow> guest_mem) \<Rightarrow> nat
       \<Rightarrow> engine_error + engine \<times> tile \<times> (nat \<times> u32) list" where
  "bring_up chip open_tile firmware fw_build_id boots boot_polls acks ack_polls =
     (case choose_tile chip open_tile of Inl e \<Rightarrow> Inl e | Inr ((x, y), (tx, ty), t) \<Rightarrow>
     (case prepare_tile firmware t of None \<Rightarrow> Inl Assertion_Failed | Some t' \<Rightarrow>
     (case await_stats_magic (boots t') 0 boot_polls of Some m \<Rightarrow> Inl (Stats_Magic_Timeout m) | None \<Rightarrow>
     (let sts = (stat_addr STATS_OFF_VERSION, stamped_version fw_build_id) # hello_stores
      in case run_handshake (acks t' sts) ack_polls of
           Inl e \<Rightarrow> Inl (Handshake e)
         | Inr (firmware_version, protocol_version) \<Rightarrow>
             Inr (\<lparr>e_noc0_x = x, e_noc0_y = y, e_translated_x = tx, e_translated_y = ty,
                   e_firmware_version = firmware_version, e_protocol_version = protocol_version\<rparr>, t', sts)))))"

definition adopt_running :: "chip \<Rightarrow> (u16 \<Rightarrow> u16 \<Rightarrow> open_error + tile) \<Rightarrow> u32 \<Rightarrow> engine_error + engine" where
  "adopt_running chip open_tile fw_build_id =
     (case choose_tile chip open_tile of Inl e \<Rightarrow> Inl e | Inr ((x, y), (tx, ty), t) \<Rightarrow>
      let stats_magic = word (t_l1 t) (Stat STATS_OFF_MAGIC) in
      if stats_magic \<noteq> STATS_MAGIC_LOADED then Inl (Firmware_Not_Running stats_magic)
      else
        let firmware_version = word (t_l1 t) (Stat STATS_OFF_VERSION);
            firmware_protocol = firmware_version AND 0xff;
            firmware_build_id = drop_bit 8 firmware_version AND 0x00ffffff;
            expected_build_id = fw_build_id AND 0x00ffffff
        in if firmware_protocol \<noteq> TENSIX_PROTOCOL_VERSION then Inl (Wrong_Protocol firmware_protocol)
           else if firmware_build_id \<noteq> expected_build_id then Inl (Wrong_Build_Id firmware_build_id)
           else Inr \<lparr>e_noc0_x = x, e_noc0_y = y, e_translated_x = tx, e_translated_y = ty,
              e_firmware_version = firmware_version, e_protocol_version = firmware_protocol\<rparr>)"

text \<open>\<open>main\<close> of the firmware up to its endless loop.\<close>

definition boot_init :: "u32 \<Rightarrow> unit fwm" where
  "boot_init build_id = do {
     init_stats build_id;
     init_proto;
     for_each init_device [0..<BRISC_VIRTIO_NUM_SLOTS];
     uart_init_devices
   }"

definition boot :: "u32 \<Rightarrow> nat \<Rightarrow> bool fwm" where
  "boot build_id fuel = do {
     boot_init build_id;
     wait_for_hello_and_ack build_id fuel
   }"

section \<open>The tile when BRISC leaves reset\<close>

lemma load_chunks_size [simp]: "gm_size (load_chunks i bs m) = gm_size m"
  by (induction i bs m rule: load_chunks.induct) simp_all

lemma word4: "length bs = 4 \<Longrightarrow> le_bytes 4 (of_le_bytes bs :: u32) = bs"
  by (rule le_bytes_of_le_bytes) simp_all

lemmas load_chunks_parts = load_chunks.induct [case_names word stop one two three]

lemma load_chunks_bytes:
  "gm_bytes (load_chunks i bs m) a =
     (if 4 * i \<le> a \<and> a < 4 * i + length bs then bs ! (a - 4 * i)
      else if 4 * i \<le> a \<and> a < 4 * i + 4 * ((length bs + 3) div 4) then 0
      else gm_bytes m a)"
proof (induction i bs m rule: load_chunks_parts)
  case (word i b0 b1 b2 b3 rest m)
  have n: "(7 + length rest) div 4 = Suc ((length rest + 3) div 4)" by presburger
  have w: "le_bytes 4 (of_le_bytes [b0, b1, b2, b3] :: u32) = [b0, b1, b2, b3]" by (rule word4) simp
  note IH = word.IH [unfolded w]
  consider "a < 4 * i" | k where "a = 4 * i + k" "k < 4" | k where "a = 4 * i + 4 + k"
    by (metis add.assoc le_add_diff_inverse nat_le_linear not_le)
  then show ?case
  proof cases
    case 2
    then consider "k = 0" | "k = 1" | "k = 2" | "k = 3" by linarith
    then show ?thesis unfolding load_chunks.simps w IH using 2(1) by cases (simp_all add: gm_bytes_store)
  next
    case 3
    then show ?thesis unfolding load_chunks.simps w IH by (simp add: gm_bytes_store n)
  next
    case 1
    then show ?thesis unfolding load_chunks.simps w IH by (simp add: gm_bytes_store)
  qed
next
  case (one i b m)
  have "le_bytes 4 (of_le_bytes (take 4 ([b] @ replicate 4 0)) :: u32) = [b, 0, 0, 0]"
    by (subst word4) (simp_all add: numeral_eq_Suc)
  then show ?case unfolding load_chunks.simps by (auto simp: gm_bytes_store nth_Cons')
next
  case (two i b c m)
  have "le_bytes 4 (of_le_bytes (take 4 ([b, c] @ replicate 4 0)) :: u32) = [b, c, 0, 0]"
    by (subst word4) (simp_all add: numeral_eq_Suc)
  then show ?case unfolding load_chunks.simps by (auto simp: gm_bytes_store nth_Cons')
next
  case (three i b c d m)
  have "le_bytes 4 (of_le_bytes (take 4 ([b, c, d] @ replicate 4 0)) :: u32) = [b, c, d, 0]"
    by (subst word4) (simp_all add: numeral_eq_Suc)
  then show ?case unfolding load_chunks.simps by (auto simp: gm_bytes_store nth_Cons')
qed auto

lemma zero_words_bytes:
  "gm_bytes (fold (\<lambda>a. gm_store a (le_bytes 4 (0 :: u32))) as m) x =
     (if \<exists>a \<in> set as. a \<le> x \<and> x < a + 4 then 0 else gm_bytes m x)"
  by (induction as arbitrary: m) (auto simp: gm_bytes_store le_bytes_zero)

lemma reg_file_words_cover:
  "(\<exists>a \<in> set reg_file_words. a \<le> x \<and> x < a + 4) \<longleftrightarrow> 0x10000 \<le> x \<and> x < (0x30000 :: nat)"
proof
  assume "\<exists>a \<in> set reg_file_words. a \<le> x \<and> x < a + 4"
  then obtain slot k where "slot < 32" "k < 0x400" "slot_regs_base slot + 4 * k \<le> x" "x < slot_regs_base slot + 4 * k + 4"
    by (auto simp: reg_file_words_def layout_defs)
  then show "0x10000 \<le> x \<and> x < 0x30000" by (simp add: slot_regs_base_def layout_defs)
next
  assume x: "0x10000 \<le> x \<and> x < (0x30000 :: nat)"
  define slot k where "slot = (x - 0x10000) div 0x1000" and "k = (x - 0x10000) mod 0x1000 div 4"
  have "(x - 0x10000) div 0x1000 * 0x1000 + (x - 0x10000) mod 0x1000 = x - 0x10000" by (rule div_mult_mod_eq)
  moreover have "(x - 0x10000) mod 0x1000 div 4 * 4 + (x - 0x10000) mod 0x1000 mod 4 = (x - 0x10000) mod 0x1000"
    by (rule div_mult_mod_eq)
  moreover have "(x - 0x10000) mod 0x1000 mod 4 < 4" by simp
  ultimately have "0x10000 + slot * 0x1000 + 4 * k \<le> x" "x < 0x10000 + slot * 0x1000 + 4 * k + 4"
    using x unfolding slot_def k_def by linarith+
  moreover have "slot < 32" "k < 0x400" using x unfolding slot_def k_def by (auto intro!: div_less_iff_less_mult [THEN iffD2])
  then have "0x10000 + slot * 0x1000 + 4 * k \<in> set reg_file_words"
    by (auto simp: reg_file_words_def slot_regs_base_def layout_defs intro!: bexI [of _ slot] image_eqI [of _ _ k])
  ultimately show "\<exists>a \<in> set reg_file_words. a \<le> x \<and> x < a + 4" by blast
qed

lemma write_zeros:
  assumes "\<forall>a \<in> set as. a + 4 \<le> TENSIX_L1_SIZE"
  shows "write_all (map (\<lambda>a. (a, 0)) as) t =
    Some (t\<lparr>t_l1 := fold (\<lambda>a. gm_store a (le_bytes 4 (0 :: u32))) as (t_l1 t)\<rparr>)"
  using assms by (induction as arbitrary: t) (simp_all add: write_l1_u32_def)

lemma reg_file_words_bound: "a \<in> set reg_file_words \<Longrightarrow> a + 4 \<le> TENSIX_L1_SIZE"
  by (auto simp: reg_file_words_def slot_regs_base_def layout_defs TENSIX_L1_SIZE_def)

text \<open>The entry address of TRISC \<open>n\<close> in the image.\<close>

definition image_entry :: "u8 list \<Rightarrow> nat \<Rightarrow> u32" where
  "image_entry firmware n = of_le_bytes (take 4 (drop (4 * (n + 1)) firmware))"

definition overridden :: "nat \<Rightarrow> u32 \<Rightarrow> tile \<Rightarrow> tile \<Rightarrow> bool" where
  "overridden n pc t t' \<longleftrightarrow>
     (if pc \<noteq> 0 then t_reset_pc t' n = pc \<and> bit (t_override t') n
      else t_reset_pc t' n = t_reset_pc t n \<and> (bit (t_override t') n \<longleftrightarrow> bit (t_override t) n))"

lemma override_trisc_step:
  assumes "n < 3"
  obtains t' where "override_trisc n t = Some t'" "t_l1 t' = t_l1 t" "t_soft_reset t' = t_soft_reset t"
    "overridden n (gm_u32 (t_l1 t) (4 * (n + 1))) t t'"
    "\<And>k. k \<noteq> n \<Longrightarrow> t_reset_pc t' k = t_reset_pc t k" "\<And>k. k \<noteq> n \<Longrightarrow> bit (t_override t') k = bit (t_override t) k"
proof -
  let ?pc = "gm_u32 (t_l1 t) (4 * (n + 1))"
  have run: "override_trisc n t = Some (if ?pc \<noteq> 0 then
      t\<lparr>t_reset_pc := (t_reset_pc t)(n := ?pc), t_override := t_override t OR push_bit n 1\<rparr> else t)"
    using assms by (simp add: override_trisc_def read_trisc_reset_entry_def read_l1_u32_def TENSIX_L1_SIZE_def
      set_trisc_reset_pc_def enable_trisc_reset_pc_override_def)
  show ?thesis by (rule that [OF run]) (use assms in \<open>auto simp: overridden_def bit_simps\<close>)
qed

lemma prepare_tile_total:
  assumes "length firmware \<le> TENSIX_L1_SIZE"
  shows "\<exists>t'. prepare_tile firmware t = Some t'"
proof -
  have "\<exists>t'. override_trisc n t = Some t'" if "n < 3" for n t by (rule override_trisc_step [OF that]) blast
  then have "override_trisc 0 t \<noteq> None" "override_trisc 1 t \<noteq> None" "override_trisc 2 t \<noteq> None" for t by auto
  then show ?thesis using assms reg_file_words_bound
    by (simp add: prepare_tile_def write_zeros load_brisc_firmware_def bind_eq_Some_conv flip: not_None_eq)
      (metis not_None_eq)
qed

lemma all_less_3: "(\<forall>n < 3. P n) \<longleftrightarrow> P 0 \<and> P 1 \<and> P (2 :: nat)"
  by (auto simp: numeral_eq_Suc less_Suc_eq)

text \<open>
  What \<open>bring_up\<close> leaves in the tile. For an image that fits into L1 and has its four header words, no
  assertion fails; L1 holds the image, the register files outside of it are zero, exactly BRISC is out of
  reset, and each TRISC will start at the entry that the image names for it, or as before when the image
  names none.
\<close>

theorem prepare_tile_state:
  assumes "16 \<le> length firmware" "length firmware \<le> TENSIX_L1_SIZE"
  shows "case prepare_tile firmware t of
      None \<Rightarrow> False
    | Some t' \<Rightarrow>
        gm_load (t_l1 t') 0 (length firmware) = firmware \<and>
        (\<forall>a. 0x10000 \<le> a \<and> a < 0x30000 \<and> length firmware \<le> a \<longrightarrow> gm_bytes (t_l1 t') a = 0) \<and>
        t_soft_reset t' = SOFT_RESET_ALL_EXCEPT_BRISC \<and>
        (\<forall>n < 3. if image_entry firmware n \<noteq> 0 then t_reset_pc t' n = image_entry firmware n \<and> bit (t_override t') n
                 else t_reset_pc t' n = t_reset_pc t n \<and> (bit (t_override t') n \<longleftrightarrow> bit (t_override t) n))"
proof -
  define m where "m = fold (\<lambda>a. gm_store a (le_bytes 4 (0 :: u32))) reg_file_words (t_l1 t)"
  define l where "l = load_chunks 0 firmware m"
  have e: "gm_u32 l (4 * (n + 1)) = image_entry firmware n" if "n < 3" for n
    unfolding image_entry_def l_def using that assms(1)
    by (intro arg_cong [where f = of_le_bytes] nth_equalityI) (auto simp: load_chunks_bytes)
  then have e3: "gm_u32 l 4 = image_entry firmware 0" "gm_u32 l 8 = image_entry firmware 1"
    "gm_u32 l 12 = image_entry firmware 2" using e [of 0] e [of 1] e [of 2] by simp_all
  have "gm_load l 0 (length firmware) = firmware"
    by (rule nth_equalityI) (auto simp: l_def load_chunks_bytes)
  moreover have "gm_bytes l a = 0" if "0x10000 \<le> a" "a < 0x30000" "length firmware \<le> a" for a
    using that by (simp add: l_def load_chunks_bytes m_def zero_words_bytes reg_file_words_cover)
  moreover obtain t1 where t1: "override_trisc 0 (t\<lparr>t_soft_reset := SOFT_RESET_ALL, t_l1 := l\<rparr>) = Some t1" "t_l1 t1 = l"
      "overridden 0 (image_entry firmware 0) t t1"
      "\<And>k. k \<noteq> 0 \<Longrightarrow> t_reset_pc t1 k = t_reset_pc t k" "\<And>k. k \<noteq> 0 \<Longrightarrow> bit (t_override t1) k = bit (t_override t) k"
    by (rule override_trisc_step [of 0 "t\<lparr>t_soft_reset := SOFT_RESET_ALL, t_l1 := l\<rparr>"]) (simp_all add: overridden_def e3)
  moreover obtain t2 where t2: "override_trisc 1 t1 = Some t2" "t_l1 t2 = l" "overridden 1 (image_entry firmware 1) t1 t2"
      "\<And>k. k \<noteq> 1 \<Longrightarrow> t_reset_pc t2 k = t_reset_pc t1 k" "\<And>k. k \<noteq> 1 \<Longrightarrow> bit (t_override t2) k = bit (t_override t1) k"
    by (rule override_trisc_step [of 1 t1]) (use t1(2) in \<open>simp_all add: e3\<close>)
  moreover obtain t3 where t3: "override_trisc 2 t2 = Some t3" "t_l1 t3 = l" "overridden 2 (image_entry firmware 2) t2 t3"
      "\<And>k. k \<noteq> 2 \<Longrightarrow> t_reset_pc t3 k = t_reset_pc t2 k" "\<And>k. k \<noteq> 2 \<Longrightarrow> bit (t_override t3) k = bit (t_override t2) k"
    by (rule override_trisc_step [of 2 t2]) (use t2(2) in \<open>simp_all add: e3\<close>)
  moreover have "prepare_tile firmware t = Some (release_brisc_only t3)"
    using assms(2) reg_file_words_bound t1(1) t2(1) t3(1)
    by (simp add: prepare_tile_def write_zeros assert_all_resets_def load_brisc_firmware_def m_def [symmetric] l_def [symmetric])
  ultimately show ?thesis by (simp add: release_brisc_only_def all_less_3 overridden_def)
qed

theorem prepare_tile_state_witness:
  "case prepare_tile ([0x6f, 0, 0, 8, 0, 2, 0, 0, 0, 0, 0, 0, 0, 0, 0, 0]) \<lparr>t_l1 = zero_l1, t_soft_reset = 0, t_reset_pc = (\<lambda>_. 7), t_override = 0\<rparr> of
     None \<Rightarrow> False
   | Some t' \<Rightarrow> t_reset_pc t' 0 = 0x200 \<and> bit (t_override t') 0 \<and> t_reset_pc t' 1 = 7 \<and> t_soft_reset t' = 0x47000"
proof -
  let ?fw = "[0x6f, 0, 0, 8, 0, 2, 0, 0, 0, 0, 0, 0, 0, 0, 0, 0] :: u8 list"
  have "image_entry ?fw 0 = 0x200" "image_entry ?fw 1 = 0" by (simp_all add: image_entry_def)
  then show ?thesis
    using prepare_tile_state [of ?fw "\<lparr>t_l1 = zero_l1, t_soft_reset = 0, t_reset_pc = (\<lambda>_. 7), t_override = 0\<rparr>"]
    by (auto simp: TENSIX_L1_SIZE_def soft_reset_defs all_less_3 split: option.splits)
qed

section \<open>Choosing and adopting\<close>

lemma choose_tile_ok:
  assumes "read_telemetry chip = Inr telem" "pick_virtio_engine_tile telem = Inr picked"
    and "open_tile (pt_x picked) (pt_y picked) = Inr t"
  shows "choose_tile chip open_tile = Inr ((pt_x picked, pt_y picked), (pt_x picked, pt_y picked), t)"
  using assms by (simp add: choose_tile_def picked_translates)

lemma choose_tile_translates: "choose_tile chip open_tile \<noteq> Inl (No_Translated_Form x y)"
  by (auto simp: choose_tile_def picked_translates split: sum.splits)

text \<open>
  The engine is on the picked tile, and its translated coordinates, the ones that the guests' TLB windows
  are programmed with, are the documented ones exactly when no column up to the picked one is harvested.
\<close>

definition engine_on :: "telemetry \<Rightarrow> picked_tile \<Rightarrow> engine \<Rightarrow> bool" where
  "engine_on telem picked e \<longleftrightarrow>
     (e_noc0_x e, e_noc0_y e) = (pt_x picked, pt_y picked) \<and>
     (e_translated_x e, e_translated_y e) = (pt_x picked, pt_y picked) \<and>
     (noc_translation_enabled telem \<longrightarrow>
        (reference_translation (pt_x picked) (pt_y picked) (enabled_tensix_col telem) = Some (e_translated_x e, e_translated_y e) \<longleftrightarrow>
         (\<forall>i < 14. TENSIX_COLS_NOC0 ! i \<le> pt_x picked \<longrightarrow> bit (enabled_tensix_col telem) i)))"

lemma picked_column: "pick_virtio_engine_tile telem = Inr picked \<Longrightarrow> pt_x picked \<in> set TENSIX_COLS_NOC0"
  using picked_tile_is_reachable [of telem] by simp

text \<open>
  C30. Neither way to get an engine fails because the picked tile has no translated coordinates, and an engine
  is on the picked tile. Its translated coordinates are always the untranslated ones. That is the mapping
  which the comment of noc0_to_translated_tensix describes exactly when no column up to the picked one is
  harvested; on a chip with NoC translation and a harvested column further left the code departs from the
  comment.
\<close>

theorem engine_tile_reachable:
  assumes "read_telemetry chip = Inr telem" "pick_virtio_engine_tile telem = Inr picked"
  shows "(case bring_up chip open_tile firmware fw_build_id boots boot_polls acks ack_polls of
      Inl e \<Rightarrow> \<nexists>x y. e = No_Translated_Form x y
    | Inr (e, _) \<Rightarrow> engine_on telem picked e) \<and>
   (case adopt_running chip open_tile fw_build_id of
      Inl e \<Rightarrow> \<nexists>x y. e = No_Translated_Form x y
    | Inr e \<Rightarrow> engine_on telem picked e)"
proof (cases "choose_tile chip open_tile")
  case (Inl e)
  then show ?thesis using choose_tile_translates [of chip open_tile] by (auto simp: bring_up_def adopt_running_def)
next
  case (Inr r)
  obtain x y tx ty t where r: "r = ((x, y), (tx, ty), t)" by (metis surj_pair)
  have "(tx, ty) = (x, y) \<and> (x, y) = (pt_x picked, pt_y picked)"
    using Inr [unfolded r] assms by (auto simp: choose_tile_def picked_translates split: sum.splits option.splits)
  then show ?thesis using Inr reference_keeps_column [OF picked_column [OF assms(2)]]
    by (auto simp: r engine_on_def bring_up_def adopt_running_def Let_def split: sum.splits option.splits)
qed

lemma stamped_fields:
  "stamped_version b AND 0xff = TENSIX_PROTOCOL_VERSION"
  "drop_bit 8 (stamped_version b) AND 0xffffff = b AND 0xffffff"
proof -
  have m: "(0xff :: u32) = mask 8" "(0xffffff :: u32) = mask 24" by (simp_all add: mask_eq_exp_minus_1)
  have "take_bit 8 (push_bit 8 b) = (0 :: u32)" by (simp add: take_bit_push_bit)
  then show "stamped_version b AND 0xff = TENSIX_PROTOCOL_VERSION"
    by (simp add: m stamped_version_def TENSIX_PROTOCOL_VERSION_def flip: take_bit_eq_mask)
  show "drop_bit 8 (stamped_version b) AND 0xffffff = b AND 0xffffff"
    unfolding m stamped_version_def TENSIX_PROTOCOL_VERSION_def
    by (rule bit_word_eqI) (auto simp: bit_simps)
qed

text \<open>
  C36. A restarted daemon adopts what a daemon of the same build has left. When the tile still shows the magic
  and the version word that some bring_up has stamped, adoption succeeds exactly when the low 24 bits of
  the two build ids agree; otherwise the error names the build found on the tile.
\<close>

theorem adopt_same_build:
  assumes "read_telemetry chip = Inr telem" "pick_virtio_engine_tile telem = Inr picked"
    and "open_tile (pt_x picked) (pt_y picked) = Inr t"
    and "word (t_l1 t) (Stat STATS_OFF_MAGIC) = STATS_MAGIC_LOADED"
    and "word (t_l1 t) (Stat STATS_OFF_VERSION) = stamped_version stamped"
  shows "adopt_running chip open_tile own =
    (if stamped AND 0xffffff = own AND 0xffffff
     then Inr \<lparr>e_noc0_x = pt_x picked, e_noc0_y = pt_y picked, e_translated_x = pt_x picked, e_translated_y = pt_y picked,
               e_firmware_version = stamped_version stamped, e_protocol_version = TENSIX_PROTOCOL_VERSION\<rparr>
     else Inl (Wrong_Build_Id (stamped AND 0xffffff)))"
  using assms by (simp add: adopt_running_def choose_tile_ok stamped_fields)

text \<open>A chip with all columns, all rows and NoC translation, and with one core out of reset.\<close>

definition demo_chip :: chip_inner where
  "demo_chip = \<lparr>reset_words = (\<lambda>a. if a = ARC_TELEMETRY_PTR_ADDR then 0x10000000 else if a = L2CPU_RESET_ADDR then 0x10 else 0),
     csm_words = (\<lambda>a. if a = 0x10000000 then 0x10000 else if a = 0x10000004 then 2
       else if a = 0x10000008 then 0x00000022 else if a = 0x1000000C then 0x00010028
       else if a = 0x10000010 then 0x3FFF else if a = 0x10000014 then 1 else 0)\<rparr>"

definition demo_telem :: telemetry where
  "demo_telem = decode_entries 0x10000 2
     [\<lparr>te_tag = 34, te_offset = 0, te_data = 0x3FFF\<rparr>, \<lparr>te_tag = 40, te_offset = 1, te_data = 1\<rparr>]"

lemma demo_chip_telemetry: "read_telemetry (Some demo_chip) = Inr demo_telem"
proof -
  have p: "arc_read32 ARC_TELEMETRY_PTR_ADDR (Some demo_chip) = Inr 0x10000000"
    by (simp add: arc_read32_def reset_window_offset_def word_offset_def chip_consts telemetry_consts demo_chip_def)
  have r: "csm_read32 a (Some demo_chip) = Inr (csm_words demo_chip a)"
    if "a \<in> {0x10000000, 0x10000004, 0x10000008, 0x1000000C, 0x10000010, 0x10000014}" for a
    using that by (subst csm_read_ok) auto
  have w: "csm_words demo_chip 0x10000000 = 0x10000" "csm_words demo_chip 0x10000004 = 2"
    "csm_words demo_chip 0x10000008 = 0x22" "csm_words demo_chip 0x1000000C = 0x10028"
    "csm_words demo_chip 0x10000010 = 0x3FFF" "csm_words demo_chip 0x10000014 = 1"
    by (simp_all add: demo_chip_def)
  have n: "[0..<2] = [0, 1 :: nat]" by (simp add: upt_rec)
  show ?thesis
    by (simp add: read_telemetry_def p r w Let_def ARC_CSM_BASE_def ARC_CSM_SIZE_def n demo_telem_def)
qed

lemma demo_picked: "pick_virtio_engine_tile demo_telem = Inr \<lparr>pt_x = 16, pt_y = 11, pt_reason = BottomRightCorner\<rparr>"
proof -
  have "enabled_tensix_col demo_telem = 0x3FFF" "noc_translation_enabled demo_telem" "harvesting_state demo_telem = 0"
    unfolding demo_telem_def
    using decode_last_entry_wins [of "0x10000" 2 "[\<lparr>te_tag = 34, te_offset = 0, te_data = 0x3FFF\<rparr>, \<lparr>te_tag = 40, te_offset = 1, te_data = 1\<rparr>]"]
    by (simp_all add: last_data_def)
  moreover have "working_tensix_cols 0x3FFF True = TENSIX_COLS_NOC0" "working_tensix_rows 0 = TENSIX_ROWS_NOC0"
    "harvested_tensix_rows 0 = []" by code_simp+
  ultimately show ?thesis by (simp add: pick_virtio_engine_tile_def TENSIX_COLS_NOC0_def TENSIX_ROWS_NOC0_def)
qed

definition demo_tile :: "guest_mem \<Rightarrow> tile" where
  "demo_tile m = \<lparr>t_l1 = m, t_soft_reset = 0, t_reset_pc = (\<lambda>_. 0), t_override = 0\<rparr>"

theorem adopt_same_build_witness:
  "let t = demo_tile (put (Stat STATS_OFF_VERSION) (stamped_version 0x800101) (put (Stat STATS_OFF_MAGIC) STATS_MAGIC_LOADED zero_l1))
   in (\<exists>e. adopt_running (Some demo_chip) (\<lambda>_ _. Inr t) 0x1800101 = Inr e) \<and>
      adopt_running (Some demo_chip) (\<lambda>_ _. Inr t) 0x800102 = Inl (Wrong_Build_Id 0x800101)"
proof -
  let ?t = "demo_tile (put (Stat STATS_OFF_VERSION) (stamped_version 0x800101) (put (Stat STATS_OFF_MAGIC) STATS_MAGIC_LOADED zero_l1))"
  have "word (t_l1 ?t) (Stat STATS_OFF_MAGIC) = STATS_MAGIC_LOADED" "word (t_l1 ?t) (Stat STATS_OFF_VERSION) = stamped_version 0x800101"
    by (simp_all add: demo_tile_def word_put)
  then show ?thesis
    using adopt_same_build [OF demo_chip_telemetry demo_picked, of "\<lambda>_ _. Inr ?t" ?t "0x800101"] by (simp add: Let_def)
qed

section \<open>The boot of the firmware\<close>

definition uart_init_l1 :: "nat \<Rightarrow> guest_mem \<Rightarrow> guest_mem" where
  "uart_init_l1 i m =
     zeroed (brisc_uart_private_base i) BRISC_UART_PRIVATE_PER_L2CPU
       (put (Uart i UART_REG_IIR_FCR) (UART_IIR_NO_FIFO OR UART_IIR_NO_INT)
       (put (Uart i UART_REG_MSR) (UART_MSR_CTS OR UART_MSR_DSR)
       (put (Uart i UART_REG_LSR) (UART_LSR_THRE OR UART_LSR_TEMT)
       (put (Uart i UART_REG_MCR) UART_MCR_DTR_RTS_OUT2
       (put (Uart i UART_REG_LCR) UART_LCR_8N1
       (put (Uart i UART_REG_RBR_THR) BRISC_UART_THR_SENTINEL
         (zeroed (brisc_uart_regs_base i) BRISC_UART_REG_FILE_SIZE m)))))))"

lemma run_uart_init_one: "arrivals s = [] \<Longrightarrow> run_state (uart_init_one i) s = ((), s\<lparr>l1 := uart_init_l1 i (l1 s)\<rparr>)"
  by (simp add: uart_init_one_def uart_init_l1_def put_fold)

lemma word_uart_init:
  assumes "i < 4"
  shows "word (uart_init_l1 i m) (Ctrl w) = word m (Ctrl w)" "word (uart_init_l1 i m) (Stat t) = word m (Stat t)"
  using assms offs_bound(4) [of t] offs_bound(5) [of w]
  by (simp_all add: uart_init_l1_def word_zeroed(2) word_put cell_addr.simps addr_defs)

definition boot_l1 :: "u32 \<Rightarrow> guest_mem \<Rightarrow> guest_mem" where
  "boot_l1 build_id m =
     fold uart_init_l1 [0..<4]
       (fold init_l1 [0..<32]
         (zeroed (ctrl_addr 0) CTRL_SIZE
           (put (Stat STATS_OFF_MAGIC) STATS_MAGIC_LOADED
             (put (Stat STATS_OFF_VERSION) (BRISC_VIRTIO_FW_VERSION build_id)
               (zeroed BRISC_VIRTIO_STATS_BASE BRISC_VIRTIO_STATS_SIZE m)))))"

lemma run_rest_of_init:
  assumes "arrivals s = []"
  shows "run_state (do { for_each init_device [0..<BRISC_VIRTIO_NUM_SLOTS]; uart_init_devices }) s =
    ((), s\<lparr>l1 := fold uart_init_l1 [0..<4] (fold init_l1 [0..<32] (l1 s))\<rparr>)"
proof -
  have "run_state (for_each init_device [0..<32]) s = ((), s\<lparr>l1 := fold init_l1 [0..<32] (l1 s)\<rparr>)"
    by (rule run_for_each) (use assms in simp_all)
  moreover have "run_state (for_each uart_init_one [0..<4]) (s\<lparr>l1 := fold init_l1 [0..<32] (l1 s)\<rparr>) =
      ((), s\<lparr>l1 := fold init_l1 [0..<32] (l1 s)\<rparr>\<lparr>l1 := fold uart_init_l1 [0..<4] (l1 (s\<lparr>l1 := fold init_l1 [0..<32] (l1 s)\<rparr>))\<rparr>)"
    by (rule run_for_each) (use assms in \<open>simp_all add: run_uart_init_one\<close>)
  ultimately show ?thesis by (simp add: uart_init_devices_def layout_defs)
qed

lemma word_rest_of_init:
  "word (fold uart_init_l1 [0..<4] (fold init_l1 [0..<32] m)) (Ctrl w) = word m (Ctrl w)"
  "word (fold uart_init_l1 [0..<4] (fold init_l1 [0..<32] m)) (Stat t) = word m (Stat t)"
proof -
  have "word (fold uart_init_l1 is m) (Ctrl w) = word m (Ctrl w) \<and> word (fold uart_init_l1 is m) (Stat t) = word m (Stat t)"
    if "\<forall>i \<in> set is. i < 4" for "is" m
    using that by (induction "is" arbitrary: m) (simp_all add: word_uart_init)
  moreover have "word (fold init_l1 sl m) (Ctrl w) = word m (Ctrl w) \<and> word (fold init_l1 sl m) (Stat t) = word m (Stat t)"
    if "\<forall>i \<in> set sl. i < 32" for sl m
    using that by (induction sl arbitrary: m) (simp_all add: word_init_l1)
  ultimately show "word (fold uart_init_l1 [0..<4] (fold init_l1 [0..<32] m)) (Ctrl w) = word m (Ctrl w)"
    "word (fold uart_init_l1 [0..<4] (fold init_l1 [0..<32] m)) (Stat t) = word m (Stat t)" by simp_all
qed

lemma word_cleared_ctrl:
  "word (zeroed (ctrl_addr 0) CTRL_SIZE m) (Ctrl w) = 0" "word (zeroed (ctrl_addr 0) CTRL_SIZE m) (Stat t) = word m (Stat t)"
  using offs_bound(4) [of t] offs_bound(5) [of w]
  by (simp_all add: word_zeroed cell_addr.simps addr_defs)

lemma run_boot_init:
  assumes "arrivals s = []"
  shows "run_state (boot_init build_id) s = ((), s\<lparr>l1 := boot_l1 build_id (l1 s)\<rparr>)"
  using assms run_rest_of_init [of "s\<lparr>l1 := zeroed (ctrl_addr 0) CTRL_SIZE
           (put (Stat STATS_OFF_MAGIC) STATS_MAGIC_LOADED
             (put (Stat STATS_OFF_VERSION) (BRISC_VIRTIO_FW_VERSION build_id)
               (zeroed BRISC_VIRTIO_STATS_BASE BRISC_VIRTIO_STATS_SIZE (l1 s))))\<rparr>"]
  by (simp add: boot_init_def boot_l1_def init_stats_def init_proto_def put_fold)

lemma word_boot:
  "word (boot_l1 b m) (Ctrl w) = 0" "word (boot_l1 b m) (Stat STATS_OFF_MAGIC) = STATS_MAGIC_LOADED"
  "word (boot_l1 b m) (Stat STATS_OFF_VERSION) = BRISC_VIRTIO_FW_VERSION b"
  by (simp_all add: boot_l1_def word_rest_of_init word_cleared_ctrl word_put)

lemma await_stats_magic_seen:
  assumes "i \<le> j" "j \<le> i + polls" "word (l1_at j) (Stat STATS_OFF_MAGIC) = STATS_MAGIC_LOADED"
  shows "await_stats_magic l1_at i polls = None"
  using assms
proof (induction polls arbitrary: i)
  case (Suc polls)
  then show ?case by (cases "i = j") simp_all
qed simp

text \<open>
  What the firmware makes of the words the daemon stores while it polls: nothing, unless they are a hello.
\<close>

definition store_words :: "(nat \<times> u32) list \<Rightarrow> guest_mem \<Rightarrow> guest_mem" where
  "store_words sts m = fold (\<lambda>(a, v) m. gm_store a (le_bytes 4 v) m) sts m"

definition hello_answer :: "u32 \<Rightarrow> guest_mem \<Rightarrow> nat \<Rightarrow> guest_mem" where
  "hello_answer build_id m k = (if word m (Ctrl HELLO_OFF_MAGIC) = HELLO_MAGIC then ack_stage build_id m k else m)"

lemma poll_hello_never:
  "arrivals s = [] \<Longrightarrow> word (l1 s) (Ctrl HELLO_OFF_MAGIC) \<noteq> HELLO_MAGIC \<Longrightarrow> run_state (poll_hello fuel) s = (False, s)"
  by (induction fuel) (simp_all add: word_fold del: ctrl_off.simps)

lemma poll_hello_stores:
  assumes "word (l1 s) (Ctrl HELLO_OFF_MAGIC) \<noteq> HELLO_MAGIC" "arrivals s = replicate k [] @ [sts]" "k < fuel"
  shows "run_state (poll_hello fuel) s =
    (word (store_words sts (l1 s)) (Ctrl HELLO_OFF_MAGIC) = HELLO_MAGIC, s\<lparr>l1 := store_words sts (l1 s), arrivals := []\<rparr>)"
  using assms
proof (induction fuel arbitrary: s k)
  case (Suc fuel)
  show ?case
  proof (cases k)
    case 0
    let ?s1 = "s\<lparr>l1 := store_words sts (l1 s), arrivals := []\<rparr>"
    have "run_state (read_u32 (ctrl_addr (ctrl_off HELLO_OFF_MAGIC))) s = (word (l1 ?s1) (Ctrl HELLO_OFF_MAGIC), ?s1)"
      using Suc.prems(2) 0 by (simp add: read_u32_def arrive_def store_words_def word_fold del: ctrl_off.simps)
    then show ?thesis using poll_hello_never [of ?s1 fuel] by (simp del: ctrl_off.simps)
  next
    case k: (Suc k')
    let ?s1 = "s\<lparr>arrivals := replicate k' [] @ [sts]\<rparr>"
    have "run_state (read_u32 (ctrl_addr (ctrl_off HELLO_OFF_MAGIC))) s = (word (l1 s) (Ctrl HELLO_OFF_MAGIC), ?s1)"
      using Suc.prems(2) k by (simp add: read_u32_def arrive_def word_fold del: ctrl_off.simps)
    then show ?thesis using Suc.IH [of ?s1 k'] Suc.prems(1,3) k by (simp del: ctrl_off.simps)
  qed
qed simp

lemma firmware_answers:
  assumes "word (l1 s) (Ctrl HELLO_OFF_MAGIC) \<noteq> HELLO_MAGIC" "arrivals s = replicate k [] @ [sts]" "k < fuel"
  shows "run_state (wait_for_hello_and_ack build_id fuel) s =
    (word (store_words sts (l1 s)) (Ctrl HELLO_OFF_MAGIC) = HELLO_MAGIC,
     s\<lparr>l1 := hello_answer build_id (store_words sts (l1 s)) 3, arrivals := []\<rparr>)"
  using poll_hello_stores [OF assms]
  by (simp add: wait_for_hello_and_ack_def hello_answer_def ack_stage_def put_fold del: ctrl_off.simps)

text \<open>A tile on which BRISC runs the image.\<close>

definition runs_image :: "u8 list \<Rightarrow> tile \<Rightarrow> bool" where
  "runs_image firmware t \<longleftrightarrow> gm_load (t_l1 t) 0 (length firmware) = firmware \<and> t_soft_reset t AND SOFT_RESET_BRISC = 0"

lemma prepared_runs_image:
  assumes "16 \<le> length firmware" "length firmware \<le> TENSIX_L1_SIZE"
  obtains u where "prepare_tile firmware t = Some u" "runs_image firmware u" "t_soft_reset u = SOFT_RESET_ALL_EXCEPT_BRISC"
  using prepare_tile_state [OF assms, of t] by (auto simp: runs_image_def soft_reset_defs split: option.splits)

text \<open>The daemon's stores: the version word and the hello.\<close>

lemma store_bring_up:
  "store_words ((stat_addr STATS_OFF_VERSION, v) # hello_stores) m = hello_l1 (put (Stat STATS_OFF_VERSION) v m)"
  by (simp add: store_words_def hello_stores_def hello_l1_def put_fold del: ctrl_off.simps)

lemma hello_l1_words:
  "word (hello_l1 m) (Ctrl HELLO_OFF_MAGIC) = HELLO_MAGIC" "word (hello_l1 m) (Ctrl HELLO_ACK_OFF_MAGIC) = word m (Ctrl HELLO_ACK_OFF_MAGIC)"
  "word (ack_stage b (hello_l1 m) k) (Stat w) = word m (Stat w)"
  by (simp_all add: hello_l1_def ack_stage_def word_put take_Cons')

lemma bring_up_ends_wait:
  assumes "word (l1 s) (Ctrl HELLO_OFF_MAGIC) \<noteq> HELLO_MAGIC" "k < fuel"
    and "arrivals s = replicate k [] @ [(stat_addr STATS_OFF_VERSION, v) # hello_stores]"
  shows "run_state (wait_for_hello_and_ack build_id fuel) s =
    (True, s\<lparr>l1 := ack_stage build_id (hello_l1 (put (Stat STATS_OFF_VERSION) v (l1 s))) 3, arrivals := []\<rparr>)"
  unfolding firmware_answers [OF assms(1,3,2)] store_bring_up hello_answer_def by (simp add: hello_l1_words)

text \<open>
  C25. Bring-up succeeds on a tile that does what the firmware's source says. The assumptions on the tile hold
  for whatever the daemon does to it: when BRISC runs the image, the firmware's initialisation of the L1
  it finds is visible to one of the daemon's reads before the timeout, and the words that the daemon then
  stores, whichever they are, are answered as the firmware's wait for a hello answers them, with the
  three stores of an acknowledgement becoming visible in order before the second timeout. Then, when the
  chip names a tile, the driver opens it and the image fits, bring_up returns the engine on the picked
  tile with the versions of the firmware; it has loaded the image and released BRISC alone; the words it
  has stored end the firmware's wait; and a daemon of the same build that opens the tile as it is then
  adopts it, with the version word that bring_up has stamped.
\<close>

theorem engine_comes_up:
  assumes chip: "read_telemetry chip = Inr telem" "pick_virtio_engine_tile telem = Inr picked"
      "open_tile (pt_x picked) (pt_y picked) = Inr t"
    and image: "16 \<le> length firmware" "length firmware \<le> TENSIX_L1_SIZE"
    and boots: "arrivals s = []" "j \<le> boot_polls"
      "\<And>v. runs_image firmware v \<Longrightarrow> boots v j = l1 (snd (run_state (boot_init build_id) (s\<lparr>l1 := t_l1 v\<rparr>)))"
    and acks: "mono stage" "i < ack_polls" "3 \<le> stage i"
      "\<And>v sts n. runs_image firmware v \<Longrightarrow> acks v sts n = hello_answer build_id (store_words sts (boots v j)) (stage n)"
    and fuel: "k < fuel"
  shows "case bring_up chip open_tile firmware own boots boot_polls acks ack_polls of
      Inl _ \<Rightarrow> False
    | Inr (e, u, sts) \<Rightarrow>
        e_noc0_x e = pt_x picked \<and> e_noc0_y e = pt_y picked \<and>
        e_firmware_version e = BRISC_VIRTIO_FW_VERSION build_id \<and> e_protocol_version e = TENSIX_PROTOCOL_VERSION \<and>
        runs_image firmware u \<and> t_soft_reset u = SOFT_RESET_ALL_EXCEPT_BRISC \<and>
        (let r = run_state (wait_for_hello_and_ack build_id fuel) (s\<lparr>l1 := boots u j, arrivals := replicate k [] @ [sts]\<rparr>)
         in fst r \<and> adopt_running chip (\<lambda>_ _. Inr (u\<lparr>t_l1 := l1 (snd r)\<rparr>)) own = Inr (e\<lparr>e_firmware_version := stamped_version own\<rparr>))"
proof -
  obtain u where u: "prepare_tile firmware t = Some u" "runs_image firmware u" "t_soft_reset u = SOFT_RESET_ALL_EXCEPT_BRISC"
    using prepared_runs_image [OF image] by blast
  have b: "boots u j = boot_l1 build_id (t_l1 u)" using boots(1) boots(3) [OF u(2)] by (simp add: run_boot_init)
  let ?sts = "(stat_addr STATS_OFF_VERSION, stamped_version own) # hello_stores"
  let ?m = "put (Stat STATS_OFF_VERSION) (stamped_version own) (boots u j)"
  have h: "0 \<noteq> HELLO_MAGIC" by (simp add: HELLO_MAGIC_def)
  have "await_stats_magic (boots u) 0 boot_polls = None"
    by (rule await_stats_magic_seen [of 0 j]) (use boots(2) in \<open>simp_all add: b word_boot\<close>)
  moreover have r: "acks u ?sts = (\<lambda>n. ack_stage build_id (hello_l1 ?m) (stage n))"
    by (simp add: acks(4) [OF u(2)] store_bring_up hello_answer_def hello_l1_words fun_eq_iff)
  have "word (hello_l1 ?m) (Ctrl HELLO_ACK_OFF_MAGIC) \<noteq> HELLO_ACK_MAGIC"
    by (simp add: hello_l1_words word_put b word_boot HELLO_ACK_MAGIC_def)
  then have "run_handshake (acks u ?sts) ack_polls = Inr (BRISC_VIRTIO_FW_VERSION build_id, TENSIX_PROTOCOL_VERSION)"
    using handshake_sound [of "hello_l1 ?m" stage build_id ack_polls] acks(1-3) unfolding r by (auto simp: Let_def)
  moreover have "run_state (wait_for_hello_and_ack build_id fuel) (s\<lparr>l1 := boots u j, arrivals := replicate k [] @ [?sts]\<rparr>) =
      (True, s\<lparr>l1 := ack_stage build_id (hello_l1 ?m) 3, arrivals := []\<rparr>)"
    using bring_up_ends_wait [of "s\<lparr>l1 := boots u j, arrivals := replicate k [] @ [?sts]\<rparr>" k fuel "stamped_version own" build_id]
      h fuel by (simp add: b word_boot)
  moreover have "adopt_running chip (\<lambda>_ _. Inr (u\<lparr>t_l1 := ack_stage build_id (hello_l1 ?m) 3\<rparr>)) own =
      Inr \<lparr>e_noc0_x = pt_x picked, e_noc0_y = pt_y picked, e_translated_x = pt_x picked, e_translated_y = pt_y picked,
        e_firmware_version = stamped_version own, e_protocol_version = TENSIX_PROTOCOL_VERSION\<rparr>"
    by (simp add: adopt_running_def choose_tile_ok [OF chip(1,2) refl] hello_l1_words word_put b word_boot stamped_fields)
  ultimately show ?thesis using choose_tile_ok [of chip telem picked open_tile t, OF chip] u
    by (simp add: bring_up_def Let_def)
qed

text \<open>A tile that runs the model of the firmware, and an image of four words.\<close>

definition demo_boots :: "tile \<Rightarrow> nat \<Rightarrow> guest_mem" where
  "demo_boots v n = l1 (snd (run_state (boot_init 7) (demo_fw\<lparr>l1 := t_l1 v\<rparr>)))"

definition demo_acks :: "tile \<Rightarrow> (nat \<times> u32) list \<Rightarrow> nat \<Rightarrow> guest_mem" where
  "demo_acks v sts n = hello_answer 7 (store_words sts (demo_boots v 0)) n"

definition demo_image :: "u8 list" where
  "demo_image = [0x6f, 0, 0, 8, 0, 2, 0, 0, 0, 0, 0, 0, 0, 0, 0, 0]"

theorem engine_comes_up_witness:
  "case bring_up (Some demo_chip) (\<lambda>_ _. Inr (demo_tile zero_l1)) demo_image 9 demo_boots 3 demo_acks 4 of
      Inl _ \<Rightarrow> False
    | Inr (e, u, sts) \<Rightarrow>
        e_noc0_x e = 16 \<and> e_noc0_y e = 11 \<and>
        e_firmware_version e = BRISC_VIRTIO_FW_VERSION 7 \<and> e_protocol_version e = TENSIX_PROTOCOL_VERSION \<and>
        runs_image demo_image u \<and> t_soft_reset u = SOFT_RESET_ALL_EXCEPT_BRISC \<and>
        (let r = run_state (wait_for_hello_and_ack 7 5) (demo_fw\<lparr>l1 := demo_boots u 0, arrivals := replicate 2 [] @ [sts]\<rparr>)
         in fst r \<and> adopt_running (Some demo_chip) (\<lambda>_ _. Inr (u\<lparr>t_l1 := l1 (snd r)\<rparr>)) 9 = Inr (e\<lparr>e_firmware_version := stamped_version 9\<rparr>))"
proof -
  let ?picked = "\<lparr>pt_x = 16, pt_y = 11, pt_reason = BottomRightCorner\<rparr>"
  have "length demo_image = 16" by (simp add: demo_image_def)
  moreover have "mono (\<lambda>n :: nat. n)" by (simp add: monoI)
  ultimately show ?thesis
    using engine_comes_up [OF demo_chip_telemetry demo_picked, unfolded picked_tile.select_convs, where t = "demo_tile zero_l1" and firmware = demo_image
        and open_tile = "\<lambda>_ _. Inr (demo_tile zero_l1)" and s = demo_fw and j = 0 and boots = demo_boots and acks = demo_acks
        and stage = "\<lambda>n. n" and i = 3 and boot_polls = 3 and ack_polls = 4 and build_id = 7 and own = 9 and k = 2 and fuel = 5]
    by (simp add: demo_boots_def demo_acks_def TENSIX_L1_SIZE_def)
qed

theorem engine_tile_reachable_witness:
  "let picked = \<lparr>pt_x = 16, pt_y = 11, pt_reason = BottomRightCorner\<rparr>
   in (case bring_up (Some demo_chip) (\<lambda>_ _. Inr (demo_tile zero_l1)) demo_image 9 demo_boots 3 demo_acks 4 of
        Inl e \<Rightarrow> \<nexists>x y. e = No_Translated_Form x y
      | Inr (e, _) \<Rightarrow> engine_on demo_telem picked e) \<and>
     (case adopt_running (Some demo_chip) (\<lambda>_ _. Inr (demo_tile zero_l1)) 9 of
        Inl e \<Rightarrow> \<nexists>x y. e = No_Translated_Form x y
      | Inr e \<Rightarrow> engine_on demo_telem picked e)"
  unfolding Let_def by (rule engine_tile_reachable [OF demo_chip_telemetry demo_picked])

section \<open>A hello that comes too early\<close>

lemma run_write_idle:
  "arrivals s = [] # rest \<Longrightarrow>
     run_state (write_u32 a v) s = ((), s\<lparr>l1 := gm_store a (le_bytes 4 v) (l1 s), arrivals := rest\<rparr>)"
  by (simp add: write_u32_def arrive_def)

lemma run_for_each_idle:
  assumes "\<And>x s rest. arrivals s = [] # rest \<Longrightarrow> run_state (f x) s = ((), s\<lparr>l1 := g x (l1 s), arrivals := rest\<rparr>)"
    and "arrivals s = replicate (length xs) [] @ rest"
  shows "run_state (for_each f xs) s = ((), s\<lparr>l1 := fold g xs (l1 s), arrivals := rest\<rparr>)"
  using assms(2)
proof (induction xs arbitrary: s)
  case (Cons x xs)
  then show ?case using assms(1) [of s "replicate (length xs) [] @ rest" x] by simp
qed simp

lemma run_zero_region_idle:
  assumes "arrivals s = replicate ((n + 3) div 4) [] @ rest"
  shows "run_state (zero_region base n) s = ((), s\<lparr>l1 := zeroed base n (l1 s), arrivals := rest\<rparr>)"
  unfolding zero_region_def zeroed_def
  by (rule run_for_each_idle) (use assms in \<open>simp_all add: run_write_idle\<close>)

lemma run_zero_region_arrive:
  assumes "arrivals s = [ws]" "0 < n"
  shows "run_state (zero_region base n) s = run_state (zero_region base n) (arrive s)"
proof -
  obtain k where k: "(n + 3) div 4 = Suc k" using assms(2) by (cases "(n + 3) div 4") auto
  have "arrivals (arrive s) = []" using assms(1) by (simp add: arrive_def)
  then show ?thesis by (simp add: zero_region_def k upt_conv_Cons write_u32_def del: upt_Suc)
qed

lemma replicate_two_more: "replicate (n + 2) x @ r = replicate n x @ x # x # r"
  by (induction n) simp_all

text \<open>
  The magic word of the statistics page does not say that the control region is ready: \<open>main\<close> publishes it
  before it zeroes that region. A hello that the daemon sends after it has seen the magic, and that lands
  before the first store of \<open>init_proto\<close>, is erased; the firmware then polls forever, the acknowledgement
  stays zero and the handshake times out.
\<close>

theorem early_hello_lost:
  assumes "arrivals s = replicate (BRISC_VIRTIO_STATS_SIZE div 4 + 2) [] @ [hello_stores]"
  shows "let r = run_state (init_stats build_id) s; r' = run_state (boot build_id fuel) s
    in word (l1 (snd r)) (Stat STATS_OFF_MAGIC) = STATS_MAGIC_LOADED \<and> arrivals (snd r) = [hello_stores] \<and>
       \<not> fst r' \<and> arrivals (snd r') = [] \<and>
       run_handshake (\<lambda>_. l1 (snd r')) polls = Inl Handshake_Timeout"
proof -
  define m where "m = put (Stat STATS_OFF_MAGIC) STATS_MAGIC_LOADED
    (put (Stat STATS_OFF_VERSION) (BRISC_VIRTIO_FW_VERSION build_id) (zeroed BRISC_VIRTIO_STATS_BASE BRISC_VIRTIO_STATS_SIZE (l1 s)))"
  define m' where "m' = fold uart_init_l1 [0..<4] (fold init_l1 [0..<32] (zeroed (ctrl_addr 0) CTRL_SIZE (hello_l1 m)))"
  have a: "arrivals s = replicate ((BRISC_VIRTIO_STATS_SIZE + 3) div 4) [] @ [] # [] # [hello_stores]"
    unfolding assms replicate_two_more by (simp add: BRISC_VIRTIO_STATS_SIZE_def)
  have i: "run_state (init_stats build_id) s = ((), s\<lparr>l1 := m, arrivals := [hello_stores]\<rparr>)"
    by (simp add: init_stats_def run_zero_region_idle [OF a] run_write_idle put_fold m_def)
  have p: "run_state init_proto (s\<lparr>l1 := m, arrivals := [hello_stores]\<rparr>) =
      ((), s\<lparr>l1 := zeroed (ctrl_addr 0) CTRL_SIZE (hello_l1 m), arrivals := []\<rparr>)"
    by (simp add: init_proto_def run_zero_region_arrive [where ws = hello_stores] arrive_hello CTRL_SIZE_def)
  have w: "word m' (Ctrl c) = 0" for c by (simp add: m'_def word_rest_of_init word_cleared_ctrl)
  have "run_state (boot_init build_id) s = ((), s\<lparr>l1 := m', arrivals := []\<rparr>)"
    using run_rest_of_init [of "s\<lparr>l1 := zeroed (ctrl_addr 0) CTRL_SIZE (hello_l1 m), arrivals := []\<rparr>"]
    by (simp add: boot_init_def i p m'_def)
  then have "run_state (boot build_id fuel) s = (False, s\<lparr>l1 := m', arrivals := []\<rparr>)"
    by (simp add: boot_def wait_for_hello_and_ack_def poll_hello_never w HELLO_MAGIC_def)
  moreover have "await_ack (\<lambda>_. m') n polls = None" for n
    by (induction polls arbitrary: n) (simp_all add: w HELLO_ACK_MAGIC_def)
  ultimately show ?thesis by (simp add: Let_def i run_handshake_def m_def word_put)
qed

theorem early_hello_lost_witness:
  "run_handshake (\<lambda>_. l1 (snd (run_state (boot 7 100) (demo_fw\<lparr>arrivals := replicate 0x402 [] @ [hello_stores]\<rparr>)))) 500 =
     Inl Handshake_Timeout"
  using early_hello_lost [of "demo_fw\<lparr>arrivals := replicate 0x402 [] @ [hello_stores]\<rparr>" 7 100 500]
  by (simp add: Let_def BRISC_VIRTIO_STATS_SIZE_def)

end
