(* ===== verification/Virtio_Console.thy ===== *)
theory Virtio_Console
  imports Virtio_Blk
begin

text \<open>
  The virtio console (\<open>src/src/virtio/console.rs\<close>) and the reader of a console client that feeds it
  (\<open>client_reader_main\<close> of \<open>src/src/daemon/server.rs\<close>). The hub and the keystroke buffer of the L2CPU are part
  of the host. The lemmas show that the device meets the contract of the virtqueue framework, what of a
  transmitted chain reaches the hub, and which keystrokes reach the guest.
\<close>

section \<open>Model\<close>

definition RX_QUEUE :: u32 where "RX_QUEUE = 0"
definition TX_QUEUE :: u32 where "TX_QUEUE = 1"
definition RX_BUFFER_CAP :: nat where "RX_BUFFER_CAP = 16 * 1024"

record virtio_console =
  vc_l2cpu :: u8
  tx_buf :: "u8 list"

definition console_new :: "u8 \<Rightarrow> virtio_console" where
  "console_new l2cpu = \<lparr>vc_l2cpu = l2cpu, tx_buf = []\<rparr>"

type_synonym con_ctx = "(virtio_console, host) ctx"

text \<open>\<open>from_raw_parts\<close>: the bytes of the buffer, read from the guest's memory.\<close>

definition append_tx :: "nat \<Rightarrow> u64 \<Rightarrow> con_ctx \<Rightarrow> con_ctx" where
  "append_tx addr len c =
     c\<lparr>dev := (dev c)\<lparr>tx_buf := tx_buf (dev c) @ gm_load (mem c) addr (unat len)\<rparr>, mem := gm_touch addr (unat len) (mem c)\<rparr>"

definition con_start :: "u32 \<Rightarrow> nat \<Rightarrow> u64 \<Rightarrow> con_ctx \<Rightarrow> con_ctx" where
  "con_start q addr len c =
     (if q = TX_QUEUE then append_tx addr len (c\<lparr>dev := (dev c)\<lparr>tx_buf := []\<rparr>\<rparr>) else c)"

definition con_data :: "u32 \<Rightarrow> nat \<Rightarrow> u64 \<Rightarrow> con_ctx \<Rightarrow> con_ctx" where
  "con_data q addr len c = (if q = TX_QUEUE then append_tx addr len c else c)"

definition push_to_hub :: "u8 \<Rightarrow> u8 list \<Rightarrow> host \<Rightarrow> host" where
  "push_to_hub i bytes w =
     (case push_chip_output bytes (h_hub w i, h_metrics w) of
        (_, h, mx) \<Rightarrow> w\<lparr>h_hub := (h_hub w)(i := h), h_metrics := mx\<rparr>)"

text \<open>The loop that moves keystrokes into the guest's buffer: bytes written, bytes left, memory.\<close>

fun rx_fill :: "nat \<Rightarrow> nat \<Rightarrow> u8 list \<Rightarrow> guest_mem \<Rightarrow> nat \<times> u8 list \<times> guest_mem" where
  "rx_fill 0 a q m = (0, q, m)"
| "rx_fill (Suc k) a [] m = (0, [], m)"
| "rx_fill (Suc k) a (b # q) m =
     (case rx_fill k (a + 1) q (gm_store a [b] m) of (written, q', m') \<Rightarrow> (written + 1, q', m'))"

definition con_complete :: "u32 \<Rightarrow> nat \<Rightarrow> u64 \<Rightarrow> con_ctx \<Rightarrow> u64 \<times> con_ctx" where
  "con_complete q addr len c =
     (let i = vc_l2cpu (dev c)
      in if q = TX_QUEUE then
           (len,
            if tx_buf (dev c) \<noteq> [] then
              c\<lparr>dev := (dev c)\<lparr>tx_buf := []\<rparr>, wld := push_to_hub i (tx_buf (dev c)) (wld c)\<rparr>
            else if len > 0 then
              c\<lparr>mem := gm_touch addr (unat len) (mem c),
                wld := push_to_hub i (gm_load (mem c) addr (unat len)) (wld c)\<rparr>
            else c)
         else
           (case rx_fill (unat len) addr (h_input (wld c) i) (mem c) of
              (written, q', m') \<Rightarrow>
                (word_of_nat written, c\<lparr>mem := m', wld := (wld c)\<lparr>h_input := (h_input (wld c))(i := q')\<rparr>\<rparr>)))"

definition con_has_data :: "u32 \<Rightarrow> con_ctx \<Rightarrow> bool" where
  "con_has_data q c =
     (if q = TX_QUEUE then True else if q = RX_QUEUE then h_input (wld c) (vc_l2cpu (dev c)) \<noteq> [] else False)"

definition con_ops :: "(virtio_console, host) device_ops" where
  "con_ops =
     \<lparr>num_queues = (\<lambda>_. 2), queue_header_size = (\<lambda>_. 0), device_id = (\<lambda>_. 3),
      device_features = (\<lambda>_. (0, 1)),
      process_queue_start = con_start, process_queue_data = con_data,
      process_queue_complete = con_complete, queue_has_data = con_has_data\<rparr>"

text \<open>
  The reader of client \<open>cid\<close>: what one successful read of its socket does. The bytes of a client that is
  not the writer are dropped. The sender of the OpenSBI console takes the bytes too; its channel is
  \<open>input_tx\<close>.
\<close>

definition vc_push :: "u8 \<Rightarrow> u8 list \<Rightarrow> u8 list" where
  "vc_push b q = (if length q \<ge> RX_BUFFER_CAP then drop 1 q else q) @ [b]"

definition client_bytes :: "u64 \<Rightarrow> u8 \<Rightarrow> u8 list \<Rightarrow> host \<times> u8 list \<Rightarrow> host \<times> u8 list" where
  "client_bytes cid i buf = (\<lambda>(w, input_tx).
     if current_writer_id (h_hub w i) = Some cid then
       (w\<lparr>h_input := (h_input w)(i := fold vc_push buf (h_input w i))\<rparr>, input_tx @ buf)
     else (w, input_tx))"

section \<open>The device meets the contract\<close>

lemma rx_fill_run:
  "rx_fill k a q m = (n, q', m') \<Longrightarrow>
     n = min k (length q) \<and> q' = drop k q \<and> gm_bytes m' = gm_bytes (gm_store a (take k q) m) \<and>
     gm_size m' = gm_size m \<and> gm_fault m' = gm_fault (gm_store a (take k q) m)"
proof (induction k a q m arbitrary: n q' m' rule: rx_fill.induct)
  case (3 k a b q m)
  obtain n1 where r: "rx_fill k (a + 1) q (gm_store a [b] m) = (n1, q', m')" and n: "n = n1 + 1"
    using "3.prems" by (auto split: prod.splits)
  note IH = "3.IH" [OF r]
  have "gm_bytes m' x = gm_bytes (gm_store a (take (Suc k) (b # q)) m) x" for x
  proof (cases "x = a")
    case False
    then show ?thesis using IH by (simp add: gm_bytes_store nth_Cons' Suc_le_eq)
  qed (use IH in \<open>simp add: gm_bytes_store\<close>)
  moreover have "gm_fault m' = gm_fault (gm_store a (take (Suc k) (b # q)) m)"
    using IH by (auto simp: gm_ok_def)
  ultimately show ?case using IH n by auto
qed (auto simp: gm_bytes_store gm_ok_def fun_eq_iff)

interpretation con_dev: virtio_device con_ops 0 0 "\<lambda>_. True" "\<lambda>_ _. True"
proof unfold_locales
  fix off q and len :: u64 and c :: con_ctx
  show "gm_frame off (off + unat len + 0) (mem c) (mem (process_queue_start con_ops q off len c))"
    by (simp add: con_ops_def con_start_def append_tx_def)
  show "gm_frame off (off + unat len + 0) (mem c) (mem (process_queue_data con_ops q off len c))"
    by (simp add: con_ops_def con_data_def append_tx_def)
  let ?q = "h_input (wld c) (vc_l2cpu (dev c))"
  obtain n q' m' where r: "rx_fill (unat len) off ?q (mem c) = (n, q', m')" by (metis surj_pair)
  note m' = r rx_fill_run [OF r]
  show "gm_frame off (off + unat len + 0) (mem c) (mem (snd (process_queue_complete con_ops q off len c)))"
    using m' by (auto simp: con_ops_def con_complete_def Let_def gm_frame_def gm_bytes_store)
  assume fits: "off + unat len + 0 \<le> gm_size (mem c)"
  show "gm_fault (mem (process_queue_start con_ops q off len c)) = gm_fault (mem c) \<and> True"
    "gm_fault (mem (process_queue_data con_ops q off len c)) = gm_fault (mem c) \<and> True"
    using fits by (simp_all add: con_ops_def con_start_def con_data_def append_tx_def gm_ok_def)
  show "gm_fault (mem (snd (process_queue_complete con_ops q off len c))) = gm_fault (mem c) \<and> True"
    using fits m' by (auto simp: con_ops_def con_complete_def Let_def gm_ok_def)
qed simp_all

section \<open>Transmitted output\<close>

text \<open>
  A valid chain at the head of the queue: its descriptors, in order, with the last one at the end, none of
  their buffers (extended by \<open>slack\<close> bytes) over the descriptor table.
\<close>

definition head_of :: "vqueue \<Rightarrow> u16 \<Rightarrow> guest_mem \<Rightarrow> u16" where
  "head_of vq processed m = gm_u16 m (avail_q vq + 4 + 2 * (unat processed mod unat (queue_num vq)))"

definition chain_pending :: "nat \<Rightarrow> vqueue \<Rightarrow> u16 \<Rightarrow> guest_mem \<Rightarrow> vring_desc list \<Rightarrow> bool" where
  "chain_pending slack vq processed m ds \<longleftrightarrow>
     vq_fits vq (gm_size m) \<and> processed \<noteq> gm_u16 m (avail_q vq + 2) \<and>
     chain_descs m vq (unat (queue_num vq)) (head_of vq processed m) = (True, ds) \<and>
     list_all (clear_of_table slack vq) ds"

lemma serve_con_tx:
  assumes "queue_idx vq = TX_QUEUE" "header_size vq = 0"
  shows "serve_descs con_ops vq True w (ds @ [d]) c =
    map_prod ((+) (w + sum_list (map (\<lambda>d. ucast (d_len d)) ds))) id
      (con_complete TX_QUEUE (desc_offset vq d) (ucast (d_len d))
        (fold (\<lambda>d. append_tx (desc_offset vq d) (ucast (d_len d))) ds c))"
proof (induction ds arbitrary: w c)
  case Nil
  then show ?case using assms by (simp add: con_ops_def id_def)
next
  case (Cons x ds)
  have "serve_descs con_ops vq True w ((x # ds) @ [d]) c =
      serve_descs con_ops vq True (w + ucast (d_len x)) (ds @ [d]) (append_tx (desc_offset vq x) (ucast (d_len x)) c)"
    using assms by (simp add: con_ops_def con_data_def)
  then show ?case by (simp only: Cons.IH) (simp add: add.assoc)
qed

lemma append_txs:
  "dev (fold (\<lambda>d. append_tx (desc_offset vq d) (ucast (d_len d))) ds c) = (dev c)\<lparr>tx_buf := tx_buf (dev c) @ dloads (mem c) vq ds\<rparr>"
  "gm_bytes (mem (fold (\<lambda>d. append_tx (desc_offset vq d) (ucast (d_len d))) ds c)) = gm_bytes (mem c)"
  "wld (fold (\<lambda>d. append_tx (desc_offset vq d) (ucast (d_len d))) ds c) = wld c"
  by (induction ds arbitrary: c) (simp_all add: append_tx_def unsigned_ucast_eq gm_load_def)

lemma push_nothing [simp]: "push_to_hub i [] w = w"
  by (simp add: push_to_hub_def push_chip_output_def)

text \<open>
  What the hub gets of a transmitted chain. The device has no header, so all descriptors but the last are
  collected and the last one completes the chain. When nothing has been collected the hub gets the last
  buffer; otherwise it gets what was collected, including what an earlier, abandoned chain has left, and
  the bytes of the last buffer are dropped. The chain is always completed, and nothing stays collected.
\<close>

theorem console_tx_chain:
  assumes "chain_pending 0 vq processed (mem c) (ds @ [d])" "queue_idx vq = TX_QUEUE" "header_size vq = 0"
  shows "\<exists>c'. process_one_chain_for_queue con_ops vq processed c = Some (True, processed + 1, c') \<and>
    tx_buf (dev c') = [] \<and>
    wld c' = push_to_hub (vc_l2cpu (dev c))
      (let collected = tx_buf (dev c) @ dloads (mem c) vq ds
       in if collected = [] then gm_load (mem c) (desc_offset vq d) (unat (d_len d)) else collected) (wld c)"
proof -
  let ?c1 = "fold (\<lambda>d. append_tx (desc_offset vq d) (ucast (d_len d))) ds c"
  let ?r = "con_complete TX_QUEUE (desc_offset vq d) (ucast (d_len d)) ?c1"
  note p = assms(1) [unfolded chain_pending_def]
  have "queue_has_data con_ops (queue_idx vq) c" by (simp add: con_ops_def con_has_data_def assms(2))
  then have "process_one_chain_for_queue con_ops vq processed c =
      Some (True, processed + 1, (snd ?r)\<lparr>mem := post_used vq (head_of vq processed (mem c))
        (sum_list (map (\<lambda>d. ucast (d_len d)) ds) + fst ?r) (mem (snd ?r))\<rparr>)"
    using con_dev.one_chain_serves [of vq c processed "head_of vq processed (mem c)" True "ds @ [d]"] p
      serve_con_tx [OF assms(2,3), of 0 ds d c]
    by (auto simp: head_of_def list_all_iff case_prod_beta map_prod_def)
  moreover have "tx_buf (dev (snd ?r)) = []" by (simp add: con_complete_def Let_def append_txs)
  moreover have "wld (snd ?r) = push_to_hub (vc_l2cpu (dev c))
      (let collected = tx_buf (dev c) @ dloads (mem c) vq ds
       in if collected = [] then gm_load (mem c) (desc_offset vq d) (unat (d_len d)) else collected) (wld c)"
  proof (cases "tx_buf (dev c) @ dloads (mem c) vq ds = []")
    case True
    have l: "gm_load (mem ?c1) (desc_offset vq d) (unat (d_len d)) = gm_load (mem c) (desc_offset vq d) (unat (d_len d))"
      by (simp add: gm_load_def append_txs(2))
    have z: "unat (d_len d) = 0" if "\<not> (0 :: u64) < ucast (d_len d)"
      using that by (metis ucast_u32_u64 unat_0 word_gt_0)
    show ?thesis using True l z
      by (auto simp: con_complete_def Let_def append_txs unsigned_ucast_eq gm_load_def)
  next
    case False
    then show ?thesis by (auto simp: con_complete_def Let_def append_txs)
  qed
  ultimately show ?thesis by simp
qed

section \<open>Keystrokes\<close>

text \<open>
  C33. A received chain of one descriptor. The guest's buffer gets the oldest keystrokes, as many as fit, in
  order; the used entry says how many; they leave the keystroke buffer and the rest stays; nothing but the
  buffer and the used ring changes in the guest's memory.
\<close>

theorem console_rx_chain:
  assumes "chain_pending 0 vq processed (mem c) [d]" "queue_idx vq = RX_QUEUE"
    and "keys = h_input (wld c) (vc_l2cpu (dev c))" "keys \<noteq> []" "n = min (unat (d_len d)) (length keys)"
    and "disj2 (used_q vq, 4 + 8 * unat (queue_num vq)) (desc_offset vq d, unat (d_len d))"
  shows "\<exists>c'. process_one_chain_for_queue con_ops vq processed c = Some (True, processed + 1, c') \<and>
    gm_load (mem c') (desc_offset vq d) n = take n keys \<and>
    h_input (wld c') (vc_l2cpu (dev c)) = drop n keys \<and>
    (let u = gm_u16 (mem c) (used_q vq + 2)
     in gm_u16 (mem c') (used_q vq + 2) = u + 1 \<and>
        gm_u32 (mem c') (used_q vq + 4 + 8 * (unat u mod unat (queue_num vq)) + 4) = word_of_nat n) \<and>
    (\<forall>a. a < desc_offset vq d \<or> desc_offset vq d + unat (d_len d) \<le> a \<longrightarrow>
         a < used_q vq + 2 \<or> used_q vq + 4 + 8 * unat (queue_num vq) \<le> a \<longrightarrow> gm_bytes (mem c') a = gm_bytes (mem c) a)"
proof -
  note p = assms(1) [unfolded chain_pending_def]
  obtain k q' m' where r: "rx_fill (unat (d_len d)) (desc_offset vq d) keys (mem c) = (k, q', m')" by (metis surj_pair)
  note m' = rx_fill_run [OF r]
  have q: "q' = drop n keys" and t: "take (unat (d_len d)) keys = take n keys" using m' assms(5) by (auto simp: min_def)
  let ?c1 = "c\<lparr>mem := m', wld := (wld c)\<lparr>h_input := (h_input (wld c))(vc_l2cpu (dev c) := q')\<rparr>\<rparr>"
  let ?m = "post_used vq (head_of vq processed (mem c)) (word_of_nat k) m'"
  have "serve_descs con_ops vq True 0 [d] c = (word_of_nat k, ?c1)"
    using assms(2,3) r by (simp add: con_ops_def con_complete_def RX_QUEUE_def TX_QUEUE_def Let_def)
  moreover have "queue_has_data con_ops (queue_idx vq) c"
    using assms(2-4) by (simp add: con_ops_def con_has_data_def RX_QUEUE_def TX_QUEUE_def)
  ultimately have run: "process_one_chain_for_queue con_ops vq processed c = Some (True, processed + 1, ?c1\<lparr>mem := ?m\<rparr>)"
    using con_dev.one_chain_serves [of vq c processed "head_of vq processed (mem c)" True "[d]"] p
    by (simp add: head_of_def)
  have nz: "queue_num vq \<noteq> 0" using p by (simp add: vq_fits_def)
  note pu = post_used_result [OF nz, where m = m' and head = "head_of vq processed (mem c)" and written = "word_of_nat k"]
  have u: "gm_u16 m' (used_q vq + 2) = gm_u16 (mem c) (used_q vq + 2)"
    using m' assms(6) by (intro arg_cong [where f = of_le_bytes] gm_load_cong) (auto simp: gm_bytes_store disj2_def)
  have l: "gm_load ?m (desc_offset vq d) n = gm_load m' (desc_offset vq d) n"
    using pu(4) assms(5,6) by (intro gm_frame_load) (auto simp: disj2_def)
  have b: "gm_load m' (desc_offset vq d) n = take n keys"
    using m' assms(5) by (intro nth_equalityI) (auto simp: gm_bytes_store)
  have "gm_bytes ?m a = gm_bytes (mem c) a"
    if "a < desc_offset vq d \<or> desc_offset vq d + unat (d_len d) \<le> a" "a < used_q vq + 2 \<or> used_q vq + 4 + 8 * unat (queue_num vq) \<le> a" for a
  proof -
    have "gm_bytes ?m a = gm_bytes m' a" using that(2) pu(4) by (auto simp: gm_frame_def)
    also have "\<dots> = gm_bytes (mem c) a" using that(1) m' by (auto simp: gm_bytes_store)
    finally show ?thesis .
  qed
  moreover have "ucast (word_of_nat k :: u64) = (word_of_nat n :: u32)"
    using m' assms(5) by (simp add: of_nat_unat_ucast [symmetric] unsigned_of_nat word_of_nat_eq_iff)
  ultimately show ?thesis using run l b q pu(1,3) unfolding u by (simp add: Let_def)
qed

text \<open>The last \<open>n\<close> elements of a list.\<close>

definition lasts :: "nat \<Rightarrow> 'a list \<Rightarrow> 'a list" where
  "lasts n xs = drop (length xs - n) xs"

lemma fold_vc_push:
  "length q \<le> RX_BUFFER_CAP \<Longrightarrow> fold vc_push bs q = lasts RX_BUFFER_CAP (q @ bs)"
proof (induction bs arbitrary: q)
  case (Cons b bs)
  have "vc_push b q = lasts RX_BUFFER_CAP (q @ [b])" using Cons.prems
    by (auto simp: vc_push_def lasts_def RX_BUFFER_CAP_def)
  moreover have "length (lasts RX_BUFFER_CAP (q @ [b])) \<le> RX_BUFFER_CAP" by (simp add: lasts_def)
  moreover have "lasts RX_BUFFER_CAP (lasts RX_BUFFER_CAP (q @ [b]) @ bs) = lasts RX_BUFFER_CAP (q @ b # bs)"
    using Cons.prems by (cases "length q < RX_BUFFER_CAP") (auto simp: lasts_def RX_BUFFER_CAP_def)
  ultimately show ?case using Cons.IH by simp
qed (simp add: lasts_def)

text \<open>
  The keystroke buffer. Of what a client sends, the writer's bytes go to the OpenSBI console and to the
  keystroke buffer, in order; the buffer keeps the newest 16384 bytes, so a full one loses its oldest
  bytes. The bytes of any other client, and any other L2CPU, are not affected.
\<close>

theorem client_bytes_fan_out:
  assumes "length (h_input w i) \<le> RX_BUFFER_CAP"
  shows "let r = client_bytes cid i buf (w, input_tx)
    in (if current_writer_id (h_hub w i) = Some cid
        then h_input (fst r) i = lasts RX_BUFFER_CAP (h_input w i @ buf) \<and> snd r = input_tx @ buf
        else r = (w, input_tx)) \<and>
       length (h_input (fst r) i) \<le> RX_BUFFER_CAP \<and> (\<forall>j. j \<noteq> i \<longrightarrow> h_input (fst r) j = h_input w j) \<and> h_hub (fst r) = h_hub w"
  using fold_vc_push [OF assms] assms by (auto simp: client_bytes_def Let_def lasts_def)

section \<open>Witnesses\<close>

definition dev_queue :: "u32 \<Rightarrow> u64 \<Rightarrow> vqueue" where
  "dev_queue q h = demo_queue\<lparr>queue_idx := q, header_size := h\<rparr>"

abbreviation con_queue :: "u32 \<Rightarrow> vqueue" where
  "con_queue q \<equiv> dev_queue q 0"

lemma dev_queue_simps [simp]:
  "queue_idx (dev_queue q h) = q" "header_size (dev_queue q h) = h" "queue_num (dev_queue q h) = 4"
  "desc_q (dev_queue q h) = 0" "avail_q (dev_queue q h) = 64" "used_q (dev_queue q h) = 80"
  "desc_slot (dev_queue q h) i = desc_slot demo_queue i" "desc_offset (dev_queue q h) d = desc_offset demo_queue d"
  "desc_out_of_range (dev_queue q h) d = desc_out_of_range demo_queue d"
  "clear_of_table k (dev_queue q h) d = clear_of_table k demo_queue d"
  by (simp_all add: dev_queue_def demo_queue_def desc_slot_def desc_offset_def desc_out_of_range_def clear_of_table_def
      split: option.splits)

lemma con_demo_descs:
  "desc_slot demo_queue 0 = 0" "desc_slot demo_queue 1 = 16" "desc_slot demo_queue 2 = 32"
  "\<not> desc_out_of_range demo_queue demo_hdr" "\<not> desc_out_of_range demo_queue demo_data" "\<not> desc_out_of_range demo_queue demo_status"
  "has_next demo_hdr" "has_next demo_data" "\<not> has_next demo_status" "d_next demo_hdr = 1" "d_next demo_data = 2"
  "d_len demo_hdr = 16" "d_len demo_data = 4" "d_len demo_status = 1"
  "desc_offset demo_queue demo_hdr = 128" "desc_offset demo_queue demo_data = 144" "desc_offset demo_queue demo_status = 148"
  "clear_of_table k demo_queue demo_hdr" "clear_of_table k demo_queue demo_data" "clear_of_table k demo_queue demo_status"
  by (simp_all add: desc_slot_def demo_queue_def desc_out_of_range_def demo_hdr_def demo_data_def demo_status_def
        checked_add_def has_next_def VRING_DESC_F_NEXT_def desc_offset_def clear_of_table_def)

lemma con_demo_tx:
  "chain_pending k (dev_queue 1 h) 0 (demo_mem [(128, 72), (129, 105)]) ([demo_hdr, demo_data] @ [demo_status])"
  using demo_descs [of "[(128, 72), (129, 105)]"]
  by (simp add: chain_pending_def con_demo_descs vq_fits_def head_of_def demo_mem_def)

theorem console_tx_chain_witness:
  "\<exists>c'. process_one_chain_for_queue con_ops (con_queue 1) 0
       \<lparr>dev = console_new 0, mem = demo_mem [(128, 72), (129, 105)], wld = demo_host\<rparr> = Some (True, 0 + 1, c') \<and>
     wld c' = push_to_hub 0 [72, 105, 0, 0, 0, 0, 0, 0, 0, 0, 0, 0, 0, 0, 0, 0, 0, 0, 0, 0] demo_host"
  using console_tx_chain [of "con_queue 1" 0 "\<lparr>dev = console_new 0, mem = demo_mem [(128, 72), (129, 105)], wld = demo_host\<rparr>"
      "[demo_hdr, demo_data]" demo_status] con_demo_tx
  by (simp add: TX_QUEUE_def con_demo_descs console_new_def Let_def demo_mem_def gm_load_def upt_rec_numeral) blast

text \<open>One received chain of one byte: the ring names the last of the three descriptors.\<close>

definition con_rx_ctx :: con_ctx where
  "con_rx_ctx = \<lparr>dev = console_new 0, mem = demo_mem [(68, 2)], wld = demo_host\<lparr>h_input := (\<lambda>_. [104, 105])\<rparr>\<rparr>"

lemma con_demo_rx: "chain_pending k (dev_queue 0 h) 0 (mem con_rx_ctx) [demo_status]"
proof -
  have "read_desc (demo_mem [(68, 2)]) 32 = demo_status" "gm_u16 (demo_mem [(68, 2)]) 66 = 1" "gm_u16 (demo_mem [(68, 2)]) 68 = 2"
    by (simp_all add: demo_mem_def demo_status_def read_desc_def gm_load_def upt_rec_numeral upt_0_8)
  then show ?thesis
    by (simp add: con_rx_ctx_def chain_pending_def con_demo_descs vq_fits_def head_of_def) (simp add: demo_mem_def)
qed

theorem console_rx_chain_witness:
  "\<exists>c'. process_one_chain_for_queue con_ops (con_queue 0) 0 con_rx_ctx = Some (True, 0 + 1, c') \<and>
     gm_load (mem c') 148 1 = [104] \<and> h_input (wld c') 0 = [105]"
proof -
  have "disj2 (used_q (con_queue 0), 4 + 8 * unat (queue_num (con_queue 0))) (desc_offset (con_queue 0) demo_status, unat (d_len demo_status))"
    by (simp add: con_demo_descs disj2_def)
  moreover have "h_input (wld con_rx_ctx) (vc_l2cpu (dev con_rx_ctx)) = [104, 105]" by (simp add: con_rx_ctx_def)
  ultimately show ?thesis
    using console_rx_chain [OF con_demo_rx [where h = 0], of "[104, 105]" 1]
    by (auto simp: RX_QUEUE_def con_demo_descs con_rx_ctx_def console_new_def)
qed

theorem client_bytes_fan_out_witness:
  "h_input (fst (client_bytes 1 0 [104, 105] (demo_host\<lparr>h_hub := (\<lambda>_. (hub_new 0)\<lparr>clients := [\<lparr>cl_id = 1, cl_sock = \<lparr>delivered = [], answers = [], shut = False\<rparr>, is_writer = True\<rparr>]\<rparr>)\<rparr>, []))) 0 =
     [104, 105]"
  using client_bytes_fan_out [of "demo_host\<lparr>h_hub := (\<lambda>_. (hub_new 0)\<lparr>clients := [\<lparr>cl_id = 1, cl_sock = \<lparr>delivered = [], answers = [], shut = False\<rparr>, is_writer = True\<rparr>]\<rparr>)\<rparr>" 0 1 "[104, 105]" "[]"]
  by (simp add: Let_def demo_host_def current_writer_id_def find_writer_def lasts_def RX_BUFFER_CAP_def)

end
