(* ===== verification/Virtio_Rng.thy ===== *)
theory Virtio_Rng
  imports Virtio_Console
begin

text \<open>
  The virtio entropy device (\<open>src/src/virtio/rng.rs\<close>). The kernel's \<open>getrandom\<close> is a parameter: the answers
  to its calls, one after the other, are part of the state that the device reaches. The lemmas show that
  every request ends, is filled completely and nowhere else, and what it is filled with.
\<close>

section \<open>Model\<close>

text \<open>
  \<open>answers n\<close> is what the \<open>n\<close>-th call of \<open>getrandom\<close> has to give; the call returns at most as many bytes as
  it was asked for, and an answer without bytes is a failed call.
\<close>

record entropy =
  rnd_answers :: "nat \<Rightarrow> u8 list"
  rnd_calls :: nat

type_synonym rng_ctx = "(unit, entropy) ctx"

function fill_loop :: "nat \<Rightarrow> nat \<Rightarrow> nat \<Rightarrow> entropy \<Rightarrow> guest_mem \<Rightarrow> entropy \<times> guest_mem" where
  "fill_loop addr filled tot e m =
     (if filled < tot then
        let chunk = min (tot - filled) 256;
            ret = take chunk (rnd_answers e (rnd_calls e));
            e' = e\<lparr>rnd_calls := rnd_calls e + 1\<rparr>
        in if ret = [] then
             fill_loop addr (filled + chunk) tot e'
               (gm_store (addr + filled) (map (\<lambda>i. word_of_nat (filled + i)) [0..<chunk]) m)
           else
             fill_loop addr (filled + length ret) tot e' (gm_store (addr + filled) ret m)
      else (e, m))"
  by pat_completeness auto
termination
proof (relation "measure (\<lambda>(addr, filled, tot, e, m). tot - filled)")
  fix addr filled tot :: nat and e :: entropy and m :: guest_mem and chunk ret and e' :: entropy
  assume a: "filled < tot" "chunk = min (tot - filled) 256" "ret = take chunk (rnd_answers e (rnd_calls e))"
  then show "((addr, filled + chunk, tot, e', gm_store (addr + filled) (map (\<lambda>i. word_of_nat (filled + i)) [0..<chunk]) m),
      addr, filled, tot, e, m) \<in> measure (\<lambda>(addr, filled, tot, e, m). tot - filled)" by auto
  assume "ret \<noteq> []"
  then have "0 < length ret" by simp
  then show "((addr, filled + length ret, tot, e', gm_store (addr + filled) ret m), addr, filled, tot, e, m) \<in>
      measure (\<lambda>(addr, filled, tot, e, m). tot - filled)"
    using a(1) by (simp only: in_measure prod.case)
qed simp

declare fill_loop.simps [simp del]

definition fill_with_entropy :: "nat \<Rightarrow> u64 \<Rightarrow> rng_ctx \<Rightarrow> rng_ctx" where
  "fill_with_entropy addr len c =
     (if len = 0 then c
      else case fill_loop addr 0 (unat len) (wld c) (mem c) of (e, m) \<Rightarrow> c\<lparr>wld := e, mem := m\<rparr>)"

definition rng_ops :: "(unit, entropy) device_ops" where
  "rng_ops =
     \<lparr>num_queues = (\<lambda>_. 1), queue_header_size = (\<lambda>_. 0), device_id = (\<lambda>_. 4),
      device_features = (\<lambda>_. (0, 1)),
      process_queue_start = (\<lambda>_. fill_with_entropy), process_queue_data = (\<lambda>_. fill_with_entropy),
      process_queue_complete = (\<lambda>_ addr len c. (len, fill_with_entropy addr len c)), queue_has_data = (\<lambda>_ _. True)\<rparr>"

section \<open>What a buffer is filled with\<close>

text \<open>The bytes that a run of the loop writes, without the memory.\<close>

function entropy_bytes :: "nat \<Rightarrow> nat \<Rightarrow> entropy \<Rightarrow> u8 list" where
  "entropy_bytes filled tot e =
     (if filled < tot then
        let chunk = min (tot - filled) 256;
            ret = take chunk (rnd_answers e (rnd_calls e));
            piece = (if ret = [] then map (\<lambda>i. word_of_nat (filled + i)) [0..<chunk] else ret)
        in piece @ entropy_bytes (filled + length piece) tot (e\<lparr>rnd_calls := rnd_calls e + 1\<rparr>)
      else [])"
  by pat_completeness auto
termination
proof (relation "measure (\<lambda>(filled, tot, e). tot - filled)")
  fix filled tot chunk :: nat and e :: entropy and ret piece :: "u8 list"
  assume a: "filled < tot" "chunk = min (tot - filled) 256"
    "piece = (if ret = [] then map (\<lambda>i. word_of_nat (filled + i)) [0..<chunk] else ret)"
  then have "0 < length piece" by (cases "ret = []") auto
  then show "((filled + length piece, tot, e\<lparr>rnd_calls := rnd_calls e + 1\<rparr>), filled, tot, e) \<in> measure (\<lambda>(filled, tot, e). tot - filled)"
    using a(1) by (simp only: in_measure prod.case)
qed simp

declare entropy_bytes.simps [simp del]

lemma length_entropy_bytes: "filled \<le> tot \<Longrightarrow> length (entropy_bytes filled tot e) = tot - filled"
proof (induction filled tot e rule: entropy_bytes.induct)
  case (1 filled tot e)
  let ?chunk = "min (tot - filled) 256"
  let ?ret = "take ?chunk (rnd_answers e (rnd_calls e))"
  let ?piece = "if ?ret = [] then map (\<lambda>i. word_of_nat (filled + i)) [0..<?chunk] else ?ret"
  show ?case
  proof (cases "filled < tot")
    case True
    have "length ?piece \<le> tot - filled" by auto
    moreover have "length (entropy_bytes (filled + length ?piece) tot (e\<lparr>rnd_calls := rnd_calls e + 1\<rparr>)) = tot - (filled + length ?piece)"
      by (rule "1.IH" [OF True refl refl refl]) (use True calculation in linarith)
    ultimately show ?thesis
      by (subst entropy_bytes.simps) (simp only: True if_True Let_def length_append, linarith)
  next
    case False
    then show ?thesis using "1.prems" by (subst entropy_bytes.simps) simp
  qed
qed

lemma store_append:
  "gm_bytes (gm_store (a + length xs) ys (gm_store a xs m)) = gm_bytes (gm_store a (xs @ ys) m)"
  by (auto simp: gm_bytes_store nth_append fun_eq_iff)

lemma store_nothing: "gm_bytes (gm_store a [] m) = gm_bytes m"
  by (auto simp: gm_bytes_store fun_eq_iff)

lemma fill_loop_run:
  "filled \<le> tot \<Longrightarrow> fill_loop addr filled tot e m = (e', m') \<Longrightarrow>
     gm_bytes m' = gm_bytes (gm_store (addr + filled) (entropy_bytes filled tot e) m) \<and> gm_size m' = gm_size m \<and>
     (addr + tot \<le> gm_size m \<longrightarrow> gm_fault m' = gm_fault m)"
proof (induction addr filled tot e m rule: fill_loop.induct)
  case (1 addr filled tot e m)
  let ?chunk = "min (tot - filled) 256"
  let ?ret = "take ?chunk (rnd_answers e (rnd_calls e))"
  let ?piece = "if ?ret = [] then map (\<lambda>i. word_of_nat (filled + i)) [0..<?chunk] else ?ret"
  let ?e = "e\<lparr>rnd_calls := rnd_calls e + 1\<rparr>"
  show ?case
  proof (cases "filled < tot")
    case True
    have l: "length ?piece \<le> tot - filled" by auto
    have chunk: "filled + ?chunk \<le> tot" using True by simp
    have run: "fill_loop addr (filled + length ?piece) tot ?e (gm_store (addr + filled) ?piece m) = (e', m')"
      using "1.prems"(2) True by (subst (asm) fill_loop.simps) (auto simp: Let_def split: if_splits)
    have IH: "gm_bytes m' = gm_bytes (gm_store (addr + (filled + length ?piece)) (entropy_bytes (filled + length ?piece) tot ?e)
        (gm_store (addr + filled) ?piece m)) \<and> gm_size m' = gm_size (gm_store (addr + filled) ?piece m) \<and>
        (addr + tot \<le> gm_size (gm_store (addr + filled) ?piece m) \<longrightarrow> gm_fault m' = gm_fault (gm_store (addr + filled) ?piece m))"
    proof (cases "?ret = []")
      case True
      then show ?thesis using "1.IH"(1) [OF \<open>filled < tot\<close> refl refl refl True] run chunk by simp
    next
      case False
      then have p: "?piece = ?ret" by (simp only: if_False)
      have "filled + length ?ret \<le> tot" using l \<open>filled < tot\<close> unfolding p by linarith
      then show ?thesis unfolding p by (rule "1.IH"(2) [OF \<open>filled < tot\<close> refl refl refl False _ run [unfolded p]])
    qed
    have "entropy_bytes filled tot e = ?piece @ entropy_bytes (filled + length ?piece) tot ?e"
      using True by (subst entropy_bytes.simps) (simp only: if_True Let_def)
    moreover have "gm_ok (addr + filled) (length ?piece) m" if "addr + tot \<le> gm_size m"
      using that l True unfolding gm_ok_def by linarith
    ultimately show ?thesis
      using IH store_append [of "addr + filled" ?piece "entropy_bytes (filled + length ?piece) tot ?e" m] by (simp add: add.assoc)
  next
    case False
    then have "fill_loop addr filled tot e m = (e, m)" "entropy_bytes filled tot e = []"
      by (simp_all add: fill_loop.simps entropy_bytes.simps)
    then show ?thesis using "1.prems" by (simp add: store_nothing)
  qed
qed

lemma fill_with_entropy_run:
  "gm_bytes (mem (fill_with_entropy addr len c)) = gm_bytes (gm_store addr (entropy_bytes 0 (unat len) (wld c)) (mem c))"
  "gm_size (mem (fill_with_entropy addr len c)) = gm_size (mem c)"
  "addr + unat len \<le> gm_size (mem c) \<Longrightarrow> gm_fault (mem (fill_with_entropy addr len c)) = gm_fault (mem c)"
proof -
  obtain e m where r: "fill_loop addr 0 (unat len) (wld c) (mem c) = (e, m)" by (metis surj_pair)
  have z: "entropy_bytes 0 0 (wld c) = []" by (simp add: entropy_bytes.simps)
  show "gm_bytes (mem (fill_with_entropy addr len c)) = gm_bytes (gm_store addr (entropy_bytes 0 (unat len) (wld c)) (mem c))"
    "gm_size (mem (fill_with_entropy addr len c)) = gm_size (mem c)"
    "addr + unat len \<le> gm_size (mem c) \<Longrightarrow> gm_fault (mem (fill_with_entropy addr len c)) = gm_fault (mem c)"
    using fill_loop_run [OF _ r] r by (auto simp: fill_with_entropy_def z store_nothing)
qed

interpretation rng_dev: virtio_device rng_ops 0 0 "\<lambda>_. True" "\<lambda>_ _. True"
proof unfold_locales
  fix off q and len :: u64 and c :: rng_ctx
  have f: "gm_frame off (off + unat len) (mem c) (mem (fill_with_entropy off len c))"
    by (auto simp: gm_frame_def fill_with_entropy_run gm_bytes_store length_entropy_bytes)
  then show "gm_frame off (off + unat len + 0) (mem c) (mem (process_queue_start rng_ops q off len c))"
    "gm_frame off (off + unat len + 0) (mem c) (mem (process_queue_data rng_ops q off len c))"
    "gm_frame off (off + unat len + 0) (mem c) (mem (snd (process_queue_complete rng_ops q off len c)))"
    by (simp_all add: rng_ops_def)
  assume "off + unat len + 0 \<le> gm_size (mem c)"
  then show "gm_fault (mem (process_queue_start rng_ops q off len c)) = gm_fault (mem c) \<and> True"
    "gm_fault (mem (process_queue_data rng_ops q off len c)) = gm_fault (mem c) \<and> True"
    "gm_fault (mem (snd (process_queue_complete rng_ops q off len c))) = gm_fault (mem c) \<and> True"
    by (simp_all add: rng_ops_def fill_with_entropy_run(3))
qed simp_all

text \<open>
  A kernel that always fails, and one that always answers, if with fewer bytes than it is asked for: the
  bytes are then the counter pattern, and the answers one after the other.
\<close>

lemma entropy_bytes_failed:
  "(\<And>n. rnd_answers e n = []) \<Longrightarrow> filled \<le> tot \<Longrightarrow> entropy_bytes filled tot e = map word_of_nat [filled..<tot]"
proof (induction filled tot e rule: entropy_bytes.induct)
  case (1 filled tot e)
  let ?chunk = "min (tot - filled) 256"
  show ?case
  proof (cases "filled < tot")
    case True
    have "entropy_bytes (filled + ?chunk) tot (e\<lparr>rnd_calls := rnd_calls e + 1\<rparr>) = map word_of_nat [filled + ?chunk..<tot]"
      using "1.IH" [OF True refl refl refl] "1.prems" by simp
    moreover have "map (\<lambda>i. word_of_nat (filled + i) :: u8) [0..<?chunk] = map word_of_nat [filled..<filled + ?chunk]"
      by (rule nth_equalityI) auto
    moreover have "[filled..<tot] = [filled..<filled + ?chunk] @ [filled + ?chunk..<tot]"
      using True upt_add_eq_append [of filled "filled + ?chunk" "tot - (filled + ?chunk)"] by simp
    ultimately show ?thesis using "1.prems"(1) True by (subst entropy_bytes.simps) (simp add: Let_def)
  next
    case False
    then show ?thesis using "1.prems" by (subst entropy_bytes.simps) simp
  qed
qed

definition entropy_answers :: "nat \<Rightarrow> entropy \<Rightarrow> u8 list" where
  "entropy_answers n e = concat (map (\<lambda>k. take 256 (rnd_answers e (rnd_calls e + k))) [0..<n])"

lemma entropy_answers_Suc:
  "entropy_answers (Suc n) e = take 256 (rnd_answers e (rnd_calls e)) @ entropy_answers n (e\<lparr>rnd_calls := rnd_calls e + 1\<rparr>)"
  by (simp add: entropy_answers_def upt_conv_Cons comp_def del: upt_Suc flip: map_Suc_upt)

lemma entropy_bytes_answers:
  "(\<And>n. rnd_answers e n \<noteq> []) \<Longrightarrow> filled \<le> tot \<Longrightarrow> tot - filled \<le> n \<Longrightarrow>
     entropy_bytes filled tot e = take (tot - filled) (entropy_answers n e)"
proof (induction filled tot e arbitrary: n rule: entropy_bytes.induct)
  case (1 filled tot e)
  show ?case
  proof (cases "filled < tot")
    case True
    then obtain n' where n: "n = Suc n'" using "1.prems"(3) by (cases n) simp_all
    let ?piece = "take (min (tot - filled) 256) (rnd_answers e (rnd_calls e))" and ?e = "e\<lparr>rnd_calls := rnd_calls e + 1\<rparr>"
    have ne: "?piece \<noteq> []" using True "1.prems"(1) [of "rnd_calls e"] by simp
    then have l1: "0 < length ?piece" by (rule length_greater_0_conv [THEN iffD2])
    have l2: "length ?piece \<le> tot - filled" by simp
    have p: "(if ?piece = [] then map (\<lambda>i. word_of_nat (filled + i)) [0..<min (tot - filled) 256] else ?piece) = ?piece"
      using ne by (rule if_not_P)
    have IH: "entropy_bytes (filled + length ?piece) tot ?e = take (tot - (filled + length ?piece)) (entropy_answers n' ?e)"
    proof (rule "1.IH" [OF True refl refl refl, unfolded p])
      show "filled + length ?piece \<le> tot" "tot - (filled + length ?piece) \<le> n'" using l1 l2 True "1.prems"(3) n by linarith+
    qed (use "1.prems"(1) in simp)
    have "entropy_bytes filled tot e = ?piece @ entropy_bytes (filled + length ?piece) tot ?e"
      by (subst entropy_bytes.simps) (simp only: True if_True Let_def p)
    also have "\<dots> = take (tot - filled) (take 256 (rnd_answers e (rnd_calls e)) @ entropy_answers n' ?e)"
    proof (cases "length (take 256 (rnd_answers e (rnd_calls e))) \<le> tot - filled")
      case True
      then have "?piece = take 256 (rnd_answers e (rnd_calls e))"
        using take_all [of "take 256 (rnd_answers e (rnd_calls e))" "tot - filled"] by (simp only: take_take)
      then show ?thesis unfolding IH using True by simp
    next
      case False
      then have "?piece = take (tot - filled) (take 256 (rnd_answers e (rnd_calls e)))" "length ?piece = tot - filled" by auto
      then show ?thesis unfolding IH using False by simp
    qed
    finally show ?thesis by (simp only: n entropy_answers_Suc)
  next
    case False
    then show ?thesis using "1.prems" by (subst entropy_bytes.simps) simp
  qed
qed

section \<open>A request\<close>

lemma serve_rng:
  assumes "header_size vq = 0"
  shows "serve_descs rng_ops vq True w ds c = (w + sum_list (map (\<lambda>d. ucast (d_len d)) ds),
    fold (\<lambda>d. fill_with_entropy (desc_offset vq d) (ucast (d_len d))) ds c)"
proof (induction ds arbitrary: w c)
  case (Cons d ds)
  then show ?case using assms by (simp add: rng_ops_def add.assoc)
qed simp

text \<open>
  C29. A request of one buffer always completes, with the length of the buffer, and writes nothing but the
  buffer and the used ring. When every call of getrandom fails the buffer is the counter pattern. When
  every call gives bytes, even fewer than it was asked for, the buffer is the beginning of the answers
  put one after the other: the loop keeps a short answer and asks again, where the comment of
  fill_with_entropy announces the counter pattern.
\<close>

theorem rng_request_filled:
  assumes "chain_pending 0 vq processed (mem c) [d]" "header_size vq = 0"
    and "disj2 (used_q vq, 4 + 8 * unat (queue_num vq)) (desc_offset vq d, unat (d_len d))"
    and "a = desc_offset vq d" "n = unat (d_len d)"
  shows "\<exists>c'. process_one_chain_for_queue rng_ops vq processed c = Some (True, processed + 1, c') \<and>
    gm_u16 (mem c') (used_q vq + 2) = gm_u16 (mem c) (used_q vq + 2) + 1 \<and>
    gm_u32 (mem c') (used_q vq + 4 + 8 * (unat (gm_u16 (mem c) (used_q vq + 2)) mod unat (queue_num vq)) + 4) = d_len d \<and>
    ((\<forall>k. rnd_answers (wld c) k = []) \<longrightarrow> gm_load (mem c') a n = map word_of_nat [0..<n]) \<and>
    ((\<forall>k. rnd_answers (wld c) k \<noteq> []) \<longrightarrow> gm_load (mem c') a n = take n (entropy_answers n (wld c))) \<and>
    (\<forall>x. \<not> (a \<le> x \<and> x < a + n) \<and> \<not> (used_q vq + 2 \<le> x \<and> x < used_q vq + 4 + 8 * unat (queue_num vq)) \<longrightarrow>
       gm_bytes (mem c') x = gm_bytes (mem c) x)"
proof -
  note p = assms(1) [unfolded chain_pending_def]
  let ?c1 = "fill_with_entropy (desc_offset vq d) (ucast (d_len d)) c"
  let ?m = "post_used vq (head_of vq processed (mem c)) (ucast (d_len d)) (mem ?c1)"
  have "queue_has_data rng_ops (queue_idx vq) c" by (simp add: rng_ops_def)
  then have run: "process_one_chain_for_queue rng_ops vq processed c = Some (True, processed + 1, ?c1\<lparr>mem := ?m\<rparr>)"
    using rng_dev.one_chain_serves [of vq c processed "head_of vq processed (mem c)" True "[d]"] p
      serve_rng [OF assms(2), of 0 "[d]" c] by (simp add: head_of_def)
  have nz: "queue_num vq \<noteq> 0" using p by (simp add: vq_fits_def)
  note pu = post_used_result [OF nz, where m = "mem ?c1" and head = "head_of vq processed (mem c)" and written = "ucast (d_len d)"]
  have u: "gm_u16 (mem ?c1) (used_q vq + 2) = gm_u16 (mem c) (used_q vq + 2)"
    using assms(3) by (intro arg_cong [where f = of_le_bytes] gm_load_cong)
      (auto simp: fill_with_entropy_run gm_bytes_store disj2_def length_entropy_bytes)
  have "gm_load ?m (desc_offset vq d) (unat (d_len d)) = gm_load (mem ?c1) (desc_offset vq d) (unat (d_len d))"
    using pu(4) assms(3) by (intro gm_frame_load) (auto simp: disj2_def)
  also have "\<dots> = entropy_bytes 0 (unat (d_len d)) (wld c)"
    by (intro nth_equalityI) (auto simp: fill_with_entropy_run gm_bytes_store length_entropy_bytes)
  moreover have "(ucast (ucast (d_len d) :: u64) :: u32) = d_len d"
    by (metis of_nat_unat_ucast ucast_u32_u64 ucast_id)
  moreover have "gm_bytes ?m x = gm_bytes (mem c) x"
    if "\<not> (a \<le> x \<and> x < a + n)" "\<not> (used_q vq + 2 \<le> x \<and> x < used_q vq + 4 + 8 * unat (queue_num vq))" for x
    using pu(4) that by (auto simp: assms(4,5) gm_frame_def fill_with_entropy_run gm_bytes_store length_entropy_bytes)
  ultimately show ?thesis
    using run pu(1,3) entropy_bytes_failed [of "wld c" 0 n] entropy_bytes_answers [of "wld c" 0 n n] unfolding u assms(4,5) by auto
qed

definition rng_demo_ctx :: rng_ctx where
  "rng_demo_ctx = \<lparr>dev = (), mem = demo_mem [(68, 2)], wld = \<lparr>rnd_answers = (\<lambda>_. []), rnd_calls = 0\<rparr>\<rparr>"

theorem rng_request_filled_witness:
  "\<exists>c'. process_one_chain_for_queue rng_ops (con_queue 0) 0 rng_demo_ctx = Some (True, 0 + 1, c') \<and>
     gm_load (mem c') 148 1 = [0]"
proof -
  have "chain_pending 0 (con_queue 0) 0 (mem rng_demo_ctx) [demo_status]"
    using con_demo_rx by (simp add: rng_demo_ctx_def con_rx_ctx_def)
  moreover have "disj2 (used_q (con_queue 0), 4 + 8 * unat (queue_num (con_queue 0))) (desc_offset (con_queue 0) demo_status, unat (d_len demo_status))"
    by (simp add: con_demo_descs disj2_def)
  ultimately show ?thesis
    using rng_request_filled [of "con_queue 0" 0 rng_demo_ctx demo_status, OF _ _ _ refl refl] by (auto simp: con_demo_descs rng_demo_ctx_def)
qed

end
