(* ===== verification/Net_Checksum.thy ===== *)
theory Net_Checksum
  imports Prelude
begin

text \<open>
  \<open>fix_tx_l4_checksum\<close> of \<open>src/src/virtio/network.rs\<close>: the checksum of an IPv4 TCP or UDP frame, computed in
  place. The main lemma says that a receiver accepts the result: the ones' complement sum over pseudo header
  and segment is zero. Frames of other kinds are left alone.
\<close>

section \<open>Model\<close>

definition be16 :: "u8 \<Rightarrow> u8 \<Rightarrow> u16" where
  "be16 a b = push_bit 8 (ucast a) OR ucast b"

text \<open>The walk over the segment: pairs of bytes, and a last odd byte as the high half of a pair.\<close>

fun add_words :: "u32 \<Rightarrow> u8 list \<Rightarrow> u32" where
  "add_words s (a # b # rest) = add_words (s + ucast (be16 a b)) rest"
| "add_words s [a] = s + push_bit 8 (ucast a)"
| "add_words s [] = s"

lemma fold_decreases:
  fixes s :: u32
  assumes "s > 0xFFFF"
  shows "unat (drop_bit 16 s + (s AND 0xFFFF)) = unat s div 65536 + unat s mod 65536"
    and "unat s div 65536 + unat s mod 65536 < unat s"
proof -
  have b: "unat s < 2 ^ 32" using unsigned_less [of s, where 'a = nat] by simp
  have d: "unat (drop_bit 16 s) = unat s div 65536"
    using b by (simp only: unsigned_drop_bit_eq) (simp add: drop_bit_eq_div take_bit_nat_eq_self)
  have "s AND 0xFFFF = take_bit 16 s" by (simp add: take_bit_eq_mask mask_eq_exp_minus_1)
  then have m: "unat (s AND 0xFFFF) = unat s mod 65536"
    by (simp only: unsigned_take_bit_eq) (simp add: take_bit_eq_mod)
  have "unat s > 65535" using assms by (simp add: word_less_nat_alt)
  then have "1 \<le> unat s div 65536" by simp
  moreover have e: "unat s div 65536 * 65536 + unat s mod 65536 = unat s" by (rule div_mult_mod_eq)
  ultimately show l: "unat s div 65536 + unat s mod 65536 < unat s" by linarith
  show "unat (drop_bit 16 s + (s AND 0xFFFF)) = unat s div 65536 + unat s mod 65536"
    using l b unfolding unat_word_ariths d m by simp
qed

function fold_sum :: "u32 \<Rightarrow> u32" where
  "fold_sum s = (if s > 0xFFFF then fold_sum (drop_bit 16 s + (s AND 0xFFFF)) else s)"
  by pat_completeness auto
termination
  by (relation "measure unat") (use fold_decreases in auto)

declare fold_sum.simps [simp del]

text \<open>
  The tests on the frame: position of the checksum field, position and length of the segment, and the
  protocol, when the frame has a checksum to fix.
\<close>

definition l4_layout :: "u8 list \<Rightarrow> (nat \<times> nat \<times> nat \<times> u8) option" where
  "l4_layout buf =
     (if length buf < 14 + 20 then None
      else if be16 (buf ! 12) (buf ! 13) \<noteq> 0x0800 then None
      else if drop_bit 4 (buf ! 14) \<noteq> 4 then None
      else let ihl = unat (buf ! 14 AND 0x0f) * 4 in
        if ihl < 20 \<or> length buf < 14 + ihl then None
      else let total_len = unat (be16 (buf ! 16) (buf ! 17)) in
        if total_len < ihl \<or> length buf < 14 + total_len then None
      else let proto = buf ! 23;
               field = (if proto = 6 then Some (14 + ihl + 16) else if proto = 17 then Some (14 + ihl + 6) else None)
           in case field of
                None \<Rightarrow> None
              | Some csum_field_off \<Rightarrow>
                  if csum_field_off + 2 > length buf then None
                  else Some (csum_field_off, 14 + ihl, total_len - ihl, proto))"

definition pseudo_sum :: "u8 list \<Rightarrow> u8 \<Rightarrow> nat \<Rightarrow> u32" where
  "pseudo_sum buf proto l4_len =
     fold (\<lambda>i s. s + ucast (be16 (buf ! (26 + i)) (buf ! (27 + i))) + ucast (be16 (buf ! (30 + i)) (buf ! (31 + i))))
       [0, 2] 0 + ucast proto + word_of_nat l4_len"

definition fix_tx_l4_checksum :: "u8 list \<Rightarrow> u8 list" where
  "fix_tx_l4_checksum buf =
     (case l4_layout buf of
        None \<Rightarrow> buf
      | Some (field, l4_off, l4_len, proto) \<Rightarrow>
          let buf1 = buf[field := 0, field + 1 := 0];
              s = fold_sum (add_words (pseudo_sum buf1 proto l4_len) (take l4_len (drop l4_off buf1)));
              checksum = NOT (ucast s :: u16);
              checksum = (if proto = 17 \<and> checksum = 0 then 0xFFFF else checksum)
          in buf1[field := ucast (drop_bit 8 checksum), field + 1 := ucast (checksum AND 0xff)])"

section \<open>Sums\<close>

lemma u8_less: "unat (b :: u8) < 256"
  using unsigned_less [of b, where 'a = nat] by simp

lemma unat_be16: "unat (be16 a b) = 256 * unat a + unat b"
proof -
  have u: "unat (ucast x :: u16) = unat x" for x :: u8 by (rule unat_ucast_up) simp
  have "push_bit 8 (ucast a :: u16) AND ucast b = 0"
    by (rule bit_word_eqI) (auto simp: bit_simps dest: bit_imp_le_length)
  then have "be16 a b = push_bit 8 (ucast a) + ucast b"
    unfolding be16_def by (rule disjunctive_add_eq_or [symmetric])
  then have "be16 a b = 256 * ucast a + ucast b" by (simp add: push_bit_eq_mult mult.commute)
  moreover have "unat (256 * ucast a :: u16) = 256 * unat a"
    using u8_less [of a] by (simp add: unat_word_ariths u)
  ultimately show ?thesis
    using u8_less [of a] u8_less [of b] by (simp add: unat_word_ariths u)
qed

text \<open>The sums as natural numbers; below 2^32 the 32-bit additions agree with them.\<close>

fun seg_sum :: "u8 list \<Rightarrow> nat" where
  "seg_sum (a # b # rest) = 256 * unat a + unat b + seg_sum rest"
| "seg_sum [a] = 256 * unat a"
| "seg_sum [] = 0"

lemma seg_sum_bound: "seg_sum bs \<le> 65535 * length bs"
proof (induction bs rule: seg_sum.induct)
  case (1 a b rest)
  then show ?case using u8_less [of a] u8_less [of b] by simp
next
  case (2 a)
  then show ?case using u8_less [of a] by simp
qed simp

lemma unat_u32_u8: "unat (ucast (x :: u8) :: u32) = unat x"
  by (rule unat_ucast_up) simp

lemma unat_u32_u16: "unat (ucast (x :: u16) :: u32) = unat x"
  by (rule unat_ucast_up) simp

lemma add_words_nat: "unat s + seg_sum bs < 2 ^ 32 \<Longrightarrow> unat (add_words s bs) = unat s + seg_sum bs"
proof (induction s bs rule: add_words.induct)
  case (1 s a b rest)
  have "unat (s + ucast (be16 a b)) = unat s + (256 * unat a + unat b)"
    using "1.prems" by (simp add: unat_word_ariths unat_u32_u16 unat_be16)
  then show ?case using "1.IH" "1.prems" by simp
next
  case (2 s a)
  have "push_bit 8 (ucast a :: u32) = 256 * ucast a" by (simp add: push_bit_eq_mult mult.commute)
  moreover have "unat (256 * ucast a :: u32) = 256 * unat a"
    using u8_less [of a] by (simp add: unat_word_ariths unat_u32_u8)
  ultimately show ?case using "2.prems" by (simp add: unat_word_ariths)
qed simp

lemma seg_sum_update:
  "even i \<Longrightarrow> Suc i < length bs \<Longrightarrow>
     seg_sum (bs[i := x, Suc i := y]) + (256 * unat (bs ! i) + unat (bs ! Suc i)) = seg_sum bs + (256 * unat x + unat y)"
proof (induction bs arbitrary: i rule: seg_sum.induct)
  case (1 a b rest)
  show ?case
  proof (cases i)
    case (Suc k)
    then obtain j where "i = Suc (Suc j)" "even j" using "1.prems"(1) by (metis even_Suc not0_implies_Suc odd_pos gr0_implies_Suc Suc)
    then show ?thesis using "1.IH" [of j] "1.prems" by simp
  qed simp
qed auto

lemma fold_sum_spec: "unat (fold_sum s) mod 65535 = unat s mod 65535 \<and> unat (fold_sum s) \<le> 65535 \<and> (fold_sum s = 0 \<longrightarrow> s = 0)"
proof (induction s rule: fold_sum.induct)
  case (1 s)
  show ?case
  proof (cases "s > 0xFFFF")
    case True
    let ?t = "drop_bit 16 s + (s AND 0xFFFF)"
    have r: "fold_sum s = fold_sum ?t" using True by (subst fold_sum.simps) simp
    have t: "unat ?t = unat s div 65536 + unat s mod 65536" by (rule fold_decreases(1) [OF True])
    have "unat s = 65536 * (unat s div 65536) + unat s mod 65536" by simp
    then have "unat s = 65535 * (unat s div 65536) + unat ?t" using t by linarith
    then have "unat ?t mod 65535 = unat s mod 65535" by (metis mod_mult_self4)
    moreover have "?t \<noteq> 0"
    proof
      assume "?t = 0"
      then have "unat s div 65536 = 0" using t by simp
      then show False using True by (simp add: word_less_nat_alt)
    qed
    ultimately show ?thesis using "1.IH" [OF True] unfolding r by simp
  next
    case False
    then have "fold_sum s = s" by (subst fold_sum.simps) simp
    then show ?thesis using False by (simp add: word_less_nat_alt)
  qed
qed

section \<open>The checksum is right\<close>

lemma u16_less: "unat (x :: u16) < 65536"
  using unsigned_less [of x, where 'a = nat] by simp

lemma unat_plus_u32: "unat x < a \<Longrightarrow> unat y < b \<Longrightarrow> a + b \<le> 2 ^ 32 \<Longrightarrow> unat (x + y :: u32) = unat x + unat y"
  by (simp add: unat_word_ariths)

lemma unat_pseudo_sum:
  assumes "l4_len < 2 ^ 16"
  shows "unat (pseudo_sum buf proto l4_len) =
    (unat (be16 (buf ! 26) (buf ! 27)) + unat (be16 (buf ! 30) (buf ! 31)) +
     unat (be16 (buf ! 28) (buf ! 29)) + unat (be16 (buf ! 32) (buf ! 33))) + unat proto + l4_len"
proof -
  define a b c d e f :: u32 where "a = ucast (be16 (buf ! 26) (buf ! 27))" and "b = ucast (be16 (buf ! 30) (buf ! 31))"
    and "c = ucast (be16 (buf ! 28) (buf ! 29))" and "d = ucast (be16 (buf ! 32) (buf ! 33))"
    and "e = ucast proto" and "f = word_of_nat l4_len"
  have p: "pseudo_sum buf proto l4_len = a + b + c + d + e + f"
    by (simp add: pseudo_sum_def a_def b_def c_def d_def e_def f_def)
  have l: "unat a < 65536" "unat b < 65536" "unat c < 65536" "unat d < 65536" "unat e < 256" "unat f = l4_len"
    using u16_less u8_less [of proto] assms
    by (simp_all add: a_def b_def c_def d_def e_def f_def unat_u32_u16 unat_u32_u8 unsigned_of_nat take_bit_nat_eq_self)
  have ab: "unat (a + b) = unat a + unat b" by (rule unat_plus_u32 [OF l(1,2)]) simp
  then have "unat (a + b) < 131072" using l by simp
  from unat_plus_u32 [OF this l(3)] have abc: "unat (a + b + c) = unat a + unat b + unat c" by (simp add: ab)
  then have "unat (a + b + c) < 196608" using l by simp
  from unat_plus_u32 [OF this l(4)] have abcd: "unat (a + b + c + d) = unat a + unat b + unat c + unat d" by (simp add: abc)
  then have "unat (a + b + c + d) < 262144" using l by simp
  from unat_plus_u32 [OF this l(5)] have abcde: "unat (a + b + c + d + e) = unat a + unat b + unat c + unat d + unat e" by (simp add: abcd)
  then have "unat (a + b + c + d + e) < 262400" using l by simp
  from unat_plus_u32 [OF this, of f 65536] have "unat (a + b + c + d + e + f) = unat a + unat b + unat c + unat d + unat e + l4_len"
    using l(6) assms by (simp add: abcde)
  then show ?thesis unfolding p by (simp add: a_def b_def c_def d_def e_def unat_u32_u16 unat_u32_u8)
qed

lemma l4_layoutD:
  assumes "l4_layout buf = Some (field, off, n, proto)"
  shows "34 \<le> off" "field = off + 16 \<or> field = off + 6" "field + 2 \<le> length buf" "off + n \<le> length buf" "n < 2 ^ 16"
proof -
  define ihl tl where "ihl = unat (buf ! 14 AND 0x0f) * 4" and "tl = unat (be16 (buf ! 16) (buf ! 17))"
  have "tl < 65536" unfolding tl_def by (rule u16_less)
  moreover have "20 \<le> ihl \<and> ihl \<le> tl \<and> 14 + tl \<le> length buf \<and> off = 14 + ihl \<and> n = tl - ihl \<and>
      (field = off + 16 \<or> field = off + 6) \<and> field + 2 \<le> length buf"
    using assms unfolding l4_layout_def Let_def ihl_def [symmetric] tl_def [symmetric]
    by (simp split: if_split_asm)
  ultimately show "34 \<le> off" "field = off + 16 \<or> field = off + 6" "field + 2 \<le> length buf" "off + n \<le> length buf" "n < 2 ^ 16"
    by (simp_all, linarith+)
qed

lemma complement_sum:
  fixes s :: u32
  assumes "unat s \<le> 65535"
  shows "unat (NOT (ucast s :: u16)) = 65535 - unat s"
proof -
  have "unat (ucast s :: u16) = unat s" using assms by (simp add: unsigned_ucast_eq take_bit_nat_eq_self)
  moreover have "unat (-1 :: u16) = 65535" by (subst unsigned_minus_1_eq_mask) (simp add: mask_eq_exp_minus_1)
  moreover have "NOT (ucast s :: u16) = -1 - ucast s" by (simp add: not_eq_complement)
  moreover have "unat (-1 - ucast s :: u16) = unat (-1 :: u16) - unat (ucast s :: u16)"
    by (rule unat_sub) (simp add: word_le_nat_alt calculation assms)
  ultimately show ?thesis by simp
qed

lemma split_u16:
  fixes w :: u16
  shows "256 * unat (ucast (drop_bit 8 w) :: u8) + unat (ucast (w AND 0xff) :: u8) = unat w"
proof -
  have b: "unat w < 65536" using unsigned_less [of w, where 'a = nat] by simp
  have "unat (drop_bit 8 w) = unat w div 256"
    using b by (simp only: unsigned_drop_bit_eq) (simp add: drop_bit_eq_div take_bit_nat_eq_self)
  then have h: "unat (ucast (drop_bit 8 w) :: u8) = unat w div 256"
    using b by (simp add: unsigned_ucast_eq take_bit_nat_eq_self)
  have "w AND 0xff = take_bit 8 w" by (simp add: take_bit_eq_mask mask_eq_exp_minus_1)
  then have "unat (w AND 0xff) = unat w mod 256" by (simp only: unsigned_take_bit_eq) (simp add: take_bit_eq_mod)
  then have "unat (ucast (w AND 0xff) :: u8) = unat w mod 256" by (simp add: unsigned_ucast_eq take_bit_nat_eq_self)
  with h show ?thesis by simp
qed

lemma complement_cancels:
  assumes "F mod 65535 = S mod 65535" "F \<le> (65535 :: nat)"
  shows "(S + (65535 - F)) mod 65535 = 0"
proof -
  have "int F mod 65535 = int S mod 65535" using assms(1) by (metis of_nat_mod of_nat_numeral)
  then have "65535 dvd (int S - int F)" by (metis mod_eq_dvd_iff)
  then have "65535 dvd (int S - int F) + 65535" by (rule dvd_add) simp
  moreover have "int (S + (65535 - F)) = (int S - int F) + 65535" using assms(2) by (simp add: of_nat_diff)
  ultimately have "65535 dvd int (S + (65535 - F))" by (simp only:)
  then show ?thesis by presburger
qed

text \<open>
  C27. The frame that is sent. When the frame is TCP or UDP over IPv4 and the checksum field lies in the
  segment, only the two bytes of the field change, and the sum that a receiver computes over pseudo header
  and segment, the field included, is 0 in ones' complement arithmetic; a UDP checksum is never the 0 that
  stands for none.
\<close>

theorem l4_checksum_valid:
  assumes lay: "l4_layout buf = Some (field, off, n, proto)" and len: "length buf \<le> 1514" and inside: "field + 2 \<le> off + n"
  shows "let buf' = fix_tx_l4_checksum buf
    in length buf' = length buf \<and> (\<forall>i. i \<noteq> field \<and> i \<noteq> field + 1 \<longrightarrow> buf' ! i = buf ! i) \<and>
       (unat (pseudo_sum buf' proto n) + seg_sum (take n (drop off buf'))) mod 65535 = 0 \<and>
       (proto = 17 \<longrightarrow> be16 (buf' ! field) (buf' ! (field + 1)) \<noteq> 0)"
proof -
  note l = l4_layoutD [OF lay]
  define buf1 where "buf1 = buf[field := 0, field + 1 := 0]"
  define seg where "seg = take n (drop off buf1)"
  define f where "f = fold_sum (add_words (pseudo_sum buf1 proto n) seg)"
  define c where "c = (if proto = 17 \<and> NOT (ucast f :: u16) = 0 then 0xFFFF else NOT (ucast f :: u16))"
  define buf' where "buf' = buf1[field := ucast (drop_bit 8 c), field + 1 := ucast (c AND 0xff)]"
  have r: "fix_tx_l4_checksum buf = buf'"
    unfolding fix_tx_l4_checksum_def lay option.case prod.case Let_def buf'_def c_def f_def seg_def buf1_def ..
  have n: "n \<le> 1514" using l(4) len by simp
  have lseg: "length seg = n" using l(4) by (simp add: seg_def buf1_def)
  have p: "unat (pseudo_sum buf1 proto n) < 400000"
    using unat_pseudo_sum [OF l(5), of buf1 proto] n u8_less [of proto]
      u16_less [of "be16 (buf1 ! 26) (buf1 ! 27)"] u16_less [of "be16 (buf1 ! 30) (buf1 ! 31)"]
      u16_less [of "be16 (buf1 ! 28) (buf1 ! 29)"] u16_less [of "be16 (buf1 ! 32) (buf1 ! 33)"] by linarith
  have "seg_sum seg \<le> 65535 * 1514" using seg_sum_bound [of seg] n unfolding lseg by linarith
  then have S: "unat (add_words (pseudo_sum buf1 proto n) seg) = unat (pseudo_sum buf1 proto n) + seg_sum seg"
    using p by (intro add_words_nat) simp
  note fs = fold_sum_spec [of "add_words (pseudo_sum buf1 proto n) seg", folded f_def, unfolded S]
  have c0: "unat (NOT (ucast f :: u16)) = 65535 - unat f" using fs by (intro complement_sum) simp
  have cn: "unat c = 65535 - unat f \<or> unat c = 65535 \<and> unat f = 65535"
    using c0 fs by (auto simp: c_def)
  have sum: "(unat (pseudo_sum buf1 proto n) + seg_sum seg + unat c) mod 65535 = 0"
  proof -
    have F: "unat f mod 65535 = (unat (pseudo_sum buf1 proto n) + seg_sum seg) mod 65535" "unat f \<le> 65535" using fs by simp_all
    from complement_cancels [OF F] cn F show ?thesis by (elim disjE) (simp_all add: mod_add_self2)
  qed
  have i: "even (field - off)" "Suc (field - off) < length seg" "field = off + (field - off)"
    using l(2) inside lseg by auto
  have seg': "take n (drop off buf') = seg[field - off := ucast (drop_bit 8 c), Suc (field - off) := ucast (c AND 0xff)]"
    using i by (simp add: buf'_def seg_def drop_update_swap take_update_swap Suc_diff_le)
  have z: "seg ! (field - off) = 0" "seg ! Suc (field - off) = 0"
    using i l(3) lseg inside by (simp_all add: seg_def buf1_def nth_list_update)
  have "seg_sum (take n (drop off buf')) = seg_sum seg + unat c"
    using seg_sum_update [OF i(1,2), of "ucast (drop_bit 8 c)" "ucast (c AND 0xff)"] split_u16 [of c] unfolding seg' z by simp
  moreover have nth: "buf' ! k = buf1 ! k" if "k \<noteq> field" "k \<noteq> field + 1" for k using that by (simp add: buf'_def)
  have "pseudo_sum buf' proto n = pseudo_sum buf1 proto n"
    using l(1) i(3) nth by (simp add: pseudo_sum_def)
  moreover have "buf' ! k = buf ! k" if "k \<noteq> field" "k \<noteq> field + 1" for k using that by (simp add: buf'_def buf1_def)
  moreover have "length buf' = length buf" by (simp add: buf'_def buf1_def)
  moreover have "be16 (buf' ! field) (buf' ! (field + 1)) \<noteq> 0" if "proto = 17"
  proof -
    have "buf' ! field = ucast (drop_bit 8 c)" "buf' ! (field + 1) = ucast (c AND 0xff)"
      using l(3) by (simp_all add: buf'_def buf1_def)
    then have "unat (be16 (buf' ! field) (buf' ! (field + 1))) = unat c" using split_u16 [of c] by (simp add: unat_be16)
    moreover have "c \<noteq> 0" using that by (simp add: c_def)
    ultimately show ?thesis by (metis unat_eq_zero unsigned_0)
  qed
  ultimately show ?thesis unfolding r Let_def using sum by (simp add: add.assoc)
qed

text \<open>A UDP datagram of eight bytes from 10.0.2.15 to 10.0.2.2.\<close>

definition demo_frame :: "u8 list" where
  "demo_frame = [0, 0, 0, 0, 0, 0, 0, 0, 0, 0, 0, 0, 8, 0,
     0x45, 0, 0, 28, 0, 0, 0, 0, 64, 17, 0, 0, 10, 0, 2, 15, 10, 0, 2, 2,
     0, 53, 0, 53, 0, 8, 0xAB, 0xCD]"

lemma demo_frame_layout: "l4_layout demo_frame = Some (40, 34, 8, 17)"
  by (simp add: l4_layout_def demo_frame_def Let_def be16_def)

theorem l4_checksum_valid_witness:
  "(unat (pseudo_sum (fix_tx_l4_checksum demo_frame) 17 8) + seg_sum (take 8 (drop 34 (fix_tx_l4_checksum demo_frame)))) mod 65535 = 0 \<and>
   be16 (fix_tx_l4_checksum demo_frame ! 40) (fix_tx_l4_checksum demo_frame ! 41) \<noteq> 0"
proof -
  have "length demo_frame \<le> 1514" by (simp add: demo_frame_def)
  then show ?thesis using l4_checksum_valid [OF demo_frame_layout] by (simp add: Let_def)
qed

end
