(* ===== verification/Virtio_Net.thy ===== *)
theory Virtio_Net
  imports Virtio_Console Net_Checksum
begin

text \<open>
  The virtio network device (\<open>src/src/virtio/network.rs\<close>). The user-mode network stack behind it is a
  parameter: the log of the frames handed to \<open>vdeslirp_send\<close>, the answers of \<open>vdeslirp_recv\<close> and of \<open>select\<close>
  are part of the state that the device reaches. The lemmas show that the device meets the contract of the
  virtqueue framework, which frame a transmitted chain becomes, and how a received frame is delivered.
\<close>

section \<open>Model\<close>

definition PACKET_SIZE :: nat where "PACKET_SIZE = 1514"

text \<open>The size of \<open>VirtioNetHdrMrgRxbuf\<close>: flags 0, gso\_type 1, hdr\_len 2, gso\_size 4, csum\_start 6,
  csum\_offset 8, num\_buffers 10.\<close>

definition NET_HDR_SIZE :: nat where "NET_HDR_SIZE = 12"
definition VIRTIO_NET_HDR_F_NEEDS_CSUM :: u8 where "VIRTIO_NET_HDR_F_NEEDS_CSUM = 1"

lemmas net_consts = PACKET_SIZE_def NET_HDR_SIZE_def VIRTIO_NET_HDR_F_NEEDS_CSUM_def

definition derive_mac :: "u32 \<Rightarrow> u8 \<Rightarrow> u8 list" where
  "derive_mac card_idx l2cpu_idx =
     [0x02, 0x00, ucast (card_idx AND 0xff), ucast (drop_bit 8 card_idx AND 0xff), l2cpu_idx, 0x00]"

record virtio_net =
  buffer :: "u8 list"
  header_processed :: bool
  tx_needs_csum :: bool
  tx_offset :: nat
  net_l2cpu :: u8
  mac :: "u8 list"

definition net_new :: "u32 \<Rightarrow> u8 \<Rightarrow> virtio_net" where
  "net_new card_idx l2cpu_idx =
     \<lparr>buffer = replicate PACKET_SIZE 0, header_processed = False, tx_needs_csum = False, tx_offset = 0,
      net_l2cpu = l2cpu_idx, mac = derive_mac card_idx l2cpu_idx\<rparr>"

text \<open>
  \<open>sl_recv n\<close> is what the \<open>n\<close>-th call of \<open>vdeslirp_recv\<close> has to give, at most as many bytes as it is asked
  for, and no bytes when there is no frame; \<open>sl_ready\<close> the answer of \<open>select\<close>.
\<close>

record net_world =
  sl_sent :: "u8 list list"
  sl_recv :: "nat \<Rightarrow> u8 list"
  sl_calls :: nat
  sl_ready :: bool
  n_metrics :: metrics

type_synonym net_ctx = "(virtio_net, net_world) ctx"

definition net_copy :: "nat \<Rightarrow> nat \<Rightarrow> nat \<Rightarrow> net_ctx \<Rightarrow> net_ctx" where
  "net_copy pos addr n c =
     c\<lparr>dev := (dev c)\<lparr>buffer := overwrite pos (gm_load (mem c) addr n) (buffer (dev c)), tx_offset := pos + n\<rparr>,
       mem := gm_touch addr n (mem c)\<rparr>"

definition rx_header :: "nat \<Rightarrow> guest_mem \<Rightarrow> guest_mem" where
  "rx_header addr m =
     gm_store (addr + 4) (le_bytes 2 (0 :: u16))
       (gm_store (addr + 1) [0]
         (gm_store (addr + 10) (le_bytes 2 (1 :: u16))
           (gm_store addr [0] m)))"

definition net_start :: "u32 \<Rightarrow> nat \<Rightarrow> u64 \<Rightarrow> net_ctx \<Rightarrow> net_ctx" where
  "net_start q addr len c =
     (let c = c\<lparr>dev := (dev c)\<lparr>header_processed := True\<rparr>\<rparr>
      in if q = 0 then c\<lparr>mem := rx_header addr (mem c)\<rparr>
         else if q = 1 then
           let flags = gm_bytes (mem c) addr;
               c = c\<lparr>mem := gm_touch addr 1 (mem c),
                     dev := (dev c)\<lparr>tx_needs_csum := flags AND VIRTIO_NET_HDR_F_NEEDS_CSUM \<noteq> 0, tx_offset := 0\<rparr>\<rparr>
           in if unat len > NET_HDR_SIZE then
                net_copy 0 (addr + NET_HDR_SIZE) (min (unat len - NET_HDR_SIZE) PACKET_SIZE) c
              else c
         else c)"

definition net_append :: "nat \<Rightarrow> u64 \<Rightarrow> net_ctx \<Rightarrow> net_ctx" where
  "net_append addr len c =
     net_copy (tx_offset (dev c)) addr (min (unat len) (PACKET_SIZE - tx_offset (dev c))) c"

definition net_data :: "u32 \<Rightarrow> nat \<Rightarrow> u64 \<Rightarrow> net_ctx \<Rightarrow> net_ctx" where
  "net_data q addr len c = (if q = 1 then net_append addr len c else c)"

definition net_rx_frame :: "nat \<Rightarrow> nat \<Rightarrow> net_ctx \<Rightarrow> net_ctx" where
  "net_rx_frame data_addr data_len c =
     (let max_copy = min data_len PACKET_SIZE;
          frame = take max_copy (sl_recv (wld c) (sl_calls (wld c)));
          c = c\<lparr>wld := (wld c)\<lparr>sl_calls := sl_calls (wld c) + 1\<rparr>\<rparr>
      in if frame \<noteq> [] then
           c\<lparr>dev := (dev c)\<lparr>buffer := overwrite 0 frame (buffer (dev c))\<rparr>,
             mem := gm_store data_addr frame (mem c),
             wld := (wld c)\<lparr>n_metrics :=
               counter_add NET_BYTES_RX (net_l2cpu (dev c)) (word_of_nat (length frame))
                 (counter_inc NET_PACKETS_RX (net_l2cpu (dev c)) (n_metrics (wld c)))\<rparr>\<rparr>
         else c)"

definition net_send :: "net_ctx \<Rightarrow> net_ctx" where
  "net_send c =
     (let d = dev c;
          total_len = tx_offset d;
          frame = take total_len (buffer d);
          frame = (if tx_needs_csum d then fix_tx_l4_checksum frame else frame)
      in c\<lparr>dev := d\<lparr>buffer := overwrite 0 frame (buffer d), tx_offset := 0, tx_needs_csum := False\<rparr>,
           wld := (wld c)\<lparr>sl_sent := sl_sent (wld c) @ [frame],
             n_metrics := counter_add NET_BYTES_TX (net_l2cpu d) (word_of_nat total_len)
               (counter_inc NET_PACKETS_TX (net_l2cpu d) (n_metrics (wld c)))\<rparr>\<rparr>)"

definition net_complete :: "u32 \<Rightarrow> nat \<Rightarrow> u64 \<Rightarrow> net_ctx \<Rightarrow> u64 \<times> net_ctx" where
  "net_complete q addr len c =
     (let c =
        (if q = 0 then
           (if \<not> header_processed (dev c)
            then net_rx_frame (addr + NET_HDR_SIZE) (unat len - NET_HDR_SIZE) (net_start q addr len c)
            else net_rx_frame addr (unat len) c)
         else if q = 1 then
           net_send (if \<not> header_processed (dev c) then net_start q addr len c else net_append addr len c)
         else c)
      in (len, c\<lparr>dev := (dev c)\<lparr>header_processed := False\<rparr>\<rparr>))"

definition net_ops :: "(virtio_net, net_world) device_ops" where
  "net_ops =
     \<lparr>num_queues = (\<lambda>_. 2), queue_header_size = (\<lambda>_. word_of_nat NET_HDR_SIZE), device_id = (\<lambda>_. 1),
      device_features = (\<lambda>_. (0x20, 1)),
      process_queue_start = net_start, process_queue_data = net_data,
      process_queue_complete = net_complete, queue_has_data = (\<lambda>q c. if q = 0 then sl_ready (wld c) else True)\<rparr>"

section \<open>The device meets the contract\<close>

definition net_wf :: "virtio_net \<Rightarrow> bool" where
  "net_wf d \<longleftrightarrow> length (buffer d) = PACKET_SIZE \<and> tx_offset d \<le> PACKET_SIZE"

lemma rx_header_facts:
  "gm_size (rx_header addr m) = gm_size m"
  "gm_frame addr (addr + 12) m (rx_header addr m)"
  "addr + 12 \<le> gm_size m \<Longrightarrow> gm_fault (rx_header addr m) = gm_fault m"
  by (auto simp: rx_header_def gm_frame_def gm_bytes_store gm_ok_def)

lemma net_copy_facts [simp]:
  "mem (net_copy pos addr n c) = gm_touch addr n (mem c)" "wld (net_copy pos addr n c) = wld c"
  "tx_offset (dev (net_copy pos addr n c)) = pos + n"
  "header_processed (dev (net_copy pos addr n c)) = header_processed (dev c)"
  "tx_needs_csum (dev (net_copy pos addr n c)) = tx_needs_csum (dev c)"
  "net_l2cpu (dev (net_copy pos addr n c)) = net_l2cpu (dev c)"
  "buffer (dev (net_copy pos addr n c)) = overwrite pos (gm_load (mem c) addr n) (buffer (dev c))"
  by (simp_all add: net_copy_def)

lemma net_start_frame: "gm_frame addr (addr + unat len + 12) (mem c) (mem (net_start q addr len c))"
proof -
  have "gm_frame addr (addr + unat len + 12) m (rx_header addr m)" for m
    by (rule gm_frame_mono [OF rx_header_facts(2)]) simp_all
  then show ?thesis by (simp add: net_start_def Let_def gm_frame_def)
qed

lemma net_start_safe:
  assumes "net_wf (dev c)" "addr + unat len + 12 \<le> gm_size (mem c)"
  shows "gm_fault (mem (net_start q addr len c)) = gm_fault (mem c)" "net_wf (dev (net_start q addr len c))"
  using assms by (auto simp: net_start_def Let_def net_wf_def length_overwrite net_consts gm_ok_def rx_header_facts)

lemma net_append_facts:
  assumes "net_wf (dev c)"
  shows "net_wf (dev (net_append addr len c))" "gm_frame addr (addr + unat len) (mem c) (mem (net_append addr len c))"
    "addr + unat len \<le> gm_size (mem c) \<Longrightarrow> gm_fault (mem (net_append addr len c)) = gm_fault (mem c)"
  using assms by (auto simp: net_append_def net_wf_def length_overwrite net_consts gm_ok_def)

lemma net_append_mem: "gm_bytes (mem (net_append addr len c)) = gm_bytes (mem c)" "gm_size (mem (net_append addr len c)) = gm_size (mem c)"
  by (simp_all add: net_append_def)

lemma net_rx_frame_facts:
  "gm_frame a (a + n) (mem c) (mem (net_rx_frame a n c))"
  "a + n \<le> gm_size (mem c) \<Longrightarrow> gm_fault (mem (net_rx_frame a n c)) = gm_fault (mem c)"
  "net_wf (dev c) \<Longrightarrow> net_wf (dev (net_rx_frame a n c))"
  by (auto simp: net_rx_frame_def Let_def gm_frame_def gm_bytes_store gm_ok_def net_wf_def length_overwrite net_consts)

lemma length_fix_checksum: "length (fix_tx_l4_checksum buf) = length buf"
  by (simp add: fix_tx_l4_checksum_def Let_def split: option.splits prod.splits)

lemma net_send_facts [simp]:
  "mem (net_send c) = mem c" "net_wf (dev c) \<Longrightarrow> net_wf (dev (net_send c))"
  by (auto simp: net_send_def Let_def net_wf_def length_overwrite length_fix_checksum)

lemma net_wf_processed [simp]: "net_wf (d\<lparr>header_processed := b\<rparr>) = net_wf d"
  by (simp add: net_wf_def)

lemma net_complete_frame: "gm_frame addr (addr + unat len + 12) (mem c) (mem (snd (net_complete q addr len c)))"
proof -
  have "gm_frame addr (addr + unat len + 12) (mem c) (mem (net_rx_frame addr (unat len) c))"
    by (rule gm_frame_mono [OF net_rx_frame_facts(1)]) simp_all
  moreover have "gm_frame addr (addr + unat len + 12) (mem c)
      (mem (net_rx_frame (addr + NET_HDR_SIZE) (unat len - NET_HDR_SIZE) (net_start q addr len c)))"
    by (rule gm_frame_trans [OF net_start_frame gm_frame_mono [OF net_rx_frame_facts(1)]]) (simp_all add: net_consts)
  moreover have "gm_frame addr (addr + unat len + 12) (mem c) (mem (net_append addr len c))"
    by (simp add: gm_frame_def net_append_mem)
  ultimately show ?thesis using net_start_frame [of addr len c q] by (auto simp: net_complete_def Let_def)
qed

interpretation net_dev: virtio_device net_ops 12 12 net_wf "\<lambda>_. net_wf"
proof unfold_locales
  fix off q and len :: u64 and c :: net_ctx
  show "gm_frame off (off + unat len + 12) (mem c) (mem (process_queue_start net_ops q off len c))"
    using net_start_frame by (simp add: net_ops_def)
  show "gm_frame off (off + unat len + 12) (mem c) (mem (process_queue_data net_ops q off len c))"
    by (simp add: net_ops_def net_data_def gm_frame_def net_append_mem)
  show "gm_frame off (off + unat len + 12) (mem c) (mem (snd (process_queue_complete net_ops q off len c)))"
    using net_complete_frame by (simp add: net_ops_def)
  assume w: "net_wf (dev c)" and fits: "off + unat len + 12 \<le> gm_size (mem c)"
  show "gm_fault (mem (process_queue_start net_ops q off len c)) = gm_fault (mem c) \<and> net_wf (dev (process_queue_start net_ops q off len c))"
    using net_start_safe [OF w fits] by (simp add: net_ops_def)
  show "gm_fault (mem (process_queue_data net_ops q off len c)) = gm_fault (mem c) \<and> net_wf (dev (process_queue_data net_ops q off len c))"
    using net_append_facts [OF w] w fits by (simp add: net_ops_def net_data_def)
  have "gm_size (mem (net_start q off len c)) = gm_size (mem c)" using net_start_frame [of off len c q] by (rule gm_frame_size)
  then show "gm_fault (mem (snd (process_queue_complete net_ops q off len c))) = gm_fault (mem c) \<and>
      net_wf (dev (snd (process_queue_complete net_ops q off len c)))"
    using net_start_safe [OF w fits, of q] net_append_facts [OF w, of off len] w fits net_rx_frame_facts
    by (auto simp: net_ops_def net_complete_def Let_def net_consts)
qed simp_all

section \<open>Transmitted frames\<close>

text \<open>The buffer holds the first 1514 bytes of what has been collected for the frame.\<close>

definition collected :: "u8 list \<Rightarrow> bool \<Rightarrow> net_ctx \<Rightarrow> bool" where
  "collected bs csum c \<longleftrightarrow>
     net_wf (dev c) \<and> header_processed (dev c) \<and> tx_needs_csum (dev c) = csum \<and>
     tx_offset (dev c) = min (length bs) PACKET_SIZE \<and> take (min (length bs) PACKET_SIZE) (buffer (dev c)) = take PACKET_SIZE bs"

lemma take_overwrite: "pos + length bs \<le> length xs \<Longrightarrow> take (pos + length bs) (overwrite pos bs xs) = take pos xs @ bs"
  by (simp add: overwrite_def)

lemma gm_load_take: "gm_load m a (min n k) = take k (gm_load m a n)"
  by (intro nth_equalityI) auto

lemma collected_append:
  assumes "collected bs csum c"
  shows "collected (bs @ gm_load (mem c) addr (unat len)) csum (net_append addr len c)"
proof -
  define pos where "pos = min (length bs) PACKET_SIZE"
  define l where "l = gm_load (mem c) addr (unat len)"
  define new where "new = take (PACKET_SIZE - pos) l"
  have a: "net_wf (dev c)" "header_processed (dev c)" "tx_needs_csum (dev c) = csum" "tx_offset (dev c) = pos"
    "take pos (buffer (dev c)) = take PACKET_SIZE bs"
    using assms by (simp_all add: collected_def pos_def)
  have len: "length (buffer (dev c)) = PACKET_SIZE" "pos \<le> PACKET_SIZE" using a(1) by (simp_all add: net_wf_def pos_def)
  have n: "length new = min (unat len) (PACKET_SIZE - pos)" "gm_load (mem c) addr (min (unat len) (PACKET_SIZE - pos)) = new"
    by (simp_all add: new_def l_def gm_load_take)
  have "take (pos + length new) (overwrite pos new (buffer (dev c))) = take PACKET_SIZE bs @ new"
    using take_overwrite [of pos new "buffer (dev c)"] len a(5) by (simp add: new_def)
  moreover have "take PACKET_SIZE bs @ new = take PACKET_SIZE (bs @ l)" "pos + length new = min (length (bs @ l)) PACKET_SIZE"
    by (cases "length bs \<le> PACKET_SIZE"; simp add: new_def pos_def)+
  ultimately show ?thesis
    using a net_append_facts(1) [OF a(1), of addr len] n unfolding l_def [symmetric] collected_def net_append_def by simp
qed

lemma collected_start:
  assumes "net_wf (dev c)" "12 \<le> unat len"
  shows "collected (drop 12 (gm_load (mem c) addr (unat len))) (gm_bytes (mem c) addr AND 1 \<noteq> 0) (net_start 1 addr len c)"
proof -
  have d: "drop 12 (gm_load m a n) = gm_load m (a + 12) (n - 12)" for m a n
    by (intro nth_equalityI) (auto simp: add.assoc)
  have w: "length (buffer (dev c)) = PACKET_SIZE" using assms(1) by (simp add: net_wf_def)
  show ?thesis
  proof (cases "unat len > 12")
    case True
    let ?n = "min (unat len - 12) PACKET_SIZE"
    have "take (0 + length (gm_load (mem c) (addr + 12) ?n)) (overwrite 0 (gm_load (mem c) (addr + 12) ?n) (buffer (dev c))) =
        take 0 (buffer (dev c)) @ gm_load (mem c) (addr + 12) ?n"
      by (rule take_overwrite) (simp add: w)
    then show ?thesis
      using True w assms(1) unfolding d collected_def net_start_def Let_def
      by (simp add: NET_HDR_SIZE_def VIRTIO_NET_HDR_F_NEEDS_CSUM_def net_wf_def length_overwrite gm_load_take)
  next
    case False
    then have "gm_load (mem c) (addr + 12) (unat len - 12) = []" by (simp add: gm_load_def)
    then show ?thesis using False assms(1) unfolding d collected_def net_start_def Let_def
      by (simp add: NET_HDR_SIZE_def VIRTIO_NET_HDR_F_NEEDS_CSUM_def net_wf_def)
  qed
qed

lemma net_start_mem: "gm_bytes (mem (net_start 1 addr len c)) = gm_bytes (mem c)" "wld (net_start 1 addr len c) = wld c"
  "net_l2cpu (dev (net_start 1 addr len c)) = net_l2cpu (dev c)"
  by (simp_all add: net_start_def Let_def)

definition sent_frame :: "bool \<Rightarrow> u8 list \<Rightarrow> u8 list" where
  "sent_frame csum bs = (let frame = take PACKET_SIZE bs in if csum then fix_tx_l4_checksum frame else frame)"

text \<open>One frame has left for the network, and was counted; the guest's memory is as before.\<close>

definition sent_one :: "u8 list \<Rightarrow> net_ctx \<Rightarrow> net_ctx \<Rightarrow> bool" where
  "sent_one frame c c' \<longleftrightarrow>
     (let i = net_l2cpu (dev c); n = counters (n_metrics (wld c)); n' = counters (n_metrics (wld c'))
      in sl_sent (wld c') = sl_sent (wld c) @ [frame] \<and>
         n' NET_PACKETS_TX i = n NET_PACKETS_TX i + 1 \<and> n' NET_BYTES_TX i = n NET_BYTES_TX i + word_of_nat (length frame) \<and>
         gm_bytes (mem c') = gm_bytes (mem c))"

lemma sent_one_cong:
  "wld c1 = wld c \<Longrightarrow> gm_bytes (mem c1) = gm_bytes (mem c) \<Longrightarrow> net_l2cpu (dev c1) = net_l2cpu (dev c) \<Longrightarrow>
   sent_one f c1 c' = sent_one f c c'"
  by (simp add: sent_one_def)

lemma net_send_frame:
  assumes "collected bs csum c"
  shows "sent_one (sent_frame csum bs) c ((net_send c)\<lparr>dev := d\<rparr>)"
proof -
  have "take (tx_offset (dev c)) (buffer (dev c)) = take PACKET_SIZE bs" "tx_offset (dev c) = length (take PACKET_SIZE bs)"
    using assms by (simp_all add: collected_def min.commute)
  then show ?thesis using assms
    by (simp add: sent_one_def collected_def net_send_def sent_frame_def Let_def counters_add counters_inc length_fix_checksum)
qed

lemma net_append_keeps:
  "wld (net_append addr len c) = wld c" "gm_bytes (mem (net_append addr len c)) = gm_bytes (mem c)"
  "net_l2cpu (dev (net_append addr len c)) = net_l2cpu (dev c)"
  by (simp_all add: net_append_def)

lemma serve_net_tx:
  assumes "queue_idx vq = 1" "header_size vq = 12"
  shows "collected bs csum c \<Longrightarrow> 12 \<le> unat w \<Longrightarrow> unat w + dlens ds < 2 ^ 64 \<Longrightarrow> ds \<noteq> [] \<Longrightarrow>
    serve_descs net_ops vq True w ds c = (w', c') \<Longrightarrow>
    sent_one (sent_frame csum (bs @ dloads (mem c) vq ds)) c c' \<and> \<not> header_processed (dev c') \<and> net_wf (dev c')"
proof (induction ds arbitrary: bs w c)
  case (Cons d ds)
  let ?c1 = "net_append (desc_offset vq d) (ucast (d_len d)) c"
  let ?l = "gm_load (mem c) (desc_offset vq d) (unat (d_len d))"
  have col: "collected (bs @ ?l) csum ?c1" using collected_append [OF Cons.prems(1), of "desc_offset vq d" "ucast (d_len d)"] by simp
  note keep = sent_one_cong [OF net_append_keeps, of _ "desc_offset vq d" "ucast (d_len d)" c c']
  show ?case
  proof (cases "ds = []")
    case True
    have "header_processed (dev c)" using Cons.prems(1) by (simp add: collected_def)
    then have "c' = (net_send ?c1)\<lparr>dev := (dev (net_send ?c1))\<lparr>header_processed := False\<rparr>\<rparr>"
      using Cons.prems(5) True assms by (auto simp: net_ops_def net_complete_def Let_def)
    then have "sent_one (sent_frame csum (bs @ ?l)) ?c1 c'" "net_wf (dev c')" "\<not> header_processed (dev c')"
      using net_send_frame [OF col] col by (simp_all add: collected_def)
    then show ?thesis using True keep by simp
  next
    case False
    let ?w = "w + ucast (d_len d)"
    have w: "unat ?w = unat w + unat (d_len d)" using Cons.prems(3) by (simp add: unat_word_ariths)
    have "\<not> w < 12" using Cons.prems(2) by (simp add: word_less_nat_alt)
    then have run: "serve_descs net_ops vq True ?w ds ?c1 = (w', c')"
      using Cons.prems(5) False assms by (simp add: net_ops_def net_data_def)
    have "dloads (mem ?c1) vq ds = dloads (mem c) vq ds" by (simp add: gm_load_def net_append_mem)
    then show ?thesis
      using Cons.IH [OF col _ _ False run] w Cons.prems(2,3) keep by simp
  qed
qed simp

lemma serve_net_frame:
  assumes "queue_idx vq = 1" "header_size vq = 12" "12 \<le> unat (d_len hdr)" "net_wf (dev c)" "\<not> header_processed (dev c)"
    and "length ds \<le> 65535" and run: "serve_descs net_ops vq True 0 (hdr # ds) c = (w', c')"
  shows "sent_one (sent_frame (gm_bytes (mem c) (desc_offset vq hdr) AND 1 \<noteq> 0) (drop 12 (dloads (mem c) vq (hdr # ds)))) c c' \<and>
    \<not> header_processed (dev c') \<and> net_wf (dev c')"
proof -
  let ?len = "ucast (d_len hdr) :: u64" and ?csum = "gm_bytes (mem c) (desc_offset vq hdr) AND 1 \<noteq> 0"
  let ?c1 = "net_start 1 (desc_offset vq hdr) ?len c"
  have st: "collected (drop 12 (gm_load (mem c) (desc_offset vq hdr) (unat (d_len hdr)))) ?csum ?c1"
    using collected_start [OF assms(4), of ?len] assms(3) by simp
  have keep: "sent_one f ?c1 c' = sent_one f c c'" for f by (rule sent_one_cong) (simp_all add: net_start_mem)
  show ?thesis
  proof (cases "ds = []")
    case True
    then have "c' = (net_send ?c1)\<lparr>dev := (dev (net_send ?c1))\<lparr>header_processed := False\<rparr>\<rparr>"
      using run assms(1,5) by (auto simp: net_ops_def net_complete_def Let_def)
    then have "sent_one (sent_frame ?csum (drop 12 (gm_load (mem c) (desc_offset vq hdr) (unat (d_len hdr))))) ?c1 c'"
      "net_wf (dev c')" "\<not> header_processed (dev c')"
      using net_send_frame [OF st] st by (simp_all add: collected_def)
    then show ?thesis using True keep by simp
  next
    case False
    have "unat (d_len hdr) < 2 ^ 32" using unsigned_less [of "d_len hdr", where ?'a = nat] by simp
    then have small: "unat ?len + dlens ds < 2 ^ 64" using dlens_bound [of ds] assms(6) by simp
    have "serve_descs net_ops vq True ?len ds ?c1 = (w', c')"
      using run False assms(1,2) by (simp add: net_ops_def)
    note r = serve_net_tx [OF assms(1,2) st _ small False this]
    have "dloads (mem ?c1) vq ds = dloads (mem c) vq ds" by (simp add: gm_load_def net_start_mem)
    then show ?thesis using r assms(3) keep by simp
  qed
qed

text \<open>
  C26. The frame that a transmitted chain becomes, on a device that is not in the middle of a chain (it is in the
  middle of one after a chain was abandoned as malformed) and for a chain whose first descriptor holds the
  whole 12-byte header. However the guest splits the frame over the other descriptors, one frame is sent:
  the bytes of all the buffers behind the header, in order, up to 1514 of them, with the checksum filled
  in when the header asks for it. The frame and its length are counted, the device is ready for the next
  chain, and the used index advances by one.
\<close>

theorem net_tx_chain:
  assumes "chain_pending 12 vq processed (mem c) (hdr # ds)" "queue_idx vq = 1" "header_size vq = 12"
    and "12 \<le> unat (d_len hdr)" "net_wf (dev c)" "\<not> header_processed (dev c)"
    and "frame = sent_frame (gm_bytes (mem c) (desc_offset vq hdr) AND 1 \<noteq> 0) (drop 12 (dloads (mem c) vq (hdr # ds)))"
  shows "\<exists>c'. process_one_chain_for_queue net_ops vq processed c = Some (True, processed + 1, c') \<and>
    sl_sent (wld c') = sl_sent (wld c) @ [frame] \<and>
    counters (n_metrics (wld c')) NET_PACKETS_TX (net_l2cpu (dev c)) = counters (n_metrics (wld c)) NET_PACKETS_TX (net_l2cpu (dev c)) + 1 \<and>
    counters (n_metrics (wld c')) NET_BYTES_TX (net_l2cpu (dev c)) =
      counters (n_metrics (wld c)) NET_BYTES_TX (net_l2cpu (dev c)) + word_of_nat (length frame) \<and>
    gm_u16 (mem c') (used_q vq + 2) = gm_u16 (mem c) (used_q vq + 2) + 1 \<and>
    \<not> header_processed (dev c') \<and> net_wf (dev c')"
proof -
  note p = assms(1) [unfolded chain_pending_def]
  obtain w' c' where run: "serve_descs net_ops vq True 0 (hdr # ds) c = (w', c')" by (metis surj_pair)
  have "length (hdr # ds) \<le> unat (queue_num vq)"
    using chain_descs_length [of "mem c" vq "unat (queue_num vq)" "head_of vq processed (mem c)"] p by simp
  then have "length ds \<le> 65535" using u16_less [of "queue_num vq"] by simp
  from serve_net_frame [OF assms(2-6) this run]
  have res: "sent_one frame c c'" "\<not> header_processed (dev c')" "net_wf (dev c')" by (simp_all add: assms(7))
  have "queue_has_data net_ops (queue_idx vq) c" by (simp add: net_ops_def assms(2))
  then have one: "process_one_chain_for_queue net_ops vq processed c =
      Some (True, processed + 1, c'\<lparr>mem := post_used vq (head_of vq processed (mem c)) w' (mem c')\<rparr>)"
    using net_dev.one_chain_serves [of vq c processed "head_of vq processed (mem c)" True "hdr # ds" w' c'] p run
    by (auto simp: head_of_def list_all_iff)
  have nz: "queue_num vq \<noteq> 0" using p by (simp add: vq_fits_def)
  note pu = post_used_result [OF nz, where m = "mem c'" and head = "head_of vq processed (mem c)" and written = w']
  have "gm_load (mem c') (used_q vq + 2) 2 = gm_load (mem c) (used_q vq + 2) 2"
    using res(1) by (intro gm_load_cong) (simp add: sent_one_def Let_def)
  then show ?thesis using one res pu(1) by (simp add: sent_one_def Let_def)
qed

section \<open>Received frames\<close>

text \<open>A chain of one descriptor on a device that has a frame or none.\<close>

lemma rx_one_desc:
  assumes "chain_pending 12 vq processed (mem c) [d]" "queue_idx vq = 0" "\<not> header_processed (dev c)" "sl_ready (wld c)"
  defines "c1 \<equiv> net_rx_frame (desc_offset vq d + NET_HDR_SIZE) (unat (d_len d) - NET_HDR_SIZE) (net_start 0 (desc_offset vq d) (ucast (d_len d)) c)"
  shows "process_one_chain_for_queue net_ops vq processed c = Some (True, processed + 1,
      c1\<lparr>dev := (dev c1)\<lparr>header_processed := False\<rparr>, mem := post_used vq (head_of vq processed (mem c)) (ucast (d_len d)) (mem c1)\<rparr>)"
proof -
  note p = assms(1) [unfolded chain_pending_def]
  have s: "serve_descs net_ops vq True 0 [d] c = (ucast (d_len d), c1\<lparr>dev := (dev c1)\<lparr>header_processed := False\<rparr>\<rparr>)"
    using assms(2,3) by (simp add: net_ops_def net_complete_def Let_def c1_def)
  have "queue_has_data net_ops (queue_idx vq) c" using assms(2,4) by (simp add: net_ops_def)
  then show ?thesis
    using net_dev.one_chain_serves [of vq c processed "head_of vq processed (mem c)" True "[d]" "ucast (d_len d)"
        "c1\<lparr>dev := (dev c1)\<lparr>header_processed := False\<rparr>\<rparr>"] p s
    by (simp add: head_of_def)
qed

lemma rx_frame_bytes:
  fixes a :: nat and len :: u64
  assumes "frame = take (min (n - 12) PACKET_SIZE) (sl_recv (wld c) (sl_calls (wld c)))"
  defines "c1 \<equiv> net_rx_frame (a + NET_HDR_SIZE) (n - NET_HDR_SIZE) (net_start 0 a len c)"
  shows "gm_bytes (mem c1) x =
      (if a + 12 \<le> x \<and> x < a + 12 + length frame then frame ! (x - (a + 12)) else gm_bytes (rx_header a (mem c)) x)"
    "i = net_l2cpu (dev c) \<Longrightarrow> counters (n_metrics (wld c1)) NET_PACKETS_RX i = counters (n_metrics (wld c)) NET_PACKETS_RX i + (if frame = [] then 0 else 1)"
    "i = net_l2cpu (dev c) \<Longrightarrow> counters (n_metrics (wld c1)) NET_BYTES_RX i = counters (n_metrics (wld c)) NET_BYTES_RX i + word_of_nat (length frame)"
proof -
  have "mem c1 = (if frame \<noteq> [] then gm_store (a + 12) frame (rx_header a (mem c)) else rx_header a (mem c))"
    unfolding c1_def net_rx_frame_def net_start_def Let_def assms(1) NET_HDR_SIZE_def by simp
  then show "gm_bytes (mem c1) x =
      (if a + 12 \<le> x \<and> x < a + 12 + length frame then frame ! (x - (a + 12)) else gm_bytes (rx_header a (mem c)) x)"
    by (auto simp: gm_bytes_store)
  have "n_metrics (wld c1) = (if frame = [] then n_metrics (wld c)
      else counter_add NET_BYTES_RX (net_l2cpu (dev c)) (word_of_nat (length frame)) (counter_inc NET_PACKETS_RX (net_l2cpu (dev c)) (n_metrics (wld c))))"
    unfolding c1_def net_rx_frame_def net_start_def Let_def assms(1) NET_HDR_SIZE_def PACKET_SIZE_def by (auto simp: min_def)
  then show "i = net_l2cpu (dev c) \<Longrightarrow> counters (n_metrics (wld c1)) NET_PACKETS_RX i = counters (n_metrics (wld c)) NET_PACKETS_RX i + (if frame = [] then 0 else 1)"
    "i = net_l2cpu (dev c) \<Longrightarrow> counters (n_metrics (wld c1)) NET_BYTES_RX i = counters (n_metrics (wld c)) NET_BYTES_RX i + word_of_nat (length frame)"
    by (simp_all add: counters_add counters_inc)
qed

lemma rx_header_bytes:
  "gm_load (rx_header a m) a 12 = [0, 0] @ gm_load m (a + 2) 2 @ [0, 0] @ gm_load m (a + 6) 4 @ [1, 0]"
proof -
  have "le_bytes 2 (1 :: u16) = [1, 0]" "le_bytes 2 (0 :: u16) = [0, 0]" by (simp_all add: le_bytes_def upt_rec)
  moreover have "[0..<12] = [0, 1, 2, 3, 4, 5, 6, 7, 8, 9, 10, 11 :: nat]" "[0..<2] = [0, 1 :: nat]" "[0..<4] = [0, 1, 2, 3 :: nat]"
    by (simp_all add: upt_rec)
  moreover have "gm_load m x n = map (\<lambda>i. gm_bytes m (x + i)) [0..<n]" for m x n
    by (rule nth_equalityI) simp_all
  ultimately show ?thesis by (simp add: rx_header_def gm_bytes_store add.commute)
qed

text \<open>
  C34. A received frame in a chain of one descriptor with room for the header, on a device that is not in the
  middle of a chain. Of the 12 bytes of the header, the flags, the type and the size of the offload are
  cleared and the number of buffers is 1; the header length and the two checksum offsets keep what the
  guest had there. The frame follows, cut to what fits behind the header and to 1514 bytes, and the rest
  of the buffer is unchanged. The used index advances by one, the completion names the head of the chain
  and the size of the whole buffer, and the counters grow by one packet and by the length of the frame,
  or not at all when there was no frame.
\<close>

theorem net_rx_chain:
  assumes "chain_pending 12 vq processed (mem c) [d]" "queue_idx vq = 0" "header_size vq = 12"
    and "12 \<le> unat (d_len d)" "\<not> header_processed (dev c)" "sl_ready (wld c)"
    and "frame = take (min (unat (d_len d) - 12) PACKET_SIZE) (sl_recv (wld c) (sl_calls (wld c)))"
    and "disj2 (used_q vq, 4 + 8 * unat (queue_num vq)) (desc_offset vq d, unat (d_len d))"
    and "a = desc_offset vq d" "i = net_l2cpu (dev c)" "slot = used_q vq + 4 + 8 * (unat (gm_u16 (mem c) (used_q vq + 2)) mod unat (queue_num vq))"
  shows "\<exists>c'. process_one_chain_for_queue net_ops vq processed c = Some (True, processed + 1, c') \<and>
    gm_load (mem c') a 12 = [0, 0] @ gm_load (mem c) (a + 2) 2 @ [0, 0] @ gm_load (mem c) (a + 6) 4 @ [1, 0] \<and>
    gm_load (mem c') (a + 12) (length frame) = frame \<and>
    (\<forall>x. a + 12 + length frame \<le> x \<and> x < a + unat (d_len d) \<longrightarrow> gm_bytes (mem c') x = gm_bytes (mem c) x) \<and>
    gm_u16 (mem c') (used_q vq + 2) = gm_u16 (mem c) (used_q vq + 2) + 1 \<and>
    gm_u32 (mem c') slot = ucast (head_of vq processed (mem c)) \<and> gm_u32 (mem c') (slot + 4) = d_len d \<and>
    counters (n_metrics (wld c')) NET_PACKETS_RX i = counters (n_metrics (wld c)) NET_PACKETS_RX i + (if frame = [] then 0 else 1) \<and>
    counters (n_metrics (wld c')) NET_BYTES_RX i = counters (n_metrics (wld c)) NET_BYTES_RX i + word_of_nat (length frame)"
proof -
  let ?len = "ucast (d_len d) :: u64" and ?mh = "rx_header a (mem c)"
  define c1 where "c1 = net_rx_frame (a + NET_HDR_SIZE) (unat (d_len d) - NET_HDR_SIZE) (net_start 0 a ?len c)"
  let ?m = "post_used vq (head_of vq processed (mem c)) ?len (mem c1)"
  note run = rx_one_desc [OF assms(1,2,5,6), folded assms(9), folded c1_def]
  note r = rx_frame_bytes [OF assms(7), where a = a and len = ?len, folded c1_def]
  have nz: "queue_num vq \<noteq> 0" using assms(1) by (simp add: chain_pending_def vq_fits_def)
  note pu = post_used_result [OF nz, where m = "mem c1" and head = "head_of vq processed (mem c)" and written = ?len]
  have l: "ucast ?len = d_len d" by (rule bit_word_eqI) (simp add: bit_simps)
  have fl: "length frame \<le> unat (d_len d) - 12" using assms(7) by simp
  have keep: "gm_bytes ?m x = gm_bytes (mem c1) x" if "a \<le> x" "x < a + unat (d_len d)" for x
    using pu(4) assms(8,9) that by (auto simp: disj2_def gm_frame_def)
  have "gm_load ?m a 12 = gm_load ?mh a 12" using assms(4) by (intro gm_load_cong) (simp add: keep r)
  moreover have "gm_load ?m (a + 12) (length frame) = frame"
    using assms(4) fl by (intro nth_equalityI) (simp_all add: keep r)
  moreover have hf: "gm_frame a (a + 12) (mem c) ?mh" by (rule rx_header_facts)
  then have "gm_bytes ?m x = gm_bytes (mem c) x" if "a + 12 + length frame \<le> x" "x < a + unat (d_len d)" for x
    using that keep [of x] by (simp add: r gm_frame_def)
  moreover have u: "gm_u16 (mem c1) (used_q vq + 2) = gm_u16 (mem c) (used_q vq + 2)"
    using hf assms(4,8,9) fl by (intro arg_cong [where f = of_le_bytes] gm_load_cong) (auto simp: r gm_frame_def disj2_def)
  ultimately show ?thesis using run pu(1) pu(2,3) [unfolded u] r(2,3) [OF assms(10)] rx_header_bytes [of a "mem c"]
    by (simp add: assms(11) l)
qed

definition net_demo_ctx :: "guest_mem \<Rightarrow> net_ctx" where
  "net_demo_ctx m = \<lparr>dev = net_new 0 0, mem = m,
     wld = \<lparr>sl_sent = [], sl_recv = (\<lambda>_. [7, 8, 9]), sl_calls = 0, sl_ready = True, n_metrics = no_metrics\<rparr>\<rparr>"

lemma net_demo_simps [simp]:
  "mem (net_demo_ctx m) = m" "\<not> header_processed (dev (net_demo_ctx m))" "net_wf (dev (net_demo_ctx m))"
  "sl_sent (wld (net_demo_ctx m)) = []" "sl_ready (wld (net_demo_ctx m))" "sl_recv (wld (net_demo_ctx m)) n = [7, 8, 9]"
  by (simp_all add: net_demo_ctx_def net_new_def net_wf_def)

theorem net_tx_chain_witness:
  "\<exists>c'. process_one_chain_for_queue net_ops (dev_queue 1 12) 0 (net_demo_ctx (demo_mem [(128, 72), (129, 105)])) = Some (True, 0 + 1, c') \<and>
     sl_sent (wld c') = [[0, 0, 0, 0, 0, 0, 0, 0, 0]]"
proof -
  let ?m = "demo_mem [(128, 72), (129, 105)]"
  have l: "gm_load ?m 128 16 = [72, 105, 0, 0, 0, 0, 0, 0, 0, 0, 0, 0, 0, 0, 0, 0]" "gm_load ?m 144 4 = [0, 0, 0, 0]"
    "gm_load ?m 148 1 = [0]"
    by (simp_all add: demo_mem_def gm_load_def upt_rec_numeral)
  have f: "gm_bytes ?m 128 AND 1 = 0" by (simp add: demo_mem_def)
  have "chain_pending 12 (dev_queue 1 12) 0 (mem (net_demo_ctx ?m)) (demo_hdr # [demo_data, demo_status])"
    using con_demo_tx by simp
  from net_tx_chain [OF this] l f show ?thesis
    by (auto simp: con_demo_descs sent_frame_def PACKET_SIZE_def)
qed

definition demo_rx_desc :: vring_desc where
  "demo_rx_desc = \<lparr>d_addr = 4224, d_len = 16, d_flags = 0, d_next = 1\<rparr>"

theorem net_rx_chain_witness:
  "\<exists>c'. process_one_chain_for_queue net_ops (dev_queue 0 12) 0 (net_demo_ctx (demo_mem [(12, 0)])) = Some (True, 0 + 1, c') \<and>
     gm_load (mem c') 140 3 = [7, 8, 9]"
proof -
  let ?m = "demo_mem [(12, 0)]"
  have d: "read_desc ?m 0 = demo_rx_desc" "gm_u16 ?m 66 = 1" "gm_u16 ?m 68 = 0"
    by (simp_all add: demo_mem_def demo_rx_desc_def read_desc_def gm_load_def upt_rec_numeral upt_0_8)
  have s: "\<not> desc_out_of_range demo_queue demo_rx_desc" "\<not> has_next demo_rx_desc" "desc_offset demo_queue demo_rx_desc = 128"
    "d_len demo_rx_desc = 16" "clear_of_table 12 demo_queue demo_rx_desc"
    by (simp_all add: demo_queue_def desc_out_of_range_def demo_rx_desc_def checked_add_def has_next_def desc_offset_def clear_of_table_def)
  have "vq_fits (dev_queue 0 12) (gm_size ?m)" by (simp add: vq_fits_def) (simp add: demo_mem_def)
  with d s have "chain_pending 12 (dev_queue 0 12) 0 (mem (net_demo_ctx ?m)) [demo_rx_desc]"
    by (simp add: chain_pending_def con_demo_descs head_of_def)
  from net_rx_chain [OF this, of "[7, 8, 9]", OF _ _ _ _ _ _ _ refl refl refl] s show ?thesis
    by (auto simp: PACKET_SIZE_def disj2_def numeral_3_eq_3)
qed

section \<open>A frame behind an abandoned chain\<close>

text \<open>
  A chain that turns out malformed after its first descriptor leaves the device in the middle of a frame.
  The next chain of one descriptor is then taken as the end of that frame: its 12-byte header is sent as
  packet data, behind what the abandoned chain had collected.
\<close>

theorem net_tx_after_abort:
  assumes "chain_pending 12 vq processed (mem c) [d]" "queue_idx vq = 1" "collected bs csum c"
  shows "\<exists>c'. process_one_chain_for_queue net_ops vq processed c = Some (True, processed + 1, c') \<and>
    sl_sent (wld c') = sl_sent (wld c) @ [sent_frame csum (bs @ gm_load (mem c) (desc_offset vq d) (unat (d_len d)))]"
proof -
  note p = assms(1) [unfolded chain_pending_def]
  let ?c1 = "net_append (desc_offset vq d) (ucast (d_len d)) c"
  let ?cc = "(net_send ?c1)\<lparr>dev := (dev (net_send ?c1))\<lparr>header_processed := False\<rparr>\<rparr>"
  have col: "collected (bs @ gm_load (mem c) (desc_offset vq d) (unat (d_len d))) csum ?c1"
    using collected_append [OF assms(3), of "desc_offset vq d" "ucast (d_len d)"] by simp
  have "header_processed (dev c)" using assms(3) by (simp add: collected_def)
  then have "serve_descs net_ops vq True 0 [d] c = (ucast (d_len d), ?cc)"
    using assms(2) by (simp add: net_ops_def net_complete_def Let_def)
  moreover have "queue_has_data net_ops (queue_idx vq) c" by (simp add: net_ops_def assms(2))
  ultimately have "process_one_chain_for_queue net_ops vq processed c =
      Some (True, processed + 1, ?cc\<lparr>mem := post_used vq (head_of vq processed (mem c)) (ucast (d_len d)) (mem ?cc)\<rparr>)"
    using net_dev.one_chain_serves [of vq c processed "head_of vq processed (mem c)" True "[d]" "ucast (d_len d)" ?cc] p
    by (simp add: head_of_def)
  then show ?thesis using net_send_frame [OF col] by (simp add: net_append_def sent_one_def Let_def)
qed

theorem net_tx_after_abort_witness:
  "\<exists>c'. process_one_chain_for_queue net_ops (dev_queue 1 12) 0 (net_start 1 128 12 (net_demo_ctx (demo_mem [(68, 2), (148, 99)]))) =
       Some (True, 0 + 1, c') \<and> sl_sent (wld c') = [[99]]"
proof -
  let ?m = "demo_mem [(68, 2), (148, 99)]"
  let ?c = "net_start 1 128 12 (net_demo_ctx ?m)"
  have d: "read_desc ?m 32 = demo_status" "gm_u16 ?m 66 = 1" "gm_u16 ?m 68 = 2" "gm_load ?m 148 1 = [99]" "gm_bytes ?m 128 = 0"
    by (simp_all add: demo_mem_def demo_status_def read_desc_def gm_load_def upt_rec_numeral upt_0_8)
  have m: "gm_load (mem ?c) a n = gm_load ?m a n" "gm_size (mem ?c) = 176" for a n
    using gm_frame_size [OF net_start_frame [of 128 12 "net_demo_ctx ?m" 1]]
    by (simp_all add: gm_load_def net_start_mem) (simp add: demo_mem_def)
  have r: "read_desc (mem ?c) 32 = demo_status" using d(1) by (simp add: read_desc_def m)
  have "chain_pending 12 (dev_queue 1 12) 0 (mem ?c) [demo_status]"
    using d r by (simp add: chain_pending_def con_demo_descs head_of_def m vq_fits_def)
  moreover have "drop 12 (gm_load ?m 128 12) = []" by simp
  then have "collected [] False ?c"
    using collected_start [of "net_demo_ctx ?m" 12 128] d(5) by simp
  ultimately show ?thesis
    using net_tx_after_abort [of "dev_queue 1 12" 0 ?c demo_status "[]" False] d(4)
    by (auto simp: con_demo_descs sent_frame_def PACKET_SIZE_def m net_start_mem)
qed

section \<open>MAC addresses\<close>

text \<open>
  The addresses of two guests differ unless card numbers agree modulo 65536 and the L2CPUs are the same;
  every address is unicast and locally administered.
\<close>

theorem derive_mac_distinct:
  "(derive_mac a i = derive_mac b j \<longleftrightarrow> take_bit 16 a = take_bit 16 b \<and> i = j) \<and>
   \<not> bit (hd (derive_mac a i)) 0 \<and> bit (hd (derive_mac a i)) 1"
proof -
  have m: "(0xff :: u32) = mask 8" by (simp add: mask_eq_exp_minus_1)
  have lo: "ucast (a AND 0xff) = (ucast (b AND 0xff) :: u8) \<longleftrightarrow> (\<forall>n < 8. bit a n = bit b n)"
    unfolding m by (auto simp: bit_eq_iff bit_simps)
  have hi: "ucast (drop_bit 8 a AND 0xff) = (ucast (drop_bit 8 b AND 0xff) :: u8) \<longleftrightarrow> (\<forall>n < 8. bit a (8 + n) = bit b (8 + n))"
    unfolding m by (auto simp: bit_eq_iff bit_simps)
  have both: "take_bit 16 a = take_bit 16 b \<longleftrightarrow> (\<forall>n < 16. bit a n = bit b n)"
  proof
    assume "take_bit 16 a = take_bit 16 b"
    then have "bit (take_bit 16 a) n = bit (take_bit 16 b) n" for n by simp
    then show "\<forall>n < 16. bit a n = bit b n" by (simp add: bit_take_bit_iff) blast
  next
    assume "\<forall>n < 16. bit a n = bit b n"
    then show "take_bit 16 a = take_bit 16 b" by (auto simp: bit_eq_iff bit_simps)
  qed
  have "(\<forall>n < 8. bit a n = bit b n) \<and> (\<forall>n < 8. bit a (8 + n) = bit b (8 + n)) \<longleftrightarrow> (\<forall>n < 16. bit a n = bit b n)" (is "?l \<longleftrightarrow> ?r")
  proof
    assume l: ?l
    show ?r
    proof (intro allI impI)
      fix n :: nat
      assume "n < 16"
      then show "bit a n = bit b n"
        using l spec [of "\<lambda>k. k < 8 \<longrightarrow> bit a (8 + k) = bit b (8 + k)" "n - 8"] by (cases "n < 8") simp_all
    qed
  qed simp
  then show ?thesis using lo hi both by (auto simp: derive_mac_def)
qed

end
