(* ===== verification/Strings.thy ===== *)
theory Strings
  imports Prelude "HOL-Library.Sublist"
begin

text \<open>
  The string operations of the Rust standard library that the operator-facing code uses. A string is
  the list of its bytes; the input is ASCII, so bytes and characters are the same and \<open>trim\<close> removes
  the six ASCII white-space characters. Integers are read by \<open>str::parse\<close> with its three errors, and
  printed by \<open>{}\<close> and \<open>{:x}\<close>; strings are printed by \<open>{:?}\<close>.
\<close>

section \<open>Printing\<close>

definition hex_digit :: "nat \<Rightarrow> char" where
  "hex_digit d = (if d < 10 then char_of (48 + d) else char_of (87 + d))"

fun hex :: "nat \<Rightarrow> string" where
  "hex n = (if n < 16 then [hex_digit n] else hex (n div 16) @ [hex_digit (n mod 16)])"

declare hex.simps [simp del]

definition escape_debug :: "char \<Rightarrow> string" where
  "escape_debug c =
     (let n = of_char c :: nat
      in if n = 0 then [CHR 0x5C, CHR ''0'']
         else if n = 9 then [CHR 0x5C, CHR ''t'']
         else if n = 10 then [CHR 0x5C, CHR ''n'']
         else if n = 13 then [CHR 0x5C, CHR ''r'']
         else if c = CHR 0x22 \<or> c = CHR 0x5C then [CHR 0x5C, c]
         else if n < 32 \<or> n = 127 then [CHR 0x5C] @ ''u{'' @ hex n @ ''}''
         else [c])"

definition debug_str :: "string \<Rightarrow> string" where
  "debug_str s = [CHR 0x22] @ concat (map escape_debug s) @ [CHR 0x22]"

section \<open>Taking strings apart\<close>

definition is_ws :: "char \<Rightarrow> bool" where
  "is_ws c \<longleftrightarrow> (let n = of_char c :: nat in 9 \<le> n \<and> n \<le> 13 \<or> n = 32)"

definition trim :: "string \<Rightarrow> string" where
  "trim s = rev (dropWhile is_ws (rev (dropWhile is_ws s)))"

definition strip_suffix :: "string \<Rightarrow> string \<Rightarrow> string option" where
  "strip_suffix suf s = (if suffix suf s then Some (take (length s - length suf) s) else None)"

definition strip_prefix :: "string \<Rightarrow> string \<Rightarrow> string option" where
  "strip_prefix pre s = (if prefix pre s then Some (drop (length pre) s) else None)"

fun split_once :: "char \<Rightarrow> string \<Rightarrow> (string \<times> string) option" where
  "split_once c [] = None"
| "split_once c (x # xs) = (if x = c then Some ([], xs) else map_option (map_prod ((#) x) id) (split_once c xs))"

section \<open>Reading integers\<close>

definition is_digit :: "char \<Rightarrow> bool" where
  "is_digit c \<longleftrightarrow> (let n = of_char c :: nat in 48 \<le> n \<and> n \<le> 57)"

definition digit_val :: "char \<Rightarrow> nat" where
  "digit_val c = of_char c - 48"

datatype int_error = Empty_Int | Invalid_Digit | Pos_Overflow

fun show_int_error :: "int_error \<Rightarrow> string" where
  "show_int_error Empty_Int = ''cannot parse integer from empty string''"
| "show_int_error Invalid_Digit = ''invalid digit found in string''"
| "show_int_error Pos_Overflow = ''number too large to fit in target type''"

text \<open>\<open>bound\<close> is the first value that does not fit: each digit is checked before the overflow is.\<close>

fun parse_digits :: "nat \<Rightarrow> nat \<Rightarrow> string \<Rightarrow> int_error + nat" where
  "parse_digits bound acc [] = Inr acc"
| "parse_digits bound acc (c # cs) =
     (if \<not> is_digit c then Inl Invalid_Digit
      else if bound \<le> acc * 10 + digit_val c then Inl Pos_Overflow
      else parse_digits bound (acc * 10 + digit_val c) cs)"

definition parse_uint :: "nat \<Rightarrow> string \<Rightarrow> int_error + nat" where
  "parse_uint bound s =
     (if s = [] then Inl Empty_Int
      else if s = ''+'' \<or> s = ''-'' then Inl Invalid_Digit
      else parse_digits bound 0 (if hd s = CHR ''+'' then tl s else s))"

section \<open>Facts\<close>

lemma of_char_digit [simp]: "d < 10 \<Longrightarrow> of_char (char_of (48 + d :: nat) :: char) = (48 + d :: nat)"
  by simp

lemma is_digit_char [simp]: "d < 10 \<Longrightarrow> is_digit (char_of (48 + d :: nat))"
  by (simp add: is_digit_def)

lemma digit_val_char [simp]: "d < 10 \<Longrightarrow> digit_val (char_of (48 + d :: nat)) = d"
  by (simp add: digit_val_def)

lemma digit_val_less: "is_digit c \<Longrightarrow> digit_val c < 10"
  by (auto simp: is_digit_def digit_val_def Let_def)

text \<open>The value of a string of digits, without bound.\<close>

definition digits_value :: "nat \<Rightarrow> string \<Rightarrow> nat" where
  "digits_value acc s = foldl (\<lambda>a c. a * 10 + digit_val c) acc s"

lemma digits_value_simps [simp]:
  "digits_value acc [] = acc"
  "digits_value acc (c # cs) = digits_value (acc * 10 + digit_val c) cs"
  "digits_value acc (s @ t) = digits_value (digits_value acc s) t"
  by (simp_all add: digits_value_def)

lemma digits_value_mono: "acc \<le> digits_value acc s"
proof (induction s arbitrary: acc)
  case (Cons c s)
  have "acc \<le> acc * 10 + digit_val c" by simp
  also have "\<dots> \<le> digits_value (acc * 10 + digit_val c) s" by (rule Cons.IH)
  finally show ?case by simp
qed simp

lemma parse_digits_Inr:
  "parse_digits bound acc s = Inr n \<longleftrightarrow> (\<forall>c \<in> set s. is_digit c) \<and> n = digits_value acc s \<and> (s = [] \<or> n < bound)"
proof (induction s arbitrary: acc)
  case (Cons c s)
  let ?a = "acc * 10 + digit_val c"
  have "?a \<le> digits_value ?a s" by (rule digits_value_mono)
  moreover have "parse_digits bound acc (c # s) = Inr n \<longleftrightarrow> is_digit c \<and> ?a < bound \<and> parse_digits bound ?a s = Inr n"
    by simp
  ultimately show ?case unfolding Cons.IH by (cases "s = []") auto
qed auto

lemma dec_not_Nil [simp]: "dec n \<noteq> []"
  by (subst dec.simps) simp

lemma dec_digits: "c \<in> set (dec n) \<Longrightarrow> is_digit c"
proof (induction n rule: dec.induct)
  case (1 n)
  show ?case
  proof (cases "n < 10")
    case True
    then show ?thesis using 1(2) by (subst (asm) dec.simps) simp
  next
    case False
    then show ?thesis using 1(2) 1(1) [OF False] by (subst (asm) dec.simps) (auto split: if_splits)
  qed
qed

lemma dec_value: "digits_value 0 (dec n) = n"
proof (induction n rule: dec.induct)
  case (1 n)
  then show ?case by (subst dec.simps) auto
qed

lemma is_digit_plus [simp]: "\<not> is_digit CHR ''+''" "\<not> is_digit CHR ''-''"
  by (simp_all add: is_digit_def)

lemma hd_dec: "hd (dec n) \<noteq> CHR ''+''"
  using dec_digits [of "hd (dec n)" n] hd_in_set [OF dec_not_Nil, of n] by (intro notI) simp

lemma dec_sign [simp]: "dec n \<noteq> ''+''" "dec n \<noteq> ''-''"
proof -
  show "dec n \<noteq> ''+''" using dec_digits [of "CHR ''+''" n] by (intro notI) simp
  show "dec n \<noteq> ''-''" using dec_digits [of "CHR ''-''" n] by (intro notI) simp
qed

text \<open>Reading what was printed.\<close>

lemma parse_uint_dec: "n < bound \<Longrightarrow> parse_uint bound (dec n) = Inr n"
  using dec_digits [of _ n] by (simp add: parse_uint_def parse_digits_Inr hd_dec dec_value)

lemma parse_uint_dec_big: "bound \<le> n \<Longrightarrow> parse_uint bound (dec n) \<noteq> Inr k"
  using dec_digits [of _ n] by (simp add: parse_uint_def parse_digits_Inr hd_dec dec_value)

lemma parse_uint_bound: "parse_uint bound s = Inr n \<Longrightarrow> n < bound"
proof -
  assume p: "parse_uint bound s = Inr n"
  define t where "t = (if hd s = CHR ''+'' then tl s else s)"
  have "s \<noteq> []" "s \<noteq> ''+''" "parse_digits bound 0 t = Inr n"
    using p by (auto simp: parse_uint_def t_def split: if_splits)
  moreover from this have "t \<noteq> []" by (cases s) (auto simp: t_def)
  ultimately show "n < bound" by (simp add: parse_digits_Inr)
qed

lemma split_once_Some: "split_once c s = Some (a, b) \<longleftrightarrow> s = a @ c # b \<and> c \<notin> set a"
proof (induction s arbitrary: a)
  case (Cons x s)
  then show ?case by (cases a) (auto simp: map_prod_def)
qed simp

lemma split_once_None: "split_once c s = None \<longleftrightarrow> c \<notin> set s"
  by (induction s) auto

lemma strip_suffix_append [simp]: "strip_suffix suf (s @ suf) = Some s"
  by (simp add: strip_suffix_def suffix_def)

lemma strip_suffix_Some: "strip_suffix suf s = Some t \<longleftrightarrow> s = t @ suf"
  by (auto simp: strip_suffix_def suffix_def)

lemma strip_suffix_last: "s \<noteq> [] \<Longrightarrow> last s \<noteq> c \<Longrightarrow> strip_suffix [c] s = None"
  by (auto simp: strip_suffix_def suffix_def)

lemma length_dec: "n < 10 ^ k \<Longrightarrow> 0 < k \<Longrightarrow> length (dec n) \<le> k"
proof (induction k arbitrary: n)
  case (Suc k)
  show ?case
  proof (cases "n < 10")
    case True
    then show ?thesis by (simp add: dec.simps [of n])
  next
    case False
    then have "0 < k" using Suc.prems by (cases k) auto
    moreover have "n div 10 < 10 ^ k" using Suc.prems by (simp add: less_mult_imp_div_less mult.commute)
    ultimately have "length (dec (n div 10)) \<le> k" by (rule Suc.IH [rotated])
    then show ?thesis using False by (simp add: dec.simps [of n])
  qed
qed simp

lemma last_dec: "is_digit (last (dec n))"
  by (rule dec_digits [of _ n]) simp

lemma trim_id:
  assumes "s \<noteq> []" "\<not> is_ws (hd s)" "\<not> is_ws (last s)"
  shows "trim s = s"
proof -
  have "dropWhile is_ws s = s" using assms by (cases s) auto
  moreover have "dropWhile is_ws (rev s) = rev s" using assms by (cases s rule: rev_cases) auto
  ultimately show ?thesis by (simp add: trim_def)
qed

lemma digit_not_ws: "is_digit c \<Longrightarrow> \<not> is_ws c"
  by (auto simp: is_digit_def is_ws_def Let_def)

end
