(* ===== verification/Errors.thy ===== *)
theory Errors
  imports Strings
begin

text \<open>
  The error type of the crate (\<open>src/src/error.rs\<close>) with its display strings, the bridge to
  \<open>std::io::Error\<close>, and the reply that the control socket sends for an error (\<open>reply_err\<close> of
  \<open>src/src/daemon/server.rs\<close>). An I/O error of the operating system is its kind and its message.
\<close>

datatype io_kind = Not_Found | Permission_Denied | Already_Exists | Would_Block | Interrupted_Call
  | Unexpected_Eof | Broken_Pipe | Other_Kind

record io_error =
  io_kind_of :: io_kind
  io_message :: string

datatype error =
    Bad_Request string
  | Slot_State string
  | Io string io_error
  | Fdt string string
  | Protocol string
  | Internal string

fun show_error :: "error \<Rightarrow> string" where
  "show_error (Bad_Request m) = m"
| "show_error (Slot_State m) = m"
| "show_error (Io ctx source) = ctx @ '': '' @ io_message source"
| "show_error (Fdt op m) = ''fdt: '' @ op @ '': '' @ m"
| "show_error (Protocol m) = ''protocol: '' @ m"
| "show_error (Internal m) = ''internal: '' @ m"

definition io_other :: "string \<Rightarrow> io_error" where
  "io_other m = \<lparr>io_kind_of = Other_Kind, io_message = m\<rparr>"

text \<open>\<open>From<Error> for io::Error\<close>.\<close>

fun to_io :: "error \<Rightarrow> io_error" where
  "to_io (Io ctx source) = \<lparr>io_kind_of = io_kind_of source, io_message = ctx @ '': '' @ io_message source\<rparr>"
| "to_io e = io_other (show_error e)"

text \<open>The message of \<open>Response::Error\<close>: the text of an internal error stays in the daemon's log.\<close>

fun wire_message :: "error \<Rightarrow> string" where
  "wire_message (Internal m) = ''internal daemon error''"
| "wire_message e = show_error e"

text \<open>
  An error keeps its text on the way through \<open>io::Error\<close>, and its kind when it came from the operating
  system; every other one becomes \<open>Other\<close>.
\<close>

lemma to_io_message: "io_message (to_io e) = show_error e"
  by (cases e) (simp_all add: io_other_def)

lemma to_io_kind: "io_kind_of (to_io e) = (case e of Io _ source \<Rightarrow> io_kind_of source | _ \<Rightarrow> Other_Kind)"
  by (cases e) (simp_all add: io_other_def)

end
