(* ===== verification/Parse.thy ===== *)
theory Parse
  imports Errors
begin

text \<open>
  The parsers of the operator's input (\<open>src/src/parse.rs\<close>): sizes of disk images, host names and
  forwarded ports, with the host name that the daemon makes up itself (\<open>src/src/virtio/network.rs\<close>)
  and the host port of the SSH forward (\<open>src/src/regs.rs\<close>).
\<close>

section \<open>Model\<close>

definition parse_u64 :: "string \<Rightarrow> int_error + nat" where "parse_u64 = parse_uint (2 ^ 64)"
definition parse_u32 :: "string \<Rightarrow> int_error + nat" where "parse_u32 = parse_uint (2 ^ 32)"
definition parse_u16 :: "string \<Rightarrow> int_error + nat" where "parse_u16 = parse_uint (2 ^ 16)"

text \<open>The number part and the multiplier of a disk size.\<close>

definition size_suffix :: "string \<Rightarrow> string \<times> u64" where
  "size_suffix s =
     (case strip_suffix ''G'' s of Some rest \<Rightarrow> (rest, 1024 * 1024 * 1024) | None \<Rightarrow>
      case strip_suffix ''g'' s of Some rest \<Rightarrow> (rest, 1024 * 1024 * 1024) | None \<Rightarrow>
      case strip_suffix ''T'' s of Some rest \<Rightarrow> (rest, 1024 * 1024 * 1024 * 1024) | None \<Rightarrow>
      case strip_suffix ''t'' s of Some rest \<Rightarrow> (rest, 1024 * 1024 * 1024 * 1024) | None \<Rightarrow>
      case strip_suffix ''M'' s of Some rest \<Rightarrow> (rest, 1024 * 1024) | None \<Rightarrow>
      case strip_suffix ''m'' s of Some rest \<Rightarrow> (rest, 1024 * 1024) | None \<Rightarrow> (s, 1))"

definition parse_size_disk :: "string \<Rightarrow> error + u64" where
  "parse_size_disk input =
     (let s = trim input
      in if s = [] then Inl (Bad_Request ''empty size string'')
         else case size_suffix s of (num_str, mult) \<Rightarrow>
           (case parse_u64 num_str of
              Inl e \<Rightarrow> Inl (Bad_Request (''invalid disk size '' @ debug_str s @ '': '' @ show_int_error e))
            | Inr num \<Rightarrow>
                (case checked_mul (word_of_nat num) mult of
                   None \<Rightarrow> Inl (Bad_Request (''disk size '' @ debug_str s @ '': too large''))
                 | Some v \<Rightarrow> Inr v)))"

definition is_ascii_lowercase :: "char \<Rightarrow> bool" where
  "is_ascii_lowercase c \<longleftrightarrow> (let n = of_char c :: nat in 97 \<le> n \<and> n \<le> 122)"

definition hostname_char :: "char \<Rightarrow> bool" where
  "hostname_char c \<longleftrightarrow> is_ascii_lowercase c \<or> is_digit c \<or> c = CHR ''-''"

definition parse_hostname :: "string \<Rightarrow> error + string" where
  "parse_hostname s =
     (if s = [] then Inl (Bad_Request ''hostname: empty'')
      else if length s > 63 then Inl (Bad_Request ''hostname longer than 63 chars (RFC 952)'')
      else if hd s = CHR ''-'' \<or> last s = CHR ''-'' then
        Inl (Bad_Request (''hostname must not start or end with '' @ [CHR 0x27] @ ''-'' @ [CHR 0x27]))
      else case find (\<lambda>c. \<not> hostname_char c) s of
        Some c \<Rightarrow> Inl (Bad_Request (''hostname: only lowercase a-z, 0-9, '' @ [CHR 0x27] @ ''-'' @ [CHR 0x27] @
          '' allowed (got '' @ [CHR 0x27] @ (if c = CHR 0x27 then [CHR 0x5C, c] else if c = CHR 0x22 then [c] else escape_debug c) @
          [CHR 0x27] @ '')''))
      | None \<Rightarrow> Inr s)"

definition parse_fwd_pair :: "string \<Rightarrow> error + u16 \<times> u16" where
  "parse_fwd_pair s =
     (case split_once (CHR '':'') s of
        None \<Rightarrow> Inl (Bad_Request (''expected HOST:GUEST in '' @ debug_str s))
      | Some (h, g) \<Rightarrow>
          (case parse_u16 h of
             Inl _ \<Rightarrow> Inl (Bad_Request (''invalid HOST '' @ debug_str h))
           | Inr host \<Rightarrow>
               (case parse_u16 g of
                  Inl _ \<Rightarrow> Inl (Bad_Request (''invalid GUEST '' @ debug_str g))
                | Inr guest \<Rightarrow>
                    if host = 0 \<or> guest = 0 then Inl (Bad_Request (''ports must be 1..=65535 in '' @ debug_str s))
                    else Inr (word_of_nat host, word_of_nat guest))))"

definition format_dhcp_hostname :: "u32 \<Rightarrow> u8 \<Rightarrow> string" where
  "format_dhcp_hostname card_idx l2cpu_idx = ''bhx-card'' @ dec (unat card_idx) @ ''-l2cpu'' @ dec (unat l2cpu_idx)"

definition SSH_BASE_PORT :: u16 where "SSH_BASE_PORT = 2222"
definition PORTS_PER_CARD :: u16 where "PORTS_PER_CARD = 4"

text \<open>In a release build the arithmetic wraps; the card number is cut to 16 bits first.\<close>

definition ssh_port :: "u32 \<Rightarrow> u8 \<Rightarrow> u16" where
  "ssh_port card_idx l2cpu_idx = SSH_BASE_PORT + ucast l2cpu_idx + PORTS_PER_CARD * ucast card_idx"

section \<open>Forwarded ports\<close>

text \<open>
  A port forward is read back as it was written, for every pair of ports, and whatever is accepted are
  two ports other than 0, printed before and after the only colon that counts.
\<close>

theorem fwd_pair_roundtrip:
  "(\<forall>h g. 0 < h \<and> h < 2 ^ 16 \<and> 0 < g \<and> g < 2 ^ 16 \<longrightarrow>
      parse_fwd_pair (dec h @ '':'' @ dec g) = Inr (word_of_nat h, word_of_nat g)) \<and>
   (\<forall>h g. parse_fwd_pair s = Inr (h, g) \<longrightarrow> h \<noteq> 0 \<and> g \<noteq> 0 \<and>
      (\<exists>a b. s = a @ '':'' @ b \<and> parse_u16 a = Inr (unat h) \<and> parse_u16 b = Inr (unat g)))"
proof (intro conjI allI impI)
  fix h g :: nat
  assume b: "0 < h \<and> h < 2 ^ 16 \<and> 0 < g \<and> g < 2 ^ 16"
  have "CHR '':'' \<notin> set (dec h)" using dec_digits [of "CHR '':''" h] by (auto simp: is_digit_def)
  then have "split_once (CHR '':'') (dec h @ '':'' @ dec g) = Some (dec h, dec g)" by (simp add: split_once_Some)
  with b show "parse_fwd_pair (dec h @ '':'' @ dec g) = Inr (word_of_nat h, word_of_nat g)"
    by (simp add: parse_fwd_pair_def parse_u16_def parse_uint_dec)
next
  fix h g
  assume "parse_fwd_pair s = Inr (h, g)"
  then obtain a b i j where s: "s = a @ '':'' @ b" and p: "parse_u16 a = Inr i" "parse_u16 b = Inr j"
    and nz: "i \<noteq> 0" "j \<noteq> 0" and w: "h = word_of_nat i" "g = word_of_nat j"
    by (auto simp: parse_fwd_pair_def split_once_Some split: option.splits sum.splits if_splits)
  have "i < 2 ^ 16" "j < 2 ^ 16" using p by (auto simp: parse_u16_def dest: parse_uint_bound)
  then have u: "unat h = i" "unat g = j" by (simp_all add: w unsigned_of_nat take_bit_nat_eq_self)
  then show "h \<noteq> 0" "g \<noteq> 0" using nz by auto
  show "\<exists>a b. s = a @ '':'' @ b \<and> parse_u16 a = Inr (unat h) \<and> parse_u16 b = Inr (unat g)" using s p u by blast
qed

theorem fwd_pair_roundtrip_witness:
  "parse_fwd_pair (dec 2222 @ '':'' @ dec 22) = Inr (2222, 22)"
  using fwd_pair_roundtrip [THEN conjunct1, THEN spec [of _ 2222], THEN spec [of _ 22]] by simp

section \<open>Host names\<close>

text \<open>
  A host name is accepted, unchanged, exactly when it has 1 to 63 characters, all of them lower-case
  letters, digits or dashes, and neither starts nor ends with a dash. The name that the daemon gives a
  guest without an override is always one of them.
\<close>

theorem hostname_accepted_iff:
  "(parse_hostname s = Inr r \<longleftrightarrow>
      r = s \<and> 1 \<le> length s \<and> length s \<le> 63 \<and> hd s \<noteq> CHR ''-'' \<and> last s \<noteq> CHR ''-'' \<and> (\<forall>c \<in> set s. hostname_char c)) \<and>
   parse_hostname (format_dhcp_hostname card_idx l2cpu_idx) = Inr (format_dhcp_hostname card_idx l2cpu_idx)"

proof -
  have iff: "parse_hostname s = Inr r \<longleftrightarrow>
      r = s \<and> 1 \<le> length s \<and> length s \<le> 63 \<and> hd s \<noteq> CHR ''-'' \<and> last s \<noteq> CHR ''-'' \<and> (\<forall>c \<in> set s. hostname_char c)" for s r
    by (auto simp: parse_hostname_def Suc_le_eq find_None_iff find_Some_iff split: option.splits)
  let ?h = "format_dhcp_hostname card_idx l2cpu_idx"
  have "length (dec (unat card_idx)) \<le> 10"
    by (rule length_dec) (use unsigned_less [of card_idx, where ?'a = nat] in simp_all)
  moreover have "length (dec (unat l2cpu_idx)) \<le> 3"
    by (rule length_dec) (use unsigned_less [of l2cpu_idx, where ?'a = nat] in simp_all)
  ultimately have "length ?h \<le> 63" by (simp add: format_dhcp_hostname_def)
  moreover have "last ?h \<noteq> CHR ''-''"
    using last_dec [of "unat l2cpu_idx"] by (auto simp: format_dhcp_hostname_def is_digit_def)
  moreover have "\<forall>c \<in> set ?h. hostname_char c"
    using dec_digits [of _ "unat card_idx"] dec_digits [of _ "unat l2cpu_idx"]
    by (auto simp: format_dhcp_hostname_def hostname_char_def is_ascii_lowercase_def is_digit_def)
  ultimately have "parse_hostname ?h = Inr ?h" unfolding iff by (simp add: format_dhcp_hostname_def)
  with iff show ?thesis by blast
qed

theorem hostname_accepted_iff_witness:
  "parse_hostname ''debian-1'' = Inr ''debian-1''"
  by (subst hostname_accepted_iff [THEN conjunct1])
    (simp add: hostname_char_def is_ascii_lowercase_def is_digit_def)

section \<open>Disk sizes\<close>

text \<open>
  A disk size is exact or refused. Whatever is accepted is the number times the multiplier of the
  suffix, without wrap-around; a printed number with a suffix gives that product when it fits 64 bits
  and is refused as too large when it does not.
\<close>

theorem disk_size_exact:
  assumes "u \<in> {([], 1), (''M'', 2 ^ 20), (''m'', 2 ^ 20), (''G'', 2 ^ 30), (''g'', 2 ^ 30), (''T'', 2 ^ 40), (''t'', 2 ^ 40)}"
    and "n < 2 ^ 64"
  shows "parse_size_disk (dec n @ fst u) =
      (if n * snd u < 2 ^ 64 then Inr (word_of_nat (n * snd u))
       else Inl (Bad_Request (''disk size '' @ debug_str (dec n @ fst u) @ '': too large''))) \<and>
    (\<forall>v. parse_size_disk s = Inr v \<longrightarrow>
      (\<exists>num. parse_u64 (fst (size_suffix (trim s))) = Inr num \<and> unat v = num * unat (snd (size_suffix (trim s)))))"
proof (intro conjI allI impI)
  have ws: "\<not> is_ws (hd (dec n))" "\<not> is_ws (last (dec n))"
    using dec_digits [OF hd_in_set [OF dec_not_Nil, of n]] last_dec [of n] by (simp_all add: digit_not_ws)
  have "\<not> is_ws (hd (dec n @ fst u))" using ws by (simp add: hd_append)
  moreover have "\<not> is_ws (last (dec n @ fst u))"
    using assms(1) by (elim insertE emptyE) (simp_all add: ws(2), simp_all add: is_ws_def)
  ultimately have t: "trim (dec n @ fst u) = dec n @ fst u" by (simp add: trim_id)
  have none: "strip_suffix [c] (dec n @ [d]) = None" if "c \<noteq> d" for c d using that by (intro strip_suffix_last) auto
  have none': "strip_suffix [c] (dec n) = None" if "\<not> is_digit c" for c
    using that last_dec [of n] by (intro strip_suffix_last) auto
  have sfx: "size_suffix (dec n @ fst u) = (dec n, word_of_nat (snd u))"
    using assms(1) by (elim insertE emptyE) (simp_all add: size_suffix_def none none' is_digit_def)
  have mu: "unat (word_of_nat (snd u) :: u64) = snd u" using assms(1) by (auto simp: unsigned_of_nat)
  have nu: "unat (word_of_nat n :: u64) = n" using assms(2) by (simp add: unsigned_of_nat take_bit_nat_eq_self)
  show "parse_size_disk (dec n @ fst u) =
      (if n * snd u < 2 ^ 64 then Inr (word_of_nat (n * snd u))
       else Inl (Bad_Request (''disk size '' @ debug_str (dec n @ fst u) @ '': too large'')))"
    using assms(2) by (simp add: parse_size_disk_def Let_def t sfx parse_u64_def parse_uint_dec checked_mul_def mu nu)
next
  fix v
  assume "parse_size_disk s = Inr v"
  then obtain num where p: "parse_u64 (fst (size_suffix (trim s))) = Inr num"
    and m: "checked_mul (word_of_nat num) (snd (size_suffix (trim s))) = Some v"
    by (auto simp: parse_size_disk_def Let_def split: if_splits prod.splits sum.splits option.splits)
  have "num < 2 ^ 64" using p by (auto simp: parse_u64_def dest: parse_uint_bound)
  then have "unat (word_of_nat num :: u64) = num" by (simp add: unsigned_of_nat take_bit_nat_eq_self)
  then show "\<exists>num. parse_u64 (fst (size_suffix (trim s))) = Inr num \<and> unat v = num * unat (snd (size_suffix (trim s)))"
    using p checked_mul_Some [OF m] by auto
qed

theorem disk_size_exact_witness:
  "parse_size_disk (dec 10 @ ''G'') = Inr (10 * 1024 * 1024 * 1024) \<and>
   parse_size_disk (dec 99999999 @ ''T'') = Inl (Bad_Request (''disk size '' @ debug_str (dec 99999999 @ ''T'') @ '': too large''))"
  using disk_size_exact [of "(''G'', 2 ^ 30)" 10] disk_size_exact [of "(''T'', 2 ^ 40)" 99999999] by simp

section \<open>SSH ports\<close>

text \<open>
  Two guests get different SSH ports unless the L2CPU is the same and the card numbers agree modulo
  16384, the point at which the arithmetic wraps.
\<close>

lemma low_bits_u8: "i < 4 \<Longrightarrow> bit (i :: u8) n \<Longrightarrow> n < 2"
proof -
  assume "i < 4" "bit i n"
  then have "unat (take_bit 2 i) = unat i"
    by (simp add: unsigned_take_bit_eq take_bit_nat_eq_self word_less_nat_alt)
  then have "take_bit 2 i = i" by (rule unsigned_word_eqI)
  then have "bit (take_bit 2 i) n" using \<open>bit i n\<close> by simp
  then show "n < 2" by (simp add: bit_simps)
qed

lemma port_bits:
  assumes "i < 4"
  shows "bit (ucast i + 4 * ucast a :: u16) n \<longleftrightarrow> (if n < 2 then bit (i :: u8) n else n < 16 \<and> bit (a :: u32) (n - 2))"
proof -
  have "4 * ucast a = (push_bit 2 (ucast a) :: u16)" by (simp add: push_bit_eq_mult)
  moreover have "ucast i AND push_bit 2 (ucast a) = (0 :: u16)"
    by (intro bit_word_eqI) (auto simp: bit_simps dest!: low_bits_u8 [OF assms])
  ultimately have "ucast i + 4 * ucast a = (ucast i OR push_bit 2 (ucast a) :: u16)" by (simp add: disjunctive_add_eq_or)
  then show ?thesis using low_bits_u8 [OF assms, of n] by (auto simp: bit_simps)
qed

theorem ssh_ports_distinct:
  assumes "i < 4" "j < 4"
  shows "ssh_port a i = ssh_port b j \<longleftrightarrow> i = j \<and> take_bit 14 a = take_bit 14 b"
proof
  assume "ssh_port a i = ssh_port b j"
  then have "ucast i + 4 * ucast a = (ucast j + 4 * ucast b :: u16)"
    by (simp add: ssh_port_def PORTS_PER_CARD_def add.assoc)
  then have eq: "(if n < 2 then bit i n else n < 16 \<and> bit a (n - 2)) = (if n < 2 then bit j n else n < 16 \<and> bit b (n - 2))" for n
    using port_bits [OF assms(1), of a n] port_bits [OF assms(2), of b n] by simp
  have "bit i n = bit j n" for n
    using eq [of n] low_bits_u8 [OF assms(1), of n] low_bits_u8 [OF assms(2), of n] by (cases "n < 2") auto
  moreover have "bit a n = bit b n" if "n < 14" for n using eq [of "n + 2"] that by simp
  ultimately show "i = j \<and> take_bit 14 a = take_bit 14 b" by (auto simp: bit_eq_iff bit_simps)
next
  assume "i = j \<and> take_bit 14 a = take_bit 14 b"
  then have "i = j" and tb: "bit (take_bit 14 a) n = bit (take_bit 14 b) n" for n by simp_all
  have low: "bit a n = bit b n" if "n < 14" for n using tb [of n] that by (simp add: bit_simps)
  have "ucast i + 4 * ucast a = (ucast i + 4 * ucast b :: u16)"
    by (intro bit_word_eqI) (simp add: port_bits assms low)
  then show "ssh_port a i = ssh_port b j" by (simp add: ssh_port_def PORTS_PER_CARD_def add.assoc \<open>i = j\<close>)
qed

theorem ssh_ports_distinct_witness:
  "ssh_port 0 1 \<noteq> ssh_port 1 0 \<and> ssh_port 0 3 = ssh_port 16384 3"
  using ssh_ports_distinct [of 1 0 0 1] ssh_ports_distinct [of 3 3 0 16384] by (simp add: take_bit_eq_mod)

end
