(* ===== verification/Wire_Protocol.thy ===== *)
theory Wire_Protocol
  imports Errors Console_Hub
begin

text \<open>
  The control socket's protocol (\<open>src/src/daemon/protocol.rs\<close>): requests, responses and the frames that
  carry them, a length of four bytes and a JSON body. The JSON encoder and decoder are serde's, so they
  are parameters of the framing; what the framing relies on is that the decoder inverts the encoder.
\<close>

section \<open>Messages\<close>

datatype boot_payload = Kernel string | Uboot string

fun payload_path :: "boot_payload \<Rightarrow> string" where
  "payload_path (Kernel p) = p"
| "payload_path (Uboot p) = p"

fun is_uboot :: "boot_payload \<Rightarrow> bool" where
  "is_uboot (Kernel p) = False"
| "is_uboot (Uboot p) = True"

type_synonym fwd = "u16 \<times> u16"

record boot_request =
  br_l2cpu :: u8
  br_opensbi :: string
  br_payload :: boot_payload
  br_dtb :: string
  br_initramfs :: "string option"
  br_root_device :: string
  br_disk :: "string option"
  br_network :: bool
  br_extra_fwd :: "fwd list"
  br_console :: bool
  br_rng :: bool
  br_force :: bool
  br_memory_override :: "u64 option"
  br_hostname_override :: "string option"
  br_cloud_init :: "string option"
  br_extra_bootargs :: "string option"

datatype request =
    Status
  | Boot boot_request
  | Attach_Console u8 console_mode
  | Add_Disk u8 string "string option"
  | Remove_Disk u8 "string option"
  | Add_Net u8 "u16 option" "fwd list"
  | Remove_Net u8
  | Add_Console u8
  | Remove_Console u8
  | Stop u8
  | Shutdown

datatype l2cpu_state = Stopped | Running | Wedged | Parked

record disk_attach =
  da_path :: string
  da_name :: "string option"

record purgatory_release_meta =
  pm_next_addr_pa :: u64
  pm_next_mode_pa :: u64
  pm_next_arg1_pa :: u64
  pm_hsm_state_pa :: u64
  pm_msip_pa :: u64
  pm_force_park_request_pa :: "u64 option"
  pm_force_park_request_value :: "u64 option"

record l2cpu_status =
  ls_idx :: u8
  ls_state :: l2cpu_state
  ls_disk :: "string option"
  ls_disks :: "disk_attach list"
  ls_net :: bool
  ls_virtio_console :: bool
  ls_clients :: u32
  ls_purgatory_status :: "u64 option"
  ls_purgatory_peers :: "u64 option"
  ls_purgatory_release_meta :: "purgatory_release_meta option"

record status_payload =
  sp_pid :: u32
  sp_uptime_secs :: u64
  sp_l2cpus :: "l2cpu_status list"
  sp_engine_tile :: "(u16 \<times> u16) option"
  sp_pll_fbdiv :: "u16 option"
  sp_pll_postdiv0 :: "u8 option"

datatype response =
    Ok_Response
  | Status_Response status_payload
  | Attached u32 bool
  | Error_Response string

section \<open>Frames\<close>

definition MAX_FRAME_BYTES :: nat where "MAX_FRAME_BYTES = 64 * 1024"

definition frame_too_large :: "nat \<Rightarrow> io_error" where
  "frame_too_large n = to_io (Internal (''frame too large: '' @ dec n @ '' > '' @ dec MAX_FRAME_BYTES))"

text \<open>The result is what has been written to the stream before, followed by the frame.\<close>

definition write_frame :: "('a \<Rightarrow> string + u8 list) \<Rightarrow> 'a \<Rightarrow> u8 list \<Rightarrow> io_error + u8 list" where
  "write_frame encode msg w =
     (case encode msg of
        Inl e \<Rightarrow> Inl (to_io (Protocol e))
      | Inr body \<Rightarrow>
          if length body > MAX_FRAME_BYTES then Inl (frame_too_large (length body))
          else Inr (w @ le_bytes 4 (word_of_nat (length body) :: u32) @ body))"

text \<open>\<open>Read::read_exact\<close> on a stream that ends: the bytes and the rest of the stream.\<close>

definition read_exact :: "nat \<Rightarrow> u8 list \<Rightarrow> io_error + u8 list \<times> u8 list" where
  "read_exact n r =
     (if n \<le> length r then Inr (take n r, drop n r)
      else Inl \<lparr>io_kind_of = Unexpected_Eof, io_message = ''failed to fill whole buffer''\<rparr>)"

definition read_frame :: "(u8 list \<Rightarrow> string + 'a) \<Rightarrow> u8 list \<Rightarrow> io_error + 'a \<times> u8 list" where
  "read_frame decode r =
     (case read_exact 4 r of
        Inl e \<Rightarrow> Inl e
      | Inr (len_buf, r1) \<Rightarrow>
          let len = unat (of_le_bytes len_buf :: u32)
          in if len > MAX_FRAME_BYTES then Inl (frame_too_large len)
             else case read_exact len r1 of
                    Inl e \<Rightarrow> Inl e
                  | Inr (body, r2) \<Rightarrow>
                      (case decode body of Inl e \<Rightarrow> Inl (to_io (Protocol e)) | Inr msg \<Rightarrow> Inr (msg, r2)))"

text \<open>A conversation: frames written one after the other, and read one after the other.\<close>

fun write_frames :: "('a \<Rightarrow> string + u8 list) \<Rightarrow> 'a list \<Rightarrow> u8 list \<Rightarrow> io_error + u8 list" where
  "write_frames encode [] w = Inr w"
| "write_frames encode (m # ms) w =
     (case write_frame encode m w of Inl e \<Rightarrow> Inl e | Inr w' \<Rightarrow> write_frames encode ms w')"

fun read_frames :: "(u8 list \<Rightarrow> string + 'a) \<Rightarrow> nat \<Rightarrow> u8 list \<Rightarrow> io_error + 'a list \<times> u8 list" where
  "read_frames decode 0 r = Inr ([], r)"
| "read_frames decode (Suc n) r =
     (case read_frame decode r of
        Inl e \<Rightarrow> Inl e
      | Inr (m, r') \<Rightarrow> (case read_frames decode n r' of Inl e \<Rightarrow> Inl e | Inr (ms, r'') \<Rightarrow> Inr (m # ms, r'')))"

section \<open>Round trip\<close>

lemma length_word: "n \<le> MAX_FRAME_BYTES \<Longrightarrow> unat (of_le_bytes (le_bytes 4 (word_of_nat n :: u32)) :: u32) = n"
  by (simp add: of_le_bytes_le_bytes_full MAX_FRAME_BYTES_def unsigned_of_nat take_bit_nat_eq_self)

lemma read_written_frame:
  assumes "write_frame encode m w = Inr w'" "\<And>b. encode m = Inr b \<Longrightarrow> decode b = Inr m"
  shows "\<exists>f. w' = w @ f \<and> read_frame decode (f @ rest) = Inr (m, rest)"
proof -
  obtain b where b: "encode m = Inr b" "length b \<le> MAX_FRAME_BYTES"
    "w' = w @ le_bytes 4 (word_of_nat (length b) :: u32) @ b"
    using assms(1) by (auto simp: write_frame_def split: sum.splits if_splits)
  moreover have "read_frame decode ((le_bytes 4 (word_of_nat (length b) :: u32) @ b) @ rest) = Inr (m, rest)"
    using b(2) assms(2) [OF b(1)] by (simp add: read_frame_def read_exact_def length_word)
  ultimately show ?thesis by blast
qed

lemma write_frames_append: "write_frames encode ms w = Inr w' \<Longrightarrow> \<exists>f. w' = w @ f"
proof (induction ms arbitrary: w)
  case (Cons m ms)
  then obtain w1 where w1: "write_frame encode m w = Inr w1" "write_frames encode ms w1 = Inr w'"
    by (auto split: sum.splits)
  moreover have "\<exists>f. w1 = w @ f" using w1(1) by (auto simp: write_frame_def split: sum.splits if_splits)
  ultimately show ?case using Cons.IH [OF w1(2)] by auto
qed simp

text \<open>
  C20. What one side writes the other side reads, message by message, whatever follows on the stream, as
  long as the decoder inverts the encoder on these messages. A frame that the reader refuses for its
  length is never written.
\<close>

theorem frames_roundtrip:
  assumes "write_frames encode ms w = Inr w'" "\<And>m b. m \<in> set ms \<Longrightarrow> encode m = Inr b \<Longrightarrow> decode b = Inr m"
  shows "\<exists>f. w' = w @ f \<and> read_frames decode (length ms) (f @ rest) = Inr (ms, rest)"
  using assms
proof (induction ms arbitrary: w)
  case Nil
  then show ?case by simp
next
  case (Cons m ms)
  obtain w1 where w1: "write_frame encode m w = Inr w1" "write_frames encode ms w1 = Inr w'"
    using Cons.prems(1) by (auto split: sum.splits)
  obtain g where g: "w' = w1 @ g" "read_frames decode (length ms) (g @ rest) = Inr (ms, rest)"
    using Cons.IH [OF w1(2)] Cons.prems(2) by auto
  obtain f where f: "w1 = w @ f" "read_frame decode (f @ g @ rest) = Inr (m, g @ rest)"
    using read_written_frame [OF w1(1), of decode "g @ rest"] Cons.prems(2) by auto
  then show ?case using g by (intro exI [of _ "f @ g"]) simp
qed

text \<open>An encoder and a decoder that satisfy the hypothesis: the message is its own body.\<close>

theorem frames_roundtrip_witness:
  "\<exists>f. [7, 0, 0, 0, 0, 2, 0, 0, 0, 104, 105] = [7] @ f \<and>
     read_frames Inr (length [[], [104, 105]]) (f @ [9]) = Inr ([[], [104, 105]], [9])"
proof -
  have "write_frames Inr [[], [104, 105]] [7] = (Inr [7, 0, 0, 0, 0, 2, 0, 0, 0, 104, 105] :: io_error + u8 list)"
  proof -
    have "[0..<4] = [0, 1, 2, 3 :: nat]" by (simp add: upt_rec)
    then show ?thesis by (simp add: write_frame_def MAX_FRAME_BYTES_def le_bytes_def)
  qed
  from frames_roundtrip [OF this] show ?thesis by simp
qed

text \<open>
  The reader is safe against any peer. It consumes at most the length field and 65536 bytes, a length
  beyond that is refused after four bytes, and a stream that ends inside a frame is an error.
\<close>

theorem read_frame_bounded:
  "case read_frame decode r of
     Inr (m, r') \<Rightarrow> (\<exists>body. length body \<le> MAX_FRAME_BYTES \<and> r = take 4 r @ body @ r' \<and> decode body = Inr m)
   | Inl e \<Rightarrow>
       length r < 4 \<or>
       (let len = unat (of_le_bytes (take 4 r) :: u32)
        in len > MAX_FRAME_BYTES \<and> e = frame_too_large len \<or>
           length r < 4 + len \<and> io_kind_of e = Unexpected_Eof \<or>
           (\<exists>why. decode (take len (drop 4 r)) = Inl why \<and> io_message e = ''protocol: '' @ why))"
proof (cases "length r < 4")
  case True
  then show ?thesis by (simp add: read_frame_def read_exact_def)
next
  case False
  let ?len = "unat (of_le_bytes (take 4 r) :: u32)"
  have split: "r = take 4 r @ take ?len (drop 4 r) @ drop ?len (drop 4 r)"
    unfolding append_take_drop_id by (rule refl)
  show ?thesis
  proof (cases "?len > MAX_FRAME_BYTES \<or> length r < 4 + ?len")
    case True
    then show ?thesis using False by (simp add: read_frame_def read_exact_def Let_def) linarith
  next
    case fits: False
    then have le: "?len \<le> length r - 4" by linarith
    from fits have rd: "read_frame decode r = (case decode (take ?len (drop 4 r)) of Inl e \<Rightarrow> Inl (to_io (Protocol e))
        | Inr msg \<Rightarrow> Inr (msg, drop ?len (drop 4 r)))"
      using False le by (simp add: read_frame_def read_exact_def Let_def split: sum.split)
    show ?thesis
    proof (cases "decode (take ?len (drop 4 r))")
      case (Inr m)
      have "length (take ?len (drop 4 r)) \<le> MAX_FRAME_BYTES" using fits by (simp add: min_def)
      then have "\<exists>body. length body \<le> MAX_FRAME_BYTES \<and> r = take 4 r @ body @ drop ?len (drop 4 r) \<and> decode body = Inr m"
        using split Inr by blast
      then show ?thesis unfolding rd Inr by (simp only: sum.case prod.case)
    qed (simp add: rd Let_def io_other_def)
  qed
qed

end
