(* ===== verification/Fallible.thy ===== *)
theory Fallible
  imports Main
begin

text \<open>
  Operations that may fail and that change a state: the state that the caller finds afterwards is there
  in both cases, because an operation that fails half way keeps what it has already done. \<open>seq\<close> is the
  \<open>?\<close> operator of the source. \<open>preserves\<close> is the shape of an invariant proof, with one rule per
  combinator in the collection \<open>preserving\<close>.
\<close>

type_synonym ('s, 'e, 'a) act = "'s \<Rightarrow> ('e + 'a) \<times> 's"

definition ret :: "'a \<Rightarrow> ('s, 'e, 'a) act" where
  "ret a s = (Inr a, s)"

definition fail :: "'e \<Rightarrow> ('s, 'e, 'a) act" where
  "fail e s = (Inl e, s)"

definition seq :: "('s, 'e, 'a) act \<Rightarrow> ('a \<Rightarrow> ('s, 'e, 'b) act) \<Rightarrow> ('s, 'e, 'b) act" where
  "seq m f s = (case m s of (Inl e, s') \<Rightarrow> (Inl e, s') | (Inr a, s') \<Rightarrow> f a s')"

definition thn :: "('s, 'e, 'a) act \<Rightarrow> ('s, 'e, 'b) act \<Rightarrow> ('s, 'e, 'b) act" where
  "thn m k = seq m (\<lambda>_. k)"

definition asks :: "('s \<Rightarrow> 'a) \<Rightarrow> ('s, 'e, 'a) act" where
  "asks f s = (Inr (f s), s)"

definition upd :: "('s \<Rightarrow> 's) \<Rightarrow> ('s, 'e, unit) act" where
  "upd f s = (Inr (), f s)"

definition lift :: "'e + 'a \<Rightarrow> ('s, 'e, 'a) act" where
  "lift r s = (r, s)"

definition unless_error :: "'e option \<Rightarrow> ('s, 'e, unit) act" where
  "unless_error e s = (case e of None \<Rightarrow> (Inr (), s) | Some e \<Rightarrow> (Inl e, s))"

definition map_err :: "('e \<Rightarrow> 'f) \<Rightarrow> ('s, 'e, 'a) act \<Rightarrow> ('s, 'f, 'a) act" where
  "map_err f m s = (case m s of (Inl e, s') \<Rightarrow> (Inl (f e), s') | (Inr a, s') \<Rightarrow> (Inr a, s'))"

text \<open>\<open>let _ = ...\<close>: the error is dropped.\<close>

definition ignore :: "('s, 'e, 'a) act \<Rightarrow> ('s, 'f, unit) act" where
  "ignore m s = (Inr (), snd (m s))"

text \<open>\<open>Result\<close> in hand: the caller decides.\<close>

definition catch :: "('s, 'e, 'a) act \<Rightarrow> ('s, 'f, 'e + 'a) act" where
  "catch m s = (case m s of (r, s') \<Rightarrow> (Inr r, s'))"

fun each :: "('x \<Rightarrow> ('s, 'e, unit) act) \<Rightarrow> 'x list \<Rightarrow> ('s, 'e, unit) act" where
  "each f [] = ret ()"
| "each f (x # xs) = thn (f x) (each f xs)"

lemmas act_defs = ret_def fail_def seq_def thn_def asks_def upd_def lift_def unless_error_def map_err_def ignore_def catch_def

lemma seq_ret [simp]: "seq (ret a) f = f a"
  by (simp add: fun_eq_iff act_defs)

lemma seq_Inr: "seq m f s = (Inr b, s') \<longleftrightarrow> (\<exists>a s1. m s = (Inr a, s1) \<and> f a s1 = (Inr b, s'))"
  by (auto simp: seq_def split: sum.splits prod.splits)

lemma thn_Inr: "thn m k s = (Inr b, s') \<longleftrightarrow> (\<exists>a s1. m s = (Inr a, s1) \<and> k s1 = (Inr b, s'))"
  by (simp add: thn_def seq_Inr)

lemma act_simps [simp]:
  "ret a s = (Inr a, s)" "fail e s = (Inl e, s)" "asks g s = (Inr (g s), s)" "upd h s = (Inr (), h s)"
  "lift r s = (r, s)" "unless_error None s = (Inr (), s)" "unless_error (Some e) s = (Inl e, s)"
  "ignore m s = (Inr (), snd (m s))"
  by (simp_all add: act_defs)

lemma seq_run:
  "m s = (Inr a, s1) \<Longrightarrow> seq m f s = f a s1" "m s = (Inl e, s1) \<Longrightarrow> seq m f s = (Inl e, s1)"
  "m s = (Inr a, s1) \<Longrightarrow> thn m k s = k s1" "m s = (Inl e, s1) \<Longrightarrow> thn m k s = (Inl e, s1)"
  by (simp_all add: act_defs)

lemma seq_steps [simp]:
  "seq (asks g) f s = f (g s) s" "seq (lift (Inr a)) f s = f a s" "seq (lift (Inl e)) f s = (Inl e, s)"
  "thn (upd h) k s = k (h s)" "thn (unless_error None) k s = k s" "thn (unless_error (Some e)) k s = (Inl e, s)"
  "thn (ret a) k s = k s" "thn (fail e) k s = (Inl e, s)" "seq (fail e) f s = (Inl e, s)"
  "thn (ignore m) k s = k (snd (m s))"
  by (simp_all add: act_defs)

section \<open>Preservation\<close>

definition preserves :: "('s \<Rightarrow> bool) \<Rightarrow> ('s, 'e, 'a) act \<Rightarrow> bool" where
  "preserves P m \<longleftrightarrow> (\<forall>s. P s \<longrightarrow> P (snd (m s)))"

named_theorems preserving \<open>operations that preserve a predicate\<close>

lemma preservesI: "(\<And>s. P s \<Longrightarrow> P (snd (m s))) \<Longrightarrow> preserves P m"
  by (simp add: preserves_def)

lemma preservesD: "preserves P m \<Longrightarrow> P s \<Longrightarrow> m s = (r, s') \<Longrightarrow> P s'"
  by (force simp: preserves_def)

lemma preserves_seq [preserving]: "preserves P m \<Longrightarrow> (\<And>a. preserves P (f a)) \<Longrightarrow> preserves P (seq m f)"
  unfolding preserves_def seq_def by (force split: prod.split sum.split)

lemma preserves_thn [preserving]: "preserves P m \<Longrightarrow> preserves P k \<Longrightarrow> preserves P (thn m k)"
  by (simp add: thn_def preserves_seq)

lemma preserves_basic [preserving]:
  "preserves P (ret a)" "preserves P (fail e)" "preserves P (asks g)" "preserves P (lift r)" "preserves P (unless_error x)"
  by (cases x; simp add: preserves_def)+

lemma preserves_upd: "(\<And>s. P s \<Longrightarrow> P (h s)) \<Longrightarrow> preserves P (upd h)"
  by (simp add: preserves_def)

lemma preserves_wrap [preserving]:
  "preserves P m \<Longrightarrow> preserves P (map_err g m)" "preserves P m \<Longrightarrow> preserves P (ignore m)" "preserves P m \<Longrightarrow> preserves P (catch m)"
  by (force simp: preserves_def map_err_def catch_def split: prod.split sum.split)+

lemma preserves_each [preserving]: "(\<And>x. x \<in> set xs \<Longrightarrow> preserves P (f x)) \<Longrightarrow> preserves P (each f xs)"
  by (induction xs) (auto intro!: preserving)

lemma preserves_if [preserving]: "(b \<Longrightarrow> preserves P m) \<Longrightarrow> (\<not> b \<Longrightarrow> preserves P k) \<Longrightarrow> preserves P (if b then m else k)"
  by simp

lemma preserves_option [preserving]:
  "(x = None \<Longrightarrow> preserves P m) \<Longrightarrow> (\<And>a. x = Some a \<Longrightarrow> preserves P (f a)) \<Longrightarrow> preserves P (case x of None \<Rightarrow> m | Some a \<Rightarrow> f a)"
  by (cases x) simp_all

lemma preserves_sum [preserving]:
  "(\<And>a. x = Inl a \<Longrightarrow> preserves P (f a)) \<Longrightarrow> (\<And>b. x = Inr b \<Longrightarrow> preserves P (g b)) \<Longrightarrow>
     preserves P (case x of Inl a \<Rightarrow> f a | Inr b \<Rightarrow> g b)"
  by (cases x) simp_all

lemma preserves_prod [preserving]:
  "(\<And>a b. x = (a, b) \<Longrightarrow> preserves P (f a b)) \<Longrightarrow> preserves P (case x of (a, b) \<Rightarrow> f a b)"
  by (cases x) simp

section \<open>Weakest preconditions\<close>

text \<open>What holds after an operation: \<open>Q\<close> of its result, \<open>R\<close> of its error. The equations compute it along the program.\<close>

definition wp :: "('s, 'e, 'a) act \<Rightarrow> ('a \<Rightarrow> 's \<Rightarrow> bool) \<Rightarrow> ('e \<Rightarrow> 's \<Rightarrow> bool) \<Rightarrow> 's \<Rightarrow> bool" where
  "wp m Q R s = (case m s of (Inl e, s') \<Rightarrow> R e s' | (Inr a, s') \<Rightarrow> Q a s')"

named_theorems wp_simps \<open>weakest preconditions of operations\<close>

lemma wp_ret [wp_simps]: "wp (ret a) Q R s = Q a s"
  by (simp add: wp_def)

lemma wp_fail [wp_simps]: "wp (fail e) Q R s = R e s"
  by (simp add: wp_def)

lemma wp_asks [wp_simps]: "wp (asks g) Q R s = Q (g s) s"
  by (simp add: wp_def)

lemma wp_upd [wp_simps]: "wp (upd h) Q R s = Q () (h s)"
  by (simp add: wp_def)

lemma wp_lift [wp_simps]: "wp (lift r) Q R s = (case r of Inl e \<Rightarrow> R e s | Inr a \<Rightarrow> Q a s)"
  by (simp add: wp_def split: sum.splits)

lemma wp_seq [wp_simps]: "wp (seq m f) Q R s = wp m (\<lambda>a. wp (f a) Q R) R s"
  by (simp add: wp_def seq_def split: prod.splits sum.splits)

lemma wp_thn [wp_simps]: "wp (thn m k) Q R s = wp m (\<lambda>_. wp k Q R) R s"
  by (simp add: thn_def wp_seq)

lemma wp_wrap [wp_simps]:
  "wp (map_err g m) Q R s = wp m Q (\<lambda>e. R (g e)) s"
  "wp (catch m) Q' R' s = wp m (\<lambda>a. Q' (Inr a)) (\<lambda>e. Q' (Inl e)) s"
  by (simp_all add: wp_def map_err_def catch_def split: prod.splits sum.splits)

lemma wp_ignore [wp_simps]: "wp (ignore m) Q R s = wp m (\<lambda>_. Q ()) (\<lambda>_. Q ()) s"
  by (simp add: wp_def ignore_def split: prod.splits sum.splits)

lemma wp_if [wp_simps]: "wp (if b then m else k) Q R s = (if b then wp m Q R s else wp k Q R s)"
  by simp

lemma wp_option [wp_simps]: "wp (case x of None \<Rightarrow> m | Some a \<Rightarrow> f a) Q R s = (case x of None \<Rightarrow> wp m Q R s | Some a \<Rightarrow> wp (f a) Q R s)"
  by (simp split: option.split)

lemma wp_sum [wp_simps]: "wp (case x of Inl a \<Rightarrow> f a | Inr b \<Rightarrow> g b) Q R s = (case x of Inl a \<Rightarrow> wp (f a) Q R s | Inr b \<Rightarrow> wp (g b) Q R s)"
  by (simp split: sum.split)

lemma wp_prod [wp_simps]: "wp (case x of (a, b) \<Rightarrow> f a b) Q R s = (case x of (a, b) \<Rightarrow> wp (f a b) Q R s)"
  by (simp split: prod.split)

lemma wp_let [wp_simps]: "wp (let x = a in f x) Q R s = (let x = a in wp (f x) Q R s)"
  by (simp add: Let_def)

lemma wp_mono: "wp m Q R s \<Longrightarrow> (\<And>a s'. Q a s' \<Longrightarrow> Q' a s') \<Longrightarrow> (\<And>e s'. R e s' \<Longrightarrow> R' e s') \<Longrightarrow> wp m Q' R' s"
  by (auto simp: wp_def split: prod.splits sum.splits)

lemma wp_each:
  assumes "I s" "\<And>x s. x \<in> set xs \<Longrightarrow> I s \<Longrightarrow> wp (f x) (\<lambda>_. I) R s"
  shows "wp (each f xs) (\<lambda>_. I) R s"
  using assms
proof (induction xs arbitrary: s)
  case Nil
  then show ?case by (simp only: each.simps wp_simps)
next
  case (Cons x xs)
  from Cons.prems have "wp (f x) (\<lambda>_. I) R s" by simp
  moreover have "wp (each f xs) (\<lambda>_. I) R s'" if "I s'" for s' using Cons.IH [OF that] Cons.prems(2) by simp
  ultimately show ?case unfolding each.simps wp_thn by (rule wp_mono)
qed

lemma wpD: "wp m Q R s \<Longrightarrow> m s = (r, s') \<Longrightarrow> (case r of Inl e \<Rightarrow> R e s' | Inr a \<Rightarrow> Q a s')"
  by (simp add: wp_def split: sum.splits)

end
