(* ===== verification/Chip_Fault.thy ===== *)
theory Chip_Fault
  imports Strings
begin

text \<open>
  The chip-fault handler (\<open>src/src/daemon/sigbus.rs\<close>). Threads register and unregister the address ranges
  of chip mappings with a load, a private copy and a compare-and-swap; the signal handler reads whatever
  slice is published. The published slices are leaked, so a pointer is never reused. The steps of several
  threads interleave at the granularity of the atomic operations; every call takes effect exactly once.
\<close>

record chip_range =
  cr_start :: u64
  cr_len :: u64

text \<open>\<open>CHIP_RANGES\<close>: the published pointer, the leaked slices and the next address of the allocator.\<close>

record chip_ranges =
  published :: "nat option"
  slices :: "nat \<Rightarrow> chip_range list"
  fresh_ptr :: nat

definition slice_of :: "chip_ranges \<Rightarrow> nat option \<Rightarrow> chip_range list" where
  "slice_of s cur = (case cur of None \<Rightarrow> [] | Some p \<Rightarrow> slices s p)"

datatype range_call = Register chip_range | Unregister u64

text \<open>
  The slice that a call wants to publish after it has loaded \<open>cur\<close>; None when it returns without
  publishing.
\<close>

fun next_slice :: "range_call \<Rightarrow> chip_range list \<Rightarrow> chip_range list option" where
  "next_slice (Register r) rs = (if cr_len r = 0 then None else Some (rs @ [r]))"
| "next_slice (Unregister target) rs =
     (if \<exists>r\<in>set rs. cr_start r = target then Some (filter (\<lambda>r. cr_start r \<noteq> target) rs) else None)"

text \<open>\<open>compare_exchange\<close> on a slice that has just been leaked; a lost race leaks it all the same.\<close>

definition publish :: "nat option \<Rightarrow> chip_range list \<Rightarrow> chip_ranges \<Rightarrow> bool \<times> chip_ranges" where
  "publish cur v s =
     (let s1 = s\<lparr>slices := (slices s)(fresh_ptr s := v), fresh_ptr := Suc (fresh_ptr s)\<rparr>
      in if published s1 = cur then (True, s1\<lparr>published := Some (fresh_ptr s)\<rparr>) else (False, s1))"

text \<open>A call with no other thread in between: the first round of the loop succeeds.\<close>

definition call_alone :: "range_call \<Rightarrow> chip_ranges \<Rightarrow> chip_ranges" where
  "call_alone c s =
     (case next_slice c (slice_of s (published s)) of
        None \<Rightarrow> s
      | Some v \<Rightarrow> snd (publish (published s) v s))"

definition register_chip_range :: "u64 \<Rightarrow> u64 \<Rightarrow> chip_ranges \<Rightarrow> chip_ranges" where
  "register_chip_range start n = call_alone (Register \<lparr>cr_start = start, cr_len = n\<rparr>)"

definition unregister_chip_range :: "u64 \<Rightarrow> chip_ranges \<Rightarrow> chip_ranges" where
  "unregister_chip_range start = call_alone (Unregister start)"

definition in_range_of :: "u64 \<Rightarrow> chip_range \<Rightarrow> bool" where
  "in_range_of a r \<longleftrightarrow> cr_start r \<le> a \<and> a < saturating_add (cr_start r) (cr_len r)"

definition addr_is_in_chip_range :: "u64 \<Rightarrow> chip_ranges \<Rightarrow> bool" where
  "addr_is_in_chip_range a s \<longleftrightarrow> (\<exists>r\<in>set (slice_of s (published s)). in_range_of a r)"

definition write_hex_u64 :: "u64 \<Rightarrow> string" where
  "write_hex_u64 v = map (\<lambda>i. ''0123456789abcdef'' ! unat (drop_bit ((15 - i) * 4) v AND 0xf)) [0..<16]"

definition SIGBUS :: nat where "SIGBUS = 7"
definition SIGSEGV :: nat where "SIGSEGV = 11"

definition fault_message :: "nat \<Rightarrow> bool \<Rightarrow> string \<times> bool" where
  "fault_message sig in_chip =
     (if sig = SIGBUS \<and> in_chip then
        (''fatal: SIGBUS during chip access (tt-smi -r? PCIe link lost? Card pulled?) si_addr=0x'', True)
      else if sig = SIGSEGV \<and> in_chip then (''fatal: SIGSEGV during chip access si_addr=0x'', True)
      else if sig = SIGBUS then (''fatal: SIGBUS in daemon process (likely a bug, not chip): si_addr=0x'', True)
      else if sig = SIGSEGV then (''fatal: SIGSEGV in daemon process (likely a bug, not chip): si_addr=0x'', True)
      else (''fatal: unexpected signal in chip-fault handler'' @ [CHR 0x0A], False))"

text \<open>What the handler writes to the log and the exit status. No \<open>siginfo\<close> reads as address 0.\<close>

definition handle_chip_fault :: "nat \<Rightarrow> u64 option \<Rightarrow> chip_ranges \<Rightarrow> string \<times> nat" where
  "handle_chip_fault sig info s =
     (let si_addr = (case info of None \<Rightarrow> 0 | Some a \<Rightarrow> a);
          (prefix, append_addr) = fault_message sig (addr_is_in_chip_range si_addr s)
      in (prefix @ (if append_addr then write_hex_u64 si_addr @ [CHR 0x0A] else []), 128 + sig))"

section \<open>Interleaved calls\<close>

datatype range_thread =
    Idle
  | Looping range_call
  | Copied range_call "nat option" "chip_range list"

type_synonym range_system = "chip_ranges \<times> (nat \<Rightarrow> range_thread) \<times> range_call list"

text \<open>One atomic operation of one thread. The last component logs the calls in the order of their effect.\<close>

inductive range_step :: "range_system \<Rightarrow> range_system \<Rightarrow> bool" where
  enter: "ts t = Idle \<Longrightarrow> range_step (s, ts, log) (s, ts(t := Looping c), log)"
| load: "ts t = Looping c \<Longrightarrow> next_slice c (slice_of s (published s)) = Some v \<Longrightarrow>
     range_step (s, ts, log) (s, ts(t := Copied c (published s) v), log)"
| load_return: "ts t = Looping c \<Longrightarrow> next_slice c (slice_of s (published s)) = None \<Longrightarrow>
     range_step (s, ts, log) (s, ts(t := Idle), log @ [c])"
| cas: "ts t = Copied c cur v \<Longrightarrow> publish cur v s = (True, s') \<Longrightarrow>
     range_step (s, ts, log) (s', ts(t := Idle), log @ [c])"
| cas_lost: "ts t = Copied c cur v \<Longrightarrow> publish cur v s = (False, s') \<Longrightarrow>
     range_step (s, ts, log) (s', ts(t := Looping c), log)"

inductive_cases range_step_cases: "range_step x y"

definition no_ranges :: chip_ranges where
  "no_ranges = \<lparr>published = None, slices = (\<lambda>_. []), fresh_ptr = 0\<rparr>"

definition ranges_started :: range_system where
  "ranges_started = (no_ranges, (\<lambda>_. Idle), [])"

definition range_effect :: "chip_range list \<Rightarrow> range_call \<Rightarrow> chip_range list" where
  "range_effect rs c = (case next_slice c rs of None \<Rightarrow> rs | Some v \<Rightarrow> v)"

definition allocated :: "chip_ranges \<Rightarrow> nat option \<Rightarrow> bool" where
  "allocated s cur \<longleftrightarrow> (\<forall>p. cur = Some p \<longrightarrow> p < fresh_ptr s)"

definition range_inv :: "range_system \<Rightarrow> bool" where
  "range_inv = (\<lambda>(s, ts, log).
     allocated s (published s) \<and> slice_of s (published s) = foldl range_effect [] log \<and>
     (\<forall>t c cur v. ts t = Copied c cur v \<longrightarrow> allocated s cur \<and> next_slice c (slice_of s cur) = Some v))"

lemma publish_keeps:
  assumes "publish cur v s = (b, s')" "allocated s c"
  shows "allocated s' c" "slice_of s' c = slice_of s c"
  using assms by (auto simp: publish_def Let_def allocated_def slice_of_def less_Suc_eq split: if_splits option.splits)

lemma publish_won:
  assumes "publish cur v s = (True, s')"
  shows "published s = cur" "allocated s' (published s')" "slice_of s' (published s') = v"
  using assms by (auto simp: publish_def Let_def allocated_def slice_of_def split: if_splits)

lemma publish_lost: "publish cur v s = (False, s') \<Longrightarrow> published s' = published s"
  by (auto simp: publish_def Let_def split: if_splits)

lemma range_step_inv: "range_step x y \<Longrightarrow> range_inv x \<Longrightarrow> range_inv y"
proof (induction rule: range_step.induct)
  case (cas ts t c cur v s s' log)
  note keep = publish_keeps [OF cas.hyps(2)] and won = publish_won [OF cas.hyps(2)]
  from cas.hyps(1) cas.prems have "next_slice c (slice_of s (published s)) = Some v"
    unfolding range_inv_def won(1) by blast
  with cas.prems won(2,3) keep show ?case
    by (auto simp: range_inv_def range_effect_def)
next
  case (cas_lost ts t c cur v s s' log)
  from cas_lost.prems publish_keeps [OF cas_lost.hyps(2)] publish_lost [OF cas_lost.hyps(2)] show ?case
    by (auto simp: range_inv_def)
qed (auto simp: range_inv_def range_effect_def)

lemma ranges_started_inv: "range_inv ranges_started"
  by (simp add: ranges_started_def no_ranges_def range_inv_def allocated_def slice_of_def)

lemma range_reach_inv: "range_step\<^sup>*\<^sup>* ranges_started x \<Longrightarrow> range_inv x"
  by (induction rule: rtranclp_induct) (auto intro: range_step_inv ranges_started_inv)

lemma call_alone_effect:
  "slice_of (call_alone c s) (published (call_alone c s)) = range_effect (slice_of s (published s)) c"
  by (auto simp: call_alone_def range_effect_def publish_def slice_of_def split: option.splits)

text \<open>The registrations that no later call has taken back.\<close>

definition live_range :: "range_call list \<Rightarrow> chip_range \<Rightarrow> bool" where
  "live_range log r \<longleftrightarrow>
     (\<exists>l1 l2. log = l1 @ Register r # l2 \<and> cr_len r \<noteq> 0 \<and> Unregister (cr_start r) \<notin> set l2)"

lemma live_range_Nil: "\<not> live_range [] r"
  by (simp add: live_range_def)

lemma live_range_snoc:
  "live_range (log @ [c]) r \<longleftrightarrow>
     (c = Register r \<and> cr_len r \<noteq> 0) \<or> (live_range log r \<and> c \<noteq> Unregister (cr_start r))"
proof
  assume "live_range (log @ [c]) r"
  then obtain l1 l2 where l: "log @ [c] = l1 @ Register r # l2" "cr_len r \<noteq> 0" "Unregister (cr_start r) \<notin> set l2"
    by (auto simp: live_range_def)
  then show "(c = Register r \<and> cr_len r \<noteq> 0) \<or> (live_range log r \<and> c \<noteq> Unregister (cr_start r))"
    by (cases l2 rule: rev_cases) (auto simp: live_range_def)
next
  assume "(c = Register r \<and> cr_len r \<noteq> 0) \<or> (live_range log r \<and> c \<noteq> Unregister (cr_start r))"
  then show "live_range (log @ [c]) r"
  proof
    assume "c = Register r \<and> cr_len r \<noteq> 0"
    then show ?thesis unfolding live_range_def by (intro exI [of _ log] exI [of _ "[]"]) simp
  next
    assume "live_range log r \<and> c \<noteq> Unregister (cr_start r)"
    then obtain l1 l2 where "log = l1 @ Register r # l2" "cr_len r \<noteq> 0" "Unregister (cr_start r) \<notin> set (l2 @ [c])"
      by (auto simp: live_range_def)
    then show ?thesis unfolding live_range_def by (intro exI [of _ l1] exI [of _ "l2 @ [c]"]) simp
  qed
qed

lemma range_effect_set:
  "r \<in> set (range_effect rs c) \<longleftrightarrow> (c = Register r \<and> cr_len r \<noteq> 0) \<or> (r \<in> set rs \<and> c \<noteq> Unregister (cr_start r))"
  by (cases c) (auto simp: range_effect_def)

lemma live_ranges_published: "r \<in> set (foldl range_effect [] log) \<longleftrightarrow> live_range log r"
  by (induction log rule: rev_induct) (simp_all add: live_range_Nil live_range_snoc range_effect_set)

lemma reached_slice:
  assumes "range_step\<^sup>*\<^sup>* ranges_started (s, ts, log)"
  shows "addr_is_in_chip_range a s \<longleftrightarrow> (\<exists>r. live_range log r \<and> in_range_of a r)"
proof -
  from range_reach_inv [OF assms] have "slice_of s (published s) = foldl range_effect [] log" by (simp add: range_inv_def)
  then have "r \<in> set (slice_of s (published s)) \<longleftrightarrow> live_range log r" for r by (simp add: live_ranges_published)
  then show ?thesis by (auto simp: addr_is_in_chip_range_def)
qed

text \<open>
  C17. However the calls of several threads interleave, also when they lose compare-and-swap races: a bus error is
  attributed to the chip exactly when its address lies in a range that was registered and not unregistered
  since, in the order in which the calls took effect. The log line carries the address and the exit status
  carries the signal.
\<close>

theorem fault_attribution:
  assumes "range_step\<^sup>*\<^sup>* ranges_started (s, ts, log)"
  shows "handle_chip_fault SIGBUS (Some a) s =
    ((if \<exists>r. live_range log r \<and> in_range_of a r
      then ''fatal: SIGBUS during chip access (tt-smi -r? PCIe link lost? Card pulled?) si_addr=0x''
      else ''fatal: SIGBUS in daemon process (likely a bug, not chip): si_addr=0x'') @ write_hex_u64 a @ [CHR 0x0A], 135)"
  using reached_slice [OF assms] by (simp add: handle_chip_fault_def fault_message_def SIGBUS_def SIGSEGV_def)

definition demo_range :: "u64 \<Rightarrow> chip_range" where
  "demo_range a = \<lparr>cr_start = a, cr_len = 0x100\<rparr>"

text \<open>Two threads load the empty list; the second one loses the race and registers in its next round.\<close>

lemma demo_race:
  "\<exists>s ts. range_step\<^sup>*\<^sup>* ranges_started (s, ts, [Register (demo_range 0x1000), Register (demo_range 0x2000)])"
proof -
  define a where "a = Register (demo_range 0x1000)"
  define b where "b = Register (demo_range 0x2000)"
  define T0 where "T0 = (\<lambda>_ :: nat. Idle)"
  define T1 where "T1 = T0(0 := Looping a)"
  define T2 where "T2 = T1(1 := Looping b)"
  define T3 where "T3 = T2(0 := Copied a None [demo_range 0x1000])"
  define T4 where "T4 = T3(1 := Copied b None [demo_range 0x2000])"
  define T5 where "T5 = T4(0 := Idle)"
  define T6 where "T6 = T5(1 := Looping b)"
  define T7 where "T7 = T6(1 := Copied b (Some 0) [demo_range 0x1000, demo_range 0x2000])"
  define s1 where "s1 = \<lparr>published = Some 0, slices = (\<lambda>_. [])(0 := [demo_range 0x1000]), fresh_ptr = 1\<rparr>"
  define s2 where "s2 = s1\<lparr>slices := (slices s1)(1 := [demo_range 0x2000]), fresh_ptr := 2\<rparr>"
  define s3 where "s3 = s2\<lparr>published := Some 2, slices := (slices s2)(2 := [demo_range 0x1000, demo_range 0x2000]), fresh_ptr := 3\<rparr>"
  note Ts = T0_def T1_def T2_def T3_def T4_def T5_def T6_def T7_def and ss = no_ranges_def s1_def s2_def s3_def
  have at: "T0 0 = Idle" "T1 1 = Idle" "T2 0 = Looping a" "T3 1 = Looping b" "T4 0 = Copied a None [demo_range 0x1000]"
    "T5 1 = Copied b None [demo_range 0x2000]" "T6 1 = Looping b" "T7 1 = Copied b (Some 0) [demo_range 0x1000, demo_range 0x2000]"
    by (simp_all add: Ts)
  have pub: "published no_ranges = None" "published s2 = Some 0" "slice_of no_ranges None = []" "slice_of s2 (Some 0) = [demo_range 0x1000]"
    "publish None [demo_range 0x1000] no_ranges = (True, s1)" "publish None [demo_range 0x2000] s1 = (False, s2)"
    "publish (Some 0) [demo_range 0x1000, demo_range 0x2000] s2 = (True, s3)"
    by (simp_all add: ss publish_def slice_of_def)
  have nxt: "next_slice a (slice_of no_ranges (published no_ranges)) = Some [demo_range 0x1000]"
    "next_slice b (slice_of no_ranges (published no_ranges)) = Some [demo_range 0x2000]"
    "next_slice b (slice_of s2 (published s2)) = Some [demo_range 0x1000, demo_range 0x2000]"
    by (simp_all add: pub(1-4) a_def b_def demo_range_def)
  note st = range_step.enter [of T0 0, OF at(1), of no_ranges "[]" a, folded T1_def]
    range_step.enter [of T1 1, OF at(2), of no_ranges "[]" b, folded T2_def]
    range_step.load [of T2 0 a, OF at(3) nxt(1), of "[]", unfolded pub(1), folded T3_def]
    range_step.load [of T3 1 b, OF at(4) nxt(2), of "[]", unfolded pub(1), folded T4_def]
    range_step.cas [of T4 0, OF at(5) pub(5), of "[]", folded T5_def]
    range_step.cas_lost [of T5 1, OF at(6) pub(6), of "[a]", folded T6_def]
    range_step.load [of T6 1 b, OF at(7) nxt(3), of "[a]", unfolded pub(2), folded T7_def]
    range_step.cas [of T7 1, OF at(8) pub(7), of "[a]"]
  have "range_step\<^sup>*\<^sup>* (no_ranges, T0, []) (s3, T7(1 := Idle), [a] @ [b])"
    by (rule converse_rtranclp_into_rtranclp [where r = range_step, OF st(1)], rule converse_rtranclp_into_rtranclp [where r = range_step, OF st(2)],
        rule converse_rtranclp_into_rtranclp [where r = range_step, OF st(3)], rule converse_rtranclp_into_rtranclp [where r = range_step, OF st(4)],
        rule converse_rtranclp_into_rtranclp [where r = range_step, OF st(5) [unfolded append_Nil]], rule converse_rtranclp_into_rtranclp [where r = range_step, OF st(6)],
        rule converse_rtranclp_into_rtranclp [where r = range_step, OF st(7)], rule r_into_rtranclp [where r = range_step, OF st(8)])
  then show ?thesis unfolding ranges_started_def a_def b_def T0_def by auto
qed

theorem fault_attribution_witness:
  "\<exists>s. handle_chip_fault SIGBUS (Some 0x1010) s =
    (''fatal: SIGBUS during chip access (tt-smi -r? PCIe link lost? Card pulled?) si_addr=0x0000000000001010'' @ [CHR 0x0A], 135)"
proof -
  obtain s ts where r: "range_step\<^sup>*\<^sup>* ranges_started (s, ts, [Register (demo_range 0x1000), Register (demo_range 0x2000)])"
    using demo_race by blast
  have "live_range [Register (demo_range 0x1000), Register (demo_range 0x2000)] (demo_range 0x1000)"
    unfolding live_range_def by (intro exI [of _ "[]"] exI [of _ "[Register (demo_range 0x2000)]"]) (simp add: demo_range_def)
  moreover have "in_range_of 0x1010 (demo_range 0x1000)" by (simp add: in_range_of_def demo_range_def saturating_add_def)
  moreover have "write_hex_u64 0x1010 = ''0000000000001010''"
    by (simp add: write_hex_u64_def upt_rec drop_bit_eq_div)
  ultimately show ?thesis using fault_attribution [OF r, of "0x1010"] by (intro exI [of _ s]) auto
qed

end
