(* ===== verification/Tlb_Windows.thy ===== *)
theory Tlb_Windows
  imports Chip_Fault Fallible Errors Data_Plane
begin

text \<open>
  TLB windows (\<open>src/src/tlb.rs\<close>), the per-core device (\<open>src/src/l2cpu.rs\<close>) and \<open>SharedChip::dup_fd\<close>
  (\<open>src/src/shared_chip.rs\<close>). The state is what the process holds of the kernel: open descriptors, allocated
  TLBs with their configuration, mapped addresses, and the memory behind the NOC. The answers of the
  kernel are a parameter \<open>driver\<close>, which may look at the whole state; a failed call sets \<open>errno\<close>. A panic
  is an error of its own.
\<close>

section \<open>The kernel\<close>

record noc_tlb_config =
  cfg_addr :: u64
  x_end :: u16
  y_end :: u16

text \<open>An address is reserved without access, or it is byte \<open>off\<close> of the window of a TLB.\<close>

datatype mapping = Reserved | Window u32 nat

record kernel =
  open_fds :: "nat \<Rightarrow> bool"
  tlbs :: "u32 \<Rightarrow> noc_tlb_config option"
  mapped :: "nat \<Rightarrow> mapping option"
  noc :: "u16 \<times> u16 \<Rightarrow> u64 \<Rightarrow> u32"
  fault_ranges :: chip_ranges
  chip_fd :: "nat option"
  errno :: nat
  calls :: nat

record driver =
  drv_allocate :: "kernel \<Rightarrow> nat \<Rightarrow> u64 \<Rightarrow> nat + u32"
  drv_configure :: "kernel \<Rightarrow> nat \<Rightarrow> u32 \<Rightarrow> nat option"
  drv_free :: "kernel \<Rightarrow> nat \<Rightarrow> u32 \<Rightarrow> nat option"
  drv_mmap :: "kernel \<Rightarrow> nat option \<Rightarrow> u64 \<Rightarrow> nat + nat"
  drv_dup :: "kernel \<Rightarrow> nat \<Rightarrow> nat + nat"
  strerror :: "nat \<Rightarrow> io_error"

datatype failure = Err io_error | Panic string

type_synonym 'a krn = "(kernel, failure, 'a) act"

definition EBADF :: nat where "EBADF = 9"

definition answer :: "(kernel \<Rightarrow> nat + 'a) \<Rightarrow> (kernel, nat, 'a) act" where
  "answer f s =
     (case f s of
        Inl e \<Rightarrow> (Inl e, s\<lparr>calls := Suc (calls s), errno := e\<rparr>)
      | Inr a \<Rightarrow> (Inr a, s\<lparr>calls := Suc (calls s)\<rparr>))"

definition on_fd :: "nat \<Rightarrow> (kernel \<Rightarrow> nat + 'a) \<Rightarrow> kernel \<Rightarrow> nat + 'a" where
  "on_fd fd f s = (if open_fds s fd then f s else Inl EBADF)"

definition unit_of :: "nat option \<Rightarrow> nat + unit" where
  "unit_of r = (case r of None \<Rightarrow> Inr () | Some e \<Rightarrow> Inl e)"

definition default_config :: noc_tlb_config where
  "default_config = \<lparr>cfg_addr = 0, x_end = 0, y_end = 0\<rparr>"

definition ioctl_allocate_tlb :: "driver \<Rightarrow> nat \<Rightarrow> u64 \<Rightarrow> (kernel, nat, u32) act" where
  "ioctl_allocate_tlb d fd n =
     seq (answer (on_fd fd (\<lambda>s. drv_allocate d s fd n))) (\<lambda>i.
     thn (upd (\<lambda>s. s\<lparr>tlbs := (tlbs s)(i \<mapsto> default_config)\<rparr>)) (ret i))"

definition ioctl_configure_tlb :: "driver \<Rightarrow> nat \<Rightarrow> u32 \<Rightarrow> noc_tlb_config \<Rightarrow> (kernel, nat, unit) act" where
  "ioctl_configure_tlb d fd i c =
     thn (answer (on_fd fd (\<lambda>s. unit_of (drv_configure d s fd i))))
         (upd (\<lambda>s. s\<lparr>tlbs := (tlbs s)(i \<mapsto> c)\<rparr>))"

definition ioctl_free_tlb :: "driver \<Rightarrow> nat \<Rightarrow> u32 \<Rightarrow> (kernel, nat, unit) act" where
  "ioctl_free_tlb d fd i =
     thn (answer (on_fd fd (\<lambda>s. unit_of (drv_free d s fd i))))
         (upd (\<lambda>s. s\<lparr>tlbs := (tlbs s)(i := None)\<rparr>))"

definition remap :: "nat \<Rightarrow> nat \<Rightarrow> (nat \<Rightarrow> mapping option) \<Rightarrow> kernel \<Rightarrow> kernel" where
  "remap a n f s = s\<lparr>mapped := (\<lambda>x. if a \<le> x \<and> x < a + n then f (x - a) else mapped s x)\<rparr>"

text \<open>A base address is \<open>MAP_FIXED\<close>: the mapping replaces what was there.\<close>

definition mmap :: "driver \<Rightarrow> nat option \<Rightarrow> u64 \<Rightarrow> (nat \<Rightarrow> mapping option) \<Rightarrow> (kernel, nat, nat) act" where
  "mmap d base n f =
     seq (answer (\<lambda>s. drv_mmap d s base n)) (\<lambda>r.
     let a = (case base of None \<Rightarrow> r | Some b \<Rightarrow> b)
     in thn (upd (remap a (unat n) f)) (ret a))"

definition munmap :: "nat \<Rightarrow> u64 \<Rightarrow> kernel \<Rightarrow> kernel" where
  "munmap a n = remap a (unat n) (\<lambda>_. None)"

definition close :: "nat \<Rightarrow> kernel \<Rightarrow> kernel" where
  "close fd s = s\<lparr>open_fds := (open_fds s)(fd := False)\<rparr>"

section \<open>Windows\<close>

definition TWO_MEG :: u64 where "TWO_MEG = push_bit 21 1"
definition FOUR_GIG :: u64 where "FOUR_GIG = push_bit 32 1"

record tlb_handle =
  th_fd :: nat
  tlb_id :: u32
  tlb_base :: nat
  tlb_size :: u64

definition fail_os :: "driver \<Rightarrow> 'a krn" where
  "fail_os d = seq (asks errno) (\<lambda>e. fail (Err (strerror d e)))"

definition tlb_handle_new :: "driver \<Rightarrow> nat \<Rightarrow> u64 \<Rightarrow> noc_tlb_config \<Rightarrow> nat option \<Rightarrow> tlb_handle krn" where
  "tlb_handle_new d fd n config base =
     seq (map_err (\<lambda>e. Err (strerror d e)) (ioctl_allocate_tlb d fd n)) (\<lambda>i.
     seq (catch (ioctl_configure_tlb d fd i config)) (\<lambda>r.
     case r of
       Inl e \<Rightarrow> thn (ignore (ioctl_free_tlb d fd i)) (fail (Err (strerror d e)))
     | Inr _ \<Rightarrow>
         seq (catch (mmap d base n (\<lambda>off. Some (Window i off)))) (\<lambda>m.
         case m of
           Inl _ \<Rightarrow> thn (ignore (ioctl_free_tlb d fd i)) (fail_os d)
         | Inr a \<Rightarrow> ret \<lparr>th_fd = fd, tlb_id = i, tlb_base = a, tlb_size = n\<rparr>)))"

definition tlb_handle_drop :: "driver \<Rightarrow> tlb_handle \<Rightarrow> unit krn" where
  "tlb_handle_drop d h =
     thn (upd (munmap (tlb_base h) (tlb_size h))) (ignore (ioctl_free_tlb d (th_fd h) (tlb_id h)))"

record tlb_window =
  tw_offset :: u64
  tw_window :: tlb_handle
  window_size :: u64

definition is_power_of_two :: "u64 \<Rightarrow> bool" where
  "is_power_of_two n \<longleftrightarrow> n \<noteq> 0 \<and> n AND (n - 1) = 0"

definition tlb_window_new :: "driver \<Rightarrow> nat \<Rightarrow> u16 \<times> u16 \<Rightarrow> u64 \<Rightarrow> u64 \<Rightarrow> nat option \<Rightarrow> tlb_window krn" where
  "tlb_window_new d fd xy addr n base =
     (if \<not> is_power_of_two n then fail (Panic ''window_size must be a power of 2'')
      else
        let m = n - 1
        in seq (tlb_handle_new d fd n \<lparr>cfg_addr = addr AND NOT m, x_end = fst xy, y_end = snd xy\<rparr> base) (\<lambda>h.
           ret \<lparr>tw_offset = addr AND m, tw_window = h, window_size = n\<rparr>))"

definition new_2m :: "driver \<Rightarrow> nat \<Rightarrow> u16 \<times> u16 \<Rightarrow> u64 \<Rightarrow> tlb_window krn" where
  "new_2m d fd xy addr = tlb_window_new d fd xy addr TWO_MEG None"

definition new_4g :: "driver \<Rightarrow> nat \<Rightarrow> u16 \<times> u16 \<Rightarrow> u64 \<Rightarrow> nat \<Rightarrow> tlb_window krn" where
  "new_4g d fd xy addr base = tlb_window_new d fd xy addr FOUR_GIG (Some base)"

text \<open>The NOC location behind an address of the process, and the 32-bit accesses through a window.\<close>

definition noc_location :: "kernel \<Rightarrow> nat \<Rightarrow> ((u16 \<times> u16) \<times> u64) option" where
  "noc_location s a =
     (case mapped s a of
        Some (Window i off) \<Rightarrow>
          (case tlbs s i of
             None \<Rightarrow> None
           | Some c \<Rightarrow> Some ((x_end c, y_end c), cfg_addr c + word_of_nat off))
      | _ \<Rightarrow> None)"

definition window_check :: "string \<Rightarrow> tlb_window \<Rightarrow> u64 \<Rightarrow> failure + u64" where
  "window_check op w addr =
     (case checked_add (tw_offset w) addr of
        None \<Rightarrow> Inl (Panic ''TLB window offset overflow'')
      | Some off \<Rightarrow>
          if \<not> off + 4 \<le> window_size w then Inl (Panic (''TLB '' @ op @ '' out of bounds''))
          else if off mod 4 \<noteq> 0 then Inl (Panic (''TLB '' @ op @ '' unaligned''))
          else Inr off)"

definition volatile :: "nat \<Rightarrow> ((u16 \<times> u16) \<times> u64) krn" where
  "volatile a = seq (asks (\<lambda>s. noc_location s a)) (\<lambda>l. case l of None \<Rightarrow> fail (Panic ''bus error'') | Some l \<Rightarrow> ret l)"

definition window_write32 :: "tlb_window \<Rightarrow> u64 \<Rightarrow> u32 \<Rightarrow> unit krn" where
  "window_write32 w addr v =
     seq (lift (window_check ''write32'' w addr)) (\<lambda>off.
     seq (volatile (tlb_base (tw_window w) + unat off)) (\<lambda>(xy, a).
     upd (\<lambda>s. s\<lparr>noc := (noc s)(xy := (noc s xy)(a := v))\<rparr>)))"

definition window_read32 :: "tlb_window \<Rightarrow> u64 \<Rightarrow> u32 krn" where
  "window_read32 w addr =
     seq (lift (window_check ''read32'' w addr)) (\<lambda>off.
     seq (volatile (tlb_base (tw_window w) + unat off)) (\<lambda>(xy, a).
     asks (\<lambda>s. noc s xy a)))"

section \<open>The core\<close>

definition L2CPU_TILES :: "nat \<Rightarrow> u16 \<times> u16" where
  "L2CPU_TILES idx = (8, [3, 9, 5, 7] ! idx)"

definition EIGHT_GIG :: u64 where "EIGHT_GIG = push_bit 32 2"

record l2cpu =
  l2_fd :: nat
  l2_idx :: nat
  l2_starting_address :: u64
  l2_memory_size :: u64
  l2_coordinates :: "u16 \<times> u16"
  l2_memory :: nat
  l2_first :: tlb_window
  l2_second :: tlb_window

definition dup_fd :: "driver \<Rightarrow> (kernel, error, nat) act" where
  "dup_fd d =
     seq (asks chip_fd) (\<lambda>inner.
     case inner of
       None \<Rightarrow> fail (Internal ''SharedChip::dup_fd while rotating fd'')
     | Some fd \<Rightarrow>
         seq (map_err (\<lambda>e. Internal (''SharedChip::dup_fd: fcntl(F_DUPFD_CLOEXEC) failed: '' @ io_message (strerror d e)))
                (answer (on_fd fd (\<lambda>s. drv_dup d s fd)))) (\<lambda>n.
         thn (upd (\<lambda>s. s\<lparr>open_fds := (open_fds s)(n := True)\<rparr>)) (ret n)))"

definition give_up :: "nat \<Rightarrow> nat \<Rightarrow> failure \<Rightarrow> 'a krn" where
  "give_up memory fd e = thn (upd (munmap memory EIGHT_GIG)) (thn (upd (close fd)) (fail e))"

definition l2cpu_new :: "driver \<Rightarrow> nat \<Rightarrow> l2cpu krn" where
  "l2cpu_new d idx =
     (if \<not> idx < 4 then fail (Panic ''L2CPU index must be 0..3'')
      else
        seq (map_err (\<lambda>e. Err (io_other (show_error e))) (dup_fd d)) (\<lambda>fd.
        seq (catch (mmap d None EIGHT_GIG (\<lambda>_. Some Reserved))) (\<lambda>m.
        case m of
          Inl _ \<Rightarrow> thn (upd (close fd)) (fail_os d)
        | Inr memory \<Rightarrow>
            seq (catch (new_4g d fd (L2CPU_TILES idx) 0x400000000000 memory)) (\<lambda>w1.
            case w1 of
              Inl e \<Rightarrow> give_up memory fd e
            | Inr first \<Rightarrow>
                seq (catch (new_4g d fd (L2CPU_TILES idx) 0x400100000000 (memory + 2 ^ 32))) (\<lambda>w2.
                case w2 of
                  Inl e \<Rightarrow> thn (tlb_handle_drop d (tw_window first)) (give_up memory fd e)
                | Inr second \<Rightarrow>
                    thn (upd (\<lambda>s. s\<lparr>fault_ranges := register_chip_range (word_of_nat memory) EIGHT_GIG (fault_ranges s)\<rparr>))
                    (ret \<lparr>l2_fd = fd, l2_idx = idx, l2_starting_address = L2CPU_STARTING_ADDRESS idx,
                          l2_memory_size = L2CPU_MEMORY_SIZE idx, l2_coordinates = L2CPU_TILES idx, l2_memory = memory,
                          l2_first = first, l2_second = second\<rparr>))))))"

definition l2cpu_drop :: "driver \<Rightarrow> l2cpu \<Rightarrow> unit krn" where
  "l2cpu_drop d c =
     thn (upd (\<lambda>s. s\<lparr>fault_ranges := unregister_chip_range (word_of_nat (l2_memory c)) (fault_ranges s)\<rparr>))
     (thn (tlb_handle_drop d (tw_window (l2_second c)))
     (thn (tlb_handle_drop d (tw_window (l2_first c)))
     (thn (upd (munmap (l2_memory c) EIGHT_GIG))
          (upd (close (l2_fd c))))))"

definition get_memory_ptr :: "l2cpu \<Rightarrow> nat" where
  "get_memory_ptr c = l2_memory c + unat (l2_starting_address c - 0x400000000000)"

text \<open>
  The temporary window is dropped when the operation returns. After a failed assertion it is dropped by
  the unwinding.
\<close>

definition with_window :: "driver \<Rightarrow> l2cpu \<Rightarrow> u64 \<Rightarrow> (tlb_window \<Rightarrow> 'a krn) \<Rightarrow> 'a krn" where
  "with_window d c addr body =
     seq (new_2m d (l2_fd c) (l2_coordinates c) addr) (\<lambda>w.
     seq (catch (body w)) (\<lambda>r.
     thn (tlb_handle_drop d (tw_window w)) (lift r)))"

definition l2cpu_write32 :: "driver \<Rightarrow> l2cpu \<Rightarrow> u64 \<Rightarrow> u32 \<Rightarrow> unit krn" where
  "l2cpu_write32 d c addr v = with_window d c addr (\<lambda>w. window_write32 w 0 v)"

definition l2cpu_read32 :: "driver \<Rightarrow> l2cpu \<Rightarrow> u64 \<Rightarrow> u32 krn" where
  "l2cpu_read32 d c addr = with_window d c addr (\<lambda>w. window_read32 w 0)"

definition get_persistent_2m_window :: "driver \<Rightarrow> l2cpu \<Rightarrow> u64 \<Rightarrow> tlb_window krn" where
  "get_persistent_2m_window d c addr = new_2m d (l2_fd c) (l2_coordinates c) addr"

section \<open>What the process holds\<close>

text \<open>
  The documented behaviour of the kernel that the code relies on: an allocated TLB was free, freeing an
  allocated one succeeds, a mapping without a fixed address is put where nothing is mapped and ends
  within the address space, a duplicated descriptor was closed.
\<close>

definition driver_ok :: "driver \<Rightarrow> bool" where
  "driver_ok d \<longleftrightarrow>
     (\<forall>s fd n i. drv_allocate d s fd n = Inr i \<longrightarrow> tlbs s i = None) \<and>
     (\<forall>s fd i. tlbs s i \<noteq> None \<longrightarrow> drv_free d s fd i = None) \<and>
     (\<forall>s n a. drv_mmap d s None n = Inr a \<longrightarrow>
        a + unat n < 2 ^ 64 \<and> (\<forall>x. a \<le> x \<and> x < a + unat n \<longrightarrow> mapped s x = None)) \<and>
     (\<forall>s fd n. drv_dup d s fd = Inr n \<longrightarrow> \<not> open_fds s n)"

definition tick :: "nat \<Rightarrow> nat \<Rightarrow> kernel \<Rightarrow> kernel" where
  "tick k e s = s\<lparr>calls := k, errno := e\<rparr>"

lemma driver_mmap:
  "driver_ok d \<Longrightarrow> drv_mmap d s None n = Inr a \<Longrightarrow>
     a + unat n < 2 ^ 64 \<and> (\<forall>x. a \<le> x \<and> x < a + unat n \<longrightarrow> mapped s x = None)"
  by (simp add: driver_ok_def)

lemma tick_simps [simp]:
  "open_fds (tick k e s) = open_fds s" "tlbs (tick k e s) = tlbs s" "mapped (tick k e s) = mapped s"
  "noc (tick k e s) = noc s" "fault_ranges (tick k e s) = fault_ranges s" "chip_fd (tick k e s) = chip_fd s"
  "calls (tick k e s) = k" "errno (tick k e s) = e" "tick k e (tick k' e' s) = tick k e s"
  by (simp_all add: tick_def)

definition set_tlb :: "u32 \<Rightarrow> noc_tlb_config option \<Rightarrow> kernel \<Rightarrow> kernel" where
  "set_tlb i c s = s\<lparr>tlbs := (tlbs s)(i := c)\<rparr>"

lemma set_tlb_simps [simp]:
  "open_fds (set_tlb i c s) = open_fds s" "tlbs (set_tlb i c s) = (tlbs s)(i := c)" "mapped (set_tlb i c s) = mapped s"
  "noc (set_tlb i c s) = noc s" "fault_ranges (set_tlb i c s) = fault_ranges s" "chip_fd (set_tlb i c s) = chip_fd s"
  "calls (set_tlb i c s) = calls s" "errno (set_tlb i c s) = errno s"
  "set_tlb i c (set_tlb i c' s) = set_tlb i c s" "set_tlb i c (tick k e s) = tick k e (set_tlb i c s)"
  by (simp_all add: set_tlb_def tick_def)

lemma set_tlb_None [simp]: "tlbs s i = None \<Longrightarrow> set_tlb i None s = s"
  by (simp add: set_tlb_def fun_upd_idem)

lemma remap_simps [simp]:
  "open_fds (remap a n f s) = open_fds s" "tlbs (remap a n f s) = tlbs s" "noc (remap a n f s) = noc s"
  "fault_ranges (remap a n f s) = fault_ranges s" "chip_fd (remap a n f s) = chip_fd s"
  "calls (remap a n f s) = calls s" "errno (remap a n f s) = errno s"
  "remap a n f (tick k e s) = tick k e (remap a n f s)" "remap a n f (set_tlb i c s) = set_tlb i c (remap a n f s)"
  "mapped (remap a n f s) x = (if a \<le> x \<and> x < a + n then f (x - a) else mapped s x)"
  by (simp_all add: remap_def tick_def set_tlb_def cong: if_cong)

lemma answer_cases:
  "answer f s = (case f s of Inl e \<Rightarrow> (Inl e, tick (Suc (calls s)) e s) | Inr a \<Rightarrow> (Inr a, tick (Suc (calls s)) (errno s) s))"
  by (auto simp: answer_def tick_def split: sum.splits)

lemma allocate_run:
  assumes "driver_ok d" "open_fds s fd"
  obtains (none) e where "ioctl_allocate_tlb d fd n s = (Inl e, tick (Suc (calls s)) e s)"
  | (some) i where "ioctl_allocate_tlb d fd n s = (Inr i, tick (Suc (calls s)) (errno s) (set_tlb i (Some default_config) s))"
      "tlbs s i = None"
  using assms that
  by (cases "drv_allocate d s fd n")
    (auto simp: ioctl_allocate_tlb_def act_defs answer_cases on_fd_def driver_ok_def set_tlb_def tick_def)

lemma configure_run:
  assumes "open_fds s fd"
  shows "ioctl_configure_tlb d fd i c s =
    (case drv_configure d s fd i of
       Some e \<Rightarrow> (Inl e, tick (Suc (calls s)) e s)
     | None \<Rightarrow> (Inr (), tick (Suc (calls s)) (errno s) (set_tlb i (Some c) s)))"
  using assms
  by (auto simp: ioctl_configure_tlb_def act_defs answer_cases on_fd_def unit_of_def set_tlb_def tick_def split: option.splits)

lemma free_run:
  assumes "driver_ok d" "open_fds s fd" "tlbs s i \<noteq> None"
  shows "ioctl_free_tlb d fd i s = (Inr (), tick (Suc (calls s)) (errno s) (set_tlb i None s))"
  using assms by (auto simp: ioctl_free_tlb_def act_defs answer_cases on_fd_def unit_of_def driver_ok_def set_tlb_def tick_def)

lemma mmap_run:
  "mmap d base n f s =
    (case drv_mmap d s base n of
       Inl e \<Rightarrow> (Inl e, tick (Suc (calls s)) e s)
     | Inr r \<Rightarrow> let a = (case base of None \<Rightarrow> r | Some b \<Rightarrow> b) in (Inr a, tick (Suc (calls s)) (errno s) (remap a (unat n) f s)))"
  by (auto simp: mmap_def act_defs answer_cases split: sum.splits option.splits)

text \<open>A handle that is not built leaves nothing behind.\<close>

lemma tlb_handle_new_run:
  assumes ok: "driver_ok d" and fd: "open_fds s fd"
  obtains (failed) x k e where "tlb_handle_new d fd n c base s = (Inl (Err x), tick k e s)"
  | (made) i a k e where "tlb_handle_new d fd n c base s =
      (Inr \<lparr>th_fd = fd, tlb_id = i, tlb_base = a, tlb_size = n\<rparr>,
       tick k e (set_tlb i (Some c) (remap a (unat n) (\<lambda>off. Some (Window i off)) s)))"
      "tlbs s i = None" "base = None \<Longrightarrow> a + unat n < 2 ^ 64 \<and> (\<forall>x. a \<le> x \<and> x < a + unat n \<longrightarrow> mapped s x = None)"
      "\<And>b. base = Some b \<Longrightarrow> a = b"
proof (cases rule: allocate_run [OF ok fd, of n, case_names none some])
  case (none e)
  then show ?thesis using failed by (simp add: tlb_handle_new_def map_err_def seq_def)
next
  case (some i)
  let ?s1 = "tick (Suc (calls s)) (errno s) (set_tlb i (Some default_config) s)"
  have fd1: "open_fds ?s1 fd" using fd by simp
  show ?thesis
  proof (cases "drv_configure d ?s1 fd i")
    case (Some e)
    have "ioctl_free_tlb d fd i (tick (Suc (calls ?s1)) e ?s1) = (Inr (), tick (Suc (Suc (calls ?s1))) e s)"
      using free_run [OF ok, of "tick (Suc (calls ?s1)) e ?s1" fd i] fd some(2) by simp
    then show ?thesis using Some some configure_run [OF fd1, of d i c] failed
      by (simp add: tlb_handle_new_def map_err_def seq_def catch_def thn_def)
  next
    case None
    let ?s2 = "tick (Suc (calls ?s1)) (errno ?s1) (set_tlb i (Some c) s)"
    have conf: "ioctl_configure_tlb d fd i c ?s1 = (Inr (), ?s2)" using None configure_run [OF fd1, of d i c] by simp
    show ?thesis
    proof (cases "drv_mmap d ?s2 base n")
      case (Inl e)
      have "ioctl_free_tlb d fd i (tick (Suc (calls ?s2)) e ?s2) = (Inr (), tick (Suc (Suc (calls ?s2))) e s)"
        using free_run [OF ok, of "tick (Suc (calls ?s2)) e ?s2" fd i] fd some(2) by simp
      then show ?thesis using Inl some conf failed
        by (simp add: tlb_handle_new_def map_err_def seq_def catch_def thn_def mmap_run fail_os_def)
    next
      case (Inr r)
      moreover have "base = None \<Longrightarrow> r + unat n < 2 ^ 64 \<and> (\<forall>x. r \<le> x \<and> x < r + unat n \<longrightarrow> mapped s x = None)"
        using Inr driver_mmap [OF ok, of ?s2 n r] by simp
      ultimately show ?thesis using some conf
        by (intro made [of i "case base of None \<Rightarrow> r | Some b \<Rightarrow> b" "Suc (calls ?s2)" "errno ?s2"])
          (simp_all add: tlb_handle_new_def map_err_def seq_def catch_def mmap_run Let_def)
    qed
  qed
qed

lemma tlb_handle_drop_run:
  assumes "driver_ok d" "open_fds s (th_fd h)" "tlbs s (tlb_id h) \<noteq> None"
  shows "tlb_handle_drop d h s =
    (Inr (), tick (Suc (calls s)) (errno s) (set_tlb (tlb_id h) None (munmap (tlb_base h) (tlb_size h) s)))"
  using free_run [OF assms(1), of "munmap (tlb_base h) (tlb_size h) s" "th_fd h" "tlb_id h"] assms(2,3)
  by (simp add: tlb_handle_drop_def munmap_def)

lemma sizes [simp]: "is_power_of_two TWO_MEG" "is_power_of_two FOUR_GIG"
  "unat TWO_MEG = 2 ^ 21" "unat FOUR_GIG = 2 ^ 32" "unat EIGHT_GIG = 2 ^ 33"
  by (simp_all add: is_power_of_two_def TWO_MEG_def FOUR_GIG_def EIGHT_GIG_def)

text \<open>The window covers the address: base and offset add up to it, and the offset lies in the window.\<close>

lemma window_split:
  assumes "is_power_of_two n"
  shows "(addr AND NOT (n - 1)) + (addr AND (n - 1)) = addr" "addr AND (n - 1) < n"
proof -
  have "(addr AND NOT (n - 1)) AND (addr AND (n - 1)) = 0"
    by (rule bit_eqI) (auto simp: bit_simps)
  moreover have "(addr AND NOT (n - 1)) OR (addr AND (n - 1)) = addr"
    by (rule bit_eqI) (auto simp: bit_simps)
  ultimately show "(addr AND NOT (n - 1)) + (addr AND (n - 1)) = addr"
    by (simp add: disjunctive_add_eq_or)
  have "addr AND (n - 1) \<le> n - 1" by (rule word_and_le1)
  moreover have "n - 1 < n" using assms by (simp add: is_power_of_two_def word_not_simps(1) word_less_nat_alt) (metis less_imp_diff_less unat_1 unat_minus_one diff_less unat_eq_zero gr0I zero_less_one)
  ultimately show "addr AND (n - 1) < n" by simp
qed

definition set_fd :: "nat \<Rightarrow> bool \<Rightarrow> kernel \<Rightarrow> kernel" where
  "set_fd fd b s = s\<lparr>open_fds := (open_fds s)(fd := b)\<rparr>"

definition set_ranges :: "(chip_ranges \<Rightarrow> chip_ranges) \<Rightarrow> kernel \<Rightarrow> kernel" where
  "set_ranges f s = s\<lparr>fault_ranges := f (fault_ranges s)\<rparr>"

lemma set_fd_simps [simp]:
  "open_fds (set_fd fd b s) = (open_fds s)(fd := b)" "tlbs (set_fd fd b s) = tlbs s" "mapped (set_fd fd b s) = mapped s"
  "noc (set_fd fd b s) = noc s" "fault_ranges (set_fd fd b s) = fault_ranges s"
  "set_fd fd b (tick k e s) = tick k e (set_fd fd b s)" "set_fd fd b (set_tlb i c s) = set_tlb i c (set_fd fd b s)"
  "set_fd fd b (remap a n f s) = remap a n f (set_fd fd b s)" "set_fd fd b (set_fd fd b' s) = set_fd fd b s"
  "\<not> open_fds s fd \<Longrightarrow> set_fd fd False s = s"
  by (simp_all add: set_fd_def tick_def set_tlb_def remap_def fun_upd_idem cong: if_cong)

lemma set_ranges_simps [simp]:
  "open_fds (set_ranges r s) = open_fds s" "tlbs (set_ranges r s) = tlbs s" "mapped (set_ranges r s) = mapped s"
  "noc (set_ranges r s) = noc s" "fault_ranges (set_ranges r s) = r (fault_ranges s)"
  "set_ranges r (tick k e s) = tick k e (set_ranges r s)" "set_ranges r (set_tlb i c s) = set_tlb i c (set_ranges r s)"
  "set_ranges r (remap a n f s) = remap a n f (set_ranges r s)" "set_ranges r (set_fd fd b s) = set_fd fd b (set_ranges r s)"
  by (simp_all add: set_ranges_def tick_def set_tlb_def remap_def set_fd_def cong: if_cong)

lemma remap_undo:
  "(\<And>x. a \<le> x \<Longrightarrow> x < a + n \<Longrightarrow> mapped s x = None) \<Longrightarrow> remap a n (\<lambda>_. None) s = s"
  by (rule kernel.equality) (auto simp: fun_eq_iff remap_def)

lemma remap_absorb: "a \<le> b \<Longrightarrow> b + k \<le> a + n \<Longrightarrow> remap a n f (remap b k g s) = remap a n f s"
  by (rule kernel.equality) (auto simp: fun_eq_iff remap_def)

lemma close_set_fd: "close fd = set_fd fd False"
  by (simp add: fun_eq_iff close_def set_fd_def)

lemma dup_fd_run:
  assumes "driver_ok d"
  obtains (failed) e k en where "dup_fd d s = (Inl e, tick k en s)"
  | (made) fd k en where "dup_fd d s = (Inr fd, tick k en (set_fd fd True s))" "\<not> open_fds s fd"
proof (cases "chip_fd s")
  case None
  then show ?thesis using failed [of _ "calls s" "errno s"] by (simp add: dup_fd_def tick_def)
next
  case (Some fd)
  show ?thesis
  proof (cases "on_fd fd (\<lambda>s. drv_dup d s fd) s")
    case (Inl e)
    then show ?thesis using Some failed by (simp add: dup_fd_def act_defs answer_cases)
  next
    case (Inr n)
    moreover from Inr assms have "\<not> open_fds s n" by (auto simp: on_fd_def driver_ok_def split: if_splits)
    ultimately show ?thesis using Some made [of n "Suc (calls s)" "errno s"]
      by (simp add: dup_fd_def act_defs answer_cases set_fd_def tick_def)
  qed
qed

lemma new_4g_run:
  assumes "driver_ok d" "open_fds s fd"
  obtains (failed) x k e where "new_4g d fd xy addr b s = (Inl (Err x), tick k e s)"
  | (made) i k e where "new_4g d fd xy addr b s =
      (Inr \<lparr>tw_offset = addr AND (FOUR_GIG - 1), tw_window = \<lparr>th_fd = fd, tlb_id = i, tlb_base = b, tlb_size = FOUR_GIG\<rparr>, window_size = FOUR_GIG\<rparr>,
       tick k e (set_tlb i (Some \<lparr>cfg_addr = addr AND NOT (FOUR_GIG - 1), x_end = fst xy, y_end = snd xy\<rparr>)
         (remap b (2 ^ 32) (\<lambda>off. Some (Window i off)) s)))" "tlbs s i = None"
proof (cases rule: tlb_handle_new_run [OF assms, of FOUR_GIG
    "\<lparr>cfg_addr = addr AND NOT (FOUR_GIG - 1), x_end = fst xy, y_end = snd xy\<rparr>" "Some b", case_names f m])
  case (f x k e)
  then show ?thesis using failed by (simp add: new_4g_def tlb_window_new_def Let_def seq_def)
next
  case (m i a k e)
  then show ?thesis using made [of i k e] by (simp add: new_4g_def tlb_window_new_def Let_def seq_def)
qed

text \<open>The state that a core's constructor leaves: the descriptor, the reservation and the two windows in it.\<close>

definition l2cpu_tlb :: "nat \<Rightarrow> u64 \<Rightarrow> noc_tlb_config" where
  "l2cpu_tlb idx addr = \<lparr>cfg_addr = addr, x_end = fst (L2CPU_TILES idx), y_end = snd (L2CPU_TILES idx)\<rparr>"

definition windows_built :: "nat \<Rightarrow> nat \<Rightarrow> nat \<Rightarrow> u32 \<Rightarrow> u32 \<Rightarrow> kernel \<Rightarrow> kernel" where
  "windows_built idx fd m i j s =
     set_tlb j (Some (l2cpu_tlb idx 0x400100000000)) (set_tlb i (Some (l2cpu_tlb idx 0x400000000000))
       (remap (m + 2 ^ 32) (2 ^ 32) (\<lambda>off. Some (Window j off)) (remap m (2 ^ 32) (\<lambda>off. Some (Window i off))
         (remap m (2 ^ 33) (\<lambda>_. Some Reserved) (set_fd fd True s)))))"

definition core_of :: "nat \<Rightarrow> nat \<Rightarrow> nat \<Rightarrow> u32 \<Rightarrow> u32 \<Rightarrow> l2cpu" where
  "core_of idx fd m i j =
     \<lparr>l2_fd = fd, l2_idx = idx, l2_starting_address = L2CPU_STARTING_ADDRESS idx, l2_memory_size = L2CPU_MEMORY_SIZE idx,
      l2_coordinates = L2CPU_TILES idx, l2_memory = m,
      l2_first = \<lparr>tw_offset = 0, tw_window = \<lparr>th_fd = fd, tlb_id = i, tlb_base = m, tlb_size = FOUR_GIG\<rparr>, window_size = FOUR_GIG\<rparr>,
      l2_second = \<lparr>tw_offset = 0, tw_window = \<lparr>th_fd = fd, tlb_id = j, tlb_base = m + 2 ^ 32, tlb_size = FOUR_GIG\<rparr>,
        window_size = FOUR_GIG\<rparr>\<rparr>"

lemma bases [simp]:
  "0x400000000000 AND (FOUR_GIG - 1) = 0" "0x400000000000 AND NOT (FOUR_GIG - 1) = 0x400000000000"
  "0x400100000000 AND (FOUR_GIG - 1) = 0" "0x400100000000 AND NOT (FOUR_GIG - 1) = 0x400100000000"
  by (simp_all add: FOUR_GIG_def)

lemma l2cpu_new_run:
  assumes ok: "driver_ok d"
  obtains (failed) e k en where "l2cpu_new d idx s = (Inl e, tick k en s)"
  | (made) fd m i j k en where "l2cpu_new d idx s =
      (Inr (core_of idx fd m i j), set_ranges (register_chip_range (word_of_nat m) EIGHT_GIG) (tick k en (windows_built idx fd m i j s)))"
      "\<not> open_fds s fd" "m + 2 ^ 33 < 2 ^ 64" "\<And>x. m \<le> x \<Longrightarrow> x < m + 2 ^ 33 \<Longrightarrow> mapped s x = None"
      "tlbs s i = None" "tlbs s j = None" "i \<noteq> j" "idx < 4"
proof (cases "idx < 4")
  case False
  then show ?thesis using failed [of _ "calls s" "errno s"] by (simp add: l2cpu_new_def tick_def)
next
  case idx: True
  show ?thesis
  proof (cases rule: dup_fd_run [OF ok, of s, case_names f m])
    case (f e k en)
    then show ?thesis using idx failed by (simp add: l2cpu_new_def seq_def map_err_def)
  next
    case (m fd k en)
    let ?s1 = "tick k en (set_fd fd True s)"
    show ?thesis
    proof (cases "drv_mmap d ?s1 None EIGHT_GIG")
      case (Inl e)
      then show ?thesis using idx m failed
        by (simp add: l2cpu_new_def seq_def map_err_def catch_def mmap_run thn_def close_set_fd fail_os_def)
    next
      case (Inr a)
      let ?s2 = "tick (Suc k) en (remap a (2 ^ 33) (\<lambda>_. Some Reserved) (set_fd fd True s))"
      have free: "a + 2 ^ 33 < 2 ^ 64" "\<And>x. a \<le> x \<Longrightarrow> x < a + 2 ^ 33 \<Longrightarrow> mapped s x = None"
        using driver_mmap [OF ok Inr] by simp_all
      have undo: "remap a (2 ^ 33) (\<lambda>_. None) s = s" using free(2) by (rule remap_undo)
      have fd2: "open_fds ?s2 fd" by simp
      show ?thesis
      proof (cases rule: new_4g_run [OF ok fd2, of "L2CPU_TILES idx" "0x400000000000" a, case_names f m])
        case (f x k1 e1)
        then show ?thesis using idx m(1,2) Inr f undo failed
          by (simp add: l2cpu_new_def seq_def map_err_def catch_def mmap_run thn_def close_set_fd give_up_def munmap_def Let_def remap_absorb)
      next
        case w1: (m i k1 e1)
        let ?w1 = "set_tlb i (Some (l2cpu_tlb idx 0x400000000000)) (remap a (2 ^ 32) (\<lambda>off. Some (Window i off))
            (remap a (2 ^ 33) (\<lambda>_. Some Reserved) (set_fd fd True s)))"
        have fd3: "open_fds (tick k1 e1 ?w1) fd" by simp
        note pre = idx m(1,2) Inr w1(1) and defs = l2cpu_new_def seq_def map_err_def catch_def mmap_run thn_def close_set_fd
          give_up_def munmap_def Let_def
        show ?thesis
        proof (cases rule: new_4g_run [OF ok fd3, of "L2CPU_TILES idx" "0x400100000000" "a + 2 ^ 32", case_names f m])
          case (f x k2 e2)
          have "tlb_handle_drop d \<lparr>th_fd = fd, tlb_id = i, tlb_base = a, tlb_size = FOUR_GIG\<rparr> (tick k2 e2 ?w1) =
              (Inr (), tick (Suc k2) e2 (set_tlb i None (remap a (2 ^ 32) (\<lambda>_. None) ?w1)))"
            by (subst tlb_handle_drop_run [OF ok]) (simp_all add: munmap_def)
          then show ?thesis using pre f w1(2) undo failed by (simp add: defs l2cpu_tlb_def remap_absorb)
        next
          case w2: (m j k2 e2)
          from w2(2) have ij: "i \<noteq> j" "tlbs s j = None" by (auto split: if_splits)
          show ?thesis using pre w2(1) w1(2) ij free idx
            by (intro made [of fd a i j k2 e2]) (simp_all add: defs l2cpu_tlb_def core_of_def windows_built_def set_ranges_def)
        qed
      qed
    qed
  qed
qed

section \<open>Nothing leaks, every access goes where it should\<close>

definition held :: "kernel \<Rightarrow> (nat \<Rightarrow> bool) \<times> (u32 \<Rightarrow> noc_tlb_config option) \<times> (nat \<Rightarrow> mapping option) \<times> chip_range list" where
  "held s = (open_fds s, tlbs s, mapped s, slice_of (fault_ranges s) (published (fault_ranges s)))"

lemma held_tick [simp]: "held (tick k e s) = held s"
  by (simp add: held_def)

definition ranges_mapped :: "kernel \<Rightarrow> bool" where
  "ranges_mapped s \<longleftrightarrow> (\<forall>r\<in>set (slice_of (fault_ranges s) (published (fault_ranges s))). mapped s (unat (cr_start r)) \<noteq> None)"

lemma ranges_undone:
  assumes "\<forall>r\<in>set (slice_of t (published t)). cr_start r \<noteq> a" "n \<noteq> 0"
  shows "slice_of (unregister_chip_range a (register_chip_range a n t)) (published (unregister_chip_range a (register_chip_range a n t)))
    = slice_of t (published t)"
  using assms
  by (simp add: unregister_chip_range_def register_chip_range_def call_alone_effect range_effect_def filter_id_conv)

lemma l2cpu_drop_built:
  assumes ok: "driver_ok d" and fd: "\<not> open_fds s fd" and m: "\<And>x. m \<le> x \<Longrightarrow> x < m + 2 ^ 33 \<Longrightarrow> mapped s x = None"
    and t: "tlbs s i = None" "tlbs s j = None" "i \<noteq> j"
  shows "\<exists>k e. l2cpu_drop d (core_of idx fd m i j) (set_ranges r (tick k0 e0 (windows_built idx fd m i j s))) =
    (Inr (), tick k e (set_ranges (\<lambda>t. unregister_chip_range (word_of_nat m) (r t)) s))"
proof -
  let ?s = "tick k0 e0 (windows_built idx fd m i j (set_ranges (\<lambda>t. unregister_chip_range (word_of_nat m) (r t)) s))"
  let ?h = "\<lambda>i b. \<lparr>th_fd = fd, tlb_id = i, tlb_base = b, tlb_size = FOUR_GIG\<rparr>"
  have s0: "set_ranges (unregister_chip_range (word_of_nat m)) (set_ranges r (tick k0 e0 (windows_built idx fd m i j s))) = ?s"
    by (simp add: windows_built_def) (simp add: set_ranges_def)
  have d1: "tlb_handle_drop d (?h j (m + 2 ^ 32)) ?s = (Inr (), tick (Suc k0) e0 (set_tlb j None (remap (m + 2 ^ 32) (2 ^ 32) (\<lambda>_. None) ?s)))"
    by (subst tlb_handle_drop_run [OF ok]) (simp_all add: windows_built_def munmap_def)
  have d2: "tlb_handle_drop d (?h i m) (tick (Suc k0) e0 (set_tlb j None (remap (m + 2 ^ 32) (2 ^ 32) (\<lambda>_. None) ?s))) =
      (Inr (), tick (Suc (Suc k0)) e0 (set_tlb i None (remap m (2 ^ 32) (\<lambda>_. None) (set_tlb j None (remap (m + 2 ^ 32) (2 ^ 32) (\<lambda>_. None) ?s)))))"
    using t(3) by (subst tlb_handle_drop_run [OF ok]) (simp_all add: windows_built_def munmap_def)
  let ?x = "tick (Suc (Suc k0)) e0 (set_tlb i None (remap m (2 ^ 32) (\<lambda>_. None) (set_tlb j None (remap (m + 2 ^ 32) (2 ^ 32) (\<lambda>_. None) ?s))))"
  have u: "remap m (2 ^ 33) (\<lambda>_. None) (set_ranges f s) = set_ranges f s" for f
    using m remap_undo by simp
  have "l2cpu_drop d (core_of idx fd m i j) (set_ranges r (tick k0 e0 (windows_built idx fd m i j s))) =
      (Inr (), set_fd fd False (remap m (2 ^ 33) (\<lambda>_. None) ?x))"
    unfolding l2cpu_drop_def core_of_def
    by (simp only: thn_def seq_def upd_def set_ranges_def [symmetric] s0 l2cpu.select_convs tlb_window.select_convs d1 d2
        prod.case sum.case close_set_fd munmap_def sizes)
  also have "set_fd fd False (remap m (2 ^ 33) (\<lambda>_. None) ?x) =
      tick (Suc (Suc k0)) e0 (set_ranges (\<lambda>t. unregister_chip_range (word_of_nat m) (r t)) s)"
    using fd t u by (simp add: windows_built_def remap_absorb)
  finally show ?thesis by blast
qed

text \<open>
  C19. A core that cannot be built holds nothing afterwards, whichever of its system calls failed, and one that
  is dropped gives back everything it took: its descriptor, its two TLBs, its addresses and its entry in the
  fault handler's table. The TLBs are freed while the descriptor is open: on a closed one the call fails.
\<close>

theorem l2cpu_no_leak:
  assumes "driver_ok d" "ranges_mapped s"
  shows "case l2cpu_new d idx s of
      (Inl _, s1) \<Rightarrow> held s1 = held s
    | (Inr c, s1) \<Rightarrow> held (snd (l2cpu_drop d c s1)) = held s"
proof (cases rule: l2cpu_new_run [OF assms(1), of idx s, case_names failed made])
  case (failed e k en)
  then show ?thesis by simp
next
  case (made fd m i j k en)
  obtain k' e' where "l2cpu_drop d (core_of idx fd m i j)
      (set_ranges (register_chip_range (word_of_nat m) EIGHT_GIG) (tick k en (windows_built idx fd m i j s))) =
      (Inr (), tick k' e' (set_ranges (\<lambda>t. unregister_chip_range (word_of_nat m) (register_chip_range (word_of_nat m) EIGHT_GIG t)) s))"
    using l2cpu_drop_built [OF assms(1) made(2,4-7)] by blast
  moreover have "cr_start r \<noteq> word_of_nat m" if "r \<in> set (slice_of (fault_ranges s) (published (fault_ranges s)))" for r
  proof
    assume "cr_start r = word_of_nat m"
    then have "unat (cr_start r) = m" using made(3) by (simp add: unat_of_nat)
    then show False using that assms(2) made(4) [of m] by (auto simp: ranges_mapped_def)
  qed
  then have "slice_of (unregister_chip_range (word_of_nat m) (register_chip_range (word_of_nat m) EIGHT_GIG (fault_ranges s)))
      (published (unregister_chip_range (word_of_nat m) (register_chip_range (word_of_nat m) EIGHT_GIG (fault_ranges s)))) =
      slice_of (fault_ranges s) (published (fault_ranges s))"
    by (intro ranges_undone) (simp_all add: EIGHT_GIG_def)
  ultimately show ?thesis using made(1) by (simp add: held_def)
qed

definition demo_driver :: driver where
  "demo_driver =
     \<lparr>drv_allocate = (\<lambda>s fd n. if tlbs s 5 = None then Inr 5 else if tlbs s 6 = None then Inr 6 else Inl 28),
      drv_configure = (\<lambda>s fd i. None), drv_free = (\<lambda>s fd i. None),
      drv_mmap = (\<lambda>s base n. if base \<noteq> None then Inr 0
        else if (\<forall>x \<ge> 2 ^ 50. mapped s x = None) \<and> n \<le> 2 ^ 40 then Inr (2 ^ 50) else Inl 12),
      drv_dup = (\<lambda>s fd. if open_fds s 7 then Inl 24 else Inr 7),
      strerror = (\<lambda>e. io_other ''os error'')\<rparr>"

definition demo_kernel :: kernel where
  "demo_kernel =
     \<lparr>open_fds = (\<lambda>fd. fd = 3), tlbs = (\<lambda>_. None), mapped = (\<lambda>_. None), noc = (\<lambda>_ _. 0),
      fault_ranges = no_ranges, chip_fd = Some 3, errno = 0, calls = 0\<rparr>"

lemma demo_driver_ok: "driver_ok demo_driver"
proof -
  have "unat (n :: u64) \<le> 2 ^ 40" if "n \<le> 2 ^ 40" for n
    using that by (simp add: word_le_nat_alt)
  then show ?thesis by (fastforce simp: driver_ok_def demo_driver_def split: if_splits)
qed

lemma demo_ranges_mapped: "ranges_mapped demo_kernel"
  by (simp add: ranges_mapped_def demo_kernel_def no_ranges_def slice_of_def)

text \<open>With a single free TLB the second window fails; with two the core is built.\<close>

theorem l2cpu_no_leak_witness:
  "let s = demo_kernel\<lparr>tlbs := [6 \<mapsto> default_config]\<rparr> in
     (\<exists>e s1. l2cpu_new demo_driver 0 s = (Inl (Err e), s1) \<and> held s1 = held s) \<and>
     (\<exists>c s1. l2cpu_new demo_driver 0 demo_kernel = (Inr c, s1) \<and> held (snd (l2cpu_drop demo_driver c s1)) = held demo_kernel)"
proof -
  let ?s = "demo_kernel\<lparr>tlbs := [6 \<mapsto> default_config]\<rparr>"
  note defs = l2cpu_new_def dup_fd_def new_4g_def tlb_window_new_def tlb_handle_new_def act_defs answer_def on_fd_def mmap_def
    ioctl_allocate_tlb_def ioctl_configure_tlb_def ioctl_free_tlb_def unit_of_def demo_driver_def demo_kernel_def default_config_def
    give_up_def remap_def EIGHT_GIG_def FOUR_GIG_def fail_os_def Let_def tlb_handle_drop_def
  have 1: "\<exists>e s1. l2cpu_new demo_driver 0 ?s = (Inl (Err e), s1)" by (simp add: defs is_power_of_two_def)
  have 2: "\<exists>c s1. l2cpu_new demo_driver 0 demo_kernel = (Inr c, s1)" by (simp add: defs is_power_of_two_def)
  have "ranges_mapped ?s" using demo_ranges_mapped by (simp add: ranges_mapped_def)
  then show ?thesis
    using 1 2 l2cpu_no_leak [OF demo_driver_ok, of ?s 0] l2cpu_no_leak [OF demo_driver_ok demo_ranges_mapped, of 0]
    by (auto simp: Let_def)
qed

text \<open>
  C18. The memory pointer of a core reaches that core's memory: byte k from get_memory_ptr is the NOC address
  starting_address + k of the core's own tile, over the whole memory size and across the seam between
  the two windows.
\<close>

theorem l2cpu_memory_reached:
  assumes "driver_ok d" "l2cpu_new d idx s = (Inr c, s1)" "k < unat (L2CPU_MEMORY_SIZE idx)"
  shows "noc_location s1 (get_memory_ptr c + k) = Some (L2CPU_TILES idx, L2CPU_STARTING_ADDRESS idx + word_of_nat k)"
proof (cases rule: l2cpu_new_run [OF assms(1), of idx s, case_names failed made])
  case (failed e k en)
  then show ?thesis using assms(2) by simp
next
  case (made fd m i j n en)
  let ?o = "unat (L2CPU_STARTING_ADDRESS idx - 0x400000000000)"
  have c: "c = core_of idx fd m i j" "s1 = set_ranges (register_chip_range (word_of_nat m) EIGHT_GIG) (tick n en (windows_built idx fd m i j s))"
    using made(1) assms(2) by simp_all
  have fits: "?o + k < 2 ^ 33" "0x400000000000 + word_of_nat (?o + k) = L2CPU_STARTING_ADDRESS idx + word_of_nat k"
    using assms(3) by (auto simp: L2CPU_STARTING_ADDRESS_def L2CPU_MEMORY_SIZE_def split: if_splits)
  show ?thesis
  proof (cases "?o + k < 2 ^ 32")
    case True
    then show ?thesis using c fits(2) made(7)
      by (simp add: get_memory_ptr_def core_of_def noc_location_def windows_built_def l2cpu_tlb_def add.assoc)
  next
    case False
    then have "(0x400100000000 :: u64) + word_of_nat (?o + k - 2 ^ 32) = 0x400000000000 + word_of_nat (?o + k)"
      by (simp add: of_nat_diff)
    then show ?thesis using False c fits made(7)
      by (simp add: get_memory_ptr_def core_of_def noc_location_def windows_built_def l2cpu_tlb_def add.assoc)
  qed
qed

lemma demo_core: "\<exists>c s1. l2cpu_new demo_driver 0 demo_kernel = (Inr c, s1)"
  by (simp add: l2cpu_new_def dup_fd_def new_4g_def tlb_window_new_def tlb_handle_new_def act_defs answer_def on_fd_def mmap_def
    ioctl_allocate_tlb_def ioctl_configure_tlb_def unit_of_def demo_driver_def demo_kernel_def default_config_def
    remap_def EIGHT_GIG_def FOUR_GIG_def Let_def is_power_of_two_def)

text \<open>The last byte of the 4 GB of L2CPU 0 lies in the second window.\<close>

theorem l2cpu_memory_reached_witness:
  "\<exists>c s1. l2cpu_new demo_driver 0 demo_kernel = (Inr c, s1) \<and>
    noc_location s1 (get_memory_ptr c + 0xFFFFFFFF) = Some ((8, 3), 0x40012FFFFFFF)"
proof -
  obtain c s1 where c: "l2cpu_new demo_driver 0 demo_kernel = (Inr c, s1)" using demo_core by blast
  have "0xFFFFFFFF < unat (L2CPU_MEMORY_SIZE 0)" by (simp add: L2CPU_MEMORY_SIZE_def)
  then show ?thesis using c l2cpu_memory_reached [OF demo_driver_ok c, of "0xFFFFFFFF"]
    by (auto simp: L2CPU_TILES_def L2CPU_STARTING_ADDRESS_def)
qed

lemma window_offset_aligned:
  assumes "addr mod 4 = 0"
  shows "window_check op \<lparr>tw_offset = addr AND (TWO_MEG - 1), tw_window = h, window_size = TWO_MEG\<rparr> 0 = Inr (addr AND (TWO_MEG - 1))"
proof -
  have m: "addr AND (TWO_MEG - 1) = take_bit 21 addr"
    by (simp add: TWO_MEG_def take_bit_eq_mask mask_eq_exp_minus_1)
  have u4: "x mod 4 = 0 \<longleftrightarrow> unat x mod 4 = 0" for x :: u64
    using unat_mod_distrib [of x 4] by (simp add: unat_eq_0 [symmetric])
  have "unat addr mod 4 = 0" using assms u4 by simp
  moreover have tb: "unat (take_bit 21 addr) = unat addr mod 2 ^ 21"
    by (simp only: unsigned_take_bit_eq) (simp add: take_bit_eq_mod)
  ultimately have al: "unat (take_bit 21 addr) mod 4 = 0" by (simp add: mod_mod_cancel)
  have lt: "unat (take_bit 21 addr) < 2 ^ 21" by (simp add: tb)
  have "x mod 4 = 0 \<Longrightarrow> x < 2097152 \<Longrightarrow> x + 4 \<le> 2097152" for x :: nat by presburger
  with al lt have le: "unat (take_bit 21 addr) + 4 \<le> 2 ^ 21" by simp
  then have "take_bit 21 addr + 4 \<le> TWO_MEG" by (simp add: word_le_nat_alt unat_word_ariths TWO_MEG_def)
  moreover have "take_bit 21 addr mod 4 = 0" using al u4 by simp
  moreover have "checked_add (take_bit 21 addr) 0 = Some (take_bit 21 addr)" using lt by (simp add: checked_add_def)
  ultimately show ?thesis by (simp add: window_check_def m)
qed

lemma with_window_run:
  assumes ok: "driver_ok d" and fd: "open_fds s (l2_fd c)"
  obtains (failed) x k e where "with_window d c addr b s = (Inl (Err x), tick k e s)"
  | (run) a i k e s2 where "s2 = tick k e (set_tlb i (Some \<lparr>cfg_addr = addr AND NOT (TWO_MEG - 1), x_end = fst (l2_coordinates c), y_end = snd (l2_coordinates c)\<rparr>)
        (remap a (2 ^ 21) (\<lambda>off. Some (Window i off)) s))"
      "tlbs s i = None" "\<And>x. a \<le> x \<Longrightarrow> x < a + 2 ^ 21 \<Longrightarrow> mapped s x = None"
      "with_window d c addr b s = (case b \<lparr>tw_offset = addr AND (TWO_MEG - 1),
          tw_window = \<lparr>th_fd = l2_fd c, tlb_id = i, tlb_base = a, tlb_size = TWO_MEG\<rparr>, window_size = TWO_MEG\<rparr> s2 of
        (r, s3) \<Rightarrow> thn (tlb_handle_drop d \<lparr>th_fd = l2_fd c, tlb_id = i, tlb_base = a, tlb_size = TWO_MEG\<rparr>) (lift r) s3)"
proof (cases rule: tlb_handle_new_run [OF ok fd, of TWO_MEG "\<lparr>cfg_addr = addr AND NOT (TWO_MEG - 1),
    x_end = fst (l2_coordinates c), y_end = snd (l2_coordinates c)\<rparr>" None, case_names f m])
  case (f x k e)
  then show ?thesis using failed by (simp add: with_window_def new_2m_def tlb_window_new_def Let_def seq_def)
next
  case (m i a k e)
  then show ?thesis
    by (intro run [OF refl, of i a k e])
      (simp_all add: with_window_def new_2m_def tlb_window_new_def Let_def seq_def catch_def split: prod.splits)
qed

text \<open>The window that \<open>with_window\<close> opens reaches the address it was opened for, and is gone afterwards.\<close>

lemma window_reaches:
  assumes "s2 = tick k e (set_tlb i (Some \<lparr>cfg_addr = addr AND NOT (TWO_MEG - 1), x_end = fst xy, y_end = snd xy\<rparr>)
        (remap a (2 ^ 21) (\<lambda>off. Some (Window i off)) s))"
  shows "noc_location s2 (a + unat (addr AND (TWO_MEG - 1))) = Some (xy, addr)"
proof -
  have "unat (addr AND (TWO_MEG - 1)) < 2 ^ 21"
    using window_split(2) [of TWO_MEG addr] by (simp add: word_less_nat_alt)
  then show ?thesis using assms window_split(1) [of TWO_MEG addr] by (simp add: noc_location_def)
qed

lemma window_dropped:
  assumes "driver_ok d" "open_fds s fd" "tlbs s i = None" "\<And>x. a \<le> x \<Longrightarrow> x < a + 2 ^ 21 \<Longrightarrow> mapped s x = None"
    and "s2 = tick k e (set_tlb i (Some cfg) (remap a (2 ^ 21) (\<lambda>off. Some (Window i off)) s))"
  shows "\<exists>k' e'. tlb_handle_drop d \<lparr>th_fd = fd, tlb_id = i, tlb_base = a, tlb_size = TWO_MEG\<rparr> (s2\<lparr>noc := n\<rparr>) =
    (Inr (), tick k' e' (s\<lparr>noc := n\<rparr>))"
proof -
  let ?s = "s\<lparr>noc := n\<rparr>"
  have e: "s2\<lparr>noc := n\<rparr> = tick k e (set_tlb i (Some cfg) (remap a (2 ^ 21) (\<lambda>off. Some (Window i off)) ?s))"
    unfolding assms(5) by (simp add: tick_def set_tlb_def remap_def cong: if_cong)
  have "remap a (2 ^ 21) (\<lambda>_. None) ?s = ?s" using assms(4) by (intro remap_undo) simp
  then show ?thesis unfolding e using assms(2,3)
    by (subst tlb_handle_drop_run [OF assms(1)]) (auto simp: munmap_def remap_absorb)
qed

lemma core_read32:
  assumes ok: "driver_ok d" and fd: "open_fds s (l2_fd c)" and al: "addr mod 4 = 0"
  shows "(\<exists>x k e. l2cpu_read32 d c addr s = (Inl (Err x), tick k e s)) \<or>
      (\<exists>k e. l2cpu_read32 d c addr s = (Inr (noc s (l2_coordinates c) addr), tick k e s))"
proof (cases rule: with_window_run [OF ok fd, of addr "\<lambda>w. window_read32 w 0", case_names f r])
  case (r a i k e s2)
  have "window_read32 \<lparr>tw_offset = addr AND (TWO_MEG - 1), tw_window = \<lparr>th_fd = l2_fd c, tlb_id = i, tlb_base = a, tlb_size = TWO_MEG\<rparr>,
      window_size = TWO_MEG\<rparr> 0 s2 = (Inr (noc s (l2_coordinates c) addr), s2)"
    using window_reaches [OF r(1)] by (simp add: window_read32_def window_offset_aligned [OF al] volatile_def act_defs) (simp add: r(1))
  moreover obtain k' e' where "tlb_handle_drop d \<lparr>th_fd = l2_fd c, tlb_id = i, tlb_base = a, tlb_size = TWO_MEG\<rparr> s2 = (Inr (), tick k' e' s)"
    using window_dropped [OF ok fd r(2,3,1), of "noc s"] by (auto simp: r(1) tick_def set_tlb_def remap_def)
  ultimately show ?thesis using r(4) by (auto simp: l2cpu_read32_def thn_def seq_def)
qed (auto simp: l2cpu_read32_def)

lemma core_write32:
  assumes ok: "driver_ok d" and fd: "open_fds s (l2_fd c)" and al: "addr mod 4 = 0"
  shows "(\<exists>x k e. l2cpu_write32 d c addr v s = (Inl (Err x), tick k e s)) \<or>
      (\<exists>k e. l2cpu_write32 d c addr v s =
        (Inr (), tick k e (s\<lparr>noc := (noc s)(l2_coordinates c := (noc s (l2_coordinates c))(addr := v))\<rparr>)))"
proof (cases rule: with_window_run [OF ok fd, of addr "\<lambda>w. window_write32 w 0 v", case_names f r])
  case (r a i k e s2)
  let ?n = "(noc s)(l2_coordinates c := (noc s (l2_coordinates c))(addr := v))"
  have "window_write32 \<lparr>tw_offset = addr AND (TWO_MEG - 1), tw_window = \<lparr>th_fd = l2_fd c, tlb_id = i, tlb_base = a, tlb_size = TWO_MEG\<rparr>,
      window_size = TWO_MEG\<rparr> 0 v s2 = (Inr (), s2\<lparr>noc := ?n\<rparr>)"
    using window_reaches [OF r(1)] by (simp add: window_write32_def window_offset_aligned [OF al] volatile_def act_defs) (simp add: r(1))
  moreover obtain k' e' where "tlb_handle_drop d \<lparr>th_fd = l2_fd c, tlb_id = i, tlb_base = a, tlb_size = TWO_MEG\<rparr> (s2\<lparr>noc := ?n\<rparr>) =
      (Inr (), tick k' e' (s\<lparr>noc := ?n\<rparr>))"
    using window_dropped [OF ok fd r(2,3,1), of ?n] by blast
  ultimately show ?thesis using r(4) by (auto simp: l2cpu_write32_def thn_def seq_def)
qed (auto simp: l2cpu_write32_def)

text \<open>
  A register access of a core goes to exactly that address of the core's tile and holds nothing when it
  returns: it reads or writes the word there, or it fails with the error of the kernel and changes
  nothing. It does not panic on an aligned address, which matters because the window is used with the
  allocation lock held.
\<close>

theorem l2cpu_register_access:
  assumes "driver_ok d" "open_fds s (l2_fd c)" "addr mod 4 = 0"
  shows "((\<exists>x k e. l2cpu_read32 d c addr s = (Inl (Err x), tick k e s)) \<or>
      (\<exists>k e. l2cpu_read32 d c addr s = (Inr (noc s (l2_coordinates c) addr), tick k e s))) \<and>
    ((\<exists>x k e. l2cpu_write32 d c addr v s = (Inl (Err x), tick k e s)) \<or>
      (\<exists>k e. l2cpu_write32 d c addr v s =
        (Inr (), tick k e (s\<lparr>noc := (noc s)(l2_coordinates c := (noc s (l2_coordinates c))(addr := v))\<rparr>))))"
  using core_read32 [OF assms] core_write32 [OF assms, of v] by blast

theorem l2cpu_register_access_witness:
  "\<exists>s'. l2cpu_write32 demo_driver (core_of 0 3 0 1 2) 0x2010008 15 demo_kernel = (Inr (), s') \<and>
    noc s' (8, 3) 0x2010008 = 15 \<and> held s' = held demo_kernel"
proof -
  let ?c = "core_of 0 3 0 1 2"
  have c: "open_fds demo_kernel (l2_fd ?c)" "l2_coordinates ?c = (8, 3)"
    by (simp_all add: core_of_def demo_kernel_def L2CPU_TILES_def)
  have "isl (fst (l2cpu_write32 demo_driver ?c 0x2010008 15 demo_kernel)) = False"
    by (simp add: l2cpu_write32_def with_window_def new_2m_def tlb_window_new_def tlb_handle_new_def act_defs answer_def on_fd_def mmap_def
      ioctl_allocate_tlb_def ioctl_configure_tlb_def ioctl_free_tlb_def unit_of_def demo_driver_def demo_kernel_def default_config_def
      remap_def TWO_MEG_def Let_def is_power_of_two_def core_of_def window_write32_def window_check_def checked_add_def volatile_def
      noc_location_def tlb_handle_drop_def munmap_def)
  then show ?thesis
    using l2cpu_register_access [OF demo_driver_ok c(1), of "0x2010008" 15] by (auto simp: c(2) held_def)
qed

end
