(* ===== verification/Daemon.thy ===== *)
theory Daemon
  imports Fallible Parse Wire_Protocol Data_Plane_Inv Virtio_Console Virtio_Rng Virtio_Net Shared_Chip Tensix_Engine Tlb_Windows
begin

text \<open>
  The state of the daemon (\<open>src/src/daemon/mod.rs\<close>) and its access to the chip. The dispatcher, the guests'
  memory and the tile's L1 are the state of \<open>Data_Plane\<close>, with one type for all devices. A handler is an
  action that ends in a reply, in an error, or in a panic; a panic poisons the mutexes that are held.
  The operating system, slirp and the kernel driver answer through the parameter \<open>env\<close>, whose answers may
  depend on the whole state, with a counter of the calls made so far.
\<close>

section \<open>Devices\<close>

datatype device = Blk virtio_blk | Net virtio_net | Con virtio_console | Rng

fun device_queues :: "device \<Rightarrow> nat" where
  "device_queues (Blk b) = unat (num_queues blk_ops b)"
| "device_queues (Net n) = unat (num_queues net_ops n)"
| "device_queues (Con c) = unat (num_queues con_ops c)"
| "device_queues Rng = unat (num_queues rng_ops ())"

text \<open>\<open>init_config\<close>: the bytes that a device stores at the start of its configuration space.\<close>

fun init_config :: "device \<Rightarrow> u8 list" where
  "init_config (Blk b) = le_bytes 8 (num_sectors b)"
| "init_config (Net n) = mac n"
| "init_config (Con c) = replicate 12 0"
| "init_config Rng = []"

definition DEV_BLK :: nat where "DEV_BLK = 0"
definition DEV_NET :: nat where "DEV_NET = 1"
definition DEV_CONSOLE :: nat where "DEV_CONSOLE = 2"
definition DEV_RNG :: nat where "DEV_RNG = 3"
definition DEV_BLK1 :: nat where "DEV_BLK1 = 4"
definition DEV_BLK2 :: nat where "DEV_BLK2 = 5"

definition DISK_IRQ :: u32 where "DISK_IRQ = 33"
definition NET_IRQ :: u32 where "NET_IRQ = 32"
definition CONSOLE_IRQ :: u32 where "CONSOLE_IRQ = 31"
definition RNG_IRQ :: u32 where "RNG_IRQ = 30"
definition DISK1_IRQ :: u32 where "DISK1_IRQ = 29"
definition DISK2_IRQ :: u32 where "DISK2_IRQ = 28"

lemmas dev_defs = DEV_BLK_def DEV_NET_def DEV_CONSOLE_def DEV_RNG_def DEV_BLK1_def DEV_BLK2_def

definition entry_new :: "nat \<Rightarrow> nat \<Rightarrow> device \<Rightarrow> u32 \<Rightarrow> interrupt_kind \<Rightarrow> device reg_entry" where
  "entry_new slot l2cpu device irq kind =
     \<lparr>re_slot = slot, re_l2cpu = l2cpu, re_device = device, re_irq = irq, re_kind = kind,
      re_processed = replicate (device_queues device) 0\<rparr>"

section \<open>State\<close>

record disk_worker =
  dw_path :: string
  dw_slot_idx :: nat
  dw_name :: "string option"

record l2cpu_slot =
  sl_disks :: "disk_worker list"
  sl_dtb_bytes :: "u8 list option"
  sl_blk_dtb_dev_idx :: "nat list"
  sl_net :: bool
  sl_virtio_console :: bool
  sl_virtio_rng :: bool
  sl_boot_payload :: "boot_payload option"
  sl_net_extra_fwd :: "fwd list"

text \<open>
  The workers of the devices have no thread, so a worker handle is whether it is there. The console
  threads that run are listed by their L2CPU, with the bytes in their input channels. \<open>core_regs\<close> holds the words of a core's tile outside its
  memory. The console hubs are in the state of the dispatcher.
\<close>

record daemon =
  card_no :: u32
  l2cpus :: "nat \<Rightarrow> l2cpu_slot option"
  wedged :: "nat \<Rightarrow> bool"
  shared_chip :: chip
  tensix_engine :: "engine option"
  dispatcher :: bool
  world :: "device disp"
  core_regs :: "nat \<Rightarrow> u64 \<Rightarrow> u32"
  chip_reset_this_session :: bool
  shutdown_tails :: "nat \<Rightarrow> u8 list"
  shutdown_flag :: bool
  console_threads :: "nat list"
  console_input :: "nat \<Rightarrow> u8 list"
  slot_poisoned :: "nat \<Rightarrow> bool"
  alloc_poisoned :: "nat \<Rightarrow> bool"
  dispatcher_poisoned :: bool
  engine_poisoned :: bool
  boot_lock_poisoned :: bool
  os_calls :: nat

datatype fault = Fail error | Crash string

type_synonym 'a rpc = "(daemon, fault, 'a) act"

record env =
  e_window :: "daemon \<Rightarrow> nat \<Rightarrow> u64 \<Rightarrow> io_error option"
  e_l2cpu_new :: "daemon \<Rightarrow> nat \<Rightarrow> io_error option"
  e_open_rw :: "daemon \<Rightarrow> string \<Rightarrow> io_error + u8 list"
  e_map_file :: "daemon \<Rightarrow> u8 list \<Rightarrow> io_error option"
  e_read_file :: "daemon \<Rightarrow> string \<Rightarrow> io_error + u8 list"
  e_bind :: "daemon \<Rightarrow> u16 \<Rightarrow> io_error option"
  e_slirp :: "daemon \<Rightarrow> fwd list \<Rightarrow> string \<Rightarrow> io_error option"
  e_socketpair :: "daemon \<Rightarrow> io_error option"
  e_open_tile :: "daemon \<Rightarrow> u16 \<Rightarrow> u16 \<Rightarrow> open_error + tile"
  e_firmware :: "u8 list"
  e_build_id :: u32
  e_boot_polls :: nat
  e_ack_polls :: nat
  e_engine_text :: "engine_error \<Rightarrow> string"
  e_boot_reads :: "daemon \<Rightarrow> tile \<Rightarrow> nat \<Rightarrow> guest_mem"
  e_ack_reads :: "daemon \<Rightarrow> tile \<Rightarrow> (nat \<times> u32) list \<Rightarrow> nat \<Rightarrow> guest_mem"
  e_tile_l1 :: "daemon \<Rightarrow> guest_mem"
  e_time_up :: "daemon \<Rightarrow> bool"
  e_guests :: "daemon \<Rightarrow> nat \<Rightarrow> guest_mem"
  e_reset_board :: "daemon \<Rightarrow> string option"
  e_reopen :: "daemon \<Rightarrow> string + chip_inner"
  e_memories :: "daemon \<Rightarrow> nat \<Rightarrow> guest_mem"
  e_tile_words :: "daemon \<Rightarrow> nat \<Rightarrow> u64 \<Rightarrow> u32"
  e_try_clone :: "daemon \<Rightarrow> io_error option"
  e_sends :: "daemon \<Rightarrow> bool"
  e_client_sock :: "daemon \<Rightarrow> sock"
  e_no_sender :: "daemon \<Rightarrow> nat \<Rightarrow> bool"
  e_exit :: "daemon \<Rightarrow> nat \<Rightarrow> bool"
  e_probe_due :: "daemon \<Rightarrow> nat \<Rightarrow> bool"
  e_pid :: u32
  e_uptime :: "daemon \<Rightarrow> u64"

text \<open>
  Files, ports, slirp, sockets and windows; the Tensix tile behind its coordinates, the words of L1 that
  the daemon reads while the firmware boots and acknowledges (with the number of reads before a timeout),
  the text of an engine error, and L1 afterwards; whether a deadline has
  passed, and the guests' memories after a sleep; a reset of the board, and the memories and words after it;
  the socket of a client and whether a write to it succeeds; whether a console's channel has lost its
  senders, its thread is told to exit, and its next probe is due; the process and the time since its start.
\<close>

definition em_dash :: string where
  "em_dash = [CHR 0xE2, CHR 0x80, CHR 0x94]"

definition ask :: "(daemon \<Rightarrow> 'a) \<Rightarrow> (daemon, 'e, 'a) act" where
  "ask f s = (Inr (f s), s\<lparr>os_calls := Suc (os_calls s)\<rparr>)"

definition io_ctx :: "string \<Rightarrow> io_error \<Rightarrow> fault" where
  "io_ctx ctx e = Fail (Io ctx e)"

text \<open>An answer of the operating system that may be an error.\<close>

definition ask_io :: "string \<Rightarrow> (daemon \<Rightarrow> io_error option) \<Rightarrow> unit rpc" where
  "ask_io ctx f = seq (ask f) (\<lambda>r. case r of None \<Rightarrow> ret () | Some e \<Rightarrow> fail (io_ctx ctx e))"

definition slot_state :: "string \<Rightarrow> 'a rpc" where "slot_state m = fail (Fail (Slot_State m))"
definition bad_request :: "string \<Rightarrow> 'a rpc" where "bad_request m = fail (Fail (Bad_Request m))"
definition internal :: "string \<Rightarrow> 'a rpc" where "internal m = fail (Fail (Internal m))"

section \<open>Mutexes\<close>

definition poisoned :: "'a rpc" where
  "poisoned = internal ''daemon mutex poisoned (worker thread paniced)''"

text \<open>\<open>lock_or_internal_error\<close> and the scope of the guard: a panic inside poisons the mutex.\<close>

definition guarded :: "(daemon \<Rightarrow> bool) \<Rightarrow> (daemon \<Rightarrow> daemon) \<Rightarrow> 'a rpc \<Rightarrow> 'a rpc" where
  "guarded is_poisoned poison body s =
     (if is_poisoned s then poisoned s
      else case body s of
        (Inl (Crash m), s') \<Rightarrow> (Inl (Crash m), poison s')
      | r \<Rightarrow> r)"

definition with_slot :: "nat \<Rightarrow> (l2cpu_slot option \<Rightarrow> 'a rpc) \<Rightarrow> 'a rpc" where
  "with_slot i body =
     guarded (\<lambda>s. slot_poisoned s i) (\<lambda>s. s\<lparr>slot_poisoned := (slot_poisoned s)(i := True)\<rparr>)
       (seq (asks (\<lambda>s. l2cpus s i)) body)"

definition with_dispatcher :: "(bool \<Rightarrow> 'a rpc) \<Rightarrow> 'a rpc" where
  "with_dispatcher body =
     guarded dispatcher_poisoned (\<lambda>s. s\<lparr>dispatcher_poisoned := True\<rparr>) (seq (asks dispatcher) body)"

definition read_engine :: "engine option rpc" where
  "read_engine = guarded engine_poisoned (\<lambda>s. s) (asks tensix_engine)"

definition not_booted :: "nat \<Rightarrow> 'a rpc" where
  "not_booted i = slot_state (''l2cpu '' @ dec i @ '' is not booted'')"

text \<open>A handler that needs the slot and is refused without one.\<close>

definition with_booted :: "nat \<Rightarrow> (l2cpu_slot \<Rightarrow> 'a rpc) \<Rightarrow> 'a rpc" where
  "with_booted i body = with_slot i (\<lambda>sl. case sl of None \<Rightarrow> not_booted i | Some sl \<Rightarrow> body sl)"

definition put_slot :: "nat \<Rightarrow> l2cpu_slot option \<Rightarrow> daemon \<Rightarrow> daemon" where
  "put_slot i sl s = s\<lparr>l2cpus := (l2cpus s)(i := sl)\<rparr>"

definition on_world :: "(device disp \<Rightarrow> device disp) \<Rightarrow> daemon \<Rightarrow> daemon" where
  "on_world f s = s\<lparr>world := f (world s)\<rparr>"

definition on_metrics :: "(metrics \<Rightarrow> metrics) \<Rightarrow> daemon \<Rightarrow> daemon" where
  "on_metrics f = on_world (\<lambda>w. w\<lparr>hst := (hst w)\<lparr>h_metrics := f (h_metrics (hst w))\<rparr>\<rparr>)"

section \<open>Accesses of a core's tile\<close>

text \<open>
  An address of the core's memory is a word of it, any other address a word of its tile. The access
  opens a window, which may fail; the assertion on the alignment fails with the allocation lock held.
\<close>

definition in_dram :: "nat \<Rightarrow> u64 \<Rightarrow> bool" where
  "in_dram i a \<longleftrightarrow> L2CPU_STARTING_ADDRESS i \<le> a \<and> a - L2CPU_STARTING_ADDRESS i < L2CPU_MEMORY_SIZE i"

definition dram_off :: "nat \<Rightarrow> u64 \<Rightarrow> nat" where
  "dram_off i a = unat (a - L2CPU_STARTING_ADDRESS i)"

definition core_word :: "daemon \<Rightarrow> nat \<Rightarrow> u64 \<Rightarrow> u32" where
  "core_word s i a = (if in_dram i a then gm_u32 (dram (world s) i) (dram_off i a) else core_regs s i a)"

definition put_core_word :: "nat \<Rightarrow> u64 \<Rightarrow> u32 \<Rightarrow> daemon \<Rightarrow> daemon" where
  "put_core_word i a v s =
     (if in_dram i a
      then on_world (\<lambda>w. w\<lparr>dram := (dram w)(i := gm_store (dram_off i a) (le_bytes 4 v) (dram w i))\<rparr>) s
      else s\<lparr>core_regs := (core_regs s)(i := (core_regs s i)(a := v))\<rparr>)"

definition open_window :: "env \<Rightarrow> nat \<Rightarrow> u64 \<Rightarrow> (daemon, failure, unit) act" where
  "open_window E i a =
     seq (asks (\<lambda>s. alloc_poisoned s i)) (\<lambda>p.
     if p then fail (Panic ''PoisonError'')
     else seq (ask (\<lambda>s. e_window E s i a)) (\<lambda>r. case r of Some e \<Rightarrow> fail (Err e) | None \<Rightarrow> ret ()))"

definition tile_access :: "env \<Rightarrow> nat \<Rightarrow> string \<Rightarrow> u64 \<Rightarrow> (daemon, failure, 'a) act \<Rightarrow> (daemon, failure, 'a) act" where
  "tile_access E i op a body =
     thn (open_window E i a)
     (if a mod 4 \<noteq> 0 then
        thn (upd (\<lambda>s. s\<lparr>alloc_poisoned := (alloc_poisoned s)(i := True)\<rparr>)) (fail (Panic (''TLB '' @ op @ '' unaligned'')))
      else body)"

definition l2_read32 :: "env \<Rightarrow> nat \<Rightarrow> u64 \<Rightarrow> (daemon, failure, u32) act" where
  "l2_read32 E i a = tile_access E i ''read32'' a (asks (\<lambda>s. core_word s i a))"

definition l2_write32 :: "env \<Rightarrow> nat \<Rightarrow> u64 \<Rightarrow> u32 \<Rightarrow> (daemon, failure, unit) act" where
  "l2_write32 E i a v = tile_access E i ''write32'' a (upd (put_core_word i a v))"

text \<open>Bytes copied through a window. A byte outside the memory is a part of the word that holds it.\<close>

definition put_byte :: "nat \<Rightarrow> u8 \<Rightarrow> u32 \<Rightarrow> u32" where
  "put_byte k b w = (w AND NOT (push_bit (8 * k) 0xFF)) OR push_bit (8 * k) (ucast b)"

definition put_core_byte :: "nat \<Rightarrow> u64 \<Rightarrow> u8 \<Rightarrow> daemon \<Rightarrow> daemon" where
  "put_core_byte i a b s =
     (if in_dram i a
      then on_world (\<lambda>w. w\<lparr>dram := (dram w)(i := gm_store (dram_off i a) [b] (dram w i))\<rparr>) s
      else let a4 = a - a mod 4
           in s\<lparr>core_regs := (core_regs s)(i := (core_regs s i)(a4 := put_byte (unat (a mod 4)) b (core_regs s i a4)))\<rparr>)"

primrec put_core_bytes :: "nat \<Rightarrow> u64 \<Rightarrow> u8 list \<Rightarrow> daemon \<Rightarrow> daemon" where
  "put_core_bytes i a [] s = s"
| "put_core_bytes i a (b # bs) s = put_core_bytes i (a + 1) bs (put_core_byte i a b s)"

definition core_byte :: "daemon \<Rightarrow> nat \<Rightarrow> u64 \<Rightarrow> u8" where
  "core_byte s i a =
     (if in_dram i a then gm_bytes (dram (world s) i) (dram_off i a)
      else ucast (drop_bit (8 * unat (a mod 4)) (core_regs s i (a - a mod 4))))"

fun io_fault :: "string \<Rightarrow> failure \<Rightarrow> fault" where
  "io_fault ctx (Err e) = Fail (Io ctx e)"
| "io_fault ctx (Panic m) = Crash m"

end
