(* ===== verification/Attachments.thy ===== *)
theory Attachments
  imports Daemon
begin

text \<open>
  Attaching and detaching the devices of a booted L2CPU, and stopping it (\<open>src/src/daemon/server.rs\<close>).
  Every handler takes the slot's mutex and updates the slot and the dispatcher's registry together.
\<close>

section \<open>Checks\<close>

definition validate_l2cpu :: "u8 \<Rightarrow> nat rpc" where
  "validate_l2cpu idx = (if idx < 4 then ret (unat idx) else bad_request ''l2cpu must be 0..3'')"

definition MAX_DISKS_PER_L2CPU :: nat where "MAX_DISKS_PER_L2CPU = 3"

definition validate_add_disk_request :: "env \<Rightarrow> nat \<Rightarrow> string option \<Rightarrow> string option list \<Rightarrow> string \<Rightarrow> u8 list rpc" where
  "validate_add_disk_request E current_count name existing_names path =
     (if current_count \<ge> MAX_DISKS_PER_L2CPU then
        slot_state (''L2CPU already has '' @ dec current_count @ '' disks attached (max '' @ dec MAX_DISKS_PER_L2CPU @ '')'')
      else if (\<exists>n. name = Some n \<and> Some n \<in> set existing_names) then
        slot_state (''L2CPU already has a disk with name '' @ debug_str (the name))
      else
        seq (ask (\<lambda>s. e_open_rw E s path)) (\<lambda>r.
        case r of Inl e \<Rightarrow> fail (io_ctx (''cannot open disk image '' @ path) e) | Inr file \<Rightarrow> ret file))"

definition validate_remove_disk_request :: "bool \<Rightarrow> unit rpc" where
  "validate_remove_disk_request disks_empty = (if disks_empty then slot_state ''no disk attached'' else ret ())"

definition pick_free_blk_slot :: "nat list \<Rightarrow> nat list \<Rightarrow> nat option" where
  "pick_free_blk_slot used eligible =
     find (\<lambda>s. s \<in> set eligible \<and> s \<notin> set used) [DEV_BLK, DEV_BLK1, DEV_BLK2]"

definition irq_for_blk_dev_idx :: "nat \<Rightarrow> u32 rpc" where
  "irq_for_blk_dev_idx dev_idx =
     (if dev_idx = DEV_BLK then ret DISK_IRQ
      else if dev_idx = DEV_BLK1 then ret DISK1_IRQ
      else if dev_idx = DEV_BLK2 then ret DISK2_IRQ
      else fail (Crash (''irq_for_blk_dev_idx called with non-blk dev_idx '' @ dec dev_idx)))"

fun show_nats :: "nat list \<Rightarrow> string" where
  "show_nats [] = []"
| "show_nats [n] = dec n"
| "show_nats (n # ns) = dec n @ '', '' @ show_nats ns"

section \<open>The registry\<close>

definition register_entry :: "nat \<Rightarrow> nat \<Rightarrow> device \<Rightarrow> u32 \<Rightarrow> interrupt_kind \<Rightarrow> daemon \<Rightarrow> daemon" where
  "register_entry i dev_idx d irq kind =
     on_world (register_slot (entry_new (engine_slot i dev_idx) i d irq kind))"

text \<open>The closure of the boot path and the hot-added disk store the configuration space first.\<close>

definition store_config :: "nat \<Rightarrow> nat \<Rightarrow> device \<Rightarrow> daemon \<Rightarrow> daemon" where
  "store_config i dev_idx d =
     on_world (\<lambda>w. w\<lparr>tile_l1 :=
       gm_store (slot_regs_base (engine_slot i dev_idx) + host_mmio_off VIRTIO_MMIO_CONFIG) (init_config d) (tile_l1 w)\<rparr>)"

definition register_device :: "nat \<Rightarrow> nat \<Rightarrow> device \<Rightarrow> u32 \<Rightarrow> interrupt_kind \<Rightarrow> daemon \<Rightarrow> daemon" where
  "register_device i dev_idx d irq kind = register_entry i dev_idx d irq kind \<circ> store_config i dev_idx d"

definition unregister :: "nat \<Rightarrow> daemon \<Rightarrow> daemon" where
  "unregister slot = on_world (unregister_slot slot)"

definition engine_down :: "'a rpc" where
  "engine_down = slot_state ''tensix engine not yet brought up; cold-boot the L2CPU first''"

section \<open>Disks\<close>

definition no_blk_slot :: "nat \<Rightarrow> nat list \<Rightarrow> nat list \<Rightarrow> 'a rpc" where
  "no_blk_slot i eligible used =
     slot_state (''no virtio-blk slot available for hot-add on l2cpu '' @ dec i @
       '' (DTB-declared blk dev_idxs: ['' @ show_nats eligible @ ''], in use: ['' @ show_nats used @
       '']). Re-boot with `bhx boot --cloud-init <seed>` to declare a second blk slot at cold-boot, or stop and cold-boot with the disks declared up front.'')"

definition dispatch_add_disk :: "env \<Rightarrow> u8 \<Rightarrow> string \<Rightarrow> string option \<Rightarrow> response rpc" where
  "dispatch_add_disk E idx path name =
     seq (validate_l2cpu idx) (\<lambda>i.
     with_booted i (\<lambda>sl.
     seq (validate_add_disk_request E (length (sl_disks sl)) name (map dw_name (sl_disks sl)) path) (\<lambda>file.
     let l2cpu_base = i * DEVS_PER_L2CPU;
         used = map (\<lambda>d. dw_slot_idx d - l2cpu_base) (sl_disks sl)
     in case pick_free_blk_slot used (sl_blk_dtb_dev_idx sl) of
          None \<Rightarrow> no_blk_slot i (sl_blk_dtb_dev_idx sl) used
        | Some dev_idx \<Rightarrow>
            seq (irq_for_blk_dev_idx dev_idx) (\<lambda>irq.
            with_dispatcher (\<lambda>up.
            seq read_engine (\<lambda>engine.
            if up \<and> engine \<noteq> None then
              seq (ask (\<lambda>s. e_map_file E s file)) (\<lambda>r.
              case r of
                Some e \<Rightarrow> slot_state (''VirtioBlk::from_file('' @ path @ '') failed: '' @ io_message e)
              | None \<Rightarrow>
                  thn (upd (register_device i dev_idx (Blk (from_file_with_serial file idx (map_option str name))) irq Block))
                  (thn (upd (put_slot i (Some (sl\<lparr>sl_disks :=
                      sl_disks sl @ [\<lparr>dw_path = path, dw_slot_idx = l2cpu_base + dev_idx, dw_name = name\<rparr>]\<rparr>))))
                  (ret Ok_Response)))
            else engine_down))))))"

definition show_disk :: "disk_worker \<Rightarrow> string" where
  "show_disk d = (case dw_name d of None \<Rightarrow> ''<unnamed>'' | Some n \<Rightarrow> n) @ '' ('' @ dw_path d @ '')''"

definition join_with :: "string \<Rightarrow> string list \<Rightarrow> string" where
  "join_with sep xs = (case xs of [] \<Rightarrow> [] | x # xs \<Rightarrow> x @ concat (map (\<lambda>y. sep @ y) xs))"

text \<open>The disks that a request takes and the ones it leaves.\<close>

definition taken_disks :: "nat \<Rightarrow> string option \<Rightarrow> disk_worker list \<Rightarrow> (disk_worker list \<times> disk_worker list) rpc" where
  "taken_disks i name disks =
     (case name of
        None \<Rightarrow>
          if length disks > 1 then
            slot_state (''l2cpu '' @ dec i @ '' has '' @ dec (length disks) @
              '' disks attached; pass --name <serial> to pick one. Attached: ['' @ join_with '', '' (map show_disk disks) @ '']'')
          else ret (disks, [])
      | Some want \<Rightarrow>
          let taken = filter (\<lambda>d. dw_name d = Some want) disks
          in if taken = [] then slot_state (''no disk with name '' @ debug_str want @ '' attached to l2cpu '' @ dec i)
             else ret (taken, filter (\<lambda>d. dw_name d \<noteq> Some want) disks))"

definition unregister_disks :: "disk_worker list \<Rightarrow> daemon \<Rightarrow> daemon" where
  "unregister_disks ds = fold (\<lambda>d. unregister (dw_slot_idx d)) ds"

text \<open>The slot is updated before the dispatcher's mutex is taken.\<close>

definition dispatch_remove_disk :: "u8 \<Rightarrow> string option \<Rightarrow> response rpc" where
  "dispatch_remove_disk idx name =
     seq (validate_l2cpu idx) (\<lambda>i.
     with_booted i (\<lambda>sl.
     thn (validate_remove_disk_request (sl_disks sl = []))
     (seq (taken_disks i name (sl_disks sl)) (\<lambda>(taken, keep).
     thn (upd (put_slot i (Some (sl\<lparr>sl_disks := keep\<rparr>))))
     (thn (with_dispatcher (\<lambda>up. upd (if up then unregister_disks taken else id)))
     (ret Ok_Response))))))"

section \<open>Network and console\<close>

definition slirp_open_failed :: string where
  "slirp_open_failed = ''vdeslirp_open returned NULL. Likely causes: (1) file descriptor limit reached '' @ em_dash @ '' check `ulimit -n`; (2) thread or socketpair creation blocked by a seccomp/container policy; (3) libvdeslirp/libslirp ABI mismatch '' @ em_dash @ '' this build expects libvdeslirp 0.1.x linked against libslirp 4.x (check `pkg-config --modversion vdeslirp libslirp`)''"

definition virtio_net_new :: "env \<Rightarrow> fwd list \<Rightarrow> nat \<Rightarrow> string option \<Rightarrow> (daemon, failure, virtio_net) act" where
  "virtio_net_new E forwards i hostname_override =
     seq (asks card_no) (\<lambda>c.
     let hostname = (case hostname_override of None \<Rightarrow> format_dhcp_hostname c (word_of_nat i) | Some h \<Rightarrow> h)
     in if CHR 0x00 \<in> set hostname then fail (Panic ''hostname is plain ASCII, no embedded NULs'')
        else seq (ask (\<lambda>s. e_slirp E s forwards hostname)) (\<lambda>r.
          case r of
            Some e \<Rightarrow> fail (Err (to_io (Io slirp_open_failed e)))
          | None \<Rightarrow> ret (net_new c (word_of_nat i))))"

definition probe_ports :: "env \<Rightarrow> fwd list \<Rightarrow> unit rpc" where
  "probe_ports E forwards =
     each (\<lambda>(host_port, _). ask_io (''host port '' @ dec (unat host_port) @
         '' unavailable. Pass a different host port (--fwd HOST:GUEST or --ssh-port), or stop whatever's using it'')
       (\<lambda>s. e_bind E s host_port)) forwards"

definition dispatch_add_net :: "env \<Rightarrow> u8 \<Rightarrow> u16 option \<Rightarrow> fwd list \<Rightarrow> response rpc" where
  "dispatch_add_net E idx ssh_port_override extra_fwd =
     seq (validate_l2cpu idx) (\<lambda>i.
     with_booted i (\<lambda>sl.
     if sl_net sl then slot_state ''network already attached''
     else
       seq (asks card_no) (\<lambda>c.
       let port = (case ssh_port_override of None \<Rightarrow> ssh_port c idx | Some p \<Rightarrow> p);
           forwards = (port, 22) # extra_fwd
       in thn (probe_ports E forwards)
          (with_dispatcher (\<lambda>up.
           if up then
             seq (catch (virtio_net_new E forwards i None)) (\<lambda>r.
             case r of
               Inl (Panic m) \<Rightarrow> fail (Crash m)
             | Inl (Err e) \<Rightarrow> slot_state (''VirtioNet::new failed: '' @ io_message e)
             | Inr net \<Rightarrow>
                 thn (upd (register_entry i DEV_NET (Net net) NET_IRQ interrupt_kind.Net))
                 (thn (upd (put_slot i (Some (sl\<lparr>sl_net := True\<rparr>)))) (ret Ok_Response)))
           else engine_down)))))"

definition dispatch_remove_net :: "u8 \<Rightarrow> response rpc" where
  "dispatch_remove_net idx =
     seq (validate_l2cpu idx) (\<lambda>i.
     thn (with_dispatcher (\<lambda>up. upd (if up then unregister (engine_slot i DEV_NET) else id)))
     (with_booted i (\<lambda>sl.
      if sl_net sl then thn (upd (put_slot i (Some (sl\<lparr>sl_net := False\<rparr>)))) (ret Ok_Response)
      else slot_state ''no net attached'')))"

text \<open>A new console device has an empty input buffer of its own.\<close>

definition fresh_input :: "nat \<Rightarrow> daemon \<Rightarrow> daemon" where
  "fresh_input i = on_world (\<lambda>w. w\<lparr>hst := (hst w)\<lparr>h_input := (h_input (hst w))(word_of_nat i := [])\<rparr>\<rparr>)"

definition dispatch_add_console :: "u8 \<Rightarrow> response rpc" where
  "dispatch_add_console idx =
     seq (validate_l2cpu idx) (\<lambda>i.
     with_booted i (\<lambda>sl.
     if sl_virtio_console sl then slot_state ''virtio-console already attached''
     else
       with_dispatcher (\<lambda>up.
       if up then
         thn (upd (fresh_input i))
         (thn (upd (register_entry i DEV_CONSOLE (Con (console_new idx)) CONSOLE_IRQ Console))
         (thn (upd (put_slot i (Some (sl\<lparr>sl_virtio_console := True\<rparr>)))) (ret Ok_Response)))
       else engine_down)))"

definition dispatch_remove_console :: "u8 \<Rightarrow> response rpc" where
  "dispatch_remove_console idx =
     seq (validate_l2cpu idx) (\<lambda>i.
     thn (with_dispatcher (\<lambda>up. upd (if up then unregister (engine_slot i DEV_CONSOLE) else id)))
     (with_booted i (\<lambda>sl.
      if sl_virtio_console sl then thn (upd (put_slot i (Some (sl\<lparr>sl_virtio_console := False\<rparr>)))) (ret Ok_Response)
      else slot_state ''no virtio-console attached'')))"

definition attach_rng_inline :: "nat \<Rightarrow> unit rpc" where
  "attach_rng_inline i =
     seq read_engine (\<lambda>engine.
     if engine = None then slot_state ''tensix engine not up; can't re-attach rng''
     else with_dispatcher (\<lambda>up.
       if \<not> up then slot_state ''dispatcher not running; can't re-attach rng''
       else with_booted i (\<lambda>sl.
         thn (upd (register_device i DEV_RNG Rng RNG_IRQ interrupt_kind.Rng))
         (upd (put_slot i (Some (sl\<lparr>sl_virtio_rng := True\<rparr>)))))))"

section \<open>Stopping\<close>

definition unregister_engine_slots :: "nat \<Rightarrow> daemon \<Rightarrow> daemon" where
  "unregister_engine_slots i s =
     (if dispatcher_poisoned s \<or> \<not> dispatcher s then s
      else on_world (unregister_uart i) (fold (\<lambda>dev_idx. unregister (engine_slot i dev_idx)) [0..<DEVS_PER_L2CPU] s))"

definition on_hub :: "nat \<Rightarrow> (hub \<times> metrics \<Rightarrow> hub \<times> metrics) \<Rightarrow> daemon \<Rightarrow> daemon" where
  "on_hub i f =
     on_world (\<lambda>w. case f (h_hub (hst w) (word_of_nat i), h_metrics (hst w)) of
       (h, mx) \<Rightarrow> w\<lparr>hst := (hst w)\<lparr>h_hub := (h_hub (hst w))(word_of_nat i := h), h_metrics := mx\<rparr>\<rparr>)"

definition disconnect :: "nat \<Rightarrow> string \<Rightarrow> daemon \<Rightarrow> daemon" where
  "disconnect i reason = on_hub i (\<lambda>h. snd (disconnect_all_with_reason reason h))"

text \<open>\<open>L2CpuSlot::shutdown\<close>: the workers of the devices have no thread to join, the console worker has.\<close>

definition slot_shutdown :: "nat \<Rightarrow> daemon \<Rightarrow> daemon" where
  "slot_shutdown i s = s\<lparr>console_threads := remove1 i (console_threads s)\<rparr>"

definition maybe_idle_pll :: "daemon \<Rightarrow> daemon" where
  "maybe_idle_pll s =
     (if (\<exists>i\<in>set [0..<4]. slot_poisoned s i \<or> l2cpus s i \<noteq> None) then s
      else if (\<exists>i\<in>set [0..<4]. l2cpu_is_running i (shared_chip s) \<noteq> Inr False) then s
      else (case idle_pll (shared_chip s) of Inl _ \<Rightarrow> s | Inr c \<Rightarrow> s\<lparr>shared_chip := c\<rparr>))"

definition save_tail :: "nat \<Rightarrow> daemon \<Rightarrow> daemon" where
  "save_tail i s =
     s\<lparr>shutdown_tails := (shutdown_tails s)(i := tail SHUTDOWN_TAIL_BYTES (h_hub (hst (world s)) (word_of_nat i)))\<rparr>"

definition internal_stop :: "u8 \<Rightarrow> string \<Rightarrow> bool rpc" where
  "internal_stop idx reason =
     seq (validate_l2cpu idx) (\<lambda>i.
     seq (with_slot i (\<lambda>sl. thn (upd (put_slot i None)) (ret sl))) (\<lambda>taken.
     case taken of
       None \<Rightarrow> ret False
     | Some _ \<Rightarrow>
         thn (upd (disconnect i (''l2cpu '' @ dec i @ '' stopped ('' @ reason @ '')'')))
         (thn (upd (save_tail i))
         (thn (upd (unregister_engine_slots i))
         (thn (upd (slot_shutdown i))
         (thn (upd maybe_idle_pll) (ret True)))))))"

definition dispatch_stop :: "u8 \<Rightarrow> response rpc" where
  "dispatch_stop idx =
     seq (internal_stop idx ''client-requested'') (\<lambda>b.
     if b then ret Ok_Response else not_booted (unat idx))"

definition dispatch_shutdown :: "response rpc" where
  "dispatch_shutdown = thn (upd (\<lambda>s. s\<lparr>shutdown_flag := True\<rparr>)) (ret Ok_Response)"

end
