(* ===== verification/Attachments_Inv.thy ===== *)
theory Attachments_Inv
  imports Attachments
begin

text \<open>
  The invariant of the daemon's bookkeeping: what a slot lists as attached is served by the dispatcher, the
  disks of a slot are at most three with slots and names of their own, the registry is well formed, and the
  dispatcher has an engine.
  Every handler keeps it, whether it succeeds, is refused or fails half way.
\<close>

section \<open>The invariant\<close>

definition kind_of :: "nat \<Rightarrow> interrupt_kind" where
  "kind_of dev_idx = (if dev_idx = DEV_NET then interrupt_kind.Net else if dev_idx = DEV_CONSOLE then Console
     else if dev_idx = DEV_RNG then interrupt_kind.Rng else Block)"

definition serves :: "daemon \<Rightarrow> nat \<Rightarrow> nat \<Rightarrow> bool" where
  "serves s i dev_idx \<longleftrightarrow> dispatcher s \<and>
     (\<exists>e. map_of (registry (world s)) (engine_slot i dev_idx) = Some e \<and> re_l2cpu e = i \<and> re_kind e = kind_of dev_idx)"

definition disks_ok :: "nat \<Rightarrow> l2cpu_slot \<Rightarrow> bool" where
  "disks_ok i sl \<longleftrightarrow>
     (\<forall>d\<in>set (sl_disks sl). \<exists>dev_idx\<in>set (sl_blk_dtb_dev_idx sl). dw_slot_idx d = engine_slot i dev_idx) \<and>
     distinct (map dw_slot_idx (sl_disks sl)) \<and> distinct (filter (\<lambda>n. n \<noteq> None) (map dw_name (sl_disks sl)))"

definition blk_dtb_ok :: "l2cpu_slot \<Rightarrow> bool" where
  "blk_dtb_ok sl \<longleftrightarrow> set (sl_blk_dtb_dev_idx sl) \<subseteq> {DEV_BLK, DEV_BLK1, DEV_BLK2}"

text \<open>The engine slots that a slot lists as attached.\<close>

definition attached :: "nat \<Rightarrow> l2cpu_slot \<Rightarrow> nat set" where
  "attached i sl =
     dw_slot_idx ` set (sl_disks sl) \<union> (if sl_net sl then {engine_slot i DEV_NET} else {}) \<union>
     (if sl_virtio_console sl then {engine_slot i DEV_CONSOLE} else {}) \<union> (if sl_virtio_rng sl then {engine_slot i DEV_RNG} else {})"

definition slot_served :: "daemon \<Rightarrow> nat \<Rightarrow> l2cpu_slot \<Rightarrow> bool" where
  "slot_served s i sl \<longleftrightarrow> (\<forall>dev_idx < 8. engine_slot i dev_idx \<in> attached i sl \<longrightarrow> serves s i dev_idx)"

text \<open>The slot behind a poisoned mutex is out of reach of every handler.\<close>

definition slots_ok :: "daemon \<Rightarrow> bool" where
  "slots_ok s \<longleftrightarrow>
     (\<forall>i sl. l2cpus s i = Some sl \<longrightarrow> \<not> slot_poisoned s i \<longrightarrow> i < 4 \<and> disks_ok i sl \<and> blk_dtb_ok sl \<and> slot_served s i sl)"

text \<open>A dispatcher that has just been spawned has published nothing yet.\<close>

definition registry_ok :: "device disp \<Rightarrow> bool" where
  "registry_ok w \<longleftrightarrow> entries_ok (registry w) \<and> set (uart_registry w) \<subseteq> {..<4} \<and>
     (registry w \<noteq> [] \<or> uart_registry w \<noteq> [] \<longrightarrow> masks_ok w)"

definition daemon_inv :: "daemon \<Rightarrow> bool" where
  "daemon_inv s \<longleftrightarrow> slots_ok s \<and> registry_ok (world s) \<and> (dispatcher s \<longrightarrow> tensix_engine s \<noteq> None)"

lemma engine_slot_inj:
  "dev_idx < 8 \<Longrightarrow> dev_idx' < 8 \<Longrightarrow> engine_slot i dev_idx = engine_slot i' dev_idx' \<longleftrightarrow> i = i' \<and> dev_idx = dev_idx'"
  unfolding engine_slot_def DEVS_PER_L2CPU_def by presburger

lemma engine_slot_bound: "i < 4 \<Longrightarrow> dev_idx < 8 \<Longrightarrow> engine_slot i dev_idx < 32"
  by (simp add: engine_slot_def DEVS_PER_L2CPU_def)

lemma dev_bounds [simp]: "DEV_BLK < 8" "DEV_NET < 8" "DEV_CONSOLE < 8" "DEV_RNG < 8" "DEV_BLK1 < 8" "DEV_BLK2 < 8"
  by (simp_all add: dev_defs)

section \<open>Field updates that the invariant does not see\<close>

lemma inv_os_calls [simp]: "daemon_inv (s\<lparr>os_calls := n\<rparr>) = daemon_inv s"
  by (simp add: daemon_inv_def slots_ok_def slot_served_def serves_def)

lemma inv_others [simp]:
  "daemon_inv (s\<lparr>dispatcher_poisoned := q\<rparr>) = daemon_inv s"
  "daemon_inv (s\<lparr>alloc_poisoned := p\<rparr>) = daemon_inv s" "daemon_inv (s\<lparr>console_threads := ct\<rparr>) = daemon_inv s" "daemon_inv (s\<lparr>console_input := ci\<rparr>) = daemon_inv s"
  "daemon_inv (s\<lparr>shared_chip := c\<rparr>) = daemon_inv s" "daemon_inv (s\<lparr>shutdown_tails := t\<rparr>) = daemon_inv s"
  "daemon_inv (s\<lparr>shutdown_flag := q\<rparr>) = daemon_inv s" "daemon_inv (s\<lparr>core_regs := r\<rparr>) = daemon_inv s"
  "daemon_inv (s\<lparr>engine_poisoned := q\<rparr>) = daemon_inv s" "daemon_inv (s\<lparr>boot_lock_poisoned := q\<rparr>) = daemon_inv s"
  "daemon_inv (s\<lparr>wedged := p\<rparr>) = daemon_inv s" "daemon_inv (s\<lparr>chip_reset_this_session := q\<rparr>) = daemon_inv s"
  by (simp_all add: daemon_inv_def slots_ok_def slot_served_def serves_def)

lemma inv_poisoned: "daemon_inv s \<Longrightarrow> daemon_inv (s\<lparr>slot_poisoned := (slot_poisoned s)(i := True)\<rparr>)"
  by (auto simp: daemon_inv_def slots_ok_def slot_served_def serves_def)

text \<open>Changes of the world that keep the registry and the bitmaps.\<close>

definition same_registry :: "device disp \<Rightarrow> device disp \<Rightarrow> bool" where
  "same_registry w w' \<longleftrightarrow> registry w' = registry w \<and> uart_registry w' = uart_registry w \<and>
     word (tile_l1 w') (Ctrl CTRL_OFF_ACTIVE_SLOTS) = word (tile_l1 w) (Ctrl CTRL_OFF_ACTIVE_SLOTS) \<and>
     word (tile_l1 w') (Ctrl CTRL_OFF_ACTIVE_VIRTIO_SLOTS) = word (tile_l1 w) (Ctrl CTRL_OFF_ACTIVE_VIRTIO_SLOTS)"

lemma inv_same_registry:
  assumes "same_registry (world s) (f (world s))" "daemon_inv s"
  shows "daemon_inv (on_world f s)"
proof -
  have "masks_ok (f (world s)) \<longleftrightarrow> masks_ok (world s)" using assms(1) by (simp add: same_registry_def masks_ok_def)
  then show ?thesis using assms
    by (simp add: daemon_inv_def registry_ok_def slots_ok_def slot_served_def serves_def on_world_def same_registry_def)
qed

lemma same_registry_hst [simp]: "same_registry w (w\<lparr>hst := h\<rparr>)" "same_registry w (w\<lparr>dram := m\<rparr>)"
  by (simp_all add: same_registry_def)

lemma inv_hub: "daemon_inv s \<Longrightarrow> daemon_inv (on_hub i f s)"
  unfolding on_hub_def by (rule inv_same_registry) (simp_all split: prod.split)

lemma inv_fresh_input: "daemon_inv s \<Longrightarrow> daemon_inv (fresh_input i s)"
  unfolding fresh_input_def by (rule inv_same_registry) simp_all

lemma inv_metrics: "daemon_inv s \<Longrightarrow> daemon_inv (on_metrics f s)"
  unfolding on_metrics_def by (rule inv_same_registry) simp_all

lemma inv_maybe_idle_pll: "daemon_inv s \<Longrightarrow> daemon_inv (maybe_idle_pll s)"
  by (simp add: maybe_idle_pll_def split: sum.split)

section \<open>Registering and unregistering\<close>

lemma registry_register [simp]:
  "registry (register_slot e w) = map_insert (re_slot e) e (registry w)" "uart_registry (register_slot e w) = uart_registry w"
  "registry (unregister_slot k w) = map_remove k (registry w)" "uart_registry (unregister_slot k w) = uart_registry w"
  "registry (register_uart i w) = registry w" "uart_registry (register_uart i w) = List.insert i (uart_registry w)"
  "registry (unregister_uart i w) = registry w" "uart_registry (unregister_uart i w) = removeAll i (uart_registry w)"
  by (simp_all add: register_slot_def unregister_slot_def register_uart_def unregister_uart_def publish_active_mask_def Let_def)

lemma map_of_remove: "map_of (map_remove k kvs) k' = (if k' = k then None else map_of kvs k')"
  by (induction kvs) (auto simp: map_remove_def)

lemma disp_inv_registry_ok: "disp_inv w \<Longrightarrow> registry_ok w"
  by (simp add: disp_inv_def registry_ok_def)

lemma registry_ok_step:
  assumes "registry_ok w"
  shows "re_slot e < 32 \<Longrightarrow> registry_ok (register_slot e w)" "registry_ok (unregister_slot k w)"
    "i < 4 \<Longrightarrow> registry_ok (register_uart i w)" "registry_ok (unregister_uart i w)"
proof -
  have w: "entries_ok (registry w)" "set (uart_registry w) \<subseteq> {..<4}" using assms by (simp_all add: registry_ok_def)
  show "registry_ok (register_slot e w)" if "re_slot e < 32"
    unfolding register_slot_def using w that by (intro disp_inv_registry_ok publish_inv) (simp_all add: entries_ok_insert)
  show "registry_ok (unregister_slot k w)"
    unfolding unregister_slot_def using w by (intro disp_inv_registry_ok publish_inv) (simp_all add: entries_ok_remove)
  show "registry_ok (register_uart i w)" if "i < 4"
    unfolding register_uart_def using w that by (intro disp_inv_registry_ok publish_inv) simp_all
  show "registry_ok (unregister_uart i w)"
    unfolding unregister_uart_def using w by (intro disp_inv_registry_ok publish_inv) auto
qed

lemma serves_register:
  assumes "serves s i' dev_idx'" "dev_idx < 8" "dev_idx' < 8" "kind = kind_of dev_idx"
  shows "serves (register_entry i dev_idx d irq kind s) i' dev_idx'"
  using assms
  by (auto simp: serves_def register_entry_def on_world_def map_of_map_insert entry_new_def engine_slot_inj)

lemma serves_registered:
  "dispatcher s \<Longrightarrow> kind = kind_of dev_idx \<Longrightarrow> serves (register_entry i dev_idx d irq kind s) i dev_idx"
  by (simp add: serves_def register_entry_def on_world_def map_of_map_insert entry_new_def)

lemma slot_served_mono:
  assumes "slot_served s i sl" "\<And>dev_idx. dev_idx < 8 \<Longrightarrow> serves s i dev_idx \<Longrightarrow> serves s' i dev_idx"
  shows "slot_served s' i sl"
  using assms by (auto simp: slot_served_def)

lemma l2cpus_world [simp]:
  "l2cpus (on_world f s) = l2cpus s" "dispatcher (on_world f s) = dispatcher s" "tensix_engine (on_world f s) = tensix_engine s"
  "world (on_world f s) = f (world s)" "slot_poisoned (on_world f s) = slot_poisoned s"
  "dispatcher_poisoned (on_world f s) = dispatcher_poisoned s" "card_no (on_world f s) = card_no s"
  by (simp_all add: on_world_def)

lemma l2cpus_register [simp]:
  "l2cpus (register_entry i dev_idx d irq kind s) = l2cpus s" "dispatcher (register_entry i dev_idx d irq kind s) = dispatcher s"
  "l2cpus (register_device i dev_idx d irq kind s) = l2cpus s" "dispatcher (register_device i dev_idx d irq kind s) = dispatcher s"
  "l2cpus (store_config i dev_idx d s) = l2cpus s" "dispatcher (store_config i dev_idx d s) = dispatcher s"
  "l2cpus (unregister k s) = l2cpus s" "dispatcher (unregister k s) = dispatcher s"
  "slot_poisoned (register_entry i dev_idx d irq kind s) = slot_poisoned s"
  "slot_poisoned (register_device i dev_idx d irq kind s) = slot_poisoned s" "slot_poisoned (unregister k s) = slot_poisoned s"
  "tensix_engine (register_entry i dev_idx d irq kind s) = tensix_engine s" "tensix_engine (register_device i dev_idx d irq kind s) = tensix_engine s"
  "tensix_engine (unregister k s) = tensix_engine s"
  by (simp_all add: register_entry_def register_device_def store_config_def unregister_def)

lemma inv_register_entry:
  assumes "daemon_inv s" "i < 4" "dev_idx < 8" "kind = kind_of dev_idx"
  shows "daemon_inv (register_entry i dev_idx d irq kind s)"
proof -
  have "registry_ok (world (register_entry i dev_idx d irq kind s))"
    using assms engine_slot_bound [OF assms(2,3)]
    by (simp add: register_entry_def daemon_inv_def registry_ok_step(1) entry_new_def)
  moreover have "slot_served (register_entry i dev_idx d irq kind s) j sl" if "slot_served s j sl" for j sl
    using that by (rule slot_served_mono) (simp add: serves_register assms)
  ultimately show ?thesis using assms(1) by (auto simp: daemon_inv_def slots_ok_def)
qed

lemma config_clear_of_masks:
  assumes "c = Ctrl CTRL_OFF_ACTIVE_SLOTS \<or> c = Ctrl CTRL_OFF_ACTIVE_VIRTIO_SLOTS"
  shows "word (gm_store (slot_regs_base k + host_mmio_off VIRTIO_MMIO_CONFIG) bs m) c = word m c"
proof -
  have "cell_addr c + 4 \<le> slot_regs_base k + 0x100"
    using assms by (auto simp: slot_regs_base_def addr_defs layout_defs cell_addr.simps)
  then show ?thesis by (simp add: word_def gm_load_store_disjoint)
qed

lemma inv_store_config:
  assumes "daemon_inv s"
  shows "daemon_inv (store_config i dev_idx d s)"
  unfolding store_config_def
  by (rule inv_same_registry [OF _ assms])
    (simp add: same_registry_def config_clear_of_masks del: host_mmio_off.simps)

lemma inv_register_device:
  assumes "daemon_inv s" "i < 4" "dev_idx < 8" "kind = kind_of dev_idx"
  shows "daemon_inv (register_device i dev_idx d irq kind s)"
  using assms by (simp add: register_device_def inv_register_entry inv_store_config)

lemma serves_registered_device:
  "dispatcher s \<Longrightarrow> kind = kind_of dev_idx \<Longrightarrow> serves (register_device i dev_idx d irq kind s) i dev_idx"
  by (simp add: register_device_def serves_registered)

lemma inv_put_slot:
  assumes "daemon_inv s" "i < 4" "disks_ok i sl" "blk_dtb_ok sl" "slot_served s i sl"
  shows "daemon_inv (put_slot i (Some sl) s)"
  using assms by (auto simp: daemon_inv_def slots_ok_def put_slot_def slot_served_def serves_def)

lemma inv_put_None: "daemon_inv s \<Longrightarrow> daemon_inv (put_slot i None s)"
  by (auto simp: daemon_inv_def slots_ok_def put_slot_def slot_served_def serves_def split: if_splits)

lemma inv_unregister:
  assumes "daemon_inv s" "\<And>i sl. l2cpus s i = Some sl \<Longrightarrow> \<not> slot_poisoned s i \<Longrightarrow> k \<notin> attached i sl"
  shows "daemon_inv (unregister k s)"
proof -
  have "registry_ok (world (unregister k s))" using assms(1) by (simp add: unregister_def daemon_inv_def registry_ok_step(2))
  moreover have "serves (unregister k s) i dev_idx" if "serves s i dev_idx" "engine_slot i dev_idx \<noteq> k" for i dev_idx
    using that by (simp add: serves_def unregister_def map_of_remove)
  ultimately show ?thesis using assms unfolding daemon_inv_def slots_ok_def slot_served_def l2cpus_register by metis
qed

lemma inv_slot:
  assumes "daemon_inv s" "l2cpus s i = Some sl" "\<not> slot_poisoned s i"
  shows "i < 4" "disks_ok i sl" "blk_dtb_ok sl" "slot_served s i sl"
  using assms by (auto simp: daemon_inv_def slots_ok_def)

section \<open>Handlers\<close>

definition keeps_inv :: "(daemon, 'e, 'a) act \<Rightarrow> daemon \<Rightarrow> bool" where
  "keeps_inv m s = wp m (\<lambda>_. daemon_inv) (\<lambda>_. daemon_inv) s"

lemma wp_ask [wp_simps]: "wp (ask f) Q R s = Q (f s) (s\<lparr>os_calls := Suc (os_calls s)\<rparr>)"
  by (simp add: wp_def ask_def)

lemma wp_ask_io [wp_simps]:
  "wp (ask_io ctx f) Q R s =
     (case f s of None \<Rightarrow> Q () (s\<lparr>os_calls := Suc (os_calls s)\<rparr>) | Some e \<Rightarrow> R (io_ctx ctx e) (s\<lparr>os_calls := Suc (os_calls s)\<rparr>))"
  by (simp only: ask_io_def wp_simps)

lemma wp_slot_state [wp_simps]: "wp (slot_state m) Q R s = R (Fail (Slot_State m)) s"
  by (simp only: slot_state_def wp_simps)

lemma wp_bad_request [wp_simps]: "wp (bad_request m) Q R s = R (Fail (Bad_Request m)) s"
  by (simp only: bad_request_def wp_simps)

lemma wp_engine_down [wp_simps]:
  "wp engine_down Q R s = R (Fail (Slot_State ''tensix engine not yet brought up; cold-boot the L2CPU first'')) s"
  by (simp only: engine_down_def wp_simps)

lemma wp_not_booted [wp_simps]: "wp (not_booted i) Q R s = R (Fail (Slot_State (''l2cpu '' @ dec i @ '' is not booted''))) s"
  by (simp only: not_booted_def wp_simps)

lemma wp_guarded:
  "wp (guarded p q m) Q R s =
     (if p s then R (Fail (Internal ''daemon mutex poisoned (worker thread paniced)'')) s
      else wp m Q (\<lambda>e s'. case e of Fail _ \<Rightarrow> R e s' | Crash _ \<Rightarrow> R e (q s')) s)"
  by (simp add: wp_def guarded_def poisoned_def internal_def split: prod.splits sum.splits fault.splits)

lemma wp_with_slot [wp_simps]:
  "wp (with_slot i body) Q R s =
     (if slot_poisoned s i then R (Fail (Internal ''daemon mutex poisoned (worker thread paniced)'')) s
      else wp (body (l2cpus s i)) Q
        (\<lambda>e s'. case e of Fail _ \<Rightarrow> R e s' | Crash _ \<Rightarrow> R e (s'\<lparr>slot_poisoned := (slot_poisoned s')(i := True)\<rparr>)) s)"
  by (simp only: with_slot_def wp_guarded wp_simps)

lemma wp_with_dispatcher [wp_simps]:
  "wp (with_dispatcher body) Q R s =
     (if dispatcher_poisoned s then R (Fail (Internal ''daemon mutex poisoned (worker thread paniced)'')) s
      else wp (body (dispatcher s)) Q
        (\<lambda>e s'. case e of Fail _ \<Rightarrow> R e s' | Crash _ \<Rightarrow> R e (s'\<lparr>dispatcher_poisoned := True\<rparr>)) s)"
  by (simp only: with_dispatcher_def wp_guarded wp_simps)

lemma wp_read_engine [wp_simps]:
  "wp read_engine Q R s =
     (if engine_poisoned s then R (Fail (Internal ''daemon mutex poisoned (worker thread paniced)'')) s else Q (tensix_engine s) s)"
  by (simp only: read_engine_def wp_guarded wp_simps)

lemma wp_with_booted [wp_simps]:
  "wp (with_booted i body) Q R s =
     (if slot_poisoned s i then R (Fail (Internal ''daemon mutex poisoned (worker thread paniced)'')) s
      else case l2cpus s i of
        None \<Rightarrow> R (Fail (Slot_State (''l2cpu '' @ dec i @ '' is not booted''))) s
      | Some sl \<Rightarrow> wp (body sl) Q
          (\<lambda>e s'. case e of Fail _ \<Rightarrow> R e s' | Crash _ \<Rightarrow> R e (s'\<lparr>slot_poisoned := (slot_poisoned s')(i := True)\<rparr>)) s)"
  by (simp only: with_booted_def wp_simps) (simp split: option.splits)

lemma wp_validate [wp_simps]:
  "wp (validate_l2cpu idx) Q R s = (if idx < 4 then Q (unat idx) s else R (Fail (Bad_Request ''l2cpu must be 0..3'')) s)"
  by (simp only: validate_l2cpu_def wp_simps)

lemma wp_irq [wp_simps]:
  "dev_idx \<in> {DEV_BLK, DEV_BLK1, DEV_BLK2} \<Longrightarrow> wp (irq_for_blk_dev_idx dev_idx) Q R s =
     Q (if dev_idx = DEV_BLK then DISK_IRQ else if dev_idx = DEV_BLK1 then DISK1_IRQ else DISK2_IRQ) s"
  by (auto simp: irq_for_blk_dev_idx_def wp_def dev_defs)

text \<open>Opening a mutex for a handler that keeps the invariant.\<close>

lemma keeps_with_slot:
  assumes "daemon_inv s" "\<not> slot_poisoned s i \<Longrightarrow> keeps_inv (body (l2cpus s i)) s"
  shows "keeps_inv (with_slot i body) s"
  using assms unfolding keeps_inv_def wp_simps
  by (auto elim!: wp_mono simp: inv_poisoned split: fault.split)

lemma keeps_with_booted:
  assumes "daemon_inv s" "\<And>sl. \<not> slot_poisoned s i \<Longrightarrow> l2cpus s i = Some sl \<Longrightarrow> keeps_inv (body sl) s"
  shows "keeps_inv (with_booted i body) s"
  unfolding with_booted_def using assms
  by (intro keeps_with_slot) (auto simp: keeps_inv_def wp_not_booted split: option.split)

lemma keeps_with_dispatcher:
  assumes "daemon_inv s" "keeps_inv (body (dispatcher s)) s"
  shows "keeps_inv (with_dispatcher body) s"
  using assms unfolding keeps_inv_def wp_simps
  by (auto elim!: wp_mono split: fault.split)

lemma keeps_validate: "daemon_inv s \<Longrightarrow> (idx < 4 \<Longrightarrow> keeps_inv (f (unat idx)) s) \<Longrightarrow> keeps_inv (seq (validate_l2cpu idx) f) s"
  unfolding keeps_inv_def wp_simps by simp

section \<open>Attaching\<close>

lemma inv_attach:
  assumes inv: "daemon_inv s" and sl: "l2cpus s i = Some sl" "\<not> slot_poisoned s i"
    and up: "dispatcher s" and dev: "dev_idx < 8" "kind = kind_of dev_idx"
    and new: "attached i sl' \<subseteq> insert (engine_slot i dev_idx) (attached i sl)" "disks_ok i sl'" "blk_dtb_ok sl'"
  shows "daemon_inv (put_slot i (Some sl') (register_entry i dev_idx d irq kind s))"
proof (rule inv_put_slot [OF inv_register_entry [OF inv] _ new(2,3)])
  show i: "i < 4" using inv_slot [OF inv sl] by simp
  then show "i < 4" .
  show "slot_served (register_entry i dev_idx d irq kind s) i sl'"
    unfolding slot_served_def
  proof (intro allI impI)
    fix dev_idx' assume d': "dev_idx' < 8" "engine_slot i dev_idx' \<in> attached i sl'"
    show "serves (register_entry i dev_idx d irq kind s) i dev_idx'"
    proof (cases "dev_idx' = dev_idx")
      case True
      then show ?thesis using up dev by (simp add: serves_registered)
    next
      case False
      then have "engine_slot i dev_idx' \<in> attached i sl" using d' new(1) dev by (auto simp: engine_slot_inj)
      then have "serves s i dev_idx'" using inv_slot(4) [OF inv sl] d' by (simp add: slot_served_def)
      then show ?thesis using d' dev by (simp add: serves_register)
    qed
  qed
qed (use dev in auto)

lemma inv_attach_device:
  assumes "daemon_inv s" "l2cpus s i = Some sl" "\<not> slot_poisoned s i" "dispatcher s" "dev_idx < 8" "kind = kind_of dev_idx"
    "attached i sl' \<subseteq> insert (engine_slot i dev_idx) (attached i sl)" "disks_ok i sl'" "blk_dtb_ok sl'"
  shows "daemon_inv (put_slot i (Some sl') (register_device i dev_idx d irq kind s))"
  unfolding register_device_def comp_def using assms
  by (intro inv_attach [OF inv_store_config]) (simp_all add: store_config_def)

lemma pick_free_blk_slot_SomeD:
  assumes "pick_free_blk_slot used eligible = Some dev_idx"
  shows "dev_idx \<in> {DEV_BLK, DEV_BLK1, DEV_BLK2}" "dev_idx \<in> set eligible" "dev_idx \<notin> set used"
  using assms by (auto simp: pick_free_blk_slot_def split: if_splits)

lemma kind_of_blk: "dev_idx \<in> {DEV_BLK, DEV_BLK1, DEV_BLK2} \<Longrightarrow> kind_of dev_idx = Block"
  by (auto simp: kind_of_def dev_defs)

lemma blk_bound: "dev_idx \<in> {DEV_BLK, DEV_BLK1, DEV_BLK2} \<Longrightarrow> dev_idx < 8"
  by auto

lemma disks_ok_add:
  assumes ok: "disks_ok i sl" and free: "dev_idx \<in> set (sl_blk_dtb_dev_idx sl)"
    "dev_idx \<notin> set (map (\<lambda>d. dw_slot_idx d - i * DEVS_PER_L2CPU) (sl_disks sl))"
    and name: "\<And>n. name = Some n \<Longrightarrow> Some n \<notin> set (map dw_name (sl_disks sl))"
  shows "disks_ok i (sl\<lparr>sl_disks := sl_disks sl @ [\<lparr>dw_path = path, dw_slot_idx = i * DEVS_PER_L2CPU + dev_idx, dw_name = name\<rparr>]\<rparr>)"
proof -
  have "i * DEVS_PER_L2CPU + dev_idx \<notin> dw_slot_idx ` set (sl_disks sl)" using free(2) by (force simp: image_iff)
  moreover have "name \<noteq> None \<Longrightarrow> name \<notin> set (map dw_name (sl_disks sl))" using name by auto
  ultimately show ?thesis using ok free(1) by (auto simp: disks_ok_def engine_slot_def)
qed

lemma attached_add:
  "attached i (sl\<lparr>sl_disks := sl_disks sl @ [\<lparr>dw_path = path, dw_slot_idx = i * DEVS_PER_L2CPU + dev_idx, dw_name = name\<rparr>]\<rparr>)
     \<subseteq> insert (engine_slot i dev_idx) (attached i sl)"
  by (auto simp: attached_def engine_slot_def)

lemma wp_validate_add_disk [wp_simps]:
  "wp (validate_add_disk_request E n name names path) Q R s =
     (if n \<ge> MAX_DISKS_PER_L2CPU then R (Fail (Slot_State (''L2CPU already has '' @ dec n @ '' disks attached (max '' @ dec MAX_DISKS_PER_L2CPU @ '')''))) s
      else if (\<exists>m. name = Some m \<and> Some m \<in> set names) then R (Fail (Slot_State (''L2CPU already has a disk with name '' @ debug_str (the name)))) s
      else case e_open_rw E s path of
        Inl e \<Rightarrow> R (io_ctx (''cannot open disk image '' @ path) e) (s\<lparr>os_calls := Suc (os_calls s)\<rparr>)
      | Inr file \<Rightarrow> Q file (s\<lparr>os_calls := Suc (os_calls s)\<rparr>))"
  by (simp only: validate_add_disk_request_def wp_simps)

lemma keeps_add_disk: "daemon_inv s \<Longrightarrow> keeps_inv (dispatch_add_disk E idx path name) s"
  unfolding dispatch_add_disk_def
proof (intro keeps_validate keeps_with_booted, goal_cases)
  case (3 sl)
  let ?i = "unat idx"
  note inv = 3(1) and sl = 3(3,4)
  note ok = inv_slot [OF inv sl(2,1)]
  have attach: "daemon_inv (put_slot ?i (Some (sl\<lparr>sl_disks := sl_disks sl @
        [\<lparr>dw_path = path, dw_slot_idx = ?i * DEVS_PER_L2CPU + dev_idx, dw_name = name\<rparr>]\<rparr>)) (register_device ?i dev_idx d irq Block (s\<lparr>os_calls := n\<rparr>)))"
    if "pick_free_blk_slot (map (\<lambda>d. dw_slot_idx d - ?i * DEVS_PER_L2CPU) (sl_disks sl)) (sl_blk_dtb_dev_idx sl) = Some dev_idx"
      "\<forall>m. name = Some m \<longrightarrow> Some m \<notin> dw_name ` set (sl_disks sl)" "dispatcher s" for dev_idx irq d n
    using inv sl ok that pick_free_blk_slot_SomeD [OF that(1)]
    by (intro inv_attach_device [OF _ _ _ _ blk_bound _ attached_add] disks_ok_add) (auto simp: kind_of_blk blk_dtb_ok_def)
  show ?case
    unfolding keeps_inv_def wp_simps no_blk_slot_def Let_def using inv attach
    by (auto split: sum.splits option.splits simp: wp_irq [OF pick_free_blk_slot_SomeD(1)] wp_simps io_ctx_def simp del: act_simps)
qed

lemma keeps_attach_rng: "daemon_inv s \<Longrightarrow> keeps_inv (attach_rng_inline i) s"
proof -
  assume inv: "daemon_inv s"
  have "daemon_inv (put_slot i (Some (sl\<lparr>sl_virtio_rng := True\<rparr>)) (register_device i DEV_RNG Rng RNG_IRQ interrupt_kind.Rng s))"
    if "l2cpus s i = Some sl" "\<not> slot_poisoned s i" "dispatcher s" for sl
    using inv_slot [OF inv that(1,2)]
    by (intro inv_attach_device [OF inv that]) (auto simp: attached_def kind_of_def dev_defs disks_ok_def blk_dtb_ok_def)
  then show ?thesis using inv unfolding attach_rng_inline_def keeps_inv_def wp_simps
    by (auto split: option.splits)
qed

lemma keeps_add_console: "daemon_inv s \<Longrightarrow> keeps_inv (dispatch_add_console idx) s"
  unfolding dispatch_add_console_def
proof (intro keeps_validate keeps_with_booted, goal_cases)
  case (3 sl)
  let ?i = "unat idx"
  note inv = 3(1) and sl = 3(3,4)
  have "daemon_inv (put_slot ?i (Some (sl\<lparr>sl_virtio_console := True\<rparr>)) (register_entry ?i DEV_CONSOLE d irq Console (fresh_input ?i s)))"
    if "dispatcher s" for d irq
    using inv_slot [OF inv sl(2,1)] sl that
    by (intro inv_attach [OF inv_fresh_input [OF inv]]) (auto simp: fresh_input_def attached_def kind_of_def dev_defs disks_ok_def blk_dtb_ok_def)
  then show ?case using inv unfolding keeps_inv_def wp_simps by simp
qed

lemma wp_probe_ports:
  assumes "daemon_inv s"
  shows "wp (probe_ports E forwards) (\<lambda>_ s'. \<exists>n. s' = s\<lparr>os_calls := n\<rparr>) (\<lambda>_. daemon_inv) s"
  unfolding probe_ports_def
proof (rule wp_each)
  show "\<exists>n. s = s\<lparr>os_calls := n\<rparr>" by (rule exI [of _ "os_calls s"]) simp
  show "wp (case x of (host_port, _) \<Rightarrow> ask_io (''host port '' @ dec (unat host_port) @
         '' unavailable. Pass a different host port (--fwd HOST:GUEST or --ssh-port), or stop whatever's using it'') (\<lambda>s. e_bind E s host_port))
      (\<lambda>_ s'. \<exists>n. s' = s\<lparr>os_calls := n\<rparr>) (\<lambda>_. daemon_inv) t" if "\<exists>n. t = s\<lparr>os_calls := n\<rparr>" for x t
    using that assms unfolding wp_simps by (auto split: option.splits)
qed

lemma wp_virtio_net_new:
  "wp (virtio_net_new E forwards i h) Q R s =
     (let hostname = (case h of None \<Rightarrow> format_dhcp_hostname (card_no s) (word_of_nat i) | Some h \<Rightarrow> h);
          s' = s\<lparr>os_calls := Suc (os_calls s)\<rparr>
      in if CHR 0x00 \<in> set hostname then R (Panic ''hostname is plain ASCII, no embedded NULs'') s
         else case e_slirp E s forwards hostname of
           Some e \<Rightarrow> R (Err (to_io (Io slirp_open_failed e))) s'
         | None \<Rightarrow> Q (net_new (card_no s) (word_of_nat i)) s')"
  unfolding virtio_net_new_def wp_simps Let_def ..

lemma keeps_add_net: "daemon_inv s \<Longrightarrow> keeps_inv (dispatch_add_net E idx ssh fwd) s"
  unfolding dispatch_add_net_def
proof (intro keeps_validate keeps_with_booted, goal_cases)
  case (3 sl)
  let ?i = "unat idx"
  note inv = 3(1) and sl = 3(3,4)
  have attach: "daemon_inv (put_slot ?i (Some (sl\<lparr>sl_net := True\<rparr>)) (register_entry ?i DEV_NET d irq interrupt_kind.Net (s\<lparr>os_calls := n\<rparr>)))"
    if "dispatcher s" for d irq n
    using inv_slot [OF inv sl(2,1)] sl that inv
    by (intro inv_attach) (auto simp: attached_def kind_of_def dev_defs disks_ok_def blk_dtb_ok_def)
  have probe: "wp (probe_ports E forwards) Q (\<lambda>_. daemon_inv) s"
    if "\<And>n. Q () (s\<lparr>os_calls := n\<rparr>)" for forwards Q
    using wp_probe_ports [OF inv] by (rule wp_mono) (use that in auto)
  show ?case
    unfolding keeps_inv_def wp_simps wp_virtio_net_new Let_def
    by (auto intro!: probe simp: inv attach wp_simps split: option.splits simp del: act_simps)
qed

section \<open>Detaching\<close>

lemma disk_dev:
  assumes "disks_ok i sl" "blk_dtb_ok sl" "d \<in> set (sl_disks sl)"
  obtains dev_idx where "dw_slot_idx d = engine_slot i dev_idx" "dev_idx \<in> {DEV_BLK, DEV_BLK1, DEV_BLK2}"
  using assms unfolding disks_ok_def blk_dtb_ok_def by blast

lemma attached_owner:
  assumes "disks_ok i sl" "blk_dtb_ok sl" "k \<in> attached i sl"
  shows "\<exists>dev_idx < 8. k = engine_slot i dev_idx"
proof -
  have "\<exists>dev_idx < 8. dw_slot_idx d = engine_slot i dev_idx" if "d \<in> set (sl_disks sl)" for d
    by (rule disk_dev [OF assms(1,2) that]) (use blk_bound in blast)
  then show ?thesis using assms(3) by (auto simp: attached_def split: if_splits intro: dev_bounds)
qed

text \<open>A slot lists no device of another core.\<close>

lemma not_attached_elsewhere:
  assumes "daemon_inv s" "l2cpus s j = Some sl" "\<not> slot_poisoned s j" "dev_idx < 8" "j \<noteq> i"
  shows "engine_slot i dev_idx \<notin> attached j sl"
proof
  assume "engine_slot i dev_idx \<in> attached j sl"
  then obtain dev_idx' where "dev_idx' < 8" "engine_slot i dev_idx = engine_slot j dev_idx'"
    using attached_owner inv_slot(2,3) [OF assms(1-3)] by blast
  then show False using assms by (simp add: engine_slot_inj)
qed

lemma not_a_disk:
  assumes "disks_ok i sl" "blk_dtb_ok sl" "d \<in> set (sl_disks sl)" "dev_idx < 8" "dev_idx \<notin> {DEV_BLK, DEV_BLK1, DEV_BLK2}"
  shows "dw_slot_idx d \<noteq> engine_slot i dev_idx"
  by (rule disk_dev [OF assms(1-3)]) (use assms(4,5) blk_bound engine_slot_inj in metis)

lemma attached_iff:
  assumes "disks_ok i sl" "blk_dtb_ok sl" "dev_idx < 8" "dev_idx \<notin> {DEV_BLK, DEV_BLK1, DEV_BLK2}"
  shows "engine_slot i dev_idx \<in> attached i sl \<longleftrightarrow>
    sl_net sl \<and> dev_idx = DEV_NET \<or> sl_virtio_console sl \<and> dev_idx = DEV_CONSOLE \<or> sl_virtio_rng sl \<and> dev_idx = DEV_RNG"
proof -
  have "engine_slot i dev_idx \<notin> dw_slot_idx ` set (sl_disks sl)" using not_a_disk [OF assms(1,2) _ assms(3,4)] by (metis imageE)
  then show ?thesis using assms(3) by (auto simp: attached_def engine_slot_inj)
qed

lemma inv_unregister_own:
  assumes "daemon_inv s" "dev_idx < 8"
    "\<And>sl. l2cpus s i = Some sl \<Longrightarrow> \<not> slot_poisoned s i \<Longrightarrow> engine_slot i dev_idx \<notin> attached i sl"
  shows "daemon_inv (unregister (engine_slot i dev_idx) s)"
proof (rule inv_unregister [OF assms(1)])
  show "engine_slot i dev_idx \<notin> attached j sl" if "l2cpus s j = Some sl" "\<not> slot_poisoned s j" for j sl
    using that assms not_attached_elsewhere [OF assms(1) that assms(2)] by (cases "j = i") auto
qed

text \<open>A slot that lists fewer devices.\<close>

lemma inv_shrink:
  assumes "daemon_inv s" "l2cpus s i = Some sl" "\<not> slot_poisoned s i" "disks_ok i sl'" "blk_dtb_ok sl'" "attached i sl' \<subseteq> attached i sl"
  shows "daemon_inv (put_slot i (Some sl') s)"
  using inv_slot [OF assms(1-3)] assms by (intro inv_put_slot) (auto simp: slot_served_def)

lemma put_slot_unregister: "put_slot i sl (unregister k s) = unregister k (put_slot i sl s)"
  by (simp add: put_slot_def unregister_def on_world_def)

lemma put_slot_fields [simp]:
  "l2cpus (put_slot i sl s) = (l2cpus s)(i := sl)" "slot_poisoned (put_slot i sl s) = slot_poisoned s"
  "dispatcher (put_slot i sl s) = dispatcher s" "dispatcher_poisoned (put_slot i sl s) = dispatcher_poisoned s" "world (put_slot i sl s) = world s"
  by (simp_all add: put_slot_def)

text \<open>The request that unregisters a device first and updates the slot afterwards.\<close>

lemma keeps_detach:
  assumes inv: "daemon_inv s" and dev: "dev_idx < 8" "dev_idx \<notin> {DEV_BLK, DEV_BLK1, DEV_BLK2}"
    and out: "\<And>sl. \<not> has sl \<Longrightarrow> disks_ok i sl \<Longrightarrow> blk_dtb_ok sl \<Longrightarrow> engine_slot i dev_idx \<notin> attached i sl"
      "\<And>sl. disks_ok i sl \<Longrightarrow> disks_ok i (drop_it sl)" "\<And>sl. blk_dtb_ok sl \<Longrightarrow> blk_dtb_ok (drop_it sl)"
      "\<And>sl. attached i (drop_it sl) \<subseteq> attached i sl" "\<And>sl. \<not> has (drop_it sl)"
  shows "keeps_inv (thn (with_dispatcher (\<lambda>up. upd (if up then unregister (engine_slot i dev_idx) else id)))
     (with_booted i (\<lambda>sl. if has sl then thn (upd (put_slot i (Some (drop_it sl)))) (ret Ok_Response) else slot_state m))) s"
proof -
  have gone: "daemon_inv (put_slot i (Some (drop_it sl)) (unregister (engine_slot i dev_idx) s))"
    if "l2cpus s i = Some sl" "\<not> slot_poisoned s i" for sl
  proof -
    note ok = inv_slot [OF inv that]
    have "daemon_inv (put_slot i (Some (drop_it sl)) s)" using ok out by (intro inv_shrink [OF inv that]) auto
    then show ?thesis unfolding put_slot_unregister using ok out dev by (intro inv_unregister_own) auto
  qed
  have shrunk: "daemon_inv (put_slot i (Some (drop_it sl)) s)" if "l2cpus s i = Some sl" "\<not> slot_poisoned s i" for sl
    using inv_slot [OF inv that] out by (intro inv_shrink [OF inv that]) auto
  have kept: "daemon_inv (unregister (engine_slot i dev_idx) s)" if "\<And>sl. l2cpus s i = Some sl \<Longrightarrow> \<not> slot_poisoned s i \<Longrightarrow> \<not> has sl"
    using that inv_slot [OF inv] out(1) by (intro inv_unregister_own [OF inv dev(1)]) auto
  show ?thesis unfolding keeps_inv_def wp_simps using inv gone shrunk kept
    by (cases "dispatcher s") (auto split: option.splits)
qed

lemma keeps_remove_net: "daemon_inv s \<Longrightarrow> keeps_inv (dispatch_remove_net idx) s"
  unfolding dispatch_remove_net_def
proof (intro keeps_validate keeps_detach [where has = sl_net and drop_it = "\<lambda>sl. sl\<lparr>sl_net := False\<rparr>"], goal_cases)
  case (5 sl)
  then show ?case by (subst attached_iff) (simp_all add: dev_defs)
qed (auto simp: disks_ok_def blk_dtb_ok_def attached_def dev_defs)

lemma keeps_remove_console: "daemon_inv s \<Longrightarrow> keeps_inv (dispatch_remove_console idx) s"
  unfolding dispatch_remove_console_def
proof (intro keeps_validate keeps_detach [where has = sl_virtio_console and drop_it = "\<lambda>sl. sl\<lparr>sl_virtio_console := False\<rparr>"], goal_cases)
  case (5 sl)
  then show ?case by (subst attached_iff) (simp_all add: dev_defs)
qed (auto simp: disks_ok_def blk_dtb_ok_def attached_def dev_defs)

lemma disks_ok_filter: "disks_ok i sl \<Longrightarrow> disks_ok i (sl\<lparr>sl_disks := filter P (sl_disks sl)\<rparr>)"
proof -
  have "filter (\<lambda>d. dw_name d \<noteq> None) (filter P xs) = filter P (filter (\<lambda>d. dw_name d \<noteq> None) xs)" for xs
    by (simp add: conj_commute)
  then show "disks_ok i sl \<Longrightarrow> ?thesis"
    by (auto simp: disks_ok_def distinct_map_filter filter_map comp_def simp del: filter_filter not_None_eq)
qed

lemma taken_disks_cases:
  "wp (taken_disks i name disks) (\<lambda>(taken, keep) t. t = s \<and> (\<exists>P. taken = filter (\<lambda>d. \<not> P d) disks \<and> keep = filter P disks))
     (\<lambda>e t. t = s \<and> (\<exists>m. e = Fail (Slot_State m))) s"
  unfolding taken_disks_def wp_simps Let_def
  by (auto split: option.split intro: exI [of _ "\<lambda>_. False"] exI [of _ "\<lambda>d. dw_name d \<noteq> name"])

lemma inv_unregister_list:
  assumes "daemon_inv s" "\<And>k j sl. k \<in> set ks \<Longrightarrow> l2cpus s j = Some sl \<Longrightarrow> \<not> slot_poisoned s j \<Longrightarrow> k \<notin> attached j sl"
  shows "daemon_inv (fold unregister ks s)"
  using assms
proof (induction ks arbitrary: s)
  case (Cons k ks)
  have "daemon_inv (unregister k s)" using Cons.prems by (intro inv_unregister) auto
  then have "daemon_inv (fold unregister ks (unregister k s))" using Cons.prems(2) by (intro Cons.IH) auto
  then show ?case by simp
qed simp

lemma fold_unregister_fields [simp]:
  "l2cpus (fold unregister ks s) = l2cpus s" "slot_poisoned (fold unregister ks s) = slot_poisoned s"
  "dispatcher (fold unregister ks s) = dispatcher s" "dispatcher_poisoned (fold unregister ks s) = dispatcher_poisoned s"
  by (induction ks arbitrary: s) (simp_all add: unregister_def)

lemma unregister_disks_fold: "unregister_disks ds = fold unregister (map dw_slot_idx ds)"
  by (simp add: unregister_disks_def fold_map comp_def)

lemma unregister_engine_slots_fold:
  "unregister_engine_slots i s = (if dispatcher_poisoned s \<or> \<not> dispatcher s then s
     else on_world (unregister_uart i) (fold unregister (map (engine_slot i) [0..<8]) s))"
  by (simp add: unregister_engine_slots_def DEVS_PER_L2CPU_def fold_map comp_def del: upt_Suc)

lemma inv_remove_disks:
  assumes inv: "daemon_inv s" and sl: "l2cpus s i = Some sl" "\<not> slot_poisoned s i"
  shows "daemon_inv (unregister_disks (filter (\<lambda>d. \<not> P d) (sl_disks sl)) (put_slot i (Some (sl\<lparr>sl_disks := filter P (sl_disks sl)\<rparr>)) s))"
    "daemon_inv (put_slot i (Some (sl\<lparr>sl_disks := filter P (sl_disks sl)\<rparr>)) s)"
proof -
  let ?sl = "sl\<lparr>sl_disks := filter P (sl_disks sl)\<rparr>"
  note ok = inv_slot [OF inv sl]
  have ok': "disks_ok i ?sl" "blk_dtb_ok ?sl" using ok by (simp_all add: disks_ok_filter blk_dtb_ok_def)
  show put: "daemon_inv (put_slot i (Some ?sl) s)"
    using ok' by (intro inv_shrink [OF inv sl]) (auto simp: attached_def)
  have "dw_slot_idx d \<notin> attached j slj"
    if d: "d \<in> set (sl_disks sl)" "\<not> P d" and j: "l2cpus (put_slot i (Some ?sl) s) j = Some slj" "\<not> slot_poisoned s j" for d j slj
  proof -
    obtain dev_idx where dev: "dw_slot_idx d = engine_slot i dev_idx" "dev_idx \<in> {DEV_BLK, DEV_BLK1, DEV_BLK2}"
      by (rule disk_dev [OF ok(2,3) d(1)])
    show ?thesis
    proof (cases "j = i")
      case True
      have "dw_slot_idx d \<notin> dw_slot_idx ` set (filter P (sl_disks sl))"
        using ok(2) d by (auto simp: disks_ok_def distinct_map inj_on_def)
      then show ?thesis using True j(1) dev blk_bound [OF dev(2)] by (auto simp: attached_def engine_slot_inj dev_defs)
    next
      case False
      then show ?thesis using j not_attached_elsewhere [OF put _ _ blk_bound [OF dev(2)] False] dev(1) by simp
    qed
  qed
  then show "daemon_inv (unregister_disks (filter (\<lambda>d. \<not> P d) (sl_disks sl)) (put_slot i (Some ?sl) s))"
    unfolding unregister_disks_fold by (intro inv_unregister_list put) auto
qed

lemma keeps_remove_disk: "daemon_inv s \<Longrightarrow> keeps_inv (dispatch_remove_disk idx name) s"
  unfolding dispatch_remove_disk_def
proof (intro keeps_validate keeps_with_booted, goal_cases)
  case (3 sl)
  note inv = 3(1) and sl = 3(4,3)
  have "wp (taken_disks (unat idx) name (sl_disks sl)) Q (\<lambda>_. daemon_inv) s"
    if "\<And>P. Q (filter (\<lambda>d. \<not> P d) (sl_disks sl), filter P (sl_disks sl)) s" for Q
    using taken_disks_cases by (rule wp_mono) (use that inv in auto)
  then show ?case unfolding keeps_inv_def validate_remove_disk_request_def wp_simps
    using inv inv_remove_disks [OF inv sl] by auto
qed

section \<open>Stopping\<close>

lemma inv_unregister_uart: "daemon_inv s \<Longrightarrow> daemon_inv (on_world (unregister_uart i) s)"
  using registry_ok_step(4) by (simp add: daemon_inv_def slots_ok_def slot_served_def serves_def)

lemma inv_unregister_engine_slots:
  assumes "daemon_inv s" "l2cpus s i = None"
  shows "daemon_inv (unregister_engine_slots i s)"
proof -
  have "k \<notin> attached j sl" if "k \<in> set (map (engine_slot i) [0..<8])" "l2cpus s j = Some sl" "\<not> slot_poisoned s j" for k j sl
    using that assms(2) not_attached_elsewhere [OF assms(1) that(2,3)] by (cases "j = i") auto
  then have "daemon_inv (fold unregister (map (engine_slot i) [0..<8]) s)" by (intro inv_unregister_list assms) auto
  then show ?thesis unfolding unregister_engine_slots_fold using assms(1) by (auto intro!: inv_unregister_uart simp del: upt_Suc)
qed

lemma disconnect_fields [simp]:
  "l2cpus (disconnect i m s) = l2cpus s" "slot_poisoned (disconnect i m s) = slot_poisoned s"
  "dispatcher (disconnect i m s) = dispatcher s" "dispatcher_poisoned (disconnect i m s) = dispatcher_poisoned s"
  by (simp_all add: disconnect_def on_hub_def)

lemma keeps_internal_stop: "daemon_inv s \<Longrightarrow> keeps_inv (internal_stop idx reason) s"
  unfolding internal_stop_def
proof (intro keeps_validate, goal_cases)
  case 2
  let ?i = "unat idx"
  have "daemon_inv (disconnect ?i m (put_slot ?i None s))" for m
    unfolding disconnect_def by (intro inv_hub inv_put_None 2(1))
  then have "daemon_inv (maybe_idle_pll (slot_shutdown ?i (unregister_engine_slots ?i (save_tail ?i (disconnect ?i m (put_slot ?i None s))))))" for m
    unfolding slot_shutdown_def
    by (intro inv_maybe_idle_pll) (simp add: inv_unregister_engine_slots save_tail_def)
  then show ?case unfolding keeps_inv_def wp_simps using 2(1) by (auto simp: inv_put_None split: option.splits)
qed

lemma keeps_stop: "daemon_inv s \<Longrightarrow> keeps_inv (dispatch_stop idx) s"
  using keeps_internal_stop [of s idx "''client-requested''"] unfolding dispatch_stop_def keeps_inv_def wp_simps
  by (auto elim!: wp_mono)

end
