(* ===== verification/Image_Load.thy ===== *)
theory Image_Load
  imports Daemon
begin

text \<open>
  Loading a guest into a core's memory (\<open>src/src/boot.rs\<close>): files padded to words, the copy through
  transient windows of two megabytes, the reset vectors and the prefetchers.
\<close>

section \<open>Registers and places\<close>

definition CONTROL_BASE :: u64 where "CONTROL_BASE = 0xfffff7fefff10000"
definition L3_CTRL_BASE :: u64 where "L3_CTRL_BASE = 0x02010000"
definition L3_ENABLE_OFFSET :: u64 where "L3_ENABLE_OFFSET = 8"
definition L3_ENABLE_VALUE :: u32 where "L3_ENABLE_VALUE = 0x0f"
definition L2_PREFETCH_BASE :: u64 where "L2_PREFETCH_BASE = 0x02030000"
definition L2_PREFETCH_STRIDE :: u64 where "L2_PREFETCH_STRIDE = 0x2000"
definition L2_PREFETCH_NUM :: nat where "L2_PREFETCH_NUM = 4"
definition L2_PREFETCH_CFG_LO :: u32 where "L2_PREFETCH_CFG_LO = 0x00015811"
definition L2_PREFETCH_CFG_HI :: u32 where "L2_PREFETCH_CFG_HI = 0x0038c84e"

definition OPENSBI_OFFSET :: u64 where "OPENSBI_OFFSET = 0x0"
definition DTB_OFFSET :: u64 where "DTB_OFFSET = 0x100000"
definition KERNEL_OFFSET :: u64 where "KERNEL_OFFSET = 0x200000"
definition INITRAMFS_OFFSET :: u64 where "INITRAMFS_OFFSET = 0xb5000000"

lemmas core_reg_defs = CONTROL_BASE_def L3_CTRL_BASE_def L3_ENABLE_OFFSET_def L3_ENABLE_VALUE_def L2_PREFETCH_BASE_def
  L2_PREFETCH_STRIDE_def L2_PREFETCH_NUM_def L2_PREFETCH_CFG_LO_def L2_PREFETCH_CFG_HI_def

lemmas boot_image_defs = OPENSBI_OFFSET_def DTB_OFFSET_def KERNEL_OFFSET_def INITRAMFS_OFFSET_def

section \<open>Files and bulk writes\<close>

definition pad4 :: "u8 list \<Rightarrow> u8 list" where
  "pad4 bs = (let padding = length bs mod 4 in if padding \<noteq> 0 then bs @ replicate (4 - padding) 0 else bs)"

type_synonym 'a chip_io = "(daemon, failure, 'a) act"

definition read_bin_file :: "env \<Rightarrow> string \<Rightarrow> u8 list chip_io" where
  "read_bin_file E path =
     seq (ask (\<lambda>s. e_read_file E s path)) (\<lambda>r.
     case r of Inl e \<Rightarrow> fail (Err e) | Inr data \<Rightarrow> ret (pad4 data))"

definition window_base :: "u64 \<Rightarrow> u64" where
  "window_base addr = addr AND NOT (TWO_MEG - 1)"

definition remaining_in_window :: "u64 \<Rightarrow> nat" where
  "remaining_in_window addr = unat (TWO_MEG - (addr - window_base addr))"

lemma remaining_in_window_pos: "remaining_in_window addr > 0"
proof -
  have split: "window_base addr + (addr AND (TWO_MEG - 1)) = addr" "addr AND (TWO_MEG - 1) < TWO_MEG"
    unfolding window_base_def by (rule window_split, simp)+
  have "addr - window_base addr = addr AND (TWO_MEG - 1)" by (subst split(1) [symmetric]) simp
  with split(2) show ?thesis by (simp add: remaining_in_window_def word_less_nat_alt unat_sub_if')
qed

function l2cpu_noc_write_bulk :: "env \<Rightarrow> nat \<Rightarrow> u64 \<Rightarrow> u8 list \<Rightarrow> unit chip_io" where
  "l2cpu_noc_write_bulk E i addr data =
     (if data = [] then ret ()
      else
        let chunk = min (remaining_in_window addr) (length data)
        in thn (open_window E i (window_base addr))
           (thn (upd (put_core_bytes i addr (take chunk data)))
           (l2cpu_noc_write_bulk E i (addr + word_of_nat chunk) (drop chunk data))))"
  by pat_completeness auto
termination
  by (relation "measure (\<lambda>(E, i, addr, data). length data)") (auto simp: remaining_in_window_pos)

declare l2cpu_noc_write_bulk.simps [simp del]

section \<open>The boot sequence of a core\<close>

definition write_words :: "env \<Rightarrow> nat \<Rightarrow> (u64 \<times> u32) list \<Rightarrow> unit chip_io" where
  "write_words E i = each (\<lambda>(a, v). l2_write32 E i a v)"

definition reset_vectors :: "u64 \<Rightarrow> (u64 \<times> u32) list" where
  "reset_vectors opensbi_addr =
     concat (map (\<lambda>core. [(CONTROL_BASE + core * 8, ucast (opensbi_addr AND 0xffffffff)),
       (CONTROL_BASE + core * 8 + 4, ucast (drop_bit 32 opensbi_addr))]) [0, 1, 2, 3])"

definition load_file :: "env \<Rightarrow> nat \<Rightarrow> string \<Rightarrow> u64 \<Rightarrow> unit chip_io" where
  "load_file E i path addr = seq (read_bin_file E path) (l2cpu_noc_write_bulk E i addr)"

definition boot_l2cpu ::
  "env \<Rightarrow> nat \<Rightarrow> string \<Rightarrow> u64 \<Rightarrow> string option \<Rightarrow> u64 \<Rightarrow> u8 list \<Rightarrow> u64 \<Rightarrow> string option \<Rightarrow> u64 \<Rightarrow> unit chip_io" where
  "boot_l2cpu E i opensbi_path opensbi_addr kernel_path kernel_addr dtb_bytes dtb_addr rootfs_path rootfs_addr =
     (if i \<ge> 4 then fail (Panic (''boot_l2cpu: l2cpu_idx '' @ dec i @ '' out of range (have 4 tiles)''))
      else
        thn (l2_write32 E i (L3_CTRL_BASE + L3_ENABLE_OFFSET) L3_ENABLE_VALUE)
        (thn (l2_read32 E i (L3_CTRL_BASE + L3_ENABLE_OFFSET))
        (thn (load_file E i opensbi_path opensbi_addr)
        (thn (case kernel_path of None \<Rightarrow> ret () | Some p \<Rightarrow> load_file E i p kernel_addr)
        (thn (l2cpu_noc_write_bulk E i dtb_addr (pad4 dtb_bytes))
        (thn (case rootfs_path of None \<Rightarrow> ret () | Some p \<Rightarrow> load_file E i p rootfs_addr)
        (write_words E i (reset_vectors opensbi_addr))))))))"

definition prefetch_words :: "(u64 \<times> u32) list" where
  "prefetch_words =
     concat (map (\<lambda>k. let base = L2_PREFETCH_BASE + word_of_nat k * L2_PREFETCH_STRIDE
       in [(base, L2_PREFETCH_CFG_LO), (base + 4, L2_PREFETCH_CFG_HI)]) [0..<L2_PREFETCH_NUM])"

definition configure_prefetchers :: "env \<Rightarrow> nat \<Rightarrow> unit chip_io" where
  "configure_prefetchers E i =
     (if i \<ge> 4 then fail (Panic (''configure_prefetchers: l2cpu_idx '' @ dec i @ '' out of range (have 4 tiles)''))
      else write_words E i prefetch_words)"

section \<open>The copy is one store\<close>

text \<open>The windows of a core open; the allocation lock is not poisoned.\<close>

definition windows_open :: "env \<Rightarrow> nat \<Rightarrow> bool" where
  "windows_open E i \<longleftrightarrow> (\<forall>s a. e_window E s i a = None)"

lemma put_core_bytes_append:
  "put_core_bytes i a (xs @ ys) s = put_core_bytes i (a + word_of_nat (length xs)) ys (put_core_bytes i a xs s)"
  by (induction xs arbitrary: a s) (simp_all add: algebra_simps)

lemma put_core_byte_fields [simp]:
  "alloc_poisoned (put_core_byte i a b s) = alloc_poisoned s" "os_calls (put_core_byte i a b s) = os_calls s"
  "put_core_byte i a b (s\<lparr>os_calls := n\<rparr>) = (put_core_byte i a b s)\<lparr>os_calls := n\<rparr>"
  by (simp_all add: put_core_byte_def on_world_def Let_def)

lemma put_core_bytes_fields [simp]:
  "alloc_poisoned (put_core_bytes i a bs s) = alloc_poisoned s"
  "put_core_bytes i a bs (s\<lparr>os_calls := n\<rparr>) = (put_core_bytes i a bs s)\<lparr>os_calls := n\<rparr>"
  by (induction bs arbitrary: a s) simp_all

lemma ask_step: "seq (ask f) k s = k (f s) (s\<lparr>os_calls := Suc (os_calls s)\<rparr>)"
  by (simp add: seq_def ask_def)

lemma open_window_run:
  assumes "windows_open E i" "\<not> alloc_poisoned s i"
  shows "open_window E i a s = (Inr (), s\<lparr>os_calls := Suc (os_calls s)\<rparr>)"
  using assms by (simp add: open_window_def windows_open_def ask_step)

text \<open>The operation succeeds, whatever the operating system has been asked before.\<close>

definition runs :: "(daemon, 'e, 'a) act \<Rightarrow> daemon \<Rightarrow> 'a \<Rightarrow> daemon \<Rightarrow> bool" where
  "runs m s a s' \<longleftrightarrow> (\<forall>n. \<exists>n'. m (s\<lparr>os_calls := n\<rparr>) = (Inr a, s'\<lparr>os_calls := n'\<rparr>))"

lemma runs_seq: "runs m s a s1 \<Longrightarrow> runs (f a) s1 b s2 \<Longrightarrow> runs (seq m f) s b s2"
  unfolding runs_def by (metis seq_run(1))

lemma runs_thn: "runs m s a s1 \<Longrightarrow> runs k s1 b s2 \<Longrightarrow> runs (thn m k) s b s2"
  unfolding runs_def by (metis seq_run(3))

lemma runs_ret: "runs (ret a) s a s"
  by (auto simp: runs_def)

lemma runs_window: "windows_open E i \<Longrightarrow> \<not> alloc_poisoned s i \<Longrightarrow> runs (open_window E i a) s () s"
  by (auto simp: runs_def open_window_run)

lemma runs_upd: "(\<And>n. h (s\<lparr>os_calls := n\<rparr>) = (h s)\<lparr>os_calls := n\<rparr>) \<Longrightarrow> runs (upd h) s () (h s)"
  by (auto simp: runs_def)

lemma runs_asks: "(\<And>n. g (s\<lparr>os_calls := n\<rparr>) = g s) \<Longrightarrow> runs (asks g) s (g s) s"
  by (auto simp: runs_def)

lemma runs_put_core_bytes: "runs (upd (put_core_bytes i a bs)) s () (put_core_bytes i a bs s)"
  by (auto simp: runs_def)

lemma runs_bulk:
  assumes "windows_open E i" "\<not> alloc_poisoned s i"
  shows "runs (l2cpu_noc_write_bulk E i a data) s () (put_core_bytes i a data s)"
  using assms(2)
proof (induction "length data" arbitrary: a data s rule: less_induct)
  case less
  show ?case
  proof (cases "data = []")
    case True
    then show ?thesis by (simp add: l2cpu_noc_write_bulk.simps runs_ret)
  next
    case False
    define chunk where "chunk = min (remaining_in_window a) (length data)"
    have chunk: "chunk > 0" "chunk \<le> length data" using False remaining_in_window_pos by (auto simp: chunk_def)
    then have "length (drop chunk data) < length data" by simp
    then have "runs (l2cpu_noc_write_bulk E i (a + word_of_nat chunk) (drop chunk data)) (put_core_bytes i a (take chunk data) s) ()
        (put_core_bytes i (a + word_of_nat chunk) (drop chunk data) (put_core_bytes i a (take chunk data) s))"
      using less.prems by (intro less.hyps) simp_all
    then have "runs (l2cpu_noc_write_bulk E i (a + word_of_nat chunk) (drop chunk data)) (put_core_bytes i a (take chunk data) s) () (put_core_bytes i a data s)"
      using put_core_bytes_append [of i a "take chunk data" "drop chunk data" s] chunk by simp
    then have "runs (thn (open_window E i (window_base a)) (thn (upd (put_core_bytes i a (take chunk data)))
        (l2cpu_noc_write_bulk E i (a + word_of_nat chunk) (drop chunk data)))) s () (put_core_bytes i a data s)"
      by (rule runs_thn [OF runs_window [OF assms(1) less.prems] runs_thn [OF runs_put_core_bytes]])
    then show ?thesis using False by (subst l2cpu_noc_write_bulk.simps) (simp add: Let_def chunk_def)
  qed
qed

section \<open>Words and bytes of the memory\<close>

definition core_dram :: "daemon \<Rightarrow> nat \<Rightarrow> guest_mem" where
  "core_dram s i = dram (world s) i"

definition at_dram :: "nat \<Rightarrow> nat \<Rightarrow> u64" where
  "at_dram i off = L2CPU_STARTING_ADDRESS i + word_of_nat off"

definition set_dram :: "nat \<Rightarrow> guest_mem \<Rightarrow> daemon \<Rightarrow> daemon" where
  "set_dram i m = on_world (\<lambda>w. w\<lparr>dram := (dram w)(i := m)\<rparr>)"

lemma memory_size_bound: "unat (L2CPU_MEMORY_SIZE i) \<le> 2 ^ 32"
  by (simp add: L2CPU_MEMORY_SIZE_def)

lemma os_calls_dram [simp]:
  "core_dram (s\<lparr>os_calls := n\<rparr>) i = core_dram s i" "core_word (s\<lparr>os_calls := n\<rparr>) i a = core_word s i a"
  by (simp_all add: core_dram_def core_word_def)

lemma at_dram:
  assumes "off < unat (L2CPU_MEMORY_SIZE i)"
  shows "in_dram i (at_dram i off)" "dram_off i (at_dram i off) = off"
proof -
  have off: "off < 2 ^ 32" using assms memory_size_bound [of i] by simp
  then have u: "unat (word_of_nat off :: u64) = off" by (simp add: unat_of_nat)
  then show "dram_off i (at_dram i off) = off" by (simp add: dram_off_def at_dram_def)
  have "unat (L2CPU_STARTING_ADDRESS i) \<le> 0x4000b0000000" by (simp add: L2CPU_STARTING_ADDRESS_def)
  then have "L2CPU_STARTING_ADDRESS i \<le> at_dram i off" using off u by (simp add: at_dram_def word_le_nat_alt unat_word_ariths)
  then show "in_dram i (at_dram i off)" using assms u by (simp add: in_dram_def at_dram_def word_less_nat_alt)
qed

lemma at_dram_Suc: "at_dram i off + 1 = at_dram i (Suc off)"
  by (simp add: at_dram_def)

lemma gm_store_Cons: "gm_store (Suc off) bs (gm_store off [b] m) = gm_store off (b # bs) m"
proof (rule guest_mem.equality)
  show "gm_bytes (gm_store (Suc off) bs (gm_store off [b] m)) = gm_bytes (gm_store off (b # bs) m)"
    by (rule ext) (auto simp: gm_bytes_store nth_Cons' Suc_diff_le)
qed (auto simp: gm_ok_def)

lemma set_dram_set_dram [simp]: "set_dram i m (set_dram i m' s) = set_dram i m s"
  by (simp add: set_dram_def on_world_def)

lemma core_dram_set [simp]: "core_dram (set_dram i m s) j = (if j = i then m else core_dram s j)"
  by (simp add: core_dram_def set_dram_def on_world_def)

lemma put_core_bytes_dram:
  assumes "off + length bs \<le> unat (L2CPU_MEMORY_SIZE i)"
  shows "put_core_bytes i (at_dram i off) bs s = set_dram i (gm_store off bs (core_dram s i)) s"
  using assms
proof (induction bs arbitrary: off s)
  case Nil
  have "gm_store off [] m = m" for m by (rule guest_mem.equality) (auto simp: gm_bytes_store gm_ok_def fun_eq_iff)
  then show ?case by (simp add: set_dram_def core_dram_def on_world_def)
next
  case (Cons b bs)
  have "put_core_byte i (at_dram i off) b s = set_dram i (gm_store off [b] (core_dram s i)) s"
    using at_dram [of off i] Cons.prems by (simp add: put_core_byte_def set_dram_def core_dram_def on_world_def)
  then show ?case using Cons.prems Cons.IH [of "Suc off"] by (simp add: at_dram_Suc gm_store_Cons)
qed

text \<open>Regions of bytes that are stored one after the other.\<close>

definition store_regions :: "(nat \<times> u8 list) list \<Rightarrow> guest_mem \<Rightarrow> guest_mem" where
  "store_regions rs = fold (\<lambda>(off, bs). gm_store off bs) rs"

definition region_span :: "nat \<times> u8 list \<Rightarrow> nat \<times> nat" where
  "region_span r = (fst r, length (snd r))"

lemma store_regions_other:
  "\<forall>r\<in>set rs. disj2 (region_span r) (off, n) \<Longrightarrow> gm_load (store_regions rs m) off n = gm_load m off n"
  unfolding store_regions_def
  by (induction rs arbitrary: m) (auto simp: region_span_def disj2_def gm_load_store_disjoint)

lemma store_regions_loads:
  assumes "apart (map region_span rs)" "(off, bs) \<in> set rs"
  shows "gm_load (store_regions rs m) off (length bs) = bs"
  using assms
proof (induction rs arbitrary: m)
  case (Cons r rs)
  show ?case
  proof (cases "(off, bs) \<in> set rs")
    case True
    then show ?thesis using Cons.IH [OF _ True] Cons.prems(1) by (simp add: store_regions_def split: prod.split)
  next
    case False
    then have r: "r = (off, bs)" using Cons.prems by auto
    have "gm_load (store_regions rs (gm_store off bs m)) off (length bs) = gm_load (gm_store off bs m) off (length bs)"
      using Cons.prems(1) r by (intro store_regions_other) (auto simp: region_span_def disj2_def)
    then show ?thesis using r by (simp add: store_regions_def gm_load_store_same)
  qed
qed simp

lemma store_regions_fault:
  assumes "\<forall>(off, bs)\<in>set rs. off + length bs \<le> gm_size m"
  shows "gm_fault (store_regions rs m) = gm_fault m \<and> gm_size (store_regions rs m) = gm_size m"
  using assms unfolding store_regions_def by (induction rs arbitrary: m) (auto simp: gm_ok_def)

section \<open>A loaded guest\<close>

lemma runs_write32:
  assumes "windows_open E i" "\<not> alloc_poisoned s i" "a mod 4 = 0"
  shows "runs (l2_write32 E i a v) s () (put_core_word i a v s)"
  unfolding l2_write32_def tile_access_def using assms(3)
  by (simp, intro runs_thn [OF runs_window [OF assms(1,2)]] runs_upd) (simp add: put_core_word_def on_world_def)

lemma runs_read32:
  assumes "windows_open E i" "\<not> alloc_poisoned s i" "a mod 4 = 0"
  shows "runs (l2_read32 E i a) s (core_word s i a) s"
  unfolding l2_read32_def tile_access_def using assms(3)
  by (simp, intro runs_thn [OF runs_window [OF assms(1,2)]] runs_asks) (simp add: core_word_def)

lemma put_core_word_poisoned [simp]: "alloc_poisoned (put_core_word i a v s) = alloc_poisoned s"
  by (simp add: put_core_word_def on_world_def)

lemma runs_write_words:
  assumes "windows_open E i" "\<not> alloc_poisoned s i" "\<forall>(a, v)\<in>set ws. a mod 4 = 0"
  shows "runs (write_words E i ws) s () (fold (\<lambda>(a, v). put_core_word i a v) ws s)"
  using assms(2,3)
proof (induction ws arbitrary: s)
  case Nil
  then show ?case by (simp add: write_words_def runs_ret del: act_simps)
next
  case (Cons w ws)
  obtain a v where w: "w = (a, v)" by (cases w)
  have "runs (l2_write32 E i a v) s () (put_core_word i a v s)" using Cons.prems w by (intro runs_write32 assms) auto
  moreover have "runs (write_words E i ws) (put_core_word i a v s) () (fold (\<lambda>(a, v). put_core_word i a v) ws (put_core_word i a v s))"
    using Cons.prems by (intro Cons.IH) auto
  ultimately show ?case unfolding write_words_def w each.simps by (auto intro: runs_thn)
qed

lemma runs_load_file:
  assumes "windows_open E i" "\<not> alloc_poisoned s i" "\<And>s. e_read_file E s path = Inr bs"
  shows "runs (load_file E i path a) s () (put_core_bytes i a (pad4 bs) s)"
proof -
  have "runs (read_bin_file E path) s (pad4 bs) s" by (auto simp: runs_def read_bin_file_def ask_step assms(3))
  then show ?thesis unfolding load_file_def using assms(1,2) by (auto intro: runs_seq runs_bulk)
qed

lemma not_in_dram_regs:
  "\<not> in_dram i (L3_CTRL_BASE + L3_ENABLE_OFFSET)" "\<forall>(a, v)\<in>set (reset_vectors x). \<not> in_dram i a \<and> a mod 4 = 0"
  by (simp_all add: in_dram_def L2CPU_STARTING_ADDRESS_def L2CPU_MEMORY_SIZE_def core_reg_defs reset_vectors_def)

lemma put_words_regs:
  assumes "\<forall>(a, v)\<in>set ws. \<not> in_dram i a"
  shows "fold (\<lambda>(a, v). put_core_word i a v) ws s = s\<lparr>core_regs := (core_regs s)(i := fold (\<lambda>(a, v) r. r(a := v)) ws (core_regs s i))\<rparr>"
  using assms by (induction ws arbitrary: s) (auto simp: put_core_word_def)

text \<open>The pieces of a guest, by their place in the memory.\<close>

definition image_regions :: "u8 list \<Rightarrow> u8 list \<Rightarrow> u8 list \<Rightarrow> u8 list option \<Rightarrow> (nat \<times> u8 list) list" where
  "image_regions opensbi kern dtb rootfs =
     [(unat OPENSBI_OFFSET, pad4 opensbi), (unat KERNEL_OFFSET, pad4 kern), (unat DTB_OFFSET, pad4 dtb)] @
     (case rootfs of None \<Rightarrow> [] | Some r \<Rightarrow> [(unat INITRAMFS_OFFSET, pad4 r)])"

lemma at_offset: "L2CPU_STARTING_ADDRESS i + x = at_dram i (unat x)"
  by (simp add: at_dram_def)

lemma put_regions:
  assumes "\<forall>(off, bs)\<in>set rs. off + length bs \<le> unat (L2CPU_MEMORY_SIZE i)"
  shows "fold (\<lambda>(off, bs). put_core_bytes i (at_dram i off) bs) rs s = set_dram i (store_regions rs (core_dram s i)) s"
  using assms
proof (induction rs arbitrary: s)
  case Nil
  then show ?case by (simp add: store_regions_def set_dram_def core_dram_def on_world_def)
next
  case (Cons r rs)
  then show ?case by (auto simp: put_core_bytes_dram store_regions_def split: prod.splits)
qed

lemma runs_boot_l2cpu:
  assumes E: "windows_open E i" "\<not> alloc_poisoned s i" "i < 4"
    and files: "\<And>s. e_read_file E s opensbi_path = Inr opensbi" "\<And>s. e_read_file E s kernel_path = Inr kern"
      "\<And>s p. rootfs_path = Some p \<Longrightarrow> e_read_file E s p = Inr (the rootfs)" "rootfs = None \<longleftrightarrow> rootfs_path = None"
    and fits: "\<forall>(off, bs)\<in>set (image_regions opensbi kern dtb rootfs). off + length bs \<le> unat (L2CPU_MEMORY_SIZE i)"
  defines "base \<equiv> L2CPU_STARTING_ADDRESS i"
  defines "s1 \<equiv> put_core_word i (L3_CTRL_BASE + L3_ENABLE_OFFSET) L3_ENABLE_VALUE s"
  shows "runs (boot_l2cpu E i opensbi_path (base + OPENSBI_OFFSET) (Some kernel_path) (base + KERNEL_OFFSET) dtb (base + DTB_OFFSET) rootfs_path (base + INITRAMFS_OFFSET))
    s () (fold (\<lambda>(a, v). put_core_word i a v) (reset_vectors (base + OPENSBI_OFFSET))
      (set_dram i (store_regions (image_regions opensbi kern dtb rootfs) (core_dram s1 i)) s1))"
proof -
  let ?put = "\<lambda>x bs. put_core_bytes i (base + x) (pad4 bs)"
  define s2 where "s2 = ?put DTB_OFFSET dtb (?put KERNEL_OFFSET kern (?put OPENSBI_OFFSET opensbi s1))"
  define s3 where "s3 = (case rootfs of None \<Rightarrow> s2 | Some r \<Rightarrow> ?put INITRAMFS_OFFSET r s2)"
  have clean: "\<not> alloc_poisoned s1 i" "\<not> alloc_poisoned s2 i" "\<not> alloc_poisoned s3 i"
    using E by (simp_all add: s1_def s2_def s3_def split: option.split)
  have "s3 = fold (\<lambda>(off, bs). put_core_bytes i (at_dram i off) bs) (image_regions opensbi kern dtb rootfs) s1"
    unfolding s3_def s2_def base_def by (simp add: image_regions_def at_offset split: option.split)
  then have s3: "s3 = set_dram i (store_regions (image_regions opensbi kern dtb rootfs) (core_dram s1 i)) s1"
    using put_regions [OF fits] by simp
  have root: "runs (case rootfs_path of None \<Rightarrow> ret () | Some p \<Rightarrow> load_file E i p (base + INITRAMFS_OFFSET)) s2 () s3"
    using files(3,4) clean E(1) by (auto simp: s3_def simp del: act_simps split: option.split intro: runs_ret runs_load_file)
  have l3: "runs (l2_write32 E i (L3_CTRL_BASE + L3_ENABLE_OFFSET) L3_ENABLE_VALUE) s () s1"
    "runs (l2_read32 E i (L3_CTRL_BASE + L3_ENABLE_OFFSET)) s1 (core_word s1 i (L3_CTRL_BASE + L3_ENABLE_OFFSET)) s1"
    unfolding s1_def by (intro runs_write32 runs_read32 E; simp add: core_reg_defs E(2))+
  have pieces: "runs (load_file E i opensbi_path (base + OPENSBI_OFFSET)) s1 () (?put OPENSBI_OFFSET opensbi s1)"
    "runs (load_file E i kernel_path (base + KERNEL_OFFSET)) (?put OPENSBI_OFFSET opensbi s1) () (?put KERNEL_OFFSET kern (?put OPENSBI_OFFSET opensbi s1))"
    "runs (l2cpu_noc_write_bulk E i (base + DTB_OFFSET) (pad4 dtb)) (?put KERNEL_OFFSET kern (?put OPENSBI_OFFSET opensbi s1)) () s2"
    unfolding s2_def using clean(1) E(1) files(1,2) by (simp_all add: runs_load_file runs_bulk)
  have vectors: "runs (write_words E i (reset_vectors (base + OPENSBI_OFFSET))) s3 () (fold (\<lambda>(a, v). put_core_word i a v) (reset_vectors (base + OPENSBI_OFFSET)) s3)"
    using clean(3) not_in_dram_regs(2) [of "base + OPENSBI_OFFSET" i] by (intro runs_write_words E) auto
  note all = runs_thn [OF l3(1) runs_thn [OF l3(2) runs_thn [OF pieces(1) runs_thn [OF pieces(2) runs_thn [OF pieces(3) runs_thn [OF root vectors]]]]]]
  show ?thesis using all E(3) unfolding boot_l2cpu_def s3 [symmetric] by (simp del: act_simps)
qed

text \<open>
  C14. Loading a guest: when the files are readable, the windows open and the pieces fit without overlap, the
  sequence succeeds. Each piece lies at its place, padded to whole words, the rest of the memory and the
  other cores' memory are as before, no byte outside the mapping is touched, and the four reset vectors
  name the firmware's first instruction.
\<close>

theorem guest_image_loaded:
  assumes "windows_open E i" "\<not> alloc_poisoned s i" "i < 4" "gm_size (core_dram s i) = L2CPU_MAPPED i"
    and "\<And>s. e_read_file E s opensbi_path = Inr opensbi" "\<And>s. e_read_file E s kernel_path = Inr kern"
      "\<And>s p. rootfs_path = Some p \<Longrightarrow> e_read_file E s p = Inr (the rootfs)" "rootfs = None \<longleftrightarrow> rootfs_path = None"
    and "apart (map region_span (image_regions opensbi kern dtb rootfs))"
      "\<forall>(off, bs)\<in>set (image_regions opensbi kern dtb rootfs). off + length bs \<le> unat (L2CPU_MEMORY_SIZE i)"
  shows "\<exists>s'. boot_l2cpu E i opensbi_path (L2CPU_STARTING_ADDRESS i + OPENSBI_OFFSET) (Some kernel_path) (L2CPU_STARTING_ADDRESS i + KERNEL_OFFSET)
        dtb (L2CPU_STARTING_ADDRESS i + DTB_OFFSET) rootfs_path (L2CPU_STARTING_ADDRESS i + INITRAMFS_OFFSET) s = (Inr (), s') \<and>
      (\<forall>(off, bs)\<in>set (image_regions opensbi kern dtb rootfs). gm_load (core_dram s' i) off (length bs) = bs) \<and>
      (\<forall>off n. (\<forall>r\<in>set (image_regions opensbi kern dtb rootfs). disj2 (region_span r) (off, n)) \<longrightarrow>
        gm_load (core_dram s' i) off n = gm_load (core_dram s i) off n) \<and>
      gm_fault (core_dram s' i) = gm_fault (core_dram s i) \<and> (\<forall>j. j \<noteq> i \<longrightarrow> core_dram s' j = core_dram s j) \<and>
      (\<forall>core < 4. core_word s' i (CONTROL_BASE + word_of_nat core * 8) = ucast (L2CPU_STARTING_ADDRESS i) \<and>
        core_word s' i (CONTROL_BASE + word_of_nat core * 8 + 4) = ucast (drop_bit 32 (L2CPU_STARTING_ADDRESS i)))"
proof -
  let ?rs = "image_regions opensbi kern dtb rootfs"
  let ?s1 = "put_core_word i (L3_CTRL_BASE + L3_ENABLE_OFFSET) L3_ENABLE_VALUE s"
  have dram: "core_dram ?s1 j = core_dram s j" for j
    using not_in_dram_regs(1) [of i] by (simp add: core_dram_def put_core_word_def)
  have mapped: "unat (L2CPU_MEMORY_SIZE i) \<le> L2CPU_MAPPED i"
    using assms(3) by (simp add: L2CPU_MEMORY_SIZE_def L2CPU_MAPPED_def L2CPU_STARTING_ADDRESS_def)
  have "\<forall>(off, bs)\<in>set ?rs. off + length bs \<le> gm_size (core_dram s i)" using assms(4,10) mapped by fastforce
  then have fault: "gm_fault (store_regions ?rs (core_dram s i)) = gm_fault (core_dram s i)" using store_regions_fault by simp
  define s' where "s' = fold (\<lambda>(a, v). put_core_word i a v) (reset_vectors (L2CPU_STARTING_ADDRESS i + OPENSBI_OFFSET))
      (set_dram i (store_regions ?rs (core_dram ?s1 i)) ?s1)"
  have vec: "\<forall>(a, v)\<in>set (reset_vectors x). \<not> in_dram i a" for x using not_in_dram_regs(2) by fastforce
  have s'_dram: "core_dram s' j = (if j = i then store_regions ?rs (core_dram s i) else core_dram s j)" for j
    unfolding s'_def put_words_regs [OF vec] dram by (simp add: core_dram_def set_dram_def on_world_def) (simp add: dram [unfolded core_dram_def])
  have regs: "core_word s' i a = fold (\<lambda>(a, v) r. r(a := v)) (reset_vectors (L2CPU_STARTING_ADDRESS i + OPENSBI_OFFSET)) (core_regs ?s1 i) a" if "\<not> in_dram i a" for a
    unfolding s'_def put_words_regs [OF vec] using that by (simp add: core_word_def set_dram_def on_world_def)
  have vectors: "core_word s' i (CONTROL_BASE + word_of_nat core * 8) = ucast (L2CPU_STARTING_ADDRESS i) \<and>
        core_word s' i (CONTROL_BASE + word_of_nat core * 8 + 4) = ucast (drop_bit 32 (L2CPU_STARTING_ADDRESS i))" if "core < 4" for core
  proof -
    have "core \<in> {0, 1, 2, 3}" using that by auto
    then show ?thesis
      by (elim insertE; simp add: regs not_in_dram_regs in_dram_def L2CPU_STARTING_ADDRESS_def L2CPU_MEMORY_SIZE_def core_reg_defs reset_vectors_def boot_image_defs)
  qed
  obtain n where "boot_l2cpu E i opensbi_path (L2CPU_STARTING_ADDRESS i + OPENSBI_OFFSET) (Some kernel_path) (L2CPU_STARTING_ADDRESS i + KERNEL_OFFSET)
        dtb (L2CPU_STARTING_ADDRESS i + DTB_OFFSET) rootfs_path (L2CPU_STARTING_ADDRESS i + INITRAMFS_OFFSET) (s\<lparr>os_calls := os_calls s\<rparr>) = (Inr (), s'\<lparr>os_calls := n\<rparr>)"
    using runs_boot_l2cpu [OF assms(1-3,5-8,10)] unfolding runs_def s'_def by blast
  then show ?thesis
    using s'_dram vectors fault store_regions_loads [OF assms(9)] store_regions_other
    by (intro exI [of _ "s'\<lparr>os_calls := n\<rparr>"]) auto
qed

text \<open>
  A daemon with no guest on a card that answers, and an operating system that grants everything: windows
  and ports open, every file holds the same bytes, and the memories are empty.
\<close>

definition demo_dram :: "nat \<Rightarrow> guest_mem" where
  "demo_dram i = \<lparr>gm_bytes = (\<lambda>_. 0), gm_size = L2CPU_MAPPED i, gm_fault = False\<rparr>"

definition demo_env :: env where
  "demo_env = \<lparr>e_window = (\<lambda>_ _ _. None), e_l2cpu_new = (\<lambda>_ _. None), e_open_rw = (\<lambda>_ _. Inr demo_disk), e_map_file = (\<lambda>_ _. None),
     e_read_file = (\<lambda>_ _. Inr [1, 2, 3, 4, 5]), e_bind = (\<lambda>_ _. None), e_slirp = (\<lambda>_ _ _. None), e_socketpair = (\<lambda>_. None),
     e_open_tile = (\<lambda>_ _ _. Inl (Dup_Fd ''no tile'')), e_firmware = [], e_build_id = 0, e_boot_polls = 0, e_ack_polls = 0,
     e_engine_text = (\<lambda>_. []), e_boot_reads = (\<lambda>_ _ _. zero_l1), e_ack_reads = (\<lambda>_ _ _ _. zero_l1), e_tile_l1 = (\<lambda>_. zero_l1),
     e_time_up = (\<lambda>_. True), e_guests = (\<lambda>_. demo_dram), e_reset_board = (\<lambda>_. None), e_reopen = (\<lambda>_. Inr demo_chip),
     e_memories = (\<lambda>_. demo_dram), e_tile_words = (\<lambda>_ _ _. 0), e_try_clone = (\<lambda>_. None), e_sends = (\<lambda>_. True),
     e_client_sock = (\<lambda>_. \<lparr>delivered = [], answers = [], shut = False\<rparr>), e_no_sender = (\<lambda>_ _. False), e_exit = (\<lambda>_ _. False), e_probe_due = (\<lambda>_ _. True),
     e_pid = 1, e_uptime = (\<lambda>_. 0)\<rparr>"

definition demo_daemon :: daemon where
  "demo_daemon = \<lparr>card_no = 0, l2cpus = (\<lambda>_. None), wedged = (\<lambda>_. False), shared_chip = Some demo_chip, tensix_engine = None,
     dispatcher = False,
     world = \<lparr>tile_l1 = zero_l1, dram = demo_dram, plic = (\<lambda>_. []), hst = demo_host, registry = [], uart_registry = [],
       dispatches_total = 0, last_dispatch_slot_queue = (0, 0), uart_consumer = (\<lambda>_. 0), last_status = []\<rparr>,
     core_regs = (\<lambda>_ _. 0), chip_reset_this_session = False, shutdown_tails = (\<lambda>_. []), shutdown_flag = False,
     console_threads = [], console_input = (\<lambda>_. []), slot_poisoned = (\<lambda>_. False), alloc_poisoned = (\<lambda>_. False),
     dispatcher_poisoned = False, engine_poisoned = False, boot_lock_poisoned = False, os_calls = 0\<rparr>"

theorem guest_image_loaded_witness:
  "\<exists>s'. boot_l2cpu demo_env 0 ''sbi'' (L2CPU_STARTING_ADDRESS 0 + OPENSBI_OFFSET) (Some ''Image'') (L2CPU_STARTING_ADDRESS 0 + KERNEL_OFFSET)
        [7] (L2CPU_STARTING_ADDRESS 0 + DTB_OFFSET) (Some ''initrd'') (L2CPU_STARTING_ADDRESS 0 + INITRAMFS_OFFSET) demo_daemon = (Inr (), s') \<and>
      gm_load (core_dram s' 0) (unat KERNEL_OFFSET) 8 = [1, 2, 3, 4, 5, 0, 0, 0] \<and> gm_load (core_dram s' 0) (unat DTB_OFFSET) 4 = [7, 0, 0, 0]"
proof -
  have pads: "replicate 3 (0 :: u8) = [0, 0, 0]" by (simp add: numeral_eq_Suc)
  have rs: "image_regions [1, 2, 3, 4, 5] [1, 2, 3, 4, 5] [7] (Some [1, 2, 3, 4, 5]) =
      [(unat OPENSBI_OFFSET, [1, 2, 3, 4, 5, 0, 0, 0]), (unat KERNEL_OFFSET, [1, 2, 3, 4, 5, 0, 0, 0]), (unat DTB_OFFSET, [7, 0, 0, 0]),
       (unat INITRAMFS_OFFSET, [1, 2, 3, 4, 5, 0, 0, 0])]"
    by (simp add: image_regions_def pad4_def pads)
  have fit: "apart (map region_span (image_regions [1, 2, 3, 4, 5] [1, 2, 3, 4, 5] [7] (Some [1, 2, 3, 4, 5])))"
    "\<forall>(off, bs)\<in>set (image_regions [1, 2, 3, 4, 5] [1, 2, 3, 4, 5] [7] (Some [1, 2, 3, 4, 5])). off + length bs \<le> unat (L2CPU_MEMORY_SIZE 0)"
    unfolding rs by (simp_all add: apart_def disj2_def region_span_def boot_image_defs L2CPU_MEMORY_SIZE_def)
  have ok: "windows_open demo_env 0" "\<not> alloc_poisoned demo_daemon 0" "gm_size (core_dram demo_daemon 0) = L2CPU_MAPPED 0"
    "e_read_file demo_env s p = Inr [1, 2, 3, 4, 5]" for s p
    by (simp_all add: windows_open_def demo_env_def demo_daemon_def core_dram_def demo_dram_def)
  note loaded = guest_image_loaded [OF ok(1,2) _ ok(3,4,4) _ _ fit, of "Some ''initrd''"]
  obtain s' where run: "boot_l2cpu demo_env 0 ''sbi'' (L2CPU_STARTING_ADDRESS 0 + OPENSBI_OFFSET) (Some ''Image'') (L2CPU_STARTING_ADDRESS 0 + KERNEL_OFFSET)
        [7] (L2CPU_STARTING_ADDRESS 0 + DTB_OFFSET) (Some ''initrd'') (L2CPU_STARTING_ADDRESS 0 + INITRAMFS_OFFSET) demo_daemon = (Inr (), s')"
    and "\<forall>(off, bs)\<in>set (image_regions [1, 2, 3, 4, 5] [1, 2, 3, 4, 5] [7] (Some [1, 2, 3, 4, 5])). gm_load (core_dram s' 0) off (length bs) = bs"
    using loaded [of "''sbi''" "''Image''"] ok(4) by auto
  then show ?thesis unfolding rs by (intro exI [of _ s']) (simp add: numeral_eq_Suc)
qed

end
