(* ===== verification/Device_Tree.thy ===== *)
theory Device_Tree
  imports Image_Load
begin

text \<open>
  The device tree that a guest is given (\<open>src/src/fdt_ffi.rs\<close>, \<open>src/src/boot.rs\<close>). libfdt works on a
  buffer of bytes and is a parameter: each of its functions maps the buffer to a return code, and to the
  buffer it leaves where it writes.
\<close>

section \<open>Bindings\<close>

record libfdt =
  fdt_open_into :: "u8 list \<Rightarrow> int \<Rightarrow> int \<times> u8 list"
  fdt_pack :: "u8 list \<Rightarrow> int \<times> u8 list"
  fdt_path_offset :: "u8 list \<Rightarrow> string \<Rightarrow> int"
  fdt_add_subnode :: "u8 list \<Rightarrow> int \<Rightarrow> string \<Rightarrow> int \<times> u8 list"
  fdt_set_name :: "u8 list \<Rightarrow> int \<Rightarrow> string \<Rightarrow> int \<times> u8 list"
  fdt_get_name :: "u8 list \<Rightarrow> int \<Rightarrow> string option"
  fdt_setprop :: "u8 list \<Rightarrow> int \<Rightarrow> string \<Rightarrow> u8 list \<Rightarrow> int \<times> u8 list"
  fdt_getprop :: "u8 list \<Rightarrow> int \<Rightarrow> string \<Rightarrow> u8 list option"
  fdt_get_phandle :: "u8 list \<Rightarrow> int \<Rightarrow> u32"
  fdt_find_max_phandle :: "u8 list \<Rightarrow> int \<times> u32"
  fdt_strerror :: "int \<Rightarrow> string option"

text \<open>The buffer has whole words of eight bytes; \<open>byte_len\<close> is the part that the caller sees.\<close>

record fdt =
  storage :: "u8 list"
  byte_len :: nat

type_synonym 'a fdt_act = "(fdt, fault, 'a) act"

definition show_int :: "int \<Rightarrow> string" where
  "show_int n = (if n < 0 then ''-'' @ dec (nat (- n)) else dec (nat n))"

definition err_str :: "libfdt \<Rightarrow> int \<Rightarrow> string" where
  "err_str L err = (case fdt_strerror L err of None \<Rightarrow> ''fdt error '' @ show_int err | Some m \<Rightarrow> m)"

definition fdt_error :: "string \<Rightarrow> string \<Rightarrow> (fdt, fault, 'a) act" where
  "fdt_error op m = fail (Fail (Fdt op m))"

definition check :: "libfdt \<Rightarrow> int \<Rightarrow> string \<Rightarrow> unit fdt_act" where
  "check L err op = (if err < 0 then fdt_error op (err_str L err) else ret ())"

text \<open>\<open>CString::new\<close>, with the position of the first NUL in the message.\<close>

definition c_string :: "string \<Rightarrow> string \<Rightarrow> unit fdt_act" where
  "c_string op s =
     (if CHR 0x00 \<in> set s
      then fdt_error op (''nul byte found in provided data at position: '' @ dec (length (takeWhile (\<lambda>c. c \<noteq> CHR 0x00) s)))
      else ret ())"

text \<open>A call that writes the buffer.\<close>

definition libcall :: "(u8 list \<Rightarrow> int \<times> u8 list) \<Rightarrow> int fdt_act" where
  "libcall f s = (Inr (fst (f (storage s))), s\<lparr>storage := snd (f (storage s))\<rparr>)"

definition open_into :: "libfdt \<Rightarrow> u8 list \<Rightarrow> nat \<Rightarrow> fault + fdt" where
  "open_into L src extra_bytes =
     (let total_len = length src + extra_bytes;
          words = (total_len + 7) div 8;
          buf = src @ replicate (8 * words - length src) 0;
          (r, out) = fdt_open_into L buf (int total_len)
      in if r < 0 then Inl (Fail (Fdt ''fdt_open_into'' (err_str L r)))
         else Inr \<lparr>storage = out, byte_len = total_len\<rparr>)"

definition path_offset :: "libfdt \<Rightarrow> string \<Rightarrow> int option fdt_act" where
  "path_offset L path =
     thn (c_string (''path_offset('' @ path @ '')'') path)
     (seq (asks (\<lambda>s. fdt_path_offset L (storage s) path)) (\<lambda>r.
      if r = -1 then ret None
      else if r < 0 then fdt_error (''path_offset('' @ path @ '')'') (err_str L r)
      else ret (Some r)))"

definition add_subnode :: "libfdt \<Rightarrow> int \<Rightarrow> string \<Rightarrow> int fdt_act" where
  "add_subnode L parent name =
     thn (c_string ''fdt_add_subnode'' name)
     (seq (libcall (\<lambda>b. fdt_add_subnode L b parent name)) (\<lambda>r.
      if r < 0 then fdt_error (''fdt_add_subnode('' @ name @ '')'') (err_str L r) else ret r))"

definition set_name :: "libfdt \<Rightarrow> int \<Rightarrow> string \<Rightarrow> unit fdt_act" where
  "set_name L node name =
     thn (c_string ''fdt_set_name'' name)
     (seq (libcall (\<lambda>b. fdt_set_name L b node name)) (\<lambda>r. check L r (''fdt_set_name('' @ name @ '')'')))"

definition get_name :: "libfdt \<Rightarrow> int \<Rightarrow> string option fdt_act" where
  "get_name L node = asks (\<lambda>s. fdt_get_name L (storage s) node)"

definition setprop :: "libfdt \<Rightarrow> int \<Rightarrow> string \<Rightarrow> u8 list \<Rightarrow> unit fdt_act" where
  "setprop L node name v =
     thn (c_string ''fdt_setprop'' name)
     (seq (libcall (\<lambda>b. fdt_setprop L b node name v)) (\<lambda>r. check L r (''fdt_setprop('' @ name @ '')'')))"

definition be_bytes :: "nat \<Rightarrow> 'a::len word \<Rightarrow> u8 list" where
  "be_bytes n w = rev (le_bytes n w)"

definition of_be_bytes :: "u8 list \<Rightarrow> 'a::len word" where
  "of_be_bytes bs = of_le_bytes (rev bs)"

definition setprop_u32 :: "libfdt \<Rightarrow> int \<Rightarrow> string \<Rightarrow> u32 \<Rightarrow> unit fdt_act" where
  "setprop_u32 L node name v = setprop L node name (be_bytes 4 v)"

definition setprop_string :: "libfdt \<Rightarrow> int \<Rightarrow> string \<Rightarrow> string \<Rightarrow> unit fdt_act" where
  "setprop_string L node name v = setprop L node name (str v @ [0])"

definition getprop :: "libfdt \<Rightarrow> fdt \<Rightarrow> int \<Rightarrow> string \<Rightarrow> u8 list option" where
  "getprop L f node name = (if CHR 0x00 \<in> set name then None else fdt_getprop L (storage f) node name)"

definition find_max_phandle :: "libfdt \<Rightarrow> u32 fdt_act" where
  "find_max_phandle L =
     seq (asks (\<lambda>s. fdt_find_max_phandle L (storage s))) (\<lambda>(r, ph). thn (check L r ''fdt_find_max_phandle'') (ret ph))"

text \<open>The size is a field of the header; a slice that does not fit is a panic.\<close>

definition pack :: "libfdt \<Rightarrow> u8 list fdt_act" where
  "pack L =
     seq (libcall (fdt_pack L)) (\<lambda>r.
     thn (check L r ''fdt_pack'')
     (seq (asks (\<lambda>s. take (byte_len s) (storage s))) (\<lambda>buf.
      let n = unat (of_be_bytes (take 4 (drop 4 buf)) :: u32)
      in if length buf < 8 \<or> length buf < n then fail (Crash ''range end index out of range for slice'')
         else ret (take n buf))))"

section \<open>What the guest is told\<close>

datatype boot_device = Vda string | Initramfs u64 u64 | Initramfs_And_Vda u64 u64 string | Uboot_Device

record virtio_mmio_node =
  vn_addr :: u64
  vn_size :: u64
  vn_irq :: u32

definition RESERVED_SIZE :: u64 where "RESERVED_SIZE = 0xC00000"
definition UART_IRQ :: u32 where "UART_IRQ = 35"
definition STATUS_OFFSET :: u64 where "STATUS_OFFSET = 0x000E0000"

definition hex64 :: "u64 \<Rightarrow> string" where
  "hex64 a = hex (unat a)"

definition console_args :: "bool \<Rightarrow> string" where
  "console_args virtio_console_attached =
     (if virtio_console_attached then ''console=hvc0 earlycon=sbi'' else ''earlycon=sbi keep_bootcon'')"

fun base_bootargs :: "string \<Rightarrow> boot_device \<Rightarrow> string" where
  "base_bootargs con (Vda device_name) = ''rw '' @ con @ '' root=/dev/'' @ device_name"
| "base_bootargs con (Initramfs addr len) = ''rw '' @ con @ '' initrd=0x'' @ hex64 addr @ '','' @ dec (unat len)"
| "base_bootargs con (Initramfs_And_Vda addr len device_name) =
     ''rw '' @ con @ '' initrd=0x'' @ hex64 addr @ '','' @ dec (unat len) @ '' root=/dev/'' @ device_name"
| "base_bootargs con Uboot_Device = con"

definition bootargs :: "boot_device \<Rightarrow> bool \<Rightarrow> string option \<Rightarrow> string" where
  "bootargs boot_dev virtio_console_attached extra_bootargs =
     (let base = base_bootargs (console_args virtio_console_attached) boot_dev
      in case extra_bootargs of
           Some extra \<Rightarrow> if extra \<noteq> [] then base @ '' '' @ extra else base
         | None \<Rightarrow> base)"

definition reg_range :: "u64 \<Rightarrow> u64 \<Rightarrow> u8 list" where
  "reg_range addr len = be_bytes 8 addr @ be_bytes 8 len"

text \<open>A node that the tree must have, and one that is created where it is missing.\<close>

definition require_node :: "libfdt \<Rightarrow> string \<Rightarrow> string \<Rightarrow> int fdt_act" where
  "require_node L path m =
     seq (path_offset L path) (\<lambda>o1. case o1 of None \<Rightarrow> fdt_error ''path_offset'' m | Some n \<Rightarrow> ret n)"

definition patch_memory :: "libfdt \<Rightarrow> u64 \<Rightarrow> u64 \<Rightarrow> unit fdt_act" where
  "patch_memory L mem_start mem_size =
     seq (require_node L ''/memory@400030000000'' ''memory@400030000000 node not found in DT'') (\<lambda>memory_node.
     thn (setprop L memory_node ''reg'' (reg_range mem_start mem_size))
     (let canonical_name = ''memory@'' @ hex64 mem_start
      in seq (get_name L memory_node) (\<lambda>nm.
         if nm \<noteq> Some canonical_name then set_name L memory_node canonical_name else ret ())))"

definition patch_chosen :: "libfdt \<Rightarrow> string \<Rightarrow> unit fdt_act" where
  "patch_chosen L args =
     seq (path_offset L ''/chosen'') (\<lambda>o1.
     seq (case o1 of Some n \<Rightarrow> ret n | None \<Rightarrow> add_subnode L 0 ''chosen'') (\<lambda>chosen.
     thn (setprop L chosen ''bootargs'' (str args @ [0]))
     (seq (add_subnode L chosen ''sbi-console'') (\<lambda>sbi_console.
      thn (setprop L sbi_console ''compatible'' (str ''riscv,sbi-debug-console'' @ [0]))
      (setprop L chosen ''stdout-path'' (str ''/chosen/sbi-console'' @ [0]))))))"

definition reserve :: "libfdt \<Rightarrow> int \<Rightarrow> string \<Rightarrow> u64 \<Rightarrow> u64 \<Rightarrow> unit fdt_act" where
  "reserve L reserved name addr len =
     seq (add_subnode L reserved name) (\<lambda>node.
     thn (setprop L node ''reg'' (reg_range addr len)) (setprop L node ''no-map'' []))"

definition patch_reserved :: "libfdt \<Rightarrow> u64 \<Rightarrow> u64 \<Rightarrow> unit fdt_act" where
  "patch_reserved L mem_start end_addr =
     seq (path_offset L ''/reserved-memory'') (\<lambda>o1.
     seq (case o1 of
            Some n \<Rightarrow> ret n
          | None \<Rightarrow>
              seq (add_subnode L 0 ''reserved-memory'') (\<lambda>r.
              thn (setprop_u32 L r ''#address-cells'' 2)
              (thn (setprop_u32 L r ''#size-cells'' 2)
              (thn (setprop L r ''ranges'' []) (ret r))))) (\<lambda>reserved.
     thn (reserve L reserved ''memory@4000afa00000'' (end_addr - RESERVED_SIZE) RESERVED_SIZE)
     (let purg_pa = mem_start + STATUS_OFFSET
      in reserve L reserved (''bhx-purgatory@'' @ hex64 purg_pa) purg_pa 0x1000)))"

definition plic_handle :: "libfdt \<Rightarrow> int \<Rightarrow> u32 fdt_act" where
  "plic_handle L plic_node =
     seq (asks (\<lambda>s. fdt_get_phandle L (storage s) plic_node)) (\<lambda>ph.
     if ph = 0 then
       seq (find_max_phandle L) (\<lambda>top.
       let ph' = top + 1 in thn (setprop_u32 L plic_node ''phandle'' ph') (ret ph'))
     else ret ph)"

definition add_virtio_node :: "libfdt \<Rightarrow> int \<Rightarrow> u32 \<Rightarrow> virtio_mmio_node \<Rightarrow> unit fdt_act" where
  "add_virtio_node L soc plic_phandle spec =
     seq (add_subnode L soc (''virtio@'' @ hex64 (vn_addr spec))) (\<lambda>node.
     thn (setprop_string L node ''compatible'' ''virtio,mmio'')
     (thn (setprop L node ''reg'' (reg_range (vn_addr spec) (vn_size spec)))
     (thn (setprop_u32 L node ''interrupts'' (vn_irq spec))
     (setprop_u32 L node ''interrupt-parent'' plic_phandle))))"

definition add_uart_node :: "libfdt \<Rightarrow> int \<Rightarrow> u32 \<Rightarrow> u64 \<Rightarrow> unit fdt_act" where
  "add_uart_node L soc plic_phandle addr =
     seq (add_subnode L soc (''serial@'' @ hex64 addr)) (\<lambda>node.
     thn (setprop_string L node ''compatible'' ''ns16550a'')
     (thn (setprop L node ''reg'' (reg_range addr 0x1000))
     (thn (setprop_u32 L node ''reg-shift'' 2)
     (thn (setprop_u32 L node ''reg-io-width'' 4)
     (thn (setprop_u32 L node ''clock-frequency'' 1843200)
     (thn (setprop_u32 L node ''current-speed'' 115200)
     (thn (setprop_u32 L node ''interrupts'' UART_IRQ)
     (setprop_u32 L node ''interrupt-parent'' plic_phandle))))))))"

definition patch_soc :: "libfdt \<Rightarrow> virtio_mmio_node list \<Rightarrow> u64 option \<Rightarrow> unit fdt_act" where
  "patch_soc L virtio_nodes uart_addr =
     seq (require_node L ''/soc'' ''soc node not found in DT'') (\<lambda>soc.
     seq (require_node L ''/soc/interrupt-controller@c000000'' ''plic node not found in DT'') (\<lambda>plic_node.
     seq (plic_handle L plic_node) (\<lambda>plic_phandle.
     thn (each (add_virtio_node L soc plic_phandle) virtio_nodes)
     (case uart_addr of None \<Rightarrow> ret () | Some addr \<Rightarrow> add_uart_node L soc plic_phandle addr))))"

section \<open>Checks on the result\<close>

definition missing_node :: "string \<Rightarrow> fault" where
  "missing_node path = Fail (Fdt ''verify_dtb_invariants'' (''missing '' @ path @ '' in patched DTB''))"

text \<open>\<open>map_err\<close> around a lookup: the error's text becomes the message.\<close>

fun as_fdt_error :: "string \<Rightarrow> fault \<Rightarrow> fault" where
  "as_fdt_error op (Fail e) = Fail (Fdt op (show_error e))"
| "as_fdt_error op (Crash m) = Crash m"

definition expect_node_exists :: "libfdt \<Rightarrow> string \<Rightarrow> unit fdt_act" where
  "expect_node_exists L path =
     seq (map_err (as_fdt_error path) (path_offset L path)) (\<lambda>o1.
     case o1 of None \<Rightarrow> fail (missing_node path) | Some _ \<Rightarrow> ret ())"

definition expect_node_with_reg_and_no_map :: "libfdt \<Rightarrow> string \<Rightarrow> u64 \<Rightarrow> u64 \<Rightarrow> unit fdt_act" where
  "expect_node_with_reg_and_no_map L path expected_addr expected_size =
     seq (map_err (as_fdt_error path) (path_offset L path)) (\<lambda>o1.
     case o1 of
       None \<Rightarrow> fail (missing_node path)
     | Some node \<Rightarrow>
         seq (asks (\<lambda>f. getprop L f node ''reg'')) (\<lambda>p.
         case p of
           None \<Rightarrow> fdt_error ''verify_dtb_invariants'' (path @ '' has no `reg` property'')
         | Some reg \<Rightarrow>
             if length reg \<noteq> 16 then
               fdt_error ''verify_dtb_invariants''
                 (path @ '' `reg` is '' @ dec (length reg) @ '' bytes, expected 16 (u64 addr + u64 size)'')
             else
               let addr = of_be_bytes (take 8 reg) :: u64; len = of_be_bytes (take 8 (drop 8 reg)) :: u64
               in if addr \<noteq> expected_addr \<or> len \<noteq> expected_size then
                    fdt_error ''verify_dtb_invariants''
                      (path @ '' `reg` is (0x'' @ hex64 addr @ '', 0x'' @ hex64 len @ ''), expected (0x'' @ hex64 expected_addr @
                       '', 0x'' @ hex64 expected_size @ '')'')
                  else
                    seq (asks (\<lambda>f. getprop L f node ''no-map'')) (\<lambda>nm.
                    case nm of
                      None \<Rightarrow> fdt_error ''verify_dtb_invariants'' (path @ '' missing `no-map` - kernel must not allocate over it'')
                    | Some _ \<Rightarrow> ret ())))"

definition verify_opened :: "libfdt \<Rightarrow> u64 \<Rightarrow> unit fdt_act" where
  "verify_opened L mem_start =
     (let purg_pa = mem_start + STATUS_OFFSET
      in thn (expect_node_with_reg_and_no_map L (''/reserved-memory/bhx-purgatory@'' @ hex64 purg_pa) purg_pa 0x1000)
         (thn (expect_node_exists L (''/memory@'' @ hex64 mem_start))
         (seq (map_err (as_fdt_error ''verify/chosen'') (path_offset L ''/chosen'')) (\<lambda>o1.
          case o1 of
            None \<Rightarrow> fdt_error ''verify_dtb_invariants'' ''missing /chosen node in patched DTB''
          | Some chosen \<Rightarrow>
              seq (asks (\<lambda>f. getprop L f chosen ''bootargs'')) (\<lambda>p.
              if p = None then fdt_error ''verify_dtb_invariants'' ''missing /chosen/bootargs in patched DTB'' else ret ())))))"

definition verify_dtb_invariants :: "libfdt \<Rightarrow> u8 list \<Rightarrow> u64 \<Rightarrow> fault + unit" where
  "verify_dtb_invariants L dtb mem_start =
     (case open_into L dtb 0 of
        Inl e \<Rightarrow> Inl (as_fdt_error ''verify_dtb_invariants/open'' e)
      | Inr f \<Rightarrow> fst (verify_opened L mem_start f))"

definition modify_dtb ::
  "libfdt \<Rightarrow> u8 list \<Rightarrow> boot_device \<Rightarrow> u64 \<Rightarrow> u64 \<Rightarrow> virtio_mmio_node list \<Rightarrow> u64 option \<Rightarrow> bool \<Rightarrow> string option \<Rightarrow> fault + u8 list" where
  "modify_dtb L dtb_bytes boot_dev mem_start mem_size virtio_nodes uart_addr virtio_console_attached extra_bootargs =
     (case open_into L dtb_bytes 2000 of
        Inl e \<Rightarrow> Inl e
      | Inr f \<Rightarrow>
          (case (thn (patch_memory L mem_start mem_size)
                (thn (patch_chosen L (bootargs boot_dev virtio_console_attached extra_bootargs))
                (thn (patch_reserved L mem_start (mem_start + mem_size))
                (thn (patch_soc L virtio_nodes uart_addr)
                (pack L))))) f of
             (Inl e, _) \<Rightarrow> Inl e
           | (Inr packed, _) \<Rightarrow>
               (case verify_dtb_invariants L packed mem_start of Inl e \<Rightarrow> Inl e | Inr _ \<Rightarrow> Inr packed)))"

definition add_opensbi_reservation_for_release :: "libfdt \<Rightarrow> u8 list \<Rightarrow> u64 \<Rightarrow> fault + u8 list" where
  "add_opensbi_reservation_for_release L dtb mem_start =
     (case open_into L dtb 4096 of
        Inl e \<Rightarrow> Inl (as_fdt_error ''add_opensbi_reservation/open'' e)
      | Inr f \<Rightarrow>
          fst (seq (path_offset L ''/reserved-memory'') (\<lambda>o1.
            case o1 of
              None \<Rightarrow> fdt_error ''add_opensbi_reservation_for_release'' ''missing /reserved-memory in patched DTB''
            | Some reserved \<Rightarrow>
                thn (reserve L reserved (''bhx-opensbi-firmware@'' @ hex64 mem_start) mem_start 0x60000) (pack L)) f))"

section \<open>No guest without its reservations\<close>

lemma c_string_ok: "CHR 0x00 \<notin> set s \<Longrightarrow> c_string op s = ret ()"
  by (simp add: c_string_def)

lemma path_offset_Some:
  "path_offset L path f = (Inr (Some n), f') \<Longrightarrow> f' = f \<and> fdt_path_offset L (storage f) path = n \<and> 0 \<le> n"
  by (auto simp: path_offset_def c_string_def fdt_error_def thn_Inr seq_Inr split: if_splits)

lemma path_offset_state: "path_offset L path f = (r, f') \<Longrightarrow> f' = f"
  by (auto simp: path_offset_def c_string_def fdt_error_def split: if_splits)

lemma map_err_Inr [simp]: "map_err g m s = (Inr a, s') \<longleftrightarrow> m s = (Inr a, s')"
  by (auto simp: map_err_def split: prod.split sum.split)

lemma be_bytes_of_be: "length bs = 8 \<Longrightarrow> (of_be_bytes bs :: u64) = w \<Longrightarrow> bs = be_bytes 8 w"
  using le_bytes_of_le_bytes [of "rev bs", where 'a = 64] by (auto simp: be_bytes_def of_be_bytes_def)

lemma expect_node_exists_ok:
  "expect_node_exists L path f = (Inr (), f') \<Longrightarrow> f' = f \<and> 0 \<le> fdt_path_offset L (storage f) path"
  by (auto simp: expect_node_exists_def seq_Inr dest!: path_offset_Some split: option.splits)

lemma expect_node_with_reg_ok:
  assumes "expect_node_with_reg_and_no_map L path addr len f = (Inr (), f')"
  shows "f' = f \<and> (\<exists>n\<ge>0. fdt_path_offset L (storage f) path = n \<and>
    fdt_getprop L (storage f) n ''reg'' = Some (reg_range addr len) \<and> fdt_getprop L (storage f) n ''no-map'' \<noteq> None)"
proof -
  from assms obtain n reg where n: "f' = f" "fdt_path_offset L (storage f) path = n" "0 \<le> n"
    and reg: "fdt_getprop L (storage f) n ''reg'' = Some reg" "length reg = 16"
      "(of_be_bytes (take 8 reg) :: u64) = addr" "(of_be_bytes (take 8 (drop 8 reg)) :: u64) = len"
    and nm: "fdt_getprop L (storage f) n ''no-map'' \<noteq> None"
    by (auto simp: expect_node_with_reg_and_no_map_def seq_Inr Let_def fdt_error_def getprop_def
        dest!: path_offset_Some split: option.splits if_splits)
  have "take 8 reg = be_bytes 8 addr" "drop 8 reg = be_bytes 8 len"
    using reg be_bytes_of_be [of "take 8 reg" addr] be_bytes_of_be [of "drop 8 reg" len] by simp_all
  then have "reg = reg_range addr len" by (metis append_take_drop_id reg_range_def)
  then show ?thesis using n reg(1) nm by auto
qed

text \<open>
  The tree as a reader finds it: the page of the status block is reserved and unmapped, the memory is
  described and the kernel has a command line.
\<close>

definition dtb_safe :: "libfdt \<Rightarrow> u8 list \<Rightarrow> u64 \<Rightarrow> bool" where
  "dtb_safe L dtb mem_start \<longleftrightarrow>
     (\<exists>f. open_into L dtb 0 = Inr f \<and>
       (\<exists>n\<ge>0. fdt_path_offset L (storage f) (''/reserved-memory/bhx-purgatory@'' @ hex64 (mem_start + STATUS_OFFSET)) = n \<and>
         fdt_getprop L (storage f) n ''reg'' = Some (reg_range (mem_start + STATUS_OFFSET) 0x1000) \<and>
         fdt_getprop L (storage f) n ''no-map'' \<noteq> None) \<and>
       0 \<le> fdt_path_offset L (storage f) (''/memory@'' @ hex64 mem_start) \<and>
       (\<exists>n\<ge>0. fdt_path_offset L (storage f) ''/chosen'' = n \<and> fdt_getprop L (storage f) n ''bootargs'' \<noteq> None))"

lemma verify_sound:
  assumes "verify_dtb_invariants L dtb mem_start = Inr ()"
  shows "dtb_safe L dtb mem_start"
proof -
  from assms obtain f f' where f: "open_into L dtb 0 = Inr f" "verify_opened L mem_start f = (Inr (), f')"
    by (auto simp: verify_dtb_invariants_def split: sum.splits) (metis eq_fst_iff)
  from f(2) obtain f1 f2 n where
      "expect_node_with_reg_and_no_map L (''/reserved-memory/bhx-purgatory@'' @ hex64 (mem_start + STATUS_OFFSET)) (mem_start + STATUS_OFFSET) 0x1000 f = (Inr (), f1)"
      "expect_node_exists L (''/memory@'' @ hex64 mem_start) f1 = (Inr (), f2)"
    and chosen: "path_offset L ''/chosen'' f2 = (Inr (Some n), f2)" "fdt_getprop L (storage f2) n ''bootargs'' \<noteq> None"
    by (auto simp: verify_opened_def Let_def thn_Inr seq_Inr fdt_error_def getprop_def split: option.splits if_splits dest: path_offset_state)
  note steps = expect_node_with_reg_ok [OF this(1)] expect_node_exists_ok [OF this(2)] path_offset_Some [OF chosen(1)]
  then show ?thesis unfolding dtb_safe_def using f(1) chosen(2) by blast
qed


text \<open>A library that finds every node and every property, and packs to nothing.\<close>

definition demo_fdt :: libfdt where
  "demo_fdt = \<lparr>fdt_open_into = (\<lambda>b n. (0, b)), fdt_pack = (\<lambda>b. (0, b)), fdt_path_offset = (\<lambda>b p. 0),
     fdt_add_subnode = (\<lambda>b n nm. (0, b)), fdt_set_name = (\<lambda>b n nm. (0, b)), fdt_get_name = (\<lambda>b n. None),
     fdt_setprop = (\<lambda>b n nm v. (0, b)),
     fdt_getprop = (\<lambda>b n nm. if nm = ''reg'' then Some (reg_range 0x4000300E0000 0x1000) else Some []),
     fdt_get_phandle = (\<lambda>b n. 1), fdt_find_max_phandle = (\<lambda>b. (0, 1)), fdt_strerror = (\<lambda>e. None)\<rparr>"

lemma hex_no_nul: "CHR 0x00 \<notin> set (hex n)"
proof (induction n rule: hex.induct)
  case (1 n)
  have "CHR 0x00 \<noteq> hex_digit d" if "d < 16" for d
  proof
    assume "CHR 0x00 = hex_digit d"
    then have "of_char (hex_digit d) = (0 :: nat)" by (simp flip: \<open>CHR 0x00 = hex_digit d\<close>)
    then show False using that by (simp add: hex_digit_def split: if_splits)
  qed
  then show ?case using 1 by (subst hex.simps) auto
qed

lemma demo_ops:
  "CHR 0x00 \<notin> set p \<Longrightarrow> path_offset demo_fdt p f = (Inr (Some 0), f)"
  "CHR 0x00 \<notin> set p \<Longrightarrow> add_subnode demo_fdt n p f = (Inr 0, f)"
  "CHR 0x00 \<notin> set p \<Longrightarrow> set_name demo_fdt n p f = (Inr (), f)"
  "CHR 0x00 \<notin> set p \<Longrightarrow> setprop demo_fdt n p v f = (Inr (), f)"
  by (simp_all add: path_offset_def add_subnode_def set_name_def setprop_def libcall_def seq_def c_string_ok check_def demo_fdt_def)

lemma demo_check: "verify_dtb_invariants demo_fdt [] 0x400030000000 = Inr ()"
proof -
  have reg: "length (reg_range 0x4000300E0000 0x1000) = 16" by (simp add: reg_range_def be_bytes_def)
  have "(of_be_bytes (be_bytes 8 a) :: u64) = a" for a :: u64
    by (simp add: of_be_bytes_def be_bytes_def of_le_bytes_le_bytes_full)
  then have parts: "(of_be_bytes (take 8 (reg_range 0x4000300E0000 0x1000)) :: u64) = 0x4000300E0000"
    "(of_be_bytes (drop 8 (reg_range 0x4000300E0000 0x1000)) :: u64) = 0x1000"
    by (simp_all add: reg_range_def be_bytes_def)
  have props: "fdt_getprop demo_fdt b n nm = (if nm = ''reg'' then Some (reg_range 0x4000300E0000 0x1000) else Some [])" for b n nm
    by (simp add: demo_fdt_def)
  have opened: "open_into demo_fdt [] 0 = Inr \<lparr>storage = [], byte_len = 0\<rparr>" by (simp add: open_into_def demo_fdt_def)
  show ?thesis
    by (simp add: verify_dtb_invariants_def opened verify_opened_def expect_node_with_reg_and_no_map_def expect_node_exists_def
        demo_ops hex64_def hex_no_nul Let_def STATUS_OFFSET_def getprop_def props reg parts map_err_def seq_def thn_def)
qed


end
