(* ===== verification/Purgatory.thy ===== *)
theory Purgatory
  imports Attachments Device_Tree
begin

text \<open>
  The block in a core's memory through which the daemon and the core's firmware hand over a parked guest
  (\<open>regs::purgatory\<close>), and the handlers around it (\<open>src/src/daemon/server.rs\<close>): reading the block,
  forcing a running guest into it, and waking hart 0 with a new kernel. The guests run while the daemon
  sleeps: their memories afterwards are a parameter.
\<close>

section \<open>The block\<close>

definition PEERS_OFFSET :: u64 where "PEERS_OFFSET = STATUS_OFFSET + 8"
definition NEXT_ADDR_PA_OFFSET :: u64 where "NEXT_ADDR_PA_OFFSET = STATUS_OFFSET + 0x10"
definition NEXT_MODE_PA_OFFSET :: u64 where "NEXT_MODE_PA_OFFSET = STATUS_OFFSET + 0x18"
definition NEXT_ARG1_PA_OFFSET :: u64 where "NEXT_ARG1_PA_OFFSET = STATUS_OFFSET + 0x20"
definition HSM_STATE_PA_OFFSET :: u64 where "HSM_STATE_PA_OFFSET = STATUS_OFFSET + 0x28"
definition MSIP_PA_OFFSET :: u64 where "MSIP_PA_OFFSET = STATUS_OFFSET + 0x30"
definition FORCE_PARK_REQ_PA_OFFSET :: u64 where "FORCE_PARK_REQ_PA_OFFSET = STATUS_OFFSET + 0x38"
definition FORCE_PARK_REQ_VALUE_OFFSET :: u64 where "FORCE_PARK_REQ_VALUE_OFFSET = STATUS_OFFSET + 0x40"
definition STATUS_PARKED :: u64 where "STATUS_PARKED = 0x5f5f44454b524150"
definition HSM_STATE_STOPPED :: u32 where "HSM_STATE_STOPPED = 1"
definition HSM_STATE_START_PENDING :: u32 where "HSM_STATE_START_PENDING = 2"
definition NEXT_MODE_S :: u64 where "NEXT_MODE_S = 1"

lemmas purgatory_defs = STATUS_OFFSET_def PEERS_OFFSET_def NEXT_ADDR_PA_OFFSET_def NEXT_MODE_PA_OFFSET_def NEXT_ARG1_PA_OFFSET_def
  HSM_STATE_PA_OFFSET_def MSIP_PA_OFFSET_def FORCE_PARK_REQ_PA_OFFSET_def FORCE_PARK_REQ_VALUE_OFFSET_def

record parked_release_meta =
  next_addr_pa :: u64
  next_mode_pa :: u64
  next_arg1_pa :: u64
  hsm_state_pa :: u64
  msip_pa :: u64

text \<open>\<open>ok()\<close>: an I/O error becomes None, a panic stays a panic.\<close>

definition okay :: "'a chip_io \<Rightarrow> 'a option rpc" where
  "okay m =
     seq (catch m) (\<lambda>r. case r of
       Inr a \<Rightarrow> ret (Some a)
     | Inl f \<Rightarrow> (case f of Err _ \<Rightarrow> ret None | Panic p \<Rightarrow> fail (Crash p)))"

definition with_ctx :: "string \<Rightarrow> 'a chip_io \<Rightarrow> 'a rpc" where
  "with_ctx ctx m = map_err (io_fault ctx) m"

text \<open>The closure \<open>read_u64\<close>: the second word is read only after the first.\<close>

definition read_u64 :: "env \<Rightarrow> nat \<Rightarrow> u64 \<Rightarrow> u64 option rpc" where
  "read_u64 E i pa =
     seq (okay (l2_read32 E i pa)) (\<lambda>lo.
     case lo of
       None \<Rightarrow> ret None
     | Some lo \<Rightarrow> seq (okay (l2_read32 E i (pa + 4))) (\<lambda>hi. ret (map_option (\<lambda>hi. join32 hi lo) hi)))"

text \<open>The pair of reads in the poll loop and in the scan of the siblings.\<close>

definition read_status :: "env \<Rightarrow> nat \<Rightarrow> u64 option rpc" where
  "read_status E i =
     (let purg_pa = L2CPU_STARTING_ADDRESS i + STATUS_OFFSET
      in seq (okay (l2_read32 E i purg_pa)) (\<lambda>lo.
         seq (okay (l2_read32 E i (purg_pa + 4))) (\<lambda>hi.
         ret (case (lo, hi) of (Some lo, Some hi) \<Rightarrow> Some (join32 hi lo) | _ \<Rightarrow> None))))"

definition purgatory_u64 :: "env \<Rightarrow> nat \<Rightarrow> u64 \<Rightarrow> u64 option rpc" where
  "purgatory_u64 E i off = read_u64 E i (L2CPU_STARTING_ADDRESS i + off)"

definition read_parked_release_meta :: "env \<Rightarrow> nat \<Rightarrow> parked_release_meta option rpc" where
  "read_parked_release_meta E i =
     with_slot i (\<lambda>sl. case sl of
       None \<Rightarrow> ret None
     | Some _ \<Rightarrow>
         seq (purgatory_u64 E i STATUS_OFFSET) (\<lambda>st.
         if st \<noteq> Some STATUS_PARKED then ret None
         else
           seq (purgatory_u64 E i NEXT_ADDR_PA_OFFSET) (\<lambda>a.
           seq (purgatory_u64 E i NEXT_MODE_PA_OFFSET) (\<lambda>b.
           seq (purgatory_u64 E i NEXT_ARG1_PA_OFFSET) (\<lambda>c.
           seq (purgatory_u64 E i HSM_STATE_PA_OFFSET) (\<lambda>d.
           seq (purgatory_u64 E i MSIP_PA_OFFSET) (\<lambda>e.
           case (a, b, c, d, e) of
             (Some a, Some b, Some c, Some d, Some e) \<Rightarrow>
               if a > 0 \<and> b > 0 \<and> c > 0 \<and> d > 0 \<and> e > 0
               then ret (Some \<lparr>next_addr_pa = a, next_mode_pa = b, next_arg1_pa = c, hsm_state_pa = d, msip_pa = e\<rparr>)
               else ret None
           | _ \<Rightarrow> ret None)))))))"

section \<open>Forcing a running guest to park\<close>

definition FORCE_PARK_TIMEOUT_SECS :: nat where "FORCE_PARK_TIMEOUT_SECS = 10"

text \<open>A sleep: the guests run.\<close>

definition guests_run :: "env \<Rightarrow> unit rpc" where
  "guests_run E = seq (ask (e_guests E)) (\<lambda>m. upd (on_world (\<lambda>w. w\<lparr>dram := m\<rparr>)))"

definition not_parked :: "nat \<Rightarrow> fault" where
  "not_parked i = Fail (Internal (''force-park l2cpu '' @ dec i @ '': PARKED magic not seen within '' @
     dec FORCE_PARK_TIMEOUT_SECS @ ''s after firing IPI''))"

text \<open>The number is how many sleeps fit before the deadline has passed for certain.\<close>

primrec await_parked :: "env \<Rightarrow> nat \<Rightarrow> nat \<Rightarrow> unit rpc" where
  "await_parked E i 0 =
     seq (read_status E i) (\<lambda>st. if st = Some STATUS_PARKED then ret () else fail (not_parked i))"
| "await_parked E i (Suc n) =
     seq (read_status E i) (\<lambda>st.
     if st = Some STATUS_PARKED then ret ()
     else seq (ask (e_time_up E)) (\<lambda>up. if up then fail (not_parked i) else thn (guests_run E) (await_parked E i n)))"

definition write_u64_at :: "env \<Rightarrow> nat \<Rightarrow> u64 \<Rightarrow> u64 \<Rightarrow> unit chip_io" where
  "write_u64_at E i pa v = thn (l2_write32 E i pa (ucast v)) (l2_write32 E i (pa + 4) (ucast (drop_bit 32 v)))"

definition trigger_force_park_if_available :: "env \<Rightarrow> nat \<Rightarrow> parked_release_meta option rpc" where
  "trigger_force_park_if_available E i =
     seq (with_slot i (\<lambda>sl. case sl of
        None \<Rightarrow> ret False
      | Some _ \<Rightarrow>
          seq (purgatory_u64 E i FORCE_PARK_REQ_PA_OFFSET) (\<lambda>req_pa.
          seq (purgatory_u64 E i FORCE_PARK_REQ_VALUE_OFFSET) (\<lambda>req_val.
          seq (purgatory_u64 E i MSIP_PA_OFFSET) (\<lambda>msip.
          case (req_pa, req_val, msip) of
            (Some rpa, Some rval, Some mpa) \<Rightarrow>
              if rpa > 0 \<and> rval > 0 \<and> mpa > 0 then
                thn (with_ctx ''write force-park request bit'' (write_u64_at E i rpa rval))
                (thn (with_ctx ''write CLINT MSIP for force-park'' (l2_write32 E i mpa 1)) (ret True))
              else ret False
          | _ \<Rightarrow> ret False))))) (\<lambda>fired.
     if fired then thn (await_parked E i (100 * FORCE_PARK_TIMEOUT_SECS)) (read_parked_release_meta E i)
     else ret None)"

section \<open>Waking a parked guest\<close>

definition drop_devices :: "l2cpu_slot \<Rightarrow> l2cpu_slot" where
  "drop_devices sl = sl\<lparr>sl_disks := [], sl_net := False, sl_virtio_console := False, sl_virtio_rng := False\<rparr>"

definition unregister_attached :: "nat \<Rightarrow> l2cpu_slot \<Rightarrow> daemon \<Rightarrow> daemon" where
  "unregister_attached i sl =
     (if sl_virtio_rng sl then unregister (engine_slot i DEV_RNG) else id) \<circ>
     (if sl_virtio_console sl then unregister (engine_slot i DEV_CONSOLE) else id) \<circ>
     (if sl_net sl then unregister (engine_slot i DEV_NET) else id) \<circ> unregister_disks (sl_disks sl)"

definition swap_attached_for_release ::
  "env \<Rightarrow> u8 \<Rightarrow> string option \<Rightarrow> string option \<Rightarrow> bool \<Rightarrow> fwd list \<Rightarrow> bool \<Rightarrow> bool \<Rightarrow> unit rpc" where
  "swap_attached_for_release E idx disk cloud_init network extra_fwd rng console =
     (let i = unat idx in
      thn (with_booted i (\<lambda>sl.
        thn (upd (put_slot i (Some (drop_devices sl))))
        (with_dispatcher (\<lambda>up. upd (if up then unregister_attached i sl else id)))))
      (thn (ask_io ''construct throwaway socket for re-attach replies'' (e_socketpair E))
      (thn (case disk of None \<Rightarrow> ret Ok_Response | Some path \<Rightarrow> dispatch_add_disk E idx path None)
      (thn (case cloud_init of None \<Rightarrow> ret Ok_Response | Some path \<Rightarrow> dispatch_add_disk E idx path (Some ''cidata''))
      (thn (if network then dispatch_add_net E idx None extra_fwd else ret Ok_Response)
      (thn (if console then dispatch_add_console idx else ret Ok_Response)
      (if rng then attach_rng_inline i else ret ())))))))"

definition take_slot_dtb_bytes :: "nat \<Rightarrow> u8 list option rpc" where
  "take_slot_dtb_bytes i = with_slot i (\<lambda>sl. ret (Option.bind sl sl_dtb_bytes))"

definition clear_tail :: "nat \<Rightarrow> daemon \<Rightarrow> daemon" where
  "clear_tail i s = s\<lparr>shutdown_tails := (shutdown_tails s)(i := [])\<rparr>"

text \<open>Hart 0's entry, mode and argument, then its state, then the interrupt that wakes it.\<close>

definition wake_hart0 :: "env \<Rightarrow> nat \<Rightarrow> parked_release_meta \<Rightarrow> u64 \<Rightarrow> u64 \<Rightarrow> unit rpc" where
  "wake_hart0 E i meta kernel_addr dtb_addr =
     (let write_u64 = (\<lambda>pa v. with_ctx (''write u64 @ 0x'' @ hex64 pa) (write_u64_at E i pa v)) in
      thn (write_u64 (next_addr_pa meta) kernel_addr)
      (thn (write_u64 (next_mode_pa meta) NEXT_MODE_S)
      (thn (write_u64 (next_arg1_pa meta) dtb_addr)
      (seq (with_ctx ''read hsm state'' (l2_read32 E i (hsm_state_pa meta))) (\<lambda>hsm_now.
       if hsm_now \<noteq> HSM_STATE_STOPPED then
         internal (''release l2cpu '' @ dec i @ '': hart 0 HSM state '' @ dec (unat hsm_now) @ '' (expected STOPPED=1) '' @ em_dash @ '' refusing to release'')
       else
         thn (with_ctx ''write hsm state START_PENDING'' (l2_write32 E i (hsm_state_pa meta) HSM_STATE_START_PENDING))
         (with_ctx ''write CLINT MSIP'' (l2_write32 E i (msip_pa meta) 1)))))))"

definition dispatch_release ::
  "env \<Rightarrow> libfdt \<Rightarrow> u8 \<Rightarrow> boot_payload \<Rightarrow> parked_release_meta \<Rightarrow> u8 list option \<Rightarrow>
   string option \<Rightarrow> string option \<Rightarrow> bool \<Rightarrow> fwd list \<Rightarrow> bool \<Rightarrow> bool \<Rightarrow> response rpc" where
  "dispatch_release E L idx payload meta dtb_bytes disk cloud_init network extra_fwd rng console =
     (let i = unat idx;
          mem_base = L2CPU_STARTING_ADDRESS i;
          kernel_addr = mem_base + KERNEL_OFFSET;
          dtb_addr = mem_base + DTB_OFFSET;
          purg_pa = mem_base + STATUS_OFFSET in
      seq (with_ctx (''read kernel '' @ payload_path payload) (read_bin_file E (payload_path payload))) (\<lambda>kernel_bytes.
      thn (with_ctx ''kernel re-image'' (l2cpu_noc_write_bulk E i kernel_addr kernel_bytes))
      (thn (case dtb_bytes of
              None \<Rightarrow> ret ()
            | Some bytes \<Rightarrow>
                seq (lift (add_opensbi_reservation_for_release L bytes mem_base)) (\<lambda>with_resv.
                with_ctx ''dtb re-image'' (l2cpu_noc_write_bulk E i dtb_addr with_resv)))
      (thn (if disk \<noteq> None \<or> cloud_init \<noteq> None \<or> network \<or> rng \<or> console
            then swap_attached_for_release E idx disk cloud_init network extra_fwd rng console else ret ())
      (thn (with_ctx ''clear purgatory magic'' (write_u64_at E i purg_pa 0))
      (thn (wake_hart0 E i meta kernel_addr dtb_addr)
      (thn (upd (clear_tail i)) (ret Ok_Response))))))))"

end
