(* ===== verification/Boot.thy ===== *)
theory Boot
  imports Purgatory
begin

text \<open>
  Booting an L2CPU (\<open>src/src/daemon/server.rs\<close>, \<open>src/src/daemon/mod.rs\<close>): the decision between a
  cold boot, a release of a parked guest and a refusal, the reset of an idle board, the engine that is
  brought up on the first boot, the image, the devices, and the release from reset.
\<close>

section \<open>The slot that is there\<close>

datatype boot_slot_decision = Reject string | Proceed | Tear_Down_And_Proceed

definition decide_boot_slot :: "bool \<Rightarrow> bool \<Rightarrow> nat \<Rightarrow> boot_slot_decision" where
  "decide_boot_slot slot_present force i =
     (if \<not> slot_present then Proceed
      else if force then Tear_Down_And_Proceed
      else Reject (''l2cpu '' @ dec i @ '' is already booted; stop it first, or re-run with --force''))"

fun as_slot_state :: "fault \<Rightarrow> fault" where
  "as_slot_state (Fail e) = Fail (Slot_State (show_error e))"
| "as_slot_state (Crash m) = Crash m"

definition handle_existing_slot :: "nat \<Rightarrow> bool \<Rightarrow> unit rpc" where
  "handle_existing_slot i force =
     seq (map_err as_slot_state (with_slot i (\<lambda>sl.
        case decide_boot_slot (sl \<noteq> None) force i of
          Reject m \<Rightarrow> slot_state m
        | Proceed \<Rightarrow> ret None
        | Tear_Down_And_Proceed \<Rightarrow> thn (upd (put_slot i None)) (ret sl)))) (\<lambda>prior.
     case prior of
       None \<Rightarrow> ret ()
     | Some _ \<Rightarrow>
         thn (upd (disconnect i (''l2cpu '' @ dec i @ '' re-imaged via --force'')))
         (thn (upd (unregister_engine_slots i)) (upd (slot_shutdown i))))"

section \<open>The reset of an idle board\<close>

datatype sibling_classification = Parked_Sibling | Running_Sibling

definition classify_sibling :: "u64 option \<Rightarrow> sibling_classification" where
  "classify_sibling purg = (if purg = Some STATUS_PARKED then Parked_Sibling else Running_Sibling)"

fun scan_siblings :: "env \<Rightarrow> nat list \<Rightarrow> (nat list \<times> nat list) rpc" where
  "scan_siblings E [] = ret ([], [])"
| "scan_siblings E (j # js) =
     seq (with_slot j (\<lambda>sl. case sl of
        None \<Rightarrow> ret None
      | Some _ \<Rightarrow> seq (read_status E j) (\<lambda>purg. ret (Some (classify_sibling purg))))) (\<lambda>c.
     seq (scan_siblings E js) (\<lambda>(running, parked).
     ret (case c of
            None \<Rightarrow> (running, parked)
          | Some Parked_Sibling \<Rightarrow> (running, j # parked)
          | Some Running_Sibling \<Rightarrow> (j # running, parked))))"

definition drop_dispatcher :: "daemon \<Rightarrow> daemon" where
  "drop_dispatcher s = on_world (\<lambda>w. w\<lparr>registry := [], uart_registry := []\<rparr>) (s\<lparr>dispatcher := False\<rparr>)"

text \<open>\<open>SharedChip::reset_board\<close>; afterwards the memories and the words of the tiles are what the chip has left there.\<close>

definition chip_reset :: "env \<Rightarrow> unit rpc" where
  "chip_reset E =
     seq (ask (\<lambda>s. (shared_reset_board (e_reset_board E s) (e_reopen E s) (shared_chip s), e_memories E s, e_tile_words E s)))
       (\<lambda>((r, c), m, ws).
     thn (upd (\<lambda>s. (on_world (\<lambda>w. w\<lparr>dram := m\<rparr>) s)\<lparr>shared_chip := c, core_regs := ws\<rparr>))
     (case r of
        Inl e \<Rightarrow> (case e of
            Driver msg \<Rightarrow> fail (io_ctx ''opportunistic reset_board'' (io_other msg))
          | _ \<Rightarrow> fail (Crash ''SharedChip''))
      | Inr _ \<Rightarrow> upd (\<lambda>s. s\<lparr>chip_reset_this_session := True\<rparr>)))"

definition maybe_opportunistic_reset_board :: "env \<Rightarrow> nat \<Rightarrow> unit rpc" where
  "maybe_opportunistic_reset_board E target =
     seq (asks boot_lock_poisoned) (\<lambda>p.
     if p then internal ''daemon boot_lock poisoned''
     else guarded (\<lambda>_. False) (\<lambda>s. s\<lparr>boot_lock_poisoned := True\<rparr>)
       (seq (asks chip_reset_this_session) (\<lambda>was_reset.
        if was_reset then ret ()
        else
          seq (scan_siblings E (filter (\<lambda>j. j \<noteq> target) [0..<4])) (\<lambda>(running, parked).
          if running \<noteq> [] then ret ()
          else
            thn (each (\<lambda>j. ignore (internal_stop (word_of_nat j) ''opportunistic reset_board'')) parked)
            (thn (with_dispatcher (\<lambda>_. upd drop_dispatcher))
            (thn (guarded engine_poisoned (\<lambda>s. s) (upd (\<lambda>s. s\<lparr>tensix_engine := None\<rparr>)))
            (chip_reset E)))))))"

section \<open>The engine\<close>

text \<open>\<open>Dispatcher::spawn\<close>.\<close>

definition dispatcher_spawn :: "guest_mem \<Rightarrow> device disp \<Rightarrow> device disp" where
  "dispatcher_spawn m w =
     w\<lparr>tile_l1 := m, registry := [], uart_registry := [], dispatches_total := 0, last_dispatch_slot_queue := (0, 0),
       uart_consumer := (\<lambda>_. 0), last_status := []\<rparr>"

definition install_engine :: "env \<Rightarrow> engine \<Rightarrow> engine chip_io" where
  "install_engine E eng =
     seq (asks dispatcher_poisoned) (\<lambda>p.
     if p then thn (upd (\<lambda>s. s\<lparr>engine_poisoned := True\<rparr>)) (fail (Panic ''PoisonError''))
     else
       seq (ask (e_tile_l1 E)) (\<lambda>m.
       thn (upd (\<lambda>s. (on_world (dispatcher_spawn m) s)\<lparr>dispatcher := True, tensix_engine := Some eng\<rparr>)) (ret eng)))"

definition engine_failed :: "env \<Rightarrow> engine_error \<Rightarrow> 'a chip_io" where
  "engine_failed E e =
     (if e = Assertion_Failed then thn (upd (\<lambda>s. s\<lparr>engine_poisoned := True\<rparr>)) (fail (Panic ''assertion failed''))
      else fail (Err (io_other (e_engine_text E e))))"

definition get_or_bring_up_tensix_engine :: "env \<Rightarrow> engine chip_io" where
  "get_or_bring_up_tensix_engine E =
     seq (asks engine_poisoned) (\<lambda>p.
     if p then fail (Panic ''PoisonError'')
     else seq (asks tensix_engine) (\<lambda>eng.
       case eng of
         Some e \<Rightarrow> ret e
       | None \<Rightarrow>
           seq (ask (\<lambda>s. bring_up (shared_chip s) (e_open_tile E s) (e_firmware E) (e_build_id E)
                  (e_boot_reads E s) (e_boot_polls E) (e_ack_reads E s) (e_ack_polls E))) (\<lambda>r.
           case r of Inl e \<Rightarrow> engine_failed E e | Inr (e, _, _) \<Rightarrow> install_engine E e)))"

definition adopt_running_tensix_engine :: "env \<Rightarrow> unit chip_io" where
  "adopt_running_tensix_engine E =
     seq (asks engine_poisoned) (\<lambda>p.
     if p then fail (Panic ''PoisonError'')
     else seq (asks tensix_engine) (\<lambda>eng.
       case eng of
         Some _ \<Rightarrow> ret ()
       | None \<Rightarrow>
           seq (ask (\<lambda>s. adopt_running (shared_chip s) (e_open_tile E s) (e_build_id E))) (\<lambda>r.
           case r of Inl e \<Rightarrow> engine_failed E e | Inr e \<Rightarrow> thn (install_engine E e) (ret ()))))"

section \<open>The image and its device tree\<close>

definition boot_memory_size :: "nat \<Rightarrow> u64 option \<Rightarrow> u64" where
  "boot_memory_size i memory_override =
     (case memory_override of
        None \<Rightarrow> L2CPU_MEMORY_SIZE i
      | Some wanted \<Rightarrow> min (wanted AND NOT (2 * 1024 * 1024 - 1)) (L2CPU_MEMORY_SIZE i))"

definition choose_boot_device :: "env \<Rightarrow> boot_request \<Rightarrow> u64 \<Rightarrow> boot_device chip_io" where
  "choose_boot_device E br rootfs_addr =
     (if is_uboot (br_payload br) then ret Uboot_Device
      else case br_initramfs br of
        Some p \<Rightarrow>
          seq (read_bin_file E p) (\<lambda>bytes.
          if br_disk br \<noteq> None then ret (Initramfs_And_Vda rootfs_addr (word_of_nat (length bytes)) (br_root_device br))
          else ret (Initramfs rootfs_addr (word_of_nat (length bytes))))
      | None \<Rightarrow> ret (Vda (br_root_device br)))"

definition emit_node :: "u64 \<Rightarrow> nat \<Rightarrow> bool \<Rightarrow> u32 \<Rightarrow> virtio_mmio_node list" where
  "emit_node x280_base dev_idx enabled irq =
     (if enabled
      then [\<lparr>vn_addr = x280_base + word_of_nat dev_idx * word_of_nat REGS_PER_DEV, vn_size = word_of_nat REGS_PER_DEV, vn_irq = irq\<rparr>]
      else [])"

definition virtio_nodes :: "boot_request \<Rightarrow> u64 \<Rightarrow> virtio_mmio_node list" where
  "virtio_nodes br x280_base =
     emit_node x280_base DEV_BLK (br_disk br \<noteq> None) DISK_IRQ @ emit_node x280_base DEV_NET (br_network br) NET_IRQ @
     emit_node x280_base DEV_CONSOLE (br_console br) CONSOLE_IRQ @ emit_node x280_base DEV_RNG (br_rng br) RNG_IRQ @
     emit_node x280_base DEV_BLK1 (br_cloud_init br \<noteq> None) DISK1_IRQ"

definition any_host_device :: "boot_request \<Rightarrow> bool" where
  "any_host_device br \<longleftrightarrow> br_rng br \<or> br_network br \<or> br_disk br \<noteq> None \<or> br_console br \<or> br_cloud_init br \<noteq> None"

definition engine_window :: "env \<Rightarrow> nat \<Rightarrow> engine \<Rightarrow> u64 chip_io" where
  "engine_window E i eng =
     (case program_l2cpu_tlb (ucast (e_translated_x eng)) (ucast (e_translated_y eng)) i of
        None \<Rightarrow> fail (Panic ''small TLB idx out of range'')
      | Some (ws, x280_base) \<Rightarrow> thn (write_words E i ws) (ret x280_base))"

fun io_of_fault :: "fault \<Rightarrow> failure" where
  "io_of_fault (Fail e) = Err (to_io e)"
| "io_of_fault (Crash m) = Panic m"

text \<open>The result is the patched tree; \<open>L2Cpu::new\<close> is its answer.\<close>

definition run_boot_sequence :: "env \<Rightarrow> libfdt \<Rightarrow> boot_request \<Rightarrow> u8 list chip_io" where
  "run_boot_sequence E L br =
     (let i = unat (br_l2cpu br);
          starting = L2CPU_STARTING_ADDRESS i;
          rootfs_addr = starting + INITRAMFS_OFFSET in
      seq (ask (\<lambda>s. e_l2cpu_new E s i)) (\<lambda>r.
      case r of
        Some e \<Rightarrow> fail (Err e)
      | None \<Rightarrow>
          seq (read_bin_file E (br_dtb br)) (\<lambda>dtb_raw.
          seq (choose_boot_device E br rootfs_addr) (\<lambda>boot_dev.
          seq (if any_host_device br
               then seq (get_or_bring_up_tensix_engine E) (\<lambda>eng. seq (engine_window E i eng) (\<lambda>base. ret (virtio_nodes br base)))
               else ret []) (\<lambda>nodes.
          seq (map_err io_of_fault (lift (modify_dtb L dtb_raw boot_dev starting (boot_memory_size i (br_memory_override br))
                 nodes None (br_console br) (br_extra_bootargs br)))) (\<lambda>dtb_patched.
          thn (boot_l2cpu E i (br_opensbi br) (starting + OPENSBI_OFFSET) (Some (payload_path (br_payload br))) (starting + KERNEL_OFFSET)
                 dtb_patched (starting + DTB_OFFSET) (br_initramfs br) rootfs_addr)
          (ret dtb_patched)))))))"

section \<open>The slot and its devices\<close>

definition PENDING_ADDR :: u64 where "PENDING_ADDR = 0x2FF10000 + 0x404"

definition fresh_slot :: l2cpu_slot where
  "fresh_slot = \<lparr>sl_disks = [], sl_dtb_bytes = None, sl_blk_dtb_dev_idx = [DEV_BLK], sl_net = False, sl_virtio_console = False,
     sl_virtio_rng = False, sl_boot_payload = None, sl_net_extra_fwd = []\<rparr>"

text \<open>A new hub for the core, and its console thread with an empty channel.\<close>

definition start_console :: "nat \<Rightarrow> daemon \<Rightarrow> daemon" where
  "start_console i s =
     on_world (\<lambda>w. w\<lparr>hst := (hst w)\<lparr>h_hub := (h_hub (hst w))(word_of_nat i := hub_new (word_of_nat i))\<rparr>\<rparr>)
       (s\<lparr>console_threads := i # console_threads s, console_input := (console_input s)(i := [])\<rparr>)"

definition make_slot_from_l2cpu :: "env \<Rightarrow> nat \<Rightarrow> l2cpu_slot chip_io" where
  "make_slot_from_l2cpu E i = thn (open_window E i PENDING_ADDR) (thn (upd (start_console i)) (ret fresh_slot))"

definition boot_attach_disk :: "env \<Rightarrow> u8 \<Rightarrow> string \<Rightarrow> string option \<Rightarrow> nat \<Rightarrow> u32 \<Rightarrow> l2cpu_slot \<Rightarrow> l2cpu_slot rpc" where
  "boot_attach_disk E idx path serial_name dev_idx irq sl =
     seq (ask (\<lambda>s. e_open_rw E s path)) (\<lambda>r.
     case r of
       Inl _ \<Rightarrow> ret sl
     | Inr file \<Rightarrow>
         seq (ask (\<lambda>s. e_map_file E s file)) (\<lambda>r.
         case r of
           Some _ \<Rightarrow> ret sl
         | None \<Rightarrow>
             thn (upd (register_device (unat idx) dev_idx (Blk (from_file_with_serial file idx (map_option str serial_name))) irq Block))
             (ret (sl\<lparr>sl_disks := sl_disks sl @ [\<lparr>dw_path = path, dw_slot_idx = engine_slot (unat idx) dev_idx, dw_name = serial_name\<rparr>]\<rparr>))))"

definition boot_attach_net :: "env \<Rightarrow> boot_request \<Rightarrow> l2cpu_slot \<Rightarrow> l2cpu_slot rpc" where
  "boot_attach_net E br sl =
     (let i = unat (br_l2cpu br) in
      if br_network br then
        seq (asks card_no) (\<lambda>c.
        seq (catch (virtio_net_new E ((ssh_port c (br_l2cpu br), 22) # br_extra_fwd br) i (br_hostname_override br))) (\<lambda>r.
        case r of
          Inl f \<Rightarrow> (case f of Panic m \<Rightarrow> fail (Crash m) | Err _ \<Rightarrow> ret sl)
        | Inr net \<Rightarrow> thn (upd (register_device i DEV_NET (Net net) NET_IRQ interrupt_kind.Net)) (ret (sl\<lparr>sl_net := True\<rparr>))))
      else ret sl)"

definition boot_devices :: "env \<Rightarrow> boot_request \<Rightarrow> l2cpu_slot \<Rightarrow> l2cpu_slot rpc" where
  "boot_devices E br sl =
     (let idx = br_l2cpu br; i = unat idx in
      thn (if br_rng br then upd (register_device i DEV_RNG Rng RNG_IRQ interrupt_kind.Rng) else ret ())
      (seq (case br_disk br of None \<Rightarrow> ret sl | Some path \<Rightarrow> boot_attach_disk E idx path None DEV_BLK DISK_IRQ sl) (\<lambda>sl.
       seq (case br_cloud_init br of None \<Rightarrow> ret sl | Some path \<Rightarrow> boot_attach_disk E idx path (Some ''cidata'') DEV_BLK1 DISK1_IRQ sl) (\<lambda>sl.
       seq (boot_attach_net E br sl) (\<lambda>sl.
       seq (if br_console br
            then thn (upd (fresh_input i)) (thn (upd (register_device i DEV_CONSOLE (Con (console_new idx)) CONSOLE_IRQ Console))
              (ret (sl\<lparr>sl_virtio_console := True\<rparr>)))
            else ret sl) (\<lambda>sl.
       thn (upd (on_world (register_uart i))) (ret sl)))))))"

definition register_boot_devices :: "env \<Rightarrow> boot_request \<Rightarrow> l2cpu_slot \<Rightarrow> l2cpu_slot rpc" where
  "register_boot_devices E br sl =
     seq read_engine (\<lambda>engine.
     with_dispatcher (\<lambda>up. if up \<and> engine \<noteq> None then boot_devices E br sl else ret sl))"

section \<open>Release from reset\<close>

text \<open>\<open>let _ =\<close>: an error is dropped, a panic is not.\<close>

definition drop_result :: "'a chip_io \<Rightarrow> unit rpc" where
  "drop_result m = thn (okay m) (ret ())"

definition release_l2cpu_from_reset :: "env \<Rightarrow> nat \<Rightarrow> unit rpc" where
  "release_l2cpu_from_reset E i =
     (let purg_pa = L2CPU_STARTING_ADDRESS i + STATUS_OFFSET in
      thn (drop_result (l2_write32 E i purg_pa 0))
      (thn (drop_result (l2_write32 E i (purg_pa + 4) 0))
      (seq (asks (\<lambda>s. reset_x280 [i] (shared_chip s))) (\<lambda>r.
       case r of
         Inl _ \<Rightarrow> fail (Crash ''PllAccess: SharedChip rotating during clock step'')
       | Inr c \<Rightarrow> thn (upd (\<lambda>s. s\<lparr>shared_chip := c\<rparr>)) (with_ctx ''configure_prefetchers'' (configure_prefetchers E i))))))"

definition install_slot_and_reply_ok :: "nat \<Rightarrow> l2cpu_slot \<Rightarrow> response rpc" where
  "install_slot_and_reply_ok i sl =
     thn (with_slot i (\<lambda>_. upd (put_slot i (Some sl))))
     (thn (upd (\<lambda>s. s\<lparr>wedged := (wedged s)(i := False)\<rparr>))
     (thn (upd (on_metrics (counter_inc L2CPU_BOOT_COLD_TOTAL (word_of_nat i)))) (ret Ok_Response)))"

section \<open>The request\<close>

definition cold_boot :: "env \<Rightarrow> libfdt \<Rightarrow> boot_request \<Rightarrow> response rpc" where
  "cold_boot E L br =
     (let i = unat (br_l2cpu br) in
      thn (handle_existing_slot i (br_force br))
      (thn (maybe_opportunistic_reset_board E i)
      (thn (upd (clear_tail i))
      (seq (with_ctx ''boot failed'' (run_boot_sequence E L br)) (\<lambda>dtb_bytes.
       seq (with_ctx ''post-boot L2Cpu init failed'' (make_slot_from_l2cpu E i)) (\<lambda>sl.
       seq (register_boot_devices E br (sl\<lparr>sl_dtb_bytes := Some dtb_bytes, sl_boot_payload := Some (br_payload br), sl_net_extra_fwd := br_extra_fwd br,
              sl_blk_dtb_dev_idx := DEV_BLK # (if br_cloud_init br \<noteq> None then [DEV_BLK1] else [])\<rparr>)) (\<lambda>sl.
       thn (release_l2cpu_from_reset E i) (install_slot_and_reply_ok i sl))))))))"

definition release_parked :: "env \<Rightarrow> libfdt \<Rightarrow> boot_request \<Rightarrow> parked_release_meta \<Rightarrow> response rpc" where
  "release_parked E L br meta =
     seq (take_slot_dtb_bytes (unat (br_l2cpu br))) (\<lambda>dtb_bytes.
     dispatch_release E L (br_l2cpu br) (br_payload br) meta dtb_bytes (br_disk br) (br_cloud_init br) (br_network br) (br_extra_fwd br)
       (br_rng br) (br_console br))"

definition dispatch_boot :: "env \<Rightarrow> libfdt \<Rightarrow> boot_request \<Rightarrow> response rpc" where
  "dispatch_boot E L br =
     (if is_uboot (br_payload br) \<and> br_initramfs br \<noteq> None then
        bad_request ''--initramfs is not supported in --uboot mode (U-Boot loads initrd from disk)''
      else
        seq (validate_l2cpu (br_l2cpu br)) (\<lambda>i.
        seq (read_parked_release_meta E i) (\<lambda>meta.
        case meta of
          Some meta \<Rightarrow> release_parked E L br meta
        | None \<Rightarrow>
            if br_force br then
              seq (trigger_force_park_if_available E i) (\<lambda>meta.
              case meta of Some meta \<Rightarrow> release_parked E L br meta | None \<Rightarrow> cold_boot E L br)
            else cold_boot E L br)))"

end
