(* ===== verification/Boot_Inv.thy ===== *)
theory Boot_Inv
  imports Attachments_Inv Boot
begin

text \<open>
  The boot path and the release of a parked guest keep the invariant of the daemon's bookkeeping. An
  operation that only works on memories, registers, hubs and counters leaves the bookkeeping as it is; the
  rules for such operations are a collection.
\<close>

section \<open>Operations that leave the bookkeeping as it is\<close>

definition frame :: "daemon \<Rightarrow> daemon \<Rightarrow> bool" where
  "frame s s' \<longleftrightarrow> l2cpus s' = l2cpus s \<and> (\<forall>i. slot_poisoned s i \<longrightarrow> slot_poisoned s' i) \<and> dispatcher s' = dispatcher s \<and>
     tensix_engine s' = tensix_engine s \<and> same_registry (world s) (world s')"

lemma frame_refl [simp]: "frame s s"
  by (simp add: frame_def same_registry_def)

lemma frame_trans: "frame s s' \<Longrightarrow> frame s' s'' \<Longrightarrow> frame s s''"
  by (auto simp: frame_def same_registry_def)

lemma frame_serves: "frame s s' \<Longrightarrow> serves s' i dev_idx = serves s i dev_idx"
  by (simp add: frame_def same_registry_def serves_def)

lemma frame_inv:
  assumes "frame s s'" "daemon_inv s"
  shows "daemon_inv s'"
proof -
  have "masks_ok (world s') \<longleftrightarrow> masks_ok (world s)" using assms(1) by (simp add: frame_def same_registry_def masks_ok_def)
  then have "registry_ok (world s')" using assms by (simp add: frame_def same_registry_def daemon_inv_def registry_ok_def)
  moreover have "slots_ok s'" unfolding slots_ok_def
  proof (intro allI impI)
    fix i sl assume "l2cpus s' i = Some sl" "\<not> slot_poisoned s' i"
    then have "l2cpus s i = Some sl" "\<not> slot_poisoned s i" using assms(1) by (auto simp: frame_def)
    then show "i < 4 \<and> disks_ok i sl \<and> blk_dtb_ok sl \<and> slot_served s' i sl"
      using inv_slot [OF assms(2)] frame_serves [OF assms(1)] by (simp add: slot_served_def)
  qed
  ultimately show ?thesis using assms by (simp add: daemon_inv_def frame_def)
qed

definition framed :: "(daemon, 'e, 'a) act \<Rightarrow> bool" where
  "framed m \<longleftrightarrow> (\<forall>s. wp m (\<lambda>_. frame s) (\<lambda>_. frame s) s)"

named_theorems framed_intros \<open>operations that leave the bookkeeping as it is\<close>

lemma framedI: "(\<And>s. wp m (\<lambda>_. frame s) (\<lambda>_. frame s) s) \<Longrightarrow> framed m"
  by (simp add: framed_def)

lemma framedD: "framed m \<Longrightarrow> frame s0 s \<Longrightarrow> wp m (\<lambda>_. frame s0) (\<lambda>_. frame s0) s"
  unfolding framed_def by (blast intro: wp_mono frame_trans)

lemma framed_wp: "framed m \<Longrightarrow> (\<And>a s'. frame s s' \<Longrightarrow> Q a s') \<Longrightarrow> (\<And>e s'. frame s s' \<Longrightarrow> R e s') \<Longrightarrow> wp m Q R s"
  unfolding framed_def by (blast intro: wp_mono)

lemma framed_basic [framed_intros]:
  "framed (ret a)" "framed (fail e)" "framed (asks g)" "framed (lift r)" "framed (ask f)"
  unfolding framed_def wp_simps by (simp_all add: frame_def same_registry_def split: sum.split)

lemma framed_seq [framed_intros]: "framed m \<Longrightarrow> (\<And>a. framed (f a)) \<Longrightarrow> framed (seq m f)"
  by (rule framedI, unfold wp_simps, erule framed_wp) (auto intro: framedD)

lemma framed_thn [framed_intros]: "framed m \<Longrightarrow> framed k \<Longrightarrow> framed (thn m k)"
  unfolding thn_def by (intro framed_intros)

lemma framed_if [framed_intros]: "(b \<Longrightarrow> framed m) \<Longrightarrow> (\<not> b \<Longrightarrow> framed k) \<Longrightarrow> framed (if b then m else k)"
  by simp

lemma framed_option [framed_intros]: "framed m \<Longrightarrow> (\<And>a. framed (f a)) \<Longrightarrow> framed (case x of None \<Rightarrow> m | Some a \<Rightarrow> f a)"
  by (simp split: option.split)

lemma framed_sum [framed_intros]: "(\<And>a. framed (f a)) \<Longrightarrow> (\<And>b. framed (g b)) \<Longrightarrow> framed (case x of Inl a \<Rightarrow> f a | Inr b \<Rightarrow> g b)"
  by (simp split: sum.split)

lemma framed_prod [framed_intros]: "(\<And>a b. framed (f a b)) \<Longrightarrow> framed (case x of (a, b) \<Rightarrow> f a b)"
  by (simp split: prod.split)

lemma framed_list [framed_intros]: "framed m \<Longrightarrow> (\<And>a as. framed (f a as)) \<Longrightarrow> framed (case x of [] \<Rightarrow> m | a # as \<Rightarrow> f a as)"
  by (simp split: list.split)

lemma framed_failure [framed_intros]: "(\<And>a. framed (f a)) \<Longrightarrow> (\<And>b. framed (g b)) \<Longrightarrow> framed (case x of Err a \<Rightarrow> f a | Panic b \<Rightarrow> g b)"
  by (simp split: failure.split)

lemma framed_fault [framed_intros]: "(\<And>a. framed (f a)) \<Longrightarrow> (\<And>b. framed (g b)) \<Longrightarrow> framed (case x of Fail a \<Rightarrow> f a | Crash b \<Rightarrow> g b)"
  by (simp split: fault.split)

lemma framed_wrap [framed_intros]:
  "framed m \<Longrightarrow> framed (map_err g m)" "framed m \<Longrightarrow> framed (catch m)" "framed m \<Longrightarrow> framed (ignore m)"
  unfolding framed_def wp_simps by simp_all

lemma framed_each [framed_intros]:
  assumes "\<And>x. framed (f x)"
  shows "framed (each f xs)"
  by (induction xs) (simp_all add: assms framed_intros del: act_simps)

lemma framed_upd: "(\<And>s. frame s (f s)) \<Longrightarrow> framed (upd f)"
  unfolding framed_def wp_simps by simp

lemma framed_let [framed_intros]: "framed (f a) \<Longrightarrow> framed (let x = a in f x)"
  by (simp add: Let_def)

lemma framed_errors [framed_intros]: "framed (slot_state m)" "framed (bad_request m)" "framed (internal m)" "framed (not_booted i)"
  unfolding slot_state_def bad_request_def internal_def not_booted_def by (intro framed_intros)+

lemma framed_guarded [framed_intros]:
  assumes "framed m" "\<And>s. frame s (q s)"
  shows "framed (guarded p q m)"
proof (rule framedI)
  fix s
  show "wp (guarded p q m) (\<lambda>_. frame s) (\<lambda>_. frame s) s"
    unfolding wp_guarded using framed_wp [OF assms(1), of s] assms(2)
    by (auto intro!: framed_wp [OF assms(1)] split: fault.split intro: frame_trans)
qed

lemma framed_with_slot [framed_intros]: "(\<And>sl. framed (body sl)) \<Longrightarrow> framed (with_slot i body)"
  unfolding with_slot_def by (intro framed_intros) (auto simp: frame_def same_registry_def)

lemma framed_read_engine [framed_intros]: "framed read_engine"
  unfolding read_engine_def by (intro framed_intros) simp

lemma framed_ask_io [framed_intros]: "framed (ask_io ctx f)"
  unfolding ask_io_def by (intro framed_intros)

text \<open>Updates of single parts of the state.\<close>

lemma frame_parts [simp]:
  "frame s (s\<lparr>os_calls := n\<rparr>)" "frame s (s\<lparr>alloc_poisoned := p\<rparr>)" "frame s (s\<lparr>core_regs := r\<rparr>)" "frame s (s\<lparr>shared_chip := c\<rparr>)"
  "frame s (s\<lparr>engine_poisoned := q\<rparr>)" "frame s (s\<lparr>boot_lock_poisoned := q\<rparr>)" "frame s (s\<lparr>wedged := w\<rparr>)"
  "frame s (s\<lparr>chip_reset_this_session := q\<rparr>)" "frame s (s\<lparr>shutdown_tails := t\<rparr>)" "frame s (s\<lparr>shutdown_flag := q\<rparr>)"
  "frame s (s\<lparr>console_threads := ct\<rparr>)" "frame s (s\<lparr>console_input := ci\<rparr>)"
  "frame s (s\<lparr>console_threads := ct, console_input := ci\<rparr>)"
  by (simp_all add: frame_def same_registry_def)

lemma frame_world: "same_registry (world s) (f (world s)) \<Longrightarrow> frame s (on_world f s)"
  by (simp add: frame_def)

lemma frame_hub [simp]: "frame s (on_hub i f s)"
  unfolding on_hub_def by (rule frame_world) (simp split: prod.split)

lemma frame_metrics [simp]: "frame s (on_metrics f s)"
  unfolding on_metrics_def by (rule frame_world) simp

lemma frame_core_word [simp]: "frame s (put_core_word i a v s)"
  by (simp add: put_core_word_def frame_world)

lemma frame_core_bytes [simp]: "frame s (put_core_bytes i a bs s)"
proof (induction bs arbitrary: a s)
  case (Cons b bs)
  have "frame s (put_core_byte i a b s)" by (simp add: put_core_byte_def frame_world Let_def)
  then show ?case using Cons.IH frame_trans by auto
qed simp

section \<open>Accesses of the chip\<close>

lemma framed_tile [framed_intros]:
  "framed (open_window E i a)" "framed (l2_read32 E i a)" "framed (l2_write32 E i a v)"
  unfolding l2_read32_def l2_write32_def tile_access_def open_window_def
  by (intro framed_intros framed_upd; simp)+

lemma framed_read_bin_file [framed_intros]: "framed (read_bin_file E p)"
  unfolding read_bin_file_def by (intro framed_intros)

lemma framed_bulk [framed_intros]: "framed (l2cpu_noc_write_bulk E i a bs)"
proof (induction E i a bs rule: l2cpu_noc_write_bulk.induct)
  case (1 E i a bs)
  then show ?case by (subst l2cpu_noc_write_bulk.simps) (intro framed_intros framed_upd; simp)
qed

lemma framed_write_words [framed_intros]: "framed (write_words E i ws)"
  unfolding write_words_def by (intro framed_intros)

lemma framed_load [framed_intros]:
  "framed (load_file E i p a)" "framed (boot_l2cpu E i sbi sa k ka dtb da r ra)" "framed (configure_prefetchers E i)"
  unfolding load_file_def boot_l2cpu_def configure_prefetchers_def by (intro framed_intros)+

lemma framed_results [framed_intros]:
  "framed m \<Longrightarrow> framed (okay m)" "framed m \<Longrightarrow> framed (with_ctx ctx m)" "framed m \<Longrightarrow> framed (drop_result m)"
  unfolding okay_def with_ctx_def drop_result_def by (intro framed_intros; assumption)+

lemma framed_purgatory [framed_intros]:
  "framed (read_u64 E i pa)" "framed (read_status E i)" "framed (purgatory_u64 E i off)" "framed (write_u64_at E i pa v)"
  unfolding read_u64_def read_status_def purgatory_u64_def write_u64_at_def by (intro framed_intros)+

lemma framed_meta [framed_intros]: "framed (read_parked_release_meta E i)"
  unfolding read_parked_release_meta_def by (intro framed_intros)

lemma framed_guests_run [framed_intros]: "framed (guests_run E)"
  unfolding guests_run_def by (intro framed_intros framed_upd frame_world) simp

lemma framed_await_parked [framed_intros]: "framed (await_parked E i n)"
  by (induction n) (simp_all only: await_parked.simps framed_intros)

lemma framed_force_park [framed_intros]: "framed (trigger_force_park_if_available E i)"
  unfolding trigger_force_park_if_available_def by (intro framed_intros)

lemma framed_tails [framed_intros]: "framed (take_slot_dtb_bytes i)" "framed (upd (clear_tail i))"
  unfolding take_slot_dtb_bytes_def by (intro framed_intros framed_upd; simp add: clear_tail_def)+

lemma framed_wake [framed_intros]: "framed (wake_hart0 E i meta ka da)"
  unfolding wake_hart0_def by (intro framed_intros)

lemma framed_net_new [framed_intros]: "framed (virtio_net_new E fwd i h)" "framed (probe_ports E fwd)"
  unfolding virtio_net_new_def probe_ports_def by (intro framed_intros)+

lemma framed_choose [framed_intros]: "framed (choose_boot_device E br ra)" "framed (engine_window E i eng)"
  unfolding choose_boot_device_def engine_window_def by (intro framed_intros)+

lemma framed_make_slot [framed_intros]: "framed (make_slot_from_l2cpu E i)"
  unfolding make_slot_from_l2cpu_def
proof (intro framed_intros framed_upd)
  show "frame s (start_console i s)" for s
    unfolding start_console_def by (rule frame_trans [OF _ frame_world]) simp_all
qed

lemma framed_release [framed_intros]: "framed (release_l2cpu_from_reset E i)"
  unfolding release_l2cpu_from_reset_def by (intro framed_intros framed_upd; simp)

section \<open>Operations that keep the invariant\<close>

definition stable :: "(daemon, 'e, 'a) act \<Rightarrow> bool" where
  "stable m \<longleftrightarrow> (\<forall>s. daemon_inv s \<longrightarrow> keeps_inv m s)"

named_theorems stable_intros \<open>operations that keep the invariant\<close>

lemma stableI: "(\<And>s. daemon_inv s \<Longrightarrow> keeps_inv m s) \<Longrightarrow> stable m"
  by (simp add: stable_def)

lemma stableD: "stable m \<Longrightarrow> daemon_inv s \<Longrightarrow> keeps_inv m s"
  by (simp add: stable_def)

lemma framed_stable: "framed m \<Longrightarrow> stable m"
  by (rule stableI, unfold keeps_inv_def, erule framed_wp) (blast intro: frame_inv)+

lemma stable_seq [stable_intros]: "stable m \<Longrightarrow> (\<And>a. stable (f a)) \<Longrightarrow> stable (seq m f)"
  unfolding stable_def keeps_inv_def wp_simps by (auto elim!: wp_mono)

lemma stable_thn [stable_intros]: "stable m \<Longrightarrow> stable k \<Longrightarrow> stable (thn m k)"
  unfolding thn_def by (intro stable_intros)

lemma stable_if [stable_intros]: "(b \<Longrightarrow> stable m) \<Longrightarrow> (\<not> b \<Longrightarrow> stable k) \<Longrightarrow> stable (if b then m else k)"
  by simp

lemma stable_option [stable_intros]: "stable m \<Longrightarrow> (\<And>a. stable (f a)) \<Longrightarrow> stable (case x of None \<Rightarrow> m | Some a \<Rightarrow> f a)"
  by (simp split: option.split)

lemma stable_let [stable_intros]: "stable (f a) \<Longrightarrow> stable (let x = a in f x)"
  by (simp add: Let_def)

lemma stable_wrap [stable_intros]:
  "stable m \<Longrightarrow> stable (map_err g m)" "stable m \<Longrightarrow> stable (catch m)" "stable m \<Longrightarrow> stable (ignore m)"
  unfolding stable_def keeps_inv_def wp_simps by simp_all

lemma stable_with_ctx [stable_intros]: "stable m \<Longrightarrow> stable (with_ctx ctx m)"
  unfolding with_ctx_def by (rule stable_wrap(1))

lemmas stable_basic [stable_intros] = framed_basic [THEN framed_stable]

lemma stable_upd: "(\<And>s. daemon_inv s \<Longrightarrow> daemon_inv (f s)) \<Longrightarrow> stable (upd f)"
  unfolding stable_def keeps_inv_def wp_simps by simp

lemma stable_handlers [stable_intros]:
  "stable (dispatch_add_disk E idx path name)" "stable (dispatch_add_net E idx p fwd)" "stable (dispatch_add_console idx)"
  "stable (attach_rng_inline i)" "stable (dispatch_remove_disk idx name)" "stable (dispatch_remove_net idx)"
  "stable (dispatch_remove_console idx)" "stable (dispatch_stop idx)" "stable (internal_stop idx reason)"
  by (intro stableI keeps_add_disk keeps_add_net keeps_add_console keeps_attach_rng keeps_remove_disk keeps_remove_net
      keeps_remove_console keeps_stop keeps_internal_stop; assumption)+

section \<open>Waking a parked guest\<close>

lemma drop_devices_ok [simp]: "disks_ok i (drop_devices sl)" "blk_dtb_ok (drop_devices sl) = blk_dtb_ok sl" "attached i (drop_devices sl) = {}"
  by (simp_all add: drop_devices_def disks_ok_def blk_dtb_ok_def attached_def)

text \<open>The devices of a slot are taken out of the slot and then out of the registry.\<close>

definition attached_list :: "nat \<Rightarrow> l2cpu_slot \<Rightarrow> nat list" where
  "attached_list i sl = map dw_slot_idx (sl_disks sl) @ (if sl_net sl then [engine_slot i DEV_NET] else []) @
     (if sl_virtio_console sl then [engine_slot i DEV_CONSOLE] else []) @ (if sl_virtio_rng sl then [engine_slot i DEV_RNG] else [])"

lemma set_attached_list [simp]: "set (attached_list i sl) = attached i sl"
  by (simp add: attached_list_def attached_def Un_assoc)

lemma unregister_attached_fold: "unregister_attached i sl = fold unregister (attached_list i sl)"
  by (auto simp: attached_list_def unregister_attached_def unregister_disks_fold fun_eq_iff)

lemma inv_drop_devices:
  assumes inv: "daemon_inv s" and sl: "l2cpus s i = Some sl" "\<not> slot_poisoned s i"
  shows "daemon_inv (put_slot i (Some (drop_devices sl)) s)" "daemon_inv (unregister_attached i sl (put_slot i (Some (drop_devices sl)) s))"
proof -
  note ok = inv_slot [OF inv sl]
  show put: "daemon_inv (put_slot i (Some (drop_devices sl)) s)" using ok by (intro inv_shrink [OF inv sl]) simp_all
  have j_out: "k \<notin> attached j slj" if k: "k \<in> attached i sl" and j: "l2cpus (put_slot i (Some (drop_devices sl)) s) j = Some slj" "\<not> slot_poisoned s j" for k j slj
  proof (cases "j = i")
    case False
    then show ?thesis using attached_owner [OF ok(2,3) k] not_attached_elsewhere [OF put j(1)] j(2) by auto
  next
    case True
    then have "slj = drop_devices sl" using j by simp
    then show ?thesis by simp
  qed
  show "daemon_inv (unregister_attached i sl (put_slot i (Some (drop_devices sl)) s))"
    unfolding unregister_attached_fold using j_out by (intro inv_unregister_list put) simp_all
qed

lemma stable_swap [stable_intros]: "stable (swap_attached_for_release E idx disk ci net fwd rng con)"
  unfolding swap_attached_for_release_def
proof (intro stable_intros framed_stable [OF framed_ask_io] framed_stable [OF framed_basic(1)])
  show "stable (with_booted (unat idx) (\<lambda>sl. thn (upd (put_slot (unat idx) (Some (drop_devices sl))))
          (with_dispatcher (\<lambda>up. upd (if up then unregister_attached (unat idx) sl else id)))))"
  proof (rule stableI, rule keeps_with_booted, assumption)
    fix s sl assume "daemon_inv s" "\<not> slot_poisoned s (unat idx)" "l2cpus s (unat idx) = Some sl"
    then show "keeps_inv (thn (upd (put_slot (unat idx) (Some (drop_devices sl))))
          (with_dispatcher (\<lambda>up. upd (if up then unregister_attached (unat idx) sl else id)))) s"
      unfolding keeps_inv_def wp_simps using inv_drop_devices by auto
  qed
qed

lemma stable_release [stable_intros]: "stable (dispatch_release E L idx pl meta dtb disk ci net fwd rng con)"
  unfolding dispatch_release_def Let_def
  by (intro stable_seq stable_thn stable_if stable_option stable_swap; intro framed_stable framed_intros)

section \<open>Booting\<close>

lemma framed_shutdown: "frame s (slot_shutdown i s)" "frame s (save_tail i s)" "frame s (disconnect i m s)"
  by (simp_all add: slot_shutdown_def save_tail_def disconnect_def)

lemma stable_existing [stable_intros]: "stable (handle_existing_slot i force)"
proof (rule stableI)
  fix s assume inv: "daemon_inv s"
  have "daemon_inv (slot_shutdown i (unregister_engine_slots i (disconnect i m (put_slot i None s))))" for m
    using inv_put_None [OF inv, of i]
    by (intro frame_inv [OF framed_shutdown(1)] inv_unregister_engine_slots frame_inv [OF framed_shutdown(3)]) simp_all
  then show "keeps_inv (handle_existing_slot i force) s"
    unfolding handle_existing_slot_def keeps_inv_def wp_simps using inv
    by (cases "l2cpus s i"; cases force; simp only: decide_boot_slot_def) (simp_all add: wp_simps inv_poisoned del: act_simps)
qed

text \<open>The engine is only replaced when there is none, and then nothing is registered.\<close>

lemma inv_spawn:
  assumes "daemon_inv s" "tensix_engine s = None"
  shows "daemon_inv ((on_world (dispatcher_spawn m) s)\<lparr>dispatcher := True, tensix_engine := Some eng\<rparr>)"
proof -
  let ?s = "(on_world (dispatcher_spawn m) s)\<lparr>dispatcher := True, tensix_engine := Some eng\<rparr>"
  have "slot_served ?s i sl" if "l2cpus s i = Some sl" "\<not> slot_poisoned s i" for i sl
  proof -
    have "\<not> serves s i dev_idx" for dev_idx using assms by (auto simp: daemon_inv_def serves_def)
    then show ?thesis using inv_slot(4) [OF assms(1) that] by (simp add: slot_served_def)
  qed
  then have "slots_ok ?s" using inv_slot(1-3) [OF assms(1)] by (simp add: slots_ok_def)
  moreover have "registry_ok (world ?s)" by (simp add: registry_ok_def dispatcher_spawn_def entries_ok_def)
  ultimately show ?thesis by (simp add: daemon_inv_def)
qed

lemma keeps_install:
  assumes "daemon_inv s" "tensix_engine s = None"
  shows "keeps_inv (install_engine E eng) s"
  unfolding install_engine_def keeps_inv_def wp_simps using assms inv_spawn [of "s\<lparr>os_calls := Suc (os_calls s)\<rparr>"] by simp

lemma framed_engine_failed [framed_intros]: "framed (engine_failed E e)"
  unfolding engine_failed_def by (intro framed_intros framed_upd; simp)

lemma keeps_engine_failed: "daemon_inv s \<Longrightarrow> wp (engine_failed E e) (\<lambda>_. daemon_inv) (\<lambda>_. daemon_inv) s"
  using stableD [OF framed_stable [OF framed_engine_failed]] by (simp add: keeps_inv_def)

lemma stable_bring_up [stable_intros]: "stable (get_or_bring_up_tensix_engine E)" "stable (adopt_running_tensix_engine E)"
proof -
  show "stable (get_or_bring_up_tensix_engine E)"
    unfolding stable_def get_or_bring_up_tensix_engine_def keeps_inv_def wp_simps
    by (auto split: option.split sum.split prod.split intro!: keeps_install [unfolded keeps_inv_def] keeps_engine_failed)
  show "stable (adopt_running_tensix_engine E)"
    unfolding stable_def adopt_running_tensix_engine_def keeps_inv_def wp_simps
    by (auto split: option.split sum.split prod.split intro!: keeps_install [unfolded keeps_inv_def] keeps_engine_failed)
qed

lemma stable_boot_sequence [stable_intros]: "stable (run_boot_sequence E L br)"
  unfolding run_boot_sequence_def Let_def
  by (intro stable_seq stable_thn stable_if stable_option stable_wrap stable_with_ctx stable_bring_up; (intro framed_stable framed_intros)?)

section \<open>The reset of an idle board\<close>

definition idle :: "daemon \<Rightarrow> nat \<Rightarrow> bool" where
  "idle s j \<longleftrightarrow> l2cpus s j = None \<or> slot_poisoned s j"

lemma wp_conj: "wp m Q R s \<Longrightarrow> wp m Q' R' s \<Longrightarrow> wp m (\<lambda>a t. Q a t \<and> Q' a t) (\<lambda>e t. R e t \<and> R' e t) s"
  by (auto simp: wp_def split: prod.splits sum.splits)

lemma wp_seqI: "wp m P R s \<Longrightarrow> (\<And>a t. P a t \<Longrightarrow> wp (f a) Q R t) \<Longrightarrow> wp (seq m f) Q R s"
  unfolding wp_seq by (rule wp_mono)

lemma frame_idle: "frame s s' \<Longrightarrow> idle s j \<Longrightarrow> idle s' j"
  by (auto simp: frame_def idle_def)

lemma stop_fields [simp]:
  "l2cpus (maybe_idle_pll s) = l2cpus s" "slot_poisoned (maybe_idle_pll s) = slot_poisoned s"
  "l2cpus (slot_shutdown i s) = l2cpus s" "slot_poisoned (slot_shutdown i s) = slot_poisoned s"
  "l2cpus (unregister_engine_slots i s) = l2cpus s" "slot_poisoned (unregister_engine_slots i s) = slot_poisoned s"
  "l2cpus (save_tail i s) = l2cpus s" "slot_poisoned (save_tail i s) = slot_poisoned s"
  by (simp_all add: maybe_idle_pll_def slot_shutdown_def unregister_engine_slots_fold save_tail_def split: sum.split)

lemma stop_leaves_idle:
  assumes "idx < 4"
  shows "wp (internal_stop idx reason) (\<lambda>_ t. idle t (unat idx) \<and> (\<forall>j. idle s j \<longrightarrow> idle t j)) (\<lambda>_ t. idle t (unat idx) \<and> (\<forall>j. idle s j \<longrightarrow> idle t j)) s"
  unfolding internal_stop_def wp_simps using assms by (auto simp: idle_def split: option.split)

lemma stops_leave_idle:
  assumes "daemon_inv s" "set js \<subseteq> {..<4}"
  shows "wp (each (\<lambda>j. ignore (internal_stop (word_of_nat j) reason)) js :: unit rpc)
     (\<lambda>_ t. daemon_inv t \<and> (\<forall>j. j \<in> set js \<or> idle s j \<longrightarrow> idle t j)) (\<lambda>_. daemon_inv) s"
  using assms
proof (induction js arbitrary: s)
  case (Cons j js)
  have j: "(word_of_nat j :: u8) < 4" "unat (word_of_nat j :: u8) = j"
    using Cons.prems(2) by (simp_all add: word_less_nat_alt unat_of_nat)
  have "wp (internal_stop (word_of_nat j) reason) (\<lambda>_ t. daemon_inv t \<and> idle t j \<and> (\<forall>k. idle s k \<longrightarrow> idle t k))
      (\<lambda>_ t. daemon_inv t \<and> idle t j \<and> (\<forall>k. idle s k \<longrightarrow> idle t k)) s"
    using wp_conj [OF keeps_internal_stop [OF Cons.prems(1), unfolded keeps_inv_def] stop_leaves_idle [OF j(1)]] j(2) by simp
  then have "wp (ignore (internal_stop (word_of_nat j) reason) :: unit rpc) (\<lambda>_ t. daemon_inv t \<and> idle t j \<and> (\<forall>k. idle s k \<longrightarrow> idle t k))
      (\<lambda>_. daemon_inv) s" by (simp only: wp_simps)
  then show ?case unfolding each.simps wp_thn
  proof (rule wp_mono)
    fix t assume t: "daemon_inv t \<and> idle t j \<and> (\<forall>k. idle s k \<longrightarrow> idle t k)"
    show "wp (each (\<lambda>j. ignore (internal_stop (word_of_nat j) reason)) js :: unit rpc)
      (\<lambda>_ u. daemon_inv u \<and> (\<forall>k. k \<in> set (j # js) \<or> idle s k \<longrightarrow> idle u k)) (\<lambda>_. daemon_inv) t"
      by (rule wp_mono [OF Cons.IH [of t]]) (use t Cons.prems in auto)
  qed auto
qed (simp only: each.simps wp_simps, simp)

lemma scan_sound:
  "wp (scan_siblings E js) (\<lambda>(running, parked) t. frame s t \<and> set parked \<subseteq> set js \<and>
     (\<forall>j\<in>set js. j \<in> set running \<or> j \<in> set parked \<or> idle t j)) (\<lambda>_. frame s) s"
proof (induction js arbitrary: s)
  case (Cons j js)
  have one: "wp (with_slot j (\<lambda>sl. case sl of None \<Rightarrow> ret None | Some _ \<Rightarrow> seq (read_status E j) (\<lambda>purg. ret (Some (classify_sibling purg)))))
      (\<lambda>c t. frame s t \<and> (c = None \<longrightarrow> idle t j)) (\<lambda>_. frame s) s"
    unfolding wp_simps
    by (auto simp: wp_simps idle_def split: option.split fault.split
        intro!: framed_wp [OF framed_purgatory(2)] simp del: act_simps intro: frame_trans [rotated])
      (auto simp: frame_def)
  show ?case unfolding scan_siblings.simps wp_seq
  proof (rule wp_mono [OF one])
    fix c :: "sibling_classification option" and t assume c: "frame s t \<and> (c = None \<longrightarrow> idle t j)"
    show "wp (scan_siblings E js) (\<lambda>a. wp (case a of (running, parked) \<Rightarrow> ret (case c of None \<Rightarrow> (running, parked)
          | Some Parked_Sibling \<Rightarrow> (running, j # parked) | Some Running_Sibling \<Rightarrow> (j # running, parked)))
        (\<lambda>(running, parked) u. frame s u \<and> set parked \<subseteq> set (j # js) \<and> (\<forall>j\<in>set (j # js). j \<in> set running \<or> j \<in> set parked \<or> idle u j)) (\<lambda>_. frame s))
      (\<lambda>_. frame s) t"
      using Cons.IH [of t]
      by (rule wp_mono) (use c in \<open>auto simp: wp_simps split: option.split sibling_classification.split intro: frame_trans frame_idle simp del: act_simps\<close>)
  qed simp
qed (simp only: scan_siblings.simps wp_simps, simp)

lemma inv_drop_dispatcher:
  assumes "daemon_inv s" "\<And>j. j < 4 \<Longrightarrow> idle s j"
  shows "daemon_inv (drop_dispatcher s)"
proof -
  have "slot_poisoned s j" if "l2cpus s j = Some sl" for j sl
    using inv_slot(1) [OF assms(1) that] assms(2) [of j] that by (auto simp: idle_def)
  then show ?thesis by (auto simp: daemon_inv_def slots_ok_def drop_dispatcher_def registry_ok_def entries_ok_def on_world_def)
qed

lemma framed_chip_reset [framed_intros]: "framed (chip_reset E)"
proof -
  have "frame s ((on_world (\<lambda>w. w\<lparr>dram := m\<rparr>) s)\<lparr>shared_chip := c, core_regs := ws\<rparr>)" for s m c ws
    by (simp add: frame_def)
  moreover have "framed (case e of Driver msg \<Rightarrow> fail (io_ctx ''opportunistic reset_board'' (io_other msg)) | _ \<Rightarrow> fail (Crash ''SharedChip''))" for e
    by (cases e) (simp_all add: framed_intros del: act_simps)
  ultimately show ?thesis unfolding chip_reset_def split_beta by (intro framed_intros framed_upd frame_parts; assumption?)
qed

lemma inv_no_engine: "daemon_inv s \<Longrightarrow> \<not> dispatcher s \<Longrightarrow> daemon_inv (s\<lparr>tensix_engine := None\<rparr>)"
  by (simp add: daemon_inv_def slots_ok_def slot_served_def serves_def)

text \<open>What follows once every other core has been stopped.\<close>

lemma keeps_reset_tail:
  assumes "daemon_inv s" "\<And>j. j < 4 \<Longrightarrow> idle s j"
  shows "keeps_inv (thn (with_dispatcher (\<lambda>_. upd drop_dispatcher))
     (thn (guarded engine_poisoned (\<lambda>s. s) (upd (\<lambda>s. s\<lparr>tensix_engine := None\<rparr>))) (chip_reset E))) s"
proof -
  have "daemon_inv (drop_dispatcher s)" "\<not> dispatcher (drop_dispatcher s)"
    using inv_drop_dispatcher [OF assms] by (simp_all add: drop_dispatcher_def)
  moreover from this have "daemon_inv ((drop_dispatcher s)\<lparr>tensix_engine := None\<rparr>)" by (rule inv_no_engine)
  then have "wp (chip_reset E) (\<lambda>_. daemon_inv) (\<lambda>_. daemon_inv) ((drop_dispatcher s)\<lparr>tensix_engine := None\<rparr>)"
    using stableD [OF framed_stable [OF framed_chip_reset]] by (simp add: keeps_inv_def)
  ultimately show ?thesis unfolding keeps_inv_def wp_simps wp_guarded using assms(1) by simp
qed

lemma keeps_reset:
  assumes inv: "daemon_inv s" and idle: "idle s target"
  shows "keeps_inv (maybe_opportunistic_reset_board E target) s"
proof -
  let ?js = "filter (\<lambda>j. j \<noteq> target) [0..<4]"
  let ?stop = "each (\<lambda>j. ignore (internal_stop (word_of_nat j) ''opportunistic reset_board''))"
  let ?rest = "thn (with_dispatcher (\<lambda>_. upd drop_dispatcher))
     (thn (guarded engine_poisoned (\<lambda>s. s) (upd (\<lambda>s. s\<lparr>tensix_engine := None\<rparr>))) (chip_reset E))"
  have stop: "wp (thn (?stop parked) ?rest) (\<lambda>_. daemon_inv) (\<lambda>_. daemon_inv) t"
    if "frame s t" "set parked \<subseteq> set ?js" "\<forall>j\<in>set ?js. j \<in> set parked \<or> idle t j" for parked t
  proof -
    have t: "daemon_inv t" "idle t target" using frame_inv [OF that(1) inv] frame_idle [OF that(1) idle] by simp_all
    have "set parked \<subseteq> {..<4}" using that(2) by auto
    show ?thesis unfolding wp_thn [of "?stop parked"]
    proof (rule wp_mono [OF stops_leave_idle [OF t(1) \<open>set parked \<subseteq> {..<4}\<close>]])
      fix u assume u: "daemon_inv u \<and> (\<forall>j. j \<in> set parked \<or> idle t j \<longrightarrow> idle u j)"
      then have "idle u j" if "j < 4" for j using that t(2) \<open>\<forall>j\<in>set ?js. j \<in> set parked \<or> idle t j\<close> by (cases "j = target") auto
      then show "wp ?rest (\<lambda>_. daemon_inv) (\<lambda>_. daemon_inv) u" using keeps_reset_tail u by (simp add: keeps_inv_def del: act_simps)
    qed
  qed
  have "wp (seq (scan_siblings E ?js) (\<lambda>(running, parked). if running \<noteq> [] then ret () else thn (?stop parked) ?rest))
      (\<lambda>_. daemon_inv) (\<lambda>_. daemon_inv) s"
    unfolding wp_seq
  proof (rule wp_mono [OF scan_sound [of E ?js s]], goal_cases)
    case (1 a t)
    then show ?case using inv frame_inv stop by (cases a; cases "fst a = []") (auto simp: wp_simps simp del: act_simps)
  qed (use inv frame_inv in blast)
  then show ?thesis unfolding maybe_opportunistic_reset_board_def keeps_inv_def
    using inv by (auto simp: wp_simps wp_guarded internal_def split: fault.split elim!: wp_mono simp del: act_simps)
qed

section \<open>The devices of a boot\<close>

text \<open>A slot that is not installed yet, with all it lists already served.\<close>

definition ready :: "nat \<Rightarrow> l2cpu_slot \<Rightarrow> daemon \<Rightarrow> bool" where
  "ready i sl s \<longleftrightarrow> daemon_inv s \<and> i < 4 \<and> disks_ok i sl \<and> blk_dtb_ok sl \<and> slot_served s i sl \<and> dispatcher s"

lemma ready_inv: "ready i sl s \<Longrightarrow> daemon_inv s"
  by (simp add: ready_def)

lemma ready_frame: "frame s s' \<Longrightarrow> ready i sl s \<Longrightarrow> ready i sl s'"
  using frame_inv frame_serves by (auto simp: ready_def slot_served_def frame_def)

lemma ready_register:
  assumes r: "ready i sl s" and dev: "dev_idx < 8" "kind = kind_of dev_idx"
    and sl': "disks_ok i sl'" "blk_dtb_ok sl'" "attached i sl' \<subseteq> insert (engine_slot i dev_idx) (attached i sl)"
  shows "ready i sl' (register_device i dev_idx d irq kind s)"
proof -
  have "slot_served (register_device i dev_idx d irq kind s) i sl'"
    unfolding slot_served_def
  proof (intro allI impI)
    fix k assume k: "k < 8" "engine_slot i k \<in> attached i sl'"
    show "serves (register_device i dev_idx d irq kind s) i k"
    proof (cases "k = dev_idx")
      case True
      then show ?thesis using r dev by (simp add: serves_registered_device ready_def)
    next
      case False
      then have "serves s i k" using k sl'(3) dev(1) r by (auto simp: engine_slot_inj ready_def slot_served_def)
      then have "serves (store_config i dev_idx d s) i k" by (simp add: serves_def store_config_def)
      then show ?thesis using k dev by (simp add: register_device_def serves_register)
    qed
  qed
  then show ?thesis using r dev sl' by (simp add: ready_def inv_register_device)
qed

lemma boot_disk_ready:
  assumes r: "ready (unat idx) sl s" and dev: "dev_idx \<in> set (sl_blk_dtb_dev_idx sl)" "engine_slot (unat idx) dev_idx \<notin> dw_slot_idx ` set (sl_disks sl)"
    and name: "nm = None \<or> nm \<notin> dw_name ` set (sl_disks sl)"
  shows "wp (boot_attach_disk E idx path nm dev_idx irq sl)
     (\<lambda>sl' t. ready (unat idx) sl' t \<and> (sl' = sl \<or> sl' = sl\<lparr>sl_disks := sl_disks sl @ [\<lparr>dw_path = path, dw_slot_idx = engine_slot (unat idx) dev_idx, dw_name = nm\<rparr>]\<rparr>))
     (\<lambda>_. daemon_inv) s"
proof -
  let ?sl = "sl\<lparr>sl_disks := sl_disks sl @ [\<lparr>dw_path = path, dw_slot_idx = engine_slot (unat idx) dev_idx, dw_name = nm\<rparr>]\<rparr>"
  have calls: "ready (unat idx) sl (s\<lparr>os_calls := n\<rparr>)" for n using r by (rule ready_frame [rotated]) simp
  have blk: "dev_idx \<in> {DEV_BLK, DEV_BLK1, DEV_BLK2}" using r dev by (auto simp: ready_def blk_dtb_ok_def)
  have ok: "disks_ok (unat idx) ?sl" "blk_dtb_ok ?sl" "attached (unat idx) ?sl \<subseteq> insert (engine_slot (unat idx) dev_idx) (attached (unat idx) sl)"
    using r dev name by (auto simp: ready_def disks_ok_def blk_dtb_ok_def attached_def)
  then have "ready (unat idx) ?sl (register_device (unat idx) dev_idx d irq Block (s\<lparr>os_calls := n\<rparr>))" for d n
    using blk_bound [OF blk] kind_of_blk [OF blk] by (intro ready_register [OF calls]) simp_all
  then show ?thesis unfolding boot_attach_disk_def wp_simps using calls by (auto split: sum.split option.split)
qed

lemma boot_net_ready:
  assumes "ready (unat (br_l2cpu br)) sl s"
  shows "wp (boot_attach_net E br sl) (\<lambda>sl'. ready (unat (br_l2cpu br)) sl') (\<lambda>_. daemon_inv) s"
proof -
  let ?i = "unat (br_l2cpu br)"
  have reg: "ready ?i (sl\<lparr>sl_net := True\<rparr>) (register_device ?i DEV_NET (Net net) NET_IRQ interrupt_kind.Net t)" if "ready ?i sl t" for net t
    using that by (intro ready_register [OF that]) (auto simp: ready_def disks_ok_def blk_dtb_ok_def attached_def kind_of_def)
  have new: "wp (virtio_net_new E fwd ?i h) Q R s" if "\<And>a t. frame s t \<Longrightarrow> Q a t" "\<And>e t. frame s t \<Longrightarrow> R e t" for fwd h Q R
    using that by (rule framed_wp [OF framed_net_new(1)])
  show ?thesis unfolding boot_attach_net_def Let_def wp_simps
    using assms ready_frame reg ready_inv
    by (auto intro!: new split: failure.split simp: wp_simps simp del: act_simps) (meson ready_frame ready_inv)+
qed

lemma boot_devices_ready:
  assumes r: "ready (unat (br_l2cpu br)) sl s" and none: "sl_disks sl = []"
    and dtb: "sl_blk_dtb_dev_idx sl = DEV_BLK # (if br_cloud_init br \<noteq> None then [DEV_BLK1] else [])"
  shows "wp (boot_devices E br sl) (\<lambda>sl'. ready (unat (br_l2cpu br)) sl') (\<lambda>_. daemon_inv) s"
proof -
  let ?i = "unat (br_l2cpu br)"
  have rng: "ready ?i sl (register_device ?i DEV_RNG Rng RNG_IRQ interrupt_kind.Rng s)"
    using r by (intro ready_register [OF r]) (auto simp: ready_def kind_of_def dev_defs)
  have console: "ready ?i (sl'\<lparr>sl_virtio_console := True\<rparr>) (register_device ?i DEV_CONSOLE (Con (console_new idx)) CONSOLE_IRQ Console (fresh_input ?i t))"
    if "ready ?i sl' t" for sl' t idx
  proof -
    have "ready ?i sl' (fresh_input ?i t)" unfolding fresh_input_def by (rule ready_frame [OF frame_world that]) simp
    then show ?thesis using that by (intro ready_register) (auto simp: ready_def disks_ok_def blk_dtb_ok_def attached_def kind_of_def dev_defs)
  qed
  have uart: "ready ?i sl' (on_world (register_uart ?i) t)" if "ready ?i sl' t" for sl' t
    using that registry_ok_step(3) by (auto simp: ready_def daemon_inv_def slots_ok_def slot_served_def serves_def)
  let ?con = "\<lambda>sl'. seq (if br_console br
            then thn (upd (fresh_input ?i)) (thn (upd (register_device ?i DEV_CONSOLE (Con (console_new (br_l2cpu br))) CONSOLE_IRQ Console))
              (ret (sl'\<lparr>sl_virtio_console := True\<rparr>)))
            else ret sl') (\<lambda>sl'. thn (upd (on_world (register_uart ?i))) (ret sl'))"
  have net: "wp (seq (boot_attach_net E br sl') ?con) (\<lambda>sl'. ready ?i sl') (\<lambda>_. daemon_inv) t" if "ready ?i sl' t" for sl' t
    unfolding wp_seq [of "boot_attach_net E br sl'"] using boot_net_ready [OF that]
    by (rule wp_mono) (simp_all add: wp_simps console uart del: act_simps)
  let ?d = "\<lambda>path. \<lparr>dw_path = path, dw_slot_idx = engine_slot ?i DEV_BLK, dw_name = None\<rparr>"
  have seed: "wp (seq (case br_cloud_init br of None \<Rightarrow> ret sl' | Some path \<Rightarrow> boot_attach_disk E (br_l2cpu br) path (Some ''cidata'') DEV_BLK1 DISK1_IRQ sl')
      (\<lambda>sl'. seq (boot_attach_net E br sl') ?con)) (\<lambda>sl'. ready ?i sl') (\<lambda>_. daemon_inv) t"
    if "ready ?i sl' t" "sl' = sl \<or> sl' = sl\<lparr>sl_disks := sl_disks sl @ [?d path]\<rparr>" for sl' t path
  proof (cases "br_cloud_init br")
    case (Some seed_path)
    have "wp (boot_attach_disk E (br_l2cpu br) seed_path (Some ''cidata'') DEV_BLK1 DISK1_IRQ sl') (\<lambda>sl'. ready ?i sl') (\<lambda>_. daemon_inv) t"
      by (rule wp_mono [OF boot_disk_ready]) (use that none dtb Some in \<open>auto simp: engine_slot_inj dev_defs\<close>)
    then show ?thesis unfolding Some option.case by (rule wp_seqI) (rule net)
  qed (use net [OF that(1)] in \<open>simp add: wp_ret wp_seq [of "ret sl'"] del: act_simps\<close>)
  have disk: "wp (seq (case br_disk br of None \<Rightarrow> ret sl | Some path \<Rightarrow> boot_attach_disk E (br_l2cpu br) path None DEV_BLK DISK_IRQ sl)
      (\<lambda>sl'. seq (case br_cloud_init br of None \<Rightarrow> ret sl' | Some path \<Rightarrow> boot_attach_disk E (br_l2cpu br) path (Some ''cidata'') DEV_BLK1 DISK1_IRQ sl')
      (\<lambda>sl'. seq (boot_attach_net E br sl') ?con))) (\<lambda>sl'. ready ?i sl') (\<lambda>_. daemon_inv) t"
    if "ready ?i sl t" for t
  proof (cases "br_disk br")
    case (Some path)
    show ?thesis unfolding Some option.case
      by (rule wp_seqI [OF boot_disk_ready [OF that]]) (use none dtb seed in auto)
  qed (use seed [OF that] in \<open>simp add: wp_ret wp_seq [of "ret sl"] del: act_simps\<close>)
  show ?thesis unfolding boot_devices_def Let_def wp_thn
    using disk [OF r] disk [OF rng] by (simp add: wp_upd wp_ret del: act_simps)
qed

section \<open>The boot request\<close>

definition installable :: "nat \<Rightarrow> l2cpu_slot \<Rightarrow> daemon \<Rightarrow> bool" where
  "installable i sl s \<longleftrightarrow> daemon_inv s \<and> i < 4 \<and> disks_ok i sl \<and> blk_dtb_ok sl \<and> slot_served s i sl"

lemma ready_installable: "ready i sl s \<Longrightarrow> installable i sl s"
  by (simp add: ready_def installable_def)

lemma installable_frame: "frame s s' \<Longrightarrow> installable i sl s \<Longrightarrow> installable i sl s'"
  using frame_inv frame_serves by (auto simp: installable_def slot_served_def)

lemma booted_slot_installable:
  assumes "daemon_inv s" "br_l2cpu br < 4" "sl_disks sl = []" "\<not> sl_net sl" "\<not> sl_virtio_console sl" "\<not> sl_virtio_rng sl"
    "sl_blk_dtb_dev_idx sl = DEV_BLK # (if br_cloud_init br \<noteq> None then [DEV_BLK1] else [])"
  shows "wp (register_boot_devices E br sl) (\<lambda>sl'. installable (unat (br_l2cpu br)) sl') (\<lambda>_. daemon_inv) s"
proof -
  have i: "unat (br_l2cpu br) < 4" using assms(2) by (simp add: word_less_nat_alt)
  have new: "installable (unat (br_l2cpu br)) sl s"
    using assms i by (auto simp: installable_def disks_ok_def blk_dtb_ok_def slot_served_def attached_def)
  have "wp (boot_devices E br sl) (\<lambda>sl'. installable (unat (br_l2cpu br)) sl') (\<lambda>_. daemon_inv) s" if "dispatcher s"
    by (rule wp_mono [OF boot_devices_ready]) (use that new assms in \<open>auto simp: ready_def installable_def intro: ready_installable\<close>)
  then show ?thesis unfolding register_boot_devices_def wp_simps using new assms(1)
    by (auto elim!: wp_mono split: fault.split)
qed

lemma keeps_install_slot:
  assumes "installable i sl s"
  shows "keeps_inv (install_slot_and_reply_ok i sl) s"
  using assms unfolding install_slot_and_reply_ok_def keeps_inv_def wp_simps installable_def
  by (auto intro!: inv_metrics inv_put_slot)

lemma existing_idle: "wp (handle_existing_slot i force) (\<lambda>_ t. idle t i) (\<lambda>_ _. True) s"
  unfolding handle_existing_slot_def wp_simps
  by (cases "l2cpus s i"; cases force; simp only: decide_boot_slot_def) (simp_all add: wp_simps idle_def del: act_simps)

lemma make_slot_fresh: "wp (make_slot_from_l2cpu E i) (\<lambda>sl t. sl = fresh_slot \<and> frame s t) (\<lambda>_. frame s) s"
proof -
  have "wp (make_slot_from_l2cpu E i) (\<lambda>sl _. sl = fresh_slot) (\<lambda>_ _. True) s"
    by (simp add: wp_def make_slot_from_l2cpu_def thn_def seq_def upd_def ret_def split: prod.split sum.split)
  from wp_conj [OF this framed_make_slot [unfolded framed_def, rule_format]] show ?thesis by (rule wp_mono) auto
qed

lemma framed_keeps: "framed m \<Longrightarrow> daemon_inv s \<Longrightarrow> wp m (\<lambda>_. daemon_inv) (\<lambda>_. daemon_inv) s"
  using stableD [OF framed_stable] by (simp add: keeps_inv_def)

lemma keeps_cold_boot:
  assumes inv: "daemon_inv s" and i: "br_l2cpu br < 4"
  shows "keeps_inv (cold_boot E L br) s"
proof -
  let ?i = "unat (br_l2cpu br)"
  let ?sl = "\<lambda>sl dtb. sl\<lparr>sl_dtb_bytes := Some dtb, sl_boot_payload := Some (br_payload br), sl_net_extra_fwd := br_extra_fwd br,
      sl_blk_dtb_dev_idx := DEV_BLK # (if br_cloud_init br \<noteq> None then [DEV_BLK1] else [])\<rparr>"
  let ?Q = "\<lambda>_. daemon_inv"
  have release: "wp (thn (release_l2cpu_from_reset E ?i) (install_slot_and_reply_ok ?i sl)) ?Q ?Q t" if "installable ?i sl t" for sl t
    unfolding wp_thn
  proof (rule framed_wp [OF framed_release])
    show "wp (install_slot_and_reply_ok ?i sl) ?Q ?Q u" if "frame t u" for u
      using keeps_install_slot installable_frame [OF that \<open>installable ?i sl t\<close>] by (simp add: keeps_inv_def)
    show "daemon_inv u" if "frame t u" for u using installable_frame [OF that \<open>installable ?i sl t\<close>] by (simp add: installable_def)
  qed
  have devices: "wp (seq (register_boot_devices E br (?sl fresh_slot dtb)) (\<lambda>sl. thn (release_l2cpu_from_reset E ?i) (install_slot_and_reply_ok ?i sl))) ?Q ?Q t"
    if "daemon_inv t" for dtb t
    by (rule wp_seqI [OF booted_slot_installable [OF that i]]) (use release in \<open>auto simp: fresh_slot_def\<close>)
  have slot: "wp (seq (with_ctx ctx (make_slot_from_l2cpu E ?i)) (\<lambda>sl. seq (register_boot_devices E br (?sl sl dtb))
      (\<lambda>sl. thn (release_l2cpu_from_reset E ?i) (install_slot_and_reply_ok ?i sl)))) ?Q ?Q t"
    if "daemon_inv t" for dtb t ctx
  proof -
    have "wp (with_ctx ctx (make_slot_from_l2cpu E ?i)) (\<lambda>sl u. sl = fresh_slot \<and> daemon_inv u) ?Q t"
      unfolding with_ctx_def wp_simps using make_slot_fresh by (rule wp_mono) (use that frame_inv in auto)
    then show ?thesis by (rule wp_seqI) (use devices in auto)
  qed
  have boot: "wp (with_ctx ''boot failed'' (run_boot_sequence E L br)) ?Q ?Q t" if "daemon_inv t" for t
    using stableD [OF stable_with_ctx [OF stable_boot_sequence]] that by (simp add: keeps_inv_def)
  have existing: "wp (handle_existing_slot ?i (br_force br)) (\<lambda>_ t. daemon_inv t \<and> idle t ?i) ?Q s"
    using wp_conj [OF stableD [OF stable_existing inv, unfolded keeps_inv_def] existing_idle] by (rule wp_mono) auto
  have reset: "wp (maybe_opportunistic_reset_board E ?i) ?Q ?Q t" if "daemon_inv t \<and> idle t ?i" for t
    using keeps_reset that by (simp add: keeps_inv_def)
  show ?thesis unfolding cold_boot_def Let_def keeps_inv_def
    unfolding thn_def [of "handle_existing_slot _ _"] thn_def [of "maybe_opportunistic_reset_board _ _"] thn_def [of "upd _"]
    by (rule wp_seqI [OF existing], erule wp_seqI [OF reset], erule wp_seqI [OF framed_keeps [OF framed_tails(2)]],
        erule wp_seqI [OF boot], erule slot)
qed

lemma stable_boot [stable_intros]: "stable (dispatch_boot E L br)"
proof -
  have released: "stable (release_parked E L br meta)" for meta
    unfolding release_parked_def by (intro stable_seq stable_release framed_stable framed_intros)
  show ?thesis
  proof (rule stableI)
    fix s assume inv: "daemon_inv s"
    have cold: "wp (cold_boot E L br) (\<lambda>_. daemon_inv) (\<lambda>_. daemon_inv) t" if "daemon_inv t" "br_l2cpu br < 4" for t
      using keeps_cold_boot [OF that] by (simp add: keeps_inv_def)
    have rel: "wp (release_parked E L br meta) (\<lambda>_. daemon_inv) (\<lambda>_. daemon_inv) t" if "daemon_inv t" for meta t
      using stableD [OF released that] by (simp add: keeps_inv_def)
    show "keeps_inv (dispatch_boot E L br) s"
      unfolding dispatch_boot_def keeps_inv_def wp_simps
      using inv by (auto simp: wp_simps split: option.split intro!: framed_wp [OF framed_meta] framed_wp [OF framed_force_park] cold rel
          intro: frame_inv simp del: act_simps)
  qed
qed

section \<open>A running guest is never reset\<close>

text \<open>All but the flags of the mutexes is as before: slots, dispatcher, engine, memories, registers and chip.\<close>

definition spared :: "daemon \<Rightarrow> daemon \<Rightarrow> bool" where
  "spared s t \<longleftrightarrow> l2cpus t = l2cpus s \<and> world t = world s \<and> core_regs t = core_regs s \<and> shared_chip t = shared_chip s \<and>
     tensix_engine t = tensix_engine s \<and> dispatcher t = dispatcher s \<and> wedged t = wedged s \<and> shutdown_tails t = shutdown_tails s \<and>
     console_threads t = console_threads s \<and> chip_reset_this_session t = chip_reset_this_session s"

definition guest_status :: "daemon \<Rightarrow> nat \<Rightarrow> u64" where
  "guest_status s j =
     (let purg_pa = L2CPU_STARTING_ADDRESS j + STATUS_OFFSET in join32 (core_word s j (purg_pa + 4)) (core_word s j purg_pa))"

lemma spared_refl [simp]: "spared s s" "spared s (s\<lparr>os_calls := n\<rparr>)"
  by (simp_all add: spared_def)

lemma spared_trans: "spared s t \<Longrightarrow> spared t u \<Longrightarrow> spared s u"
  by (simp add: spared_def)

lemma spared_poison [simp]:
  "spared s (t\<lparr>slot_poisoned := p\<rparr>) = spared s t" "spared s (t\<lparr>alloc_poisoned := p\<rparr>) = spared s t"
  "spared s (t\<lparr>boot_lock_poisoned := q\<rparr>) = spared s t" "spared s (t\<lparr>os_calls := n\<rparr>) = spared s t"
  by (simp_all add: spared_def)

lemma spared_word: "spared s t \<Longrightarrow> core_word t j a = core_word s j a"
  by (simp add: spared_def core_word_def)

lemma read32_spares:
  "spared s t \<Longrightarrow> wp (okay (l2_read32 E j a)) (\<lambda>r u. spared s u \<and> (r = None \<or> r = Some (core_word s j a))) (\<lambda>_. spared s) t"
  unfolding okay_def l2_read32_def tile_access_def open_window_def wp_simps
  by (auto simp: wp_simps spared_word split: option.split simp del: act_simps)

lemma status_spares:
  "wp (read_status E j) (\<lambda>r u. spared s u \<and> (r = None \<or> r = Some (guest_status s j))) (\<lambda>_. spared s) s"
  unfolding read_status_def Let_def
  by (rule wp_seqI [OF read32_spares [OF spared_refl(1)]], elim conjE, rule wp_seqI [OF read32_spares], assumption)
    (auto simp: wp_simps guest_status_def Let_def simp del: act_simps)

lemma scan_step:
  "wp (with_slot j (\<lambda>sl. case sl of None \<Rightarrow> ret None | Some _ \<Rightarrow> seq (read_status E j) (\<lambda>purg. ret (Some (classify_sibling purg)))))
     (\<lambda>c u. spared s u \<and> (l2cpus s j \<noteq> None \<and> guest_status s j \<noteq> STATUS_PARKED \<longrightarrow> c = Some Running_Sibling)) (\<lambda>_. spared s) s"
  unfolding wp_simps
  by (auto simp: wp_simps classify_sibling_def intro!: wp_mono [OF status_spares] split: option.split fault.split simp del: act_simps)

lemma scan_finds:
  assumes "\<And>k. k \<in> J \<Longrightarrow> l2cpus s k \<noteq> None \<and> guest_status s k \<noteq> STATUS_PARKED"
  shows "wp (scan_siblings E js) (\<lambda>(running, _) u. spared s u \<and> set js \<inter> J \<subseteq> set running) (\<lambda>_. spared s) s"
  using assms
proof (induction js arbitrary: s)
  case (Cons j js)
  show ?case unfolding scan_siblings.simps
  proof (rule wp_seqI [OF scan_step], elim conjE)
    fix c t assume t: "spared s t" "l2cpus s j \<noteq> None \<and> guest_status s j \<noteq> STATUS_PARKED \<longrightarrow> c = Some Running_Sibling"
    then have J: "\<And>k. k \<in> J \<Longrightarrow> l2cpus t k \<noteq> None \<and> guest_status t k \<noteq> STATUS_PARKED"
      using Cons.prems by (simp add: guest_status_def spared_word [OF t(1)]) (simp add: spared_def)
    show "wp (seq (scan_siblings E js) (\<lambda>(running, parked). ret (case c of None \<Rightarrow> (running, parked)
          | Some Parked_Sibling \<Rightarrow> (running, j # parked) | Some Running_Sibling \<Rightarrow> (j # running, parked))))
        (\<lambda>(running, _) u. spared s u \<and> set (j # js) \<inter> J \<subseteq> set running) (\<lambda>_. spared s) t"
      unfolding wp_seq using Cons.IH [OF J]
      by (rule wp_mono)
        (use t Cons.prems [of j] in \<open>auto simp: wp_simps split: option.split sibling_classification.split intro: spared_trans simp del: act_simps\<close>)
  qed
qed (simp only: scan_siblings.simps wp_simps, simp)

text \<open>
  C13. The reset of the board before a cold boot spares running guests: while any other core has a slot whose
  guest has not reported that it is parked, nothing is stopped, the dispatcher, the engine and every memory
  stay as they are, and the chip is not reset, whatever else the daemon and the chip do.
\<close>

theorem reset_spares_running_guests:
  assumes "j < 4" "j \<noteq> target" "l2cpus s j = Some sl" "guest_status s j \<noteq> STATUS_PARKED"
  shows "spared s (snd (maybe_opportunistic_reset_board E target s))"
proof -
  have "wp (scan_siblings E (filter (\<lambda>j. j \<noteq> target) [0..<4])) (\<lambda>(running, _) u. spared s u \<and> running \<noteq> []) (\<lambda>_. spared s) s"
    by (rule wp_mono [OF scan_finds [of "{j}"]]) (use assms in auto)
  then have "wp (maybe_opportunistic_reset_board E target) (\<lambda>_. spared s) (\<lambda>_. spared s) s"
    unfolding maybe_opportunistic_reset_board_def wp_simps
    by (auto simp: wp_simps wp_guarded internal_def split: fault.split elim!: wp_mono simp del: act_simps)
  then show ?thesis by (auto simp: wp_def split: prod.splits sum.splits)
qed

definition demo_slot :: l2cpu_slot where
  "demo_slot = \<lparr>sl_disks = [], sl_dtb_bytes = None, sl_blk_dtb_dev_idx = [], sl_net = False, sl_virtio_console = False,
     sl_virtio_rng = False, sl_boot_payload = None, sl_net_extra_fwd = []\<rparr>"

theorem reset_spares_running_guests_witness:
  "let s = put_slot 1 (Some demo_slot) demo_daemon in spared s (snd (maybe_opportunistic_reset_board demo_env 0 s))"
proof -
  let ?s = "put_slot 1 (Some demo_slot) demo_daemon"
  have "gm_u32 (demo_dram i) a = 0" for i a by (simp add: demo_dram_def gm_load_def upt_rec)
  then have "core_word ?s 1 a = 0" for a by (simp add: core_word_def put_slot_def demo_daemon_def)
  then have "guest_status ?s 1 \<noteq> STATUS_PARKED" by (simp add: guest_status_def STATUS_PARKED_def join32_def)
  then show ?thesis unfolding Let_def by (intro reset_spares_running_guests [of 1]) (simp_all add: put_slot_def)
qed

end
