(* ===== verification/Chip_Console.thy ===== *)
theory Chip_Console
  imports Boot
begin

text \<open>
  The console of a core through the rings in its memory (\<open>src/src/daemon/chip_console.rs\<close>): the two
  rings, the probe that finds them, the thread that moves the bytes, and what it does when the guest parks.
  A window on the core's tile is a byte memory from the window's address on; the stores into it are listed.
\<close>

section \<open>The rings\<close>

definition BUFFER_SIZE :: u32 where "BUFFER_SIZE = 0x1000"
definition VIRTUAL_UART_MAGIC :: u64 where "VIRTUAL_UART_MAGIC = 0x5649525455415254"
definition OPENSBI_DEBUG_PTR :: u64 where "OPENSBI_DEBUG_PTR = 0x80"
definition EYE_CATCHER :: "u8 list" where "EYE_CATCHER = str ''OSBIdbug''"
definition OFF_MAGIC :: nat where "OFF_MAGIC = 0"
definition OFF_TX_BUF :: nat where "OFF_TX_BUF = 8"
definition OFF_RX_BUF :: nat where "OFF_RX_BUF = 8 + unat BUFFER_SIZE"
definition OFF_TX_HEAD :: nat where "OFF_TX_HEAD = 8 + 2 * unat BUFFER_SIZE"
definition OFF_TX_TAIL :: nat where "OFF_TX_TAIL = OFF_TX_HEAD + 4"
definition OFF_RX_HEAD :: nat where "OFF_RX_HEAD = OFF_TX_TAIL + 4"
definition OFF_RX_TAIL :: nat where "OFF_RX_TAIL = OFF_RX_HEAD + 4"

lemmas ring_offs = BUFFER_SIZE_def OFF_MAGIC_def OFF_TX_BUF_def OFF_RX_BUF_def OFF_TX_HEAD_def OFF_TX_TAIL_def
  OFF_RX_HEAD_def OFF_RX_TAIL_def

type_synonym stores = "(nat \<times> u8 list) list"

definition apply_stores :: "stores \<Rightarrow> guest_mem \<Rightarrow> guest_mem" where
  "apply_stores sts = fold (\<lambda>(off, bs). gm_store off bs) sts"

definition read_magic :: "guest_mem \<Rightarrow> u64" where "read_magic q = gm_u64 q OFF_MAGIC"
definition read_tx_head :: "guest_mem \<Rightarrow> u32" where "read_tx_head q = gm_u32 q OFF_TX_HEAD"
definition read_tx_tail :: "guest_mem \<Rightarrow> u32" where "read_tx_tail q = gm_u32 q OFF_TX_TAIL"
definition write_tx_tail :: "u32 \<Rightarrow> nat \<times> u8 list" where "write_tx_tail v = (OFF_TX_TAIL, le_bytes 4 v)"
definition read_rx_head :: "guest_mem \<Rightarrow> u32" where "read_rx_head q = gm_u32 q OFF_RX_HEAD"
definition read_rx_tail :: "guest_mem \<Rightarrow> u32" where "read_rx_tail q = gm_u32 q OFF_RX_TAIL"
definition write_rx_head :: "u32 \<Rightarrow> nat \<times> u8 list" where "write_rx_head v = (OFF_RX_HEAD, le_bytes 4 v)"
definition write_rx_tail :: "u32 \<Rightarrow> nat \<times> u8 list" where "write_rx_tail v = (OFF_RX_TAIL, le_bytes 4 v)"

definition can_push :: "guest_mem \<Rightarrow> bool" where
  "can_push q \<longleftrightarrow>
     (let head = read_rx_head q mod BUFFER_SIZE; tail = read_rx_tail q mod BUFFER_SIZE in (head + 1) mod BUFFER_SIZE \<noteq> tail)"

definition can_pop :: "guest_mem \<Rightarrow> bool" where
  "can_pop q \<longleftrightarrow> read_tx_head q mod BUFFER_SIZE \<noteq> read_tx_tail q mod BUFFER_SIZE"

definition push_char :: "u8 \<Rightarrow> guest_mem \<Rightarrow> bool \<times> stores" where
  "push_char c q =
     (if \<not> can_push q then (False, [])
      else let head = read_rx_head q; slot = unat (head mod BUFFER_SIZE)
           in (True, [(OFF_RX_BUF + slot, [c]), write_rx_head ((head + 1) mod BUFFER_SIZE)]))"

definition pop_char :: "guest_mem \<Rightarrow> u8 \<times> stores" where
  "pop_char q =
     (let tail = read_tx_tail q; slot = unat (tail mod BUFFER_SIZE)
      in (gm_bytes q (OFF_TX_BUF + slot), [write_tx_tail ((tail + 1) mod BUFFER_SIZE)]))"

definition drain_rx_ring :: "guest_mem \<Rightarrow> u32 \<times> stores" where
  "drain_rx_ring q =
     (let head = read_rx_head q; tail = read_rx_tail q
      in ((head - tail) mod BUFFER_SIZE, [write_rx_tail head]))"

text \<open>The bytes of the chip that one iteration takes, at most \<open>n\<close>.\<close>

fun drain_tx :: "nat \<Rightarrow> guest_mem \<Rightarrow> u8 list \<times> stores" where
  "drain_tx 0 q = ([], [])"
| "drain_tx (Suc n) q =
     (if can_pop q
      then let (c, st) = pop_char q; (cs, sts) = drain_tx n (apply_stores st q) in (c # cs, st @ sts)
      else ([], []))"

section \<open>Finding the rings\<close>

datatype descriptor_error = Eye_Catcher_Mismatch nat u8 u8 | Virtuart_Base_Uninit

definition DESCRIPTOR_BYTES :: nat where "DESCRIPTOR_BYTES = 24"
definition OFF_VIRTUART_BASE_IN_DESC :: nat where "OFF_VIRTUART_BASE_IN_DESC = 16"

definition decode_descriptor :: "u8 list \<Rightarrow> descriptor_error + u64" where
  "decode_descriptor desc =
     (case find (\<lambda>k. desc ! k \<noteq> EYE_CATCHER ! k) [0..<8] of
        Some k \<Rightarrow> Inl (Eye_Catcher_Mismatch k (desc ! k) (EYE_CATCHER ! k))
      | None \<Rightarrow>
          let virtuart_base = of_le_bytes (take 8 (drop OFF_VIRTUART_BASE_IN_DESC desc))
          in if virtuart_base = - 1 then Inl Virtuart_Base_Uninit else Inr virtuart_base)"

definition decode_magic :: "u8 list \<Rightarrow> u64 + unit" where
  "decode_magic bs = (let magic = of_le_bytes bs in if magic = VIRTUAL_UART_MAGIC then Inr () else Inl magic)"

definition tile_view :: "daemon \<Rightarrow> nat \<Rightarrow> u64 \<Rightarrow> guest_mem" where
  "tile_view s i base =
     \<lparr>gm_bytes = (\<lambda>k. core_byte s i (base + word_of_nat k)), gm_size = remaining_in_window base, gm_fault = False\<rparr>"

definition store_ring :: "nat \<Rightarrow> u64 \<Rightarrow> stores \<Rightarrow> daemon \<Rightarrow> daemon" where
  "store_ring i base sts = fold (\<lambda>(off, bs). put_core_bytes i (base + word_of_nat off) bs) sts"

definition read_descriptor :: "env \<Rightarrow> nat \<Rightarrow> u8 list chip_io" where
  "read_descriptor E i =
     (let starting = L2CPU_STARTING_ADDRESS i in
      seq (l2_read32 E i (starting + OPENSBI_DEBUG_PTR)) (\<lambda>debug_ptr.
      thn (open_window E i (starting + ucast debug_ptr))
      (asks (\<lambda>s. gm_load (tile_view s i (starting + ucast debug_ptr)) 0 DESCRIPTOR_BYTES))))"

definition probe_warm_resume :: "env \<Rightarrow> nat \<Rightarrow> bool rpc" where
  "probe_warm_resume E i =
     seq (okay (read_descriptor E i)) (\<lambda>desc.
     case desc of
       None \<Rightarrow> ret False
     | Some desc \<Rightarrow>
         (case decode_descriptor desc of
            Inl _ \<Rightarrow> ret False
          | Inr uart_base \<Rightarrow>
              seq (okay (thn (open_window E i uart_base) (asks (\<lambda>s. gm_load (tile_view s i uart_base) OFF_MAGIC 8)))) (\<lambda>magic.
              ret (case magic of None \<Rightarrow> False | Some bs \<Rightarrow> decode_magic bs = Inr ()))))"

section \<open>A guest that parks\<close>

definition RESET_TYPE_OFFSET :: u64 where "RESET_TYPE_OFFSET = STATUS_OFFSET + 0x48"
definition RESET_TYPE_SHUTDOWN :: u32 where "RESET_TYPE_SHUTDOWN = 0"
definition RESET_TYPE_COLD_REBOOT :: u32 where "RESET_TYPE_COLD_REBOOT = 1"
definition RESET_TYPE_WARM_REBOOT :: u32 where "RESET_TYPE_WARM_REBOOT = 2"

definition read_parked_state :: "env \<Rightarrow> nat \<Rightarrow> bool rpc" where
  "read_parked_state E i = seq (purgatory_u64 E i STATUS_OFFSET) (\<lambda>v. ret (v = Some STATUS_PARKED))"

definition detect_park_transition :: "bool \<Rightarrow> bool \<Rightarrow> bool" where
  "detect_park_transition last_parked current_parked \<longleftrightarrow> \<not> last_parked \<and> current_parked"

definition read_parked_reset_type :: "env \<Rightarrow> nat \<Rightarrow> u32 rpc" where
  "read_parked_reset_type E i =
     seq (okay (l2_read32 E i (L2CPU_STARTING_ADDRESS i + RESET_TYPE_OFFSET))) (\<lambda>v.
     ret (case v of None \<Rightarrow> RESET_TYPE_SHUTDOWN | Some v \<Rightarrow> v))"

definition dispatcher_usable :: "daemon \<Rightarrow> bool" where
  "dispatcher_usable s \<longleftrightarrow> \<not> dispatcher_poisoned s \<and> dispatcher s"

definition drop_net_for_reboot :: "nat \<Rightarrow> daemon \<Rightarrow> fwd list option \<times> daemon" where
  "drop_net_for_reboot i s =
     (if slot_poisoned s i then (None, s)
      else case l2cpus s i of
        None \<Rightarrow> (None, s)
      | Some sl \<Rightarrow>
          if sl_boot_payload sl = None \<or> \<not> sl_net sl then (None, s)
          else (Some (sl_net_extra_fwd sl),
                (if dispatcher_usable s then unregister (engine_slot i DEV_NET) else id)
                  (put_slot i (Some (sl\<lparr>sl_net := False\<rparr>)) s)))"

definition drop_workers_on_shutdown_park :: "nat \<Rightarrow> daemon \<Rightarrow> daemon" where
  "drop_workers_on_shutdown_park i s =
     (if slot_poisoned s i then s
      else case l2cpus s i of
        None \<Rightarrow> s
      | Some sl \<Rightarrow>
          (if dispatcher_usable s then unregister_attached i sl else id) (put_slot i (Some (drop_devices sl)) s))"

definition drain_input_channel :: "nat \<Rightarrow> daemon \<Rightarrow> daemon" where
  "drain_input_channel i s = s\<lparr>console_input := (console_input s)(i := [])\<rparr>"

text \<open>An error as its text; a panic stays a panic.\<close>

definition attempt :: "string \<Rightarrow> 'a rpc \<Rightarrow> (string + 'a) rpc" where
  "attempt ctx m =
     seq (catch m) (\<lambda>r. case r of
       Inr a \<Rightarrow> ret (Inr a)
     | Inl f \<Rightarrow> (case f of Fail e \<Rightarrow> ret (Inl (ctx @ show_error e)) | Crash p \<Rightarrow> fail (Crash p)))"

definition pair_for_reply :: "env \<Rightarrow> (string + response) rpc \<Rightarrow> (string + response) rpc" where
  "pair_for_reply E m =
     seq (ask (e_socketpair E)) (\<lambda>r. case r of
       Some e \<Rightarrow> ret (Inl (''socketpair for reply: '' @ io_message e))
     | None \<Rightarrow> m)"

definition reattach_net_for_reboot :: "env \<Rightarrow> u8 \<Rightarrow> fwd list \<Rightarrow> (string + response) rpc" where
  "reattach_net_for_reboot E idx extra_fwd =
     pair_for_reply E (attempt ''dispatch_add_net: '' (dispatch_add_net E idx None extra_fwd))"

definition auto_release_for_reboot :: "env \<Rightarrow> libfdt \<Rightarrow> u8 \<Rightarrow> (string + response) rpc" where
  "auto_release_for_reboot E L idx =
     (let i = unat idx in
      seq (attempt ''read_parked_release_meta: '' (read_parked_release_meta E i)) (\<lambda>r.
      case r of
        Inl t \<Rightarrow> ret (Inl t)
      | Inr None \<Rightarrow> ret (Inl ''slot not parked when auto-reboot fired'')
      | Inr (Some meta) \<Rightarrow>
          seq (asks (\<lambda>s. (slot_poisoned s i, l2cpus s i))) (\<lambda>(p, sl).
          if p then ret (Inl ''slot mutex poisoned'')
          else case sl of
            None \<Rightarrow> ret (Inl ''slot is gone'')
          | Some sl \<Rightarrow>
              (case sl_boot_payload sl of
                 None \<Rightarrow> ret (Inl ''no cached boot_payload (warm-resumed slot has no cold-boot args)'')
               | Some payload \<Rightarrow>
                   pair_for_reply E (attempt ''dispatch_release: ''
                     (dispatch_release E L idx payload meta (sl_dtb_bytes sl) None None False [] False False))))))"

definition push_output :: "nat \<Rightarrow> u8 list \<Rightarrow> daemon \<Rightarrow> daemon" where
  "push_output i bytes = on_hub i (\<lambda>h. snd (push_chip_output bytes h))"

definition drop_input :: "nat \<Rightarrow> u64 \<Rightarrow> daemon \<Rightarrow> daemon" where
  "drop_input i q s =
     (let s1 = drain_input_channel i s in store_ring i q (snd (drain_rx_ring (tile_view s1 i q))) s1)"

definition rebooting :: "nat \<Rightarrow> u8 list" where
  "rebooting i = [13, 10] @ str (''[bhx: l2cpu '' @ dec i @ '' rebooting (auto-release)'') @ [0xE2, 0x80, 0xA6] @ str '']'' @ [13, 10]"

definition reboot_failed :: "nat \<Rightarrow> string \<Rightarrow> u8 list" where
  "reboot_failed i e = str (''[bhx: auto-reboot failed: '' @ e @ ''; run `bhx boot -l '' @ dec i @ ''` to release]'') @ [13, 10]"

definition on_reboot :: "env \<Rightarrow> libfdt \<Rightarrow> u8 \<Rightarrow> u64 \<Rightarrow> unit rpc" where
  "on_reboot E L idx q =
     (let i = unat idx in
      thn (upd (push_output i (rebooting i)))
      (thn (upd (drop_input i q))
      (seq (asks (drop_net_for_reboot i)) (\<lambda>(cached, s').
       thn (upd (\<lambda>_. s'))
       (thn (guests_run E)
       (thn (upd (drop_input i q))
       (thn (case cached of None \<Rightarrow> ret () | Some extra \<Rightarrow> thn (reattach_net_for_reboot E idx extra) (ret ()))
       (seq (auto_release_for_reboot E L idx) (\<lambda>r.
        case r of
          Inl e \<Rightarrow> upd (push_output i (reboot_failed i e))
        | Inr _ \<Rightarrow> ret ())))))))))"

definition on_poweroff :: "nat \<Rightarrow> u64 \<Rightarrow> daemon \<Rightarrow> daemon" where
  "on_poweroff i q =
     drop_input i q \<circ> on_hub i (\<lambda>(h, mx). (clear_scrollback h, mx)) \<circ>
     disconnect i (''l2cpu '' @ dec i @ '' parked (guest powered off); `bhx boot -l '' @ dec i @ ''` to release'') \<circ>
     drop_workers_on_shutdown_park i"

definition probe_parked :: "env \<Rightarrow> libfdt \<Rightarrow> u8 \<Rightarrow> u64 \<Rightarrow> bool \<Rightarrow> bool rpc" where
  "probe_parked E L idx q last_parked =
     (let i = unat idx in
      seq (read_parked_state E i) (\<lambda>parked.
      thn (if detect_park_transition last_parked parked then
             seq (read_parked_reset_type E i) (\<lambda>reset_type.
             if reset_type = RESET_TYPE_COLD_REBOOT \<or> reset_type = RESET_TYPE_WARM_REBOOT then on_reboot E L idx q
             else upd (on_poweroff i q))
           else ret ())
      (ret parked)))"

section \<open>The thread\<close>

text \<open>
  The guests run during every sleep, so a loop that waits for them is given a number of steps; a result is
  then what it has come to, or that the steps are used up.
\<close>

datatype uart_exit = Done | Retry

datatype pump = Go_On bool | Exit uart_exit | Out_Of_Steps

text \<open>\<open>while !push_char\<close>: the byte is in the ring, or the thread has been told to exit.\<close>

primrec push_wait :: "env \<Rightarrow> nat \<Rightarrow> u64 \<Rightarrow> u8 \<Rightarrow> nat \<Rightarrow> bool option rpc" where
  "push_wait E i q b 0 = ret None"
| "push_wait E i q b (Suc n) =
     seq (asks (\<lambda>s. push_char b (tile_view s i q))) (\<lambda>(pushed, sts).
     if pushed then thn (upd (store_ring i q sts)) (ret (Some True))
     else seq (ask (\<lambda>s. e_exit E s i)) (\<lambda>ex.
       if ex then ret (Some False) else thn (guests_run E) (push_wait E i q b n)))"

text \<open>The result is whether there was input.\<close>

primrec feed_input :: "env \<Rightarrow> nat \<Rightarrow> u64 \<Rightarrow> bool \<Rightarrow> nat \<Rightarrow> pump rpc" where
  "feed_input E i q got_input 0 = ret Out_Of_Steps"
| "feed_input E i q got_input (Suc n) =
     seq (asks (\<lambda>s. console_input s i)) (\<lambda>bs.
     case bs of
       [] \<Rightarrow> seq (ask (\<lambda>s. e_no_sender E s i)) (\<lambda>gone. ret (if gone then Exit Done else Go_On got_input))
     | b # bs \<Rightarrow>
         thn (upd (\<lambda>s. s\<lparr>console_input := (console_input s)(i := bs)\<rparr>))
         (thn (upd (on_metrics (counter_inc CONSOLE_BYTES_H2G (word_of_nat i))))
         (seq (push_wait E i q b n) (\<lambda>r.
          case r of
            None \<Rightarrow> ret Out_Of_Steps
          | Some pushed \<Rightarrow> if pushed then feed_input E i q True n else ret (Exit Done)))))"

definition take_output :: "nat \<Rightarrow> u64 \<Rightarrow> daemon \<Rightarrow> daemon" where
  "take_output i q s =
     (case drain_tx 256 (tile_view s i q) of
        (bytes, sts) \<Rightarrow>
          (if bytes = [] then id
           else push_output i bytes \<circ> on_metrics (counter_add CONSOLE_BYTES_G2H (word_of_nat i) (word_of_nat (length bytes))))
            (store_ring i q sts s))"

text \<open>One round of \<open>loop\<close> in \<open>uart_pass\<close>; the flag is \<open>last_parked\<close>.\<close>

definition uart_round :: "env \<Rightarrow> libfdt \<Rightarrow> u8 \<Rightarrow> u64 \<Rightarrow> nat \<Rightarrow> bool \<Rightarrow> pump rpc" where
  "uart_round E L idx q n last_parked =
     (let i = unat idx in
      seq (ask (\<lambda>s. e_exit E s i)) (\<lambda>ex.
      if ex then ret (Exit Done)
      else seq (asks (\<lambda>s. read_magic (tile_view s i q))) (\<lambda>magic.
      if magic \<noteq> VIRTUAL_UART_MAGIC then ret (Exit Retry)
      else seq (ask (\<lambda>s. e_probe_due E s i)) (\<lambda>due.
      seq (if due then probe_parked E L idx q last_parked else ret last_parked) (\<lambda>parked.
      thn (upd (take_output i q))
      (seq (feed_input E i q False n) (\<lambda>r.
       case r of
         Go_On _ \<Rightarrow> thn (guests_run E) (ret (Go_On parked))
       | _ \<Rightarrow> ret r)))))))"

primrec uart_loop :: "env \<Rightarrow> libfdt \<Rightarrow> u8 \<Rightarrow> u64 \<Rightarrow> bool \<Rightarrow> nat \<Rightarrow> pump rpc" where
  "uart_loop E L idx q last_parked 0 = ret Out_Of_Steps"
| "uart_loop E L idx q last_parked (Suc n) =
     seq (uart_round E L idx q n last_parked) (\<lambda>r.
     case r of Go_On parked \<Rightarrow> uart_loop E L idx q parked n | _ \<Rightarrow> ret r)"

definition find_rings :: "env \<Rightarrow> nat \<Rightarrow> u64 option chip_io" where
  "find_rings E i =
     seq (read_descriptor E i) (\<lambda>desc.
     case decode_descriptor desc of
       Inl _ \<Rightarrow> ret None
     | Inr uart_base \<Rightarrow> thn (open_window E i uart_base) (ret (Some uart_base)))"

text \<open>An I/O error is retried like a lost magic, so both are \<open>Retry\<close>.\<close>

definition uart_pass :: "env \<Rightarrow> libfdt \<Rightarrow> u8 \<Rightarrow> nat \<Rightarrow> pump rpc" where
  "uart_pass E L idx n =
     seq (okay (find_rings E (unat idx))) (\<lambda>q.
     case Option.bind q id of
       None \<Rightarrow> ret (Exit Retry)
     | Some q \<Rightarrow> uart_loop E L idx q False n)"

primrec chip_console_main :: "env \<Rightarrow> libfdt \<Rightarrow> u8 \<Rightarrow> nat \<Rightarrow> pump rpc" where
  "chip_console_main E L idx 0 = ret Out_Of_Steps"
| "chip_console_main E L idx (Suc n) =
     seq (ask (\<lambda>s. e_exit E s (unat idx))) (\<lambda>ex.
     if ex then ret (Exit Done)
     else seq (uart_pass E L idx n) (\<lambda>r.
       case r of
         Exit Retry \<Rightarrow> thn (guests_run E) (chip_console_main E L idx n)
       | _ \<Rightarrow> ret r))"

section \<open>The rings are queues\<close>

text \<open>A ring with its read position, its write position and its bytes; what it holds, oldest first.\<close>

definition pending :: "nat \<Rightarrow> nat \<Rightarrow> nat" where
  "pending t h = (h + 4096 - t) mod 4096"

definition ring_bytes :: "nat \<Rightarrow> nat \<Rightarrow> (nat \<Rightarrow> u8) \<Rightarrow> u8 list" where
  "ring_bytes t h g = map (\<lambda>k. g ((t + k) mod 4096)) [0..<pending t h]"

definition rx_queue :: "guest_mem \<Rightarrow> u8 list" where
  "rx_queue q = ring_bytes (unat (read_rx_tail q mod BUFFER_SIZE)) (unat (read_rx_head q mod BUFFER_SIZE)) (\<lambda>k. gm_bytes q (OFF_RX_BUF + k))"

definition tx_queue :: "guest_mem \<Rightarrow> u8 list" where
  "tx_queue q = ring_bytes (unat (read_tx_tail q mod BUFFER_SIZE)) (unat (read_tx_head q mod BUFFER_SIZE)) (\<lambda>k. gm_bytes q (OFF_TX_BUF + k))"

lemma length_ring_bytes [simp]: "length (ring_bytes t h g) = pending t h"
  by (simp add: ring_bytes_def)

lemma ring_bytes_cong: "(\<And>k. k < 4096 \<Longrightarrow> g k = g' k) \<Longrightarrow> ring_bytes t h g = ring_bytes t h g'"
  by (simp add: ring_bytes_def)

lemma pending_less: "pending t h < 4096"
  by (simp add: pending_def)

lemma pending_cases: "t < 4096 \<Longrightarrow> h < 4096 \<Longrightarrow> pending t h = (if t \<le> h then h - t else h + 4096 - t)"
  by (simp add: pending_def mod_if)

lemma mod_ring: "x < 8192 \<Longrightarrow> x mod 4096 = (if x < 4096 then x else x - (4096 :: nat))"
  by (simp add: mod_if)

lemma pending_0: "t < 4096 \<Longrightarrow> h < 4096 \<Longrightarrow> pending t h = 0 \<longleftrightarrow> t = h"
  by (auto simp: pending_cases mod_ring)

lemma pending_push: "t < 4096 \<Longrightarrow> h < 4096 \<Longrightarrow> (h + 1) mod 4096 \<noteq> t \<Longrightarrow> pending t ((h + 1) mod 4096) = Suc (pending t h)"
  by (auto simp: pending_cases mod_ring)

lemma pending_full: "t < 4096 \<Longrightarrow> h < 4096 \<Longrightarrow> (h + 1) mod 4096 = t \<longleftrightarrow> pending t h = 4095"
  by (auto simp: pending_cases mod_ring)

lemma pending_pop: "t < 4096 \<Longrightarrow> h < 4096 \<Longrightarrow> t \<noteq> h \<Longrightarrow> pending t h = Suc (pending ((t + 1) mod 4096) h)"
  by (auto simp: pending_cases mod_ring)

lemma pending_at: "t < 4096 \<Longrightarrow> h < 4096 \<Longrightarrow> (t + pending t h) mod 4096 = h"
  by (auto simp: pending_cases mod_ring)

lemma pending_before: "t < 4096 \<Longrightarrow> h < 4096 \<Longrightarrow> k < pending t h \<Longrightarrow> (t + k) mod 4096 \<noteq> h"
  by (auto simp: pending_cases mod_ring split: if_splits)

lemma ring_push:
  assumes "t < 4096" "h < 4096" "(h + 1) mod 4096 \<noteq> t"
  shows "ring_bytes t ((h + 1) mod 4096) (g(h := c)) = ring_bytes t h g @ [c]"
  using assms pending_before [OF assms(1,2)]
  unfolding ring_bytes_def pending_push [OF assms] by (simp add: pending_at)

lemma ring_pop:
  assumes "t < 4096" "h < 4096" "t \<noteq> h"
  shows "ring_bytes t h g = g t # ring_bytes ((t + 1) mod 4096) h g"
proof -
  have "((t + 1) mod 4096 + k) mod 4096 = (t + Suc k) mod 4096" for k by (simp add: mod_simps)
  then show ?thesis unfolding ring_bytes_def pending_pop [OF assms] using assms(1) by (simp add: map_upt_Suc del: upt_Suc)
qed

lemma unat_ring:
  "unat (w mod BUFFER_SIZE) = unat w mod 4096" "unat ((w + 1) mod BUFFER_SIZE) = (unat w mod 4096 + 1) mod 4096"
  "unat ((w mod BUFFER_SIZE + 1) mod BUFFER_SIZE) = (unat w mod 4096 + 1) mod 4096"
proof -
  have "x mod 4294967296 mod 4096 = x mod 4096" for x :: nat by (rule mod_mod_cancel) simp
  then show "unat (w mod BUFFER_SIZE) = unat w mod 4096" "unat ((w + 1) mod BUFFER_SIZE) = (unat w mod 4096 + 1) mod 4096"
    "unat ((w mod BUFFER_SIZE + 1) mod BUFFER_SIZE) = (unat w mod 4096 + 1) mod 4096"
    by (simp_all add: BUFFER_SIZE_def unat_mod unat_word_ariths mod_simps)
qed

lemma ring_mod_succ: "unat ((w + 1) mod BUFFER_SIZE mod BUFFER_SIZE) = (unat w mod 4096 + 1) mod 4096"
proof -
  have "unat ((w + 1) mod BUFFER_SIZE mod BUFFER_SIZE) = unat ((w + 1) mod BUFFER_SIZE)" by (simp add: unat_mod)
  then show ?thesis by (simp only: unat_ring(2))
qed

text \<open>The words and the buffers of the block do not overlap.\<close>

lemma ring_reads:
  "read_rx_head (gm_store OFF_RX_HEAD (le_bytes 4 v) q) = v" "read_rx_tail (gm_store OFF_RX_TAIL (le_bytes 4 v) q) = v"
  "read_tx_tail (gm_store OFF_TX_TAIL (le_bytes 4 v) q) = v"
  "read_rx_tail (gm_store OFF_RX_HEAD (le_bytes 4 v) q) = read_rx_tail q" "read_tx_head (gm_store OFF_RX_HEAD (le_bytes 4 v) q) = read_tx_head q"
  "read_tx_tail (gm_store OFF_RX_HEAD (le_bytes 4 v) q) = read_tx_tail q" "read_rx_head (gm_store OFF_RX_TAIL (le_bytes 4 v) q) = read_rx_head q"
  "read_tx_head (gm_store OFF_RX_TAIL (le_bytes 4 v) q) = read_tx_head q" "read_tx_tail (gm_store OFF_RX_TAIL (le_bytes 4 v) q) = read_tx_tail q"
  "read_rx_head (gm_store OFF_TX_TAIL (le_bytes 4 v) q) = read_rx_head q" "read_rx_tail (gm_store OFF_TX_TAIL (le_bytes 4 v) q) = read_rx_tail q"
  "read_tx_head (gm_store OFF_TX_TAIL (le_bytes 4 v) q) = read_tx_head q"
  using gm_load_store_same [of _ "le_bytes 4 v" q]
  by (simp_all add: read_rx_head_def read_rx_tail_def read_tx_head_def read_tx_tail_def ring_offs gm_load_store_disjoint of_le_bytes_le_bytes_full)

lemma ring_reads_byte:
  assumes "k < 4096"
  shows "read_rx_head (gm_store (OFF_RX_BUF + k) [c] q) = read_rx_head q" "read_rx_tail (gm_store (OFF_RX_BUF + k) [c] q) = read_rx_tail q"
    "read_tx_head (gm_store (OFF_RX_BUF + k) [c] q) = read_tx_head q" "read_tx_tail (gm_store (OFF_RX_BUF + k) [c] q) = read_tx_tail q"
  using assms by (simp_all add: read_rx_head_def read_rx_tail_def read_tx_head_def read_tx_tail_def ring_offs gm_load_store_disjoint)

lemma ring_buffers:
  assumes "k < 4096"
  shows "off \<in> {OFF_RX_HEAD, OFF_RX_TAIL, OFF_TX_TAIL} \<Longrightarrow> gm_bytes (gm_store off (le_bytes 4 v) q) (OFF_RX_BUF + k) = gm_bytes q (OFF_RX_BUF + k)"
    "off \<in> {OFF_RX_HEAD, OFF_RX_TAIL, OFF_TX_TAIL} \<Longrightarrow> gm_bytes (gm_store off (le_bytes 4 v) q) (OFF_TX_BUF + k) = gm_bytes q (OFF_TX_BUF + k)"
    "gm_bytes (gm_store (OFF_RX_BUF + j) [c] q) (OFF_TX_BUF + k) = gm_bytes q (OFF_TX_BUF + k)"
    "gm_bytes (gm_store (OFF_RX_BUF + j) [c] q) (OFF_RX_BUF + k) = (if k = j then c else gm_bytes q (OFF_RX_BUF + k))"
  using assms by (auto simp: gm_bytes_store ring_offs)

lemma can_push_room: "can_push q \<longleftrightarrow> (unat (read_rx_head q) mod 4096 + 1) mod 4096 \<noteq> unat (read_rx_tail q) mod 4096"
  unfolding can_push_def Let_def word_unat_eq_iff unat_ring(3) unfolding unat_ring(1) by simp

lemma can_push_iff: "can_push q \<longleftrightarrow> length (rx_queue q) < 4095"
proof -
  let ?t = "unat (read_rx_tail q) mod 4096" and ?h = "unat (read_rx_head q) mod 4096"
  have "can_push q \<longleftrightarrow> pending ?t ?h \<noteq> 4095" by (simp add: can_push_room pending_full [symmetric])
  then show ?thesis using pending_less [of ?t ?h] by (auto simp: rx_queue_def unat_ring)
qed

lemma can_pop_iff: "can_pop q \<longleftrightarrow> tx_queue q \<noteq> []"
proof -
  have "can_pop q \<longleftrightarrow> unat (read_tx_tail q) mod 4096 \<noteq> unat (read_tx_head q) mod 4096"
    by (auto simp: can_pop_def word_unat_eq_iff unat_ring)
  then show ?thesis by (simp add: tx_queue_def ring_bytes_def unat_ring pending_0)
qed

lemma push_char_queue:
  assumes "push_char c q = (pushed, sts)"
  shows "pushed = (length (rx_queue q) < 4095)" "rx_queue (apply_stores sts q) = rx_queue q @ (if pushed then [c] else [])"
    "tx_queue (apply_stores sts q) = tx_queue q"
proof -
  let ?t = "unat (read_rx_tail q) mod 4096" and ?h = "unat (read_rx_head q) mod 4096"
  let ?q = "gm_store OFF_RX_HEAD (le_bytes 4 ((read_rx_head q + 1) mod BUFFER_SIZE)) (gm_store (OFF_RX_BUF + ?h) [c] q)"
  have sts: "pushed = can_push q" "apply_stores sts q = (if pushed then ?q else q)"
    using assms by (auto simp: push_char_def Let_def apply_stores_def write_rx_head_def unat_ring split: if_splits)
  show "pushed = (length (rx_queue q) < 4095)" by (simp add: sts can_push_iff)
  have "tx_queue ?q = tx_queue q"
    by (simp add: tx_queue_def ring_reads ring_reads_byte) (intro ring_bytes_cong; simp add: ring_buffers)
  then show "tx_queue (apply_stores sts q) = tx_queue q" by (simp add: sts)
  have "rx_queue ?q = rx_queue q @ [c]" if "can_push q"
  proof -
    have free: "(?h + 1) mod 4096 \<noteq> ?t" using that by (simp only: can_push_room simp_thms)
    have "rx_queue ?q = ring_bytes ?t ((?h + 1) mod 4096) ((\<lambda>k. gm_bytes q (OFF_RX_BUF + k))(?h := c))"
      unfolding rx_queue_def ring_reads ring_reads_byte [OF mod_less_divisor [of 4096], simplified] ring_mod_succ unfolding unat_ring(1)
      by (intro ring_bytes_cong) (simp add: ring_buffers)
    then show ?thesis using ring_push [OF _ _ free] by (simp add: rx_queue_def unat_ring)
  qed
  then show "rx_queue (apply_stores sts q) = rx_queue q @ (if pushed then [c] else [])" by (simp add: sts)
qed

lemma pop_char_queue:
  assumes "tx_queue q \<noteq> []" "pop_char q = (c, sts)"
  shows "tx_queue q = c # tx_queue (apply_stores sts q)" "rx_queue (apply_stores sts q) = rx_queue q"
proof -
  let ?t = "unat (read_tx_tail q) mod 4096" and ?h = "unat (read_tx_head q) mod 4096"
  let ?q = "gm_store OFF_TX_TAIL (le_bytes 4 ((read_tx_tail q + 1) mod BUFFER_SIZE)) q"
  have sts: "c = gm_bytes q (OFF_TX_BUF + ?t)" "apply_stores sts q = ?q"
    using assms(2) by (auto simp: pop_char_def Let_def apply_stores_def write_tx_tail_def unat_ring)
  show "rx_queue (apply_stores sts q) = rx_queue q"
    by (simp add: sts rx_queue_def ring_reads) (intro ring_bytes_cong; simp add: ring_buffers)
  have "?t \<noteq> ?h" using assms(1) by (simp add: tx_queue_def ring_bytes_def unat_ring pending_0)
  moreover have "tx_queue ?q = ring_bytes ((?t + 1) mod 4096) ?h (\<lambda>k. gm_bytes q (OFF_TX_BUF + k))"
    unfolding tx_queue_def ring_reads ring_mod_succ unfolding unat_ring(1) by (intro ring_bytes_cong) (simp add: ring_buffers)
  ultimately show "tx_queue q = c # tx_queue (apply_stores sts q)"
    using ring_pop [of ?t ?h] by (simp add: sts tx_queue_def unat_ring)
qed

lemma apply_stores_append: "apply_stores (sts @ sts') q = apply_stores sts' (apply_stores sts q)"
  by (simp add: apply_stores_def)

lemma drain_tx_queue:
  "drain_tx n q = (cs, sts) \<Longrightarrow> cs = take n (tx_queue q) \<and> tx_queue (apply_stores sts q) = drop n (tx_queue q) \<and> rx_queue (apply_stores sts q) = rx_queue q"
proof (induction n arbitrary: q cs sts)
  case (Suc n)
  show ?case
  proof (cases "tx_queue q = []")
    case True
    then show ?thesis using Suc.prems by (simp add: can_pop_iff apply_stores_def)
  next
    case False
    obtain c st where pop: "pop_char q = (c, st)" by fastforce
    obtain cs' sts' where rest: "drain_tx n (apply_stores st q) = (cs', sts')" by fastforce
    have "cs = c # cs'" "sts = st @ sts'" using Suc.prems False by (simp_all add: can_pop_iff pop rest)
    then show ?thesis using Suc.IH [OF rest] pop_char_queue [OF False pop] by (simp add: apply_stores_append)
  qed
qed (simp add: apply_stores_def)

lemma drain_rx_queue:
  assumes "drain_rx_ring q = (n, sts)"
  shows "unat n = length (rx_queue q)" "rx_queue (apply_stores sts q) = []" "tx_queue (apply_stores sts q) = tx_queue q"
proof -
  let ?q = "gm_store OFF_RX_TAIL (le_bytes 4 (read_rx_head q)) q"
  have sts: "n = (read_rx_head q - read_rx_tail q) mod BUFFER_SIZE" "apply_stores sts q = ?q"
    using assms by (auto simp: drain_rx_ring_def Let_def apply_stores_def write_rx_tail_def)
  show "tx_queue (apply_stores sts q) = tx_queue q"
    by (simp add: sts tx_queue_def ring_reads) (intro ring_bytes_cong; simp add: ring_buffers)
  show "rx_queue (apply_stores sts q) = []" by (simp add: sts rx_queue_def ring_reads ring_bytes_def pending_def unat_ring)
  have "unat (h - t) mod 4096 = (unat h mod 4096 + 4096 - unat t mod 4096) mod 4096" for h t :: u32
  proof -
    have "unat (h - t) mod 4096 = (unat (h - t) + unat t + (4096 - unat t mod 4096)) mod 4096"
    proof -
      have "x + (4096 - r) = 4096 * (d + 1)" if "4096 * d + r = x" "r < 4096" for x r d :: nat using that by simp
      from this [OF mult_div_mod_eq] have "unat t + (4096 - unat t mod 4096) = 4096 * (unat t div 4096 + 1)" by simp
      then show ?thesis using mod_mult_self2 [of "unat (h - t)" 4096 "unat t div 4096 + 1"] by (simp only: add.assoc)
    qed
    also have "\<dots> = ((unat (h - t) + unat t) mod 4096 + (4096 - unat t mod 4096)) mod 4096" by (rule mod_add_left_eq [symmetric])
    also have "(unat (h - t) + unat t) mod 4096 = unat h mod 4096"
    proof -
      have "unat h = (unat (h - t) + unat t) mod 4294967296" using unat_word_ariths(1) [of "h - t" t] by simp
      then show ?thesis by (simp add: mod_mod_cancel)
    qed
    finally show ?thesis using mod_less_divisor [of 4096 "unat t"] by simp
  qed
  then show "unat n = length (rx_queue q)" by (simp add: sts rx_queue_def unat_ring pending_def)
qed

text \<open>The block in the memory of the core, and the stores through the window.\<close>

definition RING_BYTES :: nat where "RING_BYTES = 8216"

definition same_ring :: "guest_mem \<Rightarrow> guest_mem \<Rightarrow> bool" where
  "same_ring q q' \<longleftrightarrow> (\<forall>k < RING_BYTES. gm_bytes q k = gm_bytes q' k)"

definition in_ring :: "stores \<Rightarrow> bool" where
  "in_ring sts \<longleftrightarrow> (\<forall>(off, bs)\<in>set sts. off + length bs \<le> RING_BYTES)"

lemma in_ring_simps [simp]: "in_ring []" "in_ring (st # sts) \<longleftrightarrow> fst st + length (snd st) \<le> RING_BYTES \<and> in_ring sts"
  "in_ring (sts @ sts') \<longleftrightarrow> in_ring sts \<and> in_ring sts'"
  by (auto simp: in_ring_def)

lemma same_ring_store: "same_ring q q' \<Longrightarrow> same_ring (gm_store off bs q) (gm_store off bs q')"
  by (simp add: same_ring_def gm_bytes_store)

lemma same_ring_queues:
  assumes "same_ring q q'"
  shows "rx_queue q = rx_queue q'" "tx_queue q = tx_queue q'"
proof -
  have "gm_load q off 4 = gm_load q' off 4" if "off \<le> 8212" for off
    using assms that by (intro gm_load_cong) (simp add: same_ring_def RING_BYTES_def)
  then have words: "read_rx_head q = read_rx_head q'" "read_rx_tail q = read_rx_tail q'" "read_tx_head q = read_tx_head q'" "read_tx_tail q = read_tx_tail q'"
    by (simp_all add: read_rx_head_def read_rx_tail_def read_tx_head_def read_tx_tail_def ring_offs)
  show "rx_queue q = rx_queue q'" "tx_queue q = tx_queue q'"
    unfolding rx_queue_def tx_queue_def words using assms
    by (intro ring_bytes_cong; simp add: same_ring_def RING_BYTES_def ring_offs)+
qed

lemma ring_view:
  assumes "base + RING_BYTES \<le> unat (L2CPU_MEMORY_SIZE i)" "in_ring sts"
  shows "same_ring (tile_view (store_ring i (at_dram i base) sts s) i (at_dram i base)) (apply_stores sts (tile_view s i (at_dram i base)))"
  using assms(2)
proof (induction sts arbitrary: s rule: rev_induct)
  case Nil
  then show ?case by (simp add: same_ring_def store_ring_def apply_stores_def)
next
  case (snoc st sts)
  obtain off bs where st: "st = (off, bs)" by fastforce
  define t where "t = store_ring i (at_dram i base) sts s"
  have addr: "at_dram i base + word_of_nat k = at_dram i (base + k)" for k by (simp add: at_dram_def)
  have byte: "core_byte u i (at_dram i (base + k)) = gm_bytes (core_dram u i) (base + k)" if "k < RING_BYTES" for u k
    using at_dram [of "base + k" i] that assms(1) by (simp add: core_byte_def core_dram_def)
  have "put_core_bytes i (at_dram i (base + off)) bs t = set_dram i (gm_store (base + off) bs (core_dram t i)) t"
    using snoc.prems assms(1) st by (intro put_core_bytes_dram) simp
  then have "same_ring (tile_view (put_core_bytes i (at_dram i (base + off)) bs t) i (at_dram i base)) (gm_store off bs (tile_view t i (at_dram i base)))"
    by (auto simp: same_ring_def tile_view_def addr byte gm_bytes_store core_dram_def set_dram_def on_world_def)
  moreover have "same_ring (gm_store off bs (tile_view t i (at_dram i base))) (gm_store off bs (apply_stores sts (tile_view s i (at_dram i base))))"
    unfolding t_def using snoc by (intro same_ring_store) simp
  ultimately show ?case by (auto simp: st same_ring_def store_ring_def apply_stores_def t_def addr)
qed

lemma stores_in_ring: "in_ring (snd (push_char c q))" "in_ring (snd (pop_char q))" "in_ring (snd (drain_rx_ring q))" "in_ring (snd (drain_tx n q))"
proof -
  have slot: "unat w mod 4096 \<le> 4111" for w :: u32 by (rule order.trans [of _ 4095]) (simp_all add: less_Suc_eq_le [symmetric])
  show "in_ring (snd (push_char c q))"
    by (simp add: slot push_char_def Let_def write_rx_head_def RING_BYTES_def ring_offs unat_ring [unfolded BUFFER_SIZE_def])
  show pop: "in_ring (snd (pop_char q))" for q by (simp add: pop_char_def Let_def write_tx_tail_def RING_BYTES_def ring_offs)
  show "in_ring (snd (drain_rx_ring q))" by (simp add: drain_rx_ring_def Let_def write_rx_tail_def RING_BYTES_def ring_offs)
  show "in_ring (snd (drain_tx n q))" using pop by (induction n arbitrary: q) (auto simp: split_beta Let_def)
qed

lemma tile_view_host [simp]: "tile_view (on_hub j f s) i q = tile_view s i q" "tile_view (on_metrics g s) i q = tile_view s i q"
  by (auto simp: tile_view_def core_byte_def on_hub_def on_metrics_def on_world_def fun_eq_iff split: prod.split)



end
