(* ===== verification/Server.thy ===== *)
theory Server
  imports Chip_Console
begin

text \<open>
  The daemon's control socket (\<open>src/src/daemon/server.rs\<close>): the request that a client sends, the handler
  it is given to, the reply and the counters; the report of the daemon's state; attaching to a console;
  and the start, which adopts what runs on the chip, and the end of the daemon.
\<close>

section \<open>Status\<close>

text \<open>The block that a parked guest has published, or the part of it that a running one has.\<close>

definition positive :: "u64 option \<Rightarrow> u64 option" where
  "positive v = (case v of Some x \<Rightarrow> if x > 0 then v else None | None \<Rightarrow> None)"

definition or_zero :: "u64 option \<Rightarrow> u64" where
  "or_zero v = (case v of None \<Rightarrow> 0 | Some x \<Rightarrow> x)"

definition release_meta :: "env \<Rightarrow> nat \<Rightarrow> bool \<Rightarrow> purgatory_release_meta option rpc" where
  "release_meta E i parked =
     seq (purgatory_u64 E i FORCE_PARK_REQ_PA_OFFSET) (\<lambda>req_pa.
     seq (purgatory_u64 E i FORCE_PARK_REQ_VALUE_OFFSET) (\<lambda>req_value.
     seq (purgatory_u64 E i MSIP_PA_OFFSET) (\<lambda>msip.
     if parked then
       seq (purgatory_u64 E i NEXT_ADDR_PA_OFFSET) (\<lambda>a.
       seq (purgatory_u64 E i NEXT_MODE_PA_OFFSET) (\<lambda>b.
       seq (purgatory_u64 E i NEXT_ARG1_PA_OFFSET) (\<lambda>c.
       seq (purgatory_u64 E i HSM_STATE_PA_OFFSET) (\<lambda>d.
       ret (case (a, b, c, d, msip) of
              (Some a, Some b, Some c, Some d, Some e) \<Rightarrow>
                Some \<lparr>pm_next_addr_pa = a, pm_next_mode_pa = b, pm_next_arg1_pa = c, pm_hsm_state_pa = d, pm_msip_pa = e,
                  pm_force_park_request_pa = positive req_pa, pm_force_park_request_value = positive req_value\<rparr>
            | _ \<Rightarrow> None)))))
     else ret (if or_zero req_pa > 0
               then Some \<lparr>pm_next_addr_pa = 0, pm_next_mode_pa = 0, pm_next_arg1_pa = 0, pm_hsm_state_pa = 0, pm_msip_pa = or_zero msip,
                      pm_force_park_request_pa = req_pa, pm_force_park_request_value = req_value\<rparr>
               else None))))"

definition absent_status :: "nat \<Rightarrow> bool \<Rightarrow> l2cpu_status" where
  "absent_status i is_wedged =
     \<lparr>ls_idx = word_of_nat i, ls_state = (if is_wedged then Wedged else Stopped), ls_disk = None, ls_disks = [], ls_net = False,
      ls_virtio_console = False, ls_clients = 0, ls_purgatory_status = None, ls_purgatory_peers = None, ls_purgatory_release_meta = None\<rparr>"

definition slot_status :: "nat \<Rightarrow> l2cpu_slot \<Rightarrow> nat \<Rightarrow> u64 option \<Rightarrow> u64 option \<Rightarrow> purgatory_release_meta option \<Rightarrow> l2cpu_status" where
  "slot_status i sl n_clients purg peers release =
     \<lparr>ls_idx = word_of_nat i, ls_state = (if purg = Some STATUS_PARKED then Parked else Running),
      ls_disk = (case sl_disks sl of [] \<Rightarrow> None | d # _ \<Rightarrow> Some (dw_path d)),
      ls_disks = map (\<lambda>d. \<lparr>da_path = dw_path d, da_name = dw_name d\<rparr>) (sl_disks sl),
      ls_net = sl_net sl, ls_virtio_console = sl_virtio_console sl, ls_clients = word_of_nat n_clients,
      ls_purgatory_status = purg, ls_purgatory_peers = peers, ls_purgatory_release_meta = release\<rparr>"

definition l2cpu_report :: "env \<Rightarrow> nat \<Rightarrow> l2cpu_status rpc" where
  "l2cpu_report E i =
     with_slot i (\<lambda>sl. case sl of
       None \<Rightarrow> asks (\<lambda>s. absent_status i (wedged s i))
     | Some sl \<Rightarrow>
         seq (purgatory_u64 E i STATUS_OFFSET) (\<lambda>purg.
         seq (purgatory_u64 E i PEERS_OFFSET) (\<lambda>peers.
         seq (release_meta E i (purg = Some STATUS_PARKED)) (\<lambda>release.
         asks (\<lambda>s. slot_status i sl (client_count (h_hub (hst (world s)) (word_of_nat i))) purg peers release)))))"

fun l2cpu_reports :: "env \<Rightarrow> nat list \<Rightarrow> l2cpu_status list rpc" where
  "l2cpu_reports E [] = ret []"
| "l2cpu_reports E (i # is) = seq (l2cpu_report E i) (\<lambda>r. seq (l2cpu_reports E is) (\<lambda>rs. ret (r # rs)))"

definition pll_state :: "chip \<Rightarrow> u16 option \<times> u8 option" where
  "pll_state c =
     (case (arc_read32 (PLL4_BASE + PLL_CNTL_1) c, arc_read32 (PLL4_BASE + PLL_CNTL_5) c) of
        (Inr cntl1, Inr cntl5) \<Rightarrow> (Some (ucast (drop_bit 16 cntl1)), Some (ucast (cntl5 AND 0xFF)))
      | _ \<Rightarrow> (None, None))"

definition dispatch_status :: "env \<Rightarrow> response rpc" where
  "dispatch_status E =
     seq (l2cpu_reports E [0..<4]) (\<lambda>rs.
     seq read_engine (\<lambda>engine.
     seq (asks (\<lambda>s. pll_state (shared_chip s))) (\<lambda>(fbdiv, postdiv0).
     seq (ask (e_uptime E)) (\<lambda>up.
     ret (Status_Response \<lparr>sp_pid = e_pid E, sp_uptime_secs = up, sp_l2cpus = rs,
       sp_engine_tile = map_option (\<lambda>e. (e_noc0_x e, e_noc0_y e)) engine, sp_pll_fbdiv = fbdiv, sp_pll_postdiv0 = postdiv0\<rparr>)))))"

section \<open>Attaching to a console\<close>

definition attach_hub :: "nat \<Rightarrow> sock \<Rightarrow> console_mode \<Rightarrow> (attach_result \<times> u8 list) rpc" where
  "attach_hub i sk mode =
     seq (asks (\<lambda>s. fst (attach sk mode (h_hub (hst (world s)) (word_of_nat i), h_metrics (hst (world s)))))) (\<lambda>r.
     thn (upd (on_hub i (\<lambda>h. snd (attach sk mode h)))) (ret r))"

text \<open>
  The three writes after the attach: the reply, the descriptor and the scrollback. A client that is gone
  by then is detached, and the handler is done.
\<close>

fun writes_or_detach :: "env \<Rightarrow> nat \<Rightarrow> u64 \<Rightarrow> nat \<Rightarrow> unit rpc" where
  "writes_or_detach E i cid 0 = ret ()"
| "writes_or_detach E i cid (Suc n) =
     seq (ask (e_sends E)) (\<lambda>sent. if sent then writes_or_detach E i cid n else upd (on_hub i (detach cid)))"

definition dispatch_attach_console_post_mortem :: "nat \<Rightarrow> console_mode \<Rightarrow> response rpc" where
  "dispatch_attach_console_post_mortem i mode =
     (if mode \<noteq> Ro then
        slot_state (''l2cpu '' @ dec i @ '' is not booted; attach in Ro mode to view the last scrollback'')
      else seq (asks (\<lambda>s. shutdown_tails s i)) (\<lambda>tail_bytes.
        if tail_bytes = [] then not_booted i else ret (Attached (word_of_nat (length tail_bytes)) False)))"

definition dispatch_attach_console :: "env \<Rightarrow> u8 \<Rightarrow> console_mode \<Rightarrow> response rpc" where
  "dispatch_attach_console E idx mode =
     seq (validate_l2cpu idx) (\<lambda>i.
     thn (ask_io ''socketpair'' (e_socketpair E))
     (thn (ask_io ''try_clone'' (e_try_clone E))
     (seq (with_slot i ret) (\<lambda>sl.
      case sl of
        None \<Rightarrow> dispatch_attach_console_post_mortem i mode
      | Some _ \<Rightarrow>
          seq (ask (e_client_sock E)) (\<lambda>sk.
          seq (attach_hub i sk mode) (\<lambda>(res, scrollback_bytes).
          thn (writes_or_detach E i (ar_id res) 3) (ret (Attached (ar_scrollback_bytes res) True))))))))"

section \<open>A request\<close>

datatype rpc_method = M_Status | M_Boot | M_Attach_Console | M_Add_Disk | M_Remove_Disk | M_Add_Net | M_Remove_Net
  | M_Add_Console | M_Remove_Console | M_Stop | M_Shutdown

fun classify_request :: "request \<Rightarrow> rpc_method" where
  "classify_request Status = M_Status"
| "classify_request (Boot _) = M_Boot"
| "classify_request (Attach_Console _ _) = M_Attach_Console"
| "classify_request (Add_Disk _ _ _) = M_Add_Disk"
| "classify_request (Remove_Disk _ _) = M_Remove_Disk"
| "classify_request (Add_Net _ _ _) = M_Add_Net"
| "classify_request (Remove_Net _) = M_Remove_Net"
| "classify_request (Add_Console _) = M_Add_Console"
| "classify_request (Remove_Console _) = M_Remove_Console"
| "classify_request (Stop _) = M_Stop"
| "classify_request Shutdown = M_Shutdown"

text \<open>The position of the method's counter in the family.\<close>

fun method_label :: "rpc_method \<Rightarrow> u8" where
  "method_label M_Status = 0"
| "method_label M_Boot = 1"
| "method_label M_Attach_Console = 2"
| "method_label M_Add_Disk = 3"
| "method_label M_Remove_Disk = 4"
| "method_label M_Add_Net = 5"
| "method_label M_Remove_Net = 6"
| "method_label M_Add_Console = 7"
| "method_label M_Remove_Console = 8"
| "method_label M_Stop = 9"
| "method_label M_Shutdown = 10"

fun dispatch :: "env \<Rightarrow> libfdt \<Rightarrow> request \<Rightarrow> response rpc" where
  "dispatch E L Status = dispatch_status E"
| "dispatch E L (Boot br) = dispatch_boot E L br"
| "dispatch E L (Attach_Console idx mode) = dispatch_attach_console E idx mode"
| "dispatch E L (Add_Disk idx path name) = dispatch_add_disk E idx path name"
| "dispatch E L (Remove_Disk idx name) = dispatch_remove_disk idx name"
| "dispatch E L (Add_Net idx port extra_fwd) = dispatch_add_net E idx port extra_fwd"
| "dispatch E L (Remove_Net idx) = dispatch_remove_net idx"
| "dispatch E L (Add_Console idx) = dispatch_add_console idx"
| "dispatch E L (Remove_Console idx) = dispatch_remove_console idx"
| "dispatch E L (Stop idx) = dispatch_stop idx"
| "dispatch E L Shutdown = dispatch_shutdown"

fun reply_err :: "error \<Rightarrow> response" where
  "reply_err (Internal m) = Error_Response ''internal daemon error''"
| "reply_err e = Error_Response (show_error e)"

definition add_active :: "int \<Rightarrow> daemon \<Rightarrow> daemon" where
  "add_active n = on_metrics (\<lambda>m. gauge_set DAEMON_CLIENTS_ACTIVE 0 (gauges m DAEMON_CLIENTS_ACTIVE 0 + n) m)"

text \<open>The request behind the frame: the handler, the reply to an error, and the counters. A handler that panics sends nothing.\<close>

definition handle_request :: "env \<Rightarrow> libfdt \<Rightarrow> request \<Rightarrow> daemon \<Rightarrow> response option \<times> daemon" where
  "handle_request E L r s =
     (let label = method_label (classify_request r) in
      case dispatch E L r (on_metrics (counter_inc DAEMON_RPC_TOTAL label) s) of
        (Inr resp, s') \<Rightarrow> (Some resp, s')
      | (Inl (Fail e), s') \<Rightarrow> (Some (reply_err e), on_metrics (counter_inc DAEMON_RPC_ERRORS_TOTAL label) s')
      | (Inl (Crash _), s') \<Rightarrow> (None, s'))"

definition handle_client :: "env \<Rightarrow> libfdt \<Rightarrow> (u8 list \<Rightarrow> string + request) \<Rightarrow> u8 list \<Rightarrow> daemon \<Rightarrow> response option \<times> daemon" where
  "handle_client E L decode sent s =
     (let s1 = add_active 1 (on_metrics (counter_inc DAEMON_CLIENTS_TOTAL 0) s);
          (reply, s2) = (case read_frame decode sent of
             Inl e \<Rightarrow> (Some (Error_Response (''bad request: '' @ io_message e)), s1)
           | Inr (r, _) \<Rightarrow> handle_request E L r s1)
      in (reply, add_active (- 1) s2))"

section \<open>Start and end\<close>

text \<open>A new process: its own state is fresh, the chip and what the guests have in their memories is what it was.\<close>

definition daemon_new :: "u32 \<Rightarrow> chip \<Rightarrow> daemon \<Rightarrow> daemon" where
  "daemon_new card_id c s =
     (on_world (\<lambda>w. w\<lparr>registry := [], uart_registry := []\<rparr>) s)\<lparr>card_no := card_id, l2cpus := (\<lambda>_. None), wedged := (\<lambda>_. False),
       shared_chip := c, tensix_engine := None, dispatcher := False, chip_reset_this_session := False, shutdown_tails := (\<lambda>_. []),
       shutdown_flag := False, console_threads := [], slot_poisoned := (\<lambda>_. False), alloc_poisoned := (\<lambda>_. False),
       dispatcher_poisoned := False, engine_poisoned := False, boot_lock_poisoned := False\<rparr>"

definition probe_initial_chip_state :: "chip \<Rightarrow> nat list" where
  "probe_initial_chip_state c =
     (case arc_read32 L2CPU_RESET_ADDR c of
        Inl _ \<Rightarrow> []
      | Inr v \<Rightarrow> filter (\<lambda>i. drop_bit (i + 4) v AND 1 = 1) [0..<4])"

definition mark_wedged :: "nat \<Rightarrow> bool \<Rightarrow> daemon \<Rightarrow> daemon" where
  "mark_wedged i b s = s\<lparr>wedged := (wedged s)(i := b)\<rparr>"

definition warm_resume_one :: "env \<Rightarrow> nat \<Rightarrow> unit rpc" where
  "warm_resume_one E i =
     seq (ask (\<lambda>s. e_l2cpu_new E s i)) (\<lambda>r.
     case r of
       Some _ \<Rightarrow> upd (mark_wedged i True)
     | None \<Rightarrow>
         seq (probe_warm_resume E i) (\<lambda>viable.
         if \<not> viable then upd (mark_wedged i True)
         else seq (okay (make_slot_from_l2cpu E i)) (\<lambda>sl.
           case sl of
             None \<Rightarrow> upd (mark_wedged i True)
           | Some sl \<Rightarrow>
               seq (asks (\<lambda>s. slot_poisoned s i)) (\<lambda>p.
               if p then fail (Crash ''PoisonError'')
               else thn (upd (put_slot i (Some sl)))
                 (thn (upd (mark_wedged i False)) (upd (on_metrics (counter_inc L2CPU_BOOT_WARM_TOTAL (word_of_nat i)))))))))"

definition warm_resume_released :: "env \<Rightarrow> nat list \<Rightarrow> unit rpc" where
  "warm_resume_released E released =
     thn (if released \<noteq> [] then drop_result (adopt_running_tensix_engine E) else ret ())
     (each (warm_resume_one E) released)"

definition startup :: "env \<Rightarrow> unit rpc" where
  "startup E =
     seq (asks (\<lambda>s. probe_initial_chip_state (shared_chip s))) (\<lambda>released.
     if released \<noteq> [] then warm_resume_released E released else ret ())"

definition teardown_slot :: "nat \<Rightarrow> unit rpc" where
  "teardown_slot i =
     with_slot i (\<lambda>sl. thn (upd (put_slot i None))
       (case sl of
          None \<Rightarrow> ret ()
        | Some _ \<Rightarrow>
            thn (upd (disconnect i ''daemon shutting down'')) (thn (upd (unregister_engine_slots i)) (upd (slot_shutdown i)))))"

definition teardown :: "unit rpc" where
  "teardown = thn (each teardown_slot [0..<4]) (upd maybe_idle_pll)"

text \<open>What the accept loop does with the clients it has accepted, in the order in which their handlers run.\<close>

fun serve_clients :: "env \<Rightarrow> libfdt \<Rightarrow> (u8 list \<Rightarrow> string + request) \<Rightarrow> u8 list list \<Rightarrow> daemon \<Rightarrow> daemon" where
  "serve_clients E L decode [] s = s"
| "serve_clients E L decode (sent # rest) s =
     (if shutdown_flag s then s else serve_clients E L decode rest (snd (handle_client E L decode sent s)))"

end
