(* ===== verification/Server_Inv.thy ===== *)
theory Server_Inv
  imports Boot_Inv Server
begin

text \<open>
  The daemon as a whole: its states are the ones that are reached from the start by requests of clients, by
  the console threads and by the guests, in any order. Every such state has the invariant of the bookkeeping.
\<close>

section \<open>The console thread\<close>

lemma frame_store_ring [simp]: "frame s (store_ring i q sts s)"
proof (induction sts arbitrary: s)
  case (Cons st sts)
  have "store_ring i q (st # sts) s = store_ring i q sts (put_core_bytes i (q + word_of_nat (fst st)) (snd st) s)"
    by (simp add: store_ring_def split_beta)
  then show ?case using frame_trans [OF frame_core_bytes Cons.IH] by simp
qed (simp add: store_ring_def)

lemma frame_drop_input [simp]: "frame s (drop_input i q s)"
  unfolding drop_input_def Let_def by (rule frame_trans [OF _ frame_store_ring]) (simp add: drain_input_channel_def)

lemma frame_outputs [simp]: "frame s (push_output i bs s)" "frame s (disconnect i m s)"
  by (simp_all add: push_output_def disconnect_def)

lemma frame_take_output [simp]: "frame s (take_output i q s)"
proof -
  have "frame s (push_output i bs (on_metrics f (store_ring i q sts s)))" for bs f sts
    by (rule frame_trans [OF frame_store_ring frame_trans [OF frame_metrics frame_outputs(1)]])
  then show ?thesis by (simp add: take_output_def split: prod.split)
qed

lemma inv_drop_workers: "daemon_inv s \<Longrightarrow> daemon_inv (drop_workers_on_shutdown_park i s)"
  unfolding drop_workers_on_shutdown_park_def using inv_drop_devices by (auto split: option.split)

lemma inv_on_poweroff: "daemon_inv s \<Longrightarrow> daemon_inv (on_poweroff i q s)"
  unfolding on_poweroff_def comp_def
  by (intro frame_inv [OF frame_drop_input] frame_inv [OF frame_hub] frame_inv [OF frame_outputs(2)] inv_drop_workers)

lemma inv_drop_net:
  assumes "daemon_inv s"
  shows "daemon_inv (snd (drop_net_for_reboot i s))"
proof -
  have "daemon_inv ((if dispatcher_usable s then unregister (engine_slot i DEV_NET) else id) (put_slot i (Some (sl\<lparr>sl_net := False\<rparr>)) s))"
    if sl: "l2cpus s i = Some sl" "\<not> slot_poisoned s i" for sl
  proof -
    let ?sl = "sl\<lparr>sl_net := False\<rparr>"
    note ok = inv_slot [OF assms sl]
    have ok': "disks_ok i ?sl" "blk_dtb_ok ?sl" using ok by (simp_all add: disks_ok_def blk_dtb_ok_def)
    then have put: "daemon_inv (put_slot i (Some ?sl) s)" by (intro inv_shrink [OF assms sl]) (auto simp: attached_def)
    moreover have "daemon_inv (unregister (engine_slot i DEV_NET) (put_slot i (Some ?sl) s))"
      by (rule inv_unregister_own [OF put]) (use attached_iff [OF ok'] in \<open>auto simp: dev_defs\<close>)
    ultimately show ?thesis by simp
  qed
  then show ?thesis using assms by (auto simp: drop_net_for_reboot_def split: option.split)
qed

lemma stable_attempt [stable_intros]: "stable m \<Longrightarrow> stable (attempt ctx m)"
  unfolding attempt_def
  by (intro stable_seq stable_wrap(2)) (auto split: sum.split fault.split intro: stable_intros simp del: act_simps)

lemma stable_pair [stable_intros]: "stable m \<Longrightarrow> stable (pair_for_reply E m)"
  unfolding pair_for_reply_def by (intro stable_intros)

lemma stable_reattach [stable_intros]: "stable (reattach_net_for_reboot E idx fwd)"
  unfolding reattach_net_for_reboot_def by (intro stable_intros)

lemma stable_prod [stable_intros]: "(\<And>a b. stable (f a b)) \<Longrightarrow> stable (case x of (a, b) \<Rightarrow> f a b)"
  by (simp split: prod.split)

lemma stable_sum [stable_intros]: "(\<And>a. stable (f a)) \<Longrightarrow> (\<And>b. stable (g b)) \<Longrightarrow> stable (case x of Inl a \<Rightarrow> f a | Inr b \<Rightarrow> g b)"
  by (simp split: sum.split)

lemma stable_auto_release [stable_intros]: "stable (auto_release_for_reboot E L idx)"
  unfolding auto_release_for_reboot_def by (intro stable_intros framed_stable [OF framed_meta])

lemma stable_on_reboot [stable_intros]: "stable (on_reboot E L idx q)"
proof -
  have net: "stable (seq (asks (drop_net_for_reboot i)) (\<lambda>(cached, s'). thn (upd (\<lambda>_. s')) (k cached)))" if "\<And>c. stable (k c)" for i and k :: "fwd list option \<Rightarrow> unit rpc"
  proof (rule stableI)
    fix s assume "daemon_inv s"
    then have "daemon_inv (snd (drop_net_for_reboot i s))" by (rule inv_drop_net)
    then show "keeps_inv (seq (asks (drop_net_for_reboot i)) (\<lambda>(cached, s'). thn (upd (\<lambda>_. s')) (k cached))) s"
      using stableD [OF that] unfolding keeps_inv_def wp_simps by (simp add: split_beta)
  qed
  show ?thesis unfolding on_reboot_def Let_def
    by (intro stable_thn stable_seq [OF stable_auto_release] net stable_option stable_reattach;
        (intro framed_stable framed_intros framed_upd; simp)?)
qed

lemma stable_probe_parked [stable_intros]: "stable (probe_parked E L idx q lp)"
proof -
  have "framed (read_parked_state E i)" "framed (read_parked_reset_type E i)" for i
    unfolding read_parked_state_def read_parked_reset_type_def by (intro framed_intros)+
  then show ?thesis unfolding probe_parked_def Let_def
    by (intro stable_seq stable_thn stable_if stable_on_reboot stable_upd inv_on_poweroff; (intro framed_stable framed_intros)?)
qed

lemma framed_push_wait [framed_intros]: "framed (push_wait E i q b n)"
proof (induction n)
  case (Suc n)
  then show ?case by (simp only: push_wait.simps) (intro framed_intros framed_upd frame_store_ring)
qed (simp only: push_wait.simps framed_intros)

lemma framed_feed_input [framed_intros]: "framed (feed_input E i q g n)"
proof (induction n arbitrary: g)
  case (Suc n)
  then show ?case by (simp only: feed_input.simps) (intro framed_intros framed_upd frame_parts frame_metrics)
qed (simp only: feed_input.simps framed_intros)

lemma stable_uart_round [stable_intros]: "stable (uart_round E L idx q n lp)"
proof -
  have "stable (case r of Go_On x \<Rightarrow> thn (guests_run E) (ret (Go_On p)) | Exit e \<Rightarrow> ret r | Out_Of_Steps \<Rightarrow> ret r)" for r p
    by (cases r) (simp_all add: framed_stable framed_intros del: act_simps)
  then show ?thesis unfolding uart_round_def Let_def
    by (intro stable_seq stable_thn stable_if stable_probe_parked; (assumption | intro framed_stable framed_intros framed_upd frame_take_output)?)
qed

section \<open>Requests\<close>

lemma framed_report [framed_intros]: "framed (l2cpu_report E i)"
proof -
  have "framed (release_meta E i p)" for p unfolding release_meta_def by (intro framed_intros)
  then show ?thesis unfolding l2cpu_report_def by (intro framed_intros)
qed

lemma framed_reports [framed_intros]: "framed (l2cpu_reports E is)"
  by (induction "is") (simp_all only: l2cpu_reports.simps framed_intros)

lemma framed_status: "framed (dispatch_status E)"
  unfolding dispatch_status_def by (intro framed_intros)

lemma framed_attach: "framed (dispatch_attach_console E idx mode)"
proof -
  have "framed (writes_or_detach E i cid n)" for i cid n
    by (induction n) (simp_all only: writes_or_detach.simps framed_intros framed_upd frame_hub)
  moreover have "framed (attach_hub i sk mode)" for i sk unfolding attach_hub_def by (intro framed_intros framed_upd frame_hub)
  moreover have "framed (dispatch_attach_console_post_mortem i mode)" for i
    unfolding dispatch_attach_console_post_mortem_def by (intro framed_intros)
  moreover have "framed (validate_l2cpu idx)" unfolding validate_l2cpu_def by (intro framed_intros)
  ultimately show ?thesis unfolding dispatch_attach_console_def by (intro framed_intros)
qed

lemma stable_dispatch: "stable (dispatch E L r)"
proof (cases r)
  case Shutdown
  have "frame s (s\<lparr>shutdown_flag := True\<rparr>)" for s by simp
  then show ?thesis unfolding Shutdown dispatch.simps dispatch_shutdown_def by (intro framed_stable framed_intros framed_upd)
qed (simp_all only: dispatch.simps stable_intros framed_stable [OF framed_status] framed_stable [OF framed_attach])

lemma stable_run: "stable m \<Longrightarrow> daemon_inv s \<Longrightarrow> daemon_inv (snd (m s))"
  by (cases "m s"; cases "fst (m s)") (auto simp: stable_def keeps_inv_def wp_def)

lemma inv_handle_request:
  assumes "daemon_inv s"
  shows "daemon_inv (snd (handle_request E L r s))"
proof -
  let ?s = "on_metrics (counter_inc DAEMON_RPC_TOTAL (method_label (classify_request r))) s"
  have "daemon_inv (snd (dispatch E L r ?s))" by (rule stable_run [OF stable_dispatch inv_metrics [OF assms]])
  then show ?thesis unfolding handle_request_def Let_def
    by (cases "dispatch E L r ?s") (auto split: sum.splits fault.splits intro: inv_metrics)
qed

lemma inv_handle_client:
  assumes "daemon_inv s"
  shows "daemon_inv (snd (handle_client E L decode sent s))"
proof -
  let ?s = "add_active 1 (on_metrics (counter_inc DAEMON_CLIENTS_TOTAL 0) s)"
  have active: "daemon_inv (add_active n t)" if "daemon_inv t" for n t unfolding add_active_def by (rule inv_metrics [OF that])
  then have "daemon_inv ?s" by (intro active inv_metrics assms)
  then show ?thesis unfolding handle_client_def Let_def using active inv_handle_request [OF \<open>daemon_inv ?s\<close>]
    by (auto split: sum.split simp: split_beta)
qed

section \<open>Start and end\<close>

lemma framed_probe: "framed (probe_warm_resume E i)"
proof -
  have "framed (read_descriptor E i)" unfolding read_descriptor_def by (intro framed_intros)
  then show ?thesis unfolding probe_warm_resume_def by (intro framed_intros)
qed

lemma inv_daemon_new: "daemon_inv (daemon_new card_id c s)"
  by (simp add: daemon_new_def daemon_inv_def slots_ok_def registry_ok_def entries_ok_def)

lemma keeps_warm_resume:
  assumes inv: "daemon_inv s" and i: "i < 4"
  shows "keeps_inv (warm_resume_one E i) s"
proof -
  let ?Q = "\<lambda>_. daemon_inv"
  have install: "wp (seq (asks (\<lambda>s. slot_poisoned s i)) (\<lambda>p. if p then fail (Crash ''PoisonError'') else thn (upd (put_slot i (Some fresh_slot)))
      (thn (upd (mark_wedged i False)) (upd (on_metrics (counter_inc L2CPU_BOOT_WARM_TOTAL (word_of_nat i))))))) ?Q ?Q t" if "daemon_inv t" for t
  proof -
    have "daemon_inv (put_slot i (Some fresh_slot) t)"
      using that i by (intro inv_put_slot) (auto simp: fresh_slot_def disks_ok_def blk_dtb_ok_def slot_served_def attached_def)
    then have "daemon_inv (mark_wedged i False (put_slot i (Some fresh_slot) t))" by (simp add: mark_wedged_def)
    then show ?thesis unfolding wp_simps using that by (simp add: inv_metrics)
  qed
  have "wp (okay (make_slot_from_l2cpu E i)) (\<lambda>sl t. (sl = None \<or> sl = Some fresh_slot) \<and> daemon_inv t) ?Q t" if "daemon_inv t" for t
    unfolding okay_def wp_simps
    using make_slot_fresh [of E i t] by (rule wp_mono) (use frame_inv that in \<open>auto simp: wp_simps split: failure.split simp del: act_simps\<close>)
  then have slot: "wp (seq (okay (make_slot_from_l2cpu E i)) (\<lambda>sl. case sl of None \<Rightarrow> upd (mark_wedged i True)
      | Some sl \<Rightarrow> seq (asks (\<lambda>s. slot_poisoned s i)) (\<lambda>p. if p then fail (Crash ''PoisonError'') else thn (upd (put_slot i (Some sl)))
      (thn (upd (mark_wedged i False)) (upd (on_metrics (counter_inc L2CPU_BOOT_WARM_TOTAL (word_of_nat i)))))))) ?Q ?Q t" if "daemon_inv t" for t
    by (rule wp_seqI) (use that install in \<open>auto simp: wp_upd mark_wedged_def simp del: act_simps\<close>)
  show ?thesis unfolding warm_resume_one_def keeps_inv_def
    by (rule wp_seqI [where P = "\<lambda>_. daemon_inv"])
      (use inv slot in \<open>auto simp: wp_ask wp_upd mark_wedged_def split: option.split intro!: wp_seqI [OF framed_keeps [OF framed_probe]] simp del: act_simps\<close>)
qed

lemma stable_startup: "stable (startup E)"
proof (rule stableI)
  fix s assume inv: "daemon_inv s"
  let ?js = "probe_initial_chip_state (shared_chip s)"
  have js: "set ?js \<subseteq> {..<4}" by (auto simp: probe_initial_chip_state_def split: sum.split)
  have "framed (ret ())" by (intro framed_intros)
  have "wp (okay (adopt_running_tensix_engine E)) (\<lambda>_. daemon_inv) (\<lambda>_. daemon_inv) s"
    unfolding okay_def wp_simps using stableD [OF stable_bring_up(2) inv, unfolded keeps_inv_def]
    by (rule wp_mono) (auto simp: wp_simps split: failure.split simp del: act_simps)
  moreover have "wp (each (warm_resume_one E) ?js) (\<lambda>_. daemon_inv) (\<lambda>_. daemon_inv) t" if "daemon_inv t" for t
    by (rule wp_each [where I = daemon_inv]) (use js keeps_warm_resume that in \<open>auto simp: keeps_inv_def\<close>)
  ultimately show "keeps_inv (startup E) s"
    unfolding startup_def warm_resume_released_def keeps_inv_def drop_result_def wp_simps
    using inv by (auto simp: wp_simps elim!: wp_mono simp del: act_simps)
qed

lemma stable_teardown: "stable teardown"
proof -
  have "stable (teardown_slot i)" for i
  proof (rule stableI)
    fix s assume inv: "daemon_inv s"
    have "daemon_inv (slot_shutdown i (unregister_engine_slots i (disconnect i m (put_slot i None s))))" for m
      using inv_put_None [OF inv, of i]
      by (intro frame_inv [OF framed_shutdown(1)] inv_unregister_engine_slots frame_inv [OF framed_shutdown(3)]) simp_all
    then show "keeps_inv (teardown_slot i) s"
      unfolding teardown_slot_def keeps_inv_def wp_simps using inv inv_put_None [OF inv, of i] by (simp split: option.split)
  qed
  then have "stable (each teardown_slot [0..<4])" unfolding stable_def keeps_inv_def by (auto intro: wp_each)
  then show ?thesis unfolding teardown_def by (intro stable_intros stable_upd inv_maybe_idle_pll)
qed

section \<open>Every state of the daemon\<close>

inductive daemon_reachable :: "env \<Rightarrow> libfdt \<Rightarrow> (u8 list \<Rightarrow> string + request) \<Rightarrow> daemon \<Rightarrow> bool"
  for E L decode where
  start: "daemon_reachable E L decode (snd (startup E (daemon_new card_id c s)))"
| client: "daemon_reachable E L decode s \<Longrightarrow> daemon_reachable E L decode (snd (handle_client E L decode sent s))"
| console: "daemon_reachable E L decode s \<Longrightarrow> daemon_reachable E L decode (snd (uart_round E L idx q n last_parked s))"
| guests: "daemon_reachable E L decode s \<Longrightarrow> daemon_reachable E L decode (snd (guests_run E s))"
| stop: "daemon_reachable E L decode s \<Longrightarrow> daemon_reachable E L decode (snd (teardown s))"

lemma reachable_inv: "daemon_reachable E L decode s \<Longrightarrow> daemon_inv s"
proof (induction rule: daemon_reachable.induct)
  case (start card_id c s)
  show ?case by (intro stable_run [OF stable_startup] inv_daemon_new)
next
  case (console s idx q n last_parked)
  then show ?case by (intro stable_run [OF stable_uart_round])
next
  case (guests s)
  then show ?case by (intro stable_run [OF framed_stable [OF framed_guests_run]])
next
  case (stop s)
  then show ?case by (intro stable_run [OF stable_teardown])
qed (rule inv_handle_client)

section \<open>A daemon at work\<close>

text \<open>
  A daemon that starts beside a guest that has its rings, and beside a firmware of its own build, takes
  both over.
\<close>

lemma runs_catch: "runs m s a t \<Longrightarrow> runs (catch m) s (Inr a) t"
  unfolding runs_def
proof
  fix n assume "\<forall>n. \<exists>n'. m (s\<lparr>os_calls := n\<rparr>) = (Inr a, t\<lparr>os_calls := n'\<rparr>)"
  then obtain n' where "m (s\<lparr>os_calls := n\<rparr>) = (Inr a, t\<lparr>os_calls := n'\<rparr>)" by blast
  then show "\<exists>n'. catch m (s\<lparr>os_calls := n\<rparr>) = (Inr (Inr a), t\<lparr>os_calls := n'\<rparr>)" by (auto simp: catch_def)
qed

lemma runs_okay: "runs m s a t \<Longrightarrow> runs (okay m) s (Some a) t"
  unfolding okay_def by (erule runs_seq [OF runs_catch]) (simp add: runs_ret del: act_simps)

lemma runs_ask: "runs (ask f) s a t \<longleftrightarrow> (\<forall>n. f (s\<lparr>os_calls := n\<rparr>) = a) \<and> t\<lparr>os_calls := 0\<rparr> = s\<lparr>os_calls := 0\<rparr>"
proof -
  have "(\<exists>n'. s\<lparr>os_calls := Suc n\<rparr> = t\<lparr>os_calls := n'\<rparr>) \<longleftrightarrow> t\<lparr>os_calls := 0\<rparr> = s\<lparr>os_calls := 0\<rparr>" for n
    by (cases s; cases t) auto
  then show ?thesis by (auto simp: runs_def ask_def)
qed

lemma tile_view_calls [simp]: "tile_view (s\<lparr>os_calls := n\<rparr>) i a = tile_view s i a"
  by (auto simp: tile_view_def core_byte_def fun_eq_iff)

definition has_rings :: "daemon \<Rightarrow> nat \<Rightarrow> bool" where
  "has_rings s i \<longleftrightarrow>
     (let start = L2CPU_STARTING_ADDRESS i; debug_ptr = core_word s i (start + OPENSBI_DEBUG_PTR)
      in case decode_descriptor (gm_load (tile_view s i (start + ucast debug_ptr)) 0 DESCRIPTOR_BYTES) of
           Inl _ \<Rightarrow> False
         | Inr uart_base \<Rightarrow> decode_magic (gm_load (tile_view s i uart_base) OFF_MAGIC 8) = Inr ())"

lemma runs_probe:
  assumes "windows_open E i" "\<not> alloc_poisoned s i" "has_rings s i" "i < 4"
  shows "runs (probe_warm_resume E i) s True s"
proof -
  let ?start = "L2CPU_STARTING_ADDRESS i"
  let ?desc = "gm_load (tile_view s i (?start + ucast (core_word s i (?start + OPENSBI_DEBUG_PTR)))) 0 DESCRIPTOR_BYTES"
  have "(?start + OPENSBI_DEBUG_PTR) mod 4 = 0" by (simp add: L2CPU_STARTING_ADDRESS_def OPENSBI_DEBUG_PTR_def)
  then have desc: "runs (read_descriptor E i) s ?desc s"
    unfolding read_descriptor_def Let_def
    by (intro runs_seq [OF runs_read32 [OF assms(1,2)]] runs_thn [OF runs_window [OF assms(1,2)]] runs_asks) simp_all
  obtain base where base: "decode_descriptor ?desc = Inr base" "decode_magic (gm_load (tile_view s i base) OFF_MAGIC 8) = Inr ()"
    using assms(3) by (auto simp: has_rings_def Let_def split: sum.splits)
  have "runs (okay (thn (open_window E i base) (asks (\<lambda>s. gm_load (tile_view s i base) OFF_MAGIC 8)))) s (Some (gm_load (tile_view s i base) OFF_MAGIC 8)) s"
    by (intro runs_okay runs_thn [OF runs_window [OF assms(1,2)]] runs_asks) simp
  from runs_seq [OF this runs_ret, of "\<lambda>magic. case magic of None \<Rightarrow> False | Some bs \<Rightarrow> decode_magic bs = Inr ()"] show ?thesis
    unfolding probe_warm_resume_def by (intro runs_seq [OF runs_okay [OF desc]]) (simp add: base del: act_simps)
qed

definition resumed :: "nat \<Rightarrow> daemon \<Rightarrow> daemon" where
  "resumed i s =
     on_metrics (counter_inc L2CPU_BOOT_WARM_TOTAL (word_of_nat i)) (mark_wedged i False (put_slot i (Some fresh_slot) (start_console i s)))"

lemma runs_warm_resume:
  assumes "windows_open E i" "\<And>s. e_l2cpu_new E s i = None" "\<not> alloc_poisoned s i" "\<not> slot_poisoned s i" "has_rings s i" "i < 4"
  shows "runs (warm_resume_one E i) s () (resumed i s)"
proof -
  have make: "runs (make_slot_from_l2cpu E i) s fresh_slot (start_console i s)"
    unfolding make_slot_from_l2cpu_def
    by (intro runs_thn [OF runs_window [OF assms(1,3)]] runs_thn [OF runs_upd runs_ret]) (simp add: start_console_def on_world_def)
  have ok: "\<not> slot_poisoned (start_console i s) i" using assms(4) by (simp add: start_console_def on_world_def)
  have install: "runs (thn (upd (put_slot i (Some fresh_slot)))
      (thn (upd (mark_wedged i False)) (upd (on_metrics (counter_inc L2CPU_BOOT_WARM_TOTAL (word_of_nat i)))))) (start_console i s) () (resumed i s)"
    unfolding resumed_def
    by (intro runs_thn [OF runs_upd] runs_upd) (simp_all add: put_slot_def mark_wedged_def on_metrics_def on_world_def)
  have new: "runs (ask (\<lambda>s. e_l2cpu_new E s i)) s None s" using assms(2) by (simp add: runs_ask)
  have poison: "runs (asks (\<lambda>s. slot_poisoned s i)) (start_console i s) False (start_console i s)"
    using runs_asks [of "\<lambda>s. slot_poisoned s i" "start_console i s"] ok by simp
  show ?thesis unfolding warm_resume_one_def
    by (rule runs_seq [OF new], simp del: act_simps, rule runs_seq [OF runs_probe [OF assms(1,3,5,6)]], simp del: act_simps,
        rule runs_seq [OF runs_okay [OF make]], simp del: act_simps, rule runs_seq [OF poison], simp add: install del: act_simps)
qed

definition console_dram :: guest_mem where
  "console_dram = \<lparr>gm_bytes = (\<lambda>a. case map_of
       [(0x81, 1), (0x100, 0x4F), (0x101, 0x53), (0x102, 0x42), (0x103, 0x49), (0x104, 0x64), (0x105, 0x62), (0x106, 0x75), (0x107, 0x67),
        (0x111, 2), (0x113, 0x30), (0x115, 0x40), (0x200, 0x54), (0x201, 0x52), (0x202, 0x41), (0x203, 0x55), (0x204, 0x54), (0x205, 0x52),
        (0x206, 0x49), (0x207, 0x56)] a of None \<Rightarrow> 0 | Some b \<Rightarrow> b),
     gm_size = L2CPU_MAPPED 0, gm_fault = False\<rparr>"

definition loaded_tile :: tile where
  "loaded_tile = demo_tile (put (Stat STATS_OFF_VERSION) (stamped_version 0x800101) (put (Stat STATS_OFF_MAGIC) STATS_MAGIC_LOADED zero_l1))"

definition busy_env :: env where
  "busy_env = demo_env\<lparr>e_open_tile := (\<lambda>_ _ _. Inr loaded_tile), e_build_id := 0x800101\<rparr>"

definition busy_daemon :: daemon where
  "busy_daemon = daemon_new 0 (Some demo_chip) (on_world (\<lambda>w. w\<lparr>dram := (\<lambda>_. console_dram)\<rparr>) demo_daemon)"

lemma busy_rings: "has_rings (on_world (dispatcher_spawn m) busy_daemon\<lparr>dispatcher := True, tensix_engine := e\<rparr>) 0"
proof -
  let ?s = "on_world (dispatcher_spawn m) busy_daemon\<lparr>dispatcher := True, tensix_engine := e\<rparr>"
  have dram: "dram (world ?s) 0 = console_dram" by (simp add: busy_daemon_def daemon_new_def on_world_def dispatcher_spawn_def)
  have bytes: "core_byte ?s 0 (0x400030000000 + word_of_nat k) = gm_bytes console_dram k" if "k < 0x1000" for k
  proof -
    have "unat (word_of_nat k :: u64) = k" using that by (simp add: unat_of_nat)
    then show ?thesis using that dram
      by (simp add: core_byte_def in_dram_def dram_off_def L2CPU_STARTING_ADDRESS_def L2CPU_MEMORY_SIZE_def word_le_nat_alt word_less_nat_alt unat_word_ariths)
  qed
  have word: "core_word ?s 0 (L2CPU_STARTING_ADDRESS 0 + OPENSBI_DEBUG_PTR) = 0x100"
    using dram by (simp add: core_word_def in_dram_def dram_off_def L2CPU_STARTING_ADDRESS_def L2CPU_MEMORY_SIZE_def OPENSBI_DEBUG_PTR_def gm_load_def upt_rec console_dram_def)
  have view: "gm_load (tile_view ?s 0 (0x400030000000 + word_of_nat off)) 0 n = gm_load console_dram off n" if "off + n \<le> 0x1000" for off n
  proof -
    have "core_byte ?s 0 (0x400030000000 + word_of_nat off + word_of_nat k) = gm_bytes console_dram (off + k)" if "k < n" for k
      using bytes [of "off + k"] that \<open>off + n \<le> 0x1000\<close> by (simp add: add.assoc)
    then show ?thesis by (auto simp: gm_load_def tile_view_def intro: nth_equalityI)
  qed
  have desc: "gm_load console_dram 0x100 DESCRIPTOR_BYTES =
      [0x4F, 0x53, 0x42, 0x49, 0x64, 0x62, 0x75, 0x67, 0, 0, 0, 0, 0, 0, 0, 0, 0, 2, 0, 0x30, 0, 0x40, 0, 0]"
    "gm_load console_dram 0x200 8 = [0x54, 0x52, 0x41, 0x55, 0x54, 0x52, 0x49, 0x56]"
    by (simp_all add: gm_load_def DESCRIPTOR_BYTES_def upt_rec console_dram_def)
  have "decode_descriptor (gm_load console_dram 0x100 DESCRIPTOR_BYTES) = Inr 0x400030000200"
    unfolding desc by (simp add: decode_descriptor_def EYE_CATCHER_def str_def OFF_VIRTUART_BASE_IN_DESC_def upt_rec)
  moreover have "decode_magic (gm_load console_dram 0x200 8) = Inr ()"
    unfolding desc by (simp add: decode_magic_def VIRTUAL_UART_MAGIC_def)
  ultimately show ?thesis using view [of "0x100" DESCRIPTOR_BYTES] view [of "0x200" 8] word
    by (simp add: has_rings_def L2CPU_STARTING_ADDRESS_def OFF_MAGIC_def DESCRIPTOR_BYTES_def)
qed

definition started :: "engine \<Rightarrow> daemon" where
  "started eng = resumed 0 ((on_world (dispatcher_spawn zero_l1) busy_daemon)\<lparr>dispatcher := True, tensix_engine := Some eng\<rparr>)"

lemma busy_start: "\<exists>eng. runs (startup busy_env) busy_daemon () (started eng)"
proof -
  have tile: "word (t_l1 loaded_tile) (Stat STATS_OFF_MAGIC) = STATS_MAGIC_LOADED"
    "word (t_l1 loaded_tile) (Stat STATS_OFF_VERSION) = stamped_version 0x800101"
    by (simp_all add: loaded_tile_def demo_tile_def word_put)
  have "\<exists>eng. \<forall>s. adopt_running (Some demo_chip) (e_open_tile busy_env s) (e_build_id busy_env) = Inr eng"
    using tile by (simp add: adopt_running_def choose_tile_ok [OF demo_chip_telemetry demo_picked] stamped_fields busy_env_def)
  then obtain eng where eng: "adopt_running (Some demo_chip) (e_open_tile busy_env s) (e_build_id busy_env) = Inr eng" for s by blast
  let ?s = "(on_world (dispatcher_spawn zero_l1) busy_daemon)\<lparr>dispatcher := True, tensix_engine := Some eng\<rparr>"
  have fields: "shared_chip busy_daemon = Some demo_chip" "\<not> engine_poisoned busy_daemon" "tensix_engine busy_daemon = None" "\<not> dispatcher_poisoned busy_daemon"
    "e_tile_l1 busy_env = (\<lambda>_. zero_l1)" "e_l2cpu_new busy_env = (\<lambda>_ _. None)" "windows_open busy_env i" for i
    by (simp_all add: busy_daemon_def daemon_new_def busy_env_def demo_env_def windows_open_def)
  have "adopt_running_tensix_engine busy_env (busy_daemon\<lparr>os_calls := n\<rparr>) = (Inr (), ?s\<lparr>os_calls := Suc (Suc n)\<rparr>)" for n
    by (simp add: adopt_running_tensix_engine_def install_engine_def ask_step fields eng seq_def thn_def ask_def on_world_def)
  then have adopt: "runs (drop_result (adopt_running_tensix_engine busy_env)) busy_daemon () ?s"
    unfolding drop_result_def by (intro runs_thn [OF runs_okay runs_ret]) (auto simp: runs_def)
  have "runs (warm_resume_one busy_env 0) ?s () (started eng)"
    unfolding started_def using busy_rings
    by (intro runs_warm_resume fields) (simp_all add: fields busy_daemon_def daemon_new_def on_world_def)
  then have "runs (warm_resume_released busy_env [0]) busy_daemon () (started eng)"
    unfolding warm_resume_released_def by (simp del: act_simps) (intro runs_thn [OF adopt] runs_thn [OF _ runs_ret])
  moreover have "probe_initial_chip_state (Some demo_chip) = [0]"
    by (simp add: probe_initial_chip_state_def arc_read32_def reset_window_offset_def word_offset_def chip_consts telemetry_consts demo_chip_def upt_rec)
  ultimately have "runs (startup busy_env) busy_daemon () (started eng)"
    unfolding startup_def using fields(1) by (intro runs_seq [OF runs_asks]) (simp_all del: act_simps)
  then show ?thesis by blast
qed


lemma client_adds_console:
  fixes E L
  assumes "read_frame decode sent = Inr (Add_Console idx, rest)" "idx < 4" "l2cpus s (unat idx) = Some sl" "\<not> slot_poisoned s (unat idx)"
    and "dispatcher s" "\<not> dispatcher_poisoned s" "\<not> sl_virtio_console sl"
  defines "t \<equiv> snd (handle_client E L decode sent s)"
  shows "l2cpus t (unat idx) = Some (sl\<lparr>sl_virtio_console := True\<rparr>)" "\<not> slot_poisoned t (unat idx)" "dispatcher t"
    "\<not> dispatcher_poisoned t"
  using assms(1-7) unfolding t_def
  by (simp_all add: handle_client_def handle_request_def add_active_def on_metrics_def on_world_def dispatch_add_console_def validate_l2cpu_def
      with_booted_def with_slot_def with_dispatcher_def guarded_def fresh_input_def register_entry_def put_slot_def)

text \<open>A state that the daemon reaches: a warm-resumed guest, to which a client has added a console.\<close>

lemma busy_console:
  "\<exists>s. daemon_reachable busy_env demo_fdt (\<lambda>_. Inr (Add_Console 0)) s \<and> l2cpus s 0 = Some (fresh_slot\<lparr>sl_virtio_console := True\<rparr>) \<and>
     \<not> slot_poisoned s 0 \<and> dispatcher s \<and> \<not> dispatcher_poisoned s"
proof -
  obtain eng n where start: "startup busy_env busy_daemon = (Inr (), (started eng)\<lparr>os_calls := n\<rparr>)"
  proof -
    have "busy_daemon\<lparr>os_calls := 0\<rparr> = busy_daemon" by (simp add: busy_daemon_def daemon_new_def on_world_def demo_daemon_def)
    then show thesis using busy_start that unfolding runs_def by metis
  qed
  let ?t = "(started eng)\<lparr>os_calls := n\<rparr>"
  define s where "s = snd (handle_client busy_env demo_fdt (\<lambda>_. Inr (Add_Console 0)) [1, 0, 0, 0, 0] ?t)"
  have "daemon_reachable busy_env demo_fdt (\<lambda>_. Inr (Add_Console 0)) (snd (startup busy_env busy_daemon))"
    unfolding busy_daemon_def by (rule daemon_reachable.start)
  then have reach: "daemon_reachable busy_env demo_fdt (\<lambda>_. Inr (Add_Console 0)) s"
    unfolding s_def start snd_conv by (rule daemon_reachable.client)
  have frame: "read_frame (\<lambda>_. Inr (Add_Console 0)) [1, 0, 0, 0, 0] = Inr (Add_Console 0, [])"
    by (simp add: read_frame_def read_exact_def MAX_FRAME_BYTES_def)
  have "l2cpus ?t 0 = Some fresh_slot" "\<not> slot_poisoned ?t 0" "dispatcher ?t" "\<not> dispatcher_poisoned ?t" "\<not> sl_virtio_console fresh_slot"
    by (simp_all add: started_def resumed_def on_metrics_def on_world_def mark_wedged_def put_slot_def start_console_def busy_daemon_def
        daemon_new_def fresh_slot_def)
  then have "l2cpus s 0 = Some (fresh_slot\<lparr>sl_virtio_console := True\<rparr>)" "\<not> slot_poisoned s 0" "dispatcher s" "\<not> dispatcher_poisoned s"
    using client_adds_console [OF frame, of ?t fresh_slot busy_env demo_fdt] by (simp_all add: s_def)
  then show ?thesis using reach by blast
qed


section \<open>What a stop leaves behind\<close>

lemma unregister_list_registry:
  "registry (world (fold unregister ks s)) = filter (\<lambda>(k, _). k \<notin> set ks) (registry (world s))"
  "uart_registry (world (fold unregister ks s)) = uart_registry (world s)"
  by (induction ks arbitrary: s)
    (auto simp: unregister_def on_world_def unregister_slot_def publish_active_mask_def Let_def map_remove_def case_prod_unfold)

lemma unregister_list_fields: "l2cpus (fold unregister ks s) = l2cpus s" "dram (world (fold unregister ks s)) = dram (world s)"
  by (induction ks arbitrary: s) (simp_all add: unregister_def on_world_def unregister_slot_def publish_active_mask_def Let_def)

lemma own_slots: "k \<in> set (map (engine_slot i) [0..<8]) \<longleftrightarrow> k div 8 = i"
proof -
  have "k = engine_slot (k div 8) (k mod 8)" by (simp add: engine_slot_def DEVS_PER_L2CPU_def)
  then show ?thesis by (auto simp: engine_slot_def DEVS_PER_L2CPU_def image_iff)
qed

text \<open>
  C12. In every state of the daemon, a stop of a booted core is answered with success and releases all the core had: its slot is free, no entry
  of the registry is left at one of its eight engine slots, its UART is unregistered, and the firmware polls
  none of its slots any more. The slots of the other cores, their entries and their UARTs are as before.
\<close>

theorem stop_releases_core:
  assumes "daemon_reachable E L decode s" "idx < 4" "l2cpus s (unat idx) = Some sl" "\<not> slot_poisoned s (unat idx)" "dispatcher s" "\<not> dispatcher_poisoned s"
  shows "\<exists>t. dispatch_stop idx s = (Inr Ok_Response, t) \<and> l2cpus t = (l2cpus s)(unat idx := None) \<and>
    registry (world t) = filter (\<lambda>(k, _). k div 8 \<noteq> unat idx) (registry (world s)) \<and>
    set (uart_registry (world t)) = set (uart_registry (world s)) - {unat idx} \<and>
    (\<forall>dev_idx < 8. \<not> bit (word (tile_l1 (world t)) (Ctrl CTRL_OFF_ACTIVE_SLOTS)) (engine_slot (unat idx) dev_idx)) \<and>
    dram (world t) = dram (world s)"
proof -
  let ?i = "unat idx"
  define d where "d = save_tail ?i (disconnect ?i (''l2cpu '' @ dec ?i @ '' stopped (client-requested)'') (put_slot ?i None s))"
  define u where "u = unregister_engine_slots ?i d"
  define t where "t = maybe_idle_pll (slot_shutdown ?i u)"
  have d: "l2cpus d = (l2cpus s)(?i := None)" "registry (world d) = registry (world s)" "uart_registry (world d) = uart_registry (world s)"
    "dispatcher d" "\<not> dispatcher_poisoned d" "dram (world d) = dram (world s)"
    using assms(5,6) by (simp_all add: d_def save_tail_def disconnect_def on_hub_def on_world_def put_slot_def split: prod.split)
  have run: "dispatch_stop idx s = (Inr Ok_Response, t)"
    using assms(2-4) by (simp add: dispatch_stop_def internal_stop_def validate_l2cpu_def with_slot_def guarded_def seq_def thn_def t_def u_def d_def)
  define r where "r = fold unregister (map (engine_slot ?i) [0..<8]) d"
  have r: "registry (world r) = filter (\<lambda>(k, _). k div 8 \<noteq> ?i) (registry (world s))" "uart_registry (world r) = uart_registry (world s)"
    "l2cpus r = (l2cpus s)(?i := None)" "dram (world r) = dram (world s)"
    unfolding r_def unregister_list_registry own_slots using d by (simp_all add: unregister_list_fields)
  have u: "u = on_world (unregister_uart ?i) r" using d(4,5) by (simp add: u_def unregister_engine_slots_fold r_def)
  have "registry_ok (world s)" using reachable_inv [OF assms(1)] by (simp add: daemon_inv_def)
  then have "disp_inv (world u)"
    unfolding u on_world_def unregister_uart_def using r by (auto simp: registry_ok_def entries_ok_def distinct_map_filter split_beta intro!: publish_inv)
  moreover have reg: "registry (world u) = registry (world r)" "uart_registry (world u) = removeAll ?i (uart_registry (world r))" "l2cpus u = l2cpus r" "dram (world u) = dram (world r)"
    by (simp_all add: u on_world_def unregister_uart_def publish_active_mask_def Let_def)
  moreover have "world t = world u" "l2cpus t = l2cpus u" by (simp_all add: t_def slot_shutdown_def maybe_idle_pll_def split: sum.split)
  moreover have "engine_slot ?i dev_idx div 8 = ?i" if "dev_idx < 8" for dev_idx using that by (simp add: engine_slot_def DEVS_PER_L2CPU_def)
  moreover have "slot_for_l2cpu j div 8 = j" for j by (simp add: slot_for_l2cpu_def layout_defs)
  ultimately show ?thesis using run r by (fastforce simp: disp_inv_def masks_ok_def)
qed

theorem stop_releases_core_witness:
  "\<exists>s t. daemon_reachable busy_env demo_fdt (\<lambda>_. Inr (Add_Console 0)) s \<and> l2cpus s 0 \<noteq> None \<and>
     dispatch_stop 0 s = (Inr Ok_Response, t) \<and> l2cpus t 0 = None \<and>
     \<not> bit (word (tile_l1 (world t)) (Ctrl CTRL_OFF_ACTIVE_SLOTS)) (engine_slot 0 DEV_CONSOLE)"
proof -
  obtain s where s: "daemon_reachable busy_env demo_fdt (\<lambda>_. Inr (Add_Console 0)) s"
    "l2cpus s 0 = Some (fresh_slot\<lparr>sl_virtio_console := True\<rparr>)" "\<not> slot_poisoned s 0" "dispatcher s" "\<not> dispatcher_poisoned s"
    using busy_console by blast
  then show ?thesis using stop_releases_core [OF s(1), of 0] by (auto simp: dev_defs)
qed

end
