(* ===== verification/Spec2Isabelle.thy ===== *)
theory Spec2Isabelle
  imports Prelude Guest_Memory Virtio_Queue Metrics Console_Hub Virtio_Blk Layout Layout_Host
    Firmware Firmware_Props Firmware_Races Firmware_Sweep Uart_Feed Virtio_Drain Data_Plane Data_Plane_Props
    Data_Plane_Inv End_To_End Clock Shared_Chip Telemetry Tile_Picker Tensix_Engine
    Virtio_Console Virtio_Rng Net_Checksum Virtio_Net Strings Errors Parse Wire_Protocol Fallible
    Chip_Fault Tlb_Windows Daemon Attachments Attachments_Inv Image_Load Device_Tree Purgatory Boot Boot_Inv
    Chip_Console Server Server_Inv
begin

text \<open>
  Verification of bhx: a host daemon that boots Linux on the RISC-V cores (L2CPUs) of a Blackhole card and
  gives them virtio devices, and the firmware that it loads into one Tensix tile of the card.

  \<^bold>\<open>The program and how its parts interact.\<close> The daemon (\<open>src/src\<close>) opens the card through the kernel driver, maps the
  memory of each core through TLB windows, and answers requests on a control socket. A boot loads the guest's
  image and device tree, registers the devices of the core and releases it from reset. A guest sees each
  device as a register file of virtio-mmio in the L1 memory of the engine tile. The firmware
  (\<open>src/brisc-firmware\<close>) polls these register files, copies the setup of a queue into shadow words, and turns a
  store to QUEUE_NOTIFY into a dirty byte. The dispatcher of the daemon collects the dirty bytes, walks the
  rings in the guest's memory, lets the device work on the buffers, and raises an interrupt. The consoles go
  through a hub that keeps a scrollback and fans out to clients.

  \<^bold>\<open>The theories\<close>, in the order of the layers; each opens with a note of its own.

  \<^item> \<open>Prelude\<close>: words, little-endian bytes, generic lemmas. \<open>Fallible\<close>: actions with a state that may fail.
  \<open>Strings\<close>, \<open>Errors\<close> (\<open>error.rs\<close>), \<open>Parse\<close> (\<open>parse.rs\<close>): text, the error type, the operator's input.
  \<^item> \<open>Guest_Memory\<close>: the memory of a core as bytes, with a flag for an access outside of it.
  \<open>Virtio_Queue\<close> (\<open>virtio/mod.rs\<close>): descriptors, rings, \<open>process_one_chain_for_queue\<close>, and the contract
  \<open>virtio_device\<close> of a device. \<open>Virtio_Drain\<close>: the loop over the waiting chains.
  \<^item> \<open>Virtio_Blk\<close>, \<open>Virtio_Console\<close>, \<open>Virtio_Net\<close> with \<open>Net_Checksum\<close>, \<open>Virtio_Rng\<close>: the four devices of
  \<open>virtio/\<close>. Each interprets the contract on its own operations.
  \<^item> \<open>Layout\<close> and \<open>Layout_Host\<close>: the words of L1 as the C headers and as the daemon declare them, and
  \<open>x280_tlb.rs\<close>. \<open>Firmware\<close>: the handlers of \<open>virtio.c\<close> in the state monad; \<open>Firmware_Props\<close>,
  \<open>Firmware_Races\<close> and \<open>Firmware_Sweep\<close>: what they guarantee. \<open>Uart_Feed\<close>: the UART of TRISC0 and its drain.
  \<^item> \<open>Data_Plane\<close> (\<open>tensix_data_plane.rs\<close>, \<open>virtio/interrupt.rs\<close>): registry, bitmaps, dispatch, the passes of
  the poll loop; \<open>Data_Plane_Props\<close> and \<open>Data_Plane_Inv\<close>: its properties. \<open>End_To_End\<close>: firmware and dispatcher
  composed for any device; the present theory does it for the disk.
  \<^item> \<open>Metrics\<close> (\<open>daemon/metrics.rs\<close>), \<open>Console_Hub\<close> (\<open>daemon/console_hub.rs\<close>), \<open>Chip_Console\<close>
  (\<open>daemon/chip_console.rs\<close>), \<open>Chip_Fault\<close> (\<open>daemon/sigbus.rs\<close>), \<open>Wire_Protocol\<close> (\<open>daemon/protocol.rs\<close>).
  \<^item> \<open>Clock\<close> (\<open>clock.rs\<close>), \<open>Shared_Chip\<close> (\<open>shared_chip.rs\<close>, \<open>chip.rs\<close>), \<open>Telemetry\<close> (\<open>telemetry.rs\<close>), \<open>Tile_Picker\<close>
  (\<open>tensix_tile.rs\<close>), \<open>Tensix_Engine\<close> (\<open>tensix.rs\<close>, \<open>tensix_engine.rs\<close>), \<open>Tlb_Windows\<close> (\<open>tlb.rs\<close>, \<open>l2cpu.rs\<close>).
  \<^item> \<open>Daemon\<close> (\<open>daemon/mod.rs\<close>): the state of the daemon and what the operating system answers. The handlers of
  \<open>daemon/server.rs\<close> are in \<open>Attachments\<close> (devices, stop), \<open>Purgatory\<close> (parked guests), \<open>Boot\<close> and \<open>Server\<close>
  (requests, report, start and end); \<open>Image_Load\<close> and \<open>Device_Tree\<close> are \<open>boot.rs\<close> and \<open>fdt_ffi.rs\<close>.
  \<open>Attachments_Inv\<close>, \<open>Boot_Inv\<close> and \<open>Server_Inv\<close>: the invariant that all of them keep.

  \<^bold>\<open>State and operations.\<close> A struct is a record with the fields of the source, an enum a datatype, a function or
  method a definition of the same name with its state as an argument. \<open>fw\<close> is the tile's L1 with the stores
  that arrive from outside between two accesses of the firmware; \<open>disp\<close> is the dispatcher with the memories of
  the cores; \<open>daemon\<close> is the whole process. A failed assertion, a panic and an access outside of a mapping are
  values (\<open>None\<close>, \<open>Crash\<close>, the flag \<open>gm_fault\<close> of a memory), never left unspecified. Integers have the width of
  the source.

  \<^bold>\<open>What the lemmas show.\<close>

  \<^item> \<^emph>\<open>Data path\<close>: a read and a write of the disk from the guest's store to the interrupt, and their round trip;
  the setup captured by the firmware is the one dispatched; a dispatch serves exactly the waiting chains up to
  the first malformed one and stays inside the mapping whatever the guest has written; the devices' requests
  (disk errors, keystrokes, network frames in both directions with the checksum, entropy).
  \<^item> \<^emph>\<open>Firmware\<close>: the words of L1 are disjoint and both sides agree on them; a poll of one slot touches nothing of
  the others; the sweep visits exactly the registered slots; the TRISC cores run exactly when they are needed;
  the UART feed and the rings of the console are queues.
  \<^item> \<^emph>\<open>Dispatcher bookkeeping\<close>: every notification is collected once, a reset that is seen rewinds the cursors, the
  counters lose nothing.
  \<^item> \<^emph>\<open>Daemon\<close>: in every reachable state the attached devices are served, a stop leaves nothing behind, a board
  reset spares running guests, an image is loaded to its place, a device tree has its reservations, the hub has
  at most one writer and a bounded scrollback, frames of the socket are read as written.
  \<^item> \<^emph>\<open>Chip access\<close>: clocks never overshoot, the release of cores changes nothing else, the tile picked is
  reachable, the engine comes up or is adopted by the same build, telemetry reads stay in their window, the
  windows of a core reach its memory and are given back, faults are attributed to the registered ranges.

  \<^bold>\<open>Interfaces.\<close> \<open>virtio_device\<close> is the contract between the queue framework and a device, interpreted by all
  four devices and used by the dispatcher; \<open>bounded_log\<close> is the scrollback, \<open>byte_fifo\<close> the UART feed, \<open>fw_frame\<close>
  what the handlers of the firmware leave unchanged, \<open>slot_watcher\<close> the two watchers of TRISC1 and TRISC2.

  \<^bold>\<open>Bounds.\<close> A dispatch has fuel \<open>2 ^ 16\<close>: the distance of the 16-bit indices is smaller, and
  \<open>dispatch_serves_queue\<close> shows that it suffices; a chain ends after \<open>queue_num\<close> descriptors as in the code. The
  loops with a deadline (boot of the firmware, acknowledgement, board reset, a guest that parks) get the number of
  reads, or the list of what is read, before the deadline; the theorems hold for all of them. \<open>poll_hello\<close> and the loop of the console thread may run forever
  and have fuel; the invariants hold for every amount of it. All other loops terminate without fuel.

  \<^bold>\<open>Parameters.\<close> Code that is not part of the repository is an argument, and what is relied on a named hypothesis:
  the kernel driver and the operating system (\<open>env\<close>, \<open>e_window\<close>, the calls of \<open>Tlb_Windows\<close>), libfdt, the JSON text of a message,
  the user-mode network stack, \<open>getrandom\<close>, the hardware that decodes a TLB window, and what the tile answers
  while the firmware boots (in \<open>engine_comes_up\<close>: that it answers as the firmware modelled here).

  \<^bold>\<open>Not modelled.\<close> Threads and locks: handlers, dispatcher and console threads are steps of one sequence, except in
  \<open>Chip_Fault\<close>, where the compare-and-swap races are steps, and in the firmware, where foreign stores arrive
  between any two accesses. The guest does not change its memory during one dispatch. Time is the order of
  steps; sleeps and memory fences are left out. Also left out, as input and output: the command line, the terminal
  client, pid files and sandboxing, profiles, image downloads and cloud-init, the metrics exporter, logging, the
  assembly entry code of the firmware and the build.
\<close>

section \<open>A request from the guest's store to the completion\<close>

text \<open>
  The state in which a request is picked up: the guest has put one chain into the ring of queue 0 of a
  configured block device and stored 0 to QUEUE_NOTIFY; firmware \<open>f\<close> and dispatcher \<open>s\<close> are idle, and the
  dispatcher serves this device.
\<close>

definition request_notified :: "nat \<Rightarrow> fw \<Rightarrow> virtio_blk disp \<Rightarrow> virtio_blk reg_entry \<Rightarrow> u16 \<Rightarrow> vqueue \<Rightarrow> bool" where
  "request_notified slot f s reg p vq \<longleftrightarrow>
     slot < 32 \<and> arrivals f = [] \<and> setup_idle slot (l1 f) \<and> word (l1 f) (Reg slot VIRTIO_MMIO_QUEUE_NOTIFY) = 0 \<and>
     registry s = [(slot, reg)] \<and> re_slot reg = slot \<and> re_processed reg = [p] \<and> 5 \<le> re_irq reg \<and>
     shadow_vqueue (l1 f) (re_l2cpu reg) slot 0 16 = Some vq \<and>
     rings_apart 16 vq (dram s (re_l2cpu reg)) \<and> gm_u16 (dram s (re_l2cpu reg)) (avail_q vq + 2) = p + 1"

abbreviation blk_state :: "virtio_blk disp \<Rightarrow> virtio_blk reg_entry \<Rightarrow> blk_ctx" where
  "blk_state s reg \<equiv> \<lparr>dev = re_device reg, mem = dram s (re_l2cpu reg), wld = hst s\<rparr>"

text \<open>One poll of the firmware and one pass of the dispatcher over the L1 that it leaves.\<close>

definition poll_and_drain :: "nat \<Rightarrow> fw \<Rightarrow> virtio_blk disp \<Rightarrow> (nat \<times> virtio_blk disp) option" where
  "poll_and_drain slot f s =
     drain_dirty_bitmap (2 ^ 16) blk_ops (s\<lparr>tile_l1 := l1 (snd (run_state (poll_one_device slot) f))\<rparr>)"

lemma request_served:
  assumes rq: "request_notified slot f s reg p vq"
    and run: "process_one_chain_for_queue blk_ops vq p (blk_state s reg) = Some (True, p + 1, c)"
  shows "\<exists>s'. poll_and_drain slot f s = Some (1, s') \<and> dram s' = (dram s)(re_l2cpu reg := mem c) \<and>
    gm_u16 (mem c) (used_q vq + 2) = gm_u16 (dram s (re_l2cpu reg)) (used_q vq + 2) + 1 \<and>
    registry s' = [(slot, reg\<lparr>re_device := dev c, re_processed := [p + 1]\<rparr>)] \<and>
    plic s' (re_l2cpu reg) = plic s (re_l2cpu reg) @ [push_bit (unat (re_irq reg - 5) mod 32) 1, 0]"
proof -
  note a = rq [unfolded request_notified_def]
  let ?m = "l1 (snd (run_state (poll_one_device slot) f))"
  have st: "word (l1 f) (Reg slot VIRTIO_MMIO_STATUS) = word (l1 f) (Snap slot SNAP_OFF_STATUS)"
    using a by (simp add: setup_idle_def)
  have dirty: "dirty_byte ?m slot 0 \<noteq> 0" using notify_sets_dirty [of slot f 0] st a by (simp add: Let_def)
  have "shadow_vqueue ?m (re_l2cpu reg) slot 0 16 = Some vq"
    using a poll_keeps_shadow [of slot f slot 0] shadow_vqueue_cong [of ?m slot 0 "l1 f"] by simp
  then show ?thesis unfolding poll_and_drain_def
    using notified_chain_dispatched [OF blk_dev.virtio_device_axioms, of "s\<lparr>tile_l1 := ?m\<rparr>" slot reg p vq c] a dirty run
    by (simp del: power_numeral)
qed

lemma read_served:
  assumes "request_notified slot f s reg p vq" "blk_request vq p (blk_state s reg) hdr ds st"
    and "hdr_type (dram s (re_l2cpu reg)) (desc_offset vq hdr) = VIRTIO_BLK_T_IN"
    and "pos = 512 * unat (hdr_sector (dram s (re_l2cpu reg)) (desc_offset vq hdr))"
    and "sector_size (re_device reg) = 512" "length (mapped_data (re_device reg)) < 2 ^ 64"
    and "pos + dlens ds \<le> length (mapped_data (re_device reg))"
  shows "\<exists>s'. poll_and_drain slot f s = Some (1, s') \<and>
    dloads (dram s' (re_l2cpu reg)) vq ds = take (dlens ds) (drop pos (mapped_data (re_device reg))) \<and>
    gm_load (dram s' (re_l2cpu reg)) (desc_offset vq st) 1 = [VIRTIO_BLK_S_OK] \<and>
    gm_u16 (dram s' (re_l2cpu reg)) (used_q vq + 2) = gm_u16 (dram s (re_l2cpu reg)) (used_q vq + 2) + 1 \<and>
    plic s' (re_l2cpu reg) = plic s (re_l2cpu reg) @ [push_bit (unat (re_irq reg - 5) mod 32) 1, 0]"
proof -
  obtain c where c: "process_one_chain_for_queue blk_ops vq p (blk_state s reg) = Some (True, p + 1, c)"
    "dloads (mem c) vq ds = take (dlens ds) (drop pos (mapped_data (re_device reg)))"
    "gm_load (mem c) (desc_offset vq st) 1 = [VIRTIO_BLK_S_OK]"
    using blk_read_request [OF assms(2), of pos] assms(3-7) by auto
  from request_served [OF assms(1) c(1)] c(2,3) show ?thesis by auto
qed

lemma demo_request_notified:
  assumes "\<forall>a < 80. map_of extra a = None"
  shows "request_notified 0 (demo_fw\<lparr>l1 := demo_shadow\<rparr>) ((demo_disp extra)\<lparr>registry := [(0, demo_entry\<lparr>re_device := d\<rparr>)]\<rparr>)
      (demo_entry\<lparr>re_device := d\<rparr>) 0 demo_vq"
    and "blk_request demo_vq 0 (blk_state ((demo_disp extra)\<lparr>registry := [(0, demo_entry\<lparr>re_device := d\<rparr>)]\<rparr>)
      (demo_entry\<lparr>re_device := d\<rparr>)) demo_req_hdr [demo_req_data] demo_req_status"
proof -
  show "request_notified 0 (demo_fw\<lparr>l1 := demo_shadow\<rparr>) ((demo_disp extra)\<lparr>registry := [(0, demo_entry\<lparr>re_device := d\<rparr>)]\<rparr>)
      (demo_entry\<lparr>re_device := d\<rparr>) 0 demo_vq"
    using demo_rings_apart [OF assms] demo_rings_descs(5) [OF assms] demo_shadow_vqueue
    by (simp add: request_notified_def setup_idle_def) (simp add: demo_shadow_def word_put)
  show "blk_request demo_vq 0 (blk_state ((demo_disp extra)\<lparr>registry := [(0, demo_entry\<lparr>re_device := d\<rparr>)]\<rparr>)
      (demo_entry\<lparr>re_device := d\<rparr>)) demo_req_hdr [demo_req_data] demo_req_status"
    using demo_ring_request [OF assms] by simp
qed

lemma demo_same_entry:
  "demo_entry\<lparr>re_device := re_device demo_entry\<rparr> = demo_entry" "(demo_disp extra)\<lparr>registry := [(0, demo_entry)]\<rparr> = demo_disp extra"
  by (simp_all add: demo_disp_def)

lemmas demo_notified = demo_request_notified [of _ "re_device demo_entry", unfolded demo_same_entry]

lemma demo_headers:
  "hdr_type (demo_rings []) 128 = VIRTIO_BLK_T_IN" "hdr_sector (demo_rings []) 128 = 0"
  "hdr_type (demo_rings ([(128, 1), (144, 5), (145, 6), (146, 7), (147, 8)])) 128 = VIRTIO_BLK_T_OUT"
  "hdr_sector (demo_rings ([(128, 1), (144, 5), (145, 6), (146, 7), (147, 8)])) 128 = 0"
  by (simp_all add: hdr_type_def hdr_sector_def demo_rings_def gm_load_def upt_rec_numeral upt_rec blk_consts)

text \<open>
  C1. A block read, end to end. The guest queues a read of a range of the disk and stores to
  QUEUE_NOTIFY. After one poll of the firmware and one pass of the dispatcher, its buffers hold exactly
  those bytes of the disk, the status byte is OK, used.idx has advanced by one, and the guest's interrupt
  has been pulsed once.
\<close>

theorem guest_read_served:
  assumes "request_notified slot f s reg p vq" "blk_request vq p (blk_state s reg) hdr ds st"
    and "hdr_type (dram s (re_l2cpu reg)) (desc_offset vq hdr) = VIRTIO_BLK_T_IN"
    and "pos = 512 * unat (hdr_sector (dram s (re_l2cpu reg)) (desc_offset vq hdr))"
    and "sector_size (re_device reg) = 512" "length (mapped_data (re_device reg)) < 2 ^ 64"
    and "pos + dlens ds \<le> length (mapped_data (re_device reg))"
  shows "\<exists>s'. poll_and_drain slot f s = Some (1, s') \<and>
    dloads (dram s' (re_l2cpu reg)) vq ds = take (dlens ds) (drop pos (mapped_data (re_device reg))) \<and>
    gm_load (dram s' (re_l2cpu reg)) (desc_offset vq st) 1 = [VIRTIO_BLK_S_OK] \<and>
    gm_u16 (dram s' (re_l2cpu reg)) (used_q vq + 2) = gm_u16 (dram s (re_l2cpu reg)) (used_q vq + 2) + 1 \<and>
    plic s' (re_l2cpu reg) = plic s (re_l2cpu reg) @ [push_bit (unat (re_irq reg - 5) mod 32) 1, 0]"
  by (rule read_served [OF assms])

theorem guest_read_served_witness:
  "\<exists>s'. poll_and_drain 0 (demo_fw\<lparr>l1 := demo_shadow\<rparr>) (demo_disp []) = Some (1, s') \<and>
    dloads (dram s' 0) demo_vq [demo_req_data] = [10, 20, 30, 40] \<and> gm_load (dram s' 0) 148 1 = [VIRTIO_BLK_S_OK] \<and>
    plic s' 0 = [0x10000000, 0]"
  using guest_read_served [OF demo_notified [of "[]"], of 0] demo_headers
  by (simp add: demo_disk_def push_bit_eq_mult) blast

lemma write_served:
  assumes "request_notified slot f s reg p vq" "blk_request vq p (blk_state s reg) hdr ds st"
    and "hdr_type (dram s (re_l2cpu reg)) (desc_offset vq hdr) = VIRTIO_BLK_T_OUT"
    and "pos = 512 * unat (hdr_sector (dram s (re_l2cpu reg)) (desc_offset vq hdr))"
    and "sector_size (re_device reg) = 512" "length (mapped_data (re_device reg)) < 2 ^ 64"
    and "pos + dlens ds \<le> length (mapped_data (re_device reg))"
  shows "\<exists>s' d'. poll_and_drain slot f s = Some (1, s') \<and>
    registry s' = [(slot, reg\<lparr>re_device := d', re_processed := [p + 1]\<rparr>)] \<and>
    mapped_data d' = overwrite pos (dloads (dram s (re_l2cpu reg)) vq ds) (mapped_data (re_device reg)) \<and> sector_size d' = 512 \<and>
    gm_load (dram s' (re_l2cpu reg)) (desc_offset vq st) 1 = [VIRTIO_BLK_S_OK] \<and>
    gm_u16 (dram s' (re_l2cpu reg)) (used_q vq + 2) = gm_u16 (dram s (re_l2cpu reg)) (used_q vq + 2) + 1 \<and>
    plic s' (re_l2cpu reg) = plic s (re_l2cpu reg) @ [push_bit (unat (re_irq reg - 5) mod 32) 1, 0]"
proof -
  obtain c where c: "process_one_chain_for_queue blk_ops vq p (blk_state s reg) = Some (True, p + 1, c)"
    "mapped_data (dev c) = overwrite pos (dloads (dram s (re_l2cpu reg)) vq ds) (mapped_data (re_device reg))"
    "gm_load (mem c) (desc_offset vq st) 1 = [VIRTIO_BLK_S_OK]"
    using blk_write_request [OF assms(2), of pos] assms(3-7) by auto
  have "sector_size (dev c) = 512" using blk_request_sector_size [OF assms(2) c(1)] assms(5) by simp
  moreover from request_served [OF assms(1) c(1)] obtain s' where
    "poll_and_drain slot f s = Some (1, s')" "dram s' = (dram s)(re_l2cpu reg := mem c)"
    "gm_u16 (mem c) (used_q vq + 2) = gm_u16 (dram s (re_l2cpu reg)) (used_q vq + 2) + 1"
    "registry s' = [(slot, reg\<lparr>re_device := dev c, re_processed := [p + 1]\<rparr>)]"
    "plic s' (re_l2cpu reg) = plic s (re_l2cpu reg) @ [push_bit (unat (re_irq reg - 5) mod 32) 1, 0]"
    by blast
  ultimately show ?thesis using c(2,3) by (intro exI [of _ s'] exI [of _ "dev c"]) simp
qed

text \<open>
  C2. A block write, end to end. After one poll of the firmware and one pass of the dispatcher the
  device's disk image is the old one with the bytes from 512 * sector on replaced by the contents of the
  guest's buffers, the status byte is OK, used.idx has advanced by one, and the interrupt has been pulsed
  once.
\<close>

theorem guest_write_served:
  assumes "request_notified slot f s reg p vq" "blk_request vq p (blk_state s reg) hdr ds st"
    and "hdr_type (dram s (re_l2cpu reg)) (desc_offset vq hdr) = VIRTIO_BLK_T_OUT"
    and "pos = 512 * unat (hdr_sector (dram s (re_l2cpu reg)) (desc_offset vq hdr))"
    and "sector_size (re_device reg) = 512" "length (mapped_data (re_device reg)) < 2 ^ 64"
    and "pos + dlens ds \<le> length (mapped_data (re_device reg))"
  shows "\<exists>s' d'. poll_and_drain slot f s = Some (1, s') \<and>
    registry s' = [(slot, reg\<lparr>re_device := d', re_processed := [p + 1]\<rparr>)] \<and>
    mapped_data d' = overwrite pos (dloads (dram s (re_l2cpu reg)) vq ds) (mapped_data (re_device reg)) \<and>
    gm_load (dram s' (re_l2cpu reg)) (desc_offset vq st) 1 = [VIRTIO_BLK_S_OK] \<and>
    gm_u16 (dram s' (re_l2cpu reg)) (used_q vq + 2) = gm_u16 (dram s (re_l2cpu reg)) (used_q vq + 2) + 1 \<and>
    plic s' (re_l2cpu reg) = plic s (re_l2cpu reg) @ [push_bit (unat (re_irq reg - 5) mod 32) 1, 0]"
  using write_served [OF assms] by blast

theorem guest_write_served_witness:
  "\<exists>s' d'. poll_and_drain 0 (demo_fw\<lparr>l1 := demo_shadow\<rparr>) (demo_disp ([(128, 1), (144, 5), (145, 6), (146, 7), (147, 8)])) = Some (1, s') \<and>
    map (mapped_data \<circ> re_device \<circ> snd) (registry s') = [[5, 6, 7, 8, 50, 60, 70, 80]]"
proof -
  let ?x = "[(128, 1), (144, 5), (145, 6), (146, 7), (147, 8)] :: (nat \<times> u8) list"
  have bs: "dloads (demo_rings ?x) demo_vq [demo_req_data] = [5, 6, 7, 8]"
    by (simp add: demo_rings_def gm_load_def upt_rec_numeral)
  have ty: "hdr_type (dram (demo_disp ?x) (re_l2cpu demo_entry)) (desc_offset demo_vq demo_req_hdr) = VIRTIO_BLK_T_OUT"
    "hdr_sector (dram (demo_disp ?x) (re_l2cpu demo_entry)) (desc_offset demo_vq demo_req_hdr) = 0" using demo_headers by simp_all
  have out: "\<forall>a < 80. map_of ?x a = None" by simp
  have d: "overwrite 0 [5, 6, 7, 8] demo_disk = [5, 6, 7, 8, 50, 60, 70, 80]" by (simp add: overwrite_def demo_disk_def)
  have "\<exists>s' d'. poll_and_drain 0 (demo_fw\<lparr>l1 := demo_shadow\<rparr>) (demo_disp ?x) = Some (1, s') \<and>
      registry s' = [(0, demo_entry\<lparr>re_device := d', re_processed := [0 + 1]\<rparr>)] \<and>
      mapped_data d' = overwrite 0 (dloads (dram (demo_disp ?x) (re_l2cpu demo_entry)) demo_vq [demo_req_data]) (mapped_data (re_device demo_entry))"
    using guest_write_served [OF demo_notified [OF out] ty(1), of 0] ty(2) by (simp add: demo_disk_def) blast
  then show ?thesis using bs d by auto
qed

text \<open>
  C3. What the guest writes is what it reads back. A write request, and later a read request of the same
  sector and length to the device as the write left it, each notified and served: the buffers of the read
  hold the bytes that the buffers of the write held.
\<close>

theorem written_data_read_back:
  assumes w: "request_notified slot f s reg p vq" "blk_request vq p (blk_state s reg) hdr ds st"
      "hdr_type (dram s (re_l2cpu reg)) (desc_offset vq hdr) = VIRTIO_BLK_T_OUT"
    and disk: "sector_size (re_device reg) = 512" "length (mapped_data (re_device reg)) < 2 ^ 64"
      "512 * unat (hdr_sector (dram s (re_l2cpu reg)) (desc_offset vq hdr)) + dlens ds \<le> length (mapped_data (re_device reg))"
    and between: "poll_and_drain slot f s = Some (n, s1)" "map (re_device \<circ> snd) (registry s1) = [re_device reg2]"
    and r: "request_notified slot f2 s2 reg2 p2 vq2" "blk_request vq2 p2 (blk_state s2 reg2) hdr2 ds2 st2"
      "hdr_type (dram s2 (re_l2cpu reg2)) (desc_offset vq2 hdr2) = VIRTIO_BLK_T_IN"
    and same: "hdr_sector (dram s2 (re_l2cpu reg2)) (desc_offset vq2 hdr2) = hdr_sector (dram s (re_l2cpu reg)) (desc_offset vq hdr)"
      "dlens ds2 = dlens ds"
  shows "\<exists>s3. poll_and_drain slot f2 s2 = Some (1, s3) \<and>
    dloads (dram s3 (re_l2cpu reg2)) vq2 ds2 = dloads (dram s (re_l2cpu reg)) vq ds \<and>
    gm_load (dram s3 (re_l2cpu reg2)) (desc_offset vq2 st2) 1 = [VIRTIO_BLK_S_OK]"
proof -
  let ?pos = "512 * unat (hdr_sector (dram s (re_l2cpu reg)) (desc_offset vq hdr))"
  let ?bs = "dloads (dram s (re_l2cpu reg)) vq ds"
  have len: "?pos + length ?bs \<le> length (mapped_data (re_device reg))" using disk(3) by simp
  from write_served [OF w refl disk] obtain s' d' where
    s': "poll_and_drain slot f s = Some (1, s')" "registry s' = [(slot, reg\<lparr>re_device := d', re_processed := [p + 1]\<rparr>)]"
    and d: "mapped_data d' = overwrite ?pos ?bs (mapped_data (re_device reg))" "sector_size d' = 512"
    by blast
  have d': "re_device reg2 = d'" using between s' by simp
  have l: "length (mapped_data d') = length (mapped_data (re_device reg))" unfolding d(1) by (rule length_overwrite [OF len])
  have "take (dlens ds2) (drop ?pos (mapped_data d')) = ?bs"
    using take_drop_overwrite [OF len] same(2) by (simp add: d(1))
  moreover have "sector_size (re_device reg2) = 512" "length (mapped_data (re_device reg2)) < 2 ^ 64"
    "512 * unat (hdr_sector (dram s2 (re_l2cpu reg2)) (desc_offset vq2 hdr2)) + dlens ds2 \<le> length (mapped_data (re_device reg2))"
    unfolding d' l same by (rule d(2) disk(2,3))+
  from read_served [OF r refl this] obtain s3 where
    "poll_and_drain slot f2 s2 = Some (1, s3)" "gm_load (dram s3 (re_l2cpu reg2)) (desc_offset vq2 st2) 1 = [VIRTIO_BLK_S_OK]"
    "dloads (dram s3 (re_l2cpu reg2)) vq2 ds2 = take (dlens ds2) (drop ?pos (mapped_data d'))"
    unfolding d' same by blast
  ultimately show ?thesis by (intro exI [of _ s3]) simp
qed

theorem written_data_read_back_witness:
  "\<exists>s1 d' s3. poll_and_drain 0 (demo_fw\<lparr>l1 := demo_shadow\<rparr>) (demo_disp ([(128, 1), (144, 5), (145, 6), (146, 7), (147, 8)])) = Some (1, s1) \<and>
    map (re_device \<circ> snd) (registry s1) = [d'] \<and>
    poll_and_drain 0 (demo_fw\<lparr>l1 := demo_shadow\<rparr>) ((demo_disp [])\<lparr>registry := [(0, demo_entry\<lparr>re_device := d'\<rparr>)]\<rparr>) = Some (1, s3) \<and>
    dloads (dram s3 0) demo_vq [demo_req_data] = [5, 6, 7, 8]"
proof -
  let ?f = "demo_fw\<lparr>l1 := demo_shadow\<rparr>" and ?s = "demo_disp ([(128, 1), (144, 5), (145, 6), (146, 7), (147, 8)])"
  note w = demo_notified [of "[(128, 1), (144, 5), (145, 6), (146, 7), (147, 8)]"]
  have ty: "hdr_type (dram ?s (re_l2cpu demo_entry)) (desc_offset demo_vq demo_req_hdr) = VIRTIO_BLK_T_OUT"
    "hdr_sector (dram ?s (re_l2cpu demo_entry)) (desc_offset demo_vq demo_req_hdr) = 0" using demo_headers by simp_all
  have disk: "512 * unat (hdr_sector (dram ?s (re_l2cpu demo_entry)) (desc_offset demo_vq demo_req_hdr)) + dlens [demo_req_data]
      \<le> length (mapped_data (re_device demo_entry))"
    "length (mapped_data (re_device demo_entry)) < 2 ^ 64" "sector_size (re_device demo_entry) = 512"
    unfolding ty by (simp_all add: demo_disk_def)
  have out: "\<forall>a < 80. map_of ([(128 :: nat, 1 :: u8), (144, 5), (145, 6), (146, 7), (147, 8)]) a = None" by simp
  from write_served [OF w [OF out] ty(1) refl disk(3,2,1)] obtain s1 d' where
    1: "poll_and_drain 0 ?f ?s = Some (1, s1)" "registry s1 = [(0, demo_entry\<lparr>re_device := d', re_processed := [0 + 1]\<rparr>)]"
    by blast
  let ?e = "demo_entry\<lparr>re_device := d'\<rparr>"
  have m: "map (re_device \<circ> snd) (registry s1) = [re_device ?e]" using 1(2) by simp
  have none: "\<forall>a < 80. map_of ([] :: (nat \<times> u8) list) a = None" by simp
  have "dloads (demo_rings ([(128, 1), (144, 5), (145, 6), (146, 7), (147, 8)])) demo_vq [demo_req_data] = [5, 6, 7, 8]"
    by (simp add: demo_rings_def gm_load_def upt_rec_numeral)
  then show ?thesis
    using written_data_read_back [OF w [OF out] ty(1) disk(3,2,1) 1(1) m demo_request_notified [OF none]] 1 demo_headers
    by simp blast
qed

section \<open>A queue from the guest's setup registers to the dispatcher\<close>

text \<open>
  C4. The queue that the dispatcher serves is the one that the guest set up. When the guest has written
  the size and the three ring addresses of the selected queue and then QUEUE_READY, one poll of the
  firmware puts the queue into the shadow, and the dispatcher reads from there exactly the guest's rings,
  as offsets into the memory of its L2CPU.
\<close>

theorem configured_queue_dispatched:
  assumes "slot < 32" "arrivals s = []"
    and "word (l1 s) (Reg slot VIRTIO_MMIO_STATUS) = word (l1 s) (Snap slot SNAP_OFF_STATUS)"
    and "word (l1 s) (Reg slot VIRTIO_MMIO_QUEUE_SEL) = sel" "word (l1 s) (Snap slot SNAP_OFF_QUEUE_SEL) = sel" "unat sel < 8"
    and "word (l1 s) (Reg slot VIRTIO_MMIO_QUEUE_READY) \<noteq> 0"
    and "desc = join32 (word (l1 s) (Reg slot VIRTIO_MMIO_QUEUE_DESC_HIGH)) (word (l1 s) (Reg slot VIRTIO_MMIO_QUEUE_DESC_LOW))"
    and "avail = join32 (word (l1 s) (Reg slot VIRTIO_MMIO_QUEUE_DRIVER_HIGH)) (word (l1 s) (Reg slot VIRTIO_MMIO_QUEUE_DRIVER_LOW))"
    and "used = join32 (word (l1 s) (Reg slot VIRTIO_MMIO_QUEUE_DEVICE_HIGH)) (word (l1 s) (Reg slot VIRTIO_MMIO_QUEUE_DEVICE_LOW))"
    and "num = word (l1 s) (Reg slot VIRTIO_MMIO_QUEUE_NUM)" "0 < num" "unat num < 2 ^ 16"
    and "start = L2CPU_STARTING_ADDRESS l" "stop = start + L2CPU_MEMORY_SIZE l" "0 < start"
    and "in_range start stop desc 16" "in_range start stop avail 4" "in_range start stop used 4"
  shows "shadow_vqueue (l1 (snd (run_state (poll_one_device slot) s))) l slot (unat sel) hs =
    Some \<lparr>desc_q = unat (desc - start), avail_q = unat (avail - start), used_q = unat (used - start),
          queue_idx = word_of_nat (unat sel), header_size = hs, queue_num = ucast num, starting_address = start, mem_end = stop\<rparr>"
proof -
  let ?m = "l1 (snd (run_state (poll_one_device slot) s))"
  have "setup_shadow ?m slot (unat sel) = setup_regs (l1 s) slot"
    using queue_setup_captured [OF assms(1-6) refl assms(7)] by (simp add: Let_def)
  then have w: "word ?m (Shadow slot (unat sel) SHADOW_Q_OFF_NUM) = num"
    "join32 (word ?m (Shadow slot (unat sel) SHADOW_Q_OFF_DESC_HI)) (word ?m (Shadow slot (unat sel) SHADOW_Q_OFF_DESC_LO)) = desc"
    "join32 (word ?m (Shadow slot (unat sel) SHADOW_Q_OFF_DRIVER_HI)) (word ?m (Shadow slot (unat sel) SHADOW_Q_OFF_DRIVER_LO)) = avail"
    "join32 (word ?m (Shadow slot (unat sel) SHADOW_Q_OFF_DEVICE_HI)) (word ?m (Shadow slot (unat sel) SHADOW_Q_OFF_DEVICE_LO)) = used"
    unfolding assms(8-11) by (simp_all add: setup_shadow_def setup_regs_def FIELDS_def)
  have nz: "desc \<noteq> 0" "avail \<noteq> 0" "used \<noteq> 0" "num \<noteq> 0" "\<not> unat num > 0xFFFF"
    using assms(12,13,16-19) by (auto simp: in_range_def)
  show ?thesis unfolding shadow_vqueue_def Let_def w using nz assms(14,15,17-19) by simp
qed

definition demo_configured :: fw where
  "demo_configured = demo_fw\<lparr>l1 := fold (\<lambda>(r, v). put (Reg 0 r) v)
     [(VIRTIO_MMIO_QUEUE_NUM, 4), (VIRTIO_MMIO_QUEUE_DESC_LOW, 0x30000000), (VIRTIO_MMIO_QUEUE_DESC_HIGH, 0x4000),
      (VIRTIO_MMIO_QUEUE_DRIVER_LOW, 0x30000040), (VIRTIO_MMIO_QUEUE_DRIVER_HIGH, 0x4000),
      (VIRTIO_MMIO_QUEUE_DEVICE_LOW, 0x30000050), (VIRTIO_MMIO_QUEUE_DEVICE_HIGH, 0x4000), (VIRTIO_MMIO_QUEUE_READY, 1)] zero_l1\<rparr>"

theorem configured_queue_dispatched_witness:
  "shadow_vqueue (l1 (snd (run_state (poll_one_device 0) demo_configured))) 0 0 0 16 = Some demo_vq"
  using configured_queue_dispatched [OF _ _ _ _ _ _ _ refl refl refl refl _ _ refl refl, of 0 demo_configured 0 0 16]
  by (simp add: demo_configured_def word_put join32_def in_range_def saturating_add_def L2CPU_STARTING_ADDRESS_def
      L2CPU_MEMORY_SIZE_def demo_vq_def)

end
